(* ===== verification/Prelude.thy ===== *)
theory Prelude
  imports Main "HOL-Library.Word" "HOL-Library.Sublist"
begin

unbundle bit_operations_syntax

text \<open>
  Shared vocabulary of the development.

  \<^item> The collections \<open>go_simps\<close> (unfolding facts of the library functions below) and
    \<open>go_intros\<close>.
  \<^item> Go strings are byte sequences: \<^typ>\<open>string\<close>. The functions of the packages
    \<open>strings\<close> and \<open>strconv\<close> that the sources call are written out here on
    ASCII text (case mapping and white space of code points above 127 are not modelled).
  \<^item> A Go function that can panic returns \<open>'a outcome\<close>: \<open>Ret x\<close> for a normal
    return, \<open>Panic\<close> for a run-time panic.
  \<^item> Bit tests of the form \<open>1 << n & w\<close> on 64-bit words.
\<close>

named_theorems go_simps
named_theorems go_intros

section \<open>Panics\<close>

datatype panic = IndexOutOfRange | NilDereference | DivideByZero | PanicMsg string

datatype 'a outcome = Ret 'a | Panic panic

fun bind_outcome :: "'a outcome \<Rightarrow> ('a \<Rightarrow> 'b outcome) \<Rightarrow> 'b outcome" where
  "bind_outcome (Ret x) f = f x"
| "bind_outcome (Panic p) f = Panic p"

lemma bind_outcome_Ret_iff:
  "bind_outcome m f = Ret y \<longleftrightarrow> (\<exists>x. m = Ret x \<and> f x = Ret y)"
  by (cases m) auto

text \<open>\<open>xs[i]\<close> of a Go slice: an index outside the slice panics.\<close>

definition slice_get :: "'a list \<Rightarrow> int \<Rightarrow> 'a outcome" where
  "slice_get xs i =
     (if 0 \<le> i \<and> i < int (length xs) then Ret (xs ! nat i) else Panic IndexOutOfRange)"

text \<open>\<open>xs[i] = v\<close>.\<close>

definition slice_put :: "'a list \<Rightarrow> int \<Rightarrow> 'a \<Rightarrow> 'a list outcome" where
  "slice_put xs i v =
     (if 0 \<le> i \<and> i < int (length xs) then Ret (xs[nat i := v]) else Panic IndexOutOfRange)"

text \<open>\<open>xs[lo:hi]\<close> of a string or of a slice whose capacity is its length.\<close>

definition slice_sub :: "'a list \<Rightarrow> int \<Rightarrow> int \<Rightarrow> 'a list outcome" where
  "slice_sub xs lo hi =
     (if 0 \<le> lo \<and> lo \<le> hi \<and> hi \<le> int (length xs)
      then Ret (take (nat hi - nat lo) (drop (nat lo) xs)) else Panic IndexOutOfRange)"

lemma find_append: "find P (xs @ ys) = (case find P xs of Some x \<Rightarrow> Some x | None \<Rightarrow> find P ys)"
  by (induction xs) auto

section \<open>The package strings\<close>

text \<open>\<open>strings.Split(s, sep)\<close> with a separator of one byte; never an empty list.\<close>

fun split_by :: "('a \<Rightarrow> bool) \<Rightarrow> 'a list \<Rightarrow> 'a list list" where
  "split_by p [] = [[]]"
| "split_by p (x # xs) =
     (case split_by p xs of
        [] \<Rightarrow> [[x]]
      | y # ys \<Rightarrow> if p x then [] # y # ys else (x # y) # ys)"

definition split_on :: "'a \<Rightarrow> 'a list \<Rightarrow> 'a list list" where
  "split_on c = split_by (\<lambda>x. x = c)"

text \<open>\<open>strings.FieldsFunc\<close> and \<open>strings.Fields\<close>: the non-empty pieces.\<close>

definition fields_func :: "('a \<Rightarrow> bool) \<Rightarrow> 'a list \<Rightarrow> 'a list list" where
  "fields_func p xs = filter (\<lambda>w. w \<noteq> []) (split_by p xs)"

definition is_space :: "char \<Rightarrow> bool" where
  "is_space c = (of_char c \<in> {9, 10, 11, 12, 13, 32 :: nat})"

definition split_fields :: "string \<Rightarrow> string list" where
  "split_fields = fields_func is_space"

text \<open>\<open>strings.Join\<close>.\<close>

fun join :: "'a list \<Rightarrow> 'a list list \<Rightarrow> 'a list" where
  "join sep [] = []"
| "join sep [x] = x"
| "join sep (x # y # zs) = x @ sep @ join sep (y # zs)"

text \<open>\<open>strings.ToLower\<close> and \<open>strings.ToUpper\<close> on ASCII.\<close>

definition lower_char :: "char \<Rightarrow> char" where
  "lower_char c = (if 65 \<le> (of_char c :: nat) \<and> (of_char c :: nat) \<le> 90
                   then char_of (of_char c + 32 :: nat) else c)"

definition upper_char :: "char \<Rightarrow> char" where
  "upper_char c = (if 97 \<le> (of_char c :: nat) \<and> (of_char c :: nat) \<le> 122
                   then char_of (of_char c - 32 :: nat) else c)"

definition to_lower :: "string \<Rightarrow> string" where
  "to_lower = map lower_char"

definition to_upper :: "string \<Rightarrow> string" where
  "to_upper = map upper_char"

text \<open>\<open>strings.HasPrefix\<close>, \<open>strings.HasSuffix\<close>.\<close>

definition has_prefix :: "'a list \<Rightarrow> 'a list \<Rightarrow> bool" where
  "has_prefix s p = (take (length p) s = p)"

definition has_suffix :: "'a list \<Rightarrow> 'a list \<Rightarrow> bool" where
  "has_suffix s p = (length p \<le> length s \<and> drop (length s - length p) s = p)"

text \<open>\<open>strings.TrimLeft(s, cutset)\<close> and \<open>strings.TrimSpace\<close>.\<close>

definition trim_left :: "'a list \<Rightarrow> 'a list \<Rightarrow> 'a list" where
  "trim_left s cutset = dropWhile (\<lambda>c. c \<in> set cutset) s"

definition trim_space :: "string \<Rightarrow> string" where
  "trim_space s = rev (dropWhile is_space (rev (dropWhile is_space s)))"

text \<open>\<open>strings.Index(s, sub) != -1\<close>.\<close>

fun contains_sub :: "'a list \<Rightarrow> 'a list \<Rightarrow> bool" where
  "contains_sub [] p = (p = [])"
| "contains_sub (x # xs) p = (has_prefix (x # xs) p \<or> contains_sub xs p)"

text \<open>\<open>strings.Replace(s, old, new, 1)\<close> and, for every occurrence,
  \<open>strings.Replace(s, old, new, -1)\<close>, for a non-empty \<open>old\<close>.\<close>

fun replace_first :: "'a list \<Rightarrow> 'a list \<Rightarrow> 'a list \<Rightarrow> 'a list" where
  "replace_first [] old new = []"
| "replace_first (x # xs) old new =
     (if has_prefix (x # xs) old then new @ drop (length old) (x # xs)
      else x # replace_first xs old new)"

function replace_all :: "'a list \<Rightarrow> 'a list \<Rightarrow> 'a list \<Rightarrow> 'a list" where
  "replace_all [] old new = []"
| "replace_all (x # xs) old new =
     (if old \<noteq> [] \<and> has_prefix (x # xs) old
      then new @ replace_all (drop (length old) (x # xs)) old new
      else x # replace_all xs old new)"
  by pat_completeness auto
termination
  by (relation "measure (\<lambda>(s, old, new). length s)") (auto simp: neq_Nil_conv less_Suc_eq_le)

section \<open>The package strconv\<close>

definition digit_char :: "nat \<Rightarrow> char" where
  "digit_char d = char_of (48 + d)"

function nat_dec :: "nat \<Rightarrow> string" where
  "nat_dec n = (if n < 10 then [digit_char n] else nat_dec (n div 10) @ [digit_char (n mod 10)])"
  by pat_completeness auto
termination
  by (relation "measure id") auto

declare nat_dec.simps [simp del]

text \<open>\<open>strconv.Itoa\<close>, the verb \<open>%d\<close>.\<close>

definition itoa :: "int \<Rightarrow> string" where
  "itoa i = (if i < 0 then ''-'' @ nat_dec (nat (- i)) else nat_dec (nat i))"

definition is_digit :: "char \<Rightarrow> bool" where
  "is_digit c = (48 \<le> (of_char c :: nat) \<and> (of_char c :: nat) \<le> 57)"

definition digit_val :: "char \<Rightarrow> nat" where
  "digit_val c = of_char c - 48"

definition dec_val :: "string \<Rightarrow> nat" where
  "dec_val = foldl (\<lambda>acc c. 10 * acc + digit_val c) 0"

definition parse_dec :: "string \<Rightarrow> nat option" where
  "parse_dec s = (if s \<noteq> [] \<and> list_all is_digit s then Some (dec_val s) else None)"

text \<open>\<open>strconv.Atoi\<close> with a 64-bit \<open>int\<close>: an optional sign, decimal digits, and a
  value in range; \<open>None\<close> is the error return.\<close>

definition atoi :: "string \<Rightarrow> int option" where
  "atoi s =
     (let neg = has_prefix s ''-'';
          body = (if has_prefix s ''-'' \<or> has_prefix s ''+'' then tl s else s)
      in case parse_dec body of
           None \<Rightarrow> None
         | Some n \<Rightarrow>
             let v = (if neg then - int n else int n)
             in if - (2 ^ 63) \<le> v \<and> v < 2 ^ 63 then Some v else None)"

text \<open>The value \<open>strconv.Atoi\<close> gives beside an error: 0 for a syntax error, and the nearest integer for a number that is
  out of range.\<close>

definition atoi_value :: "string \<Rightarrow> int" where
  "atoi_value s =
     (case atoi s of
        Some v \<Rightarrow> v
      | None \<Rightarrow>
          let body = (if has_prefix s ''-'' \<or> has_prefix s ''+'' then tl s else s)
          in if parse_dec body = None then 0
             else if has_prefix s ''-'' then - (2 ^ 63) else 2 ^ 63 - 1)"

text \<open>A 64-bit integer, with its wrap-around.\<close>

definition wrap64 :: "int \<Rightarrow> int" where
  "wrap64 x = (x + 2 ^ 63) mod 2 ^ 64 - 2 ^ 63"

section \<open>Shared lemmas\<close>

subsection \<open>Splitting and joining\<close>

lemma split_by_not_Nil [simp]: "split_by p xs \<noteq> []"
  by (cases xs) (auto split: list.splits)

lemma split_on_not_Nil [simp]: "split_on c xs \<noteq> []"
  by (simp add: split_on_def)

lemma split_by_piece: "w \<in> set (split_by p xs) \<Longrightarrow> x \<in> set w \<Longrightarrow> \<not> p x"
proof (induction xs arbitrary: w)
  case (Cons y ys)
  obtain v vs where v: "split_by p ys = v # vs"
    by (cases "split_by p ys") auto
  with Cons show ?case
    by (cases "p y") (auto, fastforce)
qed simp

lemma split_by_none: "\<forall>x \<in> set xs. \<not> p x \<Longrightarrow> split_by p xs = [xs]"
  by (induction xs) auto

lemma split_by_append_sep:
  "p c \<Longrightarrow> split_by p (xs @ c # ys) = split_by p xs @ split_by p ys"
proof (induction xs)
  case Nil
  then show ?case by (cases "split_by p ys") auto
next
  case (Cons x xs)
  then show ?case
    by (cases "split_by p xs") auto
qed

lemma split_on_none: "c \<notin> set xs \<Longrightarrow> split_on c xs = [xs]"
  unfolding split_on_def by (rule split_by_none) auto

lemma split_on_append_sep: "split_on c (xs @ c # ys) = split_on c xs @ split_on c ys"
  unfolding split_on_def by (rule split_by_append_sep) simp

lemma split_on_piece: "w \<in> set (split_on c xs) \<Longrightarrow> c \<notin> set w"
  unfolding split_on_def by (auto dest: split_by_piece)

lemma join_Cons: "ys \<noteq> [] \<Longrightarrow> join sep (x # ys) = x @ sep @ join sep ys"
  by (cases ys) auto

lemma join_split_on: "join [c] (split_on c xs) = xs"
proof (induction xs)
  case Nil
  then show ?case by (simp add: split_on_def)
next
  case (Cons x xs)
  obtain y ys where y: "split_on c xs = y # ys"
    by (cases "split_on c xs") auto
  with Cons show ?case
    by (cases ys) (auto simp: split_on_def)
qed

lemma split_on_join:
  "ws \<noteq> [] \<Longrightarrow> \<forall>w \<in> set ws. c \<notin> set w \<Longrightarrow> split_on c (join [c] ws) = ws"
proof (induction ws rule: induct_list012)
  case (3 w v ws)
  then show ?case by (simp add: split_on_append_sep split_on_none)
qed (auto simp: split_on_none)

subsection \<open>Prefixes and suffixes\<close>

lemma has_prefix_iff: "has_prefix s p \<longleftrightarrow> (\<exists>r. s = p @ r)"
  by (auto simp: has_prefix_def) (metis append_take_drop_id)

lemma has_prefix_append [simp]: "has_prefix (p @ r) p"
  by (auto simp: has_prefix_iff)

lemma has_prefix_Nil [simp]: "has_prefix s []"
  by (simp add: has_prefix_def)

lemma has_prefix_Cons: "has_prefix (x # xs) (p # ps) \<longleftrightarrow> x = p \<and> has_prefix xs ps"
  by (simp add: has_prefix_def)

lemma has_prefix_Nil_left [simp]: "has_prefix [] p \<longleftrightarrow> p = []"
  by (auto simp: has_prefix_def)

lemma has_suffix_iff: "has_suffix s p \<longleftrightarrow> (\<exists>r. s = r @ p)"
  by (auto simp: has_suffix_def) (metis append_take_drop_id)

subsection \<open>Decimal numbers\<close>

lemma of_char_char_of_small: "n < 256 \<Longrightarrow> (of_char (char_of n :: char) :: nat) = n"
  by (simp add: of_char_of)

lemma digit_val_digit_char [simp]: "d < 10 \<Longrightarrow> digit_val (digit_char d) = d"
  by (simp add: digit_val_def digit_char_def of_char_char_of_small)

lemma is_digit_digit_char [simp]: "d < 10 \<Longrightarrow> is_digit (digit_char d)"
  by (simp add: is_digit_def digit_char_def of_char_char_of_small)

lemma nat_dec_not_Nil [simp]: "nat_dec n \<noteq> []"
  by (subst nat_dec.simps) simp

lemma itoa_not_Nil: "itoa i \<noteq> []"
  by (simp add: itoa_def)

lemma nat_dec_digits: "list_all is_digit (nat_dec n)"
proof (induction n rule: nat_dec.induct)
  case (1 n)
  then show ?case by (subst nat_dec.simps) simp
qed

lemma dec_val_snoc: "dec_val (s @ [c]) = 10 * dec_val s + digit_val c"
  by (simp add: dec_val_def)

lemma dec_val_nat_dec [simp]: "dec_val (nat_dec n) = n"
proof (induction n rule: nat_dec.induct)
  case (1 n)
  show ?case
  proof (cases "n < 10")
    case True
    then show ?thesis by (subst nat_dec.simps) (simp add: dec_val_def)
  next
    case False
    with 1 have "dec_val (nat_dec (n div 10)) = n div 10" by simp
    with False show ?thesis
      by (subst nat_dec.simps) (simp add: dec_val_snoc)
  qed
qed

lemma parse_dec_nat_dec [simp]: "parse_dec (nat_dec n) = Some n"
  by (simp add: parse_dec_def nat_dec_digits)

lemma nat_dec_no_sign: "\<not> has_prefix (nat_dec n) ''-''" "\<not> has_prefix (nat_dec n) ''+''"
proof -
  have "is_digit (hd (nat_dec n))"
    using nat_dec_digits [of n] by (cases "nat_dec n") (auto dest: sym)
  then show "\<not> has_prefix (nat_dec n) ''-''" "\<not> has_prefix (nat_dec n) ''+''"
    by (cases "nat_dec n"; auto simp: has_prefix_Cons is_digit_def)+
qed

text \<open>Printing and reading back a 64-bit integer is the identity.\<close>

lemma atoi_itoa: "- (2 ^ 63) \<le> i \<Longrightarrow> i < 2 ^ 63 \<Longrightarrow> atoi (itoa i) = Some i"
  by (auto simp: atoi_def itoa_def has_prefix_Cons nat_dec_no_sign Let_def)

lemma atoi_range: "atoi s = Some v \<Longrightarrow> - (2 ^ 63) \<le> v \<and> v < 2 ^ 63"
  unfolding atoi_def Let_def by (auto split: option.splits if_splits)

lemma atoi_value_range: "- (2 ^ 63) \<le> atoi_value s \<and> atoi_value s < 2 ^ 63"
  using atoi_range [of s] by (auto simp: atoi_value_def Let_def split: option.splits)

lemma atoi_value_Some: "atoi s = Some v \<Longrightarrow> atoi_value s = v"
  by (simp add: atoi_value_def)

lemma atoi_value_itoa: "- (2 ^ 63) \<le> i \<Longrightarrow> i < 2 ^ 63 \<Longrightarrow> atoi_value (itoa i) = i"
  by (simp add: atoi_value_def atoi_itoa)

lemma wrap64_id: "- (2 ^ 63) \<le> x \<Longrightarrow> x < 2 ^ 63 \<Longrightarrow> wrap64 x = x"
  by (simp add: wrap64_def)

lemma wrap64_range: "- (2 ^ 63) \<le> wrap64 x \<and> wrap64 x < 2 ^ 63"
proof -
  have "0 \<le> (x + 2 ^ 63) mod 2 ^ 64" "(x + 2 ^ 63) mod 2 ^ 64 < 2 ^ 64" by simp_all
  then show ?thesis by (simp add: wrap64_def)
qed

lemma nat_dec_inject [simp]: "nat_dec m = nat_dec n \<longleftrightarrow> m = n"
  by (metis dec_val_nat_dec)

lemma nat_dec_notin [simp]: "\<not> is_digit c \<Longrightarrow> c \<notin> set (nat_dec n)"
  using nat_dec_digits [of n] by (auto simp: list_all_iff)

lemma lower_char_digit: "is_digit c \<Longrightarrow> lower_char c = c"
  by (simp add: is_digit_def lower_char_def)

lemma to_lower_nat_dec [simp]: "to_lower (nat_dec n) = nat_dec n"
  using nat_dec_digits [of n] unfolding to_lower_def
  by (induction "nat_dec n") (auto simp: list_all_iff lower_char_digit intro: map_idI)

lemma atoi_nat_dec: "n < 2 ^ 63 \<Longrightarrow> atoi (nat_dec n) = Some (int n)"
  using atoi_itoa [of "int n"] by (simp add: itoa_def)

subsection \<open>Bit tests on 64-bit words\<close>

lemma push_bit_1_and_zero [go_simps]:
  "(push_bit n 1 AND (w :: 64 word) = 0) \<longleftrightarrow> \<not> bit w n"
  by (simp add: push_bit_of_1 and.commute and_exp_eq_0_iff_not_bit)

lemma push_bit_1_and_pos [go_simps]:
  "(0 < push_bit n 1 AND (w :: 64 word)) \<longleftrightarrow> bit w n"
  using push_bit_1_and_zero [of n w] by (simp add: word_gt_0)

lemma bit_push_bit_one [go_simps]: "bit (push_bit k (1 :: 64 word)) n \<longleftrightarrow> n = k \<and> n < 64"
  by (auto simp: bit_simps)

section \<open>Texts in slices\<close>

text \<open>\<open>utils.InSliceIgnorecase\<close>.\<close>

fun InSliceIgnorecase :: "string \<Rightarrow> string list \<Rightarrow> bool" where
  "InSliceIgnorecase v [] = False"
| "InSliceIgnorecase v (vv # sl) = (if to_lower vv = to_lower v then True else InSliceIgnorecase v sl)"

end
