(* ===== verification/CronParser.thy ===== *)
theory CronParser
  imports Prelude
begin

unbundle bit_operations_syntax

text \<open>
  The crontab parser: \<open>cron/parser.go\<close>, with the field bounds of \<open>cron/spec.go\<close> and
  \<open>Every\<close> of \<open>cron/constantdelay.go\<close>.

  A field is a 64-bit set of admissible values (\<open>u64\<close>); bit 63 marks a star. The loop
  of \<open>getBits\<close> runs on wrapping machine words and need not stop for arbitrary arguments,
  so it is an \<^theory_text>\<open>partial_function\<close> and its callers return an option: \<open>None\<close> means
  that the call does not return. Errors are the left summand, an index panic is \<open>Panic\<close>.
  \<open>time.ParseDuration\<close>, which rounds fractions through floating point, is the
  parameter \<open>parse_duration\<close> (nanoseconds).
\<close>

type_synonym u64 = "64 word"

section \<open>Data\<close>

record bounds =
  bmin :: u64
  bmax :: u64
  bnames :: "(string \<times> u64) list option"

definition seconds :: bounds where
  "seconds = \<lparr>bmin = 0, bmax = 59, bnames = None\<rparr>"

definition minutes :: bounds where
  "minutes = \<lparr>bmin = 0, bmax = 59, bnames = None\<rparr>"

definition hours :: bounds where
  "hours = \<lparr>bmin = 0, bmax = 23, bnames = None\<rparr>"

definition dom_bounds :: bounds where
  "dom_bounds = \<lparr>bmin = 1, bmax = 31, bnames = None\<rparr>"

definition months :: bounds where
  "months = \<lparr>bmin = 1, bmax = 12, bnames = Some
     [(''jan'', 1), (''feb'', 2), (''mar'', 3), (''apr'', 4), (''may'', 5), (''jun'', 6),
      (''jul'', 7), (''aug'', 8), (''sep'', 9), (''oct'', 10), (''nov'', 11), (''dec'', 12)]\<rparr>"

definition dow :: bounds where
  "dow = \<lparr>bmin = 0, bmax = 6, bnames = Some
     [(''sun'', 0), (''mon'', 1), (''tue'', 2), (''wed'', 3), (''thu'', 4), (''fri'', 5),
      (''sat'', 6)]\<rparr>"

definition starBit :: u64 where
  "starBit = push_bit 63 1"

record SpecSchedule =
  Second :: u64
  Minute :: u64
  Hour :: u64
  Dom :: u64
  Month :: u64
  Dow :: u64

text \<open>\<open>ConstantDelaySchedule.Delay\<close> is a \<open>time.Duration\<close> in nanoseconds.\<close>

datatype schedule = SpecSched SpecSchedule | ConstantDelay int

datatype cron_error =
    EmptySpec
  | FieldCountExact int nat string
  | FieldCountRange int int nat string
  | TooManyHyphens string
  | TooManySlashes string
  | BelowMinimum u64 u64 string
  | AboveMaximum u64 u64 string
  | BeyondEnd u64 u64 string
  | StepNotPositive string
  | BadInt string
  | NegativeInt int string
  | BadDuration string
  | UnrecognizedDescriptor string

section \<open>Bit sets\<close>

partial_function (option) getBits_loop :: "u64 \<Rightarrow> u64 \<Rightarrow> u64 \<Rightarrow> u64 \<Rightarrow> u64 option" where
  "getBits_loop i mx step bits =
     (if i \<le> mx then getBits_loop (i + step) mx step (bits OR push_bit (unat i) 1)
      else Some bits)"

definition getBits :: "u64 \<Rightarrow> u64 \<Rightarrow> u64 \<Rightarrow> u64 option" where
  "getBits mn mx step =
     (if step = 1
      then Some (NOT (push_bit (unat (mx + 1)) (- 1)) AND push_bit (unat mn) (- 1))
      else getBits_loop mn mx step 0)"

definition all_bits :: "bounds \<Rightarrow> u64 option" where
  "all_bits r = map_option (\<lambda>b. b OR starBit) (getBits (bmin r) (bmax r) 1)"

section \<open>Numbers and ranges\<close>

definition mustParseInt :: "string \<Rightarrow> cron_error + u64" where
  "mustParseInt expr =
     (case atoi expr of
        None \<Rightarrow> Inl (BadInt expr)
      | Some num \<Rightarrow>
          if num < 0 then Inl (NegativeInt num expr) else Inr (word_of_int num))"

definition parseIntOrName :: "string \<Rightarrow> (string \<times> u64) list option \<Rightarrow> cron_error + u64" where
  "parseIntOrName expr names =
     (case names of
        None \<Rightarrow> mustParseInt expr
      | Some ns \<Rightarrow>
          (case map_of ns (to_lower expr) of
             Some namedInt \<Rightarrow> Inr namedInt
           | None \<Rightarrow> mustParseInt expr))"

text \<open>The low end, the high end and the star flag of \<open>lowAndHigh\<close>.\<close>

definition range_ends ::
  "string \<Rightarrow> string list \<Rightarrow> bounds \<Rightarrow> cron_error + u64 \<times> u64 \<times> u64" where
  "range_ends expr lowAndHigh r =
     (if hd lowAndHigh = ''*'' \<or> hd lowAndHigh = ''?''
      then Inr (bmin r, bmax r, starBit)
      else
        (case parseIntOrName (hd lowAndHigh) (bnames r) of
           Inl e \<Rightarrow> Inl e
         | Inr start \<Rightarrow>
             (case lowAndHigh of
                [_] \<Rightarrow> Inr (start, start, 0)
              | [_, high] \<Rightarrow>
                  (case parseIntOrName high (bnames r) of
                     Inl e \<Rightarrow> Inl e
                   | Inr stop \<Rightarrow> Inr (start, stop, 0))
              | _ \<Rightarrow> Inl (TooManyHyphens expr))))"

text \<open>The step, and the high end after the special case "N/step".\<close>

definition range_step ::
  "string \<Rightarrow> string list \<Rightarrow> bool \<Rightarrow> u64 \<Rightarrow> bounds \<Rightarrow> cron_error + u64 \<times> u64" where
  "range_step expr rangeAndStep singleDigit stop r =
     (case rangeAndStep of
        [_] \<Rightarrow> Inr (stop, 1)
      | [_, st] \<Rightarrow>
          (case mustParseInt st of
             Inl e \<Rightarrow> Inl e
           | Inr step \<Rightarrow> Inr (if singleDigit then bmax r else stop, step))
      | _ \<Rightarrow> Inl (TooManySlashes expr))"

definition range_check ::
  "string \<Rightarrow> u64 \<Rightarrow> u64 \<Rightarrow> u64 \<Rightarrow> bounds \<Rightarrow> cron_error option" where
  "range_check expr start stop step r =
     (if start < bmin r then Some (BelowMinimum start (bmin r) expr)
      else if stop > bmax r then Some (AboveMaximum stop (bmax r) expr)
      else if start > stop then Some (BeyondEnd start stop expr)
      else if step = 0 then Some (StepNotPositive expr)
      else None)"

definition getRange :: "string \<Rightarrow> bounds \<Rightarrow> (cron_error + u64) option" where
  "getRange expr r =
     (let rangeAndStep = split_on CHR ''/'' expr;
          lowAndHigh = split_on CHR ''-'' (hd rangeAndStep);
          singleDigit = (length lowAndHigh = 1)
      in case range_ends expr lowAndHigh r of
           Inl e \<Rightarrow> Some (Inl e)
         | Inr (start, stop0, extra) \<Rightarrow>
             (case range_step expr rangeAndStep singleDigit stop0 r of
                Inl e \<Rightarrow> Some (Inl e)
              | Inr (stop, step) \<Rightarrow>
                  (case range_check expr start stop step r of
                     Some e \<Rightarrow> Some (Inl e)
                   | None \<Rightarrow>
                       map_option (\<lambda>b. Inr (b OR extra)) (getBits start stop step))))"

fun getField_loop :: "string list \<Rightarrow> bounds \<Rightarrow> u64 \<Rightarrow> (cron_error + u64) option" where
  "getField_loop [] r bits = Some (Inr bits)"
| "getField_loop (expr # ranges) r bits =
     (case getRange expr r of
        None \<Rightarrow> None
      | Some (Inl e) \<Rightarrow> Some (Inl e)
      | Some (Inr bt) \<Rightarrow> getField_loop ranges r (bits OR bt))"

definition getField :: "string \<Rightarrow> bounds \<Rightarrow> (cron_error + u64) option" where
  "getField field r = getField_loop (fields_func (\<lambda>c. c = CHR '','') field) r 0"

section \<open>The parser\<close>

type_synonym ParseOption = int

definition optSecond :: ParseOption where "optSecond = 1"
definition optMinute :: ParseOption where "optMinute = 2"
definition optHour :: ParseOption where "optHour = 4"
definition optDom :: ParseOption where "optDom = 8"
definition optMonth :: ParseOption where "optMonth = 16"
definition optDow :: ParseOption where "optDow = 32"
definition optDowOptional :: ParseOption where "optDowOptional = 64"
definition optDescriptor :: ParseOption where "optDescriptor = 128"

definition places :: "ParseOption list" where
  "places = [optSecond, optMinute, optHour, optDom, optMonth, optDow]"

definition defaults :: "string list" where
  "defaults = [''0'', ''0'', ''0'', ''*'', ''*'', ''*'']"

record Parser =
  options :: ParseOption
  optionals :: int

definition NewParser :: "ParseOption \<Rightarrow> Parser" where
  "NewParser opts =
     (if opts AND optDowOptional > 0
      then \<lparr>options = opts OR optDow, optionals = 1\<rparr>
      else \<lparr>options = opts, optionals = 0\<rparr>)"

text \<open>
  The loop of \<open>expandFields\<close>: \<open>i\<close> runs over \<open>places\<close>, \<open>n\<close> counts the
  given fields used so far, and the loop breaks once all are used.
\<close>

fun expand_loop ::
  "ParseOption list \<Rightarrow> nat \<Rightarrow> nat \<Rightarrow> string list \<Rightarrow> ParseOption \<Rightarrow> string list
     \<Rightarrow> string list outcome" where
  "expand_loop [] i n fs opts expFields = Ret expFields"
| "expand_loop (place # ps) i n fs opts expFields =
     (if opts AND place > 0
      then bind_outcome (slice_get fs (int n)) (\<lambda>f.
             let ex = expFields[i := f]; n' = n + 1
             in if n' = length fs then Ret ex else expand_loop ps (i + 1) n' fs opts ex)
      else if n = length fs then Ret expFields
      else expand_loop ps (i + 1) n fs opts expFields)"

definition expandFields :: "string list \<Rightarrow> ParseOption \<Rightarrow> string list outcome" where
  "expandFields fs opts = expand_loop places 0 0 fs opts defaults"

text \<open>The closure \<open>field\<close>: once an error is set, later fields are not looked at.\<close>

fun parse_six :: "(string \<times> bounds) list \<Rightarrow> u64 list \<Rightarrow> (cron_error + u64 list) option" where
  "parse_six [] acc = Some (Inr acc)"
| "parse_six ((f, r) # rest) acc =
     (case getField f r of
        None \<Rightarrow> None
      | Some (Inl e) \<Rightarrow> Some (Inl e)
      | Some (Inr bits) \<Rightarrow> parse_six rest (acc @ [bits]))"

definition Every :: "int \<Rightarrow> schedule" where
  "Every duration =
     (let d = (if duration < 1000000000 then 1000000000 else duration)
      in ConstantDelay (d - d mod 1000000000))"

definition first_bit :: "bounds \<Rightarrow> u64" where
  "first_bit r = push_bit (unat (bmin r)) 1"

definition spec6 :: "u64 \<Rightarrow> u64 \<Rightarrow> u64 \<Rightarrow> u64 option \<Rightarrow> u64 option \<Rightarrow> u64 option \<Rightarrow> schedule option" where
  "spec6 s m h d mo w =
     (case (d, mo, w) of
        (Some d', Some mo', Some w') \<Rightarrow>
          Some (SpecSched \<lparr>Second = s, Minute = m, Hour = h, Dom = d', Month = mo', Dow = w'\<rparr>)
      | _ \<Rightarrow> None)"

definition parseDescriptor ::
  "(string \<Rightarrow> int option) \<Rightarrow> string \<Rightarrow> (cron_error + schedule) option" where
  "parseDescriptor parse_duration descriptor =
     (if descriptor = ''@yearly'' \<or> descriptor = ''@annually'' then
        map_option Inr (spec6 (first_bit seconds) (first_bit minutes) (first_bit hours)
          (Some (first_bit dom_bounds)) (Some (first_bit months)) (all_bits dow))
      else if descriptor = ''@monthly'' then
        map_option Inr (spec6 (first_bit seconds) (first_bit minutes) (first_bit hours)
          (Some (first_bit dom_bounds)) (all_bits months) (all_bits dow))
      else if descriptor = ''@weekly'' then
        map_option Inr (spec6 (first_bit seconds) (first_bit minutes) (first_bit hours)
          (all_bits dom_bounds) (all_bits months) (Some (first_bit dow)))
      else if descriptor = ''@daily'' \<or> descriptor = ''@midnight'' then
        map_option Inr (spec6 (first_bit seconds) (first_bit minutes) (first_bit hours)
          (all_bits dom_bounds) (all_bits months) (all_bits dow))
      else if descriptor = ''@hourly'' then
        (case all_bits hours of
           None \<Rightarrow> None
         | Some h \<Rightarrow>
             map_option Inr (spec6 (first_bit seconds) (first_bit minutes) h
               (all_bits dom_bounds) (all_bits months) (all_bits dow)))
      else if has_prefix descriptor ''@every '' then
        (case parse_duration (drop (length ''@every '') descriptor) of
           None \<Rightarrow> Some (Inl (BadDuration descriptor))
         | Some duration \<Rightarrow> Some (Inr (Every duration)))
      else Some (Inl (UnrecognizedDescriptor descriptor)))"

text \<open>\<open>Parser.Parse\<close>.\<close>

definition Parser_Parse ::
  "(string \<Rightarrow> int option) \<Rightarrow> Parser \<Rightarrow> string \<Rightarrow> (cron_error + schedule) outcome option" where
  "Parser_Parse parse_duration p spec =
     (if spec = [] then Some (Ret (Inl EmptySpec))
      else if hd spec = CHR ''@'' \<and> options p AND optDescriptor > 0
      then map_option Ret (parseDescriptor parse_duration spec)
      else
        let mx = int (length (filter (\<lambda>place. options p AND place > 0) places));
            mn = mx - optionals p;
            fs = split_fields spec;
            count = length fs
        in if int count < mn \<or> int count > mx
           then Some (Ret (Inl (if mn = mx then FieldCountExact mn count spec
                                else FieldCountRange mn mx count spec)))
           else
             (case expandFields fs (options p) of
                Panic e \<Rightarrow> Some (Panic e)
              | Ret ex \<Rightarrow>
                  (case parse_six (zip ex [seconds, minutes, hours, dom_bounds, months, dow]) [] of
                     None \<Rightarrow> None
                   | Some (Inl e) \<Rightarrow> Some (Ret (Inl e))
                   | Some (Inr bs) \<Rightarrow>
                       Some (Ret (Inr (SpecSched
                         \<lparr>Second = bs ! 0, Minute = bs ! 1, Hour = bs ! 2,
                          Dom = bs ! 3, Month = bs ! 4, Dow = bs ! 5\<rparr>))))))"

definition standardParser :: Parser where
  "standardParser = NewParser (optMinute OR optHour OR optDom OR optMonth OR optDow OR optDescriptor)"

definition defaultParser :: Parser where
  "defaultParser =
     NewParser (optSecond OR optMinute OR optHour OR optDom OR optMonth OR optDowOptional
                OR optDescriptor)"

definition ParseStandard ::
  "(string \<Rightarrow> int option) \<Rightarrow> string \<Rightarrow> (cron_error + schedule) outcome option" where
  "ParseStandard parse_duration = Parser_Parse parse_duration standardParser"

definition Parse ::
  "(string \<Rightarrow> int option) \<Rightarrow> string \<Rightarrow> (cron_error + schedule) outcome option" where
  "Parse parse_duration = Parser_Parse parse_duration defaultParser"

section \<open>The bit sets\<close>

lemma word_add_no_overflow:
  "unat (a :: 64 word) + unat b < 2 ^ 64 \<Longrightarrow> unat (a + b) = unat a + unat b"
  by (subst unat_plus_if') auto

definition progression :: "nat \<Rightarrow> nat \<Rightarrow> nat \<Rightarrow> nat set" where
  "progression lo hi st = {n. lo \<le> n \<and> n \<le> hi \<and> st dvd (n - lo)}"

lemma progression_empty [simp]: "hi < lo \<Longrightarrow> progression lo hi st = {}"
  by (auto simp: progression_def)

lemma progression_step:
  assumes "lo \<le> hi" "0 < st"
  shows "progression lo hi st = insert lo (progression (lo + st) hi st)"
proof (intro set_eqI iffI)
  fix n
  assume "n \<in> progression lo hi st"
  then have n: "lo \<le> n" "n \<le> hi" "st dvd (n - lo)" by (auto simp: progression_def)
  show "n \<in> insert lo (progression (lo + st) hi st)"
  proof (cases "n = lo")
    case False
    with n have "st \<le> n - lo" by (intro dvd_imp_le) auto
    moreover from n(3) have "st dvd (n - lo - st)"
      by (rule dvd_diff_nat) simp
    ultimately show ?thesis
      using n False by (auto simp: progression_def diff_diff_left)
  qed simp
next
  fix n
  assume "n \<in> insert lo (progression (lo + st) hi st)"
  then show "n \<in> progression lo hi st"
  proof
    assume "n \<in> progression (lo + st) hi st"
    then have n: "lo + st \<le> n" "n \<le> hi" "st dvd (n - (lo + st))"
      by (auto simp: progression_def)
    have "n - lo = n - (lo + st) + st" using n(1) by simp
    moreover have "st dvd n - (lo + st) + st" using n(3) by (intro dvd_add) auto
    ultimately show ?thesis using n by (auto simp: progression_def)
  qed (use assms in \<open>auto simp: progression_def\<close>)
qed

lemma getBits_loop_bits:
  assumes "0 < unat step" "unat mx + unat step < 2 ^ 64" "unat mx < 64"
  shows "\<exists>b. getBits_loop i mx step acc = Some b
           \<and> (\<forall>n. bit b n \<longleftrightarrow> bit acc n \<or> n \<in> progression (unat i) (unat mx) (unat step))"
proof (induction "Suc (unat mx) - unat i" arbitrary: i acc rule: less_induct)
  case less
  show ?case
  proof (cases "i \<le> mx")
    case False
    then have "unat mx < unat i" by (simp add: word_le_nat_alt)
    with False show ?thesis by (simp add: getBits_loop.simps)
  next
    case True
    then have le: "unat i \<le> unat mx" by (simp add: word_le_nat_alt)
    with assms have plus: "unat (i + step) = unat i + unat step"
      by (intro word_add_no_overflow) simp
    with le assms have "Suc (unat mx) - unat (i + step) < Suc (unat mx) - unat i"
      by simp
    from less.hyps [OF this, of "acc OR push_bit (unat i) 1"] obtain b where
      b: "getBits_loop (i + step) mx step (acc OR push_bit (unat i) 1) = Some b"
        "\<forall>n. bit b n \<longleftrightarrow> bit (acc OR push_bit (unat i) 1) n
              \<or> n \<in> progression (unat i + unat step) (unat mx) (unat step)"
      by (auto simp: plus)
    have "bit (push_bit (unat i) (1 :: u64)) n \<longleftrightarrow> n = unat i" for n
      using le assms by (auto simp: bit_simps)
    with b le assms show ?thesis
      by (subst getBits_loop.simps)
         (auto simp: True bit_or_iff progression_step [of "unat i" "unat mx"])
  qed
qed

lemma getBits_bits:
  assumes "0 < unat step" "unat mx + unat step < 2 ^ 64" "unat mx < 64"
  shows "\<exists>b. getBits mn mx step = Some b
           \<and> (\<forall>n. bit b n \<longleftrightarrow> n \<in> progression (unat mn) (unat mx) (unat step))"
proof (cases "step = 1")
  case False
  then show ?thesis
    using getBits_loop_bits [OF assms, of mn 0] by (simp add: getBits_def)
next
  case True
  have "unat (mx + 1) = unat mx + 1"
    using assms by (subst word_add_no_overflow) auto
  then show ?thesis
    using assms True by (auto simp: getBits_def progression_def bit_simps)
qed

text \<open>The bounds of a field leave bit 63 to the star.\<close>

definition wf_bounds :: "bounds \<Rightarrow> bool" where
  "wf_bounds r = (bmin r \<le> bmax r \<and> unat (bmax r) < 63)"

lemma wf_bounds_fields [simp, intro]:
  "wf_bounds seconds" "wf_bounds minutes" "wf_bounds hours" "wf_bounds dom_bounds" "wf_bounds months"
  "wf_bounds dow"
  by (simp_all add: wf_bounds_def seconds_def minutes_def hours_def dom_bounds_def months_def dow_def)

lemma unat_of_nat_less: "n < k \<Longrightarrow> unat (word_of_nat n :: u64) < k"
  by (rule le_less_trans [of _ n]) (simp_all add: unsigned_of_nat)

lemma mustParseInt_bound: "mustParseInt s = Inr v \<Longrightarrow> unat v < 2 ^ 63"
  by (auto simp: mustParseInt_def atoi_def Let_def unat_of_nat_less
           split: option.splits if_splits)

lemma bit_starBit: "bit starBit n \<longleftrightarrow> n = 63"
  unfolding starBit_def by (simp only: bit_push_bit_one) auto

lemma range_step_pos_bound:
  assumes "range_step expr rs single stop0 r = Inr (stop, step)"
  shows "unat step < 2 ^ 63"
  using assms
  by (auto simp: range_step_def dest: mustParseInt_bound split: list.splits sum.splits)

definition is_star_expr :: "string \<Rightarrow> bool" where
  "is_star_expr expr =
     (let low = hd (split_on CHR ''-'' (hd (split_on CHR ''/'' expr))) in low = ''*'' \<or> low = ''?'')"

lemma range_ends_extra:
  "range_ends expr lh r = Inr (start, stop, extra) \<Longrightarrow>
   extra = (if hd lh = ''*'' \<or> hd lh = ''?'' then starBit else 0)"
  by (auto simp: range_ends_def split: if_splits sum.splits list.splits)

lemma range_check_None:
  "range_check expr start stop step r = None \<longleftrightarrow>
   bmin r \<le> start \<and> start \<le> stop \<and> stop \<le> bmax r \<and> 0 < step"
  by (auto simp: range_check_def word_gt_0)

lemma range_bits:
  assumes "wf_bounds r" "stop \<le> bmax r" "0 < step" "unat step < 2 ^ 63"
  obtains b where "getBits start stop step = Some b"
    "\<forall>n. bit b n \<longleftrightarrow> n \<in> progression (unat start) (unat stop) (unat step)"
proof -
  have "unat stop < 63"
    using assms(1,2) by (simp add: wf_bounds_def word_le_nat_alt)
  moreover have "0 < unat step"
    using assms(3) by (simp add: word_less_nat_alt)
  ultimately show thesis
    using getBits_bits [of step stop start] assms(4) that by auto
qed

text \<open>What \<open>getRange\<close> returns: an error, or the bits of a progression inside the bounds.\<close>

lemma getRange_cases:
  assumes wf: "wf_bounds r"
  obtains (error) e where "getRange expr r = Some (Inl e)"
  | (bits) b start stop and step :: u64 where "getRange expr r = Some (Inr b)"
      "bmin r \<le> start" "start \<le> stop" "stop \<le> bmax r" "0 < step"
      "\<And>n. bit b n \<longleftrightarrow> n \<in> progression (unat start) (unat stop) (unat step)
              \<or> n = 63 \<and> is_star_expr expr"
proof -
  let ?rs = "split_on CHR ''/'' expr"
  let ?lh = "split_on CHR ''-'' (hd ?rs)"
  show thesis
  proof (cases "range_ends expr ?lh r")
    case (Inl e)
    then show ?thesis by (intro error) (simp add: getRange_def Let_def)
  next
    case (Inr ends)
    then obtain start stop0 extra where ends: "range_ends expr ?lh r = Inr (start, stop0, extra)"
      by (cases ends) auto
    show ?thesis
    proof (cases "range_step expr ?rs (length ?lh = 1) stop0 r")
      case (Inl e)
      with ends show ?thesis by (intro error) (simp add: getRange_def Let_def)
    next
      case (Inr p)
      then obtain stop step where st: "range_step expr ?rs (length ?lh = 1) stop0 r = Inr (stop, step)"
        by (cases p) auto
      show ?thesis
      proof (cases "range_check expr start stop step r")
        case (Some e)
        with ends st show ?thesis by (intro error) (simp add: getRange_def Let_def)
      next
        case None
        then have ck: "bmin r \<le> start" "start \<le> stop" "stop \<le> bmax r" "0 < step"
          by (auto simp: range_check_None)
        obtain b where b: "getBits start stop step = Some b"
          "\<forall>n. bit b n \<longleftrightarrow> n \<in> progression (unat start) (unat stop) (unat step)"
          using range_bits [OF wf ck(3,4) range_step_pos_bound [OF st]] by blast
        have "getRange expr r = Some (Inr (b OR extra))"
          using ends st None b(1) by (simp add: getRange_def Let_def)
        then show ?thesis
          using ck b(2) range_ends_extra [OF ends]
          by (intro bits [of "b OR extra" start stop step])
             (auto simp: bit_simps bit_starBit is_star_expr_def Let_def)
      qed
    qed
  qed
qed

section \<open>Fields\<close>

lemma getRange_returns: "wf_bounds r \<Longrightarrow> \<exists>x. getRange expr r = Some x"
  by (erule getRange_cases [where expr = expr]) auto

lemma getRange_bits_in_bounds:
  assumes "wf_bounds r" "getRange expr r = Some (Inr b)" "bit b n"
  shows "unat (bmin r) \<le> n \<and> n \<le> unat (bmax r) \<or> n = 63"
proof (cases rule: getRange_cases [OF assms(1), where expr = expr, case_names error bits])
  case (bits b' start stop step)
  with assms(2,3) have "n \<in> progression (unat start) (unat stop) (unat step) \<or> n = 63"
    by auto
  with bits(2,4) show ?thesis
    by (auto simp: progression_def word_le_nat_alt)
qed (use assms(2) in simp)

lemma getField_loop_returns: "wf_bounds r \<Longrightarrow> \<exists>x. getField_loop es r acc = Some x"
proof (induction es arbitrary: acc)
  case (Cons e es)
  then show ?case
    using getRange_returns [OF Cons.prems, of e] by (auto split: sum.splits)
qed simp

lemma getField_loop_ok:
  assumes "getField_loop es r acc = Some (Inr b)"
  shows "(\<forall>e \<in> set es. \<exists>be. getRange e r = Some (Inr be))
       \<and> (\<forall>n. bit b n \<longleftrightarrow> bit acc n \<or> (\<exists>e \<in> set es. \<exists>be. getRange e r = Some (Inr be) \<and> bit be n))"
  using assms
proof (induction es arbitrary: acc)
  case (Cons e es)
  then obtain be where be: "getRange e r = Some (Inr be)"
    "getField_loop es r (acc OR be) = Some (Inr b)"
    by (auto split: option.splits sum.splits)
  from Cons.IH [OF be(2)] be(1) show ?case
    by (auto simp: bit_or_iff)
qed simp

lemma getField_loop_error:
  assumes "getField_loop es r acc = Some (Inl err)"
  shows "\<exists>pre e post. es = pre @ e # post \<and> getRange e r = Some (Inl err)
           \<and> (\<forall>x \<in> set pre. \<exists>b. getRange x r = Some (Inr b))"
  using assms
proof (induction es arbitrary: acc)
  case (Cons e es)
  show ?case
  proof (cases "getRange e r = Some (Inl err)")
    case True
    then show ?thesis by (intro exI [of _ "[]"] exI [of _ e] exI [of _ es]) auto
  next
    case False
    with Cons.prems obtain be where be: "getRange e r = Some (Inr be)"
      "getField_loop es r (acc OR be) = Some (Inl err)"
      by (auto split: option.splits sum.splits)
    from Cons.IH [OF be(2)] obtain pre x post where
      "es = pre @ x # post" "getRange x r = Some (Inl err)"
      "\<forall>x \<in> set pre. \<exists>b. getRange x r = Some (Inr b)" by auto
    with be(1) show ?thesis by (intro exI [of _ "e # pre"]) auto
  qed
qed simp

definition in_bounds :: "bounds \<Rightarrow> u64 \<Rightarrow> bool" where
  "in_bounds r w = (\<forall>n. bit w n \<longrightarrow> unat (bmin r) \<le> n \<and> n \<le> unat (bmax r) \<or> n = 63)"

lemma getField_in_bounds: "wf_bounds r \<Longrightarrow> getField f r = Some (Inr b) \<Longrightarrow> in_bounds r b"
  unfolding getField_def in_bounds_def
  using getField_loop_ok getRange_bits_in_bounds by fastforce

lemma getField_returns: "wf_bounds r \<Longrightarrow> \<exists>x. getField f r = Some x"
  unfolding getField_def by (rule getField_loop_returns)

lemma parse_six_returns:
  "\<forall>(f, r) \<in> set frs. wf_bounds r \<Longrightarrow> \<exists>x. parse_six frs acc = Some x"
proof (induction frs arbitrary: acc)
  case (Cons fr frs)
  obtain f r where fr: "fr = (f, r)" by (cases fr)
  with Cons.prems obtain x where "getField f r = Some x"
    using getField_returns [of r f] by auto
  with Cons fr show ?case by (cases x) auto
qed simp

lemma parse_six_ok:
  "\<forall>(f, r) \<in> set frs. wf_bounds r \<Longrightarrow> parse_six frs acc = Some (Inr bs) \<Longrightarrow>
   \<exists>ws. bs = acc @ ws \<and> list_all2 (\<lambda>(f, r) w. getField f r = Some (Inr w) \<and> in_bounds r w) frs ws"
proof (induction frs arbitrary: acc)
  case (Cons fr frs)
  obtain f r where fr: "fr = (f, r)" by (cases fr)
  with Cons.prems obtain w where w: "getField f r = Some (Inr w)"
    "parse_six frs (acc @ [w]) = Some (Inr bs)"
    by (auto split: option.splits sum.splits)
  from Cons.IH [OF _ w(2)] Cons.prems(1) obtain ws where
    "bs = (acc @ [w]) @ ws"
    "list_all2 (\<lambda>(f, r) w. getField f r = Some (Inr w) \<and> in_bounds r w) frs ws" by auto
  with w fr Cons.prems(1) show ?case
    by (intro exI [of _ "w # ws"]) (auto intro: getField_in_bounds)
qed simp

section \<open>Expanding the fields of a specification\<close>

lemma expand_loop_ok:
  assumes "n + length (filter (\<lambda>p. opts AND p > 0) ps) \<ge> length fs"
    and "n < length fs \<or> (n = length fs \<and> (ps = [] \<or> \<not> opts AND hd ps > 0))"
  shows "\<exists>ex. expand_loop ps i n fs opts acc = Ret ex \<and> length ex = length acc"
  using assms
proof (induction ps arbitrary: i n acc)
  case (Cons p ps)
  show ?case
  proof (cases "opts AND p > 0")
    case True
    with Cons.prems(2) have n: "n < length fs" by auto
    then show ?thesis
      using Cons.IH [of "n + 1" "i + 1" "acc[i := fs ! n]"] Cons.prems(1) True
      by (auto simp: slice_get_def Let_def)
  next
    case False
    then show ?thesis
      using Cons.IH [of n "i + 1" acc] Cons.prems by auto
  qed
qed simp

definition wf_parser :: "Parser \<Rightarrow> bool" where
  "wf_parser p \<longleftrightarrow> optionals p = 0 \<or> (optionals p = 1 \<and> options p AND optDow > 0)"

lemma and_power_pos: "(a :: int) AND 2 ^ n > 0 \<longleftrightarrow> bit a n"
  using and_exp_eq_0_iff_not_bit [of a n] and_nonnegative_int_iff [of a "2 ^ n"]
  by (metis less_le zero_le_numeral zero_le_power)

lemma wf_NewParser: "wf_parser (NewParser opts)"
  using and_power_pos [of "opts OR optDow" 5]
  by (auto simp: wf_parser_def NewParser_def optDow_def bit_or_iff bit_simps)

lemma expandFields_ok:
  assumes wf: "wf_parser p"
    and mx: "mx = int (length (filter (\<lambda>place. options p AND place > 0) places))"
    and cnt: "mx - optionals p \<le> int (length fs)" "int (length fs) \<le> mx"
  shows "\<exists>ex. expandFields fs (options p) = Ret ex \<and> length ex = 6"
proof (cases "fs = []")
  case False
  then show ?thesis
    using expand_loop_ok [of fs 0 "options p" places 0 defaults] cnt mx
    by (auto simp: expandFields_def defaults_def)
next
  case True
  with cnt have "mx \<le> optionals p" by simp
  then have "\<not> options p AND optSecond > 0"
    using wf mx by (auto simp: wf_parser_def places_def split: if_splits)
  then show ?thesis
    using True by (simp add: expandFields_def places_def defaults_def)
qed

section \<open>Properties\<close>

definition wf_spec :: "SpecSchedule \<Rightarrow> bool" where
  "wf_spec s \<longleftrightarrow> in_bounds seconds (Second s) \<and> in_bounds minutes (Minute s)
     \<and> in_bounds hours (Hour s) \<and> in_bounds dom_bounds (Dom s) \<and> in_bounds months (Month s)
     \<and> in_bounds dow (Dow s)"

lemma all_bits_returns:
  "wf_bounds r \<Longrightarrow> \<exists>b. all_bits r = Some b
     \<and> (\<forall>n. bit b n \<longleftrightarrow> unat (bmin r) \<le> n \<and> n \<le> unat (bmax r) \<or> n = 63)"
  using getBits_bits [of 1 "bmax r" "bmin r"]
  by (auto simp: all_bits_def wf_bounds_def bit_or_iff bit_starBit progression_def)

lemma all_bits_in_bounds: "wf_bounds r \<Longrightarrow> all_bits r = Some b \<Longrightarrow> in_bounds r b"
  using all_bits_returns [of r] by (auto simp: in_bounds_def)

lemma first_bit_in_bounds: "wf_bounds r \<Longrightarrow> in_bounds r (first_bit r)"
  by (auto simp: in_bounds_def first_bit_def bit_push_bit_one wf_bounds_def word_le_nat_alt
           simp del: push_bit_of_1)

definition opt_in_bounds :: "bounds \<Rightarrow> u64 option \<Rightarrow> bool" where
  "opt_in_bounds r w = (\<forall>b. w = Some b \<longrightarrow> in_bounds r b)"

lemma opt_in_bounds_intros:
  "wf_bounds r \<Longrightarrow> opt_in_bounds r (Some (first_bit r))"
  "wf_bounds r \<Longrightarrow> opt_in_bounds r (all_bits r)"
  by (auto simp: opt_in_bounds_def intro: first_bit_in_bounds all_bits_in_bounds)

lemma spec6_wf:
  assumes "spec6 s m h d mo w = Some (SpecSched sp)"
    and "in_bounds seconds s" "in_bounds minutes m" "in_bounds hours h"
    and "opt_in_bounds dom_bounds d" "opt_in_bounds months mo" "opt_in_bounds dow w"
  shows "wf_spec sp"
  using assms by (auto simp: spec6_def wf_spec_def opt_in_bounds_def split: option.splits)

lemmas descriptor_bounds =
  first_bit_in_bounds all_bits_in_bounds opt_in_bounds_intros wf_bounds_fields

lemma parseDescriptor_wf:
  assumes "parseDescriptor pd s = Some (Inr (SpecSched sp))"
  shows "wf_spec sp"
  using assms unfolding parseDescriptor_def
  apply (simp only: split: if_split_asm option.split_asm)
  apply (simp_all add: Every_def Let_def)
  apply (erule spec6_wf; (rule descriptor_bounds | assumption)+)+
  done

lemma spec6_cases: "spec6 s m h d mo w = None \<or> (\<exists>sp. spec6 s m h d mo w = Some (SpecSched sp))"
  by (simp add: spec6_def split: option.splits)

lemma spec6_not_delay: "spec6 s m h d mo w \<noteq> Some (ConstantDelay x)"
  using spec6_cases [of s m h d mo w] by auto

text \<open>A constant delay is made by \<open>Every\<close> only.\<close>

lemma parseDescriptor_delay:
  assumes "parseDescriptor pd s = Some (Inr (ConstantDelay d))"
  shows "\<exists>dur. Every dur = ConstantDelay d"
  using assms unfolding parseDescriptor_def
  by (simp only: split: if_split_asm option.split_asm)
     (simp_all add: spec6_not_delay, blast)

lemma Parser_Parse_delay:
  assumes "Parser_Parse pd p spec = Some (Ret (Inr (ConstantDelay d)))"
  shows "\<exists>dur. ConstantDelay d = Every dur"
proof (cases "hd spec = CHR ''@'' \<and> options p AND optDescriptor > 0")
  case True
  with assms have "parseDescriptor pd spec = Some (Inr (ConstantDelay d))"
    by (auto simp: Parser_Parse_def split: if_splits)
  from parseDescriptor_delay [OF this] show ?thesis by metis
next
  case False
  with assms show ?thesis
    by (auto simp: Parser_Parse_def Let_def
        split: if_splits option.splits sum.splits outcome.splits)
qed

lemma spec6_returns: "\<exists>x. spec6 s m h (Some d) (Some mo) (Some w) = Some x"
  by (simp add: spec6_def)

lemma parseDescriptor_returns: "\<exists>x. parseDescriptor pd s = Some x"
proof -
  obtain a b c d where "all_bits hours = Some a" "all_bits dom_bounds = Some b"
    "all_bits months = Some c" "all_bits dow = Some d"
    using all_bits_returns by (metis wf_bounds_fields)
  then show ?thesis
    by (simp add: parseDescriptor_def spec6_def split: option.splits)
qed

lemma Parser_Parse_returns:
  assumes "wf_parser p"
  shows "\<exists>r. Parser_Parse pd p spec = Some (Ret r)"
proof -
  let ?mx = "int (length (filter (\<lambda>place. options p AND place > 0) places))"
  let ?fs = "split_fields spec"
  consider "spec = []" | "spec \<noteq> []" "hd spec = CHR ''@''" "options p AND optDescriptor > 0"
    | "spec \<noteq> []" "\<not> (hd spec = CHR ''@'' \<and> options p AND optDescriptor > 0)" by blast
  then show ?thesis
  proof cases
    case 2
    then show ?thesis
      using parseDescriptor_returns [of pd spec] by (auto simp: Parser_Parse_def)
  next
    case 3
    show ?thesis
    proof (cases "int (length ?fs) < ?mx - optionals p \<or> int (length ?fs) > ?mx")
      case True
      with 3 show ?thesis by (auto simp: Parser_Parse_def Let_def)
    next
      case False
      then obtain ex where ex: "expandFields ?fs (options p) = Ret ex" "length ex = 6"
        using expandFields_ok [OF assms, of ?mx ?fs] by auto
      obtain x where "parse_six (zip ex [seconds, minutes, hours, dom_bounds, months, dow]) [] = Some x"
        using parse_six_returns [of "zip ex [seconds, minutes, hours, dom_bounds, months, dow]" "[]"]
        by (fastforce dest!: set_zip_rightD)
      with 3 False ex show ?thesis
        by (cases x) (auto simp: Parser_Parse_def Let_def)
    qed
  qed (simp add: Parser_Parse_def)
qed

lemma length_six: "length xs = 6 \<Longrightarrow> \<exists>a b c d e f. xs = [a, b, c, d, e, f]"
  by (auto simp: numeral_eq_Suc length_Suc_conv)

lemma Parser_Parse_wf:
  assumes wf: "wf_parser p" and ok: "Parser_Parse pd p spec = Some (Ret (Inr (SpecSched sp)))"
  shows "wf_spec sp"
proof -
  let ?mx = "int (length (filter (\<lambda>place. options p AND place > 0) places))"
  let ?fs = "split_fields spec"
  show ?thesis
  proof (cases "hd spec = CHR ''@'' \<and> options p AND optDescriptor > 0")
    case True
    with ok have "parseDescriptor pd spec = Some (Inr (SpecSched sp))"
      by (auto simp: Parser_Parse_def split: if_splits)
    then show ?thesis by (rule parseDescriptor_wf)
  next
    case False
    with ok have cnt: "?mx - optionals p \<le> int (length ?fs)" "int (length ?fs) \<le> ?mx"
      by (auto simp: Parser_Parse_def Let_def split: if_splits)
    from expandFields_ok [OF wf refl cnt] obtain ex where
      ex: "expandFields ?fs (options p) = Ret ex" "length ex = 6" by auto
    then obtain bs where
      bs: "parse_six (zip ex [seconds, minutes, hours, dom_bounds, months, dow]) [] = Some (Inr bs)"
      and sp: "sp = \<lparr>Second = bs ! 0, Minute = bs ! 1, Hour = bs ! 2,
                     Dom = bs ! 3, Month = bs ! 4, Dow = bs ! 5\<rparr>"
      using False ok cnt
      by (auto simp: Parser_Parse_def Let_def split: if_splits option.splits sum.splits)
    from length_six [OF ex(2)] obtain a b c d e f where "ex = [a, b, c, d, e, f]" by auto
    with bs parse_six_ok [of "zip ex [seconds, minutes, hours, dom_bounds, months, dow]" "[]" bs]
    show ?thesis
      by (auto simp: sp wf_spec_def list_all2_Cons1)
  qed
qed

lemma mustParseInt_nat_dec: "n < 2 ^ 63 \<Longrightarrow> mustParseInt (nat_dec n) = Inr (word_of_nat n)"
  by (simp add: mustParseInt_def atoi_nat_dec)

text \<open>No name of a field is a decimal number, so a printed number is read as one.\<close>

definition wf_names :: "bounds \<Rightarrow> bool" where
  "wf_names r = (case bnames r of None \<Rightarrow> True | Some ns \<Rightarrow> list_all (\<lambda>(k, v). \<not> list_all is_digit k) ns)"

lemma wf_names_fields [simp]:
  "wf_names seconds" "wf_names minutes" "wf_names hours" "wf_names dom_bounds" "wf_names months"
  "wf_names dow"
  by (simp_all add: wf_names_def seconds_def minutes_def hours_def dom_bounds_def months_def
      dow_def is_digit_def)

lemma parseIntOrName_nat_dec:
  assumes "wf_names r" "n < 2 ^ 63"
  shows "parseIntOrName (nat_dec n) (bnames r) = Inr (word_of_nat n)"
proof (cases "bnames r")
  case (Some ns)
  have "map_of ns (nat_dec n) = None"
    using assms(1) Some nat_dec_digits [of n]
    by (auto simp: wf_names_def list_all_iff map_of_eq_None_iff)
  with Some assms(2) show ?thesis
    by (simp add: parseIntOrName_def mustParseInt_nat_dec)
qed (use assms(2) in \<open>simp add: parseIntOrName_def mustParseInt_nat_dec\<close>)

text \<open>The text of the range \<open>lo-hi/st\<close>.\<close>

definition show_range :: "nat \<Rightarrow> nat \<Rightarrow> nat \<Rightarrow> string" where
  "show_range lo hi st = nat_dec lo @ ''-'' @ nat_dec hi @ ''/'' @ nat_dec st"

lemma split_show_range:
  "split_on CHR ''/'' (show_range lo hi st) = [nat_dec lo @ CHR ''-'' # nat_dec hi, nat_dec st]"
  "split_on CHR ''-'' (nat_dec lo @ CHR ''-'' # nat_dec hi) = [nat_dec lo, nat_dec hi]"
proof -
  have "split_on CHR ''/'' ((nat_dec lo @ CHR ''-'' # nat_dec hi) @ CHR ''/'' # nat_dec st)
      = [nat_dec lo @ CHR ''-'' # nat_dec hi, nat_dec st]"
    by (subst split_on_append_sep) (simp add: split_on_none is_digit_def)
  then show "split_on CHR ''/'' (show_range lo hi st) = [nat_dec lo @ CHR ''-'' # nat_dec hi, nat_dec st]"
    by (simp add: show_range_def)
  show "split_on CHR ''-'' (nat_dec lo @ CHR ''-'' # nat_dec hi) = [nat_dec lo, nat_dec hi]"
    by (simp add: split_on_append_sep split_on_none is_digit_def)
qed

lemma nat_dec_not_star: "nat_dec n \<noteq> ''*''" "nat_dec n \<noteq> ''?''"
  using nat_dec_digits [of n] by (auto simp: is_digit_def)

lemma unat_word_of_nat_small: "n < 2 ^ 64 \<Longrightarrow> unat (word_of_nat n :: u64) = n"
  by (simp add: unsigned_of_nat take_bit_nat_eq_self)

lemma fields_prefix_zero: "split_fields (''0 '' @ s) = ''0'' # split_fields s"
  by (cases "split_by is_space s") (auto simp: split_fields_def fields_func_def is_space_def)

lemma parser_options: "options defaultParser = 255" "optionals defaultParser = 1"
    "options standardParser = 190" "optionals standardParser = 0"
  by (simp_all add: defaultParser_def standardParser_def NewParser_def optSecond_def optMinute_def
      optHour_def optDom_def optMonth_def optDow_def optDowOptional_def optDescriptor_def)

lemma getField_zero: "getField ''0'' seconds = Some (Inr 1)"
  by code_simp

lemma expand_standard: "expandFields [a, b, c, d, e] (options standardParser) = Ret [''0'', a, b, c, d, e]"
  by (simp add: expandFields_def parser_options places_def optSecond_def optMinute_def
      optHour_def optDom_def optMonth_def optDow_def defaults_def slice_get_def)
lemma expand_default: "expandFields [a, b, c, d, e, f] (options defaultParser) = Ret [a, b, c, d, e, f]"
  by (simp add: expandFields_def parser_options places_def optSecond_def optMinute_def
      optHour_def optDom_def optMonth_def optDow_def defaults_def slice_get_def)

text \<open>C36: Parsing never fails to return. For every option set given to \<open>NewParser\<close>, every
  behaviour of \<open>time.ParseDuration\<close> and every input string, \<open>Parser.Parse\<close> terminates
  without an index panic: neither the loop of \<open>getBits\<close> nor the filling of missing fields can go
  wrong, whatever the user wrote.\<close>

theorem parse_total:
  "\<exists>res. Parser_Parse parse_duration (NewParser opts) spec = Some (Ret res)"
  by (rule Parser_Parse_returns) (rule wf_NewParser)

text \<open>C38: A parsed schedule is well formed: every bit of the six sets of a \<open>SpecSchedule\<close>
  returned by \<open>Parser.Parse\<close>, from fields or from a descriptor, lies between the minimum and the
  maximum of its field, or is the star bit 63.\<close>

theorem parse_bits_in_bounds:
  assumes "Parser_Parse parse_duration (NewParser opts) spec = Some (Ret (Inr (SpecSched sp)))"
  shows "in_bounds seconds (Second sp) \<and> in_bounds minutes (Minute sp) \<and> in_bounds hours (Hour sp)
       \<and> in_bounds dom_bounds (Dom sp) \<and> in_bounds months (Month sp) \<and> in_bounds dow (Dow sp)"
  using Parser_Parse_wf [OF wf_NewParser assms] by (simp add: wf_spec_def)

theorem parse_bits_in_bounds_witness:
  "\<exists>sp. Parser_Parse (\<lambda>_. None) (NewParser 127) ''0 30 9 1-5 jan mon'' = Some (Ret (Inr (SpecSched sp)))
     \<and> in_bounds dow (Dow sp)"
proof -
  have "Parser_Parse (\<lambda>_. None) (NewParser 127) ''0 30 9 1-5 jan mon'' = Some (Ret (Inr (SpecSched
      \<lparr>Second = 1, Minute = 1073741824, Hour = 512, Dom = 62, Month = 2, Dow = 2\<rparr>)))"
    by code_simp
  from parse_bits_in_bounds [OF this] this show ?thesis by blast
qed

text \<open>\<open>getField\<close> is the union of its ranges: it succeeds with a set exactly when every
  non-empty piece between commas is a valid range, and then a value is in the set exactly when some
  range holds it; otherwise it returns the error of the first invalid range.\<close>

lemma getField_union:
  assumes "wf_bounds r"
  shows "(\<exists>bits. getField field r = Some (Inr bits)
            \<and> (\<forall>e \<in> set (fields_func (\<lambda>c. c = CHR '','') field). \<exists>b. getRange e r = Some (Inr b))
            \<and> (\<forall>n. bit bits n \<longleftrightarrow> (\<exists>e \<in> set (fields_func (\<lambda>c. c = CHR '','') field).
                     \<exists>b. getRange e r = Some (Inr b) \<and> bit b n)))
       \<or> (\<exists>err pre e post. getField field r = Some (Inl err)
            \<and> fields_func (\<lambda>c. c = CHR '','') field = pre @ e # post
            \<and> getRange e r = Some (Inl err) \<and> (\<forall>x \<in> set pre. \<exists>b. getRange x r = Some (Inr b)))"
proof -
  obtain x where x: "getField field r = Some x"
    using getField_returns [OF assms] by blast
  show ?thesis
  proof (cases x)
    case (Inl err)
    with x getField_loop_error [of "fields_func (\<lambda>c. c = CHR '','') field" r 0 err] show ?thesis
      unfolding getField_def by (intro disjI2) auto
  next
    case (Inr b)
    with x show ?thesis
      using getField_loop_ok [of "fields_func (\<lambda>c. c = CHR '','') field" r 0 b]
      unfolding getField_def by (intro disjI1 exI [of _ b]) auto
  qed
qed

lemma getField_union_witness:
  "wf_bounds dow \<and> ((\<exists>bits. getField ''1,mon'' dow = Some (Inr bits))
     \<or> (\<exists>err. getField ''1,mon'' dow = Some (Inl err)))"
  using getField_union [of dow "''1,mon''"] by auto

text \<open>Printing and parsing a stepped range agree: for a range inside the bounds of a field, the
  text \<open>lo-hi/st\<close> is accepted by \<open>getRange\<close> and denotes exactly the values \<open>lo, lo+st, ...\<close>
  up to \<open>hi\<close>.\<close>

lemma getRange_show_range:
  assumes "wf_bounds r" "wf_names r" "unat (bmin r) \<le> lo" "lo \<le> hi" "hi \<le> unat (bmax r)"
    and "0 < st" "st < 2 ^ 63"
  shows "\<exists>b. getRange (show_range lo hi st) r = Some (Inr b)
           \<and> (\<forall>n. bit b n \<longleftrightarrow> lo \<le> n \<and> n \<le> hi \<and> st dvd (n - lo))"
proof -
  have small: "lo < 63" "hi < 63" using assms by (auto simp: wf_bounds_def)
  have ends: "range_ends (show_range lo hi st) [nat_dec lo, nat_dec hi] r
      = Inr (word_of_nat lo, word_of_nat hi, 0)"
    using assms(2) small
    by (simp add: range_ends_def parseIntOrName_nat_dec nat_dec_not_star)
  have step: "range_step (show_range lo hi st) [nat_dec lo @ CHR ''-'' # nat_dec hi, nat_dec st] False
      (word_of_nat hi) r = Inr (word_of_nat hi, word_of_nat st)"
    using assms by (simp add: range_step_def mustParseInt_nat_dec)
  have u: "unat (word_of_nat lo :: u64) = lo" "unat (word_of_nat hi :: u64) = hi"
    "unat (word_of_nat st :: u64) = st"
    using small assms by (auto intro!: unat_word_of_nat_small)
  have check: "range_check (show_range lo hi st) (word_of_nat lo) (word_of_nat hi) (word_of_nat st) r
      = None"
    using assms u by (simp add: range_check_None word_le_nat_alt word_less_nat_alt)
  obtain b where "getBits (word_of_nat lo) (word_of_nat hi) (word_of_nat st) = Some b"
    "\<forall>n. bit b n \<longleftrightarrow> n \<in> progression lo hi st"
    using range_bits [of r "word_of_nat hi" "word_of_nat st" "word_of_nat lo"] assms u
    by (auto simp: word_le_nat_alt word_less_nat_alt)
  then show ?thesis
    using ends step check
    by (simp add: getRange_def Let_def split_show_range progression_def)
qed

lemma getRange_show_range_witness:
  "wf_bounds minutes \<and> wf_names minutes
   \<and> (\<exists>b. getRange (show_range 10 40 15) minutes = Some (Inr b) \<and> bit b 25 \<and> \<not> bit b 30)"
proof -
  have "unat (bmin minutes) \<le> 10" "40 \<le> unat (bmax minutes)"
    by (simp_all add: minutes_def)
  then show ?thesis
    using getRange_show_range [of minutes 10 40 15] by (force dest: dvd_imp_le)
qed

text \<open>The shift formula that \<open>getBits\<close> uses for a step of one computes the same set as its
  general loop.\<close>

theorem getBits_shift_equals_loop:
  assumes "unat mx < 63"
  shows "getBits mn mx 1 = getBits_loop mn mx 1 0"
proof -
  obtain b where "getBits_loop mn mx 1 0 = Some b"
    "\<forall>n. bit b n \<longleftrightarrow> n \<in> progression (unat mn) (unat mx) 1"
    using getBits_loop_bits [of 1 mx mn 0] assms by auto
  moreover obtain c where "getBits mn mx 1 = Some c"
    "\<forall>n. bit c n \<longleftrightarrow> n \<in> progression (unat mn) (unat mx) 1"
    using getBits_bits [of 1 mx mn] assms by auto
  ultimately show ?thesis by (auto simp: bit_eq_iff)
qed

theorem getBits_shift_equals_loop_witness:
  "unat (59 :: u64) < 63 \<and> getBits 5 59 1 = getBits_loop 5 59 1 0"
  using getBits_shift_equals_loop [of 59 5] by simp

text \<open>The descriptors mean the crontab lines that the documentation gives for them.\<close>
lemma descriptor_equivalents:
  "Parse pd ''@yearly'' = Parse pd ''0 0 0 1 1 *''
   \<and> Parse pd ''@annually'' = Parse pd ''0 0 0 1 1 *''
   \<and> Parse pd ''@monthly'' = Parse pd ''0 0 0 1 * *''
   \<and> Parse pd ''@weekly'' = Parse pd ''0 0 0 * * 0''
   \<and> Parse pd ''@daily'' = Parse pd ''0 0 0 * * *''
   \<and> Parse pd ''@midnight'' = Parse pd ''0 0 0 * * *''
   \<and> Parse pd ''@hourly'' = Parse pd ''0 0 * * * *''"
  by code_simp

text \<open>The two parsers agree: a five-field crontab line read by \<open>ParseStandard\<close> and the
  same line with a leading seconds field of 0 read by \<open>Parse\<close> give the same result, error
  values included.\<close>

lemma standard_prefix:
  assumes "length (split_fields s) = 5" "hd s \<noteq> CHR ''@''"
  shows "Parse pd (''0 '' @ s) = ParseStandard pd s"
proof -
  obtain a b c d e where f: "split_fields s = [a, b, c, d, e]"
    using assms(1) by (auto simp: numeral_eq_Suc length_Suc_conv)
  have "s \<noteq> []" using f by (auto simp: split_fields_def fields_func_def)
  have f': "split_fields (CHR ''0'' # CHR '' '' # s) = [''0'', a, b, c, d, e]"
    using fields_prefix_zero [of s] f by simp
  have m: "length (filter (\<lambda>place. options standardParser AND place > 0) places) = 5"
    "length (filter (\<lambda>place. options defaultParser AND place > 0) places) = 6"
    by (simp_all add: parser_options places_def optSecond_def optMinute_def
      optHour_def optDom_def optMonth_def optDow_def)
  show ?thesis
    using assms(2) \<open>s \<noteq> []\<close>
    by (simp only: Parse_def ParseStandard_def Parser_Parse_def Let_def m f f' expand_standard
        expand_default append.simps)
       (simp add: parser_options f f' expand_standard[unfolded parser_options] expand_default[unfolded parser_options] getField_zero)
qed

lemma standard_prefix_witness:
  "length (split_fields ''*/15 2 * * 1'') = 5
   \<and> Parse (\<lambda>_. None) (''0 '' @ ''*/15 2 * * 1'') = ParseStandard (\<lambda>_. None) ''*/15 2 * * 1''"
proof -
  have "length (split_fields ''*/15 2 * * 1'') = 5" by code_simp
  then show ?thesis using standard_prefix [of "''*/15 2 * * 1''"] by simp
qed

end
