(* ===== verification/GoTime.thy ===== *)
theory GoTime
  imports Prelude
begin

text \<open>
  The part of Go's package \<open>time\<close> that \<open>cron\<close> uses. A \<open>Time\<close> holds the seconds since
  1 January of year 1 (UTC), the nanoseconds within the second and the offset of its
  location in seconds east of UTC. The location has a fixed offset: daylight saving
  transitions are not modelled. The calendar is the proleptic Gregorian one, with
  unbounded years.
\<close>

section \<open>The calendar\<close>

definition leap :: "int \<Rightarrow> int" where
  "leap y = (if y mod 4 = 0 \<and> (y mod 100 \<noteq> 0 \<or> y mod 400 = 0) then 1 else 0)"

text \<open>Days from 1 January of year 1 to 1 January of year \<open>y\<close>.\<close>

definition days_before_year :: "int \<Rightarrow> int" where
  "days_before_year y = 365 * (y - 1) + (y - 1) div 4 - (y - 1) div 100 + (y - 1) div 400"

definition year_of_days :: "int \<Rightarrow> int" where
  "year_of_days d =
     (let y = (400 * d) div 146097 + 1
      in if d < days_before_year y then y - 1
         else if days_before_year (y + 1) \<le> d then y + 1 else y)"

text \<open>Days of the year before the first of month \<open>m\<close>; \<open>l\<close> is the leap day of the year.\<close>

definition days_before_month :: "int \<Rightarrow> int \<Rightarrow> int" where
  "days_before_month l m =
     (if m = 1 then 0 else if m = 2 then 31 else if m = 3 then 59 + l else if m = 4 then 90 + l
      else if m = 5 then 120 + l else if m = 6 then 151 + l else if m = 7 then 181 + l
      else if m = 8 then 212 + l else if m = 9 then 243 + l else if m = 10 then 273 + l
      else if m = 11 then 304 + l else if m = 12 then 334 + l else 365 + l)"

definition month_of_yday :: "int \<Rightarrow> int \<Rightarrow> int" where
  "month_of_yday l yd =
     (if yd < 31 then 1 else if yd < 59 + l then 2 else if yd < 90 + l then 3
      else if yd < 120 + l then 4 else if yd < 151 + l then 5 else if yd < 181 + l then 6
      else if yd < 212 + l then 7 else if yd < 243 + l then 8 else if yd < 273 + l then 9
      else if yd < 304 + l then 10 else if yd < 334 + l then 11 else 12)"

definition month_of_days :: "int \<Rightarrow> int" where
  "month_of_days d =
     (let y = year_of_days d in month_of_yday (leap y) (d - days_before_year y))"

text \<open>Day number of the first of a month, and the day of the month.\<close>

definition month_start :: "int \<Rightarrow> int \<Rightarrow> int" where
  "month_start y m = days_before_year y + days_before_month (leap y) m"

definition mday_of_days :: "int \<Rightarrow> int" where
  "mday_of_days d = d - month_start (year_of_days d) (month_of_days d) + 1"

lemma leap_cases: "leap y = 0 \<or> leap y = 1"
  by (simp add: leap_def)

lemma div_step_int:
  assumes "0 < (k :: int)"
  shows "(n + 1) div k = n div k + (if (n + 1) mod k = 0 then 1 else 0)"
proof -
  define q where "q = (n + 1) div k"
  define r where "r = (n + 1) mod k"
  have n: "n = k * q + (r - 1)" by (simp add: q_def r_def algebra_simps)
  have r: "0 \<le> r" "r < k" using assms by (simp_all add: r_def)
  show ?thesis
  proof (cases "r = 0")
    case True
    have "n div k = q - 1"
      by (rule int_div_pos_eq [of _ _ _ "k - 1"]) (use n True assms in \<open>auto simp: algebra_simps\<close>)
    with True show ?thesis by (simp add: q_def r_def)
  next
    case False
    have "n div k = q"
      by (rule int_div_pos_eq [of _ _ _ "r - 1"]) (use n False r in auto)
    with False show ?thesis by (simp add: q_def r_def)
  qed
qed

lemma mod_multiples: "y mod 400 = 0 \<Longrightarrow> y mod 100 = (0 :: int)" "y mod 100 = 0 \<Longrightarrow> y mod 4 = (0 :: int)"
  using mod_mod_cancel [of 100 400 y] mod_mod_cancel [of 4 100 y] by auto

lemma leap_sum:
  "leap y = (if y mod 4 = 0 then 1 else 0) - (if y mod 100 = 0 then 1 else 0)
      + (if y mod 400 = 0 then 1 else 0)"
  by (auto simp: leap_def dest: mod_multiples)

lemma days_before_year_Suc: "days_before_year (y + 1) = days_before_year y + 365 + leap y"
proof -
  have step: "y div k = (y - 1) div k + (if y mod k = 0 then 1 else 0)" if "0 < k" for k
    using div_step_int [OF that, of "y - 1"] unfolding diff_add_cancel .
  have sum: "365 * (y + 1 - 1) + (a + i) - (b + j) + (c + k)
      = 365 * (y - 1) + a - b + c + 365 + (i - j + k)" for a b c i j k :: int
    by simp
  have "y + 1 - 1 = y" by simp
  then have "(y + 1 - 1) div k = (y - 1) div k + (if y mod k = 0 then 1 else 0)" if "0 < k" for k
    using step [OF that] by (simp only:)
  then show ?thesis unfolding days_before_year_def leap_sum
    by (simp only: sum zero_less_numeral)
qed

lemma div_bounds_int: "0 < (k :: int) \<Longrightarrow> k * (n div k) \<le> n \<and> n < k * (n div k) + k"
  using mult_div_mod_eq [of k n] pos_mod_sign [of k n] pos_mod_bound [of k n] by linarith

lemma days_before_year_bounds:
  "146097 * (y - 1) \<le> 400 * days_before_year y + 699 \<and> 400 * days_before_year y \<le> 146097 * (y - 1) + 396"
  using div_bounds_int [of 4 "y - 1"] div_bounds_int [of 100 "y - 1"] div_bounds_int [of 400 "y - 1"]
  unfolding days_before_year_def by simp

lemma days_before_year_mono: "a \<le> b \<Longrightarrow> days_before_year a \<le> days_before_year b"
proof (induction "nat (b - a)" arbitrary: b)
  case (Suc n)
  then have "days_before_year a \<le> days_before_year (b - 1)" by simp
  also have "\<dots> \<le> days_before_year b"
    using days_before_year_Suc [of "b - 1"] leap_cases [of "b - 1"] by auto
  finally show ?case .
qed simp

lemma year_of_days_bounds:
  "days_before_year (year_of_days d) \<le> d \<and> d < days_before_year (year_of_days d + 1)"
proof -
  define y where "y = (400 * d) div 146097 + 1"
  have est: "146097 * (y - 1) \<le> 400 * d" "400 * d < 146097 * y"
    unfolding y_def using div_bounds_int [of 146097 "400 * d"] by simp_all
  have "days_before_year (y - 1) \<le> d"
    using days_before_year_bounds [of "y - 1"] est by simp
  moreover have "d < days_before_year (y + 2)"
    using days_before_year_bounds [of "y + 2"] est by simp
  ultimately show ?thesis
    unfolding year_of_days_def Let_def y_def [symmetric] by (auto simp: algebra_simps)
qed

lemma year_of_days_unique:
  assumes "days_before_year y \<le> d" "d < days_before_year (y + 1)"
  shows "year_of_days d = y"
proof (rule antisym)
  show "year_of_days d \<le> y"
    using year_of_days_bounds [of d] assms days_before_year_mono [of "y + 1" "year_of_days d"]
    by (cases "year_of_days d \<le> y") auto
  show "y \<le> year_of_days d"
    using year_of_days_bounds [of d] assms days_before_year_mono [of "year_of_days d + 1" y]
    by (cases "y \<le> year_of_days d") auto
qed

lemma month_of_yday_bounds:
  assumes "0 \<le> yd" "yd < 365 + l" "l = 0 \<or> l = 1"
  shows "1 \<le> month_of_yday l yd \<and> month_of_yday l yd \<le> 12
    \<and> days_before_month l (month_of_yday l yd) \<le> yd
    \<and> yd < days_before_month l (month_of_yday l yd + 1)"
  using assms by (auto simp: month_of_yday_def days_before_month_def)

lemma twelve: "1 \<le> (m :: int) \<Longrightarrow> m \<le> 12 \<Longrightarrow>
   m = 1 \<or> m = 2 \<or> m = 3 \<or> m = 4 \<or> m = 5 \<or> m = 6 \<or> m = 7 \<or> m = 8 \<or> m = 9 \<or> m = 10 \<or> m = 11 \<or> m = 12"
  by presburger

lemma month_of_yday_unique:
  assumes "1 \<le> m" "m \<le> 12" "l = 0 \<or> l = 1"
    and "days_before_month l m \<le> yd" "yd < days_before_month l (m + 1)"
  shows "month_of_yday l yd = m"
  using twelve [OF assms(1,2)] assms(3-) unfolding month_of_yday_def days_before_month_def
  by (elim disjE) simp_all

lemma days_before_month_step:
  "1 \<le> m \<Longrightarrow> m \<le> 12 \<Longrightarrow> l = 0 \<or> l = 1
    \<Longrightarrow> days_before_month l m + 28 \<le> days_before_month l (m + 1)
      \<and> days_before_month l (m + 1) \<le> days_before_month l m + 31"
  by (drule (1) twelve) (auto simp: days_before_month_def)

lemma days_before_month_range:
  "1 \<le> m \<Longrightarrow> m \<le> 13 \<Longrightarrow> l = 0 \<or> l = 1
    \<Longrightarrow> 0 \<le> days_before_month l m \<and> days_before_month l m \<le> 365 + l"
  by (auto simp: days_before_month_def)

text \<open>The first day of the month after (\<open>y\<close>, \<open>m\<close>).\<close>

lemma month_start_13: "month_start y 13 = month_start (y + 1) 1"
  by (simp add: month_start_def days_before_month_def days_before_year_Suc)

lemma month_of_days_bounds:
  fixes d :: int
  defines "y \<equiv> year_of_days d" and "m \<equiv> month_of_days d"
  shows "1 \<le> m \<and> m \<le> 12 \<and> month_start y m \<le> d \<and> d < month_start y (m + 1)"
proof -
  have "0 \<le> d - days_before_year y" "d - days_before_year y < 365 + leap y"
    using year_of_days_bounds [of d] days_before_year_Suc [of y] by (auto simp: y_def)
  from month_of_yday_bounds [OF this leap_cases] show ?thesis
    by (auto simp: m_def y_def month_of_days_def Let_def month_start_def)
qed

lemma month_of_days_unique:
  assumes "1 \<le> m" "m \<le> 12" "month_start y m \<le> d" "d < month_start y (m + 1)"
  shows "year_of_days d = y \<and> month_of_days d = m"
proof -
  have "year_of_days d = y"
    using assms days_before_month_range [of m "leap y"] days_before_month_range [of "m + 1" "leap y"]
      leap_cases [of y] days_before_year_Suc [of y]
    by (intro year_of_days_unique) (auto simp: month_start_def)
  moreover from this have "month_of_days d = m"
    using assms month_of_yday_unique [of m "leap y" "d - days_before_year y"] leap_cases [of y]
    by (auto simp: month_of_days_def Let_def month_start_def)
  ultimately show ?thesis by simp
qed

lemma mday_bounds: "1 \<le> mday_of_days d \<and> mday_of_days d \<le> 31"
  using month_of_days_bounds [of d] leap_cases [of "year_of_days d"]
    days_before_month_step [of "month_of_days d" "leap (year_of_days d)"]
  by (auto simp: mday_of_days_def month_start_def)

lemma month_start_step:
  "1 \<le> m \<Longrightarrow> m \<le> 12 \<Longrightarrow> month_start y m + 28 \<le> month_start y (m + 1)
     \<and> month_start y (m + 1) \<le> month_start y m + 31"
  using days_before_month_step [of m "leap y"] leap_cases [of y] by (auto simp: month_start_def)

section \<open>Times\<close>

record Time =
  tsec :: int
  tnsec :: int
  toff :: int

definition zeroTime :: Time where
  "zeroTime = \<lparr>tsec = 0, tnsec = 0, toff = 0\<rparr>"

definition IsZero :: "Time \<Rightarrow> bool" where
  "IsZero t = (tsec t = 0 \<and> tnsec t = 0)"

definition Before :: "Time \<Rightarrow> Time \<Rightarrow> bool" where
  "Before t u = (tsec t < tsec u \<or> tsec t = tsec u \<and> tnsec t < tnsec u)"

definition After :: "Time \<Rightarrow> Time \<Rightarrow> bool" where
  "After t u = Before u t"

text \<open>Seconds since 1 January of year 1 on the clock of the location.\<close>

definition lsec :: "Time \<Rightarrow> int" where
  "lsec t = tsec t + toff t"

definition at_local :: "Time \<Rightarrow> int \<Rightarrow> Time" where
  "at_local t l = \<lparr>tsec = l - toff t, tnsec = 0, toff = toff t\<rparr>"

definition tYear :: "Time \<Rightarrow> int" where "tYear t = year_of_days (lsec t div 86400)"
definition tMonth :: "Time \<Rightarrow> int" where "tMonth t = month_of_days (lsec t div 86400)"
definition tDay :: "Time \<Rightarrow> int" where "tDay t = mday_of_days (lsec t div 86400)"
definition tHour :: "Time \<Rightarrow> int" where "tHour t = lsec t mod 86400 div 3600"
definition tMinute :: "Time \<Rightarrow> int" where "tMinute t = lsec t mod 3600 div 60"
definition tSecond :: "Time \<Rightarrow> int" where "tSecond t = lsec t mod 60"
definition tWeekday :: "Time \<Rightarrow> int" where "tWeekday t = (lsec t div 86400 + 1) mod 7"

text \<open>\<open>t.Add(d)\<close>, \<open>d\<close> in nanoseconds, the carry normalised as in Go.\<close>

definition tAdd :: "Time \<Rightarrow> int \<Rightarrow> Time" where
  "tAdd t d = t\<lparr>tsec := tsec t + (tnsec t + d) div 1000000000,
                tnsec := (tnsec t + d) mod 1000000000\<rparr>"

text \<open>
  \<open>time.Date\<close> in the location of \<open>t\<close>, without nanoseconds: a month outside 1..12 is carried
  into the year, and days, hours, minutes and seconds are carried by the sum.
\<close>

definition tDate :: "Time \<Rightarrow> int \<Rightarrow> int \<Rightarrow> int \<Rightarrow> int \<Rightarrow> int \<Rightarrow> int \<Rightarrow> Time" where
  "tDate t y m d hh mm ss =
     (let y' = y + (m - 1) div 12; m' = (m - 1) mod 12 + 1
      in at_local t (86400 * (month_start y' m' + d - 1) + 3600 * hh + 60 * mm + ss))"

text \<open>\<open>t.AddDate\<close>: the nanoseconds are kept.\<close>

definition AddDate :: "Time \<Rightarrow> int \<Rightarrow> int \<Rightarrow> int \<Rightarrow> Time" where
  "AddDate t ys ms ds =
     (tDate t (tYear t + ys) (tMonth t + ms) (tDay t + ds) (tHour t) (tMinute t) (tSecond t))
       \<lparr>tnsec := tnsec t\<rparr>"

text \<open>\<open>t.Truncate\<close> to a whole number of seconds \<open>k\<close>, since the zero time.\<close>

definition Truncate :: "Time \<Rightarrow> int \<Rightarrow> Time" where
  "Truncate t k = t\<lparr>tsec := tsec t - tsec t mod k, tnsec := 0\<rparr>"

lemma at_local_simps [simp]:
  "lsec (at_local t l) = l" "toff (at_local t l) = toff t" "tnsec (at_local t l) = 0"
  "tsec (at_local t l) = l - toff t"
  by (simp_all add: at_local_def lsec_def)

lemma at_local_eqI: "lsec t = l \<Longrightarrow> tnsec t = 0 \<Longrightarrow> toff t = toff u \<Longrightarrow> t = at_local u l"
  by (simp add: at_local_def lsec_def)

lemma at_local_at_local [simp]: "at_local (at_local t l) = at_local t"
  by (rule ext) (simp add: at_local_def)

lemma at_local_tnsec [simp]: "at_local t l\<lparr>tnsec := 0\<rparr> = at_local t l"
  by (simp add: at_local_def)

lemma clock_split: "(l :: int) = 86400 * (l div 86400) + 3600 * (l mod 86400 div 3600)
    + 60 * (l mod 3600 div 60) + l mod 60"
proof -
  have "l mod 86400 mod 3600 = l mod 3600" "l mod 3600 mod 60 = l mod 60"
    by (simp_all add: mod_mod_cancel)
  then show ?thesis
    using mult_div_mod_eq [of 86400 l] mult_div_mod_eq [of 3600 "l mod 86400"]
      mult_div_mod_eq [of 60 "l mod 3600"] by linarith
qed

lemma tSecond_at [simp]: "tSecond (at_local t l) = l mod 60" by (simp add: tSecond_def)
lemma tMinute_at [simp]: "tMinute (at_local t l) = l mod 3600 div 60" by (simp add: tMinute_def)
lemma tHour_at [simp]: "tHour (at_local t l) = l mod 86400 div 3600" by (simp add: tHour_def)
lemma tDay_at [simp]: "tDay (at_local t l) = mday_of_days (l div 86400)" by (simp add: tDay_def)
lemma tMonth_at [simp]: "tMonth (at_local t l) = month_of_days (l div 86400)" by (simp add: tMonth_def)
lemma tYear_at [simp]: "tYear (at_local t l) = year_of_days (l div 86400)" by (simp add: tYear_def)
lemma tWeekday_at [simp]: "tWeekday (at_local t l) = (l div 86400 + 1) mod 7"
  by (simp add: tWeekday_def)

lemma tAdd_at: "tAdd (at_local t l) (k * 1000000000) = at_local t (l + k)"
  by (simp add: tAdd_def at_local_def)

lemma month_in_year:
  "(month_of_days d - 1) div 12 = 0" "(month_of_days d - 1) mod 12 = month_of_days d - 1"
  using month_of_days_bounds [of d] by (auto simp: div_pos_pos_trivial)

lemma AddDate_day_at: "AddDate (at_local t l) 0 0 1 = at_local t (l + 86400)"
proof -
  define d where "d = l div 86400"
  have "AddDate (at_local t l) 0 0 1 = at_local t (86400 * (d + 1) + 3600 * (l mod 86400 div 3600)
      + 60 * (l mod 3600 div 60) + l mod 60)"
    unfolding AddDate_def tDate_def Let_def
    by (simp add: d_def [symmetric] month_in_year mday_of_days_def)
  moreover have "86400 * (d + 1) + 3600 * (l mod 86400 div 3600)
      + 60 * (l mod 3600 div 60) + l mod 60 = l + 86400"
    unfolding d_def distrib_left by (subst (5) clock_split) (simp only: mult_1_right ac_simps)
  ultimately show ?thesis by (rule trans [OF _ arg_cong])
qed

definition next_month_start :: "int \<Rightarrow> int" where
  "next_month_start d = month_start (year_of_days d) (month_of_days d + 1)"

lemma AddDate_month_at:
  assumes "l mod 86400 = 0" "mday_of_days (l div 86400) = 1"
  shows "AddDate (at_local t l) 0 1 0 = at_local t (86400 * next_month_start (l div 86400))"
proof -
  define d where "d = l div 86400"
  have c: "l mod 86400 div 3600 = 0" "l mod 3600 div 60 = 0" "l mod 60 = 0"
    using assms(1) mod_mod_cancel [of 3600 86400 l] mod_mod_cancel [of 60 86400 l] by simp_all
  define m where "m = month_of_days d"
  have m: "1 \<le> m" "m \<le> 12" using month_of_days_bounds [of d] by (auto simp: m_def)
  have md: "mday_of_days d = 1" using assms(2) by (simp add: d_def)
  have "AddDate (at_local t l) 0 1 0
      = at_local t (86400 * month_start (year_of_days d + m div 12) (m mod 12 + 1))"
    by (simp only: AddDate_def tDate_def Let_def tYear_at tMonth_at tDay_at tHour_at tMinute_at
        tSecond_at at_local_simps at_local_at_local at_local_tnsec c d_def [symmetric] md
        m_def [symmetric] add_diff_cancel_right' mult_zero_right add_0_right)
  moreover have "month_start (year_of_days d + m div 12) (m mod 12 + 1) = next_month_start d"
  proof (cases "m = 12")
    case True
    then show ?thesis
      using month_start_13 [of "year_of_days d"] by (simp add: next_month_start_def m_def)
  next
    case False
    with m have "m div 12 = 0" "m mod 12 = m" by (simp_all add: div_pos_pos_trivial)
    then show ?thesis by (simp add: next_month_start_def m_def)
  qed
  ultimately show ?thesis by (simp add: d_def)
qed

lemma tDate_at:
  "tDate (at_local t l) (year_of_days d) (month_of_days d) dd hh mm ss
     = at_local t (86400 * (month_start (year_of_days d) (month_of_days d) + dd - 1)
         + 3600 * hh + 60 * mm + ss)"
  unfolding tDate_def Let_def
  by (simp only: month_in_year at_local_at_local add_0_right diff_add_cancel)

section \<open>Successive units\<close>

lemma next_month_start_bounds:
  "d < next_month_start d" "month_start (year_of_days d) (month_of_days d) \<le> d"
  "next_month_start d \<le> month_start (year_of_days d) (month_of_days d) + 31"
  using month_of_days_bounds [of d] month_start_step [of "month_of_days d" "year_of_days d"]
  by (auto simp: next_month_start_def)

lemma next_month_start_cases:
  "(month_of_days d = 12 \<and> next_month_start d = days_before_year (year_of_days d + 1)
      \<and> year_of_days (next_month_start d) = year_of_days d + 1
      \<and> month_of_days (next_month_start d) = 1)
   \<or> (month_of_days d < 12 \<and> year_of_days (next_month_start d) = year_of_days d
      \<and> month_of_days (next_month_start d) = month_of_days d + 1)"
proof (cases "month_of_days d = 12")
  case True
  then have n: "next_month_start d = month_start (year_of_days d + 1) 1"
    using month_start_13 [of "year_of_days d"] by (simp add: next_month_start_def)
  then have "year_of_days (next_month_start d) = year_of_days d + 1 \<and> month_of_days (next_month_start d) = 1"
    using month_start_step [of 1 "year_of_days d + 1"] by (intro month_of_days_unique) auto
  with n True show ?thesis by (simp add: month_start_def days_before_month_def)
next
  case False
  then have "month_of_days d < 12" using month_of_days_bounds [of d] by auto
  moreover from this have "year_of_days (next_month_start d) = year_of_days d
      \<and> month_of_days (next_month_start d) = month_of_days d + 1"
    using month_of_days_bounds [of d] month_start_step [of "month_of_days d + 1" "year_of_days d"]
    by (intro month_of_days_unique) (auto simp: next_month_start_def)
  ultimately show ?thesis by simp
qed

lemma mday_next_month_start: "mday_of_days (next_month_start d) = 1"
  using next_month_start_cases [of d] month_start_13 [of "year_of_days d"]
  by (auto simp: mday_of_days_def next_month_start_def)

text \<open>All days of a month have its year and its month.\<close>

lemma same_month:
  assumes "month_start (year_of_days d) (month_of_days d) \<le> u" "u < next_month_start d"
  shows "year_of_days u = year_of_days d \<and> month_of_days u = month_of_days d"
  using assms month_of_days_bounds [of d]
  by (intro month_of_days_unique) (auto simp: next_month_start_def)

lemma next_day_cases:
  "(mday_of_days (d + 1) = 1 \<and> d + 1 = next_month_start d)
   \<or> (mday_of_days (d + 1) = mday_of_days d + 1 \<and> mday_of_days d \<ge> 1
       \<and> year_of_days (d + 1) = year_of_days d \<and> month_of_days (d + 1) = month_of_days d)"
proof (cases "d + 1 = next_month_start d")
  case True
  then show ?thesis using mday_next_month_start [of d] by simp
next
  case False
  with same_month [of d "d + 1"] next_month_start_bounds [of d] mday_bounds [of d] show ?thesis
    by (auto simp: mday_of_days_def)
qed

text \<open>A unit of \<open>k\<close> seconds inside a unit of \<open>k * n\<close> seconds.\<close>

lemma clock_digit: "0 < k \<Longrightarrow> 0 < n \<Longrightarrow> (l :: int) mod (k * n) div k = l div k mod n"
  by (simp add: zmod_zmult2_eq)

lemma unit_div: "0 < (k :: int) \<Longrightarrow> (l - l mod k) div k = l div k"
  by (simp add: minus_mod_eq_mult_div)

lemma unit_next_div: "0 < (k :: int) \<Longrightarrow> (l - l mod k + k) div k = l div k + 1"
  by (simp add: minus_mod_eq_mult_div div_add_self2)

lemma unit_next_cases:
  assumes "0 < (k :: int)" "0 < n"
  shows "(l div k + 1) mod n = 0 \<Longrightarrow> l - l mod k + k = l - l mod (k * n) + k * n"
    and "(l div k + 1) mod n \<noteq> 0 \<Longrightarrow> (l - l mod k + k) div (k * n) = l div (k * n)
           \<and> (l div k + 1) mod n = l div k mod n + 1"
proof -
  define q where "q = l div k"
  have d: "l div (k * n) = q div n" "(l - l mod k + k) div (k * n) = (q + 1) div n"
    unfolding q_def zdiv_zmult2_eq [OF less_imp_le [OF assms(2)]] unit_next_div [OF assms(1)]
    by (rule refl)+
  have l: "l - l mod k + k = k * (q + 1)" "l - l mod (k * n) + k * n = k * (n * (q div n) + n)"
    unfolding minus_mod_eq_mult_div d(1) by (simp_all add: q_def algebra_simps)
  have s: "(q + 1) div n = q div n + (if (q + 1) mod n = 0 then 1 else 0)"
    using assms by (intro div_step_int)
  have e: "n * ((q + 1) div n) + (q + 1) mod n = q + 1" "n * (q div n) + q mod n = q" by simp_all
  show "(l div k + 1) mod n = 0 \<Longrightarrow> l - l mod k + k = l - l mod (k * n) + k * n"
    using e(1) s unfolding l q_def [symmetric] by (simp add: algebra_simps)
  assume nz: "(l div k + 1) mod n \<noteq> 0"
  then have s': "(q + 1) div n = q div n" using s by (simp add: q_def)
  have "(q + 1) mod n = q mod n + 1" using e(1) [unfolded s'] e(2) by linarith
  then show "(l - l mod k + k) div (k * n) = l div (k * n) \<and> (l div k + 1) mod n = l div k mod n + 1"
    unfolding d s' q_def [symmetric] by simp
qed

end
