(* ===== verification/CronSpec.thy ===== *)
theory CronSpec
  imports CronParser GoTime
begin

unbundle bit_operations_syntax

text \<open>
  The activation times of a schedule: \<open>cron/spec.go\<close> (\<open>Next\<close>, \<open>dayMatches\<close>) and
  \<open>cron/constantdelay.go\<close> (\<open>Next\<close>).

  The five loops of \<open>SpecSchedule.Next\<close> are instances of one search \<open>seek\<close>, and the
  label WRAP is the recursion of \<open>next_wrap\<close>. Both are partial functions into option, so
  that a loop that does not end is \<open>None\<close>; that they end is proved. The locale
  \<open>calendar_unit\<close> is the contract of a unit of the calendar inside the next larger one;
  it is interpreted for months, days, hours, minutes and seconds.
\<close>

section \<open>The code\<close>

text \<open>
  A loop \<open>for !ok(t) { if !added { added = true; t = reset(t) }; t = incr(t);
  if wrapped(t) { goto WRAP } }\<close>. The result tells whether the loop left by the goto, the
  flag \<open>added\<close> and the time.
\<close>

partial_function (option) seek ::
  "(Time \<Rightarrow> bool) \<Rightarrow> (Time \<Rightarrow> Time) \<Rightarrow> (Time \<Rightarrow> Time) \<Rightarrow> (Time \<Rightarrow> bool) \<Rightarrow> bool \<Rightarrow> Time
     \<Rightarrow> (bool \<times> bool \<times> Time) option" where
  "seek ok reset incr wrapped added t =
     (if ok t then Some (False, added, t)
      else let t' = incr (if added then t else reset t)
           in if wrapped t' then Some (True, True, t')
              else seek ok reset incr wrapped True t')"

definition dayMatches :: "SpecSchedule \<Rightarrow> Time \<Rightarrow> bool" where
  "dayMatches s t =
     (let domMatch = push_bit (nat (tDay t)) 1 AND Dom s > 0;
          dowMatch = push_bit (nat (tWeekday t)) 1 AND Dow s > 0
      in if Dom s AND starBit > 0 \<or> Dow s AND starBit > 0
         then domMatch \<and> dowMatch else domMatch \<or> dowMatch)"

definition month_loop :: "SpecSchedule \<Rightarrow> bool \<Rightarrow> Time \<Rightarrow> (bool \<times> bool \<times> Time) option" where
  "month_loop s = seek (\<lambda>t. push_bit (nat (tMonth t)) 1 AND Month s \<noteq> 0)
     (\<lambda>t. tDate t (tYear t) (tMonth t) 1 0 0 0) (\<lambda>t. AddDate t 0 1 0) (\<lambda>t. tMonth t = 1)"

definition day_loop :: "SpecSchedule \<Rightarrow> bool \<Rightarrow> Time \<Rightarrow> (bool \<times> bool \<times> Time) option" where
  "day_loop s = seek (dayMatches s)
     (\<lambda>t. tDate t (tYear t) (tMonth t) (tDay t) 0 0 0) (\<lambda>t. AddDate t 0 0 1) (\<lambda>t. tDay t = 1)"

definition hour_loop :: "SpecSchedule \<Rightarrow> bool \<Rightarrow> Time \<Rightarrow> (bool \<times> bool \<times> Time) option" where
  "hour_loop s = seek (\<lambda>t. push_bit (nat (tHour t)) 1 AND Hour s \<noteq> 0)
     (\<lambda>t. tDate t (tYear t) (tMonth t) (tDay t) (tHour t) 0 0) (\<lambda>t. tAdd t 3600000000000)
     (\<lambda>t. tHour t = 0)"

definition minute_loop :: "SpecSchedule \<Rightarrow> bool \<Rightarrow> Time \<Rightarrow> (bool \<times> bool \<times> Time) option" where
  "minute_loop s = seek (\<lambda>t. push_bit (nat (tMinute t)) 1 AND Minute s \<noteq> 0)
     (\<lambda>t. Truncate t 60) (\<lambda>t. tAdd t 60000000000) (\<lambda>t. tMinute t = 0)"

definition second_loop :: "SpecSchedule \<Rightarrow> bool \<Rightarrow> Time \<Rightarrow> (bool \<times> bool \<times> Time) option" where
  "second_loop s = seek (\<lambda>t. push_bit (nat (tSecond t)) 1 AND Second s \<noteq> 0)
     (\<lambda>t. Truncate t 1) (\<lambda>t. tAdd t 1000000000) (\<lambda>t. tSecond t = 0)"

text \<open>The next loop runs only when the one before did not jump.\<close>

definition then_loop ::
  "(bool \<times> bool \<times> Time) option \<Rightarrow> (bool \<Rightarrow> Time \<Rightarrow> (bool \<times> bool \<times> Time) option)
     \<Rightarrow> (bool \<times> bool \<times> Time) option" where
  "then_loop r f =
     (case r of None \<Rightarrow> None
      | Some (wrapped, added, t) \<Rightarrow> if wrapped then Some (True, added, t) else f added t)"

definition next_pass :: "SpecSchedule \<Rightarrow> bool \<Rightarrow> Time \<Rightarrow> (bool \<times> bool \<times> Time) option" where
  "next_pass s added t =
     then_loop (then_loop (then_loop (then_loop
       (month_loop s added t) (day_loop s)) (hour_loop s)) (minute_loop s)) (second_loop s)"

partial_function (option) next_wrap :: "SpecSchedule \<Rightarrow> int \<Rightarrow> bool \<Rightarrow> Time \<Rightarrow> Time option" where
  "next_wrap s yearLimit added t =
     (if tYear t > yearLimit then Some zeroTime
      else case next_pass s added t of
             None \<Rightarrow> None
           | Some (wrapped, added', t') \<Rightarrow>
               if wrapped then next_wrap s yearLimit added' t' else Some t')"

declare seek.simps [code] next_wrap.simps [code]

definition SpecSchedule_Next :: "SpecSchedule \<Rightarrow> Time \<Rightarrow> Time option" where
  "SpecSchedule_Next s t =
     (let t' = tAdd t (1000000000 - tnsec t)
      in next_wrap s (tYear t' + 5) False t')"

definition ConstantDelay_Next :: "int \<Rightarrow> Time \<Rightarrow> Time" where
  "ConstantDelay_Next delay t = tAdd t (delay - tnsec t)"

text \<open>The method of the interface \<open>Schedule\<close>.\<close>

fun schedule_Next :: "schedule \<Rightarrow> Time \<Rightarrow> Time option" where
  "schedule_Next (SpecSched s) t = SpecSchedule_Next s t"
| "schedule_Next (ConstantDelay d) t = Some (ConstantDelay_Next d t)"

section \<open>Units of the calendar\<close>

text \<open>
  Local seconds are cut into units: \<open>st\<close> is the start of the unit of a second, \<open>nx\<close> the
  start of the next unit, \<open>uid\<close> names the unit. \<open>sup\<close> and \<open>nxS\<close> are the larger unit
  around it, and \<open>wrap\<close> is the test of the code that a unit start opens a larger unit.
\<close>

locale calendar_unit =
  fixes st nx :: "int \<Rightarrow> int" and uid :: "int \<Rightarrow> 'u" and sup :: "int \<Rightarrow> 'v"
    and nxS :: "int \<Rightarrow> int" and wrap :: "int \<Rightarrow> bool" and val :: "int \<Rightarrow> nat"
  assumes st_le: "st l \<le> l" and lt_nx: "l < nx l"
    and nx_st: "nx (st l) = nx l" and st_st: "st (st l) = st l" and st_nx: "st (nx l) = nx l"
    and same_unit: "st l \<le> u \<Longrightarrow> u < nx l \<Longrightarrow> uid u = uid l"
    and wrap_nx: "wrap (nx l) \<Longrightarrow> nx l = nxS l"
    and nowrap_sup: "\<not> wrap (nx l) \<Longrightarrow> sup (nx l) = sup l"
    and nowrap_nxS: "\<not> wrap (nx l) \<Longrightarrow> nxS (nx l) = nxS l"
    and nowrap_val: "\<not> wrap (nx l) \<Longrightarrow> val (nx l) < val l"
begin

text \<open>What a loop does, in terms of the units: it stops at the first good second, or at the
  start of the next larger unit if there is none before.\<close>

definition seek_result ::
  "Time \<Rightarrow> (int \<Rightarrow> bool) \<Rightarrow> bool \<Rightarrow> int \<Rightarrow> (bool \<times> bool \<times> Time) option \<Rightarrow> bool" where
  "seek_result t0 okl added l r \<longleftrightarrow>
     (\<exists>w a l'. r = Some (w, a, at_local t0 l') \<and> l \<le> l' \<and> (\<forall>u. l \<le> u \<and> u < l' \<longrightarrow> \<not> okl u)
        \<and> (w \<longrightarrow> a \<and> l < l' \<and> l' = nxS l)
        \<and> (\<not> w \<longrightarrow> okl l' \<and> sup l' = sup l \<and> (a = added \<and> l' = l \<or> a \<and> st l' = l')))"

lemma seek_result_stop:
  "okl l \<Longrightarrow> seek_result t0 okl added l (Some (False, added, at_local t0 l))"
  unfolding seek_result_def
  by (rule exI [of _ False], rule exI [of _ added], rule exI [of _ l]) auto

lemma seek_result_wrap:
  "l < l' \<Longrightarrow> l' = nxS l \<Longrightarrow> (\<And>u. l \<le> u \<Longrightarrow> u < l' \<Longrightarrow> \<not> okl u)
     \<Longrightarrow> seek_result t0 okl added l (Some (True, True, at_local t0 l'))"
  unfolding seek_result_def by (rule exI [of _ True], rule exI [of _ True], rule exI [of _ l']) simp

lemma seek_result_step:
  assumes r: "seek_result t0 okl True (nx l) r"
    and none: "\<And>u. l \<le> u \<Longrightarrow> u < nx l \<Longrightarrow> \<not> okl u" and nw: "\<not> wrap (nx l)"
  shows "seek_result t0 okl added l r"
proof -
  from r obtain w a l' where l': "r = Some (w, a, at_local t0 l')" "nx l \<le> l'"
    "\<forall>u. nx l \<le> u \<and> u < l' \<longrightarrow> \<not> okl u" "w \<longrightarrow> a \<and> nx l < l' \<and> l' = nxS (nx l)"
    "\<not> w \<longrightarrow> okl l' \<and> sup l' = sup (nx l) \<and> (a = True \<and> l' = nx l \<or> a \<and> st l' = l')"
    unfolding seek_result_def by blast
  have "\<not> okl u" if "l \<le> u" "u < l'" for u
    using none [of u] l'(3) that by (cases "u < nx l") auto
  then show ?thesis
    unfolding seek_result_def
    using l' lt_nx [of l] nowrap_sup [OF nw] nowrap_nxS [OF nw] st_nx [of l]
    by (intro exI [of _ w] exI [of _ a] exI [of _ l']) auto
qed

lemma seek_aligned:
  assumes ok: "\<And>l. ok (at_local t0 l) = okl l"
    and okl: "\<And>l u. uid u = uid l \<Longrightarrow> okl u = okl l"
    and incr: "\<And>l. st l = l \<Longrightarrow> incr (at_local t0 l) = at_local t0 (nx l)"
    and wrap: "\<And>l. wrapped (at_local t0 l) = wrap l"
    and "st l = l"
  shows "seek_result t0 okl True l (seek ok reset incr wrapped True (at_local t0 l))"
  using \<open>st l = l\<close>
proof (induction "val l" arbitrary: l rule: less_induct)
  case less
  have none: "\<not> okl u" if "\<not> okl l" "l \<le> u" "u < nx l" for u
    using okl [OF same_unit [of l u]] that less.prems by auto
  have step: "seek ok reset incr wrapped True (at_local t0 l)
      = (if okl l then Some (False, True, at_local t0 l)
         else if wrap (nx l) then Some (True, True, at_local t0 (nx l))
         else seek ok reset incr wrapped True (at_local t0 (nx l)))"
    by (subst seek.simps) (simp add: ok incr [OF less.prems] wrap)
  show ?case
    unfolding step using none lt_nx [of l] wrap_nx [of l] less.hyps [OF nowrap_val st_nx]
    by (auto intro!: seek_result_stop seek_result_wrap intro: seek_result_step)
qed

text \<open>A loop entered with any flag: the reset happens only at an unaligned second.\<close>

lemma seek_unit:
  assumes ok: "\<And>l. ok (at_local t0 l) = okl l"
    and okl: "\<And>l u. uid u = uid l \<Longrightarrow> okl u = okl l"
    and incr: "\<And>l. st l = l \<Longrightarrow> incr (at_local t0 l) = at_local t0 (nx l)"
    and wrap: "\<And>l. wrapped (at_local t0 l) = wrap l"
    and reset: "\<And>l. reset (at_local t0 l) = at_local t0 (st l)"
    and entry: "added \<Longrightarrow> \<not> okl l \<Longrightarrow> st l = l"
  shows "seek_result t0 okl added l (seek ok reset incr wrapped added (at_local t0 l))"
proof -
  have none: "\<not> okl u" if "\<not> okl l" "l \<le> u" "u < nx l" for u
    using okl [OF same_unit [of l u]] that st_le [of l] by auto
  have i: "incr (at_local t0 (st l)) = at_local t0 (nx l)"
    by (simp add: incr [OF st_st] nx_st)
  have step: "seek ok reset incr wrapped added (at_local t0 l)
      = (if okl l then Some (False, added, at_local t0 l)
         else if wrap (nx l) then Some (True, True, at_local t0 (nx l))
         else seek ok reset incr wrapped True (at_local t0 (nx l)))"
  proof (cases "okl l")
    case False
    then have "incr (if added then at_local t0 l else reset (at_local t0 l)) = at_local t0 (nx l)"
      using i incr entry by (simp add: reset)
    with False show ?thesis by (subst seek.simps) (simp add: ok wrap)
  qed (subst seek.simps, simp add: ok)
  have rest: "seek_result t0 okl True (nx l) (seek ok reset incr wrapped True (at_local t0 (nx l)))"
    using ok okl incr wrap st_nx by (rule seek_aligned)
  show ?thesis
    unfolding step using none lt_nx [of l] wrap_nx [of l] rest
    by (auto intro!: seek_result_stop seek_result_wrap intro: seek_result_step)
qed

end


definition nx_month :: "int \<Rightarrow> int" where
  "nx_month l = 86400 * next_month_start (l div 86400)"

definition nx_year :: "int \<Rightarrow> int" where
  "nx_year l = 86400 * days_before_year (year_of_days (l div 86400) + 1)"

definition st_month :: "int \<Rightarrow> int" where
  "st_month l = 86400 * month_start (year_of_days (l div 86400)) (month_of_days (l div 86400))"

definition id_year :: "int \<Rightarrow> int" where
  "id_year l = year_of_days (l div 86400)"

definition id_month :: "int \<Rightarrow> int \<times> int" where
  "id_month l = (year_of_days (l div 86400), month_of_days (l div 86400))"

definition st_clock :: "int \<Rightarrow> int \<Rightarrow> int" where
  "st_clock k l = l - l mod k"

definition nx_clock :: "int \<Rightarrow> int \<Rightarrow> int" where
  "nx_clock k l = l - l mod k + k"

lemma day_mult: "86400 * a \<le> u \<longleftrightarrow> a \<le> u div 86400" "u < 86400 * a \<longleftrightarrow> u div 86400 < (a :: int)"
  using div_bounds_int [of 86400 u] by (auto simp: zdiv_mono1 less_le_not_le)

interpretation month_unit: calendar_unit st_month nx_month id_month id_year nx_year
  "\<lambda>l. month_of_days (l div 86400) = 1" "\<lambda>l. nat (12 - month_of_days (l div 86400))"
proof
  fix l u :: int
  let ?d = "l div 86400"
  have b: "month_start (year_of_days ?d) (month_of_days ?d) \<le> ?d" "?d < next_month_start ?d"
    using next_month_start_bounds [of ?d] by auto
  have s: "year_of_days (month_start (year_of_days ?d) (month_of_days ?d)) = year_of_days ?d
      \<and> month_of_days (month_start (year_of_days ?d) (month_of_days ?d)) = month_of_days ?d"
    using b by (intro same_month) auto
  show "st_month l \<le> l" "l < nx_month l"
    using b by (simp_all add: st_month_def nx_month_def day_mult)
  show "nx_month (st_month l) = nx_month l" "st_month (st_month l) = st_month l"
    using s by (simp_all add: st_month_def nx_month_def next_month_start_def)
  show "st_month (nx_month l) = nx_month l"
    using mday_next_month_start [of ?d]
    by (simp add: st_month_def nx_month_def mday_of_days_def)
  show "id_month u = id_month l" if "st_month l \<le> u" "u < nx_month l"
    using that same_month [of ?d "u div 86400"]
    by (simp add: st_month_def nx_month_def id_month_def day_mult)
  show "nx_month l = nx_year l" if "month_of_days (nx_month l div 86400) = 1"
    using that next_month_start_cases [of ?d] month_of_days_bounds [of ?d]
    by (auto simp: nx_month_def nx_year_def)
  assume "month_of_days (nx_month l div 86400) \<noteq> 1"
  then show "id_year (nx_month l) = id_year l" "nx_year (nx_month l) = nx_year l"
    "nat (12 - month_of_days (nx_month l div 86400)) < nat (12 - month_of_days ?d)"
    using next_month_start_cases [of ?d] by (auto simp: nx_month_def nx_year_def id_year_def)
qed

lemma clock_unit:
  assumes "0 < k" "0 < n"
  shows "calendar_unit (st_clock k) (nx_clock k) (\<lambda>l. l div k) (\<lambda>l. l div (k * n)) (nx_clock (k * n))
    (\<lambda>l. l div k mod n = 0) (\<lambda>l. nat (n - l div k mod n))"
proof
  fix l u :: int
  have r: "0 \<le> l mod k" "l mod k < k" "l mod k mod k = l mod k" using assms by simp_all
  have m: "(l - l mod k) mod k = 0" "(l - l mod k + k) mod k = 0"
    by (simp_all add: minus_mod_eq_mult_div)
  show "st_clock k l \<le> l" "l < nx_clock k l" "nx_clock k (st_clock k l) = nx_clock k l"
    "st_clock k (st_clock k l) = st_clock k l" "st_clock k (nx_clock k l) = nx_clock k l"
    using r m by (simp_all add: st_clock_def nx_clock_def)
  show "u div k = l div k" if "st_clock k l \<le> u" "u < nx_clock k l"
    using that assms by (intro int_div_pos_eq [of _ _ _ "u - st_clock k l"])
      (auto simp: st_clock_def nx_clock_def minus_mod_eq_mult_div algebra_simps)
  have e: "nx_clock k l div k = l div k + 1"
    unfolding nx_clock_def using assms(1) by (rule unit_next_div)
  show "nx_clock k l = nx_clock (k * n) l" if "nx_clock k l div k mod n = 0"
    using that unit_next_cases(1) [OF assms] unfolding e by (simp add: nx_clock_def)
  assume "nx_clock k l div k mod n \<noteq> 0"
  then have c: "nx_clock k l div (k * n) = l div (k * n)" "nx_clock k l div k mod n = l div k mod n + 1"
    using unit_next_cases(2) [OF assms, of l] unfolding e by (simp_all add: nx_clock_def)
  show "nx_clock k l div (k * n) = l div (k * n)" by (rule c)
  then show "nx_clock (k * n) (nx_clock k l) = nx_clock (k * n) l"
    by (simp add: nx_clock_def minus_mod_eq_mult_div)
  have "l div k mod n < n" using assms by simp
  then show "nat (n - nx_clock k l div k mod n) < nat (n - l div k mod n)"
    unfolding c by simp
qed

interpretation hour_unit: calendar_unit "st_clock 3600" "nx_clock 3600" "\<lambda>l. l div 3600"
  "\<lambda>l. l div (3600 * 24)" "nx_clock (3600 * 24)" "\<lambda>l. l div 3600 mod 24 = 0"
  "\<lambda>l. nat (24 - l div 3600 mod 24)"
  by (rule clock_unit) simp_all

interpretation minute_unit: calendar_unit "st_clock 60" "nx_clock 60" "\<lambda>l. l div 60"
  "\<lambda>l. l div (60 * 60)" "nx_clock (60 * 60)" "\<lambda>l. l div 60 mod 60 = 0"
  "\<lambda>l. nat (60 - l div 60 mod 60)"
  by (rule clock_unit) simp_all

interpretation second_unit: calendar_unit "st_clock 1" "nx_clock 1" "\<lambda>l. l div 1"
  "\<lambda>l. l div (1 * 60)" "nx_clock (1 * 60)" "\<lambda>l. l div 1 mod 60 = 0"
  "\<lambda>l. nat (60 - l div 1 mod 60)"
  by (rule clock_unit) simp_all

lemmas day_clock = clock_unit [of 86400 1, OF zero_less_numeral zero_less_one]

interpretation day_unit: calendar_unit "st_clock 86400" "nx_clock 86400" "\<lambda>l. l div 86400"
  id_month nx_month "\<lambda>l. mday_of_days (l div 86400) = 1" "\<lambda>l. nat (31 - mday_of_days (l div 86400))"
proof
  fix l u :: int
  let ?d = "l div 86400"
  show "st_clock 86400 l \<le> l" "l < nx_clock 86400 l" "nx_clock 86400 (st_clock 86400 l) = nx_clock 86400 l"
    "st_clock 86400 (st_clock 86400 l) = st_clock 86400 l"
    "st_clock 86400 (nx_clock 86400 l) = nx_clock 86400 l"
    by (rule calendar_unit.st_le [OF day_clock] calendar_unit.lt_nx [OF day_clock]
        calendar_unit.nx_st [OF day_clock] calendar_unit.st_st [OF day_clock]
        calendar_unit.st_nx [OF day_clock])+
  show "u div 86400 = ?d" if "st_clock 86400 l \<le> u" "u < nx_clock 86400 l"
    using calendar_unit.same_unit [OF day_clock] that .
  have e: "nx_clock 86400 l div 86400 = ?d + 1"
    unfolding nx_clock_def by (rule unit_next_div) simp
  show "nx_clock 86400 l = nx_month l" if "mday_of_days (nx_clock 86400 l div 86400) = 1"
    using that next_day_cases [of ?d] unfolding e
    by (auto simp: nx_month_def nx_clock_def minus_mod_eq_mult_div)
  assume "mday_of_days (nx_clock 86400 l div 86400) \<noteq> 1"
  then show "id_month (nx_clock 86400 l) = id_month l" "nx_month (nx_clock 86400 l) = nx_month l"
    "nat (31 - mday_of_days (nx_clock 86400 l div 86400)) < nat (31 - mday_of_days ?d)"
    using next_day_cases [of ?d] mday_bounds [of "?d + 1"] unfolding e
    by (auto simp: id_month_def nx_month_def next_month_start_def e)
qed

section \<open>The loops in terms of local seconds\<close>

definition month_ok :: "SpecSchedule \<Rightarrow> int \<Rightarrow> bool" where
  "month_ok s l = bit (Month s) (nat (month_of_days (l div 86400)))"

definition day_ok :: "SpecSchedule \<Rightarrow> int \<Rightarrow> bool" where
  "day_ok s l =
     (let domMatch = bit (Dom s) (nat (mday_of_days (l div 86400)));
          dowMatch = bit (Dow s) (nat ((l div 86400 + 1) mod 7))
      in if bit (Dom s) 63 \<or> bit (Dow s) 63 then domMatch \<and> dowMatch else domMatch \<or> dowMatch)"

definition hour_ok :: "SpecSchedule \<Rightarrow> int \<Rightarrow> bool" where
  "hour_ok s l = bit (Hour s) (nat (l div 3600 mod 24))"

definition minute_ok :: "SpecSchedule \<Rightarrow> int \<Rightarrow> bool" where
  "minute_ok s l = bit (Minute s) (nat (l div 60 mod 60))"

definition second_ok :: "SpecSchedule \<Rightarrow> int \<Rightarrow> bool" where
  "second_ok s l = bit (Second s) (nat (l mod 60))"

definition spec_ok :: "SpecSchedule \<Rightarrow> int \<Rightarrow> bool" where
  "spec_ok s l \<longleftrightarrow> month_ok s l \<and> day_ok s l \<and> hour_ok s l \<and> minute_ok s l \<and> second_ok s l"

lemma starBit_test: "(w AND starBit > 0) = bit (w :: 64 word) 63"
  using push_bit_1_and_pos [of 63 w] by (simp add: starBit_def and.commute)

lemma dayMatches_at: "dayMatches s (at_local t l) = day_ok s l"
  by (simp add: dayMatches_def day_ok_def Let_def starBit_test push_bit_1_and_pos del: push_bit_of_1)

lemma hour_digit: "l mod 86400 div 3600 = l div 3600 mod (24 :: int)"
  using clock_digit [of 3600 24 l] by simp

lemma minute_digit: "l mod 3600 div 60 = l div 60 mod (60 :: int)"
  using clock_digit [of 60 60 l] by simp

lemma ok_tests:
  "(push_bit (nat (tMonth (at_local t l))) 1 AND Month s \<noteq> 0) = month_ok s l"
  "(push_bit (nat (tHour (at_local t l))) 1 AND Hour s \<noteq> 0) = hour_ok s l"
  "(push_bit (nat (tMinute (at_local t l))) 1 AND Minute s \<noteq> 0) = minute_ok s l"
  "(push_bit (nat (tSecond (at_local t l))) 1 AND Second s \<noteq> 0) = second_ok s l"
  by (simp_all add: push_bit_1_and_zero month_ok_def hour_ok_def minute_ok_def second_ok_def
      hour_digit minute_digit del: push_bit_of_1)

lemma month_aligned: "st_month l = l \<Longrightarrow> l mod 86400 = 0 \<and> mday_of_days (l div 86400) = 1"
proof -
  define d where "d = l div 86400"
  assume "st_month l = l"
  then have l: "l = 86400 * month_start (year_of_days d) (month_of_days d)"
    by (simp add: st_month_def d_def)
  then have "l div 86400 = month_start (year_of_days d) (month_of_days d)" "l mod 86400 = 0"
    by simp_all
  then show ?thesis by (simp add: mday_of_days_def d_def)
qed

lemma month_reset:
  "tDate (at_local t l) (tYear (at_local t l)) (tMonth (at_local t l)) 1 0 0 0
     = at_local t (st_month l)"
  by (simp only: tYear_at tMonth_at tDate_at) (simp add: st_month_def)

lemma day_reset:
  "tDate (at_local t l) (tYear (at_local t l)) (tMonth (at_local t l)) (tDay (at_local t l)) 0 0 0
     = at_local t (st_clock 86400 l)"
  by (simp only: tYear_at tMonth_at tDay_at tDate_at)
     (simp add: st_clock_def mday_of_days_def minus_mod_eq_mult_div)

lemma hour_reset:
  "tDate (at_local t l) (tYear (at_local t l)) (tMonth (at_local t l)) (tDay (at_local t l))
     (tHour (at_local t l)) 0 0 = at_local t (st_clock 3600 l)"
proof -
  have "86400 * (l div 86400) + 3600 * (l mod 86400 div 3600) = st_clock 3600 l"
    unfolding st_clock_def using clock_split [of l] mult_div_mod_eq [of 60 "l mod 3600"]
    by (simp add: mod_mod_cancel)
  then show ?thesis
    by (simp only: tYear_at tMonth_at tDay_at tHour_at tDate_at) (simp add: mday_of_days_def)
qed

lemma truncate_at:
  assumes "toff t mod k = 0"
  shows "Truncate (at_local t l) k = at_local t (st_clock k l)"
proof -
  have "(l - toff t) mod k = l mod k"
    using assms mod_diff_right_eq [of l "toff t" k] by simp
  then show ?thesis by (simp add: Truncate_def at_local_def st_clock_def)
qed

lemma clock_add:
  "st_clock k l = l \<Longrightarrow> tAdd (at_local t l) (k * 1000000000) = at_local t (nx_clock k l)"
  unfolding tAdd_at by (simp add: nx_clock_def st_clock_def)

lemma month_loop_result:
  assumes "added \<Longrightarrow> \<not> month_ok s l \<Longrightarrow> st_month l = l"
  shows "month_unit.seek_result t (month_ok s) added l (month_loop s added (at_local t l))"
  unfolding month_loop_def
proof (rule month_unit.seek_unit)
  show "AddDate (at_local t l) 0 1 0 = at_local t (nx_month l)" if "st_month l = l" for l
    using month_aligned [OF that] by (simp add: AddDate_month_at nx_month_def)
  show "month_ok s u = month_ok s l" if "id_month u = id_month l" for l u
    using that by (simp add: month_ok_def id_month_def)
qed ((rule ok_tests month_reset assms, assumption?)+ | simp only: not_False_eq_True tMonth_at)+

lemma day_ok_div: "u div 86400 = l div 86400 \<Longrightarrow> day_ok s u = day_ok s l"
  by (simp add: day_ok_def)

lemma day_loop_result:
  assumes "added \<Longrightarrow> \<not> day_ok s l \<Longrightarrow> st_clock 86400 l = l"
  shows "day_unit.seek_result t (day_ok s) added l (day_loop s added (at_local t l))"
  unfolding day_loop_def
proof (rule day_unit.seek_unit)
  show "AddDate (at_local t l) 0 0 1 = at_local t (nx_clock 86400 l)" if "st_clock 86400 l = l" for l
    using that by (simp add: AddDate_day_at nx_clock_def st_clock_def)
qed ((rule dayMatches_at day_reset day_ok_div assms, assumption?)+ | simp only: not_False_eq_True tDay_at)+

lemma hour_loop_result:
  assumes "added \<Longrightarrow> \<not> hour_ok s l \<Longrightarrow> st_clock 3600 l = l"
  shows "hour_unit.seek_result t (hour_ok s) added l (hour_loop s added (at_local t l))"
  unfolding hour_loop_def
proof (rule hour_unit.seek_unit)
  show "tAdd (at_local t l) 3600000000000 = at_local t (nx_clock 3600 l)" if "st_clock 3600 l = l" for l
    using clock_add [OF that, of t] by simp
  show "hour_ok s u = hour_ok s l" if "u div 3600 = l div 3600" for l u
    using that by (simp add: hour_ok_def)
qed ((rule ok_tests hour_reset assms, assumption?)+ | simp only: not_False_eq_True tHour_at hour_digit)+

lemma minute_loop_result:
  assumes "added \<Longrightarrow> \<not> minute_ok s l \<Longrightarrow> st_clock 60 l = l" and "toff t mod 60 = 0"
  shows "minute_unit.seek_result t (minute_ok s) added l (minute_loop s added (at_local t l))"
  unfolding minute_loop_def
proof (rule minute_unit.seek_unit)
  show "tAdd (at_local t l) 60000000000 = at_local t (nx_clock 60 l)" if "st_clock 60 l = l" for l
    using clock_add [OF that, of t] by simp
  show "minute_ok s u = minute_ok s l" if "u div 60 = l div 60" for l u
    using that by (simp add: minute_ok_def)
qed ((rule ok_tests truncate_at assms, assumption?)+ | simp only: not_False_eq_True tMinute_at minute_digit)+

lemma second_loop_result:
  "second_unit.seek_result t (second_ok s) added l (second_loop s added (at_local t l))"
  unfolding second_loop_def
proof (rule second_unit.seek_unit)
  show "tAdd (at_local t l) 1000000000 = at_local t (nx_clock 1 l)" if "st_clock 1 l = l" for l
    using clock_add [OF that, of t] by simp
  show "st_clock 1 l = l" for l by (simp add: st_clock_def)
qed ((rule ok_tests truncate_at mod_by_1)+ | simp only: tSecond_at div_by_1)+

section \<open>One pass, and the jumps to WRAP\<close>

text \<open>
  Once a field has been incremented, a field that does not match at the current second is
  aligned there: the later increments step from unit start to unit start.
\<close>

definition entry :: "SpecSchedule \<Rightarrow> bool \<Rightarrow> int \<Rightarrow> bool" where
  "entry s added l \<longleftrightarrow> (added \<longrightarrow>
     (\<not> month_ok s l \<longrightarrow> st_month l = l) \<and> (\<not> day_ok s l \<longrightarrow> st_clock 86400 l = l)
     \<and> (\<not> hour_ok s l \<longrightarrow> st_clock 3600 l = l) \<and> (\<not> minute_ok s l \<longrightarrow> st_clock 60 l = l))"

lemma aligned_mod: "st_clock k l = l \<longleftrightarrow> l mod k = 0"
  by (simp add: st_clock_def)

lemma aligned_down:
  "st_month l = l \<Longrightarrow> l mod 86400 = 0" "l mod 86400 = 0 \<Longrightarrow> l mod 3600 = 0"
  "(l :: int) mod 3600 = 0 \<Longrightarrow> l mod 60 = 0"
  using month_aligned [of l] mod_mod_cancel [of 3600 86400 l] mod_mod_cancel [of 60 3600 l]
  by auto

lemma entry_month: "st_month l = l \<Longrightarrow> entry s added l"
  using aligned_down [of l] by (simp add: entry_def aligned_mod)

lemma entry_day: "month_ok s l \<or> st_month l = l \<Longrightarrow> l mod 86400 = 0 \<Longrightarrow> entry s added l"
  using aligned_down [of l] by (auto simp: entry_def aligned_mod)

lemma nx_clock_mod [simp]: "nx_clock k l mod k = 0"
  by (simp add: nx_clock_def minus_mod_eq_mult_div)

lemma nx_year_aligned: "st_month (nx_year l) = nx_year l"
proof -
  define y where "y = year_of_days (l div 86400) + 1"
  have n: "nx_year l = 86400 * month_start y 1"
    by (simp add: nx_year_def y_def month_start_def days_before_month_def)
  have "year_of_days (month_start y 1) = y \<and> month_of_days (month_start y 1) = 1"
    using month_start_step [of 1 y] by (intro month_of_days_unique) auto
  then show ?thesis by (simp add: st_month_def n)
qed

lemma entry_next_day: "month_ok s l \<Longrightarrow> entry s True (nx_clock 86400 l)"
proof (rule entry_day)
  assume m: "month_ok s l"
  show "month_ok s (nx_clock 86400 l) \<or> st_month (nx_clock 86400 l) = nx_clock 86400 l"
  proof (cases "mday_of_days (nx_clock 86400 l div 86400) = 1")
    case True
    then show ?thesis using day_unit.wrap_nx [of l] month_unit.st_nx [of l] by simp
  next
    case False
    with m show ?thesis using day_unit.nowrap_sup [of l] by (simp add: month_ok_def id_month_def)
  qed
qed simp

lemma same_day:
  "u div 86400 = l div 86400 \<Longrightarrow> month_ok s u = month_ok s l \<and> day_ok s u = day_ok s l
     \<and> id_month u = id_month l \<and> id_year u = id_year l"
  by (simp add: month_ok_def day_ok_def id_month_def id_year_def)

lemma same_hour:
  "u div 3600 = l div 3600 \<Longrightarrow> u div 86400 = l div 86400 \<and> hour_ok s u = hour_ok s l"
  using zdiv_zmult2_eq [of 24 u 3600] zdiv_zmult2_eq [of 24 l 3600] by (simp add: hour_ok_def)

lemma same_minute:
  "u div 60 = l div 60 \<Longrightarrow> u div 3600 = l div 3600 \<and> minute_ok s u = minute_ok s l"
  using zdiv_zmult2_eq [of 60 u 60] zdiv_zmult2_eq [of 60 l 60] by (simp add: minute_ok_def)

lemma entry_next_hour:
  assumes "month_ok s l" "day_ok s l"
  shows "entry s True (nx_clock 3600 l)"
proof (cases "nx_clock 3600 l div 3600 mod 24 = 0")
  case True
  then show ?thesis using hour_unit.wrap_nx [of l] entry_next_day [OF assms(1)] by simp
next
  case False
  then have "nx_clock 3600 l div 86400 = l div 86400" using hour_unit.nowrap_sup [of l] by simp
  from same_day [OF this, of s] show ?thesis
    using assms aligned_down(3) [of "nx_clock 3600 l"] by (simp add: entry_def aligned_mod)
qed

lemma entry_next_minute:
  assumes "month_ok s l" "day_ok s l" "hour_ok s l"
  shows "entry s True (nx_clock 60 l)"
proof (cases "nx_clock 60 l div 60 mod 60 = 0")
  case True
  then show ?thesis using minute_unit.wrap_nx [of l] entry_next_hour [OF assms(1,2)] by simp
next
  case False
  then have "nx_clock 60 l div 3600 = l div 3600" using minute_unit.nowrap_sup [of l] by simp
  from same_hour [OF this, of s] same_day [of "nx_clock 60 l" l s] show ?thesis
    using assms by (simp add: entry_def aligned_mod)
qed

definition quiet :: "SpecSchedule \<Rightarrow> int \<Rightarrow> int \<Rightarrow> bool" where
  "quiet s l l' \<longleftrightarrow> (\<forall>u. l \<le> u \<and> u < l' \<longrightarrow> \<not> spec_ok s u)"

text \<open>The state between two loops: \<open>P\<close> collects the fields found to match so far.\<close>

definition mid ::
  "Time \<Rightarrow> SpecSchedule \<Rightarrow> (int \<Rightarrow> bool) \<Rightarrow> int \<Rightarrow> (bool \<times> bool \<times> Time) option \<Rightarrow> bool" where
  "mid t s P l r \<longleftrightarrow> (\<exists>w a l'. r = Some (w, a, at_local t l') \<and> l \<le> l' \<and> quiet s l l'
     \<and> (w \<longrightarrow> a \<and> l < l' \<and> entry s True l') \<and> (\<not> w \<longrightarrow> P l' \<and> entry s a l' \<and> id_year l' = id_year l))"

lemma mid_then:
  assumes "mid t s P l r" and "\<And>a l'. P l' \<Longrightarrow> entry s a l' \<Longrightarrow> mid t s Q l' (f a (at_local t l'))"
  shows "mid t s Q l (then_loop r f)"
proof -
  from assms(1) obtain w a l' where r: "r = Some (w, a, at_local t l')" "l \<le> l'" "quiet s l l'"
    "w \<longrightarrow> a \<and> l < l' \<and> entry s True l'" "\<not> w \<longrightarrow> P l' \<and> entry s a l' \<and> id_year l' = id_year l"
    unfolding mid_def by blast
  show ?thesis
  proof (cases w)
    case True
    with r show ?thesis
      unfolding mid_def then_loop_def by (intro exI [of _ True] exI [of _ a] exI [of _ l']) simp
  next
    case False
    with r assms(2) [of l' a] have "mid t s Q l' (f a (at_local t l'))" by simp
    then obtain w2 a2 l2 where q: "f a (at_local t l') = Some (w2, a2, at_local t l2)" "l' \<le> l2"
      "quiet s l' l2" "w2 \<longrightarrow> a2 \<and> l' < l2 \<and> entry s True l2"
      "\<not> w2 \<longrightarrow> Q l2 \<and> entry s a2 l2 \<and> id_year l2 = id_year l'"
      unfolding mid_def by blast
    have "quiet s l l2"
      using r(3) q(3) unfolding quiet_def by (meson not_less)
    with False r q show ?thesis
      unfolding mid_def then_loop_def
      by (intro exI [of _ w2] exI [of _ a2] exI [of _ l2] conjI impI) simp_all
  qed
qed

context calendar_unit
begin

lemma mid_of_seek:
  assumes r: "seek_result t okl added l r" and e: "entry s added l"
    and q: "\<And>u. spec_ok s u \<Longrightarrow> okl u"
    and w: "entry s True (nxS l)"
    and f: "\<And>l'. sup l' = sup l \<Longrightarrow> okl l' \<Longrightarrow> P l' \<and> id_year l' = id_year l"
    and a: "\<And>l'. sup l' = sup l \<Longrightarrow> okl l' \<Longrightarrow> st l' = l' \<Longrightarrow> entry s True l'"
  shows "mid t s P l r"
proof -
  from r obtain w a' l' where r': "r = Some (w, a', at_local t l')" "l \<le> l'"
    and n: "\<forall>u. l \<le> u \<and> u < l' \<longrightarrow> \<not> okl u" and wr: "w \<Longrightarrow> a' \<and> l < l' \<and> l' = nxS l"
    and nw: "\<not> w \<Longrightarrow> okl l' \<and> sup l' = sup l \<and> (a' = added \<and> l' = l \<or> a' \<and> st l' = l')"
    unfolding seek_result_def by blast
  have "quiet s l l'" unfolding quiet_def using n q by meson
  moreover have "entry s True l'" if w using wr [OF that] assms(4) by simp
  moreover have "P l' \<and> entry s a' l' \<and> id_year l' = id_year l" if "\<not> w"
    using nw [OF that] f [of l'] a [of l'] e by (cases "l' = l \<and> a' = added") auto
  ultimately show ?thesis
    using r' wr unfolding mid_def
    by (intro exI [of _ w] exI [of _ a'] exI [of _ l'] conjI impI) simp_all
qed

end

lemma mid_month:
  assumes "entry s added l"
  shows "mid t s (month_ok s) l (month_loop s added (at_local t l))"
proof (rule month_unit.mid_of_seek [OF month_loop_result assms])
  show "st_month l = l" if "added" "\<not> month_ok s l"
    using assms that by (simp add: entry_def)
qed (auto simp: spec_ok_def intro!: entry_month nx_year_aligned)

lemma mid_day:
  assumes "month_ok s l" "entry s added l"
  shows "mid t s (\<lambda>l. month_ok s l \<and> day_ok s l) l (day_loop s added (at_local t l))"
proof (rule day_unit.mid_of_seek [OF day_loop_result assms(2)])
  show "st_clock 86400 l = l" if "added" "\<not> day_ok s l"
    using assms that by (simp add: entry_def)
  show "entry s True (nx_month l)" by (intro entry_month month_unit.st_nx)
  fix l' assume i: "id_month l' = id_month l"
  then show "day_ok s l' \<Longrightarrow> (month_ok s l' \<and> day_ok s l') \<and> id_year l' = id_year l"
    and "st_clock 86400 l' = l' \<Longrightarrow> entry s True l'"
    using assms by (auto simp: month_ok_def id_month_def id_year_def aligned_mod intro!: entry_day)
qed (simp add: spec_ok_def)

lemma mid_hour:
  assumes "month_ok s l \<and> day_ok s l" "entry s added l"
  shows "mid t s (\<lambda>l. month_ok s l \<and> day_ok s l \<and> hour_ok s l) l (hour_loop s added (at_local t l))"
proof (rule hour_unit.mid_of_seek [OF hour_loop_result assms(2)])
  show "st_clock 3600 l = l" if "added" "\<not> hour_ok s l"
    using assms that by (simp add: entry_def)
  show "entry s True (nx_clock (3600 * 24) l)" using assms entry_next_day [of s l] by simp
  fix l' assume i: "l' div (3600 * 24) = l div (3600 * 24)"
  then have d: "month_ok s l' = month_ok s l \<and> day_ok s l' = day_ok s l \<and> id_year l' = id_year l"
    using same_day [of l' l s] by simp
  then show "hour_ok s l' \<Longrightarrow> (month_ok s l' \<and> day_ok s l' \<and> hour_ok s l') \<and> id_year l' = id_year l"
    using assms by simp
  show "st_clock 3600 l' = l' \<Longrightarrow> entry s True l'"
    using assms d aligned_down(3) [of l'] by (simp add: entry_def aligned_mod)
qed (simp add: spec_ok_def)

lemma mid_minute:
  assumes "month_ok s l \<and> day_ok s l \<and> hour_ok s l" "entry s added l" and "toff t mod 60 = 0"
  shows "mid t s (\<lambda>l. month_ok s l \<and> day_ok s l \<and> hour_ok s l \<and> minute_ok s l) l
           (minute_loop s added (at_local t l))"
proof (rule minute_unit.mid_of_seek [OF minute_loop_result assms(2)])
  show "st_clock 60 l = l" if "added" "\<not> minute_ok s l"
    using assms that by (simp add: entry_def)
  show "entry s True (nx_clock (60 * 60) l)" using assms entry_next_hour [of s l] by simp
  fix l' assume i: "l' div (60 * 60) = l div (60 * 60)"
  then have d: "month_ok s l' = month_ok s l \<and> day_ok s l' = day_ok s l \<and> hour_ok s l' = hour_ok s l
      \<and> id_year l' = id_year l"
    using same_hour [of l' l s] same_day [of l' l s] by simp
  then show "minute_ok s l' \<Longrightarrow> (month_ok s l' \<and> day_ok s l' \<and> hour_ok s l' \<and> minute_ok s l')
      \<and> id_year l' = id_year l"
    using assms by simp
  show "st_clock 60 l' = l' \<Longrightarrow> entry s True l'"
    using assms d by (simp add: entry_def aligned_mod)
qed (use assms in \<open>simp_all add: spec_ok_def\<close>)

lemma mid_second:
  assumes "month_ok s l \<and> day_ok s l \<and> hour_ok s l \<and> minute_ok s l" "entry s added l"
  shows "mid t s (spec_ok s) l (second_loop s added (at_local t l))"
proof (rule second_unit.mid_of_seek [OF second_loop_result assms(2)])
  show "entry s True (nx_clock (1 * 60) l)" using assms entry_next_minute [of s l] by simp
  fix l' assume i: "l' div (1 * 60) = l div (1 * 60)"
  then have d: "month_ok s l' = month_ok s l \<and> day_ok s l' = day_ok s l \<and> hour_ok s l' = hour_ok s l
      \<and> minute_ok s l' = minute_ok s l \<and> id_year l' = id_year l"
    using same_minute [of l' l s] same_hour [of l' l s] same_day [of l' l s] by simp
  then show "second_ok s l' \<Longrightarrow> spec_ok s l' \<and> id_year l' = id_year l" and "entry s True l'"
    using assms by (simp_all add: spec_ok_def entry_def)
qed (simp add: spec_ok_def)

lemma next_pass_mid:
  assumes "entry s added l" "toff t mod 60 = 0"
  shows "mid t s (spec_ok s) l (next_pass s added (at_local t l))"
  unfolding next_pass_def
  by (rule mid_then mid_month mid_day mid_hour mid_minute mid_second assms | assumption)+

section \<open>The whole search\<close>

lemma id_year_le_iff: "id_year l \<le> y \<longleftrightarrow> l < 86400 * days_before_year (y + 1)"
proof
  assume "id_year l \<le> y"
  then have "days_before_year (id_year l + 1) \<le> days_before_year (y + 1)"
    by (intro days_before_year_mono) simp
  moreover have "l div 86400 < days_before_year (id_year l + 1)"
    using year_of_days_bounds [of "l div 86400"] by (simp add: id_year_def)
  ultimately show "l < 86400 * days_before_year (y + 1)" by (simp add: day_mult)
next
  assume "l < 86400 * days_before_year (y + 1)"
  then have "l div 86400 < days_before_year (y + 1)" by (simp add: day_mult)
  then show "id_year l \<le> y"
    using year_of_days_bounds [of "l div 86400"] days_before_year_mono [of "y + 1" "id_year l"]
    unfolding id_year_def by (cases "year_of_days (l div 86400) \<le> y") auto
qed

lemma next_wrap_result:
  assumes "entry s added l" "toff t mod 60 = 0"
  shows "(\<exists>l'. next_wrap s lim added (at_local t l) = Some (at_local t l') \<and> l \<le> l' \<and> quiet s l l'
            \<and> spec_ok s l' \<and> id_year l' \<le> lim)
       \<or> (next_wrap s lim added (at_local t l) = Some zeroTime
            \<and> (\<forall>u \<ge> l. id_year u \<le> lim \<longrightarrow> \<not> spec_ok s u))"
  using assms(1)
proof (induction "nat (86400 * days_before_year (lim + 1) - l)" arbitrary: l added rule: less_induct)
  case less
  show ?case
  proof (cases "id_year l \<le> lim")
    case False
    then have "next_wrap s lim added (at_local t l) = Some zeroTime"
      by (subst next_wrap.simps) (simp add: id_year_def)
    with False show ?thesis by (auto simp: id_year_le_iff)
  next
    case True
    from next_pass_mid [OF less.prems assms(2)] obtain w a l' where
      p: "next_pass s added (at_local t l) = Some (w, a, at_local t l')" "l \<le> l'" "quiet s l l'"
      and w: "w \<Longrightarrow> a \<and> l < l' \<and> entry s True l'" and nw: "\<not> w \<Longrightarrow> spec_ok s l' \<and> id_year l' = id_year l"
      unfolding mid_def by blast
    have step: "next_wrap s lim added (at_local t l)
        = (if w then next_wrap s lim a (at_local t l') else Some (at_local t l'))"
      using True by (subst next_wrap.simps) (simp add: p id_year_def)
    show ?thesis
    proof (cases w)
      case False
      with p nw True step show ?thesis by auto
    next
      case True': True
      with w True have lt: "nat (86400 * days_before_year (lim + 1) - l')
          < nat (86400 * days_before_year (lim + 1) - l)" and e: "entry s a l'"
        by (auto simp: id_year_le_iff entry_def)
      have q: "quiet s l l2" if "quiet s l' l2" for l2
        using p(3) that unfolding quiet_def by (meson not_less)
      have "\<not> spec_ok s u" if "\<forall>u \<ge> l'. id_year u \<le> lim \<longrightarrow> \<not> spec_ok s u" "l \<le> u" "id_year u \<le> lim" for u
        using p(3) that unfolding quiet_def by (meson not_less)
      with less.hyps [OF lt e] q p(2) step True' show ?thesis by auto
    qed
  qed
qed

section \<open>Properties\<close>

text \<open>A time that the fields of a schedule admit.\<close>

definition spec_matches :: "SpecSchedule \<Rightarrow> Time \<Rightarrow> bool" where
  "spec_matches s t \<longleftrightarrow> bit (Month s) (nat (tMonth t)) \<and> dayMatches s t
     \<and> bit (Hour s) (nat (tHour t)) \<and> bit (Minute s) (nat (tMinute t))
     \<and> bit (Second s) (nat (tSecond t))"

text \<open>The whole seconds after \<open>t\<close>, in its location and up to the year limit, that match.\<close>

definition activation :: "SpecSchedule \<Rightarrow> Time \<Rightarrow> Time \<Rightarrow> bool" where
  "activation s t u \<longleftrightarrow> toff u = toff t \<and> tnsec u = 0 \<and> tsec t < tsec u
     \<and> tYear u \<le> tYear (tAdd t (1000000000 - tnsec t)) + 5 \<and> spec_matches s u"

definition wf_time :: "Time \<Rightarrow> bool" where
  "wf_time t \<longleftrightarrow> 0 \<le> tnsec t \<and> tnsec t < 1000000000 \<and> toff t mod 60 = 0"

lemma spec_matches_at: "spec_matches s (at_local t l) = spec_ok s l"
  by (simp add: spec_matches_def spec_ok_def month_ok_def hour_ok_def minute_ok_def second_ok_def
      dayMatches_at hour_digit minute_digit)

lemma next_second: "tAdd t (1000000000 - tnsec t) = at_local t (lsec t + 1)"
  by (simp add: tAdd_def at_local_def lsec_def)

lemma activation_at:
  "activation s t u \<longleftrightarrow> (\<exists>l. u = at_local t l \<and> lsec t + 1 \<le> l
     \<and> id_year l \<le> id_year (lsec t + 1) + 5 \<and> spec_ok s l)"
proof
  assume a: "activation s t u"
  then have "u = at_local t (lsec u)"
    by (intro at_local_eqI) (auto simp: activation_def)
  moreover from this have "spec_ok s (lsec u)"
    using a spec_matches_at [of s t "lsec u"] by (simp add: activation_def)
  moreover have "id_year (lsec u) \<le> id_year (lsec t + 1) + 5" "lsec t + 1 \<le> lsec u"
    using a unfolding activation_def next_second tYear_at
    by (elim conjE, simp add: tYear_def id_year_def lsec_def)+
  ultimately show "\<exists>l. u = at_local t l \<and> lsec t + 1 \<le> l
     \<and> id_year l \<le> id_year (lsec t + 1) + 5 \<and> spec_ok s l" by blast
qed (auto simp: activation_def next_second spec_matches_at id_year_def lsec_def)

text \<open>C1: \<open>SpecSchedule.Next\<close> is exact. For every schedule and every time in a location whose
  offset is a whole number of minutes, the loops and the jumps to WRAP end, and the result is the
  earliest whole second after the given time that matches all fields, unless no second up to the end
  of the fifth following year does; then, and only then, the result is the zero time.\<close>

theorem Next_least_activation:
  assumes "wf_time t"
  shows "(\<exists>u. SpecSchedule_Next s t = Some u \<and> activation s t u
            \<and> (\<forall>v. activation s t v \<longrightarrow> tsec u \<le> tsec v))
       \<or> (SpecSchedule_Next s t = Some zeroTime \<and> (\<forall>v. \<not> activation s t v))"
proof -
  let ?l = "lsec t + 1"
  have "SpecSchedule_Next s t = next_wrap s (id_year ?l + 5) False (at_local t ?l)"
    by (simp add: SpecSchedule_Next_def next_second id_year_def)
  moreover have "entry s False ?l" by (simp add: entry_def)
  moreover have "toff t mod 60 = 0" using assms by (simp add: wf_time_def)
  ultimately show ?thesis
    using next_wrap_result [of s False ?l t "id_year ?l + 5"]
    by (auto simp: activation_at quiet_def at_local_def not_less)
qed

theorem Next_least_activation_witness:
  "\<exists>u. SpecSchedule_Next \<lparr>Second = 2 ^ 30, Minute = - 1, Hour = - 1, Dom = - 1, Month = - 1, Dow = - 1\<rparr>
          \<lparr>tsec = 1000000, tnsec = 5, toff = 3600\<rparr> = Some u \<and> 1000000 < tsec u \<and> tsec u \<le> 1000050"
proof -
  let ?s = "\<lparr>Second = 2 ^ 30, Minute = - 1, Hour = - 1, Dom = - 1, Month = - 1, Dow = - 1\<rparr> :: SpecSchedule"
  let ?t = "\<lparr>tsec = 1000000, tnsec = 5, toff = 3600\<rparr>"
  have "activation ?s ?t \<lparr>tsec = 1000050, tnsec = 0, toff = 3600\<rparr>" by code_simp
  moreover have "wf_time ?t" by (simp add: wf_time_def)
  ultimately show ?thesis
    using Next_least_activation [of ?t ?s] by (fastforce simp: activation_def)
qed

lemma Every_seconds:
  "\<exists>k \<ge> 1. Every d = ConstantDelay (k * 1000000000) \<and> k = (if d < 1000000000 then 1 else d div 1000000000)"
proof -
  have "d - d mod 1000000000 = d div 1000000000 * 1000000000" by (rule minus_mod_eq_div_mult)
  moreover have "1 \<le> d div 1000000000" if "\<not> d < 1000000000" using that by simp
  ultimately show ?thesis
    by (intro exI [of _ "if d < 1000000000 then 1 else d div 1000000000"])
       (auto simp: Every_def Let_def)
qed

lemma ConstantDelay_Next_seconds:
  "ConstantDelay_Next (k * 1000000000) t = t\<lparr>tsec := tsec t + k, tnsec := 0\<rparr>"
  by (simp add: ConstantDelay_Next_def tAdd_def)

text \<open>The text \<open>@every d\<close> runs on whole seconds: for a duration of any size, the delay that
  \<open>Every\<close> makes is a whole positive number of seconds, at most the duration rounded up to one
  second, and \<open>ConstantDelaySchedule.Next\<close> of any time is that many seconds later, with the
  nanoseconds cut off, hence later than the given time.\<close>

lemma Every_whole_seconds:
  "\<exists>k \<ge> 1. Every d = ConstantDelay (k * 1000000000) \<and> k = (if d < 1000000000 then 1 else d div 1000000000)
     \<and> ConstantDelay_Next (k * 1000000000) t = t\<lparr>tsec := tsec t + k, tnsec := 0\<rparr>
     \<and> After (ConstantDelay_Next (k * 1000000000) t) t"
using Every_seconds [of d] by (auto simp: ConstantDelay_Next_seconds After_def Before_def)

end
