(* ===== verification/CronRunner.thy ===== *)
theory CronRunner
  imports CronSpec "HOL-Library.Multiset"
begin

text \<open>
  The job runner: \<open>cron/cron.go\<close>.

  The goroutine of \<open>run\<close> is a machine whose steps are the cases of its select statement:
  the timer, a new entry, a snapshot request and the stop request (\<open>event\<close>); the time that
  \<open>c.now()\<close> or the timer channel yields comes with the event. The other methods run on the
  caller's side and send one of these events when the runner is running. \<open>Schedule\<close> is
  an interface of the code: its method is the argument \<open>nxt\<close> of the definitions
  (locale \<open>schedule_iface\<close>), and \<open>sort.Sort\<close>, which need not be stable, is the argument
  \<open>srt\<close> (locale \<open>entry_sorter\<close>). Both are interpreted at the end, by the two schedules of
  the package and by insertion sort.
\<close>

section \<open>Data\<close>

record ('s, 'j) Entry =
  eSchedule :: 's
  eNext :: Time
  ePrev :: Time
  eJob :: 'j

record ('s, 'j) Cron =
  entries :: "('s, 'j) Entry list"
  running :: bool
  location :: int

definition byTime_Less :: "('s, 'j) Entry \<Rightarrow> ('s, 'j) Entry \<Rightarrow> bool" where
  "byTime_Less a b =
     (if IsZero (eNext a) then False
      else if IsZero (eNext b) then True
      else Before (eNext a) (eNext b))"

definition NewWithLocation :: "int \<Rightarrow> ('s, 'j) Cron" where
  "NewWithLocation loc = \<lparr>entries = [], running = False, location = loc\<rparr>"

section \<open>The select loop of run\<close>

datatype ('s, 'j) event =
    TimerFired Time
  | NewEntry "('s, 'j) Entry" Time
  | SnapshotRequest
  | StopRequest

text \<open>The local variables of \<open>run\<close>: \<open>now\<close>, the duration of the timer in nanoseconds.\<close>

record ('s, 'j) Run =
  rEntries :: "('s, 'j) Entry list"
  rNow :: Time
  rTimer :: int
  rDone :: bool

text \<open>\<open>t.Sub(u)\<close>, which saturates at the largest and the smallest duration.\<close>

definition tSub :: "Time \<Rightarrow> Time \<Rightarrow> int" where
  "tSub t u = max (- (2 ^ 63)) (min (2 ^ 63 - 1)
     ((tsec t - tsec u) * 1000000000 + (tnsec t - tnsec u)))"

definition timer_duration :: "Time \<Rightarrow> ('s, 'j) Entry list \<Rightarrow> int" where
  "timer_duration now es =
     (if es = [] \<or> IsZero (eNext (hd es)) then 100000 * 3600 * 1000000000
      else tSub (eNext (hd es)) now)"

text \<open>The head of the outer loop: sort, then set the timer.\<close>

definition loop_head ::
  "(('s, 'j) Entry list \<Rightarrow> ('s, 'j) Entry list) \<Rightarrow> Time \<Rightarrow> ('s, 'j) Entry list \<Rightarrow> ('s, 'j) Run" where
  "loop_head srt now es =
     (let es' = srt es
      in \<lparr>rEntries = es', rNow = now, rTimer = timer_duration now es', rDone = False\<rparr>)"

definition init_next :: "('s \<Rightarrow> Time \<Rightarrow> Time) \<Rightarrow> Time \<Rightarrow> ('s, 'j) Entry \<Rightarrow> ('s, 'j) Entry" where
  "init_next nxt now e = e\<lparr>eNext := nxt (eSchedule e) now\<rparr>"

definition run_start ::
  "('s \<Rightarrow> Time \<Rightarrow> Time) \<Rightarrow> (('s, 'j) Entry list \<Rightarrow> ('s, 'j) Entry list) \<Rightarrow> Time
     \<Rightarrow> ('s, 'j) Entry list \<Rightarrow> ('s, 'j) Run" where
  "run_start nxt srt now es = loop_head srt now (map (init_next nxt now) es)"

text \<open>The loop of the timer case: it stops at the first entry that is not due. The jobs
  started are collected with the time they were due.\<close>

fun fire ::
  "('s \<Rightarrow> Time \<Rightarrow> Time) \<Rightarrow> Time \<Rightarrow> ('s, 'j) Entry list
     \<Rightarrow> ('j \<times> Time) list \<times> ('s, 'j) Entry list" where
  "fire nxt now [] = ([], [])"
| "fire nxt now (e # es) =
     (if After (eNext e) now \<or> IsZero (eNext e) then ([], e # es)
      else let (started, es') = fire nxt now es
           in ((eJob e, eNext e) # started,
               e\<lparr>ePrev := eNext e, eNext := nxt (eSchedule e) now\<rparr> # es'))"

datatype ('s, 'j) reply = Started "('j \<times> Time) list" | Snapshot "('s, 'j) Entry list"

fun entrySnapshot :: "('s, 'j) Entry list \<Rightarrow> ('s, 'j) Entry list" where
  "entrySnapshot [] = []"
| "entrySnapshot (e # es) =
     \<lparr>eSchedule = eSchedule e, eNext = eNext e, ePrev = ePrev e, eJob = eJob e\<rparr> # entrySnapshot es"

fun run_step ::
  "('s \<Rightarrow> Time \<Rightarrow> Time) \<Rightarrow> (('s, 'j) Entry list \<Rightarrow> ('s, 'j) Entry list)
     \<Rightarrow> ('s, 'j) event \<Rightarrow> ('s, 'j) Run \<Rightarrow> ('s, 'j) reply \<times> ('s, 'j) Run" where
  "run_step nxt srt (TimerFired t) r =
     (let (started, es) = fire nxt t (rEntries r) in (Started started, loop_head srt t es))"
| "run_step nxt srt (NewEntry e t) r =
     (Started [], loop_head srt t (rEntries r @ [init_next nxt t e]))"
| "run_step nxt srt SnapshotRequest r = (Snapshot (entrySnapshot (rEntries r)), r)"
| "run_step nxt srt StopRequest r = (Started [], r\<lparr>rDone := True\<rparr>)"

section \<open>The methods of Cron\<close>

definition Cron_Schedule ::
  "('s, 'j) Cron \<Rightarrow> 's \<Rightarrow> 'j \<Rightarrow> Time \<Rightarrow> ('s, 'j) Cron \<times> ('s, 'j) event option" where
  "Cron_Schedule c sched cmd now =
     (let e = \<lparr>eSchedule = sched, eNext = zeroTime, ePrev = zeroTime, eJob = cmd\<rparr>
      in if \<not> running c then (c\<lparr>entries := entries c @ [e]\<rparr>, None)
         else (c, Some (NewEntry e now)))"

definition AddJob ::
  "(string \<Rightarrow> int option) \<Rightarrow> (schedule, 'j) Cron \<Rightarrow> string \<Rightarrow> 'j \<Rightarrow> Time
     \<Rightarrow> (cron_error + (schedule, 'j) Cron \<times> (schedule, 'j) event option) outcome option" where
  "AddJob parse_duration c spec cmd now =
     map_option (\<lambda>r. bind_outcome r (\<lambda>x. Ret (case x of
         Inl e \<Rightarrow> Inl e
       | Inr sched \<Rightarrow> Inr (Cron_Schedule c sched cmd now))))
     (Parse parse_duration spec)"

text \<open>\<open>Start\<close>: the goroutine started, if any, and the new state.\<close>

definition Cron_Start ::
  "('s \<Rightarrow> Time \<Rightarrow> Time) \<Rightarrow> (('s, 'j) Entry list \<Rightarrow> ('s, 'j) Entry list) \<Rightarrow> Time
     \<Rightarrow> ('s, 'j) Cron \<Rightarrow> ('s, 'j) Cron \<times> ('s, 'j) Run option" where
  "Cron_Start nxt srt now c =
     (if running c then (c, None)
      else (c\<lparr>running := True\<rparr>, Some (run_start nxt srt now (entries c))))"

definition Cron_Stop :: "('s, 'j) Cron \<Rightarrow> ('s, 'j) Cron \<times> ('s, 'j) event option" where
  "Cron_Stop c = (if \<not> running c then (c, None) else (c\<lparr>running := False\<rparr>, Some StopRequest))"

text \<open>The slice \<open>c.entries\<close> is shared between the caller and the goroutine: once the
  goroutine runs, its list is the field of the cron.\<close>

definition Entries :: "('s, 'j) Cron \<Rightarrow> ('s, 'j) Entry list + ('s, 'j) event" where
  "Entries c = (if running c then Inr SnapshotRequest else Inl (entrySnapshot (entries c)))"

section \<open>Order of times\<close>

lemma Before_irrefl [simp]: "\<not> Before t t"
  by (simp add: Before_def)

lemma not_Before_trans: "\<not> Before b a \<Longrightarrow> \<not> Before c b \<Longrightarrow> \<not> Before c a"
  by (auto simp: Before_def)

lemma Before_asym: "Before a b \<Longrightarrow> \<not> Before b a"
  by (auto simp: Before_def)

definition le_entry :: "('s, 'j) Entry \<Rightarrow> ('s, 'j) Entry \<Rightarrow> bool" where
  "le_entry a b \<longleftrightarrow> \<not> byTime_Less b a"

lemma le_entry_trans: "le_entry a b \<Longrightarrow> le_entry b c \<Longrightarrow> le_entry a c"
  by (auto simp: le_entry_def byTime_Less_def split: if_splits dest: not_Before_trans)

lemma le_entry_total: "\<not> le_entry a b \<Longrightarrow> le_entry b a"
  by (auto simp: le_entry_def byTime_Less_def split: if_splits dest: Before_asym)

lemma le_entry_refl [simp]: "le_entry a a"
  by (simp add: le_entry_def byTime_Less_def)

abbreviation by_time :: "('s, 'j) Entry list \<Rightarrow> bool" where
  "by_time \<equiv> sorted_wrt le_entry"

definition due :: "Time \<Rightarrow> ('s, 'j) Entry \<Rightarrow> bool" where
  "due now e \<longleftrightarrow> \<not> IsZero (eNext e) \<and> \<not> After (eNext e) now"

text \<open>In a sorted list nothing is due behind an entry that is not.\<close>

lemma le_entry_due: "le_entry a b \<Longrightarrow> due now b \<Longrightarrow> due now a"
  by (auto simp: le_entry_def byTime_Less_def due_def After_def split: if_splits dest: not_Before_trans)

definition refire :: "('s \<Rightarrow> Time \<Rightarrow> Time) \<Rightarrow> Time \<Rightarrow> ('s, 'j) Entry \<Rightarrow> ('s, 'j) Entry" where
  "refire nxt now e =
     (if due now e then e\<lparr>ePrev := eNext e, eNext := nxt (eSchedule e) now\<rparr> else e)"

lemma fire_not_due: "\<not> due now e \<Longrightarrow> by_time (e # es) \<Longrightarrow> \<forall>x \<in> set es. \<not> due now x"
  by (meson le_entry_due sorted_wrt.simps(2))

lemma fire_spec:
  "by_time es \<Longrightarrow> fire nxt now es =
     (map (\<lambda>e. (eJob e, eNext e)) (filter (due now) es), map (refire nxt now) es)"
proof (induction es)
  case (Cons e es)
  have c: "(After (eNext e) now \<or> IsZero (eNext e)) = (\<not> due now e)"
    by (auto simp: due_def)
  show ?case
  proof (cases "due now e")
    case True
    with Cons show ?thesis by (simp add: c refire_def)
  next
    case False
    with fire_not_due [OF False Cons.prems]
    have "filter (due now) es = []" "map (refire nxt now) es = es"
      by (auto simp: filter_empty_conv refire_def intro: map_idI)
    with False show ?thesis by (simp add: c refire_def [of nxt now e])
  qed
qed simp

lemma entrySnapshot_id: "entrySnapshot es = es"
  by (induction es) auto

text \<open>
  The invariant of the goroutine at the select statement: the entries are sorted, the timer is
  set for the first one, no entry is due at the time of the last step, and an entry is next due
  after its previous run.
\<close>

definition wf_nsec :: "Time \<Rightarrow> bool" where
  "wf_nsec t \<longleftrightarrow> 0 \<le> tnsec t \<and> tnsec t < 1000000000"

definition entry_ok :: "('s \<Rightarrow> bool) \<Rightarrow> Time \<Rightarrow> ('s, 'j) Entry \<Rightarrow> bool" where
  "entry_ok ok_sched now e \<longleftrightarrow> ok_sched (eSchedule e) \<and> wf_nsec (eNext e)
     \<and> (IsZero (ePrev e) \<or> \<not> After (ePrev e) now)
     \<and> (IsZero (eNext e) \<or> IsZero (ePrev e) \<or> After (eNext e) (ePrev e))"

definition run_inv :: "('s \<Rightarrow> bool) \<Rightarrow> ('s, 'j) Run \<Rightarrow> bool" where
  "run_inv ok_sched r \<longleftrightarrow> by_time (rEntries r) \<and> rTimer r = timer_duration (rNow r) (rEntries r)
     \<and> (\<forall>e \<in> set (rEntries r). entry_ok ok_sched (rNow r) e)"

text \<open>The events the environment may send: the clock does not run backwards, and a new entry
  has not run before.\<close>

fun event_ok ::
  "('s \<Rightarrow> bool) \<Rightarrow> (Time \<Rightarrow> bool) \<Rightarrow> Time \<Rightarrow> ('s, 'j) event \<Rightarrow> bool" where
  "event_ok ok_sched ok_time now (TimerFired t) \<longleftrightarrow> ok_time t \<and> \<not> Before t now"
| "event_ok ok_sched ok_time now (NewEntry e t) \<longleftrightarrow>
     ok_time t \<and> \<not> Before t now \<and> ok_sched (eSchedule e) \<and> IsZero (ePrev e)"
| "event_ok ok_sched ok_time now SnapshotRequest \<longleftrightarrow> True"
| "event_ok ok_sched ok_time now StopRequest \<longleftrightarrow> True"

text \<open>The states the goroutine can be in, with the jobs it has started so far.\<close>

inductive run_reach ::
  "('s \<Rightarrow> Time \<Rightarrow> Time) \<Rightarrow> (('s, 'j) Entry list \<Rightarrow> ('s, 'j) Entry list) \<Rightarrow> ('s \<Rightarrow> bool)
     \<Rightarrow> (Time \<Rightarrow> bool) \<Rightarrow> ('s, 'j) Entry list \<Rightarrow> ('s, 'j) Run \<Rightarrow> bool"
  for nxt srt ok_sched ok_time es0 where
  start: "ok_time now \<Longrightarrow> \<forall>e \<in> set es0. ok_sched (eSchedule e) \<and> (IsZero (ePrev e) \<or> \<not> After (ePrev e) now)
    \<Longrightarrow> run_reach nxt srt ok_sched ok_time es0 (run_start nxt srt now es0)"
| step: "run_reach nxt srt ok_sched ok_time es0 r \<Longrightarrow> \<not> rDone r
    \<Longrightarrow> event_ok ok_sched ok_time (rNow r) ev
    \<Longrightarrow> run_reach nxt srt ok_sched ok_time es0 (snd (run_step nxt srt ev r))"

text \<open>The registered pairs of a schedule and a job.\<close>

definition registered :: "('s, 'j) Run \<Rightarrow> ('s \<times> 'j) multiset" where
  "registered r = {#(eSchedule e, eJob e). e \<in># mset (rEntries r)#}"

section \<open>The contracts\<close>

locale schedule_iface =
  fixes nxt :: "'s \<Rightarrow> Time \<Rightarrow> Time" and ok_sched :: "'s \<Rightarrow> bool" and ok_time :: "Time \<Rightarrow> bool"
  assumes next_later: "ok_sched s \<Longrightarrow> ok_time t \<Longrightarrow> IsZero (nxt s t) \<or> After (nxt s t) t"
    and next_wf: "ok_sched s \<Longrightarrow> ok_time t \<Longrightarrow> wf_nsec (nxt s t)"

locale entry_sorter =
  fixes srt :: "('s, 'j) Entry list \<Rightarrow> ('s, 'j) Entry list"
  assumes mset_srt: "mset (srt es) = mset es" and by_time_srt: "by_time (srt es)"
begin

lemma set_srt [simp]: "set (srt es) = set es"
  using mset_srt [of es] by (metis set_mset_mset)

lemma length_srt [simp]: "length (srt es) = length es"
  using mset_srt [of es] by (metis size_mset)

lemma srt_empty_iff [simp]: "srt es = [] \<longleftrightarrow> es = []"
  using length_srt [of es] by (metis length_0_conv)

lemma hd_srt_earliest: "e \<in> set es \<Longrightarrow> le_entry (hd (srt es)) e"
proof -
  assume e: "e \<in> set es"
  then obtain x xs where "srt es = x # xs"
    by (metis list.set_cases set_srt)
  with e by_time_srt [of es] set_srt [of es] show ?thesis by (cases "e = x") auto
qed

end

locale cron_runner = schedule_iface nxt ok_sched ok_time + entry_sorter srt
  for nxt :: "'s \<Rightarrow> Time \<Rightarrow> Time" and ok_sched ok_time
    and srt :: "('s, 'j) Entry list \<Rightarrow> ('s, 'j) Entry list"
begin

lemma loop_head_inv:
  assumes "\<forall>e \<in> set es. entry_ok ok_sched now e"
  shows "run_inv ok_sched (loop_head srt now es)"
  using assms by (simp add: run_inv_def loop_head_def Let_def by_time_srt)

lemma entry_ok_later:
  "entry_ok ok_sched now0 e \<Longrightarrow> \<not> Before now now0 \<Longrightarrow> entry_ok ok_sched now e"
  by (auto simp: entry_ok_def After_def dest: not_Before_trans)

lemma refire_ok:
  assumes "entry_ok ok_sched now0 e" "\<not> Before now now0" "ok_time now"
  shows "entry_ok ok_sched now (refire nxt now e)"
proof (cases "due now e")
  case True
  have "ok_sched (eSchedule e)" using assms(1) by (simp add: entry_ok_def)
  from next_later [OF this assms(3)] next_wf [OF this assms(3)] True show ?thesis
    using assms(1) by (auto simp: entry_ok_def refire_def due_def After_def Before_def)
next
  case False
  with assms show ?thesis by (simp add: refire_def entry_ok_later)
qed

lemma refire_not_due:
  "ok_sched (eSchedule e) \<Longrightarrow> ok_time now \<Longrightarrow> \<not> due now (refire nxt now e)"
  using next_later [of "eSchedule e" now] by (auto simp: refire_def due_def)

lemma init_ok:
  "ok_sched (eSchedule e) \<Longrightarrow> ok_time now \<Longrightarrow> IsZero (ePrev e) \<or> \<not> After (ePrev e) now
     \<Longrightarrow> entry_ok ok_sched now (init_next nxt now e)"
  using next_later [of "eSchedule e" now] next_wf [of "eSchedule e" now]
  by (auto simp: entry_ok_def init_next_def After_def Before_def)

lemma step_inv:
  assumes r: "run_inv ok_sched r" and ev: "event_ok ok_sched ok_time (rNow r) ev"
  shows "run_inv ok_sched (snd (run_step nxt srt ev r))"
proof (cases ev)
  case (TimerFired t)
  have "\<forall>e \<in> set (map (refire nxt t) (rEntries r)). entry_ok ok_sched t e"
    using r ev TimerFired by (auto simp: run_inv_def intro: refire_ok)
  then have "run_inv ok_sched (loop_head srt t (map (refire nxt t) (rEntries r)))"
    by (rule loop_head_inv)
  with r TimerFired show ?thesis by (simp add: run_inv_def fire_spec)
next
  case (NewEntry e t)
  have "\<forall>x \<in> set (rEntries r @ [init_next nxt t e]). entry_ok ok_sched t x"
    using r ev NewEntry by (auto simp: run_inv_def intro: entry_ok_later init_ok)
  then have "run_inv ok_sched (loop_head srt t (rEntries r @ [init_next nxt t e]))"
    by (rule loop_head_inv)
  with NewEntry show ?thesis by simp
qed (use r in \<open>simp_all add: run_inv_def\<close>)

lemma start_inv:
  assumes "ok_time now"
    "\<forall>e \<in> set es. ok_sched (eSchedule e) \<and> (IsZero (ePrev e) \<or> \<not> After (ePrev e) now)"
  shows "run_inv ok_sched (run_start nxt srt now es)"
  unfolding run_start_def by (rule loop_head_inv) (use assms in \<open>auto intro: init_ok\<close>)

lemma reach_inv: "run_reach nxt srt ok_sched ok_time es0 r \<Longrightarrow> run_inv ok_sched r"
  by (induction rule: run_reach.induct) (auto intro: start_inv step_inv)

text \<open>The timer runs out at the first activation, or before.\<close>

lemma timer_earliest:
  assumes "run_inv ok_sched r" "e \<in> set (rEntries r)" "\<not> IsZero (eNext e)"
  shows "rTimer r \<le> tSub (eNext e) (rNow r)"
proof -
  from assms(2) obtain x xs where x: "rEntries r = x # xs" by (cases "rEntries r") auto
  then have "le_entry x e" using assms(1,2) by (auto simp: run_inv_def)
  with assms(3) have z: "\<not> IsZero (eNext x)" "\<not> Before (eNext e) (eNext x)"
    by (auto simp: le_entry_def byTime_Less_def split: if_splits)
  have t: "rTimer r = tSub (eNext x) (rNow r)"
    using assms(1) x z by (simp add: run_inv_def timer_duration_def)
  have "wf_nsec (eNext x)" "wf_nsec (eNext e)"
    using assms(1,2) x by (auto simp: run_inv_def entry_ok_def)
  with z(2) have "(tsec (eNext x) - tsec (rNow r)) * 1000000000 + (tnsec (eNext x) - tnsec (rNow r))
      \<le> (tsec (eNext e) - tsec (rNow r)) * 1000000000 + (tnsec (eNext e) - tnsec (rNow r))"
    by (auto simp: Before_def wf_nsec_def)
  then show ?thesis unfolding t tSub_def by linarith
qed

text \<open>A timer step starts the due jobs, all of them and no other, and leaves none due.\<close>

lemma timer_step:
  assumes r: "run_inv ok_sched r" and ev: "event_ok ok_sched ok_time (rNow r) (TimerFired t)"
  shows "fst (run_step nxt srt (TimerFired t) r)
      = Started (map (\<lambda>e. (eJob e, eNext e)) (filter (due t) (rEntries r)))"
    and "\<forall>e \<in> set (rEntries (snd (run_step nxt srt (TimerFired t) r))). \<not> due t e"
proof -
  show "fst (run_step nxt srt (TimerFired t) r)
      = Started (map (\<lambda>e. (eJob e, eNext e)) (filter (due t) (rEntries r)))"
    using r by (simp add: run_inv_def fire_spec)
  have "\<forall>e \<in> set (map (refire nxt t) (rEntries r)). \<not> due t e"
    using r ev refire_not_due by (auto simp: run_inv_def entry_ok_def)
  with r show "\<forall>e \<in> set (rEntries (snd (run_step nxt srt (TimerFired t) r))). \<not> due t e"
    by (simp add: run_inv_def fire_spec loop_head_def Let_def)
qed

text \<open>No entry is lost and none is made up.\<close>

lemma refire_same [simp]:
  "eSchedule (refire nxt now e) = eSchedule e" "eJob (refire nxt now e) = eJob e"
  by (simp_all add: refire_def)

lemma init_same [simp]:
  "eSchedule (init_next nxt now e) = eSchedule e" "eJob (init_next nxt now e) = eJob e"
  by (simp_all add: init_next_def)

lemma loop_head_registered:
  "registered (loop_head srt now es) = {#(eSchedule e, eJob e). e \<in># mset es#}"
  by (simp add: registered_def loop_head_def Let_def mset_srt)

lemma step_registered:
  assumes "run_inv ok_sched r"
  shows "registered (snd (run_step nxt srt ev r)) = registered r
    + (case ev of NewEntry e t \<Rightarrow> {#(eSchedule e, eJob e)#} | _ \<Rightarrow> {#})"
  using assms
  by (cases ev) (simp_all add: run_inv_def fire_spec loop_head_registered registered_def [of r]
      registered_def [of "r\<lparr>rDone := True\<rparr>"] image_mset.compositionality comp_def)

end

section \<open>The contracts hold\<close>

text \<open>The schedules of the package; the option of \<open>schedule_Next\<close> is never \<open>None\<close>.\<close>

definition schedule_next :: "schedule \<Rightarrow> Time \<Rightarrow> Time" where
  "schedule_next s t = (case schedule_Next s t of Some u \<Rightarrow> u | None \<Rightarrow> zeroTime)"

fun ok_schedule :: "schedule \<Rightarrow> bool" where
  "ok_schedule (SpecSched s) = True"
| "ok_schedule (ConstantDelay d) = (\<exists>k \<ge> 1. d = k * 1000000000)"

lemma ok_schedule_Every: "ok_schedule (Every d)"
  using Every_seconds [of d] by auto

lemma schedule_Next_cases:
  assumes "wf_time t" "ok_schedule s"
  shows "\<exists>u. schedule_Next s t = Some u \<and> (u = zeroTime \<or> (tsec t < tsec u \<and> tnsec u = 0 \<and> toff u = toff t))"
proof (cases s)
  case (SpecSched sp)
  then show ?thesis
    using next_wrap_result [of sp False "lsec t + 1" t "id_year (lsec t + 1) + 5"] assms
    by (auto simp: SpecSchedule_Next_def next_second id_year_def wf_time_def entry_def lsec_def)
next
  case (ConstantDelay d)
  with assms show ?thesis by (auto simp: ConstantDelay_Next_def tAdd_def)
qed

interpretation package_schedules: schedule_iface schedule_next ok_schedule wf_time
proof
  fix s t assume "ok_schedule s" "wf_time t"
  from schedule_Next_cases [OF this(2,1)] obtain u where "schedule_next s t = u"
    "u = zeroTime \<or> (tsec t < tsec u \<and> tnsec u = 0)"
    by (auto simp: schedule_next_def)
  then show "IsZero (schedule_next s t) \<or> After (schedule_next s t) t" "wf_nsec (schedule_next s t)"
    by (auto simp: zeroTime_def IsZero_def After_def Before_def wf_nsec_def)
qed

text \<open>Insertion sort with \<open>Less\<close>, which is what \<open>sort.Sort\<close> does on short slices.\<close>

fun byTime_insert :: "('s, 'j) Entry \<Rightarrow> ('s, 'j) Entry list \<Rightarrow> ('s, 'j) Entry list" where
  "byTime_insert e [] = [e]"
| "byTime_insert e (x # xs) = (if byTime_Less e x then e # x # xs else x # byTime_insert e xs)"

definition byTime_sort :: "('s, 'j) Entry list \<Rightarrow> ('s, 'j) Entry list" where
  "byTime_sort es = foldl (\<lambda>acc e. byTime_insert e acc) [] es"

lemma mset_byTime_insert [simp]: "mset (byTime_insert e es) = add_mset e (mset es)"
  by (induction es) auto

lemma set_byTime_insert [simp]: "set (byTime_insert e es) = insert e (set es)"
  by (induction es) auto

lemma by_time_insert: "by_time es \<Longrightarrow> by_time (byTime_insert e es)"
proof (induction es)
  case (Cons x xs)
  show ?case
  proof (cases "byTime_Less e x")
    case True
    then have "le_entry e x" using le_entry_total [of x e] by (simp add: le_entry_def)
    with Cons.prems True show ?thesis by (auto dest: le_entry_trans)
  next
    case False
    then have "le_entry x e" by (simp add: le_entry_def)
    with Cons False show ?thesis by auto
  qed
qed simp

lemma by_time_foldl: "by_time acc \<Longrightarrow> by_time (foldl (\<lambda>acc e. byTime_insert e acc) acc es)"
  by (induction es arbitrary: acc) (auto intro: by_time_insert)

lemma mset_foldl: "mset (foldl (\<lambda>acc e. byTime_insert e acc) acc es) = mset acc + mset es"
  by (induction es arbitrary: acc) auto

interpretation insertion_sort: entry_sorter byTime_sort
  by unfold_locales (simp_all add: byTime_sort_def mset_foldl by_time_foldl)

interpretation cr: cron_runner schedule_next ok_schedule wf_time byTime_sort
  by unfold_locales

section \<open>Properties\<close>

text \<open>The states of the runner of the package.\<close>

abbreviation cron_reach :: "(schedule, 'j) Entry list \<Rightarrow> (schedule, 'j) Run \<Rightarrow> bool" where
  "cron_reach \<equiv> run_reach schedule_next byTime_sort ok_schedule wf_time"

text \<open>A runner with two jobs, used to instantiate the properties.\<close>

definition sample_time :: Time where
  "sample_time = \<lparr>tsec = 1000, tnsec = 0, toff = 0\<rparr>"

definition sample_entries :: "(schedule, nat) Entry list" where
  "sample_entries =
     [\<lparr>eSchedule = ConstantDelay 5000000000, eNext = zeroTime, ePrev = zeroTime, eJob = 1\<rparr>,
      \<lparr>eSchedule = ConstantDelay 2000000000, eNext = zeroTime, ePrev = zeroTime, eJob = 2\<rparr>]"

definition sample_run :: "(schedule, nat) Run" where
  "sample_run = run_start schedule_next byTime_sort sample_time sample_entries"

lemma sample_reach: "cron_reach sample_entries sample_run"
proof -
  have "\<exists>k\<ge>1. (5000000000 :: int) = k * 1000000000" "\<exists>k\<ge>1. (2000000000 :: int) = k * 1000000000"
    by (rule exI [of _ 5], simp) (rule exI [of _ 2], simp)
  then show ?thesis
    unfolding sample_run_def
    by (intro run_reach.start)
       (auto simp: wf_time_def sample_time_def sample_entries_def IsZero_def zeroTime_def)
qed

lemma sample_run_entries:
  "rEntries sample_run =
     [\<lparr>eSchedule = ConstantDelay 2000000000, eNext = \<lparr>tsec = 1002, tnsec = 0, toff = 0\<rparr>,
        ePrev = zeroTime, eJob = 2\<rparr>,
      \<lparr>eSchedule = ConstantDelay 5000000000, eNext = \<lparr>tsec = 1005, tnsec = 0, toff = 0\<rparr>,
        ePrev = zeroTime, eJob = 1\<rparr>]"
  "rNow sample_run = sample_time"
  by (simp_all add: sample_run_def run_start_def sample_entries_def loop_head_def Let_def
      init_next_def schedule_next_def ConstantDelay_Next_def tAdd_def sample_time_def
      byTime_sort_def byTime_Less_def IsZero_def Before_def)

text \<open>The runner never oversleeps. In every state that \<open>run\<close> can reach, through any
  sequence of timer, new-entry and snapshot events whose clock does not run backwards, the entries
  are sorted and the timer is set to run out no later than the next activation of any entry.\<close>

lemma timer_never_late:
  assumes "cron_reach es0 r" "e \<in> set (rEntries r)" "\<not> IsZero (eNext e)"
  shows "by_time (rEntries r) \<and> rTimer r \<le> tSub (eNext e) (rNow r)"
  using cr.timer_earliest [OF cr.reach_inv assms(2,3)] cr.reach_inv [OF assms(1)] assms(1)
  by (simp add: run_inv_def)

lemma timer_never_late_witness:
  "rTimer sample_run \<le> 2000000000"
  using timer_never_late [OF sample_reach, of "hd (rEntries sample_run)"]
  by (simp add: sample_run_entries IsZero_def tSub_def sample_time_def)

text \<open>C11: A timer event starts the jobs that are due, each with the activation it was due at, all
  of them and no others, although the loop breaks at the first entry that is not due; and after it
  no entry is due at that time, so that no activation is started twice.\<close>

theorem timer_fires_exactly_due:
  assumes "cron_reach es0 r" "wf_time t" "\<not> Before t (rNow r)"
  shows "fst (run_step schedule_next byTime_sort (TimerFired t) r)
           = Started (map (\<lambda>e. (eJob e, eNext e)) (filter (due t) (rEntries r)))
       \<and> (\<forall>e \<in> set (rEntries (snd (run_step schedule_next byTime_sort (TimerFired t) r))). \<not> due t e)"
  using cr.timer_step [OF cr.reach_inv [OF assms(1)], of t] assms(2,3) by simp

theorem timer_fires_exactly_due_witness:
  "fst (run_step schedule_next byTime_sort (TimerFired \<lparr>tsec = 1003, tnsec = 0, toff = 0\<rparr>) sample_run)
     = Started [(2, \<lparr>tsec = 1002, tnsec = 0, toff = 0\<rparr>)]"
  using timer_fires_exactly_due [OF sample_reach, of "\<lparr>tsec = 1003, tnsec = 0, toff = 0\<rparr>"]
  by (simp add: sample_run_entries wf_time_def sample_time_def Before_def due_def After_def IsZero_def)

text \<open>No job is lost: in every reachable state a step keeps the registered pairs of schedule
  and job, and a new-entry event adds exactly its own.\<close>

lemma step_keeps_jobs:
  assumes "cron_reach es0 r"
  shows "registered (snd (run_step schedule_next byTime_sort ev r)) = registered r
    + (case ev of NewEntry e t \<Rightarrow> {#(eSchedule e, eJob e)#} | _ \<Rightarrow> {#})"
  by (rule cr.step_registered [OF cr.reach_inv [OF assms]])

lemma step_keeps_jobs_witness:
  "registered (snd (run_step schedule_next byTime_sort (TimerFired sample_time) sample_run))
     = {#(ConstantDelay 2000000000, 2), (ConstantDelay 5000000000, 1)#}"
  using step_keeps_jobs [OF sample_reach, of "TimerFired sample_time"]
  by (simp add: registered_def [of sample_run] sample_run_entries)

text \<open>Whatever text a job is added with, the schedule that \<open>AddJob\<close> registers keeps the
  contract of the runner: at every time its next activation is found, and it is later than that time
  or the zero time.\<close>

lemma AddJob_schedule_later:
  assumes "AddJob parse_duration c spec cmd now = Some (Ret (Inr (c', ev)))" "wf_time t"
  shows "\<exists>sched. (c', ev) = Cron_Schedule c sched cmd now
    \<and> (\<exists>u. schedule_Next sched t = Some u \<and> (IsZero u \<or> After u t))"
proof -
  obtain x where x: "Parse parse_duration spec = Some (Ret x)"
    and y: "(case x of Inl e \<Rightarrow> Inl e | Inr sched \<Rightarrow> Inr (Cron_Schedule c sched cmd now))
      = Inr (c', ev)"
    using assms(1) by (auto simp: AddJob_def bind_outcome_Ret_iff)
  then obtain sched where p: "Parse parse_duration spec = Some (Ret (Inr sched))"
    and s: "(c', ev) = Cron_Schedule c sched cmd now"
    by (cases x) auto
  have "ok_schedule sched"
  proof (cases sched)
    case (ConstantDelay d)
    with p obtain dur where "sched = Every dur"
      using Parser_Parse_delay unfolding Parse_def by blast
    then show ?thesis by (auto simp: ok_schedule_Every)
  qed simp
  from schedule_Next_cases [OF assms(2) this] s show ?thesis
    by (auto simp: zeroTime_def IsZero_def After_def Before_def)
qed

lemma AddJob_schedule_later_witness:
  "\<exists>sched u. snd (Cron_Schedule (NewWithLocation 0) sched (7 :: nat) sample_time) = None
     \<and> schedule_Next sched sample_time = Some u \<and> (IsZero u \<or> After u sample_time)"
proof -
  let ?c = "\<lparr>entries = [\<lparr>eSchedule = ConstantDelay 3000000000, eNext = zeroTime, ePrev = zeroTime,
      eJob = 7\<rparr>], running = False, location = 0\<rparr> :: (schedule, nat) Cron"
  have "Parse (\<lambda>_. Some 3000000000) ''@every 3s'' = Some (Ret (Inr (ConstantDelay 3000000000)))"
    by code_simp
  then have a: "AddJob (\<lambda>_. Some 3000000000) (NewWithLocation 0) ''@every 3s'' 7 sample_time
      = Some (Ret (Inr (?c, None)))"
    by (simp add: AddJob_def Cron_Schedule_def NewWithLocation_def)
  have "wf_time sample_time" by (simp add: wf_time_def sample_time_def)
  from AddJob_schedule_later [OF a this] obtain sched where
    "(?c, None) = Cron_Schedule (NewWithLocation 0) sched 7 sample_time
     \<and> (\<exists>u. schedule_Next sched sample_time = Some u \<and> (IsZero u \<or> After u sample_time))"
    by (rule exE)
  then show ?thesis by (metis snd_conv)
qed

end
