(* ===== verification/RouteTree.thy ===== *)
theory RouteTree
  imports Prelude
begin

text \<open>
  The radix tree of the HTTP router: \<open>whttp/router.go\<close>, the node type, \<open>Add\<close> and
  \<open>insert\<close>.

  A node is a tree value; the field \<open>parent\<close>, which no code reads, is left out, and the
  fields \<open>Func\<close> and \<open>Opts\<close>, which \<open>Find\<close> writes into the node it returns, are part
  of the result of \<open>Find\<close> (theory \<open>RouteFind\<close>). A handler is an element of a type
  variable, the nil interface is \<open>None\<close>.
\<close>

section \<open>Nodes\<close>

datatype kind = skind | pkind | akind

text \<open>\<open>methodHandler\<close> and \<open>methodOptions\<close>: one slot per HTTP method.\<close>

record 'f methodHandler =
  mh_connect :: "'f option"
  mh_delete :: "'f option"
  mh_get :: "'f option"
  mh_head :: "'f option"
  mh_options :: "'f option"
  mh_patch :: "'f option"
  mh_post :: "'f option"
  mh_put :: "'f option"
  mh_trace :: "'f option"

definition new_methodHandler :: "'f methodHandler" where
  "new_methodHandler =
     \<lparr>mh_connect = None, mh_delete = None, mh_get = None, mh_head = None, mh_options = None,
      mh_patch = None, mh_post = None, mh_put = None, mh_trace = None\<rparr>"

type_synonym 'o methodOptions = "'o methodHandler"

record ('f, 'o) Node =
  kind_of :: kind
  label :: char
  prefix :: string
  ppath :: string
  pnames :: "string list"
  methodHandler_of :: "'f methodHandler"
  methodOptions_of :: "'o methodOptions"

datatype ('f, 'o) RouteNode =
  RouteNode (node: "('f, 'o) Node") (children: "('f, 'o) RouteNode list")

text \<open>The switch of \<open>addHandler\<close> and \<open>addOptions\<close>.\<close>

definition add_method :: "string \<Rightarrow> 'f option \<Rightarrow> 'f methodHandler \<Rightarrow> 'f methodHandler" where
  "add_method meth h m =
     (if meth = ''GET'' then m\<lparr>mh_get := h\<rparr>
      else if meth = ''POST'' then m\<lparr>mh_post := h\<rparr>
      else if meth = ''PUT'' then m\<lparr>mh_put := h\<rparr>
      else if meth = ''DELETE'' then m\<lparr>mh_delete := h\<rparr>
      else if meth = ''PATCH'' then m\<lparr>mh_patch := h\<rparr>
      else if meth = ''OPTIONS'' then m\<lparr>mh_options := h\<rparr>
      else if meth = ''HEAD'' then m\<lparr>mh_head := h\<rparr>
      else if meth = ''CONNECT'' then m\<lparr>mh_connect := h\<rparr>
      else if meth = ''TRACE'' then m\<lparr>mh_trace := h\<rparr>
      else m)"

text \<open>The switch of \<open>findHandler\<close> and \<open>findOptions\<close>.\<close>

definition find_method :: "string \<Rightarrow> 'f methodHandler \<Rightarrow> 'f option" where
  "find_method meth m =
     (if meth = ''GET'' then mh_get m
      else if meth = ''POST'' then mh_post m
      else if meth = ''PUT'' then mh_put m
      else if meth = ''DELETE'' then mh_delete m
      else if meth = ''PATCH'' then mh_patch m
      else if meth = ''OPTIONS'' then mh_options m
      else if meth = ''HEAD'' then mh_head m
      else if meth = ''CONNECT'' then mh_connect m
      else if meth = ''TRACE'' then mh_trace m
      else None)"

definition HTTPMethods :: "string list" where
  "HTTPMethods = [''CONNECT'', ''DELETE'', ''GET'', ''HEAD'', ''OPTIONS'', ''PATCH'', ''POST'',
     ''PUT'', ''TRACE'']"

definition addHandler :: "string \<Rightarrow> 'f option \<Rightarrow> ('f, 'o) Node \<Rightarrow> ('f, 'o) Node" where
  "addHandler meth h n = n\<lparr>methodHandler_of := add_method meth h (methodHandler_of n)\<rparr>"

definition addOptions :: "string \<Rightarrow> 'o option \<Rightarrow> ('f, 'o) Node \<Rightarrow> ('f, 'o) Node" where
  "addOptions meth opts n = n\<lparr>methodOptions_of := add_method meth opts (methodOptions_of n)\<rparr>"

definition findHandler :: "string \<Rightarrow> ('f, 'o) Node \<Rightarrow> 'f option" where
  "findHandler meth n = find_method meth (methodHandler_of n)"

definition findOptions :: "string \<Rightarrow> ('f, 'o) Node \<Rightarrow> 'o option" where
  "findOptions meth n = find_method meth (methodOptions_of n)"

text \<open>\<open>newNode\<close> without the children; \<open>pre\<close> is not empty where it is called.\<close>

definition newNode ::
  "kind \<Rightarrow> string \<Rightarrow> 'f methodHandler \<Rightarrow> 'o methodOptions \<Rightarrow> string \<Rightarrow> string list \<Rightarrow> ('f, 'o) Node" where
  "newNode t pre mh mopts pp pn =
     \<lparr>kind_of = t, label = hd pre, prefix = pre, ppath = pp, pnames = pn,
      methodHandler_of = mh, methodOptions_of = mopts\<rparr>"

abbreviation label_of :: "('f, 'o) RouteNode \<Rightarrow> char" where
  "label_of c \<equiv> label (node c)"

definition findChild :: "char \<Rightarrow> kind \<Rightarrow> ('f, 'o) RouteNode list \<Rightarrow> ('f, 'o) RouteNode option" where
  "findChild l t cs = find (\<lambda>c. label_of c = l \<and> kind_of (node c) = t) cs"

definition findChildWithLabel :: "char \<Rightarrow> ('f, 'o) RouteNode list \<Rightarrow> ('f, 'o) RouteNode option" where
  "findChildWithLabel l cs = find (\<lambda>c. label_of c = l) cs"

definition findChildByKind :: "kind \<Rightarrow> ('f, 'o) RouteNode list \<Rightarrow> ('f, 'o) RouteNode option" where
  "findChildByKind t cs = find (\<lambda>c. kind_of (node c) = t) cs"

section \<open>insert\<close>

text \<open>Length of the longest common prefix.\<close>

fun lcp :: "string \<Rightarrow> string \<Rightarrow> nat" where
  "lcp (x # xs) (y # ys) = (if x = y then Suc (lcp xs ys) else 0)"
| "lcp xs ys = 0"

text \<open>What \<open>insert\<close> stores in a node: method, handler, options, kind, pristine path, names.\<close>

record ('f, 'o) Insertion =
  e_method :: string
  e_opts :: "'o option"
  e_h :: "'f option"
  e_kind :: kind
  e_ppath :: string
  e_pnames :: "string list"

definition store :: "('f, 'o) Insertion \<Rightarrow> ('f, 'o) Node \<Rightarrow> ('f, 'o) Node" where
  "store e n =
     (addOptions (e_method e) (e_opts e) (addHandler (e_method e) (e_h e) n))
       \<lparr>ppath := e_ppath e, pnames := e_pnames e\<rparr>"

text \<open>A new leaf below a node.\<close>

definition leaf :: "('f, 'o) Insertion \<Rightarrow> string \<Rightarrow> ('f, 'o) RouteNode" where
  "leaf e search =
     RouteNode (addOptions (e_method e) (e_opts e) (addHandler (e_method e) (e_h e)
       (newNode (e_kind e) search new_methodHandler new_methodHandler (e_ppath e) (e_pnames e)))) []"

text \<open>The branch "Split node": the old node below its shortened prefix.\<close>

definition split_node :: "('f, 'o) Insertion \<Rightarrow> string \<Rightarrow> nat \<Rightarrow> ('f, 'o) Node \<Rightarrow> ('f, 'o) RouteNode list
    \<Rightarrow> ('f, 'o) RouteNode" where
  "split_node e search l cn cs =
     (let n = RouteNode (newNode (kind_of cn) (drop l (prefix cn)) (methodHandler_of cn)
                (methodOptions_of cn) (ppath cn) (pnames cn)) cs;
          cn' = cn\<lparr>kind_of := skind, label := hd (prefix cn), prefix := take l (prefix cn),
                   methodHandler_of := new_methodHandler, methodOptions_of := new_methodHandler,
                   ppath := [], pnames := []\<rparr>
      in if l = length search then RouteNode ((store e cn')\<lparr>kind_of := e_kind e\<rparr>) [n]
         else RouteNode cn' [n, leaf e (drop l search)])"

text \<open>The branch "At root node".\<close>

definition root_node :: "('f, 'o) Insertion \<Rightarrow> string \<Rightarrow> ('f, 'o) Node \<Rightarrow> ('f, 'o) Node" where
  "root_node e search cn =
     (let cn' = cn\<lparr>label := hd search, prefix := search\<rparr>
      in if e_h e \<noteq> None then (store e cn')\<lparr>kind_of := e_kind e\<rparr> else cn')"

text \<open>The loop: \<open>insert_kids\<close> is the step to the first child with the right label, or None.\<close>

function (sequential) insert_at ::
    "('f, 'o) Insertion \<Rightarrow> string \<Rightarrow> ('f, 'o) RouteNode \<Rightarrow> ('f, 'o) RouteNode"
  and insert_kids ::
    "('f, 'o) Insertion \<Rightarrow> string \<Rightarrow> ('f, 'o) RouteNode list \<Rightarrow> ('f, 'o) RouteNode list option" where
  "insert_at e search (RouteNode cn cs) =
     (let sl = length search; pl = length (prefix cn); l = lcp search (prefix cn)
      in if l = 0 then RouteNode (root_node e search cn) cs
         else if l < pl then split_node e search l cn cs
         else if l < sl then
           (case insert_kids e (drop l search) cs of
              Some cs' \<Rightarrow> RouteNode cn cs'
            | None \<Rightarrow> RouteNode cn (cs @ [leaf e (drop l search)]))
         else if e_h e \<noteq> None then RouteNode (store e cn) cs
         else RouteNode cn cs)"
| "insert_kids e search [] = None"
| "insert_kids e search (c # cs) =
     (if label_of c = hd search then Some (insert_at e search c # cs)
      else map_option ((#) c) (insert_kids e search cs))"
  by pat_completeness auto
termination
  by (relation "measure (case_sum (\<lambda>(e, s, n). size n) (\<lambda>(e, s, ns). size_list size ns))") auto

section \<open>The router\<close>

record ('f, 'o) Router =
  tree :: "('f, 'o) RouteNode"
  depth :: nat

definition new_tree :: "('f, 'o) RouteNode" where
  "new_tree = RouteNode \<lparr>kind_of = skind, label = CHR 0x00, prefix = [], ppath = [], pnames = [],
     methodHandler_of = new_methodHandler, methodOptions_of = new_methodHandler\<rparr> []"

definition NewRouter :: "('f, 'o) Router" where
  "NewRouter = \<lparr>tree = new_tree, depth = 0\<rparr>"

text \<open>\<open>insert\<close>: the depth is set once, and an empty path panics at \<open>search[0]\<close>.\<close>

definition insert_route :: "('f, 'o) Insertion \<Rightarrow> string \<Rightarrow> ('f, 'o) Router \<Rightarrow> ('f, 'o) Router outcome" where
  "insert_route e path r =
     (if path = [] then Panic IndexOutOfRange
      else Ret (r\<lparr>tree := insert_at e path (tree r),
                  depth := (if depth r < 1 then length (e_pnames e) else depth r)\<rparr>))"

text \<open>
  The loop of \<open>Add\<close>: \<open>pre\<close> is \<open>path[:i]\<close>, \<open>rest\<close> is \<open>path[i:]\<close>. A parameter is
  replaced by its colon in the path that is stored; nothing after a star is looked at.
\<close>

function add_loop ::
  "string \<Rightarrow> 'o option \<Rightarrow> 'f option \<Rightarrow> string \<Rightarrow> string \<Rightarrow> string \<Rightarrow> string list
     \<Rightarrow> ('f, 'o) Router \<Rightarrow> ('f, 'o) Router outcome" where
  "add_loop meth opts h pp pre rest pn r =
     (case rest of
        [] \<Rightarrow> insert_route \<lparr>e_method = meth, e_opts = opts, e_h = h, e_kind = skind,
                e_ppath = pp, e_pnames = pn\<rparr> pre r
      | c # cs \<Rightarrow>
          let static = \<lparr>e_method = meth, e_opts = None, e_h = None, e_kind = skind,
                e_ppath = [], e_pnames = []\<rparr>
          in if c = CHR '':'' then
               bind_outcome (insert_route static pre r) (\<lambda>r1.
                 let pn' = pn @ [takeWhile (\<lambda>x. x \<noteq> CHR ''/'') cs];
                     rest' = dropWhile (\<lambda>x. x \<noteq> CHR ''/'') cs
                 in if rest' = [] then
                      insert_route \<lparr>e_method = meth, e_opts = opts, e_h = h, e_kind = pkind,
                        e_ppath = pp, e_pnames = pn'\<rparr> (pre @ '':'') r1
                    else
                      bind_outcome (insert_route \<lparr>e_method = meth, e_opts = None, e_h = None,
                          e_kind = pkind, e_ppath = pp, e_pnames = pn'\<rparr> (pre @ '':'') r1)
                        (add_loop meth opts h pp (pre @ '':'' @ [hd rest']) (tl rest') pn'))
             else if c = CHR ''*'' then
               bind_outcome (insert_route static pre r)
                 (insert_route \<lparr>e_method = meth, e_opts = opts, e_h = h, e_kind = akind,
                    e_ppath = pp, e_pnames = pn @ [''_*'']\<rparr> (pre @ ''*''))
             else add_loop meth opts h pp (pre @ [c]) cs pn r)"
  by pat_completeness auto
termination
  by (relation "measure (\<lambda>(meth, opts, h, pp, pre, rest, pn, r). length rest)")
     (auto simp: less_Suc_eq_le le_trans [OF diff_le_self length_dropWhile_le])

declare add_loop.simps [simp del]

definition Add ::
  "string \<Rightarrow> string \<Rightarrow> 'o option \<Rightarrow> 'f option \<Rightarrow> ('f, 'o) Router \<Rightarrow> ('f, 'o) Router outcome" where
  "Add meth path opts h r =
     (if path = [] then Panic (PanicMsg ''path connot be empty'')
      else let path' = (if hd path \<noteq> CHR ''/'' then CHR ''/'' # path else path)
           in add_loop meth opts h path' [] path' [] r)"

section \<open>The slots of a meth\<close>

lemma find_add_method:
  "find_method m (add_method m' h mh) = (if m = m' \<and> m \<in> set HTTPMethods then h else find_method m mh)"
  by (simp add: find_method_def add_method_def HTTPMethods_def)

lemma find_new_method [simp]: "find_method m new_methodHandler = None"
  by (simp add: find_method_def new_methodHandler_def)

lemma findHandler_simps [simp]:
  "findHandler m (addHandler m' h n) = (if m = m' \<and> m \<in> set HTTPMethods then h else findHandler m n)"
  "findHandler m (addOptions m' opts n) = findHandler m n"
  "findHandler m (newNode t pre new_methodHandler mo pp pn) = None"
  "findHandler m (n\<lparr>kind_of := t\<rparr>) = findHandler m n"
  "findHandler m (n\<lparr>label := ch\<rparr>) = findHandler m n"
  "findHandler m (n\<lparr>prefix := pre\<rparr>) = findHandler m n"
  "findHandler m (n\<lparr>ppath := pp\<rparr>) = findHandler m n"
  "findHandler m (n\<lparr>pnames := pn\<rparr>) = findHandler m n"
  by (auto simp: findHandler_def addHandler_def addOptions_def newNode_def find_add_method)

lemma shape_simps [simp]:
  "prefix (addHandler m h n) = prefix n" "label (addHandler m h n) = label n"
  "kind_of (addHandler m h n) = kind_of n"
  "prefix (addOptions m opts n) = prefix n" "label (addOptions m opts n) = label n"
  "kind_of (addOptions m opts n) = kind_of n"
  "prefix (newNode t pre mh mo pp pn) = pre" "label (newNode t pre mh mo pp pn) = hd pre"
  "kind_of (newNode t pre mh mo pp pn) = t"
  "prefix (store e n) = prefix n" "label (store e n) = label n" "kind_of (store e n) = kind_of n"
  by (simp_all add: addHandler_def addOptions_def newNode_def store_def)

lemma findHandler_store [simp]:
  "findHandler m (store e n) = (if m = e_method e \<and> m \<in> set HTTPMethods then e_h e else findHandler m n)"
  by (simp add: store_def)

section \<open>Well-formed trees\<close>

fun wf_tree :: "('f, 'o) RouteNode \<Rightarrow> bool" where
  "wf_tree (RouteNode n cs) \<longleftrightarrow> prefix n \<noteq> [] \<and> label n = hd (prefix n)
     \<and> distinct (map label_of cs) \<and> list_all wf_tree cs"

definition wf_root :: "('f, 'o) RouteNode \<Rightarrow> bool" where
  "wf_root t \<longleftrightarrow> t = new_tree \<or> (wf_tree t \<and> label_of t = CHR ''/'')"

lemma lcp_decomp:
  "\<exists>c a b. xs = c @ a \<and> ys = c @ b \<and> lcp xs ys = length c \<and> (a = [] \<or> b = [] \<or> hd a \<noteq> hd b)"
proof (induction xs ys rule: lcp.induct)
  case (1 x xs y ys)
  show ?case
  proof (cases "x = y")
    case True
    with 1 obtain c a b where "xs = c @ a" "ys = c @ b" "lcp xs ys = length c"
      "a = [] \<or> b = [] \<or> hd a \<noteq> hd b" by auto
    with True show ?thesis by (intro exI [of _ "x # c"] exI [of _ a] exI [of _ b]) auto
  qed (intro exI [of _ "[]"] exI [of _ "x # xs"] exI [of _ "y # ys"], auto)
qed auto

lemma lcp_append [simp]: "lcp (ys @ zs) ys = length ys"
  by (induction ys) auto

lemma insert_kids_None: "insert_kids e search cs = None \<longleftrightarrow> hd search \<notin> label_of ` set cs"
  by (induction cs) auto

lemma insert_kids_labels:
  assumes "insert_kids e search cs = Some cs'" "search \<noteq> []"
    and "\<And>c. c \<in> set cs \<Longrightarrow> label_of c = hd search \<Longrightarrow> label_of (insert_at e search c) = label_of c"
  shows "map label_of cs' = map label_of cs"
  using assms by (induction cs arbitrary: cs') (auto split: if_splits)

lemma label_insert_at: "wf_tree t \<Longrightarrow> search \<noteq> [] \<Longrightarrow> hd search = label_of t
    \<Longrightarrow> label_of (insert_at e search t) = label_of t"
proof (cases t)
  case (RouteNode n cs)
  assume "wf_tree t" "search \<noteq> []" "hd search = label_of t"
  moreover from this have "lcp search (prefix n) \<noteq> 0"
    using RouteNode by (cases search; cases "prefix n") auto
  ultimately show ?thesis
    using RouteNode by (auto simp: Let_def split_node_def hd_take split: option.splits)
qed

text \<open>What a node is after an insertion, by the shape of the common prefix.\<close>

lemma insert_at_cases:
  assumes "wf_tree (RouteNode n cs)" "search \<noteq> []" "hd search = label n"
  obtains (split) c b bs a where "search = c @ a" "prefix n = c @ b # bs" "c \<noteq> []"
      "a = [] \<or> hd a \<noteq> b" "insert_at e search (RouteNode n cs) = split_node e search (length c) n cs"
  | (child) a as cs' where "search = prefix n @ a # as" "insert_kids e (a # as) cs = Some cs'"
      "insert_at e search (RouteNode n cs) = RouteNode n cs'"
  | (new) a as where "search = prefix n @ a # as" "insert_kids e (a # as) cs = None"
      "insert_at e search (RouteNode n cs) = RouteNode n (cs @ [leaf e (a # as)])"
  | (here) "search = prefix n"
      "insert_at e search (RouteNode n cs) = RouteNode (if e_h e \<noteq> None then store e n else n) cs"
proof -
  obtain c a b where d: "search = c @ a" "prefix n = c @ b" "lcp search (prefix n) = length c"
    "a = [] \<or> b = [] \<or> hd a \<noteq> hd b" using lcp_decomp by blast
  have "lcp search (prefix n) \<noteq> 0"
    using assms by (cases search; cases "prefix n") auto
  with d have c: "c \<noteq> []" by auto
  show ?thesis
  proof (cases b)
    case (Cons x xs)
    with d c show ?thesis by (intro split [of c a x xs]) (auto simp: Let_def)
  next
    case Nil
    show ?thesis
    proof (cases a)
      case Nil
      with d c \<open>b = []\<close> show ?thesis by (intro here) (auto simp: Let_def)
    next
      case (Cons y ys)
      with d c Nil show ?thesis
        by (cases "insert_kids e (y # ys) cs") (auto intro: child new simp: Let_def)
    qed
  qed
qed

lemma wf_leaf: "s \<noteq> [] \<Longrightarrow> wf_tree (leaf e s) \<and> label_of (leaf e s) = hd s"
  by (simp add: leaf_def)

lemma wf_split_node:
  assumes "wf_tree (RouteNode n cs)" "prefix n = c @ b # bs" "c \<noteq> []" "search = c @ a" "a = [] \<or> hd a \<noteq> b"
  shows "wf_tree (split_node e search (length c) n cs)"
  using assms by (cases a) (auto simp: split_node_def Let_def wf_leaf)

lemma wf_insert:
  "wf_tree t \<Longrightarrow> search \<noteq> [] \<Longrightarrow> hd search = label_of t \<Longrightarrow> wf_tree (insert_at e search t)"
  "list_all wf_tree cs \<Longrightarrow> search \<noteq> [] \<Longrightarrow> distinct (map label_of cs) \<Longrightarrow> insert_kids e search cs = Some cs'
     \<Longrightarrow> list_all wf_tree cs' \<and> map label_of cs' = map label_of cs"
proof (induction e search t and e search cs arbitrary: and cs' rule: insert_at_insert_kids.induct)
  case (1 e search n cs)
  have s: "hd search = label n" using 1 by simp
  show ?case
  proof (cases rule: insert_at_cases [OF "1.prems"(1,2) s, of e, case_names split child new here])
    case (split c b bs a)
    with wf_split_node [OF "1.prems"(1), of c b bs search a e] show ?thesis by simp
  next
    case (child a as cs')
    then have "lcp search (prefix n) = length (prefix n)" by simp
    with child "1.IH"[OF refl refl refl] "1.prems" show ?thesis by simp
  next
    case (new a as)
    with "1.prems" show ?thesis by (auto simp: wf_leaf insert_kids_None)
  next
    case here
    with "1.prems" show ?thesis by simp
  qed
next
  case (3 e search c cs)
  then show ?case by (auto split: if_splits simp: label_insert_at)
qed auto

section \<open>Lookup by exact path\<close>

text \<open>The tree as a map: the node whose prefixes on the way from the root spell the path.\<close>

fun node_at :: "string \<Rightarrow> ('f, 'o) RouteNode \<Rightarrow> ('f, 'o) Node option"
  and node_at_kids :: "string \<Rightarrow> ('f, 'o) RouteNode list \<Rightarrow> ('f, 'o) Node option" where
  "node_at p (RouteNode n cs) =
     (if has_prefix p (prefix n)
      then let r = drop (length (prefix n)) p in if r = [] then Some n else node_at_kids r cs
      else None)"
| "node_at_kids r [] = None"
| "node_at_kids r (c # cs) = (if label_of c = hd r then node_at r c else node_at_kids r cs)"

definition val_at :: "(('f, 'o) Node \<Rightarrow> 'x option) \<Rightarrow> string \<Rightarrow> ('f, 'o) RouteNode \<Rightarrow> 'x option" where
  "val_at g p t = Option.bind (node_at p t) g"

definition val_kids :: "(('f, 'o) Node \<Rightarrow> 'x option) \<Rightarrow> string \<Rightarrow> ('f, 'o) RouteNode list \<Rightarrow> 'x option" where
  "val_kids g p cs = Option.bind (node_at_kids p cs) g"

lemma val_at_Node:
  "val_at g p (RouteNode n cs) =
     (if has_prefix p (prefix n)
      then if drop (length (prefix n)) p = [] then g n else val_kids g (drop (length (prefix n)) p) cs
      else None)"
  by (simp add: val_at_def val_kids_def Let_def)

lemma val_kids_simps [simp]:
  "val_kids g r [] = None"
  "val_kids g r (c # cs) = (if label_of c = hd r then val_at g r c else val_kids g r cs)"
  by (simp_all add: val_at_def val_kids_def)

lemma val_kids_append:
  "val_kids g r (cs @ ds) = (if hd r \<in> label_of ` set cs then val_kids g r cs else val_kids g r ds)"
  by (induction cs) auto

lemma val_kids_None: "hd r \<notin> label_of ` set cs \<Longrightarrow> val_kids g r cs = None"
  by (induction cs) auto

lemma val_at_append: "val_at g (prefix n @ r) (RouteNode n cs) = (if r = [] then g n else val_kids g r cs)"
  by (simp add: val_at_Node)

lemma has_prefix_append_iff: "has_prefix p (c @ b) \<longleftrightarrow> (\<exists>r. p = c @ r \<and> has_prefix r b)"
  by (auto simp: has_prefix_iff)

lemma val_at_leaf:
  assumes "s \<noteq> []"
  shows "val_at (findHandler m) p (leaf e s)
    = (if p = s \<and> m = e_method e \<and> m \<in> set HTTPMethods then e_h e else None)"
  using assms unfolding leaf_def val_at_Node by (auto simp: has_prefix_iff)

text \<open>A path of the split node: below the common prefix \<open>c\<close>.\<close>

lemma val_at_split:
  assumes "prefix n = c @ b # bs" "a = [] \<or> hd a \<noteq> b"
  shows "val_at (findHandler m) p (split_node e (c @ a) (length c) n cs)
    = (if p = c @ a \<and> m = e_method e \<and> m \<in> set HTTPMethods then e_h e
       else val_at (findHandler m) p (RouteNode n cs))"
proof (cases "has_prefix p c")
  case False
  then have "\<not> has_prefix p (c @ b # bs)" "p \<noteq> c @ a" by (auto simp: has_prefix_append_iff)
  with False assms show ?thesis
    by (simp add: split_node_def Let_def val_at_Node)
next
  case True
  then obtain r where p: "p = c @ r" by (auto simp: has_prefix_iff)
  let ?n = "newNode (kind_of n) (b # bs) (methodHandler_of n) (methodOptions_of n) (ppath n) (pnames n)"
  have g: "findHandler m ?n = findHandler m n"
    by (simp add: newNode_def findHandler_def)
  have old: "val_at (findHandler m) p (RouteNode n cs) = val_at (findHandler m) r (RouteNode ?n cs)"
    by (auto simp: val_at_Node p assms g has_prefix_append_iff)
  have none: "val_at (findHandler m) r (RouteNode ?n cs) = None" if "r = [] \<or> hd r \<noteq> b"
    using that by (cases r) (auto simp: val_at_Node has_prefix_Cons)
  have fresh: "findHandler m (n\<lparr>kind_of := skind, label := hd (prefix n), prefix := take l (prefix n),
      methodHandler_of := new_methodHandler, methodOptions_of := new_methodHandler,
      ppath := [], pnames := []\<rparr>) = None" for l
    by (simp add: findHandler_def)
  show ?thesis
  proof (cases "a = []")
    case True
    then show ?thesis
      unfolding old using assms none fresh [of "length c"]
      by (auto simp: split_node_def Let_def val_at_append p val_at_Node)
  next
    case False
    then show ?thesis
      unfolding old using assms none fresh [of "length c"]
      by (auto simp: split_node_def Let_def p val_at_Node val_at_leaf wf_leaf)
  qed
qed

lemma val_at_no_prefix: "\<not> has_prefix p (prefix n) \<Longrightarrow> val_at g p (RouteNode n cs) = None"
  by (simp add: val_at_Node)

lemma val_insert:
  "wf_tree t \<Longrightarrow> search \<noteq> [] \<Longrightarrow> hd search = label_of t
     \<Longrightarrow> val_at (findHandler m) p (insert_at e search t)
       = (if p = search \<and> e_h e \<noteq> None \<and> m = e_method e \<and> m \<in> set HTTPMethods then e_h e
          else val_at (findHandler m) p t)"
  "list_all wf_tree cs \<Longrightarrow> search \<noteq> [] \<Longrightarrow> p \<noteq> [] \<Longrightarrow> insert_kids e search cs = Some cs'
     \<Longrightarrow> val_kids (findHandler m) p cs'
       = (if p = search \<and> e_h e \<noteq> None \<and> m = e_method e \<and> m \<in> set HTTPMethods then e_h e
          else val_kids (findHandler m) p cs)"
proof (induction e search t and e search cs arbitrary: p and p cs' rule: insert_at_insert_kids.induct)
  case (1 e search n cs)
  have s: "hd search = label n" using 1 by simp
  show ?case
  proof (cases rule: insert_at_cases [OF "1.prems"(1,2) s, of e, case_names split child new here])
    case (split c b bs a)
    have "val_at (findHandler m) search (RouteNode n cs) = None" 
      using split by (cases a) (auto simp: val_at_Node has_prefix_append_iff has_prefix_Cons)
    with split val_at_split [of n c b bs a m p e cs] show ?thesis by auto
  next
    case (child a as cs')
    then have "lcp search (prefix n) = length (prefix n)" by simp
    with child "1.IH"[OF refl refl refl] "1.prems" show ?thesis
      by (auto simp: val_at_Node has_prefix_iff)
  next
    case (new a as)
    then have a: "a \<notin> label_of ` set cs" by (simp add: insert_kids_None)
    show ?thesis
      unfolding new(3) unfolding new(1) using a
      by (cases "e_h e") (auto simp: val_at_Node has_prefix_iff val_kids_append val_at_leaf wf_leaf
          val_kids_None)
  next
    case here
    with "1.prems" show ?thesis by (auto simp: val_at_Node has_prefix_iff)
  qed
next
  case (3 e search c cs)
  then show ?case by (auto split: if_splits simp: label_insert_at)
qed auto

lemma findOptions_simps [simp]:
  "findOptions m (addOptions m' opts n) = (if m = m' \<and> m \<in> set HTTPMethods then opts else findOptions m n)"
  "findOptions m (addHandler m' h n) = findOptions m n"
  "findOptions m (n\<lparr>kind_of := t\<rparr>) = findOptions m n"
  "findOptions m (n\<lparr>ppath := pp\<rparr>) = findOptions m n"
  "findOptions m (n\<lparr>pnames := pn\<rparr>) = findOptions m n"
  by (auto simp: findOptions_def addHandler_def addOptions_def find_add_method)

text \<open>The node of the inserted path holds what was inserted.\<close>

definition holds_entry :: "('f, 'o) Insertion \<Rightarrow> ('f, 'o) Node \<Rightarrow> bool" where
  "holds_entry e n \<longleftrightarrow> ppath n = e_ppath e \<and> pnames n = e_pnames e
     \<and> (e_method e \<in> set HTTPMethods \<longrightarrow>
          findHandler (e_method e) n = e_h e \<and> findOptions (e_method e) n = e_opts e)"

lemma has_prefix_refl [simp]: "has_prefix p p"
  by (simp add: has_prefix_def)

lemma holds_store: "holds_entry e (store e n)" "holds_entry e (store e n\<lparr>kind_of := k\<rparr>)"
  by (simp_all add: holds_entry_def store_def)

lemma holds_leaf: "\<exists>n. leaf e s = RouteNode n [] \<and> prefix n = s \<and> holds_entry e n"
  by (auto simp: leaf_def holds_entry_def newNode_def addHandler_def addOptions_def findHandler_def
      findOptions_def find_add_method)

lemma node_at_here: "node_at (prefix n @ r) (RouteNode n cs) = (if r = [] then Some n else node_at_kids r cs)"
  by simp

lemma node_at_kids_append:
  "node_at_kids r (cs @ ds) = (if hd r \<in> label_of ` set cs then node_at_kids r cs else node_at_kids r ds)"
  by (induction cs) auto

lemma node_insert:
  "wf_tree t \<Longrightarrow> search \<noteq> [] \<Longrightarrow> hd search = label_of t
     \<Longrightarrow> \<exists>n. node_at search (insert_at e search t) = Some n \<and> (e_h e \<noteq> None \<longrightarrow> holds_entry e n)"
  "list_all wf_tree cs \<Longrightarrow> search \<noteq> [] \<Longrightarrow> insert_kids e search cs = Some cs'
     \<Longrightarrow> \<exists>n. node_at_kids search cs' = Some n \<and> (e_h e \<noteq> None \<longrightarrow> holds_entry e n)"
proof (induction e search t and e search cs arbitrary: and cs' rule: insert_at_insert_kids.induct)
  case (1 e search n cs)
  have s: "hd search = label n" using 1 by simp
  show ?case
  proof (cases rule: insert_at_cases [OF "1.prems"(1,2) s, of e, case_names split child new here])
    case (split c b bs a)
    obtain l where l: "leaf e a = RouteNode l []" "prefix l = a" "holds_entry e l"
      using holds_leaf by blast
    then have "label l = hd a" if "a \<noteq> []" using wf_leaf [OF that, of e] by simp
    with l split(2,4) show ?thesis
      unfolding split(5) unfolding split(1) split_node_def Let_def
      by (cases "a = []") (simp_all add: holds_store)
  next
    case (child a as cs')
    then have "lcp search (prefix n) = length (prefix n)" by simp
    with child "1.IH"[OF refl refl refl] "1.prems" show ?thesis by simp
  next
    case (new a as)
    then have a: "a \<notin> label_of ` set cs" by (simp add: insert_kids_None)
    show ?thesis
      unfolding new(3) unfolding new(1) node_at_here node_at_kids_append
      using a holds_leaf [of e "a # as"] by (auto simp: wf_leaf)
  next
    case here
    with "1.prems" show ?thesis by (simp add: holds_store)
  qed
next
  case (3 e search c cs)
  then show ?case by (auto split: if_splits simp: label_insert_at)
qed auto

section \<open>Kinds\<close>

text \<open>A parameter node holds just the colon, a wildcard node just the star.\<close>

fun kinds_ok :: "('f, 'o) RouteNode \<Rightarrow> bool" where
  "kinds_ok (RouteNode n cs) \<longleftrightarrow> (kind_of n = pkind \<longrightarrow> prefix n = '':'')
     \<and> (kind_of n = akind \<longrightarrow> prefix n = ''*'') \<and> list_all kinds_ok cs"

text \<open>An entry of a parameter or of a wildcard goes below an existing node.\<close>

definition kind_fits :: "('f, 'o) Insertion \<Rightarrow> string \<Rightarrow> (string \<Rightarrow> bool) \<Rightarrow> bool" where
  "kind_fits e search present \<longleftrightarrow> (case e_kind e of
     skind \<Rightarrow> True
   | pkind \<Rightarrow> \<exists>q. search = q @ '':'' \<and> present q
   | akind \<Rightarrow> \<exists>q. search = q @ ''*'' \<and> present q)"

lemma kinds_leaf: "kind_fits e s (\<lambda>q. q = []) \<Longrightarrow> kinds_ok (leaf e s)"
  by (auto simp: leaf_def kind_fits_def split: kind.splits)

lemma kind_fits_iff:
  "kind_fits e s P \<longleftrightarrow> (\<forall>ch. (e_kind e = pkind \<and> ch = CHR '':'' \<or> e_kind e = akind \<and> ch = CHR ''*'')
     \<longrightarrow> (\<exists>q. s = q @ [ch] \<and> P q))"
  by (auto simp: kind_fits_def split: kind.splits)

lemma kind_fits_skind:
  assumes "kind_fits e s P" "\<And>q ch. s = q @ [ch] \<Longrightarrow> P q \<Longrightarrow> ch \<noteq> CHR '':'' \<and> ch \<noteq> CHR ''*''"
  shows "e_kind e = skind"
  using assms by (auto simp: kind_fits_def split: kind.splits)

lemma kind_fits_map:
  assumes "kind_fits e s P" "\<And>q ch. s = q @ [ch] \<Longrightarrow> P q \<Longrightarrow> \<exists>q'. s' = q' @ [ch] \<and> Q q'"
  shows "kind_fits e s' Q"
  using assms unfolding kind_fits_iff by blast

text \<open>Present below a node: the node itself or one of its descendants.\<close>

abbreviation below :: "('f, 'o) RouteNode \<Rightarrow> string \<Rightarrow> bool" where
  "below t q \<equiv> q = [] \<or> node_at q t \<noteq> None"

abbreviation below_kids :: "('f, 'o) RouteNode list \<Rightarrow> string \<Rightarrow> bool" where
  "below_kids cs q \<equiv> q = [] \<or> node_at_kids q cs \<noteq> None"

lemma kind_fits_down:
  assumes "kind_fits e (prefix n @ r) (below (RouteNode n cs))" "prefix n \<noteq> []" "r \<noteq> []"
  shows "kind_fits e r (below_kids cs)"
proof (rule kind_fits_map [OF assms(1)])
  fix q ch
  assume q: "prefix n @ r = q @ [ch]" "below (RouteNode n cs) q"
  have "q \<noteq> []" using q(1) assms(2,3) by (cases "prefix n") auto
  with q(2) obtain q' where q': "q = prefix n @ q'"
    by (auto simp: has_prefix_iff split: if_splits)
  with q have "r = q' @ [ch]" "below_kids cs q'" by (auto split: if_splits)
  then show "\<exists>q'. r = q' @ [ch] \<and> below_kids cs q'" by blast
qed

text \<open>Where a node is split, a parameter or wildcard entry can only end at the split itself.\<close>

lemma kind_fits_split:
  assumes "kind_fits e (c @ a) (below (RouteNode n cs))" "prefix n = c @ b # bs" "c \<noteq> []"
    "a = [] \<or> hd a \<noteq> b"
  shows "e_kind e = skind \<or> (a = [] \<and> (e_kind e = pkind \<and> c = '':'' \<or> e_kind e = akind \<and> c = ''*''))"
proof -
  have "q = []" if q: "c @ a = q @ [ch]" "below (RouteNode n cs) q" for q ch
  proof (rule ccontr)
    assume "q \<noteq> []"
    with q(2) obtain q' where "q = prefix n @ q'"
      by (auto simp: has_prefix_iff split: if_splits)
    with q(1) assms(2) have "a = b # bs @ q' @ [ch]" by simp
    with assms(4) show False by simp
  qed
  then have "c @ a = [ch]" if "e_kind e = pkind \<and> ch = CHR '':'' \<or> e_kind e = akind \<and> ch = CHR ''*''" for ch
    using assms(1) that unfolding kind_fits_iff by fastforce
  then show ?thesis using assms(3) by (cases "e_kind e"; cases c) auto
qed

lemma kinds_split:
  assumes "kinds_ok (RouteNode n cs)" "prefix n = c @ b # bs" "c \<noteq> []"
    and "e_kind e = skind \<or> (a = [] \<and> (e_kind e = pkind \<and> c = '':'' \<or> e_kind e = akind \<and> c = ''*''))"
  shows "kinds_ok (split_node e (c @ a) (length c) n cs)"
proof -
  have "kind_of n = skind"
    using assms(1-3) by (cases "kind_of n"; cases c) auto
  with assms show ?thesis
    by (cases "a = []") (auto simp: split_node_def Let_def leaf_def)
qed

lemma node_at_head: "wf_tree c \<Longrightarrow> node_at q c \<noteq> None \<Longrightarrow> hd q = label_of c"
  by (cases c) (auto simp: has_prefix_iff split: if_splits)

lemma node_at_kids_head: "list_all wf_tree cs \<Longrightarrow> node_at_kids q cs \<noteq> None \<Longrightarrow> hd q \<in> label_of ` set cs"
  by (induction cs) (auto split: if_splits)

lemma kinds_insert:
  "wf_tree t \<Longrightarrow> kinds_ok t \<Longrightarrow> search \<noteq> [] \<Longrightarrow> hd search = label_of t
     \<Longrightarrow> kind_fits e search (below t) \<Longrightarrow> kinds_ok (insert_at e search t)"
  "list_all wf_tree cs \<Longrightarrow> list_all kinds_ok cs \<Longrightarrow> search \<noteq> []
     \<Longrightarrow> kind_fits e search (below_kids cs) \<Longrightarrow> insert_kids e search cs = Some cs'
     \<Longrightarrow> list_all kinds_ok cs'"
proof (induction e search t and e search cs arbitrary: and cs' rule: insert_at_insert_kids.induct)
  case (1 e search n cs)
  have s: "hd search = label n" and ne: "prefix n \<noteq> []" using 1 by simp_all
  show ?case
  proof (cases rule: insert_at_cases [OF "1.prems"(1,3) s, of e, case_names split child new here])
    case (split c b bs a)
    have "kind_fits e (c @ a) (below (RouteNode n cs))"
      using "1.prems"(5) unfolding split(1) .
    from kind_fits_split [OF this split(2-4)]
    have "kinds_ok (split_node e (c @ a) (length c) n cs)"
      by (rule kinds_split [OF "1.prems"(2) split(2,3)])
    then show ?thesis unfolding split(5) unfolding split(1) .
  next
    case (child a as cs')
    then have "lcp search (prefix n) = length (prefix n)" by simp
    moreover have "kind_fits e (a # as) (below_kids cs)"
      by (rule kind_fits_down [OF _ ne]) (use "1.prems"(5) child(1) in auto)
    ultimately have "list_all kinds_ok cs'"
      using child(1,2) "1.IH"[OF refl refl refl, of cs'] "1.prems"(1,2) by simp
    with "1.prems"(2) show ?thesis unfolding child(3) by simp
  next
    case (new a as)
    have "kind_fits e (a # as) (below_kids cs)"
      by (rule kind_fits_down [OF _ ne]) (use "1.prems"(5) new(1) in auto)
    then have "kind_fits e (a # as) (\<lambda>q. q = [])"
    proof (rule kind_fits_map)
      fix q ch assume q: "a # as = q @ [ch]" "below_kids cs q"
      have "q = []"
      proof (rule ccontr)
        assume "q \<noteq> []"
        with q have "hd q = a" "node_at_kids q cs \<noteq> None" by (cases q; simp)+
        with node_at_kids_head [of cs q] "1.prems"(1) new(2) show False
          by (simp add: insert_kids_None)
      qed
      with q(1) show "\<exists>q'. a # as = q' @ [ch] \<and> q' = []" by blast
    qed
    with new "1.prems" show ?thesis by (auto intro: kinds_leaf)
  next
    case here
    with "1.prems" show ?thesis by simp
  qed
next
  case (3 e search c cs)
  show ?case
  proof (cases "label_of c = hd search")
    case True
    have "kind_fits e search (below c)"
    proof (rule kind_fits_map [OF "3.prems"(4)])
      fix q ch assume q: "search = q @ [ch]" "below_kids (c # cs) q"
      then have "below c q" using True by (cases q) auto
      with q(1) show "\<exists>q'. search = q' @ [ch] \<and> below c q'" by blast
    qed
    moreover have "wf_tree c" "kinds_ok c" "hd search = label_of c"
      using "3.prems"(1,2) True by simp_all
    ultimately have "kinds_ok (insert_at e search c)"
      using "3.IH"(1) True "3.prems"(3) by blast
    with True "3.prems"(2,5) show ?thesis by auto
  next
    case False
    have "kind_fits e search (below_kids cs)"
    proof (rule kind_fits_map [OF "3.prems"(4)])
      fix q ch assume q: "search = q @ [ch]" "below_kids (c # cs) q"
      then have "below_kids cs q" using False by (cases q) auto
      with q(1) show "\<exists>q'. search = q' @ [ch] \<and> below_kids cs q'" by blast
    qed
    moreover obtain cs2 where "insert_kids e search cs = Some cs2" "cs' = c # cs2"
      using "3.prems"(5) False by auto
    ultimately show ?thesis
      using "3.IH"(2) [OF False] "3.prems"(1-3) by simp
  qed
qed auto

section \<open>The routes as a map\<close>

definition handler_at :: "string \<Rightarrow> string \<Rightarrow> ('f, 'o) Router \<Rightarrow> 'f option" where
  "handler_at m p r = val_at (findHandler m) p (tree r)"

text \<open>The invariant of the router. Its depth, the number of parameter values a context holds, never
  exceeds one: the first entry with a parameter has one name, and the depth is set only once.\<close>

definition wf_router :: "('f, 'o) Router \<Rightarrow> bool" where
  "wf_router r \<longleftrightarrow> wf_root (tree r) \<and> kinds_ok (tree r) \<and> depth r \<le> 1"

definition entry_fits :: "('f, 'o) Insertion \<Rightarrow> string \<Rightarrow> ('f, 'o) Router \<Rightarrow> bool" where
  "entry_fits e path r \<longleftrightarrow> kind_fits e path (below (tree r))
     \<and> (length (e_pnames e) \<le> 1 \<or> depth r = 1)"

lemma wf_NewRouter: "wf_router NewRouter"
  by (simp add: wf_router_def wf_root_def NewRouter_def new_tree_def)

lemma val_at_new_tree: "val_at (findHandler m) p new_tree = None"
  by (simp add: new_tree_def val_at_Node findHandler_def)

text \<open>What one insertion does.\<close>

definition inserted :: "('f, 'o) Insertion \<Rightarrow> string \<Rightarrow> ('f, 'o) Router \<Rightarrow> ('f, 'o) Router \<Rightarrow> bool" where
  "inserted e path r r' \<longleftrightarrow> wf_router r'
    \<and> (\<forall>m p. handler_at m p r' = (if p = path \<and> e_h e \<noteq> None \<and> m = e_method e \<and> m \<in> set HTTPMethods
                                  then e_h e else handler_at m p r))
    \<and> (\<exists>n. node_at path (tree r') = Some n \<and> (e_h e \<noteq> None \<longrightarrow> holds_entry e n))
    \<and> depth r' = (if depth r < 1 then length (e_pnames e) else depth r)"

lemma insert_new_ok:
  assumes t: "tree r = new_tree" and d: "depth r \<le> 1" and e: "entry_fits e path r"
    and p: "path \<noteq> []" "hd path = CHR ''/''"
  shows "\<exists>r'. insert_route e path r = Ret r' \<and> inserted e path r r'"
proof -
  let ?n = "root_node e path (node new_tree)"
  have i: "insert_at e path new_tree = RouteNode ?n []"
    by (cases path) (simp_all add: new_tree_def)
  have none: "node_at q (tree r) = None" if "q \<noteq> []" for q
    using that t by (simp add: new_tree_def)
  have slash: "ch = CHR ''/''" if "path = q @ [ch]" "below (tree r) q" for q ch
    using that p(2) none [of q] by (cases q) auto
  have "kind_fits e path (below (tree r))" using e by (simp add: entry_fits_def)
  then have "e_kind e = skind" by (rule kind_fits_skind) (drule (1) slash, simp)
  then have k: "kind_of ?n = skind"
    by (simp add: root_node_def Let_def new_tree_def)
  have n: "prefix ?n = path" "label ?n = hd path"
    "findHandler m ?n = (if e_h e \<noteq> None \<and> m = e_method e \<and> m \<in> set HTTPMethods then e_h e else None)" for m
    by (auto simp: root_node_def Let_def new_tree_def findHandler_def[of _ "_\<lparr>prefix := _\<rparr>"]
        findHandler_def[of _ "\<lparr>kind_of = _, label = _, prefix = _, ppath = _, pnames = _,
          methodHandler_of = _, methodOptions_of = _\<rparr>"])
  have h: "e_h e \<noteq> None \<Longrightarrow> holds_entry e ?n"
    by (simp add: root_node_def Let_def holds_store)
  show ?thesis
    unfolding insert_route_def inserted_def using p d e t h
    by (auto simp: i wf_router_def wf_root_def n k handler_at_def val_at_Node has_prefix_iff
        val_at_new_tree entry_fits_def)
qed

lemma insert_route_ok:
  assumes "wf_router r" "path \<noteq> []" "hd path = CHR ''/''" and e: "entry_fits e path r"
  shows "\<exists>r'. insert_route e path r = Ret r' \<and> inserted e path r r'"
proof (cases "tree r = new_tree")
  case True
  with assms insert_new_ok show ?thesis by (auto simp: wf_router_def)
next
  case False
  with assms(1-3) have w: "wf_tree (tree r)" "label_of (tree r) = CHR ''/''" "kinds_ok (tree r)" "depth r \<le> 1"
    by (auto simp: wf_router_def wf_root_def)
  with assms(2,3) have "wf_tree (insert_at e path (tree r))" "label_of (insert_at e path (tree r)) = CHR ''/''"
    by (simp_all add: wf_insert label_insert_at)
  moreover have "kinds_ok (insert_at e path (tree r))"
    using kinds_insert(1) [OF w(1,3) assms(2)] w(2) assms(3) e by (simp add: entry_fits_def)
  ultimately show ?thesis
    unfolding insert_route_def inserted_def using w assms(2,3) e
    using node_insert(1) [OF w(1), of path e]
    by (auto simp: wf_router_def wf_root_def handler_at_def val_insert entry_fits_def)
qed

section \<open>Add\<close>

text \<open>The stored form of a path: each parameter is reduced to its colon, and the path ends at the
  first star. The parameter names are collected on the way.\<close>

function pattern :: "string \<Rightarrow> string" where
  "pattern [] = []"
| "pattern (c # cs) =
     (if c = CHR '':'' then CHR '':'' # pattern (dropWhile (\<lambda>x. x \<noteq> CHR ''/'') cs)
      else if c = CHR ''*'' then ''*''
      else c # pattern cs)"
  by pat_completeness auto
termination
  by (relation "measure length") (auto simp: less_Suc_eq_le length_dropWhile_le)

function param_names :: "string \<Rightarrow> string list" where
  "param_names [] = []"
| "param_names (c # cs) =
     (if c = CHR '':'' then takeWhile (\<lambda>x. x \<noteq> CHR ''/'') cs
                            # param_names (dropWhile (\<lambda>x. x \<noteq> CHR ''/'') cs)
      else if c = CHR ''*'' then [''_*'']
      else param_names cs)"
  by pat_completeness auto
termination
  by (relation "measure length") (auto simp: less_Suc_eq_le length_dropWhile_le)

abbreviation static_entry :: "string \<Rightarrow> ('f, 'o) Insertion" where
  "static_entry meth \<equiv> \<lparr>e_method = meth, e_opts = None, e_h = None, e_kind = skind,
     e_ppath = [], e_pnames = []\<rparr>"

text \<open>What a registration achieves.\<close>

definition registers ::
  "string \<Rightarrow> 'o option \<Rightarrow> 'f option \<Rightarrow> string \<Rightarrow> string \<Rightarrow> string list \<Rightarrow> ('f, 'o) Router
     \<Rightarrow> ('f, 'o) Router \<Rightarrow> bool" where
  "registers meth opts h pp path pn r r' \<longleftrightarrow> wf_router r'
     \<and> (\<forall>m p. handler_at m p r' =
          (if p = path \<and> m = meth \<and> m \<in> set HTTPMethods then h else handler_at m p r))
     \<and> (\<exists>n. node_at path (tree r') = Some n \<and> ppath n = pp \<and> pnames n = pn
            \<and> (meth \<in> set HTTPMethods \<longrightarrow> findOptions meth n = opts))"

lemma inserted_registers:
  assumes "inserted \<lparr>e_method = meth, e_opts = opts, e_h = h, e_kind = k, e_ppath = pp,
      e_pnames = pn\<rparr> path r r'" "h \<noteq> None"
  shows "registers meth opts h pp path pn r r'"
  using assms by (auto simp: inserted_def registers_def holds_entry_def)

lemma inserted_nothing:
  assumes "inserted e path r r'" "e_h e = None"
  shows "wf_router r'" "handler_at m p r' = handler_at m p r" "\<exists>n. node_at path (tree r') = Some n"
    "depth r = 1 \<Longrightarrow> depth r' = 1" "length (e_pnames e) = 1 \<Longrightarrow> depth r' = 1"
  using assms by (auto simp: inserted_def wf_router_def split: if_splits)

lemma insert_static:
  assumes "wf_router r" "path \<noteq> []" "hd path = CHR ''/''"
  shows "\<exists>r'. insert_route (static_entry meth) path r = Ret r' \<and> inserted (static_entry meth) path r r'"
  using assms by (intro insert_route_ok) (auto simp: entry_fits_def kind_fits_def)

lemma entry_fits_below:
  assumes "node_at pre (tree r) = Some n" "length pn \<le> 1 \<or> depth r = 1"
  shows "entry_fits \<lparr>e_method = meth, e_opts = opts, e_h = h, e_kind = pkind, e_ppath = pp,
      e_pnames = pn\<rparr> (pre @ '':'') r"
    "entry_fits \<lparr>e_method = meth, e_opts = opts, e_h = h, e_kind = akind, e_ppath = pp,
      e_pnames = pn\<rparr> (pre @ ''*'') r"
  using assms by (auto simp: entry_fits_def kind_fits_def)

lemma registers_weaken:
  "registers meth opts h pp path pn r1 r' \<Longrightarrow> \<forall>m p. handler_at m p r1 = handler_at m p r
     \<Longrightarrow> registers meth opts h pp path pn r r'"
  by (auto simp: registers_def)

lemma dropWhile_slash: "dropWhile (\<lambda>x. x \<noteq> CHR ''/'') cs = x # xs \<Longrightarrow> x = CHR ''/''"
  by (induction cs) (auto split: if_splits)

text \<open>The four ways of the loop.\<close>

lemma add_loop_Nil:
  "add_loop meth opts h pp pre [] pn r = insert_route \<lparr>e_method = meth, e_opts = opts, e_h = h,
     e_kind = skind, e_ppath = pp, e_pnames = pn\<rparr> pre r"
  by (subst add_loop.simps) simp

lemma add_loop_plain:
  "c \<noteq> CHR '':'' \<Longrightarrow> c \<noteq> CHR ''*'' \<Longrightarrow>
     add_loop meth opts h pp pre (c # cs) pn r = add_loop meth opts h pp (pre @ [c]) cs pn r"
  by (subst add_loop.simps) simp

lemma add_loop_star:
  "add_loop meth opts h pp pre (CHR ''*'' # cs) pn r =
     bind_outcome (insert_route (static_entry meth) pre r)
       (insert_route \<lparr>e_method = meth, e_opts = opts, e_h = h, e_kind = akind, e_ppath = pp,
          e_pnames = pn @ [''_*'']\<rparr> (pre @ ''*''))"
  by (subst add_loop.simps) simp

lemma add_loop_param_end:
  "dropWhile (\<lambda>x. x \<noteq> CHR ''/'') cs = [] \<Longrightarrow>
   add_loop meth opts h pp pre (CHR '':'' # cs) pn r =
     bind_outcome (insert_route (static_entry meth) pre r)
       (insert_route \<lparr>e_method = meth, e_opts = opts, e_h = h, e_kind = pkind, e_ppath = pp,
          e_pnames = pn @ [takeWhile (\<lambda>x. x \<noteq> CHR ''/'') cs]\<rparr> (pre @ '':''))"
  by (subst add_loop.simps) (simp del: dropWhile_eq_Nil_conv)

lemma add_loop_param_more:
  "dropWhile (\<lambda>x. x \<noteq> CHR ''/'') cs = x # xs \<Longrightarrow>
   add_loop meth opts h pp pre (CHR '':'' # cs) pn r =
     bind_outcome (insert_route (static_entry meth) pre r) (\<lambda>r1.
       bind_outcome (insert_route \<lparr>e_method = meth, e_opts = None, e_h = None, e_kind = pkind,
          e_ppath = pp, e_pnames = pn @ [takeWhile (\<lambda>x. x \<noteq> CHR ''/'') cs]\<rparr> (pre @ '':'') r1)
         (add_loop meth opts h pp (pre @ '':'' @ [x]) xs (pn @ [takeWhile (\<lambda>x. x \<noteq> CHR ''/'') cs])))"
  by (subst add_loop.simps) (simp add: Let_def del: dropWhile_eq_Nil_conv)

lemma add_loop_registers:
  assumes "wf_router r" "pre @ rest \<noteq> []" "hd (pre @ rest) = CHR ''/''" "h \<noteq> None"
    and "pre = [] \<longrightarrow> rest \<noteq> [] \<and> hd rest \<noteq> CHR '':'' \<and> hd rest \<noteq> CHR ''*''"
    and "pn = [] \<or> depth r = 1"
  shows "\<exists>r'. add_loop meth opts h pp pre rest pn r = Ret r'
    \<and> registers meth opts h pp (pre @ pattern rest) (pn @ param_names rest) r r'"
  using assms
proof (induction "length rest" arbitrary: pre rest pn r rule: less_induct)
  case less
  let ?d = "\<lambda>cs. dropWhile (\<lambda>x. x \<noteq> CHR ''/'') cs"
  show ?case
  proof (cases rest)
    case Nil
    let ?e = "\<lparr>e_method = meth, e_opts = opts, e_h = h, e_kind = skind, e_ppath = pp,
      e_pnames = pn\<rparr> :: ('a, 'b) Insertion"
    have "entry_fits ?e pre r" using less.prems(6) by (auto simp: entry_fits_def kind_fits_def)
    with less.prems Nil insert_route_ok [of r pre ?e] inserted_registers [of meth opts h skind pp pn pre r]
    show ?thesis by (auto simp: add_loop_Nil)
  next
    case (Cons c cs)
    consider (param) "c = CHR '':''" | (star) "c = CHR ''*''" | (plain) "c \<noteq> CHR '':''" "c \<noteq> CHR ''*''"
      by blast
    then show ?thesis
    proof cases
      case plain
      have "\<exists>r'. add_loop meth opts h pp (pre @ [c]) cs pn r = Ret r'
          \<and> registers meth opts h pp ((pre @ [c]) @ pattern cs) (pn @ param_names cs) r r'"
        by (rule less.hyps) (use less.prems Cons in auto)
      with Cons plain show ?thesis by (simp add: add_loop_plain)
    next
      case star
      with less.prems Cons have pre: "pre \<noteq> []" "hd pre = CHR ''/''" by auto
      from insert_static [OF less.prems(1) pre] obtain r1 where
        r1: "insert_route (static_entry meth) pre r = Ret r1" "inserted (static_entry meth) pre r r1"
        by blast
      note i1 = inserted_nothing [OF r1(2)]
      let ?e = "\<lparr>e_method = meth, e_opts = opts, e_h = h, e_kind = akind, e_ppath = pp,
        e_pnames = pn @ [''_*'']\<rparr> :: ('a, 'b) Insertion"
      have "entry_fits ?e (pre @ ''*'') r1"
        using i1(3,4) less.prems(6) by (auto intro!: entry_fits_below(2))
      with insert_route_ok [of r1 "pre @ ''*''" ?e] i1(1) pre obtain r' where
        r': "insert_route ?e (pre @ ''*'') r1 = Ret r'" "inserted ?e (pre @ ''*'') r1 r'"
        by auto
      have "registers meth opts h pp (pre @ ''*'') (pn @ [''_*'']) r r'"
        by (rule registers_weaken [OF inserted_registers [OF r'(2) less.prems(4)]]) (simp add: i1(2))
      with r1(1) r'(1) star Cons show ?thesis by (simp add: add_loop_star)
    next
      case param
      with less.prems Cons have pre: "pre \<noteq> []" "hd pre = CHR ''/''" by auto
      from insert_static [OF less.prems(1) pre] obtain r1 where
        r1: "insert_route (static_entry meth) pre r = Ret r1" "inserted (static_entry meth) pre r r1"
        by blast
      note i1 = inserted_nothing [OF r1(2)]
      let ?pn = "pn @ [takeWhile (\<lambda>x. x \<noteq> CHR ''/'') cs]"
      have depth: "length ?pn \<le> 1 \<or> depth r1 = 1" using i1(4) less.prems(6) by auto
      show ?thesis
      proof (cases "?d cs")
        case Nil
        let ?e = "\<lparr>e_method = meth, e_opts = opts, e_h = h, e_kind = pkind, e_ppath = pp,
          e_pnames = ?pn\<rparr> :: ('a, 'b) Insertion"
        have "entry_fits ?e (pre @ '':'') r1"
          using i1(3) depth by (auto intro!: entry_fits_below(1))
        with insert_route_ok [of r1 "pre @ '':''" ?e] i1(1) pre obtain r' where
          r': "insert_route ?e (pre @ '':'') r1 = Ret r'" "inserted ?e (pre @ '':'') r1 r'"
          by auto
        have "registers meth opts h pp (pre @ '':'') ?pn r r'"
          by (rule registers_weaken [OF inserted_registers [OF r'(2) less.prems(4)]]) (simp add: i1(2))
        with r1(1) r'(1) param Cons Nil show ?thesis
          by (simp add: add_loop_param_end del: dropWhile_eq_Nil_conv)
      next
        case (Cons x xs)
        then have x: "x = CHR ''/''" by (rule dropWhile_slash)
        let ?e = "\<lparr>e_method = meth, e_opts = None, e_h = None, e_kind = pkind, e_ppath = pp,
          e_pnames = ?pn\<rparr> :: ('a, 'b) Insertion"
        have "entry_fits ?e (pre @ '':'') r1"
          using i1(3) depth by (auto intro!: entry_fits_below(1))
        with insert_route_ok [of r1 "pre @ '':''" ?e] i1(1) pre obtain r2 where
          r2: "insert_route ?e (pre @ '':'') r1 = Ret r2" "inserted ?e (pre @ '':'') r1 r2"
          by auto
        note i2 = inserted_nothing [OF r2(2)]
        have d2: "depth r2 = 1" using i2(4,5) i1(4) less.prems(6) by auto
        have "length (?d cs) \<le> length cs" by (rule length_dropWhile_le)
        then have "length xs < length rest" using Cons \<open>rest = c # cs\<close> by simp
        from less.hyps [OF this i2(1), of "pre @ '':'' @ [x]" ?pn] pre less.prems(4) d2
        obtain r' where r': "add_loop meth opts h pp (pre @ '':'' @ [x]) xs ?pn r2 = Ret r'"
          "registers meth opts h pp ((pre @ '':'' @ [x]) @ pattern xs) (?pn @ param_names xs) r2 r'"
          by auto
        have "registers meth opts h pp ((pre @ '':'' @ [x]) @ pattern xs) (?pn @ param_names xs) r r'"
          using r'(2) by (rule registers_weaken) (simp add: i1(2) i2(2))
        then show ?thesis
          using \<open>rest = c # cs\<close> param r1(1) r2(1) r'(1) x
          by (simp add: add_loop_param_more [OF Cons] Cons del: dropWhile_eq_Nil_conv)
      qed
    qed
  qed
qed

definition rooted :: "string \<Rightarrow> string" where
  "rooted path = (if hd path \<noteq> CHR ''/'' then CHR ''/'' # path else path)"

lemma Add_registers:
  assumes "wf_router r" "path \<noteq> []" "h \<noteq> None"
  shows "\<exists>r'. Add meth path opts h r = Ret r'
    \<and> registers meth opts h (rooted path) (pattern (rooted path)) (param_names (rooted path)) r r'"
proof -
  have p: "rooted path \<noteq> []" "hd (rooted path) = CHR ''/''"
    using assms(2) by (auto simp: rooted_def)
  have "\<exists>r'. add_loop meth opts h (rooted path) [] (rooted path) [] r = Ret r'
    \<and> registers meth opts h (rooted path) ([] @ pattern (rooted path)) ([] @ param_names (rooted path)) r r'"
    by (rule add_loop_registers) (use assms p in auto)
  then show ?thesis
    using assms(2) by (simp add: Add_def Let_def rooted_def)
qed

section \<open>Routers built by registrations\<close>

inductive built :: "('f, 'o) Router \<Rightarrow> bool" where
  new: "built NewRouter"
| add: "built r \<Longrightarrow> path \<noteq> [] \<Longrightarrow> Add meth path opts (Some h) r = Ret r' \<Longrightarrow> built r'"

lemma built_wf: "built r \<Longrightarrow> wf_router r"
proof (induction rule: built.induct)
  case (add r path meth opts h r')
  with Add_registers [of r path "Some h" meth opts] show ?case by (auto simp: registers_def)
qed (rule wf_NewRouter)

section \<open>Properties\<close>

text \<open>C2: \<open>Add\<close> is total and a map update. On every router built by registrations, adding a
  non-empty path with a handler never panics; afterwards the handlers of the router, read by exact
  stored path and method, are the old ones updated at the pattern of the path and the method, and the
  node of the pattern carries the path, the parameter names and the options. Splitting and extending
  nodes of the tree changes nothing else.\<close>

theorem Add_updates_map:
  assumes "built r" "path \<noteq> []"
  shows "\<exists>r'. Add meth path opts (Some h) r = Ret r'
    \<and> (\<forall>m p. handler_at m p r' =
         (if p = pattern (rooted path) \<and> m = meth \<and> m \<in> set HTTPMethods then Some h
          else handler_at m p r))
    \<and> (\<exists>n. node_at (pattern (rooted path)) (tree r') = Some n \<and> ppath n = rooted path
         \<and> pnames n = param_names (rooted path)
         \<and> (meth \<in> set HTTPMethods \<longrightarrow> findOptions meth n = opts))"
  using Add_registers [OF built_wf [OF assms(1)] assms(2), of "Some h" meth opts]
  by (auto simp: registers_def)

theorem Add_updates_map_witness:
  "\<exists>r'. Add ''GET'' ''/users/:id'' None (Some (7 :: nat)) (NewRouter :: (nat, nat) Router) = Ret r'
     \<and> handler_at ''GET'' ''/users/:'' r' = Some 7"
proof -
  have p: "pattern (rooted ''/users/:id'') = ''/users/:''" by code_simp
  have m: "''GET'' \<in> set HTTPMethods" by (simp add: HTTPMethods_def)
  from Add_updates_map [OF built.new, of "''/users/:id''" "''GET''" None 7] p m
  show ?thesis by auto
qed

text \<open>The depth of a router never exceeds one: \<open>insert\<close> sets it at the first entry with
  a parameter, when there is one name, and never again. So a context holds at most one parameter
  value, whatever routes are registered.\<close>

lemma depth_at_most_one:
  assumes "built r"
  shows "depth r \<le> 1"
  using built_wf [OF assms] by (simp add: wf_router_def)

lemma depth_at_most_one_witness:
  "\<exists>r' :: (nat, nat) Router. Add ''GET'' ''/a/:x/b/:y'' None (Some 7) NewRouter = Ret r' \<and> depth r' \<le> 1"
proof -
  obtain r' :: "(nat, nat) Router" where "Add ''GET'' ''/a/:x/b/:y'' None (Some 7) NewRouter = Ret r'"
    using Add_registers [OF wf_NewRouter, of "''/a/:x/b/:y''" "Some 7" "''GET''" None] by auto
  moreover from this have "built r'" by (intro built.add [OF built.new]) auto
  ultimately show ?thesis using depth_at_most_one by blast
qed

end
