(* ===== verification/RouteFind.thy ===== *)
theory RouteFind
  imports RouteTree
begin

text \<open>
  The lookup of a request in the routing tree: \<open>Find\<close> of \<open>whttp/router.go\<close>.

  The loop with its labels is a machine: the program counter \<open>pc\<close> names the label, one
  \<open>find_step\<close> runs from a label to the next jump. The loop need not end, so \<open>Find\<close>
  takes a bound on the steps: \<open>None\<close> means that it is still running then. A nil node is
  \<open>None\<close>; its use panics.
\<close>

section \<open>The machine\<close>

datatype pc = AtTop | AtParam | AtAny | AtEnd

record ('f, 'o) FindState =
  f_pc :: pc
  f_cn :: "('f, 'o) RouteNode option"
  f_search :: string
  f_n :: nat
  f_nk :: kind
  f_nn :: "('f, 'o) RouteNode option"
  f_ns :: string
  f_pvalues :: "string list"

text \<open>The node returned, with the fields \<open>Func\<close> and \<open>Opts\<close> written at the end.\<close>

record ('f, 'o) Found =
  found_node :: "('f, 'o) Node"
  found_Func :: "'f option"
  found_Opts :: "'o option"

datatype ('f, 'o) find_result =
    Running "('f, 'o) FindState"
  | Returned "('f, 'o) Found option" "string list"
  | Panicked panic

text \<open>Length of the common prefix, skipped at a parameter node.\<close>

definition match_len :: "('f, 'o) Node \<Rightarrow> string \<Rightarrow> nat \<times> nat" where
  "match_len cn search =
     (if label cn \<noteq> CHR '':'' then (length (prefix cn), lcp search (prefix cn)) else (0, 0))"

definition top_step :: "('f, 'o) FindState \<Rightarrow> ('f, 'o) find_result" where
  "top_step s =
     (case f_cn s of
        None \<Rightarrow> Panicked NilDereference
      | Some cn \<Rightarrow>
          if f_search s = [] then Running (s\<lparr>f_pc := AtEnd\<rparr>)
          else
            let (pl, l) = match_len (node cn) (f_search s)
            in if l = pl then
                 let search = drop l (f_search s)
                 in if search = [] then Running (s\<lparr>f_search := [], f_pc := AtEnd\<rparr>)
                    else
                      (case findChild (hd search) skind (children cn) of
                         Some c \<Rightarrow>
                           let s' = s\<lparr>f_search := search\<rparr>;
                               s'' = (if label_of cn = CHR ''/''
                                      then s'\<lparr>f_nk := pkind, f_nn := Some cn, f_ns := search\<rparr> else s')
                           in Running (s''\<lparr>f_cn := Some c, f_pc := AtTop\<rparr>)
                       | None \<Rightarrow> Running (s\<lparr>f_search := search, f_pc := AtParam\<rparr>))
               else
                 let s' = s\<lparr>f_cn := f_nn s, f_search := f_ns s\<rparr>
                 in (case f_nk s of
                       pkind \<Rightarrow> Running (s'\<lparr>f_pc := AtParam\<rparr>)
                     | akind \<Rightarrow> Running (s'\<lparr>f_pc := AtAny\<rparr>)
                     | skind \<Rightarrow> Returned None (f_pvalues s)))"

definition param_step :: "('f, 'o) FindState \<Rightarrow> ('f, 'o) find_result" where
  "param_step s =
     (case f_cn s of
        None \<Rightarrow> Panicked NilDereference
      | Some cn \<Rightarrow>
          (case findChildByKind pkind (children cn) of
             Some c \<Rightarrow>
               if length (f_pvalues s) = f_n s then Running (s\<lparr>f_pc := AtTop\<rparr>)
               else
                 let s' = (if label_of cn = CHR ''/''
                           then s\<lparr>f_nk := akind, f_nn := Some cn, f_ns := f_search s\<rparr> else s);
                     v = takeWhile (\<lambda>x. x \<noteq> CHR ''/'') (f_search s)
                 in (case slice_put (f_pvalues s) (int (f_n s)) v of
                       Panic e \<Rightarrow> Panicked e
                     | Ret pv \<Rightarrow>
                         Running (s'\<lparr>f_cn := Some c, f_pvalues := pv, f_n := f_n s + 1,
                           f_search := drop (length v) (f_search s), f_pc := AtTop\<rparr>))
           | None \<Rightarrow> Running (s\<lparr>f_pc := AtAny\<rparr>)))"

definition any_step :: "('f, 'o) FindState \<Rightarrow> ('f, 'o) find_result" where
  "any_step s =
     (case f_cn s of
        None \<Rightarrow> Panicked NilDereference
      | Some cn \<Rightarrow>
          (case findChildByKind akind (children cn) of
             None \<Rightarrow>
               (case f_nn s of
                  None \<Rightarrow> Returned None (f_pvalues s)
                | Some nn \<Rightarrow>
                    let s' = s\<lparr>f_cn := Some nn, f_nn := None, f_search := f_ns s\<rparr>
                    in (case f_nk s of
                          pkind \<Rightarrow> Running (s'\<lparr>f_pc := AtParam\<rparr>)
                        | akind \<Rightarrow> Running (s'\<lparr>f_pc := AtAny\<rparr>)
                        | skind \<Rightarrow> Returned None (f_pvalues s)))
           | Some c \<Rightarrow>
               (case slice_put (f_pvalues s) (int (length (pnames (node c))) - 1) (f_search s) of
                  Panic e \<Rightarrow> Panicked e
                | Ret pv \<Rightarrow> Running (s\<lparr>f_cn := Some c, f_pvalues := pv, f_pc := AtEnd\<rparr>))))"

definition end_step :: "string \<Rightarrow> ('f, 'o) FindState \<Rightarrow> ('f, 'o) find_result" where
  "end_step meth s =
     (case f_cn s of
        None \<Rightarrow> Panicked NilDereference
      | Some cn \<Rightarrow>
          (case findHandler meth (node cn) of
             Some f \<Rightarrow>
               Returned (Some \<lparr>found_node = node cn, found_Func = Some f,
                 found_Opts = findOptions meth (node cn)\<rparr>) (f_pvalues s)
           | None \<Rightarrow>
               (case findChildByKind akind (children cn) of
                  None \<Rightarrow> Returned None (f_pvalues s)
                | Some c \<Rightarrow>
                    let res = (case findHandler meth (node c) of
                        Some h \<Rightarrow> \<lparr>found_node = node c, found_Func = Some h,
                                   found_Opts = findOptions meth (node c)\<rparr>
                      | None \<Rightarrow> \<lparr>found_node = node c, found_Func = None, found_Opts = None\<rparr>)
                    in (case slice_put (f_pvalues s) (int (length (pnames (node c))) - 1) [] of
                          Panic e \<Rightarrow> Panicked e
                        | Ret pv \<Rightarrow> Returned (Some res) pv))))"

definition find_step :: "string \<Rightarrow> ('f, 'o) FindState \<Rightarrow> ('f, 'o) find_result" where
  "find_step meth s =
     (case f_pc s of AtTop \<Rightarrow> top_step s | AtParam \<Rightarrow> param_step s | AtAny \<Rightarrow> any_step s
      | AtEnd \<Rightarrow> end_step meth s)"

fun find_run :: "nat \<Rightarrow> string \<Rightarrow> ('f, 'o) FindState \<Rightarrow> ('f, 'o) find_result" where
  "find_run 0 meth s = Running s"
| "find_run (Suc k) meth s =
     (case find_step meth s of Running s' \<Rightarrow> find_run k meth s' | r \<Rightarrow> r)"

definition find_start :: "('f, 'o) Router \<Rightarrow> string \<Rightarrow> string list \<Rightarrow> ('f, 'o) FindState" where
  "find_start r path pvalues =
     \<lparr>f_pc = AtTop, f_cn = Some (tree r), f_search = path, f_n = 0, f_nk = skind, f_nn = None,
      f_ns = [], f_pvalues = pvalues\<rparr>"

text \<open>\<open>Find\<close>, given up after \<open>k\<close> steps.\<close>

definition Find :: "nat \<Rightarrow> ('f, 'o) Router \<Rightarrow> string \<Rightarrow> string \<Rightarrow> string list
    \<Rightarrow> (('f, 'o) Found option \<times> string list) outcome option" where
  "Find k r meth path pvalues =
     (case find_run k meth (find_start r path pvalues) of
        Running s \<Rightarrow> None
      | Returned f pv \<Rightarrow> Some (Ret (f, pv))
      | Panicked e \<Rightarrow> Some (Panic e))"

section \<open>Running the machine\<close>

lemma find_run_Suc_Running:
  "find_step meth s = Running s' \<Longrightarrow> find_run (Suc k) meth s = find_run k meth s'"
  by simp

lemma find_run_add:
  "find_run j meth s = Running s' \<Longrightarrow> find_run (j + k) meth s = find_run k meth s'"
  by (induction j arbitrary: s) (auto split: find_result.splits)

lemma find_run_prefix:
  "find_run (j + k) meth s = Running s' \<Longrightarrow> \<exists>s''. find_run j meth s = Running s''"
  by (induction j arbitrary: s) (auto split: find_result.splits)

text \<open>A state that comes back is never left.\<close>

lemma find_run_cycle:
  assumes "find_run (Suc j) meth s = Running s"
  shows "\<exists>s'. find_run k meth s = Running s'"
proof -
  have "find_run (n * Suc j) meth s = Running s" for n
  proof (induction n)
    case (Suc n)
    have "find_run (Suc j + n * Suc j) meth s = find_run (n * Suc j) meth s"
      by (rule find_run_add [OF assms])
    with Suc show ?case by (simp only: mult_Suc)
  qed simp
  moreover have "k * Suc j = k + k * j" by simp
  ultimately show ?thesis using find_run_prefix by metis
qed

section \<open>Static routes\<close>

definition plain :: "string \<Rightarrow> bool" where
  "plain p \<longleftrightarrow> CHR '':'' \<notin> set p \<and> CHR ''*'' \<notin> set p"

lemma plain_kind: "wf_tree c \<Longrightarrow> kinds_ok c \<Longrightarrow> label_of c \<noteq> CHR '':'' \<Longrightarrow> label_of c \<noteq> CHR ''*''
    \<Longrightarrow> kind_of (node c) = skind"
  by (cases c; cases "kind_of (node c)") auto

lemma val_kids_child:
  assumes "val_kids g r cs = Some x" "list_all wf_tree cs" "list_all kinds_ok cs"
    "hd r \<noteq> CHR '':''" "hd r \<noteq> CHR ''*''"
  shows "\<exists>c. findChild (hd r) skind cs = Some c \<and> c \<in> set cs \<and> val_at g r c = Some x
    \<and> node_at_kids r cs = node_at r c"
  using assms
proof (induction cs)
  case (Cons c cs)
  show ?case
  proof (cases "label_of c = hd r")
    case True
    with Cons.prems have "kind_of (node c) = skind" by (intro plain_kind) auto
    with True Cons.prems show ?thesis by (auto simp: findChild_def)
  next
    case False
    with Cons show ?thesis by (auto simp: findChild_def)
  qed
qed simp

lemma find_static:
  assumes "wf_tree t" "kinds_ok t" "val_at (findHandler m) p t = Some h" "plain p"
    and "f_pc s = AtTop" "f_cn s = Some t" "f_search s = p" "length p < k"
  shows "\<exists>f. find_run k m s = Returned (Some f) (f_pvalues s) \<and> found_Func f = Some h
           \<and> node_at p t = Some (found_node f) \<and> found_Opts f = findOptions m (found_node f)"
  using assms
proof (induction "length p" arbitrary: p t s k rule: less_induct)
  case less
  obtain n cs where t: "t = RouteNode n cs" by (cases t)
  from less.prems(3) obtain r where r: "p = prefix n @ r"
    by (auto simp: t val_at_Node has_prefix_iff split: if_splits)
  have pre: "prefix n \<noteq> []" "label n = hd (prefix n)" using less.prems(1) by (simp_all add: t)
  then have lab: "label n \<noteq> CHR '':''" "p \<noteq> []" using less.prems(4) r
    by (auto simp: plain_def) (metis hd_in_set)
  have m: "match_len n p = (length (prefix n), length (prefix n))"
    using lab by (simp add: match_len_def r)
  obtain k' where k: "k = Suc k'" "length p \<le> k'" using less.prems(8) by (cases k) auto
  obtain k'' where k': "k' = Suc k''" using k lab(2) by (cases k') auto
  show ?case
  proof (cases r)
    case Nil
    then have h: "findHandler m n = Some h" using less.prems(3) val_at_append [of "findHandler m" n "[]" cs] by (simp add: t r)
    have "find_step m s = Running (s\<lparr>f_search := [], f_pc := AtEnd\<rparr>)"
      using less.prems m lab Nil r by (simp add: find_step_def top_step_def t)
    moreover have "find_step m (s\<lparr>f_search := [], f_pc := AtEnd\<rparr>)
        = Returned (Some \<lparr>found_node = n, found_Func = Some h, found_Opts = findOptions m n\<rparr>) (f_pvalues s)"
      using less.prems h by (simp add: find_step_def end_step_def t)
    ultimately show ?thesis
      using Nil by (auto simp: k(1) k' t r)
  next
    case (Cons x xs)
    then have "val_kids (findHandler m) r cs = Some h"
      using less.prems(3) by (simp add: t val_at_append r)
    moreover have "hd r \<noteq> CHR '':''" "hd r \<noteq> CHR ''*''"
      using less.prems(4) Cons r by (auto simp: plain_def)
    ultimately obtain c where c: "findChild (hd r) skind cs = Some c" "c \<in> set cs"
      "val_at (findHandler m) r c = Some h" and nk: "node_at_kids r cs = node_at r c"
      using val_kids_child less.prems(1,2) unfolding t by fastforce
    obtain s' where s': "find_step m s = Running s'" "f_pc s' = AtTop" "f_cn s' = Some c"
      "f_search s' = r" "f_pvalues s' = f_pvalues s"
      using less.prems m lab Cons r c(1)
      by (cases "label n = CHR ''/''") (simp_all add: find_step_def top_step_def t Let_def)
    have "\<exists>f. find_run k' m s' = Returned (Some f) (f_pvalues s') \<and> found_Func f = Some h
           \<and> node_at r c = Some (found_node f) \<and> found_Opts f = findOptions m (found_node f)"
    proof (rule less.hyps [OF _ _ _ c(3)])
      show "length r < length p" using pre(1) by (simp add: r)
      show "wf_tree c" "kinds_ok c" using less.prems(1,2) c(2) by (auto simp: t list_all_iff)
      show "plain r" using less.prems(4) by (simp add: plain_def r)
      show "length r < k'" using k(2) pre(1) by (cases "prefix n") (auto simp: r)
    qed (use s' in auto)
    moreover have "node_at p t = node_at r c"
      using Cons nk by (simp add: t r)
    ultimately show ?thesis using s' by (auto simp: k(1))
  qed
qed

section \<open>A router with one route\<close>

lemma add_loop_plain_many:
  "plain q \<Longrightarrow> add_loop meth opts h pp pre (q @ rest) pn r = add_loop meth opts h pp (pre @ q) rest pn r"
proof (induction q arbitrary: pre)
  case (Cons c q)
  then have "c \<noteq> CHR '':''" "c \<noteq> CHR ''*''" "plain q" by (auto simp: plain_def)
  with Cons.IH [of "pre @ [c]"] show ?case by (simp add: add_loop_plain)
qed simp

text \<open>The tree after inserting a static prefix and then one special node below it.\<close>

definition static_node :: "string \<Rightarrow> ('f, 'o) Node" where
  "static_node q = \<lparr>kind_of = skind, label = hd q, prefix = q, ppath = [], pnames = [],
     methodHandler_of = new_methodHandler, methodOptions_of = new_methodHandler\<rparr>"

lemma insert_static_new:
  "q \<noteq> [] \<Longrightarrow> insert_route (static_entry meth) q NewRouter
     = Ret \<lparr>tree = RouteNode (static_node q) [], depth = 0\<rparr>"
  by (cases q) (simp_all add: insert_route_def NewRouter_def new_tree_def root_node_def static_node_def)

lemma insert_below_static:
  assumes "q \<noteq> []" "e_pnames e = [x]"
  shows "insert_route e (q @ [ch]) \<lparr>tree = RouteNode (static_node q) [], depth = 0\<rparr>
     = Ret \<lparr>tree = RouteNode (static_node q) [leaf e [ch]], depth = 1\<rparr>"
  using assms by (simp add: insert_route_def static_node_def)

lemma Add_param_new:
  assumes "plain q" "hd q = CHR ''/''" "q \<noteq> []" "CHR ''/'' \<notin> set name"
  shows "Add meth (q @ CHR '':'' # name) opts (Some h) NewRouter
    = Ret \<lparr>tree = RouteNode (static_node q)
             [leaf \<lparr>e_method = meth, e_opts = opts, e_h = Some h, e_kind = pkind,
                e_ppath = q @ CHR '':'' # name, e_pnames = [name]\<rparr> '':''], depth = 1\<rparr>"
proof -
  have d: "dropWhile (\<lambda>x. x \<noteq> CHR ''/'') name = []" "takeWhile (\<lambda>x. x \<noteq> CHR ''/'') name = name"
    using assms(4) by (auto simp: takeWhile_eq_all_conv)
  have "Add meth (q @ CHR '':'' # name) opts (Some h) NewRouter
      = add_loop meth opts (Some h) (q @ CHR '':'' # name) [] (q @ CHR '':'' # name) [] NewRouter"
    using assms by (simp add: Add_def Let_def)
  also have "\<dots> = add_loop meth opts (Some h) (q @ CHR '':'' # name) q (CHR '':'' # name) [] NewRouter"
    by (subst add_loop_plain_many [OF assms(1)]) simp
  finally show ?thesis
    using assms(3) d by (simp add: add_loop_param_end insert_static_new insert_below_static
        del: dropWhile_eq_Nil_conv)
qed

lemma Add_any_new:
  assumes "plain q" "hd q = CHR ''/''" "q \<noteq> []"
  shows "Add meth (q @ ''*'') opts (Some h) NewRouter
    = Ret \<lparr>tree = RouteNode (static_node q)
             [leaf \<lparr>e_method = meth, e_opts = opts, e_h = Some h, e_kind = akind,
                e_ppath = q @ ''*'', e_pnames = [''_*'']\<rparr> ''*''], depth = 1\<rparr>"
proof -
  have "Add meth (q @ ''*'') opts (Some h) NewRouter
      = add_loop meth opts (Some h) (q @ ''*'') [] (q @ ''*'') [] NewRouter"
    using assms by (simp add: Add_def Let_def)
  also have "\<dots> = add_loop meth opts (Some h) (q @ ''*'') q ''*'' [] NewRouter"
    by (subst add_loop_plain_many [OF assms(1)]) simp
  finally show ?thesis
    using assms(3) by (simp add: add_loop_star insert_static_new insert_below_static)
qed

lemma leaf_node: "s \<noteq> [] \<Longrightarrow> \<exists>n. leaf e s = RouteNode n [] \<and> prefix n = s \<and> label n = hd s
    \<and> kind_of n = e_kind e \<and> pnames n = e_pnames e \<and> ppath n = e_ppath e
    \<and> (e_method e \<in> set HTTPMethods \<longrightarrow> findHandler (e_method e) n = e_h e)"
  by (auto simp: leaf_def newNode_def addHandler_def addOptions_def findHandler_def find_add_method)

text \<open>The run on such a tree, step by step.\<close>

lemma find_two_levels:
  fixes sn n :: "('f, 'o) Node"
  assumes "prefix sn = q" "label sn \<noteq> CHR '':''" "q \<noteq> []" "v \<noteq> []"
    and "kind_of n \<noteq> skind"
  shows "find_step m \<lparr>f_pc = AtTop, f_cn = Some (RouteNode sn [RouteNode n []]), f_search = q @ v,
      f_n = 0, f_nk = skind, f_nn = None, f_ns = [], f_pvalues = pv\<rparr>
    = Running \<lparr>f_pc = AtParam, f_cn = Some (RouteNode sn [RouteNode n []]), f_search = v,
      f_n = 0, f_nk = skind, f_nn = None, f_ns = [], f_pvalues = pv\<rparr>"
  using assms by (simp add: find_step_def top_step_def match_len_def findChild_def)

lemma find_param_tail:
  fixes sn n :: "('f, 'o) Node"
  assumes "kind_of n = pkind" "label n = CHR '':''" "findHandler m n = Some h" "CHR ''/'' \<notin> set v"
  shows "find_run 3 m \<lparr>f_pc = AtParam, f_cn = Some (RouteNode sn [RouteNode n []]), f_search = v,
      f_n = 0, f_nk = nk, f_nn = nn, f_ns = ns, f_pvalues = [x]\<rparr>
    = Returned (Some \<lparr>found_node = n, found_Func = Some h, found_Opts = findOptions m n\<rparr>) [v]"
proof -
  have v: "takeWhile (\<lambda>x. x \<noteq> CHR ''/'') v = v" using assms(4) by (auto simp: takeWhile_eq_all_conv)
  obtain nk' nn' ns' where "find_step m \<lparr>f_pc = AtParam, f_cn = Some (RouteNode sn [RouteNode n []]),
      f_search = v, f_n = 0, f_nk = nk, f_nn = nn, f_ns = ns, f_pvalues = [x]\<rparr>
    = Running \<lparr>f_pc = AtTop, f_cn = Some (RouteNode n []), f_search = [],
      f_n = 1, f_nk = nk', f_nn = nn', f_ns = ns', f_pvalues = [v]\<rparr>"
    using assms(1) v
    by (cases "label sn = CHR ''/''")
       (simp_all add: find_step_def param_step_def findChildByKind_def slice_put_def Let_def)
  moreover have "find_step m \<lparr>f_pc = AtTop, f_cn = Some (RouteNode n []), f_search = [],
      f_n = 1, f_nk = nk', f_nn = nn', f_ns = ns', f_pvalues = [v]\<rparr>
    = Running \<lparr>f_pc = AtEnd, f_cn = Some (RouteNode n []), f_search = [],
      f_n = 1, f_nk = nk', f_nn = nn', f_ns = ns', f_pvalues = [v]\<rparr>"
    by (simp add: find_step_def top_step_def)
  moreover have "find_step m \<lparr>f_pc = AtEnd, f_cn = Some (RouteNode n []), f_search = [],
      f_n = 1, f_nk = nk', f_nn = nn', f_ns = ns', f_pvalues = [v]\<rparr>
    = Returned (Some \<lparr>found_node = n, found_Func = Some h, found_Opts = findOptions m n\<rparr>) [v]"
    using assms(3) by (simp add: find_step_def end_step_def)
  ultimately show ?thesis by (simp add: eval_nat_numeral)
qed

lemma find_any_tail:
  fixes sn n :: "('f, 'o) Node"
  assumes "kind_of n = akind" "pnames n = [y]" "findHandler m n = Some h"
  shows "find_run 3 m \<lparr>f_pc = AtParam, f_cn = Some (RouteNode sn [RouteNode n []]), f_search = v,
      f_n = k, f_nk = nk, f_nn = nn, f_ns = ns, f_pvalues = [x]\<rparr>
    = Returned (Some \<lparr>found_node = n, found_Func = Some h, found_Opts = findOptions m n\<rparr>) [v]"
proof -
  have "find_step m \<lparr>f_pc = AtParam, f_cn = Some (RouteNode sn [RouteNode n []]),
      f_search = v, f_n = k, f_nk = nk, f_nn = nn, f_ns = ns, f_pvalues = [x]\<rparr>
    = Running \<lparr>f_pc = AtAny, f_cn = Some (RouteNode sn [RouteNode n []]),
      f_search = v, f_n = k, f_nk = nk, f_nn = nn, f_ns = ns, f_pvalues = [x]\<rparr>"
    using assms(1) by (simp add: find_step_def param_step_def findChildByKind_def)
  moreover have "find_step m \<lparr>f_pc = AtAny, f_cn = Some (RouteNode sn [RouteNode n []]),
      f_search = v, f_n = k, f_nk = nk, f_nn = nn, f_ns = ns, f_pvalues = [x]\<rparr>
    = Running \<lparr>f_pc = AtEnd, f_cn = Some (RouteNode n []), f_search = v,
      f_n = k, f_nk = nk, f_nn = nn, f_ns = ns, f_pvalues = [v]\<rparr>"
    using assms(1,2) by (simp add: find_step_def any_step_def findChildByKind_def slice_put_def)
  moreover have "find_step m \<lparr>f_pc = AtEnd, f_cn = Some (RouteNode n []), f_search = v,
      f_n = k, f_nk = nk, f_nn = nn, f_ns = ns, f_pvalues = [v]\<rparr>
    = Returned (Some \<lparr>found_node = n, found_Func = Some h, found_Opts = findOptions m n\<rparr>) [v]"
    using assms(3) by (simp add: find_step_def end_step_def)
  ultimately show ?thesis by (simp add: eval_nat_numeral)
qed

lemma static_node_simps:
  "prefix (static_node q) = q" "plain q \<Longrightarrow> q \<noteq> [] \<Longrightarrow> label (static_node q) \<noteq> CHR '':''"
  by (simp_all add: static_node_def plain_def) (metis hd_in_set)

lemma four: "(4 :: nat) = Suc 3"
  by simp

section \<open>Properties\<close>

text \<open>C12: A static route is always found. On a router built by any registrations, in any order
  and with any parameters and wildcards among them, \<open>Find\<close> of a path without colon and star at
  which a handler is stored for the method returns the node of that path with that handler and its
  options, in at most one step per character and two, and leaves the parameter values alone.\<close>

theorem static_route_found:
  assumes "built r" "handler_at meth path r = Some h" "plain path" "length path < k"
  shows "\<exists>f. Find k r meth path pvalues = Some (Ret (Some f, pvalues)) \<and> found_Func f = Some h
           \<and> node_at path (tree r) = Some (found_node f)
           \<and> found_Opts f = findOptions meth (found_node f)"
proof -
  have "tree r \<noteq> new_tree" using assms(2) by (auto simp: handler_at_def val_at_new_tree)
  with built_wf [OF assms(1)] have "wf_tree (tree r)" "kinds_ok (tree r)"
    by (auto simp: wf_router_def wf_root_def)
  from find_static [OF this _ assms(3), of meth h "find_start r path pvalues" k] assms(2,4)
  show ?thesis by (auto simp: Find_def find_start_def handler_at_def)
qed

text \<open>A route with one parameter binds it to its segment: the value that \<open>Find\<close> puts
  into the context is the text between the static prefix and the next slash, and the node names it.\<close>

lemma param_route_value:
  assumes "plain q" "hd q = CHR ''/''" "CHR ''/'' \<notin> set name" "meth \<in> set HTTPMethods"
    and "v \<noteq> []" "CHR ''/'' \<notin> set v" and q: "q \<noteq> []"
  shows "\<exists>r f. Add meth (q @ CHR '':'' # name) opts (Some h) NewRouter = Ret r
    \<and> Find 4 r meth (q @ v) (replicate (depth r) []) = Some (Ret (Some f, [v]))
    \<and> found_Func f = Some h \<and> pnames (found_node f) = [name]"
proof -
  let ?e = "\<lparr>e_method = meth, e_opts = opts, e_h = Some h, e_kind = pkind,
      e_ppath = q @ CHR '':'' # name, e_pnames = [name]\<rparr>"
  obtain n where n: "leaf ?e '':'' = RouteNode n []" "label n = CHR '':''"
    "kind_of n = pkind" "pnames n = [name]" "findHandler meth n = Some h"
    using leaf_node [of "'':''" ?e] assms(4) by auto
  let ?r = "\<lparr>tree = RouteNode (static_node q) [RouteNode n []], depth = 1\<rparr>"
  let ?f = "\<lparr>found_node = n, found_Func = Some h, found_Opts = findOptions meth n\<rparr>"
  have "find_run (Suc 3) meth (find_start ?r (q @ v) [[]]) = Returned (Some ?f) [v]"
  proof -
    have "find_start ?r (q @ v) [[]] = \<lparr>f_pc = AtTop, f_cn = Some (RouteNode (static_node q) [RouteNode n []]),
        f_search = q @ v, f_n = 0, f_nk = skind, f_nn = None, f_ns = [], f_pvalues = [[]]\<rparr>"
      by (simp add: find_start_def)
    moreover have "kind_of n \<noteq> skind" using n(3) by simp
    ultimately show ?thesis
      using find_run_Suc_Running [OF find_two_levels [OF static_node_simps(1)
          static_node_simps(2) [OF assms(1) q] q assms(5)], of n 3 meth "[[]]"]
        find_param_tail [OF n(3,2,5) assms(6)]
      by (simp only: not_False_eq_True)
  qed
  then have "Find 4 ?r meth (q @ v) (replicate (depth ?r) []) = Some (Ret (Some ?f, [v]))"
    unfolding four by (simp add: Find_def)
  then show ?thesis
    using Add_param_new [OF assms(1,2) q assms(3), of meth opts h] n
    by (intro exI [of _ ?r] exI [of _ ?f]) simp
qed

lemma param_route_value_witness:
  "\<exists>r f. Add ''GET'' (''/users/'' @ CHR '':'' # ''id'') None (Some (7 :: nat)) (NewRouter :: (nat, nat) Router) = Ret r
    \<and> Find 4 r ''GET'' (''/users/'' @ ''42'') (replicate (depth r) []) = Some (Ret (Some f, [''42'']))
    \<and> found_Func f = Some 7 \<and> pnames (found_node f) = [''id'']"
  by (rule param_route_value) (simp_all add: plain_def HTTPMethods_def)

text \<open>A wildcard route binds the rest: below its static prefix, \<open>Find\<close> puts the whole
  remaining path, slashes included, into the one parameter value.\<close>

lemma any_route_value:
  assumes "plain q" "hd q = CHR ''/''" "meth \<in> set HTTPMethods" "v \<noteq> []"
    and q: "q \<noteq> []"
  shows "\<exists>r f. Add meth (q @ ''*'') opts (Some h) NewRouter = Ret r
    \<and> Find 4 r meth (q @ v) (replicate (depth r) []) = Some (Ret (Some f, [v]))
    \<and> found_Func f = Some h \<and> pnames (found_node f) = [''_*'']"
proof -
  let ?e = "\<lparr>e_method = meth, e_opts = opts, e_h = Some h, e_kind = akind,
      e_ppath = q @ ''*'', e_pnames = [''_*'']\<rparr>"
  obtain n where n: "leaf ?e ''*'' = RouteNode n []"
    "kind_of n = akind" "pnames n = [''_*'']" "findHandler meth n = Some h"
    using leaf_node [of "''*''" ?e] assms(3) by auto
  let ?r = "\<lparr>tree = RouteNode (static_node q) [RouteNode n []], depth = 1\<rparr>"
  let ?f = "\<lparr>found_node = n, found_Func = Some h, found_Opts = findOptions meth n\<rparr>"
  have "find_run (Suc 3) meth (find_start ?r (q @ v) [[]]) = Returned (Some ?f) [v]"
  proof -
    have "find_start ?r (q @ v) [[]] = \<lparr>f_pc = AtTop, f_cn = Some (RouteNode (static_node q) [RouteNode n []]),
        f_search = q @ v, f_n = 0, f_nk = skind, f_nn = None, f_ns = [], f_pvalues = [[]]\<rparr>"
      by (simp add: find_start_def)
    moreover have "kind_of n \<noteq> skind" using n(2) by simp
    ultimately show ?thesis
      using find_run_Suc_Running [OF find_two_levels [OF static_node_simps(1)
          static_node_simps(2) [OF assms(1) q] q assms(4)], of n 3 meth "[[]]"]
        find_any_tail [OF n(2,3,4)]
      by (simp only: not_False_eq_True)
  qed
  then have "Find 4 ?r meth (q @ v) (replicate (depth ?r) []) = Some (Ret (Some ?f, [v]))"
    unfolding four by (simp add: Find_def)
  then show ?thesis
    using Add_any_new [OF assms(1,2) q, of meth opts h] n
    by (intro exI [of _ ?r] exI [of _ ?f]) simp
qed

lemma any_route_value_witness:
  "\<exists>r f. Add ''GET'' (''/files/'' @ ''*'') None (Some (7 :: nat)) (NewRouter :: (nat, nat) Router) = Ret r
    \<and> Find 4 r ''GET'' (''/files/'' @ ''a/b'') (replicate (depth r) []) = Some (Ret (Some f, [''a/b'']))
    \<and> found_Func f = Some 7 \<and> pnames (found_node f) = [''_*'']"
  by (rule any_route_value) (simp_all add: plain_def HTTPMethods_def)

text \<open>Routers of the counterexamples.\<close>

fun register_all :: "(string \<times> string \<times> nat) list \<Rightarrow> (nat, nat) Router \<Rightarrow> (nat, nat) Router outcome" where
  "register_all [] r = Ret r"
| "register_all ((m, p, h) # rs) r = bind_outcome (Add m p None (Some h) r) (register_all rs)"

definition router_of :: "(string \<times> string \<times> nat) list \<Rightarrow> (nat, nat) Router" where
  "router_of rs = (case register_all rs NewRouter of Ret r \<Rightarrow> r | Panic e \<Rightarrow> NewRouter)"

text \<open>A request as \<open>Serve\<close> makes it: the context of the router has \<open>depth\<close> values.\<close>

definition request :: "nat \<Rightarrow> (string \<times> string \<times> nat) list \<Rightarrow> string \<Rightarrow> string
    \<Rightarrow> ((nat, nat) Found option \<times> string list) outcome option" where
  "request k rs m path = (let r = router_of rs in Find k r m path (replicate (depth r) []))"

definition looping_state :: "(nat, nat) FindState" where
  "looping_state =
     (case find_run 6 ''GET'' (find_start (router_of [(''GET'', ''/:a'', 1), (''GET'', ''/x/:b/c'', 2)])
        ''/x/1/d'' [[]]) of Running s \<Rightarrow> s)"

lemma looping_state_cycles: "find_run 2 ''GET'' looping_state = Running looping_state"
  by code_simp

lemma looping_state_reached:
  "find_run 6 ''GET'' (find_start (router_of [(''GET'', ''/:a'', 1), (''GET'', ''/x/:b/c'', 2)])
     ''/x/1/d'' [[]]) = Running looping_state"
  by code_simp

text \<open>C40: A lookup need not end. With the two routes \<open>/:a\<close> and \<open>/x/:b/c\<close>, the request
  \<open>GET /x/1/d\<close> sends \<open>Find\<close> into an endless loop: it backtracks to the root to try the
  parameter there, all parameter values are used up, and the jump back to the top of the loop starts
  the same failing match again. However many steps are allowed, there is no result.\<close>

theorem find_endless_loop:
  "request k [(''GET'', ''/:a'', 1), (''GET'', ''/x/:b/c'', 2)] ''GET'' ''/x/1/d'' = None"
proof -
  let ?s = "find_start (router_of [(''GET'', ''/:a'', 1), (''GET'', ''/x/:b/c'', 2)]) ''/x/1/d'' [[]]"
  have "find_run (Suc 1) ''GET'' looping_state = Running looping_state"
    using looping_state_cycles by (simp add: numeral_2_eq_2)
  from find_run_cycle [OF this, of k] obtain s' where "find_run (6 + k) ''GET'' ?s = Running s'"
    using find_run_add [OF looping_state_reached, of k] by auto
  then obtain s'' where "find_run k ''GET'' ?s = Running s''"
    using find_run_prefix [of k 6 "''GET''" ?s s'] by (auto simp: add.commute)
  moreover have "depth (router_of [(''GET'', ''/:a'', 1), (''GET'', ''/x/:b/c'', 2)]) = 1"
    by code_simp
  ultimately show ?thesis by (simp add: request_def Let_def Find_def)
qed

text \<open>Routes with two parameters do not work, because the context has room for one value: a
  request that fits \<open>/b/:x/:y\<close> is not found although the route is registered, and a request that fits
  a parameter followed by a wildcard panics with an index out of range.\<close>

lemma second_parameter_lost:
  "request 20 [(''GET'', ''/b/:x/:y'', 1)] ''GET'' ''/b/1/2'' = Some (Ret (None, [''1'']))
   \<and> request 20 [(''GET'', ''/a/:x/*'', 1)] ''GET'' ''/a/1/foo'' = Some (Panic IndexOutOfRange)"
proof
  show "request 20 [(''GET'', ''/b/:x/:y'', 1)] ''GET'' ''/b/1/2'' = Some (Ret (None, [''1'']))"
    by code_simp
  show "request 20 [(''GET'', ''/a/:x/*'', 1)] ''GET'' ''/a/1/foo'' = Some (Panic IndexOutOfRange)"
    by code_simp
qed

text \<open>The parameter names of a path are those of its last registration, for all methods: after
  \<open>GET /u/:id\<close> and \<open>POST /u/:name\<close>, a GET request runs the GET handler with its parameter
  under the name of the POST route.\<close>

lemma names_overwritten:
  "\<exists>f. request 20 [(''GET'', ''/u/:id'', 1), (''POST'', ''/u/:name'', 2)] ''GET'' ''/u/42''
       = Some (Ret (Some f, [''42''])) \<and> found_Func f = Some 1 \<and> pnames (found_node f) = [''name'']"
proof -
  have "(case request 20 [(''GET'', ''/u/:id'', 1), (''POST'', ''/u/:name'', 2)] ''GET'' ''/u/42'' of
      Some (Ret (Some f, v)) \<Rightarrow> v = [''42''] \<and> found_Func f = Some 1 \<and> pnames (found_node f) = [''name'']
    | _ \<Rightarrow> False)"
    by code_simp
  then show ?thesis
    by (auto split: option.splits outcome.splits prod.splits)
qed

theorem static_route_found_witness:
  "\<exists>r f. register_all [(''GET'', ''/users/:id'', 7), (''GET'', ''/users/new'', 2)] NewRouter = Ret r
     \<and> Find 11 r ''GET'' ''/users/new'' [[]] = Some (Ret (Some f, [[]])) \<and> found_Func f = Some 2"
proof -
  obtain r1 :: "(nat, nat) Router" where
    r1: "Add ''GET'' ''/users/:id'' None (Some 7) NewRouter = Ret r1"
    using Add_registers [OF wf_NewRouter, of "''/users/:id''" "Some 7" "''GET''" None] by auto
  have b1: "built r1" by (rule built.add [OF built.new _ r1]) simp
  from Add_registers [OF built_wf [OF b1], of "''/users/new''" "Some 2" "''GET''" None] obtain r where
    r: "Add ''GET'' ''/users/new'' None (Some 2) r1 = Ret r"
    and reg: "registers ''GET'' None (Some 2) (rooted ''/users/new'') (pattern (rooted ''/users/new''))
      (param_names (rooted ''/users/new'')) r1 r" by auto
  have b: "built r" by (rule built.add [OF b1 _ r]) simp
  have p: "pattern (rooted ''/users/new'') = ''/users/new''" by code_simp
  have m: "''GET'' \<in> set HTTPMethods" by (simp add: HTTPMethods_def)
  have "handler_at ''GET'' ''/users/new'' r = Some 2"
    using reg m unfolding registers_def p by simp
  moreover have "plain ''/users/new''" "length ''/users/new'' < 11" by (simp_all add: plain_def)
  ultimately show ?thesis
    using static_route_found [OF b, of "''GET''" "''/users/new''" 2 11 "[[]]"] r1 r by auto
qed

end
