(* ===== verification/RouteMux.thy ===== *)
theory RouteMux
  imports RouteFind
begin

text \<open>
  Routes, their middlewares and the multiplexer: the rest of \<open>whttp/router.go\<close>
  (\<open>Exists\<close>, \<open>abandon\<close>, \<open>SetOptions\<close>, \<open>cache\<close>, \<open>BuildRoutes\<close>) and
  \<open>whttp/mux.go\<close>.

  A handler is an element of a type variable; a middleware is a tag and a function on handlers.
  The values of \<open>Options\<close> are \<open>optval\<close>. The conversion of middleware arguments
  (\<open>mconv\<close>) is the caller's: the functions here take converted middlewares.
  What \<open>Serve\<close> hands to the handler is its result.
\<close>

section \<open>Data\<close>

record 'h Middleware =
  tag :: string
  mFunc :: "'h \<Rightarrow> 'h"

datatype optval = IntV int | StrsV "string list" | MapV "string \<Rightarrow> optval option" | OtherV nat

type_synonym Options = "string \<Rightarrow> optval option"

record 'h Route =
  Method :: string
  Path :: string
  Handler :: 'h
  Middlewares :: "'h Middleware list"
  opts :: "Options option"

record 'h Mux =
  mname :: string
  middleware :: "'h Middleware list"
  notFoundHandler :: 'h
  routes :: "'h Route list"
  router :: "('h, Options) Router"

section \<open>Routes\<close>

definition Router_Exists :: "'h Route list \<Rightarrow> 'h Route \<Rightarrow> bool" where
  "Router_Exists rs route =
     (let mnp = Method route @ Path route
      in list_ex (\<lambda>rt. Method rt @ Path rt = mnp) rs)"

definition Route_use :: "'h Middleware list \<Rightarrow> 'h Route \<Rightarrow> 'h Route" where
  "Route_use ms r = r\<lparr>Middlewares := Middlewares r @ ms\<rparr>"

text \<open>The two loops of \<open>abandon\<close>: the inner one has no break.\<close>

fun abandon_flag :: "string \<Rightarrow> 'h Middleware list \<Rightarrow> bool \<Rightarrow> bool" where
  "abandon_flag t [] flag = flag"
| "abandon_flag t (m2 # ms) flag = abandon_flag t ms (if t = tag m2 then True else flag)"

fun abandon_loop :: "'h Middleware list \<Rightarrow> 'h Middleware list \<Rightarrow> 'h Middleware list \<Rightarrow> 'h Middleware list" where
  "abandon_loop [] ms mws = mws"
| "abandon_loop (m1 # rest) ms mws =
     abandon_loop rest ms (if \<not> abandon_flag (tag m1) ms False then mws @ [m1] else mws)"

definition Route_abandon :: "'h Middleware list \<Rightarrow> 'h Route \<Rightarrow> 'h Route" where
  "Route_abandon ms r = r\<lparr>Middlewares := abandon_loop (Middlewares r) ms []\<rparr>"

definition Route_SetOptions :: "string \<Rightarrow> optval \<Rightarrow> 'h Route \<Rightarrow> 'h Route" where
  "Route_SetOptions key value r =
     (let m = (case opts r of None \<Rightarrow> Map.empty | Some m \<Rightarrow> m)
      in r\<lparr>opts := Some (m(key \<mapsto> value))\<rparr>)"

text \<open>The arguments of \<open>cache\<close> are looked at by position, with a type assertion each.\<close>

definition Route_cache :: "optval list \<Rightarrow> 'h Route \<Rightarrow> 'h Route" where
  "Route_cache os r =
     (let ol = length os;
          ttl = (if ol \<ge> 1 then (case os ! 0 of IntV es \<Rightarrow> if es > 0 then es else 180 | _ \<Rightarrow> 180) else 180);
          params = (if ol \<ge> 2 then (case os ! 1 of StrsV ps \<Rightarrow> if length ps > 0 then ps else [] | _ \<Rightarrow> []) else []);
          headers = (if ol \<ge> 3 then (case os ! 2 of StrsV hs \<Rightarrow> if length hs > 0 then hs else [] | _ \<Rightarrow> []) else [])
      in Route_SetOptions ''cache''
           (MapV (Map.empty(''ttl'' \<mapsto> IntV ttl, ''params'' \<mapsto> StrsV params, ''headers'' \<mapsto> StrsV headers))) r)"

definition Routes_Use :: "'h Middleware list \<Rightarrow> 'h Route list \<Rightarrow> 'h Route list" where
  "Routes_Use ms = map (Route_use ms)"

definition Routes_Abandon :: "'h Middleware list \<Rightarrow> 'h Route list \<Rightarrow> 'h Route list" where
  "Routes_Abandon ms = map (Route_abandon ms)"

definition Routes_SetOptions :: "string \<Rightarrow> optval \<Rightarrow> 'h Route list \<Rightarrow> 'h Route list" where
  "Routes_SetOptions key value = map (Route_SetOptions key value)"

definition Routes_Cache :: "optval list \<Rightarrow> 'h Route list \<Rightarrow> 'h Route list" where
  "Routes_Cache os = map (Route_cache os)"

section \<open>BuildRoutes\<close>

text \<open>The loop over the middlewares from the last to the first; \<open>aum\<close> holds the tags used.\<close>

fun chain_loop :: "'h Middleware list \<Rightarrow> string list \<Rightarrow> 'h \<Rightarrow> 'h" where
  "chain_loop [] aum h = h"
| "chain_loop (m # rest) aum h =
     (if \<not> InSliceIgnorecase (tag m) aum then chain_loop rest (aum @ [tag m]) (mFunc m h)
      else chain_loop rest aum h)"

definition build_chain :: "'h Middleware list \<Rightarrow> 'h \<Rightarrow> 'h" where
  "build_chain ms h = chain_loop (rev ms) [] h"

fun add_routes :: "'h Route list \<Rightarrow> ('h, Options) Router \<Rightarrow> ('h, Options) Router outcome" where
  "add_routes [] r = Ret r"
| "add_routes (rt # rs) r =
     bind_outcome (Add (Method rt) (Path rt) (opts rt) (Some (build_chain (Middlewares rt) (Handler rt))) r)
       (add_routes rs)"

text \<open>\<open>BuildRoutes\<close>; \<open>proxy\<close> is the middleware function of \<open>Proxy()\<close>.\<close>

definition BuildRoutes :: "('h \<Rightarrow> 'h) \<Rightarrow> 'h Mux \<Rightarrow> 'h Mux outcome" where
  "BuildRoutes proxy m =
     (let nh = build_chain (middleware m) (proxy (notFoundHandler m))
      in bind_outcome (add_routes (routes m) (router m))
           (\<lambda>r. Ret (m\<lparr>notFoundHandler := nh, router := r\<rparr>)))"

section \<open>The multiplexer\<close>

definition NewMux :: "string \<Rightarrow> 'h \<Rightarrow> 'h Mux" where
  "NewMux name methodNotAllowed =
     \<lparr>mname = name, middleware = [], notFoundHandler = methodNotAllowed, routes = [], router = NewRouter\<rparr>"

definition Mux_Use :: "'h Middleware list \<Rightarrow> 'h Mux \<Rightarrow> 'h Mux" where
  "Mux_Use ms m = m\<lparr>middleware := middleware m @ ms\<rparr>"

definition Mux_NotFound :: "'h \<Rightarrow> 'h Mux \<Rightarrow> 'h Mux" where
  "Mux_NotFound h m = m\<lparr>notFoundHandler := h\<rparr>"

definition Mux_Abandon :: "'h Middleware list \<Rightarrow> 'h Mux \<Rightarrow> 'h Mux" where
  "Mux_Abandon ms m = m\<lparr>middleware := filter (\<lambda>m1. \<not> list_ex (\<lambda>m2. tag m1 = tag m2) ms) (middleware m)\<rparr>"

definition Mux_Add :: "string \<Rightarrow> string \<Rightarrow> 'h \<Rightarrow> 'h Middleware list \<Rightarrow> 'h Mux \<Rightarrow> 'h Mux" where
  "Mux_Add meth path handler ms m =
     (let wms = (if length (middleware m) > 0 then middleware m @ ms else [])
      in m\<lparr>routes := routes m @ [\<lparr>Method = meth, Path = path, Handler = handler, Middlewares = wms, opts = None\<rparr>]\<rparr>)"

text \<open>The method of a POST request may be overridden by a query parameter.\<close>

definition effective_method :: "string \<Rightarrow> string \<Rightarrow> string" where
  "effective_method meth query_method =
     (if meth = ''POST'' then
        (let pm = to_upper query_method
         in if pm = ''PATCH'' \<or> pm = ''DELETE'' \<or> pm = ''OPTIONS'' \<or> pm = ''TRACE'' \<or> pm = ''PUT''
            then pm else meth)
      else meth)"

record 'h Served =
  s_handler :: 'h
  s_path :: string
  s_names :: "string list"
  s_pvalues :: "string list"

text \<open>\<open>Serve\<close>: the handler that is called and what the context tells it; \<open>k\<close> bounds the
  steps of \<open>Find\<close>. The context comes from the pool with the parameter values \<open>pv0\<close>.\<close>

definition Serve :: "nat \<Rightarrow> 'h Mux \<Rightarrow> string \<Rightarrow> string \<Rightarrow> string \<Rightarrow> string list
    \<Rightarrow> 'h Served outcome option" where
  "Serve k m meth query_method path pv0 =
     map_option (\<lambda>r. bind_outcome r (\<lambda>(node, pv).
        Ret (case node of
               None \<Rightarrow> \<lparr>s_handler = notFoundHandler m, s_path = [], s_names = [], s_pvalues = pv\<rparr>
             | Some f \<Rightarrow>
                 \<lparr>s_handler = (case found_Func f of Some h \<Rightarrow> h | None \<Rightarrow> notFoundHandler m),
                  s_path = ppath (found_node f), s_names = pnames (found_node f), s_pvalues = pv\<rparr>)))
     (Find k (router m) (effective_method meth query_method) path pv0)"

section \<open>Middleware chains\<close>

lemma InSlice_iff: "InSliceIgnorecase v sl \<longleftrightarrow> to_lower v \<in> to_lower ` set sl"
  by (induction sl) auto

lemma abandon_flag_iff: "abandon_flag t ms flag \<longleftrightarrow> flag \<or> t \<in> tag ` set ms"
  by (induction ms arbitrary: flag) auto

lemma abandon_loop_filter: "abandon_loop xs ms mws = mws @ filter (\<lambda>m. tag m \<notin> tag ` set ms) xs"
  by (induction xs arbitrary: mws) (auto simp: abandon_flag_iff)

definition low :: "'h Middleware \<Rightarrow> string" where
  "low m = to_lower (tag m)"

text \<open>The middlewares that take effect: of each tag, read without case, the last one.\<close>

fun effective :: "'h Middleware list \<Rightarrow> 'h Middleware list" where
  "effective [] = []"
| "effective (m # ms) = (if low m \<in> low ` set ms then effective ms else m # effective ms)"

lemma effective_tags: "low ` set (effective ms) = low ` set ms"
  by (induction ms) auto

lemma effective_distinct: "distinct (map low (effective ms))"
  by (induction ms) (auto simp: effective_tags)

lemma effective_last:
  "m \<in> set (effective ms) \<Longrightarrow> \<exists>pre post. ms = pre @ m # post \<and> low m \<notin> low ` set post"
proof (induction ms)
  case (Cons x ms)
  show ?case
  proof (cases "m \<in> set (effective ms)")
    case True
    with Cons.IH obtain pre post where "ms = pre @ m # post" "low m \<notin> low ` set post" by blast
    then show ?thesis by (intro exI [of _ "x # pre"] exI [of _ post]) simp
  next
    case False
    with Cons.prems have "m = x" "low x \<notin> low ` set ms" by (auto split: if_splits)
    then show ?thesis by (intro exI [of _ "[]"] exI [of _ ms]) simp
  qed
qed simp

text \<open>The loop over the reversed list keeps the first of each tag.\<close>

fun keep_first :: "'h Middleware list \<Rightarrow> string set \<Rightarrow> 'h Middleware list" where
  "keep_first [] S = []"
| "keep_first (m # ms) S = (if low m \<in> S then keep_first ms S else m # keep_first ms (insert (low m) S))"

lemma keep_first_append: "keep_first (xs @ ys) S = keep_first xs S @ keep_first ys (S \<union> low ` set xs)"
  by (induction xs arbitrary: S) (auto simp: insert_absorb)

lemma keep_first_rev: "rev (keep_first (rev ms) {}) = effective ms"
  by (induction ms) (auto simp: keep_first_append)

lemma chain_loop_fold:
  "chain_loop xs aum h = fold mFunc (keep_first xs (to_lower ` set aum)) h"
  by (induction xs arbitrary: aum h) (auto simp: InSlice_iff low_def)

lemma build_chain_effective: "build_chain ms h = foldr mFunc (effective ms) h"
  by (simp add: build_chain_def chain_loop_fold foldr_conv_fold keep_first_rev [symmetric])

section \<open>Built multiplexers\<close>

text \<open>The handler that the routes register for a method at a stored path: of the last such route.\<close>

definition route_fits :: "string \<Rightarrow> string \<Rightarrow> 'h Route \<Rightarrow> bool" where
  "route_fits m p rt \<longleftrightarrow> Method rt = m \<and> pattern (rooted (Path rt)) = p"

definition route_handler :: "'h Route \<Rightarrow> 'h" where
  "route_handler rt = foldr mFunc (effective (Middlewares rt)) (Handler rt)"

lemma add_routes_ok:
  assumes "built r" "\<forall>rt \<in> set rs. Path rt \<noteq> []"
  shows "\<exists>r'. add_routes rs r = Ret r' \<and> built r' \<and> (\<forall>m p. m \<in> set HTTPMethods \<longrightarrow>
    handler_at m p r' = (case find (route_fits m p) (rev rs) of
        Some rt \<Rightarrow> Some (route_handler rt) | None \<Rightarrow> handler_at m p r))"
  using assms
proof (induction rs arbitrary: r)
  case (Cons rt rs)
  let ?h = "build_chain (Middlewares rt) (Handler rt)"
  from Add_registers [OF built_wf [OF Cons.prems(1)], of "Path rt" "Some ?h" "Method rt" "opts rt"] Cons.prems(2)
  obtain r1 where r1: "Add (Method rt) (Path rt) (opts rt) (Some ?h) r = Ret r1"
    and reg: "registers (Method rt) (opts rt) (Some ?h) (rooted (Path rt)) (pattern (rooted (Path rt)))
      (param_names (rooted (Path rt))) r r1" by auto
  have "built r1" by (rule built.add [OF Cons.prems(1) _ r1]) (use Cons.prems(2) in simp)
  with Cons.IH [of r1] Cons.prems(2) obtain r' where r': "add_routes rs r1 = Ret r'" "built r'"
    and h: "\<forall>m p. m \<in> set HTTPMethods \<longrightarrow>
      handler_at m p r' = (case find (route_fits m p) (rev rs) of
        Some rt \<Rightarrow> Some (route_handler rt) | None \<Rightarrow> handler_at m p r1)" by auto
  have "handler_at m p r1 = (if route_fits m p rt then Some (route_handler rt) else handler_at m p r)"
    if "m \<in> set HTTPMethods" for m p
    using reg that by (auto simp: registers_def route_fits_def route_handler_def build_chain_effective)
  with r1 r' h show ?case
    by (auto simp: find_append split: option.splits)
qed simp

section \<open>Properties\<close>

text \<open>Each middleware takes effect once. The handler that \<open>BuildRoutes\<close> makes from a
  list of middlewares is the composition, outermost first, of a sublist in which no two tags agree
  without regard to case and every tag of the list is represented, each by its last occurrence.\<close>

lemma build_chain_once:
  "build_chain ms h = foldr mFunc (effective ms) h \<and> distinct (map low (effective ms))
   \<and> low ` set (effective ms) = low ` set ms
   \<and> (\<forall>m. m \<in> set (effective ms) \<longrightarrow> (\<exists>pre post. ms = pre @ m # post \<and> low m \<notin> low ` set post))"
  by (simp add: build_chain_effective effective_distinct effective_tags effective_last)

lemma build_chain_once_witness:
  "build_chain [\<lparr>tag = ''Log'', mFunc = (\<lambda>n. n + 1)\<rparr>, \<lparr>tag = ''auth'', mFunc = (\<lambda>n. 3 * n)\<rparr>,
     \<lparr>tag = ''log'', mFunc = (\<lambda>n. n + 10)\<rparr>] (2 :: nat) = 36"
proof -
  let ?ms = "[\<lparr>tag = ''Log'', mFunc = (\<lambda>n. n + 1)\<rparr>, \<lparr>tag = ''auth'', mFunc = (\<lambda>n. 3 * n)\<rparr>,
     \<lparr>tag = ''log'', mFunc = (\<lambda>n. n + 10)\<rparr>] :: nat Middleware list"
  have "build_chain ?ms 2 = foldr mFunc (effective ?ms) 2"
    by (rule conjunct1 [OF build_chain_once])
  moreover have "to_lower ''Log'' = ''log''" "to_lower ''log'' = ''log''" "to_lower ''auth'' = ''auth''"
    by code_simp+
  ultimately show ?thesis by (simp add: low_def)
qed

text \<open>C37: A registered static route is served by its handler. After \<open>BuildRoutes\<close>, a request
  for a path without colon and star runs the handler of the last route registered for the effective
  method and that path, wrapped in the effective middlewares of that route, whatever other routes,
  with parameters or wildcards, are registered.\<close>

theorem serve_static_route:
  assumes "built (router m)" "\<forall>rt \<in> set (routes m). Path rt \<noteq> []"
    and "find (route_fits (effective_method meth query) path) (rev (routes m)) = Some rt"
    and "effective_method meth query \<in> set HTTPMethods" "plain path" "length path < k"
  shows "\<exists>m' s. BuildRoutes proxy m = Ret m' \<and> Serve k m' meth query path pv = Some (Ret s)
    \<and> s_handler s = foldr mFunc (effective (Middlewares rt)) (Handler rt) \<and> s_pvalues s = pv"
proof -
  from add_routes_ok [OF assms(1,2)] obtain r' where r': "add_routes (routes m) (router m) = Ret r'" "built r'"
    and h: "handler_at (effective_method meth query) path r' = Some (route_handler rt)"
    using assms(3,4) by (auto split: option.splits)
  from static_route_found [OF r'(2) h assms(5,6), of pv] obtain f where
    "Find k r' (effective_method meth query) path pv = Some (Ret (Some f, pv))"
    "found_Func f = Some (route_handler rt)" by blast
  with r'(1) show ?thesis
    by (simp add: BuildRoutes_def Serve_def route_handler_def)
qed

theorem serve_static_route_witness:
  "\<exists>m' s. BuildRoutes id \<lparr>mname = ''standard'', middleware = [], notFoundHandler = 0 :: nat,
       routes = [\<lparr>Method = ''PUT'', Path = ''/a'', Handler = 5, Middlewares = [], opts = None\<rparr>],
       router = NewRouter\<rparr> = Ret m'
     \<and> Serve 3 m' ''POST'' ''put'' ''/a'' [] = Some (Ret s) \<and> s_handler s = 5"
proof -
  let ?m = "\<lparr>mname = ''standard'', middleware = [], notFoundHandler = 0 :: nat,
       routes = [\<lparr>Method = ''PUT'', Path = ''/a'', Handler = 5, Middlewares = [], opts = None\<rparr>],
       router = NewRouter\<rparr>"
  let ?rt = "\<lparr>Method = ''PUT'', Path = ''/a'', Handler = 5 :: nat, Middlewares = [], opts = None\<rparr>"
  have e: "effective_method ''POST'' ''put'' = ''PUT''" by code_simp
  have p: "pattern (rooted ''/a'') = ''/a''" by code_simp
  have "find (route_fits (effective_method ''POST'' ''put'') ''/a'') (rev (routes ?m)) = Some ?rt"
    by (simp add: e p route_fits_def)
  moreover have "effective_method ''POST'' ''put'' \<in> set HTTPMethods" by (simp add: e HTTPMethods_def)
  moreover have "built (router ?m)" by (simp add: built.new)
  ultimately show ?thesis
    using serve_static_route [of ?m "''POST''" "''put''" "''/a''" ?rt 3 id "[]"]
    by (auto simp: plain_def)
qed

text \<open>A route's own middlewares get lost on a multiplexer that has none itself: \<open>Mux.Add\<close>
  appends them only when the multiplexer already has a middleware.\<close>

theorem Mux_Add_drops_middlewares:
  assumes "middleware m = []"
  shows "routes (Mux_Add meth path handler ms m)
    = routes m @ [\<lparr>Method = meth, Path = path, Handler = handler, Middlewares = [], opts = None\<rparr>]"
  using assms by (simp add: Mux_Add_def)

theorem Mux_Add_drops_middlewares_witness:
  "Middlewares (hd (routes (Mux_Add ''GET'' ''/'' 1 [\<lparr>tag = ''auth'', mFunc = (\<lambda>n. n + 1)\<rparr>]
     (NewMux ''standard'' (0 :: nat))))) = []"
  using Mux_Add_drops_middlewares [of "NewMux ''standard'' (0 :: nat)" "''GET''" "''/''" 1
      "[\<lparr>tag = ''auth'', mFunc = (\<lambda>n. n + 1)\<rparr>]"]
  by (simp add: NewMux_def)

end
