(* ===== verification/WorkJob.thy ===== *)
theory WorkJob
  imports Prelude
begin

text \<open>
  Jobs and their handlers: the first half of \<open>work.go\<close>, with the errors of
  \<open>server/error.go\<close> that a job is answered with.

  Contexts and jobs are shared objects in Go: they live in a \<open>World\<close>, and a pointer is an index of its
  lists. A handler is given a context and acts on the world; \<open>c.Job()\<close> is read when it
  is called. A value of Go's \<open>interface{}\<close> is nil, an error or another value.
  \<open>json.Marshal\<close> of the lists of requests is the parameter \<open>marshal\<close>. The times and the user of a log line,
  and the number \<open>sn\<close> of a worker, are left out.
\<close>

section \<open>Errors\<close>

record ServerError =
  Code :: int
  Message :: string

datatype go_error = GoErr string | ServerErr ServerError

definition ServerError_Error :: "ServerError \<Rightarrow> string" where
  "ServerError_Error e = Message e @ ''('' @ itoa (Code e) @ '')''"

fun error_text :: "go_error \<Rightarrow> string" where
  "error_text (GoErr m) = m"
| "error_text (ServerErr e) = ServerError_Error e"

definition ServerError_Status :: "ServerError \<Rightarrow> int" where
  "ServerError_Status e = Code e"

text \<open>
  Go divides towards zero. \<open>status_text\<close> is \<open>http.StatusText\<close>, empty for an unknown code.
\<close>

definition HTTPStatusCode :: "(int \<Rightarrow> string) \<Rightarrow> ServerError \<Rightarrow> int" where
  "HTTPStatusCode status_text e =
     (let sc = (if 0 \<le> Code e then Code e div 1000 else - ((- Code e) div 1000))
      in if status_text sc \<noteq> [] then sc
         else if status_text (Code e) \<noteq> [] then Code e else 0)"

text \<open>The optional message is a string, an error, or a value already printed by \<open>fmt.Sprint\<close>.\<close>

datatype error_message = MsgString string | MsgError go_error | MsgPrinted string

fun NewError :: "(int \<Rightarrow> string) \<Rightarrow> int \<Rightarrow> error_message list \<Rightarrow> ServerError" where
  "NewError status_text code (MsgString m # ms) = \<lparr>Code = code, Message = m\<rparr>"
| "NewError status_text code (MsgError e # ms) = \<lparr>Code = code, Message = error_text e\<rparr>"
| "NewError status_text code (MsgPrinted m # ms) = \<lparr>Code = code, Message = m\<rparr>"
| "NewError status_text code [] =
     (let e = \<lparr>Code = code, Message = []\<rparr>; sc = HTTPStatusCode status_text e
      in if 0 < sc then e\<lparr>Message := status_text sc\<rparr> else e)"

fun WrapError :: "go_error \<Rightarrow> ServerError" where
  "WrapError (ServerErr e) = e"
| "WrapError (GoErr m) = \<lparr>Code = 400, Message = m\<rparr>"

definition ErrorCode :: "go_error \<Rightarrow> int" where
  "ErrorCode err = (case err of ServerErr e \<Rightarrow> ServerError_Status e | _ \<Rightarrow> - 1)"

section \<open>Jobs and contexts\<close>

datatype 'p iface = INil | IErr go_error | IVal 'p

record 'p Job =
  j_id :: string
  j_context :: nat
  j_work :: string
  j_meth :: string
  j_payload :: "'p iface"
  j_opts :: "'p iface list"
  j_result :: "'p iface"
  j_ext :: "'p iface"
  j_req :: "'p iface list option"
  j_resp :: "'p iface list option"
  j_err :: "ServerError option"
  j_response :: "'p iface list"

record Ctx =
  c_job :: "nat option"
  c_reqID :: string

text \<open>A line of the access log: endpoint, description, and the two optional texts.\<close>

type_synonym access_line = "string \<times> string \<times> string \<times> string"

record 'p World =
  ctxs :: "Ctx list"
  jobs :: "'p Job list"
  access_log :: "access_line list"

abbreviation job :: "'p World \<Rightarrow> nat \<Rightarrow> 'p Job" where
  "job w j \<equiv> jobs w ! j"

definition on_job :: "nat \<Rightarrow> ('p Job \<Rightarrow> 'p Job) \<Rightarrow> 'p World \<Rightarrow> 'p World" where
  "on_job j f w = w\<lparr>jobs := (jobs w)[j := f (jobs w ! j)]\<rparr>"

definition Job_Error :: "nat \<Rightarrow> go_error \<Rightarrow> 'p World \<Rightarrow> 'p World" where
  "Job_Error j e = on_job j (\<lambda>x. x\<lparr>j_err := Some (WrapError e)\<rparr>)"

definition SetResult :: "nat \<Rightarrow> 'p iface \<Rightarrow> 'p World \<Rightarrow> 'p World" where
  "SetResult j i = on_job j (\<lambda>x. x\<lparr>j_result := i\<rparr>)"

definition Job_SetExt :: "nat \<Rightarrow> 'p iface \<Rightarrow> 'p World \<Rightarrow> 'p World" where
  "Job_SetExt j i = on_job j (\<lambda>x. x\<lparr>j_ext := i\<rparr>)"

definition Continue :: "nat \<Rightarrow> 'p World \<Rightarrow> 'p World" where
  "Continue j = on_job j (\<lambda>x. x\<lparr>j_payload := j_result x, j_result := INil\<rparr>)"

text \<open>Appending to a nil slice makes a slice.\<close>

definition append_opt :: "'a list option \<Rightarrow> 'a \<Rightarrow> 'a list option" where
  "append_opt xs x = Some (case xs of None \<Rightarrow> [x] | Some ys \<Rightarrow> ys @ [x])"

definition SaveReq :: "nat \<Rightarrow> 'p iface \<Rightarrow> 'p World \<Rightarrow> 'p World" where
  "SaveReq j i = on_job j (\<lambda>x. x\<lparr>j_req := append_opt (j_req x) i\<rparr>)"

definition SaveResp :: "nat \<Rightarrow> 'p iface \<Rightarrow> 'p World \<Rightarrow> 'p World" where
  "SaveResp j i = on_job j (\<lambda>x. x\<lparr>j_resp := append_opt (j_resp x) i\<rparr>)"

definition logged_list :: "('p iface list \<Rightarrow> string option) \<Rightarrow> 'p iface list option \<Rightarrow> string" where
  "logged_list marshal xs =
     (case xs of None \<Rightarrow> [] | Some ys \<Rightarrow> (case marshal ys of None \<Rightarrow> [] | Some s \<Rightarrow> s))"

definition SaveAccessLog :: "('p iface list \<Rightarrow> string option) \<Rightarrow> nat \<Rightarrow> 'p World \<Rightarrow> 'p World" where
  "SaveAccessLog marshal j w =
     (let x = job w j;
          line = (j_work x, j_meth x, logged_list marshal (j_req x), logged_list marshal (j_resp x))
      in (on_job j (\<lambda>x. x\<lparr>j_req := None, j_resp := None\<rparr>) w)
           \<lparr>access_log := access_log w @ [line]\<rparr>)"

text \<open>
  The channel of a job holds one answer; a second send blocks, which is \<open>None\<close>.
\<close>

definition Job_answer :: "'p Job \<Rightarrow> 'p iface" where
  "Job_answer x = (case j_err x of Some e \<Rightarrow> IErr (ServerErr e) | None \<Rightarrow> j_result x)"

definition Response :: "('p iface list \<Rightarrow> string option) \<Rightarrow> nat \<Rightarrow> 'p World \<Rightarrow> 'p World option" where
  "Response marshal j w =
     (let w1 = SaveAccessLog marshal j w
      in if j_response (job w1 j) \<noteq> [] then None
         else Some (on_job j (\<lambda>x. x\<lparr>j_response := [Job_answer x]\<rparr>) w1))"

text \<open>\<open>c.NewJob\<close>; \<open>rid\<close> is the random identifier taken when the context has none.\<close>

definition NewJob :: "nat \<Rightarrow> string \<Rightarrow> string \<Rightarrow> 'p iface \<Rightarrow> 'p iface list \<Rightarrow> string
    \<Rightarrow> 'p World \<Rightarrow> nat \<times> 'p World" where
  "NewJob c name meth pl opts rid w =
     (let j = length (jobs w);
          i = (if c_reqID (ctxs w ! c) = [] then rid else c_reqID (ctxs w ! c));
          x = \<lparr>j_id = i, j_context = c, j_work = name, j_meth = meth, j_payload = pl, j_opts = opts,
               j_result = INil, j_ext = INil, j_req = Some [], j_resp = Some [], j_err = None,
               j_response = []\<rparr>
      in (j, w\<lparr>jobs := jobs w @ [x], ctxs := (ctxs w)[c := (ctxs w ! c)\<lparr>c_job := Some j\<rparr>]\<rparr>))"

text \<open>\<open>NewContext\<close> followed by \<open>SetRequestID\<close>, as the functions of the package do.\<close>

definition NewContext :: "string \<Rightarrow> 'p World \<Rightarrow> nat \<times> 'p World" where
  "NewContext rid w = (length (ctxs w), w\<lparr>ctxs := ctxs w @ [\<lparr>c_job = None, c_reqID = rid\<rparr>]\<rparr>)"

section \<open>Handlers\<close>

datatype hresult = HOk | HErr go_error | HPanic go_error

type_synonym 'p handler = "nat \<Rightarrow> 'p World \<Rightarrow> 'p World \<times> hresult"

record 'p JobRoute =
  jr_meth :: string
  jr_middlewares :: "('p handler \<Rightarrow> 'p handler) list"
  jr_handlers :: "'p handler list"

definition JobRoute_Use :: "('p handler \<Rightarrow> 'p handler) \<Rightarrow> 'p JobRoute \<Rightarrow> 'p JobRoute" where
  "JobRoute_Use m jr = jr\<lparr>jr_middlewares := jr_middlewares jr @ [m]\<rparr>"

definition nil_deref :: go_error where
  "nil_deref = GoErr ''runtime error: invalid memory address or nil pointer dereference''"

text \<open>\<open>this.Chain(next)\<close>; without a job in the context, \<open>c.Job()\<close> is nil and its use panics.\<close>

definition Chain :: "('p iface list \<Rightarrow> string option) \<Rightarrow> 'p handler \<Rightarrow> 'p handler \<Rightarrow> 'p handler" where
  "Chain marshal this next_handler c w =
     (case this c w of
        (w1, HOk) \<Rightarrow>
          (case c_job (ctxs w1 ! c) of
             None \<Rightarrow> (w1, HPanic nil_deref)
           | Some j \<Rightarrow> next_handler c (Continue j (SaveAccessLog marshal j w1)))
      | r \<Rightarrow> r)"

definition jobHandler :: "('p iface list \<Rightarrow> string option) \<Rightarrow> 'p JobRoute \<Rightarrow> 'p handler" where
  "jobHandler marshal route =
     foldr (\<lambda>m h. m h) (jr_middlewares route)
       (foldl (Chain marshal) (hd (jr_handlers route)) (tl (jr_handlers route)))"

text \<open>
  \<open>hf.Do(j)\<close>. A nil function panics when called. A panic of the handler is recovered, and the job
  is answered with it.
\<close>

definition Do :: "('p iface list \<Rightarrow> string option) \<Rightarrow> 'p handler option \<Rightarrow> nat \<Rightarrow> 'p World \<Rightarrow> 'p World option" where
  "Do marshal hf j w =
     (case (case hf of None \<Rightarrow> (w, HPanic nil_deref) | Some h \<Rightarrow> h (j_context (job w j)) w) of
        (w1, HOk) \<Rightarrow> Response marshal j w1
      | (w1, HErr e) \<Rightarrow> Response marshal j (Job_Error j e w1)
      | (w1, HPanic e) \<Rightarrow> Response marshal j (Job_Error j e w1))"

text \<open>The handler that a worker picks for a job.\<close>

definition worker_handler :: "('p iface list \<Rightarrow> string option) \<Rightarrow> 'p handler option
    \<Rightarrow> (string \<Rightarrow> 'p JobRoute option) \<Rightarrow> 'p Job \<Rightarrow> 'p handler option" where
  "worker_handler marshal dflt routes x =
     (if j_meth x \<noteq> [] then
        (case routes (j_meth x) of
           Some route \<Rightarrow> if 0 < length (jr_handlers route) then Some (jobHandler marshal route) else dflt
         | None \<Rightarrow> dflt)
      else dflt)"

definition run_job :: "('p iface list \<Rightarrow> string option) \<Rightarrow> 'p handler option
    \<Rightarrow> (string \<Rightarrow> 'p JobRoute option) \<Rightarrow> nat \<Rightarrow> 'p World \<Rightarrow> 'p World option" where
  "run_job marshal dflt routes j w = Do marshal (worker_handler marshal dflt routes (job w j)) j w"

definition Pool_Add :: "string \<Rightarrow> 'p handler list \<Rightarrow> (string \<Rightarrow> 'p JobRoute option)
    \<Rightarrow> (string \<Rightarrow> 'p JobRoute option)" where
  "Pool_Add meth handlers routes =
     routes(meth \<mapsto> \<lparr>jr_meth = meth, jr_middlewares = [], jr_handlers = handlers\<rparr>)"

text \<open>What \<open>req\<close> returns for a received answer.\<close>

definition req_return :: "'p iface \<Rightarrow> 'p iface \<times> go_error option" where
  "req_return v = (case v of IErr e \<Rightarrow> (INil, Some e) | _ \<Rightarrow> (v, None))"

section \<open>What a handler computes\<close>

datatype 'p step_result = SOk "'p iface" | SErr go_error | SPanic go_error

fun result_of :: "'p step_result \<Rightarrow> hresult" where
  "result_of (SOk v) = HOk"
| "result_of (SErr e) = HErr e"
| "result_of (SPanic e) = HPanic e"

fun then_step :: "'p step_result \<Rightarrow> ('p iface \<Rightarrow> 'p step_result) \<Rightarrow> 'p step_result" where
  "then_step (SOk v) f = f v"
| "then_step r f = r"

fun run_steps :: "('p iface \<Rightarrow> 'p step_result) list \<Rightarrow> 'p iface \<Rightarrow> 'p step_result" where
  "run_steps [] p = SOk p"
| "run_steps (f # fs) p = then_step (f p) (run_steps fs)"

fun guarded :: "('p iface \<Rightarrow> go_error option) list \<Rightarrow> ('p iface \<Rightarrow> 'p step_result) \<Rightarrow> 'p iface \<Rightarrow> 'p step_result" where
  "guarded [] f p = f p"
| "guarded (g # gs) f p = (case g p of Some e \<Rightarrow> SErr e | None \<Rightarrow> guarded gs f p)"

fun answer_of :: "'p step_result \<Rightarrow> 'p iface" where
  "answer_of (SOk v) = v"
| "answer_of (SErr e) = IErr (ServerErr (WrapError e))"
| "answer_of (SPanic e) = IErr (ServerErr (WrapError e))"

text \<open>A change of the world that touches nothing of job \<open>j\<close> but what handlers may change.\<close>

definition only_job :: "nat \<Rightarrow> 'p World \<Rightarrow> 'p World \<Rightarrow> bool" where
  "only_job j w w' \<longleftrightarrow> ctxs w' = ctxs w \<and>
     (\<exists>x. jobs w' = (jobs w)[j := x] \<and> j_context x = j_context (job w j) \<and>
          j_response x = j_response (job w j) \<and> j_err x = j_err (job w j))"

text \<open>
  A handler that computes \<open>f\<close>: it reads the payload of the job in its context, and leaves the
  value of \<open>f\<close> as the result of that job.
\<close>

definition implements :: "'p handler \<Rightarrow> ('p iface \<Rightarrow> 'p step_result) \<Rightarrow> bool" where
  "implements h f \<longleftrightarrow>
     (\<forall>c j w. c_job (ctxs w ! c) = Some j \<longrightarrow> j < length (jobs w) \<longrightarrow>
        (\<exists>w'. h c w = (w', result_of (f (j_payload (job w j)))) \<and> only_job j w w' \<and>
              (\<forall>v. f (j_payload (job w j)) = SOk v \<longrightarrow> j_result (job w' j) = v)))"

definition step_handler :: "('p iface \<Rightarrow> 'p step_result) \<Rightarrow> 'p handler" where
  "step_handler f c w =
     (case c_job (ctxs w ! c) of
        None \<Rightarrow> (w, HPanic nil_deref)
      | Some j \<Rightarrow>
          (case f (j_payload (job w j)) of
             SOk v \<Rightarrow> (SetResult j v w, HOk)
           | r \<Rightarrow> (w, result_of r)))"

definition guard_middleware :: "('p iface \<Rightarrow> go_error option) \<Rightarrow> 'p handler \<Rightarrow> 'p handler" where
  "guard_middleware g h c w =
     (case c_job (ctxs w ! c) of
        None \<Rightarrow> (w, HPanic nil_deref)
      | Some j \<Rightarrow> (case g (j_payload (job w j)) of Some e \<Rightarrow> (w, HErr e) | None \<Rightarrow> h c w))"

lemma implementsI:
  assumes "\<And>c j w. c_job (ctxs w ! c) = Some j \<Longrightarrow> j < length (jobs w) \<Longrightarrow>
     \<exists>w'. h c w = (w', result_of (f (j_payload (job w j)))) \<and> only_job j w w' \<and>
       (\<forall>v. f (j_payload (job w j)) = SOk v \<longrightarrow> j_result (job w' j) = v)"
  shows "implements h f"
  using assms unfolding implements_def by blast

lemma implementsE:
  assumes "implements h f" "c_job (ctxs w ! c) = Some j" "j < length (jobs w)"
  obtains w' where "h c w = (w', result_of (f (j_payload (job w j))))" "only_job j w w'"
    "\<And>v. f (j_payload (job w j)) = SOk v \<Longrightarrow> j_result (job w' j) = v"
  using assms unfolding implements_def by blast

lemma only_job_refl [simp]: "only_job j w w"
  unfolding only_job_def by (metis list_update_id)

lemma only_job_on_job [intro]:
  assumes "\<And>x. j_context (f x) = j_context x" "\<And>x. j_response (f x) = j_response x"
    "\<And>x. j_err (f x) = j_err x"
  shows "only_job j w (on_job j f w)"
  using assms unfolding only_job_def on_job_def by (intro conjI exI [of _ "f (job w j)"]) auto

lemma only_job_trans:
  assumes "only_job j w1 w2" "only_job j w2 w3" "j < length (jobs w1)"
  shows "only_job j w1 w3"
  using assms unfolding only_job_def by auto

lemma only_job_length: "only_job j w w' \<Longrightarrow> length (jobs w') = length (jobs w)"
  unfolding only_job_def by auto

lemma only_job_ctxs: "only_job j w w' \<Longrightarrow> ctxs w' = ctxs w"
  unfolding only_job_def by simp

lemma only_job_SaveAccessLog: "only_job j w (SaveAccessLog marshal j w)"
  unfolding only_job_def SaveAccessLog_def on_job_def Let_def
  by (intro conjI exI [of _ "(job w j)\<lparr>j_req := None, j_resp := None\<rparr>"]) auto

lemma only_job_Continue: "only_job j w (Continue j w)"
  unfolding Continue_def by (rule only_job_on_job) auto

lemma Continue_SaveAccessLog_payload:
  "j < length (jobs w) \<Longrightarrow> j_payload (job (Continue j (SaveAccessLog marshal j w)) j) = j_result (job w j)"
  unfolding Continue_def SaveAccessLog_def on_job_def Let_def by simp

lemma implements_step_handler:
  fixes f :: "'p iface \<Rightarrow> 'p step_result"
  shows "implements (step_handler f) f"
proof (rule implementsI)
  fix c j and w :: "'p World"
  assume c: "c_job (ctxs w ! c) = Some j" and j: "j < length (jobs w)"
  show "\<exists>w'. step_handler f c w = (w', result_of (f (j_payload (job w j)))) \<and> only_job j w w' \<and>
      (\<forall>v. f (j_payload (job w j)) = SOk v \<longrightarrow> j_result (job w' j) = v)"
  proof (cases "f (j_payload (job w j))")
    case (SOk v)
    have "only_job j w (SetResult j v w)" unfolding SetResult_def by (rule only_job_on_job) auto
    then show ?thesis using c j SOk by (simp add: step_handler_def SetResult_def on_job_def)
  qed (use c in \<open>simp_all add: step_handler_def\<close>)
qed

lemma implements_guard_middleware:
  fixes f :: "'p iface \<Rightarrow> 'p step_result"
  assumes "implements h f"
  shows "implements (guard_middleware g h) (guarded [g] f)"
proof (rule implementsI)
  fix c j and w :: "'p World"
  assume c: "c_job (ctxs w ! c) = Some j" and j: "j < length (jobs w)"
  obtain w' where w': "h c w = (w', result_of (f (j_payload (job w j))))" "only_job j w w'"
    "\<And>v. f (j_payload (job w j)) = SOk v \<Longrightarrow> j_result (job w' j) = v" using implementsE [OF assms c j] by metis
  show "\<exists>w'. guard_middleware g h c w =
      (w', result_of (guarded [g] f (j_payload (job w j)))) \<and> only_job j w w' \<and>
      (\<forall>v. guarded [g] f (j_payload (job w j)) = SOk v \<longrightarrow> j_result (job w' j) = v)"
    by (cases "g (j_payload (job w j))") (auto simp: guard_middleware_def c w')
qed

lemma implements_cong: "implements h f \<Longrightarrow> (\<And>p. f p = g p) \<Longrightarrow> implements h g"
  unfolding implements_def by simp

lemma implements_guards:
  "implements h f \<Longrightarrow> implements (foldr (\<lambda>m h. m h) (map guard_middleware gs) h) (guarded gs f)"
proof (induction gs)
  case Nil
  then show ?case by (auto elim: implements_cong)
next
  case (Cons g gs)
  have "implements (foldr (\<lambda>m h. m h) (map guard_middleware (g # gs)) h) (guarded [g] (guarded gs f))"
    using implements_guard_middleware [OF Cons.IH [OF Cons.prems], of g] by simp
  then show ?case by (rule implements_cong) (simp split: option.split)
qed

lemma implements_Chain:
  fixes f1 f2 :: "'p iface \<Rightarrow> 'p step_result"
  assumes h1: "implements h1 f1" and h2: "implements h2 f2"
  shows "implements (Chain marshal h1 h2) (\<lambda>p. then_step (f1 p) f2)"
proof (rule implementsI)
  fix c j and w :: "'p World"
  assume c: "c_job (ctxs w ! c) = Some j" and j: "j < length (jobs w)"
  let ?p = "j_payload (job w j)"
  obtain w1 where w1: "h1 c w = (w1, result_of (f1 ?p))" and o1: "only_job j w w1"
    and r1: "\<And>v. f1 ?p = SOk v \<Longrightarrow> j_result (job w1 j) = v" using implementsE [OF h1 c j] by metis
  show "\<exists>w'. Chain marshal h1 h2 c w = (w', result_of (then_step (f1 ?p) f2)) \<and> only_job j w w' \<and>
      (\<forall>v. then_step (f1 ?p) f2 = SOk v \<longrightarrow> j_result (job w' j) = v)"
  proof (cases "f1 ?p")
    case (SOk v)
    let ?w2 = "Continue j (SaveAccessLog marshal j w1)"
    have j1: "j < length (jobs w1)" using o1 j by (simp add: only_job_length)
    have o2: "only_job j w1 ?w2"
      by (rule only_job_trans [OF only_job_SaveAccessLog only_job_Continue j1])
    have c2: "c_job (ctxs ?w2 ! c) = Some j" using c o1 o2 by (simp add: only_job_ctxs)
    have j2: "j < length (jobs ?w2)" using o2 j1 by (simp add: only_job_length)
    have p2: "j_payload (job ?w2 j) = v" using Continue_SaveAccessLog_payload [OF j1] r1 [OF SOk] by simp
    obtain w3 where w3: "h2 c ?w2 = (w3, result_of (f2 v))" "only_job j ?w2 w3"
      "\<And>u. f2 v = SOk u \<Longrightarrow> j_result (job w3 j) = u"
      by (rule implementsE [OF h2 c2 j2]) (auto simp: p2)
    have "only_job j w w3" using only_job_trans [OF only_job_trans [OF o1 o2 j] w3(2) j] .
    moreover have "c_job (ctxs w1 ! c) = Some j" using c o1 by (simp add: only_job_ctxs)
    ultimately show ?thesis using SOk w1 w3 by (auto simp: Chain_def)
  qed (use w1 o1 in \<open>auto simp: Chain_def\<close>)
qed

lemma then_step_run_steps:
  "then_step (then_step r f) (run_steps fs) = then_step r (\<lambda>p. then_step (f p) (run_steps fs))"
  by (cases r) auto

lemma implements_foldl_Chain:
  "implements h f \<Longrightarrow> implements (foldl (Chain marshal) h (map step_handler fs)) (\<lambda>p. then_step (f p) (run_steps fs))"
proof (induction fs arbitrary: h f)
  case Nil
  have "then_step (f p) (run_steps []) = f p" for p by (cases "f p") auto
  then have "(\<lambda>p. then_step (f p) (run_steps [])) = f" by blast
  with Nil show ?case by (simp only: list.map foldl.simps)
next
  case (Cons f' fs)
  from Cons.IH [OF implements_Chain [OF Cons.prems implements_step_handler]]
  show ?case by (auto elim: implements_cong simp: then_step_run_steps)
qed

definition step_route :: "string \<Rightarrow> ('p iface \<Rightarrow> go_error option) list \<Rightarrow> ('p iface \<Rightarrow> 'p step_result) list
    \<Rightarrow> 'p JobRoute" where
  "step_route meth gs fs =
     foldl (\<lambda>jr g. JobRoute_Use (guard_middleware g) jr)
       \<lparr>jr_meth = meth, jr_middlewares = [], jr_handlers = map step_handler fs\<rparr> gs"

lemma step_route_simps [simp]:
  "jr_meth (step_route meth gs fs) = meth"
  "jr_middlewares (step_route meth gs fs) = map guard_middleware gs"
  "jr_handlers (step_route meth gs fs) = map step_handler fs"
proof -
  have "foldl (\<lambda>jr g. JobRoute_Use (guard_middleware g) jr) jr gs =
      jr\<lparr>jr_middlewares := jr_middlewares jr @ map guard_middleware gs\<rparr>" for jr :: "'a JobRoute"
    by (induction gs arbitrary: jr) (auto simp: JobRoute_Use_def)
  then show "jr_meth (step_route meth gs fs) = meth"
    "jr_middlewares (step_route meth gs fs) = map guard_middleware gs"
    "jr_handlers (step_route meth gs fs) = map step_handler fs"
    unfolding step_route_def by simp_all
qed

lemma implements_jobHandler:
  assumes "fs \<noteq> []"
  shows "implements (jobHandler marshal (step_route meth gs fs)) (guarded gs (run_steps fs))"
proof -
  obtain f fs' where fs: "fs = f # fs'" using assms by (cases fs) auto
  have "(\<lambda>p. then_step (f p) (run_steps fs')) = run_steps fs" by (auto simp: fs)
  with implements_foldl_Chain [OF implements_step_handler [of f], of marshal fs']
  have "implements (foldl (Chain marshal) (step_handler f) (map step_handler fs')) (run_steps fs)" by simp
  from implements_guards [OF this, of gs] show ?thesis unfolding jobHandler_def by (simp add: fs)
qed

section \<open>The answer of a job\<close>

definition unstarted :: "'p Job \<Rightarrow> bool" where
  "unstarted x \<longleftrightarrow> j_err x = None \<and> j_result x = INil \<and> j_response x = []"

lemma SaveAccessLog_simps [simp]:
  "ctxs (SaveAccessLog marshal j w) = ctxs w"
  "jobs (SaveAccessLog marshal j w) = (jobs w)[j := (job w j)\<lparr>j_req := None, j_resp := None\<rparr>]"
  by (simp_all add: SaveAccessLog_def on_job_def Let_def)

lemma Job_answer_cong:
  "j_err x = j_err y \<Longrightarrow> j_result x = j_result y \<Longrightarrow> Job_answer x = Job_answer y"
  by (simp add: Job_answer_def split: option.split)

lemma Response_answers:
  assumes "j < length (jobs w)" "j_response (job w j) = []"
  obtains w' x where "Response marshal j w = Some w'" "ctxs w' = ctxs w" "jobs w' = (jobs w)[j := x]"
    "j_context x = j_context (job w j)" "j_response x = [Job_answer (job w j)]"
proof -
  let ?x = "(job w j)\<lparr>j_req := None, j_resp := None\<rparr>"
  let ?w' = "on_job j (\<lambda>x. x\<lparr>j_response := [Job_answer x]\<rparr>) (SaveAccessLog marshal j w)"
  have "Response marshal j w = Some ?w'" using assms by (simp add: Response_def Let_def)
  moreover have "jobs ?w' = (jobs w)[j := ?x\<lparr>j_response := [Job_answer ?x]\<rparr>]"
    using assms by (simp add: on_job_def)
  moreover have "ctxs ?w' = ctxs w" by (simp add: on_job_def)
  moreover have "Job_answer ?x = Job_answer (job w j)" by (rule Job_answer_cong) simp_all
  ultimately show ?thesis
    using that [of ?w' "?x\<lparr>j_response := [Job_answer ?x]\<rparr>"] by simp
qed

text \<open>
  Running a job \<open>j\<close> whose context holds the job \<open>k\<close>: the handler works on \<open>k\<close>, and the answer is sent for \<open>j\<close>.
\<close>

definition answer_for :: "'p step_result \<Rightarrow> bool \<Rightarrow> 'p Job \<Rightarrow> 'p iface" where
  "answer_for r own x =
     (case r of
        SOk v \<Rightarrow> (case j_err x of Some e \<Rightarrow> IErr (ServerErr e) | None \<Rightarrow> if own then v else j_result x)
      | _ \<Rightarrow> answer_of r)"

lemma Do_implements:
  fixes f :: "'p iface \<Rightarrow> 'p step_result"
  assumes h: "implements h f" and c: "c_job (ctxs w ! j_context (job w j)) = Some k"
    and j: "j < length (jobs w)" and k: "k < length (jobs w)" and r: "j_response (job w j) = []"
  obtains w' x y where "Do marshal (Some h) j w = Some w'" "ctxs w' = ctxs w"
    "jobs w' = (jobs w)[k := y, j := x]" "j_context y = j_context (job w k)" "j_context x = j_context (job w j)"
    "j_response y = j_response (job w k)"
    "j_response x = [answer_for (f (j_payload (job w k))) (k = j) (job w j)]"
proof -
  let ?p = "j_payload (job w k)"
  obtain w1 where w1: "h (j_context (job w j)) w = (w1, result_of (f ?p))" "only_job k w w1"
    "\<And>v. f ?p = SOk v \<Longrightarrow> j_result (job w1 k) = v" using implementsE [OF h c k] by metis
  from w1(2) obtain y where y: "ctxs w1 = ctxs w" "jobs w1 = (jobs w)[k := y]"
    "j_context y = j_context (job w k)" "j_response y = j_response (job w k)" "j_err y = j_err (job w k)"
    unfolding only_job_def by blast
  define w2 where "w2 = (case f ?p of SOk v \<Rightarrow> w1 | SErr e \<Rightarrow> Job_Error j e w1 | SPanic e \<Rightarrow> Job_Error j e w1)"
  have Do: "Do marshal (Some h) j w = Response marshal j w2"
    by (simp add: Do_def w1(1) w2_def split: step_result.split)
  have ctxs2: "ctxs w2 = ctxs w"
    by (simp add: w2_def y Job_Error_def on_job_def split: step_result.split)
  have jobs2: "jobs w2 = (jobs w)[k := y, j := job w2 j]"
    using j by (simp add: w2_def y Job_Error_def on_job_def list_update_id split: step_result.split)
  have fields: "j_context (job w2 j) = j_context (job w j)" "j_response (job w2 j) = []"
    using j k r y by (auto simp: w2_def Job_Error_def on_job_def nth_list_update split: step_result.split)
  have answer: "Job_answer (job w2 j) = answer_for (f ?p) (k = j) (job w j)"
    using j k y w1(3) by (auto simp: w2_def Job_Error_def on_job_def answer_for_def Job_answer_def
        nth_list_update split: step_result.split option.split)
  have "j < length (jobs w2)" using jobs2 j by (metis length_list_update)
  then obtain w' x where w': "Response marshal j w2 = Some w'" "ctxs w' = ctxs w2" "jobs w' = (jobs w2)[j := x]"
    "j_context x = j_context (job w2 j)" "j_response x = [Job_answer (job w2 j)]"
    using Response_answers fields(2) by metis
  have "jobs w' = (jobs w)[k := y, j := x]" by (metis jobs2 list_update_overwrite w'(3))
  then show ?thesis
    by (rule that [of w' y x, rotated 2]) (simp_all add: Do w'(1,2,4,5) ctxs2 fields answer y(3,4))
qed

end
