(* ===== verification/WorkPool.thy ===== *)
theory WorkPool
  imports WorkJob "HOL-Library.Multiset"
begin

text \<open>
  The worker pool of \<open>work.go\<close>: its goroutines and channels as a machine.

  Every send, receive and handler run of the code is one event; the events may come in any order that the
  channels allow. A blocked goroutine is an element of the list named after the place where it
  waits. The handler of a job runs in one step: interleavings inside handlers are not modelled. What
  a worker does with a job is the argument \<open>exec\<close> of the machine (locale
  \<open>job_server\<close>), interpreted by \<open>run_job\<close> of theory \<open>WorkJob\<close>.
\<close>

section \<open>The machine\<close>

text \<open>A worker about to register itself, in its select, running a job, or returned.\<close>

datatype worker_state = Registering | Selecting | Running nat | Stopped

datatype 'p reply = Replied "'p iface \<times> go_error option" | TimedOut

text \<open>
  \<open>queue\<close>: goroutines at \<open>work.queue <- job\<close>, with whether they wait for an answer afterwards.
  \<open>waiting\<close>: goroutines of \<open>dispatch\<close> at \<open><-wp.pool\<close>. \<open>matched\<close>: those at
  \<open>channel <- job\<close>. \<open>idle\<close>: the buffered channel \<open>pool\<close>. \<open>quits\<close>: goroutines at \<open>jw.quit <- true\<close>.
  \<open>requesters\<close>: requests waiting for the answer of their job. The lists \<open>asked\<close>,
  \<open>finished\<close> and \<open>replies\<close> are a record of what was pushed, run and returned.
\<close>

record 'p Pool =
  p_name :: string
  p_max :: nat
  p_world :: "'p World"
  queue :: "(nat \<times> bool) list"
  waiting :: "nat list"
  matched :: "(nat \<times> nat) list"
  idle :: "nat list"
  workers :: "worker_state list"
  quits :: "nat list"
  requesters :: "nat list"
  asked :: "(string \<times> 'p iface) list"
  finished :: "nat list"
  replies :: "(nat \<times> 'p reply) list"

text \<open>\<open>NewWorkerPool\<close> followed by \<open>Start\<close>.\<close>

definition NewWorkerPool :: "string \<Rightarrow> nat \<Rightarrow> 'p Pool" where
  "NewWorkerPool name maxWorkers =
     \<lparr>p_name = name, p_max = maxWorkers, p_world = \<lparr>ctxs = [], jobs = [], access_log = []\<rparr>,
      queue = [], waiting = [], matched = [], idle = [], workers = [], quits = [], requesters = [],
      asked = [], finished = [], replies = []\<rparr>"

definition Pool_Start :: "'p Pool \<Rightarrow> 'p Pool" where
  "Pool_Start s = s\<lparr>workers := workers s @ replicate (p_max s) Registering\<rparr>"

text \<open>
  Pushing on an existing context, or on a new one as the package's functions do; \<open>is_req\<close> tells
  \<open>req\<close> from \<open>push\<close>.
\<close>

definition pool_push :: "bool \<Rightarrow> nat \<Rightarrow> string \<Rightarrow> 'p iface \<Rightarrow> 'p iface list \<Rightarrow> string \<Rightarrow> 'p Pool \<Rightarrow> 'p Pool" where
  "pool_push is_req c meth pl opts rid s =
     (let (j, w) = NewJob c (p_name s) meth pl opts rid (p_world s)
      in s\<lparr>p_world := w, queue := queue s @ [(j, is_req)], asked := asked s @ [(meth, pl)]\<rparr>)"

definition package_push :: "bool \<Rightarrow> string \<Rightarrow> 'p iface \<Rightarrow> 'p iface list \<Rightarrow> string \<Rightarrow> 'p Pool \<Rightarrow> 'p Pool" where
  "package_push is_req meth pl opts rid s =
     (let (c, w) = NewContext rid (p_world s)
      in pool_push is_req c meth pl opts rid (s\<lparr>p_world := w\<rparr>))"

datatype 'p event =
    EPush bool string "'p iface" "'p iface list" string
  | ECtxPush bool nat string "'p iface" "'p iface list" string
  | EDispatch nat bool
  | ETake nat
  | EDeliver nat nat
  | ERegister nat
  | EFinish nat
  | EReceive nat
  | ETimeout nat
  | EEnd
  | EQuit nat

definition at_worker :: "'p Pool \<Rightarrow> nat \<Rightarrow> worker_state option" where
  "at_worker s i = (if i < length (workers s) then Some (workers s ! i) else None)"

definition set_worker :: "nat \<Rightarrow> worker_state \<Rightarrow> 'p Pool \<Rightarrow> 'p Pool" where
  "set_worker i x s = s\<lparr>workers := (workers s)[i := x]\<rparr>"

text \<open>\<open>None\<close>: the event is not possible in the state.\<close>

fun pool_step :: "(nat \<Rightarrow> 'p World \<Rightarrow> 'p World option) \<Rightarrow> 'p event \<Rightarrow> 'p Pool \<Rightarrow> 'p Pool option" where
  "pool_step exec (EPush r meth pl opts rid) s = Some (package_push r meth pl opts rid s)"
| "pool_step exec (ECtxPush r c meth pl opts rid) s =
     (if c < length (ctxs (p_world s)) then Some (pool_push r c meth pl opts rid s) else None)"
| "pool_step exec (EDispatch j r) s =
     (if (j, r) \<in> set (queue s) then
        Some (s\<lparr>queue := remove1 (j, r) (queue s), waiting := waiting s @ [j],
                requesters := (if r then requesters s @ [j] else requesters s)\<rparr>)
      else None)"
| "pool_step exec (ETake j) s =
     (if j \<in> set (waiting s) then
        (case idle s of
           [] \<Rightarrow> None
         | i # is \<Rightarrow> Some (s\<lparr>idle := is, waiting := remove1 j (waiting s), matched := matched s @ [(j, i)]\<rparr>))
      else None)"
| "pool_step exec (EDeliver j i) s =
     (if (j, i) \<in> set (matched s) \<and> at_worker s i = Some Selecting then
        Some (set_worker i (Running j) (s\<lparr>matched := remove1 (j, i) (matched s)\<rparr>))
      else None)"
| "pool_step exec (ERegister i) s =
     (if at_worker s i = Some Registering \<and> length (idle s) < p_max s then
        Some (set_worker i Selecting (s\<lparr>idle := idle s @ [i]\<rparr>))
      else None)"
| "pool_step exec (EFinish i) s =
     (case at_worker s i of
        Some (Running j) \<Rightarrow>
          (case exec j (p_world s) of
             None \<Rightarrow> None
           | Some w \<Rightarrow> Some (set_worker i Registering (s\<lparr>p_world := w, finished := finished s @ [j]\<rparr>)))
      | _ \<Rightarrow> None)"
| "pool_step exec (EReceive j) s =
     (if j \<in> set (requesters s) then
        (case j_response (job (p_world s) j) of
           [] \<Rightarrow> None
         | v # _ \<Rightarrow> Some (s\<lparr>requesters := remove1 j (requesters s), replies := replies s @ [(j, Replied (req_return v))],
                          p_world := on_job j (\<lambda>x. x\<lparr>j_response := []\<rparr>) (p_world s)\<rparr>))
      else None)"
| "pool_step exec (ETimeout j) s =
     (if j \<in> set (requesters s) then
        Some (s\<lparr>requesters := remove1 j (requesters s), replies := replies s @ [(j, TimedOut)]\<rparr>)
      else None)"
| "pool_step exec EEnd s = Some (s\<lparr>quits := quits s @ [0..<length (workers s)]\<rparr>)"
| "pool_step exec (EQuit i) s =
     (if i \<in> set (quits s) \<and> at_worker s i = Some Selecting then
        Some (set_worker i Stopped (s\<lparr>quits := remove1 i (quits s)\<rparr>))
      else None)"

fun pool_run :: "(nat \<Rightarrow> 'p World \<Rightarrow> 'p World option) \<Rightarrow> 'p event list \<Rightarrow> 'p Pool \<Rightarrow> 'p Pool option" where
  "pool_run exec [] s = Some s"
| "pool_run exec (e # es) s =
     (case pool_step exec e s of None \<Rightarrow> None | Some s' \<Rightarrow> pool_run exec es s')"

text \<open>The steps that the pool takes by itself, without a push, a receiver or a call of \<open>End\<close>.\<close>

fun internal :: "'p event \<Rightarrow> bool" where
  "internal (EDispatch _ _) = True"
| "internal (ETake _) = True"
| "internal (EDeliver _ _) = True"
| "internal (ERegister _) = True"
| "internal (EFinish _) = True"
| "internal _ = False"

section \<open>Where the jobs are\<close>

fun running_jobs :: "worker_state \<Rightarrow> nat list" where
  "running_jobs (Running j) = [j]"
| "running_jobs _ = []"

definition running_list :: "worker_state list \<Rightarrow> nat list" where
  "running_list ws = concat (map running_jobs ws)"

fun is_parked :: "worker_state \<Rightarrow> bool" where
  "is_parked Selecting = True"
| "is_parked Stopped = True"
| "is_parked _ = False"

definition parked :: "worker_state list \<Rightarrow> nat \<Rightarrow> bool" where
  "parked ws i \<longleftrightarrow> is_parked (ws ! i)"

definition job_places :: "'p Pool \<Rightarrow> nat multiset" where
  "job_places s = mset (map fst (queue s)) + mset (waiting s) + mset (map fst (matched s))
     + mset (running_list (workers s)) + mset (finished s)"

definition token_places :: "'p Pool \<Rightarrow> nat multiset" where
  "token_places s = mset (idle s) + mset (map snd (matched s))"

definition well_linked :: "'p World \<Rightarrow> bool" where
  "well_linked w \<longleftrightarrow> (\<forall>x \<in> set (jobs w). j_context x < length (ctxs w) \<and>
     (\<exists>k < length (jobs w). c_job (ctxs w ! j_context x) = Some k))"

text \<open>
  Every job is in one place, a worker's channel is in one place when the worker waits or has
  returned and nowhere otherwise, and a job not yet run has an empty channel.
\<close>

definition pool_inv :: "'p Pool \<Rightarrow> bool" where
  "pool_inv s \<longleftrightarrow>
     job_places s = mset [0..<length (jobs (p_world s))] \<and>
     token_places s = mset (filter (parked (workers s)) [0..<length (workers s)]) \<and>
     length (workers s) = p_max s \<and>
     length (asked s) = length (jobs (p_world s)) \<and>
     well_linked (p_world s) \<and>
     (\<forall>j < length (jobs (p_world s)). j \<notin> set (finished s) \<longrightarrow> j_response (job (p_world s) j) = [])"

lemma nth_update_any: "k < length xs \<Longrightarrow> xs[j := x] ! k = (if k = j then x else xs ! k)"
  by (cases "k = j") simp_all

lemma mset_map_remove1:
  "x \<in> set xs \<Longrightarrow> mset (map f xs) = add_mset (f x) (mset (map f (remove1 x xs)))"
  by (induction xs) auto

lemma mset_remove1_add: "x \<in> set xs \<Longrightarrow> mset xs = add_mset x (mset (remove1 x xs))"
  by (induction xs) auto

lemma running_list_update:
  "i < length ws \<Longrightarrow>
    mset (running_list (ws[i := y])) + mset (running_jobs (ws ! i)) = mset (running_list ws) + mset (running_jobs y)"
  unfolding running_list_def
  by (induction ws arbitrary: i) (auto split: nat.split simp: ac_simps)

lemma set_worker_simps [simp]:
  "queue (set_worker i y s) = queue s" "waiting (set_worker i y s) = waiting s"
  "matched (set_worker i y s) = matched s" "idle (set_worker i y s) = idle s"
  "finished (set_worker i y s) = finished s" "p_world (set_worker i y s) = p_world s"
  "p_max (set_worker i y s) = p_max s" "asked (set_worker i y s) = asked s"
  "requesters (set_worker i y s) = requesters s" "replies (set_worker i y s) = replies s"
  "quits (set_worker i y s) = quits s" "workers (set_worker i y s) = (workers s)[i := y]"
  by (simp_all add: set_worker_def)

lemma at_worker_eq_Some: "at_worker s i = Some x \<longleftrightarrow> i < length (workers s) \<and> workers s ! i = x"
  by (auto simp: at_worker_def)

text \<open>Parking a worker adds it to the parked workers, starting it again removes it.\<close>

lemma parked_update_same:
  assumes "is_parked (ws ! i) = is_parked y"
  shows "filter (parked (ws[i := y])) xs = filter (parked ws) xs"
proof -
  have "parked (ws[i := y]) k = parked ws k" for k
    using assms by (cases "k = i"; cases "i < length ws") (simp_all add: parked_def list_update_beyond)
  then show ?thesis by presburger
qed

lemma parked_update_add:
  assumes "\<not> is_parked (ws ! i)" "is_parked y" "i < length ws" "i < n"
  shows "mset (filter (parked (ws[i := y])) [0..<n]) = add_mset i (mset (filter (parked ws) [0..<n]))"
proof -
  have same: "parked (ws[i := y]) k = (k = i \<or> parked ws k)" for k
    using assms by (auto simp: parked_def nth_list_update)
  have "distinct xs \<Longrightarrow> mset (filter (\<lambda>k. k = i \<or> parked ws k) xs) =
      (if i \<in> set xs then {#i#} else {#}) + mset (filter (parked ws) xs)" for xs
    using assms(1) by (induction xs) (auto simp: parked_def)
  from this [of "[0..<n]"] show ?thesis using assms(4) by (simp add: same)
qed

section \<open>How much is left to do\<close>

fun worker_work :: "worker_state \<Rightarrow> nat" where
  "worker_work (Running j) = 3"
| "worker_work Registering = 1"
| "worker_work _ = 0"

definition work_left :: "'p Pool \<Rightarrow> nat" where
  "work_left s = 6 * length (queue s) + 5 * length (waiting s) + 4 * length (matched s)
     + sum_list (map worker_work (workers s))"

lemma worker_work_update:
  "i < length ws \<Longrightarrow> sum_list (map worker_work (ws[i := y])) + worker_work (ws ! i) =
     sum_list (map worker_work ws) + worker_work y"
  by (induction ws arbitrary: i) (auto split: nat.split)

lemma length_remove1_Suc: "x \<in> set xs \<Longrightarrow> Suc (length (remove1 x xs)) = length xs"
  by (induction xs) auto

lemma internal_decreases:
  assumes "internal e" "pool_step exec e s = Some s'"
  shows "work_left s' < work_left s"
proof (cases e)
  case (EDispatch j r)
  then have "(j, r) \<in> set (queue s)" using assms(2) by (simp split: if_splits)
  from length_remove1_Suc [OF this] show ?thesis
    using assms EDispatch by (auto simp: work_left_def simp del: length_remove1 split: if_splits)
next
  case (ETake j)
  then have "j \<in> set (waiting s)" using assms(2) by (simp split: if_splits)
  from length_remove1_Suc [OF this] show ?thesis
    using assms ETake by (auto simp: work_left_def simp del: length_remove1 split: if_splits list.splits)
next
  case (EDeliver j i)
  then have m: "(j, i) \<in> set (matched s)" and w: "i < length (workers s)" "workers s ! i = Selecting"
    and s': "s' = set_worker i (Running j) (s\<lparr>matched := remove1 (j, i) (matched s)\<rparr>)"
    using assms by (auto simp: at_worker_eq_Some split: if_splits)
  show ?thesis using worker_work_update [OF w(1), of "Running j"] w(2) length_remove1_Suc [OF m]
    by (simp add: s' work_left_def del: length_remove1)
next
  case (ERegister i)
  then have w: "i < length (workers s)" "workers s ! i = Registering"
    and s': "s' = set_worker i Selecting (s\<lparr>idle := idle s @ [i]\<rparr>)"
    using assms by (auto simp: at_worker_eq_Some split: if_splits)
  show ?thesis using worker_work_update [OF w(1), of Selecting] w(2) by (simp add: s' work_left_def)
next
  case (EFinish i)
  then obtain j w' where w: "i < length (workers s)" "workers s ! i = Running j"
    and s': "s' = set_worker i Registering (s\<lparr>p_world := w', finished := finished s @ [j]\<rparr>)"
    using assms by (auto simp: at_worker_eq_Some split: option.splits worker_state.splits)
  show ?thesis using worker_work_update [OF w(1), of Registering] w(2) by (simp add: s' work_left_def)
qed (use assms in simp_all)

lemma internal_run_bound:
  "pool_run exec es s = Some s' \<Longrightarrow> list_all internal es \<Longrightarrow> length es + work_left s' \<le> work_left s"
proof (induction es arbitrary: s)
  case (Cons e es)
  then obtain s1 where s1: "pool_step exec e s = Some s1" "pool_run exec es s1 = Some s'"
    by (auto split: option.splits)
  from internal_decreases [OF _ s1(1)] Cons.IH [OF s1(2)] Cons.prems(2) show ?case by fastforce
qed simp

lemma worker_work_le: "sum_list (map worker_work ws) \<le> 3 * length (running_list ws) + length ws"
proof (induction ws)
  case (Cons x ws)
  then show ?case by (cases x) (auto simp: running_list_def)
qed (simp add: running_list_def)

lemma work_left_le:
  assumes "pool_inv s"
  shows "work_left s \<le> 6 * length (asked s) + p_max s"
proof -
  have "size (job_places s) = length (asked s)" using assms by (simp add: pool_inv_def)
  then have "length (queue s) + length (waiting s) + length (matched s) + length (running_list (workers s))
      \<le> length (asked s)" by (simp add: job_places_def)
  with worker_work_le [of "workers s"] assms show ?thesis by (simp add: work_left_def pool_inv_def)
qed

text \<open>Only \<open>End\<close> stops workers, and the pool's own steps push nothing.\<close>

definition never_ended :: "'p Pool \<Rightarrow> bool" where
  "never_ended s \<longleftrightarrow> quits s = [] \<and> Stopped \<notin> set (workers s)"

lemma step_never_ended:
  "never_ended s \<Longrightarrow> e \<noteq> EEnd \<Longrightarrow> pool_step exec e s = Some s' \<Longrightarrow> never_ended s'"
  by (cases e) (auto simp: never_ended_def package_push_def pool_push_def split: if_splits option.splits
      list.splits worker_state.splits prod.splits dest!: set_update_subset_insert [THEN subsetD])

lemma run_never_ended:
  "never_ended s \<Longrightarrow> EEnd \<notin> set es \<Longrightarrow> pool_run exec es s = Some s' \<Longrightarrow> never_ended s'"
proof (induction es arbitrary: s)
  case (Cons e es)
  then obtain s1 where s1: "pool_step exec e s = Some s1" "pool_run exec es s1 = Some s'"
    by (auto split: option.splits)
  from Cons.prems(2) have "e \<noteq> EEnd" "EEnd \<notin> set es" by auto
  with step_never_ended [OF Cons.prems(1) _ s1(1)] Cons.IH s1(2) show ?case by blast
qed simp

lemma start_never_ended: "never_ended (Pool_Start (NewWorkerPool name n))"
  by (simp add: never_ended_def Pool_Start_def NewWorkerPool_def)

lemma internal_asked: "internal e \<Longrightarrow> pool_step exec e s = Some s' \<Longrightarrow> asked s' = asked s"
  by (cases e) (auto split: if_splits option.splits list.splits worker_state.splits)

lemma internal_run_asked: "pool_run exec es s = Some s' \<Longrightarrow> list_all internal es \<Longrightarrow> asked s' = asked s"
  by (induction es arbitrary: s) (auto split: option.splits dest: internal_asked)

lemma step_p_max: "pool_step exec e s = Some s' \<Longrightarrow> p_max s' = p_max s"
  by (cases e) (auto simp: package_push_def pool_push_def split: if_splits option.splits list.splits
      worker_state.splits prod.splits)

lemma run_p_max: "pool_run exec es s = Some s' \<Longrightarrow> p_max s' = p_max s"
  by (induction es arbitrary: s) (auto split: option.splits dest: step_p_max)

text \<open>A job sent to a worker that has returned stays there.\<close>

lemma step_lost:
  assumes "pool_step exec e s = Some s'" "(j, i) \<in> set (matched s)" "at_worker s i = Some Stopped"
  shows "(j, i) \<in> set (matched s') \<and> at_worker s' i = Some Stopped"
proof (cases e)
  case (EDeliver k l)
  then have ne: "l \<noteq> i" using assms by (auto split: if_splits)
  then have "(j, i) \<in> set (remove1 (k, l) (matched s))" using assms(2) by (simp add: in_set_remove1)
  then show ?thesis using assms EDeliver ne by (auto simp: at_worker_eq_Some split: if_splits)
qed (use assms in \<open>auto simp: package_push_def pool_push_def at_worker_eq_Some nth_list_update
      split: if_splits option.splits list.splits worker_state.splits prod.splits\<close>)

lemma run_lost:
  "pool_run exec es s = Some s' \<Longrightarrow> (j, i) \<in> set (matched s) \<Longrightarrow> at_worker s i = Some Stopped \<Longrightarrow>
    (j, i) \<in> set (matched s') \<and> at_worker s' i = Some Stopped"
  by (induction es arbitrary: s) (auto split: option.splits dest: step_lost)

section \<open>The contract of a job's execution\<close>

text \<open>
  Running a job that has not been answered puts one answer into its channel, and leaves the other channels
  and the links between contexts and jobs alone.
\<close>

definition same_links :: "'p World \<Rightarrow> 'p World \<Rightarrow> bool" where
  "same_links w w' \<longleftrightarrow> ctxs w' = ctxs w \<and> map j_context (jobs w') = map j_context (jobs w)"

lemma same_links_length: "same_links w w' \<Longrightarrow> length (jobs w') = length (jobs w)"
  unfolding same_links_def by (metis length_map)

lemma well_linked_same:
  assumes "same_links w w'"
  shows "well_linked w' \<longleftrightarrow> well_linked w"
proof -
  have *: "well_linked v \<longleftrightarrow> (\<forall>c \<in> set (map j_context (jobs v)). c < length (ctxs v) \<and>
      (\<exists>k < length (jobs v). c_job (ctxs v ! c) = Some k))" for v :: "'a World"
    by (simp add: well_linked_def)
  show ?thesis using assms same_links_length [OF assms] unfolding * same_links_def by simp
qed

locale job_server =
  fixes exec :: "nat \<Rightarrow> 'p World \<Rightarrow> 'p World option"
  assumes exec_answers:
    "well_linked w \<Longrightarrow> j < length (jobs w) \<Longrightarrow> j_response (job w j) = [] \<Longrightarrow>
      \<exists>w' v. exec j w = Some w' \<and> same_links w w' \<and>
        map j_response (jobs w') = (map j_response (jobs w))[j := [v]]"
begin

lemma job_once:
  assumes "pool_inv s" "at_worker s i = Some (Running j)"
  shows "j < length (jobs (p_world s))" "j \<notin> set (finished s)" "j_response (job (p_world s) j) = []"
proof -
  have "i < length (workers s)" "workers s ! i = Running j"
    using assms(2) by (simp_all add: at_worker_eq_Some)
  then have "Running j \<in> set (workers s)" by (metis nth_mem)
  then have in_running: "j \<in> set (running_list (workers s))"
    unfolding running_list_def by (auto intro!: bexI [of _ "Running j"])
  have places: "job_places s = mset [0..<length (jobs (p_world s))]"
    using assms(1) by (simp add: pool_inv_def)
  have "j \<in># job_places s" using in_running by (simp add: job_places_def)
  then show j: "j < length (jobs (p_world s))" by (simp add: places)
  have "count (job_places s) j \<le> 1"
    unfolding places using distinct_count_atmost_1 [THEN iffD1, OF distinct_upt] by simp
  moreover have "1 \<le> count (mset (running_list (workers s))) j"
    using in_running by (metis count_greater_eq_one_iff set_mset_mset)
  moreover have "count (mset (running_list (workers s))) j + count (mset (finished s)) j \<le> count (job_places s) j"
    by (simp add: job_places_def)
  ultimately have "count (mset (finished s)) j = 0" by linarith
  then show "j \<notin> set (finished s)" by (metis count_eq_zero_iff set_mset_mset)
  with j assms(1) show "j_response (job (p_world s) j) = []" by (simp add: pool_inv_def)
qed

lemma push_inv:
  assumes inv: "pool_inv s" and c: "c < length (ctxs (p_world s))"
  shows "pool_inv (pool_push r c meth pl opts rid s)"
proof -
  obtain j w where jw: "NewJob c (p_name s) meth pl opts rid (p_world s) = (j, w)" by fastforce
  have j: "j = length (jobs (p_world s))" using jw by (simp add: NewJob_def Let_def)
  obtain x where x: "jobs w = jobs (p_world s) @ [x]" "j_context x = c" "j_response x = []"
    using jw by (auto simp: NewJob_def Let_def)
  have cs: "ctxs w = (ctxs (p_world s))[c := (ctxs (p_world s) ! c)\<lparr>c_job := Some j\<rparr>]"
    using jw by (auto simp: NewJob_def Let_def)
  have linked: "well_linked w"
    unfolding well_linked_def
  proof
    fix y assume "y \<in> set (jobs w)"
    then have y: "y \<in> set (jobs (p_world s)) \<or> y = x" by (auto simp: x)
    then have "j_context y < length (ctxs (p_world s))"
      using inv c x by (auto simp: pool_inv_def well_linked_def)
    moreover have "\<exists>k < length (jobs w). c_job (ctxs w ! j_context y) = Some k"
      using y inv c by (cases "j_context y = c")
        (auto simp: pool_inv_def well_linked_def cs j x nth_list_update intro: less_SucI)
    ultimately show "j_context y < length (ctxs w) \<and> (\<exists>k < length (jobs w). c_job (ctxs w ! j_context y) = Some k)"
      by (simp add: cs)
  qed
  show ?thesis
    using inv linked
    by (auto simp: pool_inv_def pool_push_def jw x j job_places_def token_places_def
        nth_append less_Suc_eq)
qed

lemma step_inv:
  assumes inv: "pool_inv s" and step: "pool_step exec e s = Some s'"
  shows "pool_inv s'"
proof (cases e)
  case (EPush r meth pl opts rid)
  let ?s = "s\<lparr>p_world := (p_world s)\<lparr>ctxs := ctxs (p_world s) @ [\<lparr>c_job = None, c_reqID = rid\<rparr>]\<rparr>\<rparr>"
  have "pool_inv ?s" using inv
    by (auto simp: pool_inv_def job_places_def token_places_def
        well_linked_def nth_append)
  from push_inv [OF this] show ?thesis
    using step by (auto simp: EPush package_push_def NewContext_def)
next
  case (ECtxPush r c meth pl opts rid)
  then show ?thesis using push_inv [OF inv] step by (auto split: if_splits)
next
  case (EDispatch j r)
  then have q: "(j, r) \<in> set (queue s)" and s': "queue s' = remove1 (j, r) (queue s)"
    "waiting s' = waiting s @ [j]" "workers s' = workers s" "matched s' = matched s" "idle s' = idle s"
    "finished s' = finished s" "p_world s' = p_world s" "p_max s' = p_max s" "asked s' = asked s"
    using step by (auto split: if_splits)
  have "job_places s' = job_places s"
    by (simp add: job_places_def s' mset_map_remove1 [OF q, of fst] del: mset_map mset_remove1)
  moreover have "token_places s' = token_places s" by (simp add: token_places_def s')
  ultimately show ?thesis using inv by (simp add: pool_inv_def s')
next
  case (ETake j)
  then obtain i "is" where i: "j \<in> set (waiting s)" "idle s = i # is"
    and s': "s' = s\<lparr>idle := is, waiting := remove1 j (waiting s), matched := matched s @ [(j, i)]\<rparr>"
    using step by (auto split: if_splits list.splits)
  have "job_places s' = job_places s"
    by (simp add: job_places_def s' mset_remove1_add [OF i(1)] del: mset_remove1)
  moreover have "token_places s' = token_places s" by (simp add: token_places_def s' i)
  ultimately show ?thesis using inv by (simp add: pool_inv_def s')
next
  case (EDeliver j i)
  then have m: "(j, i) \<in> set (matched s)" and w: "i < length (workers s)" "workers s ! i = Selecting"
    and s': "s' = set_worker i (Running j) (s\<lparr>matched := remove1 (j, i) (matched s)\<rparr>)"
    using step by (auto simp: at_worker_eq_Some split: if_splits)
  have same: "(workers s)[i := Selecting] = workers s" by (metis list_update_id w(2))
  have "job_places s' = job_places s"
    using running_list_update [OF w(1), of "Running j"]
    by (simp add: job_places_def s' w mset_map_remove1 [OF m, of fst] del: mset_map mset_remove1)
  moreover have "add_mset i (token_places s') = add_mset i (mset (filter (parked (workers s')) [0..<length (workers s)]))"
    using inv parked_update_add [of "workers s'" i Selecting "length (workers s)"] w same
    by (simp add: pool_inv_def token_places_def s' mset_map_remove1 [OF m, of snd]
        del: mset_map mset_remove1)
  ultimately show ?thesis using inv by (simp add: pool_inv_def s')
next
  case (ERegister i)
  then have w: "i < length (workers s)" "workers s ! i = Registering"
    and s': "s' = set_worker i Selecting (s\<lparr>idle := idle s @ [i]\<rparr>)"
    using step by (auto simp: at_worker_eq_Some split: if_splits)
  have "job_places s' = job_places s"
    using running_list_update [OF w(1), of Selecting] by (simp add: job_places_def s' w)
  moreover have "token_places s' = mset (filter (parked (workers s')) [0..<length (workers s)])"
    using inv parked_update_add [of "workers s" i Selecting "length (workers s)"] w
    by (simp add: pool_inv_def token_places_def s')
  ultimately show ?thesis using inv by (simp add: pool_inv_def s')
next
  case (EFinish i)
  then obtain j w' where w: "i < length (workers s)" "workers s ! i = Running j" "exec j (p_world s) = Some w'"
    and s': "s' = set_worker i Registering (s\<lparr>p_world := w', finished := finished s @ [j]\<rparr>)"
    using step by (auto simp: at_worker_eq_Some split: option.splits worker_state.splits)
  have run: "at_worker s i = Some (Running j)" using w by (simp add: at_worker_eq_Some)
  obtain v where v: "same_links (p_world s) w'"
    "map j_response (jobs w') = (map j_response (jobs (p_world s)))[j := [v]]"
    using exec_answers [of "p_world s" j] job_once [OF inv run] inv w(3) by (auto simp: pool_inv_def)
  have len: "length (jobs w') = length (jobs (p_world s))" using v(1) by (rule same_links_length)
  have "job_places s' = job_places s"
    using running_list_update [OF w(1), of Registering] by (simp add: job_places_def s' w)
  moreover have "token_places s' = token_places s" by (simp add: token_places_def s')
  moreover have "\<forall>k < length (jobs w'). k \<notin> set (finished s') \<longrightarrow> j_response (job w' k) = []"
  proof (intro allI impI)
    fix k assume k: "k < length (jobs w')" "k \<notin> set (finished s')"
    then have "j_response (job w' k) = (map j_response (jobs (p_world s)))[j := [v]] ! k"
      using v(2) by (metis nth_map)
    with k inv show "j_response (job w' k) = []" by (simp add: s' len pool_inv_def)
  qed
  ultimately show ?thesis using inv v(1)
    by (simp add: pool_inv_def s' len well_linked_same parked_update_same w)
next
  case (EReceive j)
  then obtain v vs where "s' = s\<lparr>requesters := remove1 j (requesters s), replies := replies s @ [(j, Replied (req_return v))],
      p_world := on_job j (\<lambda>x. x\<lparr>j_response := []\<rparr>) (p_world s)\<rparr>"
    using step by (auto split: if_splits list.splits)
  moreover have "same_links (p_world s) (on_job j (\<lambda>x. x\<lparr>j_response := []\<rparr>) (p_world s))"
    by (simp add: same_links_def on_job_def map_update) (metis list_update_id map_update)
  moreover have "length (jobs (on_job j (\<lambda>x. x\<lparr>j_response := []\<rparr>) (p_world s))) = length (jobs (p_world s))"
    by (simp add: on_job_def)
  ultimately show ?thesis using inv
    by (auto simp: pool_inv_def job_places_def token_places_def well_linked_same)
      (auto simp: on_job_def nth_update_any)
next
  case (ETimeout j)
  then show ?thesis using inv step
    by (auto simp: pool_inv_def job_places_def token_places_def split: if_splits)
next
  case EEnd
  then show ?thesis using inv step
    by (auto simp: pool_inv_def job_places_def token_places_def split: if_splits)
next
  case (EQuit i)
  then have w: "i < length (workers s)" "workers s ! i = Selecting"
    and s': "s' = set_worker i Stopped (s\<lparr>quits := remove1 i (quits s)\<rparr>)"
    using step by (auto simp: at_worker_eq_Some split: if_splits)
  have "job_places s' = job_places s"
    using running_list_update [OF w(1), of Stopped] by (simp add: job_places_def s' w)
  moreover have "token_places s' = token_places s" by (simp add: token_places_def s')
  ultimately show ?thesis using inv by (simp add: pool_inv_def s' parked_update_same w)
qed

lemma run_inv: "pool_inv s \<Longrightarrow> pool_run exec es s = Some s' \<Longrightarrow> pool_inv s'"
  by (induction es arbitrary: s) (auto split: option.splits dest: step_inv)

lemma start_inv: "pool_inv (Pool_Start (NewWorkerPool name n))"
proof -
  have "running_list (replicate n Registering) = []" by (induction n) (auto simp: running_list_def)
  moreover have "filter (parked (replicate n Registering)) [0..<n] = []"
    by (auto simp: filter_empty_conv parked_def)
  ultimately show ?thesis
    by (simp add: pool_inv_def Pool_Start_def NewWorkerPool_def job_places_def token_places_def well_linked_def)
qed

lemmas reachable_inv = run_inv [OF start_inv]

text \<open>A started pool always has an enabled step of its own until every job is done.\<close>

lemma exec_enabled:
  assumes "pool_inv s" "at_worker s i = Some (Running j)"
  shows "pool_step exec (EFinish i) s \<noteq> None"
  using exec_answers [of "p_world s" j] job_once [OF assms] assms by (auto simp: pool_inv_def)

lemma register_enabled:
  assumes inv: "pool_inv s" and i: "at_worker s i = Some Registering"
  shows "pool_step exec (ERegister i) s \<noteq> None"
proof -
  have i': "i < length (workers s)" "workers s ! i = Registering" using i by (simp_all add: at_worker_eq_Some)
  have "length (idle s) \<le> size (token_places s)" by (simp add: token_places_def)
  also have "... = length (filter (parked (workers s)) [0..<length (workers s)])"
    using inv by (simp add: pool_inv_def del: mset_filter mset_upt)
  also have "... < length [0..<length (workers s)]"
    using i' by (intro length_filter_less [of i]) (auto simp: parked_def)
  finally show ?thesis using inv i by (simp add: pool_inv_def)
qed

lemma progress:
  assumes inv: "pool_inv s" and n: "0 < p_max s" and live: "Stopped \<notin> set (workers s)"
    and stuck: "\<And>e. internal e \<Longrightarrow> pool_step exec e s = None"
  shows "queue s = []" "waiting s = []" "matched s = []" "running_list (workers s) = []"
proof -
  have len: "length (workers s) = p_max s" using inv by (simp add: pool_inv_def)
  have sel: "workers s ! i = Selecting" if "i < length (workers s)" for i
  proof (cases "workers s ! i")
    case Registering
    then show ?thesis using stuck [of "ERegister i"] register_enabled [OF inv, of i] that
      by (simp add: at_worker_eq_Some)
  next
    case (Running j)
    then show ?thesis using stuck [of "EFinish i"] exec_enabled [OF inv, of i j] that
      by (simp add: at_worker_eq_Some)
  next
    case Stopped
    then show ?thesis using live that by (metis nth_mem)
  qed
  then show "running_list (workers s) = []" by (auto simp: running_list_def in_set_conv_nth)
  show "queue s = []"
  proof (cases "queue s")
    case (Cons x xs)
    then show ?thesis using stuck [of "EDispatch (fst x) (snd x)"] by simp
  qed
  have tokens: "token_places s = mset [0..<length (workers s)]"
    using inv sel by (simp add: pool_inv_def parked_def del: mset_upt cong: filter_cong)
  show m: "matched s = []"
  proof (cases "matched s")
    case (Cons x xs)
    then have "snd x \<in># token_places s" by (simp add: token_places_def)
    then have "snd x < length (workers s)" by (simp add: tokens)
    then show ?thesis using stuck [of "EDeliver (fst x) (snd x)"] sel Cons by (simp add: at_worker_def)
  qed
  have "mset (idle s) = mset [0..<length (workers s)]" using tokens m by (simp add: token_places_def)
  then have "idle s \<noteq> []" using n len by (metis gr_implies_not0 length_0_conv mset_eq_length upt_eq_Nil_conv length_upt minus_nat.diff_0)
  show "waiting s = []"
  proof (cases "waiting s")
    case (Cons j js)
    then show ?thesis using stuck [of "ETake j"] \<open>idle s \<noteq> []\<close> by (simp split: list.splits)
  qed
qed

lemma quiescent_done:
  assumes run: "pool_run exec es (Pool_Start (NewWorkerPool name n)) = Some s" "EEnd \<notin> set es" "0 < n"
    and own: "pool_run exec es' s = Some s'" "list_all internal es'"
  shows "length es' \<le> 6 * length (asked s) + n"
    and "(\<And>e. internal e \<Longrightarrow> pool_step exec e s' = None) \<Longrightarrow> mset (finished s') = mset [0..<length (asked s)]"
proof -
  have inv: "pool_inv s" and live: "never_ended s" and max: "p_max s = n"
    using reachable_inv [OF run(1)] run_never_ended [OF start_never_ended run(2,1)] run_p_max [OF run(1)]
    by (simp_all add: Pool_Start_def NewWorkerPool_def)
  show "length es' \<le> 6 * length (asked s) + n"
    using internal_run_bound [OF own] work_left_le [OF inv] max by simp
  have inv': "pool_inv s'" using run_inv [OF inv own(1)] .
  have "EEnd \<notin> set es'" using own(2) by (auto simp: list_all_iff)
  then have live': "never_ended s'" using run_never_ended [OF live _ own(1)] by blast
  have max': "p_max s' = n" using run_p_max [OF own(1)] max by simp
  have asked: "asked s' = asked s" using internal_run_asked [OF own] .
  show "mset (finished s') = mset [0..<length (asked s)]"
    if stuck: "\<And>e. internal e \<Longrightarrow> pool_step exec e s' = None"
  proof -
    note all_done = progress [OF inv' _ _ stuck]
    have "job_places s' = mset (finished s')"
      using all_done live' max' run(3) by (simp add: job_places_def never_ended_def)
    then show ?thesis using inv' asked by (simp add: pool_inv_def)
  qed
qed

lemma lost_not_run:
  assumes run: "pool_run exec es (Pool_Start (NewWorkerPool name n)) = Some s"
    and lost: "(j, i) \<in> set (matched s)" "at_worker s i = Some Stopped"
    and later: "pool_run exec es' s = Some s'"
  shows "j \<notin> set (finished s')"
proof -
  have inv': "pool_inv s'" using run_inv [OF reachable_inv [OF run] later] .
  have "(j, i) \<in> set (matched s')" using run_lost [OF later lost] by simp
  then have "1 \<le> count (mset (map fst (matched s'))) j"
    by (metis count_greater_eq_one_iff fst_conv image_eqI list.set_map set_mset_mset)
  moreover have "count (mset (map fst (matched s'))) j + count (mset (finished s')) j \<le> count (job_places s') j"
    by (simp add: job_places_def)
  moreover have "count (job_places s') j \<le> 1"
    using inv' distinct_count_atmost_1 [THEN iffD1, OF distinct_upt] by (simp add: pool_inv_def)
  ultimately have "count (mset (finished s')) j = 0" by linarith
  then show ?thesis by (metis count_eq_zero_iff set_mset_mset)
qed

end

section \<open>Every request gets its own answer\<close>

fun own_context :: "'p event \<Rightarrow> bool" where
  "own_context (ECtxPush _ _ _ _ _ _) = False"
| "own_context _ = True"

locale private_job_server = job_server exec for exec :: "nat \<Rightarrow> 'p World \<Rightarrow> 'p World option" +
  fixes answer :: "string \<Rightarrow> 'p iface \<Rightarrow> 'p iface"
  assumes exec_private:
    "well_linked w \<Longrightarrow> j < length (jobs w) \<Longrightarrow> c_job (ctxs w ! j_context (job w j)) = Some j \<Longrightarrow>
      unstarted (job w j) \<Longrightarrow>
      \<exists>w' x. exec j w = Some w' \<and> ctxs w' = ctxs w \<and> jobs w' = (jobs w)[j := x] \<and>
        j_context x = j_context (job w j) \<and> j_response x = [answer (j_meth (job w j)) (j_payload (job w j))]"
begin

definition job_ok :: "'p Pool \<Rightarrow> nat \<Rightarrow> bool" where
  "job_ok s j \<longleftrightarrow>
     (let x = job (p_world s) j
      in j_context x < length (ctxs (p_world s)) \<and> c_job (ctxs (p_world s) ! j_context x) = Some j \<and>
         (if j \<in> set (finished s)
          then j_response x = [] \<or> j_response x = [answer (fst (asked s ! j)) (snd (asked s ! j))]
          else unstarted x \<and> asked s ! j = (j_meth x, j_payload x)))"

definition reply_ok :: "'p Pool \<Rightarrow> nat \<times> 'p reply \<Rightarrow> bool" where
  "reply_ok s a \<longleftrightarrow> fst a < length (asked s) \<and>
     (snd a = TimedOut \<or>
      snd a = Replied (req_return (answer (fst (asked s ! fst a)) (snd (asked s ! fst a)))))"

definition private_inv :: "'p Pool \<Rightarrow> bool" where
  "private_inv s \<longleftrightarrow> pool_inv s \<and> (\<forall>j < length (asked s). job_ok s j) \<and>
     (\<forall>j \<in> set (requesters s). j < length (asked s)) \<and> (\<forall>a \<in> set (replies s). reply_ok s a)"

lemma job_ok_cong:
  "p_world s' = p_world s \<Longrightarrow> finished s' = finished s \<Longrightarrow> asked s' = asked s \<Longrightarrow> job_ok s' j = job_ok s j"
  by (simp add: job_ok_def)

lemma reply_ok_cong: "asked s' = asked s \<Longrightarrow> reply_ok s' a = reply_ok s a"
  by (simp add: reply_ok_def)

text \<open>Events that move a job or a worker along.\<close>

lemma private_move:
  assumes "private_inv s" "pool_step exec e s = Some s'"
    and "p_world s' = p_world s" "finished s' = finished s" "asked s' = asked s"
    and "\<forall>j \<in> set (requesters s'). j < length (asked s)" "\<forall>a \<in> set (replies s'). reply_ok s a"
  shows "private_inv s'"
  using assms step_inv [OF _ assms(2)]
  by (simp add: private_inv_def job_ok_cong [OF assms(3-5)] reply_ok_cong [OF assms(5)])

lemma private_push:
  assumes "private_inv s"
  shows "private_inv (package_push r meth pl opts rid s)" (is "private_inv ?s'")
proof -
  let ?n = "length (asked s)"
  have len: "length (jobs (p_world s)) = ?n" using assms by (simp add: private_inv_def pool_inv_def)
  have fresh: "?n \<notin> set (finished s)"
  proof
    assume "?n \<in> set (finished s)"
    then have "?n \<in># job_places s" by (simp add: job_places_def)
    then show False using assms len by (auto simp: private_inv_def pool_inv_def)
  qed
  have inv': "pool_inv ?s'"
    using step_inv [of s "EPush r meth pl opts rid" ?s'] assms by (simp add: private_inv_def)
  have asked': "asked ?s' = asked s @ [(meth, pl)]" and fin': "finished ?s' = finished s"
    and req': "requesters ?s' = requesters s" and rep': "replies ?s' = replies s"
    by (simp_all add: package_push_def pool_push_def NewContext_def NewJob_def Let_def)
  have old: "job_ok ?s' j" if "j < ?n" for j
    using assms that len
    by (auto simp: private_inv_def job_ok_def package_push_def pool_push_def NewContext_def NewJob_def Let_def
        nth_append nth_list_update)
  moreover have "job_ok ?s' ?n"
    using fresh len
    by (auto simp: job_ok_def package_push_def pool_push_def NewContext_def NewJob_def Let_def nth_append
        unstarted_def)
  moreover have "reply_ok ?s' a" if "reply_ok s a" for a
    using that by (auto simp: reply_ok_def asked' nth_append)
  ultimately show ?thesis
    using assms inv' by (auto simp: private_inv_def asked' req' rep' less_Suc_eq)
qed

lemma private_step:
  assumes inv: "private_inv s" and step: "pool_step exec e s = Some s'" and own: "own_context e"
  shows "private_inv s'"
proof (cases e)
  case (EPush r meth pl opts rid)
  then have "s' = package_push r meth pl opts rid s" using step by simp
  then show ?thesis using private_push [OF inv] by simp
next
  case (EDispatch j r)
  then have q: "(j, r) \<in> set (queue s)" using step by (simp split: if_splits)
  then have "j \<in># job_places s" by (force simp: job_places_def)
  then have "j < length (asked s)" using inv by (simp add: private_inv_def pool_inv_def)
  then show ?thesis using inv step EDispatch
    by (intro private_move [OF inv step]) (auto simp: private_inv_def split: if_splits)
next
  case (EFinish i)
  then obtain j w' where w: "at_worker s i = Some (Running j)" "exec j (p_world s) = Some w'"
    and s': "s' = set_worker i Registering (s\<lparr>p_world := w', finished := finished s @ [j]\<rparr>)"
    using step by (auto split: option.splits worker_state.splits)
  have pinv: "pool_inv s" using inv by (simp add: private_inv_def)
  note once = job_once [OF pinv w(1)]
  have len: "length (jobs (p_world s)) = length (asked s)" using pinv by (simp add: pool_inv_def)
  have ok: "job_ok s j" using inv once(1) len by (simp add: private_inv_def)
  then obtain x where x: "ctxs w' = ctxs (p_world s)" "jobs w' = (jobs (p_world s))[j := x]"
    "j_context x = j_context (job (p_world s) j)"
    "j_response x = [answer (fst (asked s ! j)) (snd (asked s ! j))]"
    using exec_private [of "p_world s" j] once w(2) pinv
    by (auto simp: job_ok_def Let_def pool_inv_def)
  have "job_ok s' k" if "k < length (asked s)" for k
  proof (cases "k = j")
    case True
    then show ?thesis using ok x once(1) by (simp add: job_ok_def s' Let_def)
  next
    case False
    then show ?thesis using inv that x by (auto simp: private_inv_def job_ok_def s' Let_def)
  qed
  moreover have "reply_ok s' a = reply_ok s a" for a by (rule reply_ok_cong) (simp add: s')
  ultimately show ?thesis using inv step_inv [OF pinv step] by (simp add: private_inv_def s')
next
  case (EReceive j)
  then obtain v vs where j: "j \<in> set (requesters s)" "j_response (job (p_world s) j) = v # vs"
    and s': "s' = s\<lparr>requesters := remove1 j (requesters s), replies := replies s @ [(j, Replied (req_return v))],
      p_world := on_job j (\<lambda>x. x\<lparr>j_response := []\<rparr>) (p_world s)\<rparr>"
    using step by (auto split: if_splits list.splits)
  have pinv: "pool_inv s" using inv by (simp add: private_inv_def)
  have len: "length (jobs (p_world s)) = length (asked s)" using pinv by (simp add: pool_inv_def)
  have j': "j < length (asked s)" "job_ok s j" using inv j(1) by (simp_all add: private_inv_def)
  then have v: "v = answer (fst (asked s ! j)) (snd (asked s ! j))"
    using j(2) by (auto simp: job_ok_def Let_def unstarted_def split: if_splits)
  have "job_ok s' k" if "k < length (asked s)" for k
    using inv that len j'
    by (cases "k = j") (auto simp: private_inv_def job_ok_def s' Let_def on_job_def unstarted_def)
  moreover have same: "reply_ok s' a = reply_ok s a" for a by (rule reply_ok_cong) (simp add: s')
  moreover have "reply_ok s (j, Replied (req_return v))" using j' v by (simp add: reply_ok_def)
  moreover have "\<forall>k \<in> set (requesters s'). k < length (asked s)"
    using inv by (auto simp: private_inv_def s' dest: set_remove1_subset [THEN subsetD])
  ultimately show ?thesis using inv step_inv [OF pinv step] by (auto simp: private_inv_def s')
next
  case (ETimeout j)
  then show ?thesis using inv step
    by (intro private_move [OF inv step])
      (auto simp: private_inv_def reply_ok_def split: if_splits dest: set_remove1_subset [THEN subsetD])
qed (rule private_move [OF inv step];
    use inv step own in \<open>auto simp: private_inv_def split: if_splits list.splits\<close>)+

lemma private_run:
  "private_inv s \<Longrightarrow> pool_run exec es s = Some s' \<Longrightarrow> list_all own_context es \<Longrightarrow> private_inv s'"
  by (induction es arbitrary: s) (auto split: option.splits dest: private_step)

lemma replies_right:
  assumes "pool_run exec es (Pool_Start (NewWorkerPool name n)) = Some s" "list_all own_context es"
    "(j, r) \<in> set (replies s)"
  shows "j < length (asked s) \<and> (r = TimedOut \<or>
    r = Replied (req_return (answer (fst (asked s ! j)) (snd (asked s ! j)))))"
proof -
  have "private_inv (Pool_Start (NewWorkerPool name n))"
    using start_inv [of name n] by (simp add: private_inv_def Pool_Start_def NewWorkerPool_def)
  from private_run [OF this assms(1,2)] assms(3) show ?thesis
    by (auto simp: private_inv_def reply_ok_def)
qed

end

section \<open>The contract holds\<close>

type_synonym 'p routes_spec =
  "string \<Rightarrow> (('p iface \<Rightarrow> go_error option) list \<times> ('p iface \<Rightarrow> 'p step_result) list) option"

text \<open>Routes added by \<open>Add\<close> and given their middlewares by \<open>Use\<close>, and what they compute.\<close>

definition step_routes :: "'p routes_spec \<Rightarrow> string \<Rightarrow> 'p JobRoute option" where
  "step_routes R meth = map_option (\<lambda>(gs, fs). step_route meth gs fs) (R meth)"

definition step_function :: "('p iface \<Rightarrow> 'p step_result) \<Rightarrow> 'p routes_spec \<Rightarrow> string \<Rightarrow> 'p iface \<Rightarrow> 'p step_result" where
  "step_function d R meth =
     (if meth = [] then d
      else case R meth of
        Some (gs, f # fs) \<Rightarrow> guarded gs (run_steps (f # fs))
      | _ \<Rightarrow> d)"

abbreviation step_exec :: "('p iface list \<Rightarrow> string option) \<Rightarrow> ('p iface \<Rightarrow> 'p step_result) \<Rightarrow> 'p routes_spec
    \<Rightarrow> nat \<Rightarrow> 'p World \<Rightarrow> 'p World option" where
  "step_exec marshal d R \<equiv> run_job marshal (Some (step_handler d)) (step_routes R)"

lemma worker_handler_implements:
  obtains h where "worker_handler marshal (Some (step_handler d)) (step_routes R) x = Some h"
    "implements h (step_function d R (j_meth x))"
proof (cases "\<exists>gs f fs. j_meth x \<noteq> [] \<and> R (j_meth x) = Some (gs, f # fs)")
  case True
  then obtain gs f fs where "j_meth x \<noteq> []" "R (j_meth x) = Some (gs, f # fs)" by blast
  then show ?thesis
    using that implements_jobHandler [of "f # fs" marshal "j_meth x" gs]
    by (simp add: worker_handler_def step_routes_def step_function_def)
next
  case False
  then have "worker_handler marshal (Some (step_handler d)) (step_routes R) x = Some (step_handler d)"
    "step_function d R (j_meth x) = d"
    by (auto simp: worker_handler_def step_routes_def step_function_def neq_Nil_conv
        split: option.split list.split prod.split)
  then show ?thesis using that implements_step_handler [of d] by simp
qed

lemma run_job_steps:
  assumes "c_job (ctxs w ! j_context (job w j)) = Some k" "j < length (jobs w)" "k < length (jobs w)"
    "j_response (job w j) = []"
  obtains w' x y where "step_exec marshal d R j w = Some w'" "ctxs w' = ctxs w"
    "jobs w' = (jobs w)[k := y, j := x]" "j_context y = j_context (job w k)" "j_context x = j_context (job w j)"
    "j_response y = j_response (job w k)"
    "j_response x = [answer_for (step_function d R (j_meth (job w j)) (j_payload (job w k))) (k = j) (job w j)]"
proof -
  obtain h where h: "worker_handler marshal (Some (step_handler d)) (step_routes R) (job w j) = Some h"
    "implements h (step_function d R (j_meth (job w j)))" by (rule worker_handler_implements)
  have "step_exec marshal d R j w = Do marshal (Some h) j w" by (simp add: run_job_def h(1))
  with that show ?thesis by (metis Do_implements [OF h(2) assms, of marshal])
qed

interpretation step_pool: private_job_server "step_exec marshal d R"
    "\<lambda>meth p. answer_of (step_function d R meth p)" for marshal d R
proof
  fix w :: "'a World" and j
  assume linked: "well_linked w" and j: "j < length (jobs w)" and r: "j_response (job w j) = []"
  then obtain k where k: "c_job (ctxs w ! j_context (job w j)) = Some k" "k < length (jobs w)"
    unfolding well_linked_def by (metis nth_mem)
  obtain w' x y where w': "step_exec marshal d R j w = Some w'" "ctxs w' = ctxs w"
    "jobs w' = (jobs w)[k := y, j := x]" "j_context y = j_context (job w k)" "j_context x = j_context (job w j)"
    "j_response y = j_response (job w k)" and v: "\<exists>v. j_response x = [v]"
    using run_job_steps [OF k(1) j k(2) r, of marshal d R] by metis
  have "same_links w w'"
    unfolding same_links_def w'(2,3) map_update w'(4,5) by (metis list_update_id map_update)
  moreover have "\<exists>v. map j_response (jobs w') = (map j_response (jobs w))[j := [v]]"
    using v unfolding w'(3) map_update w'(6) by (metis list_update_id map_update)
  ultimately show "\<exists>w' v. step_exec marshal d R j w = Some w' \<and> same_links w w' \<and>
      map j_response (jobs w') = (map j_response (jobs w))[j := [v]]" using w'(1) by blast
next
  fix w :: "'a World" and j
  assume linked: "well_linked w" and j: "j < length (jobs w)"
    and c: "c_job (ctxs w ! j_context (job w j)) = Some j" and u: "unstarted (job w j)"
  have r: "j_response (job w j) = []" using u by (simp add: unstarted_def)
  let ?f = "step_function d R (j_meth (job w j)) (j_payload (job w j))"
  obtain w' x y where w': "step_exec marshal d R j w = Some w'" "ctxs w' = ctxs w"
    "jobs w' = (jobs w)[j := y, j := x]" "j_context x = j_context (job w j)"
    "j_response x = [answer_for ?f (j = j) (job w j)]"
    using run_job_steps [OF c j j r, of marshal d R] by metis
  have "answer_for ?f (j = j) (job w j) = answer_of ?f"
    using u by (cases ?f) (simp_all add: answer_for_def unstarted_def)
  with w' show "\<exists>w' x. step_exec marshal d R j w = Some w' \<and> ctxs w' = ctxs w \<and> jobs w' = (jobs w)[j := x] \<and>
      j_context x = j_context (job w j) \<and> j_response x = [answer_of ?f]"
    by (intro exI [of _ w'] exI [of _ x]) simp
qed

section \<open>Properties\<close>

text \<open>C25: In every reachable state of a started pool, whatever the order of its goroutines, every pushed job is
  in exactly one place (waiting to be queued, for a worker, or at a worker's channel, running, or run
  once), and a worker's channel is offered once when the worker waits or has returned, and not otherwise.\<close>

theorem jobs_run_once:
  assumes "pool_run (step_exec marshal d R) es (Pool_Start (NewWorkerPool name n)) = Some s"
  shows "mset (map fst (queue s)) + mset (waiting s) + mset (map fst (matched s))
      + mset (concat (map running_jobs (workers s))) + mset (finished s) = mset [0..<length (asked s)]
    \<and> mset (idle s) + mset (map snd (matched s)) = mset (filter (\<lambda>i. is_parked (workers s ! i)) [0..<n])"
  using step_pool.reachable_inv [OF assms] run_p_max [OF assms]
  unfolding pool_inv_def job_places_def token_places_def running_list_def parked_def
  by (simp add: Pool_Start_def NewWorkerPool_def del: mset_map mset_filter mset_upt)

text \<open>C6: A started pool that is not ended and has a worker answers everything: whatever was pushed, and in
  whatever order its goroutines then move, after at most \<open>6 * jobs + workers\<close> moves none is left, and when none
  is left every job has been run, once.\<close>

theorem pool_runs_every_job:
  assumes "pool_run (step_exec marshal d R) es (Pool_Start (NewWorkerPool name n)) = Some s"
    and "EEnd \<notin> set es" "0 < n"
    and "pool_run (step_exec marshal d R) es' s = Some s'" "list_all internal es'"
  shows "length es' \<le> 6 * length (asked s) + n \<and>
    ((\<forall>e. internal e \<longrightarrow> pool_step (step_exec marshal d R) e s' = None) \<longrightarrow>
      mset (finished s') = mset [0..<length (asked s)])"
  using step_pool.quiescent_done [OF assms] by blast

text \<open>C3: A request made through the package's functions, which give each job a context of its own, returns in every
  interleaving either a timeout or exactly what its own method's guards and chained handlers compute from its own
  payload, errors and recovered panics included.\<close>

theorem request_gets_own_answer:
  assumes "pool_run (step_exec marshal d R) es (Pool_Start (NewWorkerPool name n)) = Some s"
    and "list_all own_context es" "(j, r) \<in> set (replies s)"
  shows "j < length (asked s) \<and> (r = TimedOut \<or>
    r = Replied (req_return (answer_of (step_function d R (fst (asked s ! j)) (snd (asked s ! j))))))"
  using assms by (rule step_pool.replies_right)

text \<open>\<open>End\<close> can lose jobs: a worker that returns leaves its channel in the pool, and a job that is
  matched with it is never run, whatever happens afterwards.\<close>

lemma end_loses_job:
  assumes "pool_run (step_exec marshal d R) es (Pool_Start (NewWorkerPool name n)) = Some s"
    and "(j, i) \<in> set (matched s)" "at_worker s i = Some Stopped"
    and "pool_run (step_exec marshal d R) es' s = Some s'"
  shows "j \<notin> set (finished s')"
  using assms by (rule step_pool.lost_not_run)

text \<open>
  A job whose context was given another job before it ran is answered with nil: its handler worked on the other job.
\<close>

lemma shared_context_answers_nil:
  assumes "c_job (ctxs w ! j_context (job w j)) = Some k" "k \<noteq> j" "j < length (jobs w)" "k < length (jobs w)"
    and "unstarted (job w j)" "step_function d R (j_meth (job w j)) (j_payload (job w k)) = SOk v"
  shows "\<exists>w'. step_exec marshal d R j w = Some w' \<and> j_response (job w' j) = [INil]"
proof -
  have "j_response (job w j) = []" using assms(5) by (simp add: unstarted_def)
  from run_job_steps [OF assms(1,3,4) this, of marshal d R] obtain w' x y
    where "step_exec marshal d R j w = Some w'" "jobs w' = (jobs w)[k := y, j := x]"
      "j_response x = [answer_for (SOk v) (k = j) (job w j)]" unfolding assms(6) by metis
  then show ?thesis using assms by (intro exI [of _ w']) (simp add: answer_for_def unstarted_def)
qed

section \<open>The properties at concrete inputs\<close>

definition add_one :: "nat iface \<Rightarrow> nat step_result" where
  "add_one p = (case p of IVal k \<Rightarrow> SOk (IVal (k + 1)) | _ \<Rightarrow> SErr (GoErr ''no number''))"

definition example_routes :: "nat routes_spec" where
  "example_routes = [''inc'' \<mapsto> ([], [add_one, add_one])]"

abbreviation example_run :: "nat event list \<Rightarrow> nat Pool \<Rightarrow> nat Pool option" where
  "example_run \<equiv> pool_run (step_exec (\<lambda>_. None) SOk example_routes)"

lemmas example_defs = example_routes_def add_one_def Pool_Start_def NewWorkerPool_def package_push_def pool_push_def
  NewContext_def NewJob_def at_worker_def set_worker_def run_job_def worker_handler_def step_routes_def
  Do_def jobHandler_def Chain_def step_handler_def SetResult_def on_job_def Continue_def
  Response_def Job_answer_def req_return_def

text \<open>One worker, one request, run to its end.\<close>

definition example_pushes :: "nat event list" where
  "example_pushes = [EPush True ''inc'' (IVal 1) [] ''id'']"

definition example_moves :: "nat event list" where
  "example_moves = [ERegister 0, EDispatch 0 True, ETake 0, EDeliver 0 0, EFinish 0, ERegister 0]"

lemma example_served: "\<exists>s s'. example_run example_pushes (Pool_Start (NewWorkerPool ''w'' 1)) = Some s \<and>
    example_run example_moves s = Some s' \<and> queue s' = [] \<and> waiting s' = [] \<and> matched s' = [] \<and>
    workers s' = [Selecting]"
  by (simp add: example_pushes_def example_moves_def example_defs)

lemma example_stuck:
  "queue s = [] \<Longrightarrow> waiting s = [] \<Longrightarrow> matched s = [] \<Longrightarrow> workers s = [Selecting] \<Longrightarrow> internal e \<Longrightarrow>
    pool_step exec e s = None"
  by (cases e) (auto simp: at_worker_def)

theorem jobs_run_once_witness:
  "\<exists>s. example_run (example_pushes @ example_moves) (Pool_Start (NewWorkerPool ''w'' 1)) = Some s \<and>
     mset (map fst (queue s)) + mset (waiting s) + mset (map fst (matched s))
       + mset (concat (map running_jobs (workers s))) + mset (finished s) = mset [0..<length (asked s)]"
proof -
  obtain s where s: "example_run (example_pushes @ example_moves) (Pool_Start (NewWorkerPool ''w'' 1)) = Some s"
    by (simp add: example_pushes_def example_moves_def example_defs)
  from s jobs_run_once [OF s] show ?thesis by blast
qed

theorem pool_runs_every_job_witness:
  "\<exists>s s'. example_run example_pushes (Pool_Start (NewWorkerPool ''w'' 1)) = Some s \<and>
     example_run example_moves s = Some s' \<and> mset (finished s') = mset [0..<length (asked s)]"
proof -
  obtain s s' where s: "example_run example_pushes (Pool_Start (NewWorkerPool ''w'' 1)) = Some s"
    "example_run example_moves s = Some s'" "queue s' = []" "waiting s' = []" "matched s' = []"
    "workers s' = [Selecting]" using example_served by blast
  have "EEnd \<notin> set example_pushes" "list_all internal example_moves"
    by (simp_all add: example_pushes_def example_moves_def)
  from pool_runs_every_job [OF s(1) this(1) _ s(2) this(2)] s(1,2) example_stuck [OF s(3-6)]
  show ?thesis by auto
qed

theorem request_gets_own_answer_witness:
  "\<exists>s. example_run (example_pushes @ example_moves @ [EReceive 0]) (Pool_Start (NewWorkerPool ''w'' 1)) = Some s \<and>
     replies s = [(0, Replied (IVal 3, None))] \<and>
     Replied (IVal 3, None) = Replied (req_return (answer_of (step_function SOk example_routes ''inc'' (IVal 1))))"
proof -
  obtain s where s: "example_run (example_pushes @ example_moves @ [EReceive 0]) (Pool_Start (NewWorkerPool ''w'' 1)) = Some s"
    "replies s = [(0, Replied (IVal 3, None))]" "asked s = [(''inc'', IVal 1)]"
    by (simp add: example_pushes_def example_moves_def example_defs)
  have "list_all own_context (example_pushes @ example_moves @ [EReceive 0])"
    by (simp add: example_pushes_def example_moves_def)
  from request_gets_own_answer [OF s(1) this, of 0 "Replied (IVal 3, None)"] s show ?thesis by simp
qed

lemma end_loses_job_witness:
  "\<exists>s s'. example_run ([ERegister 0, EEnd, EQuit 0] @ example_pushes @ [EDispatch 0 True, ETake 0])
       (Pool_Start (NewWorkerPool ''w'' 1)) = Some s \<and>
     example_run [ETimeout 0] s = Some s' \<and> 0 \<notin> set (finished s')"
proof -
  obtain s s' where s: "example_run ([ERegister 0, EEnd, EQuit 0] @ example_pushes @ [EDispatch 0 True, ETake 0])
       (Pool_Start (NewWorkerPool ''w'' 1)) = Some s" "(0, 0) \<in> set (matched s)" "at_worker s 0 = Some Stopped"
     "example_run [ETimeout 0] s = Some s'"
    by (simp add: example_pushes_def example_defs)
  from end_loses_job [OF s] s show ?thesis by blast
qed

end
