(* ===== verification/WCache.thy ===== *)
theory WCache
  imports Prelude
begin

unbundle bit_operations_syntax

text \<open>
  The in-memory cache: \<open>cache/cache.go\<close> and \<open>cache/bucket.go\<close>.

  A key is a byte slice, \<open>None\<close> for nil. The hash function (murmur3, third party) is the
  parameter \<open>hashFunc\<close>; the clock is the argument \<open>now\<close> in Unix seconds. Every
  operation holds the lock of its bucket, so operations are atomic steps here; the locks
  themselves, and the counters that only monitoring reads, are kept as plain fields. Index
  arithmetic stays inside the arrays: a slot starts at 120 or below and has 8 entries.
\<close>

section \<open>Data\<close>

type_synonym bytes = "string option"

record 'v entry =
  e_key :: bytes
  e_value :: "'v option"
  e_accessTime :: "32 word"
  e_expireAt :: "32 word"
  e_hash16 :: "16 word"
  e_slotId :: "8 word"

definition zero_entry :: "'v entry" where
  "zero_entry = \<lparr>e_key = None, e_value = None, e_accessTime = 0, e_expireAt = 0, e_hash16 = 0, e_slotId = 0\<rparr>"

record 'v bucket =
  b_id :: nat
  slots :: "'v entry list"
  entryCount :: int
  totalCount :: int
  totalTime :: int
  totalEvacuate :: int
  totalExpired :: int
  overwrites :: int

record 'v Cache =
  buckets :: "'v bucket list"
  hitCount :: int
  missCount :: int

datatype cache_error = ErrLargeKey | ErrNotFound

definition newBucket :: "nat \<Rightarrow> 'v bucket" where
  "newBucket i = \<lparr>b_id = i, slots = replicate 256 zero_entry, entryCount = 0, totalCount = 0,
     totalTime = 0, totalEvacuate = 0, totalExpired = 0, overwrites = 0\<rparr>"

definition key_length :: "bytes \<Rightarrow> nat" where
  "key_length key = (case key of None \<Rightarrow> 0 | Some s \<Rightarrow> length s)"

definition key_string :: "bytes \<Rightarrow> string" where
  "key_string key = (case key of None \<Rightarrow> [] | Some s \<Rightarrow> s)"

section \<open>Buckets\<close>

text \<open>\<open>uint8(hashVal>>8) >> 4\<close> and \<open>uint16(hashVal >> 16)\<close>.\<close>

definition slot_of :: "64 word \<Rightarrow> 8 word" where
  "slot_of hashVal = drop_bit 4 (ucast (drop_bit 8 hashVal))"

definition hash16_of :: "64 word \<Rightarrow> 16 word" where
  "hash16_of hashVal = ucast (drop_bit 16 hashVal)"

text \<open>Binary search for the first entry whose hash is not below.\<close>

function entryIdx_loop :: "'v entry list \<Rightarrow> 16 word \<Rightarrow> nat \<Rightarrow> nat \<Rightarrow> nat" where
  "entryIdx_loop slot hash16 idx high =
     (if idx < high then
        let mid = (idx + high) div 2
        in if e_hash16 (slot ! mid) < hash16 then entryIdx_loop slot hash16 (mid + 1) high
           else entryIdx_loop slot hash16 idx mid
      else idx)"
  by pat_completeness auto
termination
  by (relation "measure (\<lambda>(slot, hash16, idx, high). high - idx)") auto

declare entryIdx_loop.simps [simp del]

definition entryIdx :: "'v entry list \<Rightarrow> 16 word \<Rightarrow> nat" where
  "entryIdx slot hash16 = entryIdx_loop slot hash16 0 (length slot - 1)"

function lookup_loop :: "'v entry list \<Rightarrow> 16 word \<Rightarrow> bytes \<Rightarrow> nat \<Rightarrow> nat \<times> bool" where
  "lookup_loop slot hash16 key idx =
     (if idx < length slot then
        let ent = slot ! idx
        in if e_hash16 ent \<noteq> hash16 then (idx, False)
           else
             let m = (e_key ent \<noteq> None \<and> key_string (e_key ent) = key_string key)
             in if m \<or> idx = length slot - 1 then (idx, m)
                else lookup_loop slot hash16 key (idx + 1)
      else (idx, False))"
  by pat_completeness auto
termination
  by (relation "measure (\<lambda>(slot, hash16, key, idx). length slot - idx)") auto

declare lookup_loop.simps [simp del]

definition lookup :: "'v entry list \<Rightarrow> 16 word \<Rightarrow> bytes \<Rightarrow> nat \<times> bool" where
  "lookup slot hash16 key = lookup_loop slot hash16 key (entryIdx slot hash16)"

definition the_slot :: "'v bucket \<Rightarrow> nat \<Rightarrow> 'v entry list" where
  "the_slot bkt start = take 8 (drop start (slots bkt))"

definition slot_start :: "64 word \<Rightarrow> nat" where
  "slot_start hashVal = unat (slot_of hashVal) * 8"

definition bucket_set ::
  "bytes \<Rightarrow> 'v \<Rightarrow> 64 word \<Rightarrow> int \<Rightarrow> int \<Rightarrow> 'v bucket \<Rightarrow> cache_error option \<times> 'v bucket" where
  "bucket_set key value hashVal expireSeconds now bkt =
     (if key_length key > 65535 then (Some ErrLargeKey, bkt)
      else
        let now32 = word_of_int now :: 32 word;
            expireAt = (if expireSeconds > 0 then now32 + word_of_int expireSeconds else 0);
            hash16 = hash16_of hashVal;
            ent = \<lparr>e_key = key, e_value = Some value, e_accessTime = 0, e_expireAt = expireAt,
                   e_hash16 = hash16, e_slotId = slot_of hashVal\<rparr>;
            start = slot_start hashVal;
            (offset, found) = lookup (the_slot bkt start) hash16 key
        in (None, bkt\<lparr>slots := (slots bkt)[start + offset := ent]\<rparr>))"

definition bucket_get ::
  "bytes \<Rightarrow> 64 word \<Rightarrow> int \<Rightarrow> 'v bucket \<Rightarrow> (cache_error + 'v option) \<times> 'v bucket" where
  "bucket_get key hashVal now bkt =
     (if key_length key > 65535 then (Inl ErrLargeKey, bkt)
      else
        let hash16 = hash16_of hashVal;
            start = slot_start hashVal;
            (offset, found) = lookup (the_slot bkt start) hash16 key
        in if found then
             let now32 = word_of_int now :: 32 word; ent = slots bkt ! (start + offset)
             in if e_expireAt ent \<noteq> 0 \<and> e_expireAt ent \<le> now32
                then (Inl ErrNotFound, bkt\<lparr>totalExpired := totalExpired bkt + 1\<rparr>)
                else (Inr (e_value ent), bkt)
           else (Inl ErrNotFound, bkt))"

definition bucket_ttl :: "bytes \<Rightarrow> 64 word \<Rightarrow> 'v bucket \<Rightarrow> 32 word" where
  "bucket_ttl key hashVal bkt = 0"

text \<open>The named result \<open>affected\<close> is never assigned.\<close>

definition bucket_del :: "bytes \<Rightarrow> 64 word \<Rightarrow> 'v bucket \<Rightarrow> bool \<times> 'v bucket" where
  "bucket_del key hashVal bkt =
     (if key_length key > 65535 then (False, bkt)
      else
        let hash16 = hash16_of hashVal;
            start = slot_start hashVal;
            (offset, found) = lookup (the_slot bkt start) hash16 key
        in (False, if found then bkt\<lparr>slots := (slots bkt)[start + offset := zero_entry]\<rparr> else bkt))"

definition resetStatistics :: "'v bucket \<Rightarrow> 'v bucket" where
  "resetStatistics bkt = bkt\<lparr>totalEvacuate := 0, totalExpired := 0, overwrites := 0\<rparr>"

section \<open>The cache\<close>

definition NewCache :: "'v Cache" where
  "NewCache = \<lparr>buckets = map newBucket [0..<256], hitCount = 0, missCount = 0\<rparr>"

definition bktId :: "64 word \<Rightarrow> nat" where
  "bktId hashVal = unat (hashVal AND 255)"

definition Cache_Set ::
  "(string \<Rightarrow> 64 word) \<Rightarrow> bytes \<Rightarrow> 'v \<Rightarrow> int \<Rightarrow> int \<Rightarrow> 'v Cache \<Rightarrow> cache_error option \<times> 'v Cache" where
  "Cache_Set hashFunc key value expireSeconds now c =
     (let hashVal = hashFunc (key_string key); i = bktId hashVal;
          (err, bkt) = bucket_set key value hashVal expireSeconds now (buckets c ! i)
      in (err, c\<lparr>buckets := (buckets c)[i := bkt]\<rparr>))"

definition Cache_Get ::
  "(string \<Rightarrow> 64 word) \<Rightarrow> bytes \<Rightarrow> int \<Rightarrow> 'v Cache \<Rightarrow> (cache_error + 'v option) \<times> 'v Cache" where
  "Cache_Get hashFunc key now c =
     (let hashVal = hashFunc (key_string key); i = bktId hashVal;
          (res, bkt) = bucket_get key hashVal now (buckets c ! i);
          c' = c\<lparr>buckets := (buckets c)[i := bkt]\<rparr>
      in (res, case res of
            Inr v \<Rightarrow> c'\<lparr>hitCount := hitCount c + 1\<rparr>
          | Inl e \<Rightarrow> c'\<lparr>missCount := missCount c + 1\<rparr>))"

definition Cache_TTL :: "(string \<Rightarrow> 64 word) \<Rightarrow> bytes \<Rightarrow> 'v Cache \<Rightarrow> 32 word" where
  "Cache_TTL hashFunc key c =
     (let hashVal = hashFunc (key_string key) in bucket_ttl key hashVal (buckets c ! bktId hashVal))"

definition Cache_Del :: "(string \<Rightarrow> 64 word) \<Rightarrow> bytes \<Rightarrow> 'v Cache \<Rightarrow> bool \<times> 'v Cache" where
  "Cache_Del hashFunc key c =
     (let hashVal = hashFunc (key_string key); i = bktId hashVal;
          (affected, bkt) = bucket_del key hashVal (buckets c ! i)
      in (affected, c\<lparr>buckets := (buckets c)[i := bkt]\<rparr>))"

definition sum_buckets :: "('v bucket \<Rightarrow> int) \<Rightarrow> 'v Cache \<Rightarrow> int" where
  "sum_buckets f c = foldl (\<lambda>count b. count + f b) 0 (buckets c)"

definition EvacuateCount :: "'v Cache \<Rightarrow> int" where "EvacuateCount c = sum_buckets totalEvacuate c"
definition ExpiredCount :: "'v Cache \<Rightarrow> int" where "ExpiredCount c = sum_buckets totalExpired c"
definition EntryCount :: "'v Cache \<Rightarrow> int" where "EntryCount c = sum_buckets entryCount c"
definition OverwriteCount :: "'v Cache \<Rightarrow> int" where "OverwriteCount c = sum_buckets overwrites c"

definition AverageAccessTime :: "'v Cache \<Rightarrow> int" where
  "AverageAccessTime c =
     (if sum_buckets totalCount c = 0 then 0
      else sum_buckets totalTime c div sum_buckets totalCount c)"

definition LookupCount :: "'v Cache \<Rightarrow> int" where
  "LookupCount c = hitCount c + missCount c"

definition Cache_Clear :: "'v Cache \<Rightarrow> 'v Cache" where
  "Cache_Clear c = \<lparr>buckets = map newBucket [0..<256], hitCount = 0, missCount = 0\<rparr>"

definition Cache_ResetStatistics :: "'v Cache \<Rightarrow> 'v Cache" where
  "Cache_ResetStatistics c =
     c\<lparr>hitCount := 0, missCount := 0, buckets := map resetStatistics (buckets c)\<rparr>"

section \<open>Where an entry can be\<close>

text \<open>The first seven entries of a slot are never written.\<close>

definition sparse :: "'v entry list \<Rightarrow> bool" where
  "sparse slot \<longleftrightarrow> length slot = 8 \<and> (\<forall>i < 7. slot ! i = zero_entry)"

lemma entryIdx_pos:
  assumes "sparse slot" "0 < h" "high \<le> 7"
  shows "idx \<le> high \<Longrightarrow> entryIdx_loop slot h idx high = high"
  using assms
proof (induction slot h idx high rule: entryIdx_loop.induct)
  case (1 slot h idx high)
  show ?case
  proof (cases "idx < high")
    case True
    then have "(idx + high) div 2 < 7" using 1 by auto
    then have "e_hash16 (slot ! ((idx + high) div 2)) = 0"
      using 1 by (simp add: sparse_def zero_entry_def)
    with True 1 show ?thesis
      by (subst entryIdx_loop.simps) (simp add: Let_def)
  next
    case False
    with 1 show ?thesis by (subst entryIdx_loop.simps) simp
  qed
qed

lemma entryIdx_zero: "entryIdx_loop slot 0 idx high = idx"
proof (induction slot "0 :: 16 word" idx high rule: entryIdx_loop.induct)
  case (1 slot idx high)
  then show ?case by (subst entryIdx_loop.simps) (simp add: Let_def)
qed

lemma lookup_zero_run:
  assumes "sparse slot" "idx \<le> 7"
  shows "lookup_loop slot 0 key idx
    = (7, e_hash16 (slot ! 7) = 0 \<and> e_key (slot ! 7) \<noteq> None \<and> key_string (e_key (slot ! 7)) = key_string key)"
  using assms(2)
proof (induction "7 - idx" arbitrary: idx)
  case 0
  then have "idx = 7" by simp
  with assms(1) show ?case by (subst lookup_loop.simps) (auto simp: Let_def sparse_def)
next
  case (Suc n)
  then have "idx < 7" by simp
  then have "slot ! idx = zero_entry" using assms(1) by (simp add: sparse_def)
  moreover have "lookup_loop slot 0 key (idx + 1) = (7, e_hash16 (slot ! 7) = 0 \<and> e_key (slot ! 7) \<noteq> None
      \<and> key_string (e_key (slot ! 7)) = key_string key)"
    using Suc by (intro Suc.hyps(1)) auto
  ultimately show ?case
    using \<open>idx < 7\<close> assms(1) by (subst lookup_loop.simps) (simp add: Let_def zero_entry_def sparse_def)
qed

text \<open>So every lookup ends at the last entry.\<close>

lemma lookup_last:
  assumes "sparse slot"
  shows "lookup slot h key
    = (7, e_hash16 (slot ! 7) = h \<and> e_key (slot ! 7) \<noteq> None \<and> key_string (e_key (slot ! 7)) = key_string key)"
proof (cases "h = 0")
  case True
  then show ?thesis using lookup_zero_run [OF assms] by (simp add: lookup_def entryIdx_def entryIdx_zero)
next
  case False
  then have "0 < h" by (simp add: word_gt_0)
  moreover have len: "length slot = 8" using assms by (simp add: sparse_def)
  ultimately have "entryIdx slot h = 7"
    using entryIdx_pos [OF assms, of h 7 0] by (simp add: entryIdx_def)
  then show ?thesis
    unfolding lookup_def by (subst lookup_loop.simps) (auto simp: Let_def len)
qed

section \<open>Positions and the invariant\<close>

lemma slot_start_bound: "slot_start h \<le> 120"
proof -
  define x :: "8 word" where "x = ucast (drop_bit 8 h)"
  have "unat (drop_bit 4 x) = unat x div 16"
    using drop_bit_eq_div [of 4 "unat x"] by (simp only: unat_drop_bit_eq) simp
  moreover have "unat x < 256" using unsigned_less [of x] by simp
  then have "unat x div 16 < 16" by (intro less_mult_imp_div_less) simp
  ultimately show ?thesis by (simp add: slot_start_def slot_of_def x_def)
qed

lemma bktId_bound: "bktId h < 256"
proof -
  have "h AND 255 \<le> (255 :: 64 word)" by (rule word_and_le1)
  then show ?thesis by (simp add: bktId_def word_le_nat_alt)
qed

text \<open>The cell of a hash value: its bucket and its place there.\<close>

definition place :: "64 word \<Rightarrow> nat \<times> nat" where
  "place h = (bktId h, slot_start h)"

definition cell :: "'v bucket \<Rightarrow> 64 word \<Rightarrow> 'v entry" where
  "cell bkt h = slots bkt ! (slot_start h + 7)"

definition bucket_inv :: "(string \<Rightarrow> 64 word) \<Rightarrow> nat \<Rightarrow> 'v bucket \<Rightarrow> bool" where
  "bucket_inv hf i bkt \<longleftrightarrow> length (slots bkt) = 256
     \<and> (\<forall>j < 256. j mod 8 \<noteq> 7 \<longrightarrow> slots bkt ! j = zero_entry)
     \<and> (\<forall>j < 256. \<forall>k. e_key (slots bkt ! j) = Some k \<longrightarrow>
          bktId (hf k) = i \<and> slot_start (hf k) + 7 = j \<and> e_hash16 (slots bkt ! j) = hash16_of (hf k))
     \<and> entryCount bkt = 0"

definition cache_inv :: "(string \<Rightarrow> 64 word) \<Rightarrow> 'v Cache \<Rightarrow> bool" where
  "cache_inv hf c \<longleftrightarrow> length (buckets c) = 256 \<and> (\<forall>i < 256. bucket_inv hf i (buckets c ! i))"

lemma slot_start_mod: "(slot_start h + i) mod 8 = i mod 8"
  by (simp add: slot_start_def)

lemma the_slot_nth:
  assumes "length (slots bkt) = 256" "i < 8"
  shows "the_slot bkt (slot_start h) ! i = slots bkt ! (slot_start h + i)"
  using assms slot_start_bound [of h] by (simp add: the_slot_def)

lemma sparse_the_slot:
  assumes "bucket_inv hf i bkt"
  shows "sparse (the_slot bkt (slot_start h))"
proof -
  have "the_slot bkt (slot_start h) ! j = zero_entry" if "j < 7" for j
    using assms that slot_start_bound [of h] slot_start_mod [of h j]
    by (simp add: the_slot_nth bucket_inv_def)
  moreover have "length (the_slot bkt (slot_start h)) = 8"
    using assms slot_start_bound [of h] by (simp add: the_slot_def bucket_inv_def)
  ultimately show ?thesis by (simp add: sparse_def)
qed

text \<open>What the lookup of a key finds: the last entry of its slot, and it matches exactly when the key is
  the stored one; the comparison of the 16-bit hashes is implied.\<close>

lemma lookup_cell:
  assumes "bucket_inv hf i bkt"
  shows "lookup (the_slot bkt (slot_start (hf k))) (hash16_of (hf k)) (Some k)
    = (7, e_key (cell bkt (hf k)) = Some k)"
proof -
  have l: "length (slots bkt) = 256" using assms by (simp add: bucket_inv_def)
  have c: "the_slot bkt (slot_start (hf k)) ! 7 = cell bkt (hf k)"
    using the_slot_nth [OF l, of 7] by (simp add: cell_def)
  have "e_hash16 (cell bkt (hf k)) = hash16_of (hf k)" if "e_key (cell bkt (hf k)) = Some k"
    using assms that slot_start_bound [of "hf k"] by (auto simp: bucket_inv_def cell_def)
  then show ?thesis
    unfolding lookup_last [OF sparse_the_slot [OF assms]] c
    by (auto simp: key_string_def split: option.splits)
qed

lemma lookup_offset:
  "bucket_inv hf i bkt \<Longrightarrow> fst (lookup (the_slot bkt (slot_start h)) h16 key) = 7"
  by (simp add: lookup_last [OF sparse_the_slot])

text \<open>Writing an entry, or clearing it, at the place of its key.\<close>

lemma bucket_inv_update:
  assumes "bucket_inv hf (bktId (hf k)) bkt"
    and "e_key e = Some k \<and> e_hash16 e = hash16_of (hf k) \<or> e = zero_entry"
  shows "bucket_inv hf (bktId (hf k)) (bkt\<lparr>slots := (slots bkt)[slot_start (hf k) + 7 := e]\<rparr>)"
  using assms slot_start_bound [of "hf k"] slot_start_mod [of "hf k" 7]
  by (auto simp: bucket_inv_def nth_list_update zero_entry_def)

definition stored :: "(string \<Rightarrow> 64 word) \<Rightarrow> 'v Cache \<Rightarrow> string \<Rightarrow> 'v entry option" where
  "stored hf c k =
     (let e = cell (buckets c ! bktId (hf k)) (hf k) in if e_key e = Some k then Some e else None)"

lemma cell_update:
  "length (slots bkt) = 256 \<Longrightarrow>
   cell (bkt\<lparr>slots := (slots bkt)[slot_start h + 7 := e]\<rparr>) h' = (if slot_start h' = slot_start h then e else cell bkt h')"
  using slot_start_bound [of h] by (simp add: cell_def nth_list_update)

lemma stored_put:
  assumes "cache_inv hf c" and e: "e_key e = Some k \<or> e = zero_entry"
  shows "stored hf (c\<lparr>buckets := (buckets c)[bktId (hf k) := (buckets c ! bktId (hf k))
      \<lparr>slots := (slots (buckets c ! bktId (hf k)))[slot_start (hf k) + 7 := e]\<rparr>]\<rparr>) k'
    = (if place (hf k') = place (hf k) then (if k' = k \<and> e_key e = Some k then Some e else None)
       else stored hf c k')"
proof -
  have l: "length (buckets c) = 256" using assms(1) by (simp add: cache_inv_def)
  have "bucket_inv hf (bktId (hf k)) (buckets c ! bktId (hf k))"
    using assms(1) bktId_bound [of "hf k"] by (simp add: cache_inv_def)
  then have "length (slots (buckets c ! bktId (hf k))) = 256" by (simp add: bucket_inv_def)
  note l = l this
  show ?thesis
    using e l bktId_bound [of "hf k"]
    by (cases "slot_start (hf k') = slot_start (hf k)")
      (auto simp: stored_def Let_def place_def nth_list_update cell_update zero_entry_def)
qed

lemma cache_inv_put:
  assumes "cache_inv hf c" "bucket_inv hf (bktId h) b"
  shows "cache_inv hf (c\<lparr>buckets := (buckets c)[bktId h := b]\<rparr>)"
  using assms bktId_bound [of h] by (auto simp: cache_inv_def nth_list_update)

lemma inv_bucket: "cache_inv hf c \<Longrightarrow> bucket_inv hf (bktId h) (buckets c ! bktId h)"
  using bktId_bound [of h] by (simp add: cache_inv_def)

section \<open>The operations, abstractly\<close>

definition expiry :: "int \<Rightarrow> int \<Rightarrow> 32 word" where
  "expiry expireSeconds now = (if expireSeconds > 0 then word_of_int now + word_of_int expireSeconds else 0)"

definition expired :: "int \<Rightarrow> 'v entry \<Rightarrow> bool" where
  "expired now e \<longleftrightarrow> e_expireAt e \<noteq> 0 \<and> e_expireAt e \<le> word_of_int now"

lemma Cache_Set_spec:
  assumes "cache_inv hf c" "length k \<le> 65535"
  shows "fst (Cache_Set hf (Some k) v ex now c) = None
    \<and> cache_inv hf (snd (Cache_Set hf (Some k) v ex now c))
    \<and> (\<forall>k'. stored hf (snd (Cache_Set hf (Some k) v ex now c)) k' =
         (if k' = k then Some \<lparr>e_key = Some k, e_value = Some v, e_accessTime = 0, e_expireAt = expiry ex now,
              e_hash16 = hash16_of (hf k), e_slotId = slot_of (hf k)\<rparr>
          else if place (hf k') = place (hf k) then None else stored hf c k'))"
proof -
  let ?e = "\<lparr>e_key = Some k, e_value = Some v, e_accessTime = 0, e_expireAt = expiry ex now,
     e_hash16 = hash16_of (hf k), e_slotId = slot_of (hf k)\<rparr>"
  let ?b = "buckets c ! bktId (hf k)"
  let ?b' = "?b\<lparr>slots := (slots ?b)[slot_start (hf k) + 7 := ?e]\<rparr>"
  have i: "bucket_inv hf (bktId (hf k)) ?b" by (rule inv_bucket [OF assms(1)])
  have set_eq: "Cache_Set hf (Some k) v ex now c = (None, c\<lparr>buckets := (buckets c)[bktId (hf k) := ?b']\<rparr>)"
    using lookup_cell [OF i] assms(2)
    by (simp add: Cache_Set_def bucket_set_def key_string_def key_length_def Let_def expiry_def)
  have "bucket_inv hf (bktId (hf k)) ?b'" by (rule bucket_inv_update [OF i]) simp
  from cache_inv_put [OF assms(1) this] show ?thesis
    unfolding set_eq by (auto simp: stored_put [OF assms(1)])
qed

lemma Cache_Del_spec:
  assumes "cache_inv hf c" "length k \<le> 65535"
  shows "fst (Cache_Del hf (Some k) c) = False \<and> cache_inv hf (snd (Cache_Del hf (Some k) c))
    \<and> (\<forall>k'. stored hf (snd (Cache_Del hf (Some k) c)) k' = (if k' = k then None else stored hf c k'))"
proof -
  let ?b = "buckets c ! bktId (hf k)"
  let ?b' = "?b\<lparr>slots := (slots ?b)[slot_start (hf k) + 7 := zero_entry]\<rparr>"
  have i: "bucket_inv hf (bktId (hf k)) ?b" by (rule inv_bucket [OF assms(1)])
  show ?thesis
  proof (cases "e_key (cell ?b (hf k)) = Some k")
    case True
    have del_eq: "Cache_Del hf (Some k) c = (False, c\<lparr>buckets := (buckets c)[bktId (hf k) := ?b']\<rparr>)"
      using lookup_cell [OF i] assms(2) True
      by (simp add: Cache_Del_def bucket_del_def key_string_def key_length_def Let_def)
    have "bucket_inv hf (bktId (hf k)) ?b'" by (rule bucket_inv_update [OF i]) simp
    moreover have "stored hf c k' = None" if "k' \<noteq> k" "place (hf k') = place (hf k)" for k'
      using True that by (auto simp: stored_def Let_def place_def cell_def)
    ultimately show ?thesis
      unfolding del_eq using cache_inv_put [OF assms(1)]
      by (auto simp: stored_put [OF assms(1)] zero_entry_def)
  next
    case False
    have del_eq: "Cache_Del hf (Some k) c = (False, c\<lparr>buckets := (buckets c)[bktId (hf k) := ?b]\<rparr>)"
      using lookup_cell [OF i] assms(2) False
      by (simp add: Cache_Del_def bucket_del_def key_string_def key_length_def Let_def)
    then show ?thesis
      using assms(1) False by (auto simp: stored_def Let_def)
  qed
qed

lemma Cache_Get_spec:
  assumes "cache_inv hf c" "length k \<le> 65535"
  shows "fst (Cache_Get hf (Some k) now c) =
      (case stored hf c k of
         Some e \<Rightarrow> if expired now e then Inl ErrNotFound else Inr (e_value e)
       | None \<Rightarrow> Inl ErrNotFound)
    \<and> cache_inv hf (snd (Cache_Get hf (Some k) now c))
    \<and> (\<forall>k'. stored hf (snd (Cache_Get hf (Some k) now c)) k' = stored hf c k')"
proof -
  let ?b = "buckets c ! bktId (hf k)"
  have i: "bucket_inv hf (bktId (hf k)) ?b" by (rule inv_bucket [OF assms(1)])
  have b: "bucket_inv hf (bktId (hf k)) (?b\<lparr>totalExpired := n\<rparr>)" for n
    using i by (simp add: bucket_inv_def)
  have keep: "cache_inv hf (c'\<lparr>hitCount := h\<rparr>) = cache_inv hf c'"
    "cache_inv hf (c'\<lparr>missCount := h\<rparr>) = cache_inv hf c'"
    "stored hf (c'\<lparr>hitCount := h\<rparr>) k' = stored hf c' k'"
    "stored hf (c'\<lparr>missCount := h\<rparr>) k' = stored hf c' k'" for c' :: "'a Cache" and h k'
    by (simp_all add: cache_inv_def stored_def)
  have st: "stored hf (c\<lparr>buckets := (buckets c)[bktId (hf k) := ?b\<lparr>totalExpired := n\<rparr>]\<rparr>) k'
      = stored hf c k'" for n k'
    using assms(1) bktId_bound [of "hf k"]
    by (auto simp: stored_def Let_def cell_def nth_list_update cache_inv_def)
  have inv: "cache_inv hf (c\<lparr>buckets := (buckets c)[bktId (hf k) := ?b\<lparr>totalExpired := n\<rparr>]\<rparr>)" for n
    by (rule cache_inv_put [OF assms(1) b])
  show ?thesis
    using lookup_cell [OF i] assms st inv
    by (auto simp: Cache_Get_def bucket_get_def key_string_def key_length_def Let_def keep
        stored_def [of hf c k] cell_def expired_def)
qed


lemma cache_inv_New: "cache_inv hf NewCache"
  by (auto simp: cache_inv_def bucket_inv_def NewCache_def newBucket_def zero_entry_def)

lemma stored_New: "stored hf NewCache k = None"
  using bktId_bound [of "hf k"] slot_start_bound [of "hf k"]
  by (simp add: stored_def cell_def NewCache_def newBucket_def zero_entry_def Let_def)

section \<open>Stores that may forget\<close>

text \<open>The contract of a cache: a write is readable, and no operation makes a key readable that was not,
  or changes what it reads as.\<close>

locale lossy_store =
  fixes look :: "'s \<Rightarrow> 'k \<Rightarrow> 'e option"
    and put :: "'k \<Rightarrow> 'd \<Rightarrow> 's \<Rightarrow> 's"
    and rem :: "'k \<Rightarrow> 's \<Rightarrow> 's"
    and view :: "'d \<Rightarrow> 'e"
    and inv :: "'s \<Rightarrow> bool"
    and ok :: "'k \<Rightarrow> bool"
  assumes put_inv: "inv s \<Longrightarrow> ok k \<Longrightarrow> inv (put k d s)"
    and rem_inv: "inv s \<Longrightarrow> ok k \<Longrightarrow> inv (rem k s)"
    and look_put: "inv s \<Longrightarrow> ok k \<Longrightarrow> look (put k d s) k = Some (view d)"
    and look_put_other:
      "inv s \<Longrightarrow> ok k \<Longrightarrow> k' \<noteq> k \<Longrightarrow> look (put k d s) k' = None \<or> look (put k d s) k' = look s k'"
    and look_rem: "inv s \<Longrightarrow> ok k \<Longrightarrow> look (rem k s) k = None"
    and look_rem_other:
      "inv s \<Longrightarrow> ok k \<Longrightarrow> k' \<noteq> k \<Longrightarrow> look (rem k s) k' = None \<or> look (rem k s) k' = look s k'"
begin

lemma put_below:
  assumes "inv s" "ok k" "look s \<subseteq>\<^sub>m m"
  shows "look (put k d s) \<subseteq>\<^sub>m m(k \<mapsto> view d)"
proof (unfold map_le_def, intro ballI)
  fix k'
  assume "k' \<in> dom (look (put k d s))"
  with assms look_put [of s k d] look_put_other [of s k k' d]
  show "look (put k d s) k' = (m(k \<mapsto> view d)) k'"
    by (cases "k' = k") (auto simp: map_le_def dom_def)
qed

lemma rem_below:
  assumes "inv s" "ok k" "look s \<subseteq>\<^sub>m m"
  shows "look (rem k s) \<subseteq>\<^sub>m m(k := None)"
proof (unfold map_le_def, intro ballI)
  fix k'
  assume "k' \<in> dom (look (rem k s))"
  with assms look_rem [of s k] look_rem_other [of s k k']
  show "look (rem k s) k' = (m(k := None)) k'"
    by (cases "k' = k") (auto simp: map_le_def dom_def)
qed

end

text \<open>What the cache keeps of a key: its value and its time of expiry.\<close>

type_synonym 'v content = "'v option \<times> 32 word"

definition content :: "(string \<Rightarrow> 64 word) \<Rightarrow> 'v Cache \<Rightarrow> string \<Rightarrow> 'v content option" where
  "content hf c k = map_option (\<lambda>e. (e_value e, e_expireAt e)) (stored hf c k)"

definition put_content :: "(string \<Rightarrow> 64 word) \<Rightarrow> string \<Rightarrow> 'v \<times> int \<times> int \<Rightarrow> 'v Cache \<Rightarrow> 'v Cache" where
  "put_content hf k d c = (case d of (v, ex, now) \<Rightarrow> snd (Cache_Set hf (Some k) v ex now c))"

definition view_content :: "'v \<times> int \<times> int \<Rightarrow> 'v content" where
  "view_content d = (case d of (v, ex, now) \<Rightarrow> (Some v, expiry ex now))"

abbreviation short :: "string \<Rightarrow> bool" where "short k \<equiv> length k \<le> 65535"

interpretation direct_mapped: lossy_store "content hf" "put_content hf" "\<lambda>k c. snd (Cache_Del hf (Some k) c)"
    view_content "cache_inv hf" short for hf
proof
  fix c :: "'a Cache" and k k' :: string and d :: "'a \<times> int \<times> int"
  obtain v ex now where d: "d = (v, ex, now)" by (cases d)
  assume a: "cache_inv hf c" "short k"
  note set = Cache_Set_spec [OF a, of v ex now] and del = Cache_Del_spec [OF a]
  show "cache_inv hf (put_content hf k d c)" "content hf (put_content hf k d c) k = Some (view_content d)"
    using set by (simp_all add: d put_content_def content_def view_content_def)
  show "cache_inv hf (snd (Cache_Del hf (Some k) c))" "content hf (snd (Cache_Del hf (Some k) c)) k = None"
    using del by (simp_all add: content_def)
  assume "k' \<noteq> k"
  then show "content hf (put_content hf k d c) k' = None \<or> content hf (put_content hf k d c) k' = content hf c k'"
    and "content hf (snd (Cache_Del hf (Some k) c)) k' = None
      \<or> content hf (snd (Cache_Del hf (Some k) c)) k' = content hf c k'"
    using set del by (simp_all add: d put_content_def content_def)
qed

section \<open>Runs of operations\<close>

datatype 'v cache_op = OpSet string 'v int | OpGet string | OpDel string

fun op_key :: "'v cache_op \<Rightarrow> string" where
  "op_key (OpSet k v ex) = k"
| "op_key (OpGet k) = k"
| "op_key (OpDel k) = k"

text \<open>Each operation with the time it runs at; the newest is the last of the list.\<close>

fun do_op :: "(string \<Rightarrow> 64 word) \<Rightarrow> int \<times> 'v cache_op \<Rightarrow> 'v Cache \<Rightarrow> 'v Cache" where
  "do_op hf (now, OpSet k v ex) c = snd (Cache_Set hf (Some k) v ex now c)"
| "do_op hf (now, OpGet k) c = snd (Cache_Get hf (Some k) now c)"
| "do_op hf (now, OpDel k) c = snd (Cache_Del hf (Some k) c)"

definition run_ops :: "(string \<Rightarrow> 64 word) \<Rightarrow> (int \<times> 'v cache_op) list \<Rightarrow> 'v Cache" where
  "run_ops hf ops = fold (do_op hf) ops NewCache"

text \<open>The map that forgets nothing.\<close>

fun spec_op :: "int \<times> 'v cache_op \<Rightarrow> (string \<rightharpoonup> 'v content) \<Rightarrow> (string \<rightharpoonup> 'v content)" where
  "spec_op (now, OpSet k v ex) m = m(k \<mapsto> (Some v, expiry ex now))"
| "spec_op (now, OpGet k) m = m"
| "spec_op (now, OpDel k) m = m(k := None)"

definition spec_ops :: "(int \<times> 'v cache_op) list \<Rightarrow> (string \<rightharpoonup> 'v content)" where
  "spec_ops ops = fold spec_op ops Map.empty"

lemma content_get:
  assumes "cache_inv hf c" "short k"
  shows "content hf (snd (Cache_Get hf (Some k) now c)) = content hf c"
    "cache_inv hf (snd (Cache_Get hf (Some k) now c))"
  using Cache_Get_spec [OF assms, of now] by (auto simp: content_def)

lemma do_op_below:
  assumes "cache_inv hf c" "short (op_key (snd x))" "content hf c \<subseteq>\<^sub>m m"
  shows "cache_inv hf (do_op hf x c) \<and> content hf (do_op hf x c) \<subseteq>\<^sub>m spec_op x m"
proof (cases x)
  case (Pair now p)
  show ?thesis
  proof (cases p)
    case (OpSet k v ex)
    with Pair assms show ?thesis
      using direct_mapped.put_below [of hf c k m "(v, ex, now)"] direct_mapped.put_inv [of hf c k "(v, ex, now)"]
      by (simp add: put_content_def view_content_def)
  next
    case (OpGet k)
    with Pair assms show ?thesis by (simp add: content_get)
  next
    case (OpDel k)
    with Pair assms show ?thesis
      using direct_mapped.rem_below [of hf c k m] direct_mapped.rem_inv [of hf c k] by simp
  qed
qed

lemma fold_below:
  assumes "cache_inv hf c" "content hf c \<subseteq>\<^sub>m m" "\<forall>x \<in> set ops. short (op_key (snd x))"
  shows "cache_inv hf (fold (do_op hf) ops c) \<and> content hf (fold (do_op hf) ops c) \<subseteq>\<^sub>m fold spec_op ops m"
  using assms
proof (induction ops arbitrary: c m)
  case (Cons x ops)
  then show ?case using do_op_below [of hf c x m] Cons.IH [of "do_op hf x c" "spec_op x m"] by simp
qed simp

lemma run_ops_below:
  assumes "\<forall>x \<in> set ops. short (op_key (snd x))"
  shows "cache_inv hf (run_ops hf ops)" "content hf (run_ops hf ops) \<subseteq>\<^sub>m spec_ops ops"
proof -
  have "content hf NewCache \<subseteq>\<^sub>m Map.empty" by (simp add: content_def stored_New map_le_def dom_def)
  from fold_below [OF cache_inv_New this assms]
  show "cache_inv hf (run_ops hf ops)" "content hf (run_ops hf ops) \<subseteq>\<^sub>m spec_ops ops"
    by (simp_all add: run_ops_def spec_ops_def)
qed

text \<open>An operation on another cell leaves a key alone, and so does every read.\<close>

definition harmless :: "(string \<Rightarrow> 64 word) \<Rightarrow> string \<Rightarrow> 'v cache_op \<Rightarrow> bool" where
  "harmless hf k p \<longleftrightarrow> (case p of
      OpGet k' \<Rightarrow> True
    | OpSet k' v ex \<Rightarrow> place (hf k') \<noteq> place (hf k)
    | OpDel k' \<Rightarrow> k' \<noteq> k)"

lemma harmless_content:
  assumes "cache_inv hf c" "short (op_key (snd x))" "harmless hf k (snd x)"
  shows "cache_inv hf (do_op hf x c) \<and> content hf (do_op hf x c) k = content hf c k"
proof (cases x)
  case (Pair now p)
  show ?thesis
  proof (cases p)
    case (OpSet k' v ex)
    with Pair assms show ?thesis
      using Cache_Set_spec [of hf c k' v ex now] by (auto simp: content_def harmless_def)
  next
    case (OpGet k')
    with Pair assms show ?thesis by (simp add: content_get)
  next
    case (OpDel k')
    with Pair assms show ?thesis
      using Cache_Del_spec [of hf c k'] by (auto simp: content_def harmless_def)
  qed
qed

lemma harmless_fold:
  assumes "cache_inv hf c" "\<forall>x \<in> set ops. short (op_key (snd x)) \<and> harmless hf k (snd x)"
  shows "cache_inv hf (fold (do_op hf) ops c) \<and> content hf (fold (do_op hf) ops c) k = content hf c k"
  using assms
proof (induction ops arbitrary: c)
  case (Cons x ops)
  then show ?case using harmless_content [of hf c x k] Cons.IH [of "do_op hf x c"] by simp
qed simp

text \<open>The answer of \<open>Get\<close> over the content.\<close>

lemma Get_content:
  assumes "cache_inv hf c" "short k"
  shows "fst (Cache_Get hf (Some k) now c) = (case content hf c k of
      None \<Rightarrow> Inl ErrNotFound
    | Some (v, x) \<Rightarrow> if x \<noteq> 0 \<and> x \<le> word_of_int now then Inl ErrNotFound else Inr v)"
  using Cache_Get_spec [OF assms, of now] by (auto simp: content_def expired_def split: option.splits)

lemma fold_run_ops: "fold (do_op hf) ops2 (do_op hf x (run_ops hf ops)) = run_ops hf (ops @ x # ops2)"
  by (simp add: run_ops_def)

lemma get_after_set:
  assumes "\<forall>x \<in> set ops1 \<union> set ops2. length (op_key (snd x)) \<le> 65535" "length k \<le> 65535"
    and "\<forall>x \<in> set ops2. harmless hf k (snd x)"
  shows "fst (Cache_Get hf (Some k) now (run_ops hf (ops1 @ (t, OpSet k v ex) # ops2)))
    = (if ex > 0 \<and> word_of_int (t + ex) \<noteq> (0 :: 32 word) \<and> (word_of_int (t + ex) :: 32 word) \<le> word_of_int now
       then Inl ErrNotFound else Inr (Some v))"
proof -
  have i: "cache_inv hf (run_ops hf ops1)" using run_ops_below [of ops1 hf] assms(1) by simp
  note set = Cache_Set_spec [OF i assms(2), of v ex t]
  have c: "content hf (do_op hf (t, OpSet k v ex) (run_ops hf ops1)) k = Some (Some v, expiry ex t)"
    using set by (simp add: content_def)
  have "cache_inv hf (run_ops hf (ops1 @ (t, OpSet k v ex) # ops2))
    \<and> content hf (run_ops hf (ops1 @ (t, OpSet k v ex) # ops2)) k = Some (Some v, expiry ex t)"
    using harmless_fold [of hf "do_op hf (t, OpSet k v ex) (run_ops hf ops1)" ops2 k] set assms c
    unfolding fold_run_ops by simp
  then show ?thesis
    using Get_content [of hf "run_ops hf (ops1 @ (t, OpSet k v ex) # ops2)" k now] assms(2)
    by (simp add: expiry_def)
qed

section \<open>Properties\<close>

text \<open>C4: A get never returns a stale or a foreign value. After any sequence of sets, gets and deletes on a
  new cache, when Get of a key returns a value, that value is the one last set under this very key (and not
  deleted since), and its expiry time has not been reached; this holds for every hash function, however keys
  collide.\<close>

theorem cache_never_stale:
  assumes "\<forall>x \<in> set ops. length (op_key (snd x)) \<le> 65535" "length k \<le> 65535"
    and "fst (Cache_Get hf (Some k) now (run_ops hf ops)) = Inr v"
  shows "\<exists>x. spec_ops ops k = Some (v, x) \<and> (x = 0 \<or> word_of_int now < x)"
proof -
  note b = run_ops_below [OF assms(1), of hf]
  from Get_content [OF b(1) assms(2), of now] assms(3)
  obtain x where x: "content hf (run_ops hf ops) k = Some (v, x)" "x = 0 \<or> \<not> x \<le> word_of_int now"
    by (auto split: option.splits prod.splits if_splits)
  with b(2) have "spec_ops ops k = Some (v, x)" by (simp add: map_le_def dom_def) 
  with x show ?thesis by (auto simp: not_le)
qed

text \<open>A value that was set is returned until it expires, as long as no other key is set whose hash
  selects the same bucket and slot and the key is not deleted; expiry compares 32-bit times, so the value is
  found at a later time exactly when the wrapped expiry time is zero or still ahead.\<close>

lemma cache_get_after_set:
  assumes "\<forall>x \<in> set ops1 \<union> set ops2. length (op_key (snd x)) \<le> 65535" "length k \<le> 65535"
    and "\<forall>x \<in> set ops2. harmless hf k (snd x)"
  shows "fst (Cache_Get hf (Some k) now (run_ops hf (ops1 @ (t, OpSet k v ex) # ops2)))
    = (if ex > 0 \<and> word_of_int (t + ex) \<noteq> (0 :: 32 word) \<and> (word_of_int (t + ex) :: 32 word) \<le> word_of_int now
       then Inl ErrNotFound else Inr (Some v))"
  by (rule get_after_set [OF assms])

lemma stored_place:
  assumes "stored hf c k = Some e" "stored hf c k' = Some e'" "place (hf k) = place (hf k')"
  shows "k = k'"
  using assms by (auto simp: stored_def place_def cell_def Let_def split: if_splits)

lemma place_range: "place h \<in> {..<256} \<times> (\<lambda>i. i * 8) ` {..<16}"
proof -
  have "unat (slot_of h) < 16" using slot_start_bound [of h] by (simp add: slot_start_def)
  then show ?thesis using bktId_bound [of h] by (auto simp: place_def slot_start_def)
qed

text \<open>Whatever is set, a cache never holds more than 4096 readable keys (256 buckets of 16 slots that
  each keep one entry), although its buckets have room for 65536 entries.\<close>

lemma cache_capacity:
  "finite {k. stored hf c k \<noteq> None} \<and> card {k. stored hf c k \<noteq> None} \<le> 4096"
proof -
  let ?K = "{k. stored hf c k \<noteq> None}"
  let ?R = "{..<256::nat} \<times> (\<lambda>i. i * 8) ` {..<16::nat}"
  have inj: "inj_on (\<lambda>k. place (hf k)) ?K" by (rule inj_onI) (auto dest: stored_place)
  have sub: "(\<lambda>k. place (hf k)) ` ?K \<subseteq> ?R" using place_range by blast
  have fin: "finite ?R" by simp
  have "card ((\<lambda>i. i * 8) ` {..<16::nat}) \<le> 16" by (rule order_trans [OF card_image_le]) simp_all
  then have "card ?R \<le> 4096" by (simp add: card_cartesian_product)
  with card_inj_on_le [OF inj sub fin] inj_on_finite [OF inj sub fin] show ?thesis by simp
qed

lemma do_op_entryCount:
  assumes "cache_inv hf c"
  shows "EntryCount c = 0"
proof -
  have "foldl (\<lambda>n b. n + entryCount b) 0 bs = (0::int)" if "\<forall>b \<in> set bs. entryCount b = 0" for bs :: "'a bucket list"
    using that by (induction bs) auto
  moreover have "\<forall>b \<in> set (buckets c). entryCount b = 0"
    using assms by (auto simp: cache_inv_def bucket_inv_def in_set_conv_nth)
  ultimately show ?thesis by (simp add: EntryCount_def sum_buckets_def)
qed

text \<open>A delete removes exactly its key, but what the cache reports does not say so: Del answers false
  whether the key was there or not, EntryCount is 0 however many entries are stored, and TTL is 0 for every key.\<close>

theorem cache_del_unreported:
  assumes "\<forall>x \<in> set ops. length (op_key (snd x)) \<le> 65535" "length k \<le> 65535"
  shows "fst (Cache_Del hf (Some k) (run_ops hf ops)) = False
    \<and> content hf (snd (Cache_Del hf (Some k) (run_ops hf ops))) = (content hf (run_ops hf ops))(k := None)
    \<and> EntryCount (run_ops hf ops) = 0 \<and> Cache_TTL hf (Some k) (run_ops hf ops) = 0"
proof -
  note b = run_ops_below [OF assms(1), of hf]
  from Cache_Del_spec [OF b(1) assms(2)] do_op_entryCount [OF b(1)] show ?thesis
    by (auto simp: content_def Cache_TTL_def bucket_ttl_def Let_def)
qed

section \<open>The properties at concrete inputs\<close>

text \<open>All keys collide under the constant hash; the second set evicts the first key.\<close>

definition all_collide :: "string \<Rightarrow> 64 word" where "all_collide k = 5"

lemma cache_get_after_set_witness:
  "fst (Cache_Get all_collide (Some ''b'') 150 (run_ops all_collide
     ([(100, OpSet ''a'' (7::int) 0)] @ (100, OpSet ''b'' 8 60) # [(120, OpGet ''a''), (130, OpDel ''a'')])))
   = Inr (Some 8)"
  using cache_get_after_set [of "[(100, OpSet ''a'' (7::int) 0)]" "[(120, OpGet ''a''), (130, OpDel ''a'')]" "''b''"
      all_collide 150 100 8 60]
  by (simp add: harmless_def)

lemma cache_never_stale_witness:
  "\<exists>x. spec_ops [(100, OpSet ''a'' (7::int) 0), (100, OpSet ''b'' 8 60)] ''b'' = Some (Some 8, x) \<and>
     (x = 0 \<or> word_of_int 150 < x)"
proof (rule cache_never_stale)
  show "fst (Cache_Get all_collide (Some ''b'') 150
      (run_ops all_collide [(100, OpSet ''a'' (7::int) 0), (100, OpSet ''b'' 8 60)])) = Inr (Some 8)"
    using get_after_set [of "[(100, OpSet ''a'' (7::int) 0)]" "[]" "''b''" all_collide 150 100 8 60] by simp
qed simp_all

lemma cache_del_unreported_witness:
  "fst (Cache_Del all_collide (Some ''a'') (run_ops all_collide [(100, OpSet ''a'' (7::int) 0)])) = False
   \<and> EntryCount (run_ops all_collide [(100, OpSet ''a'' (7::int) 0)]) = 0"
proof -
  have "\<forall>x \<in> set [(100, OpSet ''a'' (7::int) 0)]. length (op_key (snd x)) \<le> 65535" "length ''a'' \<le> 65535"
    by simp_all
  from cache_del_unreported [OF this, of all_collide] show ?thesis by blast
qed

end
