(* ===== verification/GorpDialect.thy ===== *)
theory GorpDialect
  imports Prelude
begin

text \<open>
  The SQL dialects of \<open>gorp/dialect.go\<close>.

  The Go interface \<open>Dialect\<close> is the record \<open>Dialect\<close> of its methods, and each
  implementing struct is a value of that record built from the fields of the struct. A
  \<open>reflect.Type\<close> is a \<open>go_type\<close>: pointers and slices with their element, every
  other type by its kind and its name. Names are ASCII.
\<close>

section \<open>Go types\<close>

datatype reflect_kind = KBool | KInt | KInt8 | KInt16 | KInt32 | KInt64
  | KUint | KUint8 | KUint16 | KUint32 | KUint64 | KFloat32 | KFloat64
  | KString | KStruct | KMap | KSlice | KPtr | KOther

datatype go_type = PtrTo go_type | SliceOf go_type string | Basic reflect_kind string

fun kind_of :: "go_type \<Rightarrow> reflect_kind" where
  "kind_of (PtrTo t) = KPtr"
| "kind_of (SliceOf t n) = KSlice"
| "kind_of (Basic k n) = k"

text \<open>\<open>reflect.Type.Name\<close>; a pointer type has no name.\<close>

fun type_name :: "go_type \<Rightarrow> string" where
  "type_name (PtrTo t) = []"
| "type_name (SliceOf t n) = n"
| "type_name (Basic k n) = n"

section \<open>The interface\<close>

text \<open>How a dialect runs an insert that generates a key: \<open>Standard\<close> executes it and asks for
  \<open>LastInsertId\<close>, \<open>Target_query\<close> queries it and scans the returned row into the key field
  (\<open>TargetedAutoIncrInserter\<close>), \<open>Id_query\<close> queries it and scans an \<open>int64\<close>.\<close>

datatype inserter = Standard | Target_query | Id_query

record Dialect =
  QuerySuffix :: string
  ToSqlType :: "go_type \<Rightarrow> int \<Rightarrow> bool \<Rightarrow> string"
  AutoIncrStr :: string
  AutoIncrBindValue :: string
  AutoIncrInsertSuffix :: "string \<Rightarrow> string"
  CreateTableSuffix :: "string outcome"
  TruncateClause :: string
  BindVar :: "nat \<Rightarrow> string"
  BindNow :: string
  InsertAutoIncr :: inserter
  QuoteField :: "string \<Rightarrow> string"
  QuotedTableForQuery :: "string \<Rightarrow> string \<Rightarrow> string"
  IfSchemaNotExists :: "string \<Rightarrow> string \<Rightarrow> string"
  IfTableExists :: "string \<Rightarrow> string \<Rightarrow> string \<Rightarrow> string"
  IfTableNotExists :: "string \<Rightarrow> string \<Rightarrow> string \<Rightarrow> string"

abbreviation dquote :: char where "dquote \<equiv> CHR 0x22"
abbreviation squote :: char where "squote \<equiv> CHR 0x27"
abbreviation backquote :: char where "backquote \<equiv> CHR 0x60"

definition varchar :: "int \<Rightarrow> string" where
  "varchar n = ''varchar('' @ itoa n @ '')''"

text \<open>The tail of \<open>ToSqlType\<close> where an unset size becomes 255.\<close>

definition varchar_255 :: "int \<Rightarrow> string" where
  "varchar_255 maxsize = varchar (if maxsize < 1 then 255 else maxsize)"

definition varchar_or_text :: "int \<Rightarrow> string" where
  "varchar_or_text maxsize = (if maxsize > 0 then varchar maxsize else ''text'')"

definition if_not_exists :: "string \<Rightarrow> string" where
  "if_not_exists command = command @ '' if not exists''"

definition if_exists :: "string \<Rightarrow> string" where
  "if_exists command = command @ '' if exists''"

section \<open>SQLite\<close>

definition Sqlite_by_name :: "string \<Rightarrow> int \<Rightarrow> string" where
  "Sqlite_by_name name maxsize =
     (if name = ''NullInt64'' then ''integer''
      else if name = ''NullFloat64'' then ''real''
      else if name = ''NullBool'' then ''integer''
      else if name = ''Time'' then ''datetime''
      else varchar_255 maxsize)"

fun Sqlite_ToSqlType :: "go_type \<Rightarrow> int \<Rightarrow> bool \<Rightarrow> string" where
  "Sqlite_ToSqlType (PtrTo t) maxsize isAutoIncr = Sqlite_ToSqlType t maxsize isAutoIncr"
| "Sqlite_ToSqlType (SliceOf t n) maxsize isAutoIncr =
     (if kind_of t = KUint8 then ''blob'' else Sqlite_by_name n maxsize)"
| "Sqlite_ToSqlType (Basic k n) maxsize isAutoIncr =
     (if k = KBool then ''integer''
      else if k \<in> {KInt, KInt8, KInt16, KInt32, KInt64, KUint, KUint8, KUint16, KUint32, KUint64}
        then ''integer''
      else if k \<in> {KFloat64, KFloat32} then ''real''
      else Sqlite_by_name n maxsize)"

definition Sqlite_QuoteField :: "string \<Rightarrow> string" where
  "Sqlite_QuoteField f = [dquote] @ f @ [dquote]"

definition SqliteDialect :: "string \<Rightarrow> Dialect" where
  "SqliteDialect sfx = \<lparr>
     QuerySuffix = '';'',
     ToSqlType = Sqlite_ToSqlType,
     AutoIncrStr = ''autoincrement'',
     AutoIncrBindValue = ''null'',
     AutoIncrInsertSuffix = (\<lambda>col. []),
     CreateTableSuffix = Ret sfx,
     TruncateClause = ''delete from'',
     BindVar = (\<lambda>i. ''?''),
     BindNow = ''datetime('' @ [squote] @ ''now'' @ [squote] @ '')'',
     InsertAutoIncr = Standard,
     QuoteField = Sqlite_QuoteField,
     QuotedTableForQuery = (\<lambda>schema table. Sqlite_QuoteField table),
     IfSchemaNotExists = (\<lambda>command schema. if_not_exists command),
     IfTableExists = (\<lambda>command schema table. if_exists command),
     IfTableNotExists = (\<lambda>command schema table. if_not_exists command)\<rparr>"

section \<open>PostgreSQL\<close>

definition Postgres_by_name :: "string \<Rightarrow> int \<Rightarrow> string" where
  "Postgres_by_name name maxsize =
     (if name = ''NullInt64'' then ''bigint''
      else if name = ''NullFloat64'' then ''double precision''
      else if name = ''NullBool'' then ''boolean''
      else if name = ''Time'' then ''timestamp with time zone''
      else varchar_or_text maxsize)"

text \<open>The kind \<open>Uint\<close> is in none of the cases.\<close>

fun Postgres_ToSqlType :: "go_type \<Rightarrow> int \<Rightarrow> bool \<Rightarrow> string" where
  "Postgres_ToSqlType (PtrTo t) maxsize isAutoIncr = Postgres_ToSqlType t maxsize isAutoIncr"
| "Postgres_ToSqlType (SliceOf t n) maxsize isAutoIncr =
     (if kind_of t = KUint8 then ''bytea'' else Postgres_by_name n maxsize)"
| "Postgres_ToSqlType (Basic k n) maxsize isAutoIncr =
     (if k = KBool then ''boolean''
      else if k \<in> {KInt, KInt8, KInt16, KInt32, KUint8, KUint16, KUint32}
        then (if isAutoIncr then ''serial'' else ''integer'')
      else if k \<in> {KInt64, KUint64} then (if isAutoIncr then ''bigserial'' else ''bigint'')
      else if k = KFloat64 then ''double precision''
      else if k = KFloat32 then ''real''
      else Postgres_by_name n maxsize)"

definition Postgres_BindVar :: "nat \<Rightarrow> string" where
  "Postgres_BindVar i = ''$'' @ nat_dec (i + 1)"

definition Postgres_QuoteField :: "string \<Rightarrow> string" where
  "Postgres_QuoteField f = [dquote] @ to_lower f @ [dquote]"

definition schema_dot :: "(string \<Rightarrow> string) \<Rightarrow> string \<Rightarrow> string \<Rightarrow> string" where
  "schema_dot quote schema table =
     (if trim_space schema = [] then quote table else schema @ ''.'' @ quote table)"

definition PostgresDialect :: "string \<Rightarrow> Dialect" where
  "PostgresDialect sfx = \<lparr>
     QuerySuffix = '';'',
     ToSqlType = Postgres_ToSqlType,
     AutoIncrStr = [],
     AutoIncrBindValue = ''default'',
     AutoIncrInsertSuffix = (\<lambda>col. '' returning '' @ col),
     CreateTableSuffix = Ret sfx,
     TruncateClause = ''truncate'',
     BindVar = Postgres_BindVar,
     BindNow = ''now()'',
     InsertAutoIncr = Target_query,
     QuoteField = Postgres_QuoteField,
     QuotedTableForQuery = schema_dot Postgres_QuoteField,
     IfSchemaNotExists = (\<lambda>command schema. if_not_exists command),
     IfTableExists = (\<lambda>command schema table. if_exists command),
     IfTableNotExists = (\<lambda>command schema table. if_not_exists command)\<rparr>"

section \<open>MySQL\<close>

definition MySQL_by_name :: "string \<Rightarrow> int \<Rightarrow> string" where
  "MySQL_by_name name maxsize =
     (if name = ''NullInt64'' then ''bigint''
      else if name = ''NullFloat64'' then ''double''
      else if name = ''NullBool'' then ''tinyint''
      else if name = ''Time'' then ''datetime''
      else varchar_255 maxsize)"

fun MySQL_ToSqlType :: "go_type \<Rightarrow> int \<Rightarrow> bool \<Rightarrow> string" where
  "MySQL_ToSqlType (PtrTo t) maxsize isAutoIncr = MySQL_ToSqlType t maxsize isAutoIncr"
| "MySQL_ToSqlType (SliceOf t n) maxsize isAutoIncr =
     (if kind_of t = KUint8 then ''mediumblob'' else MySQL_by_name n maxsize)"
| "MySQL_ToSqlType (Basic k n) maxsize isAutoIncr =
     (case k of
        KBool \<Rightarrow> ''boolean''
      | KInt8 \<Rightarrow> ''tinyint''
      | KUint8 \<Rightarrow> ''tinyint unsigned''
      | KInt16 \<Rightarrow> ''smallint''
      | KUint16 \<Rightarrow> ''smallint unsigned''
      | KInt \<Rightarrow> ''int''
      | KInt32 \<Rightarrow> ''int''
      | KUint \<Rightarrow> ''int unsigned''
      | KUint32 \<Rightarrow> ''int unsigned''
      | KInt64 \<Rightarrow> ''bigint''
      | KUint64 \<Rightarrow> ''bigint unsigned''
      | KFloat64 \<Rightarrow> ''double''
      | KFloat32 \<Rightarrow> ''double''
      | _ \<Rightarrow> MySQL_by_name n maxsize)"

definition MySQL_CreateTableSuffix :: "string \<Rightarrow> string \<Rightarrow> string outcome" where
  "MySQL_CreateTableSuffix engine encoding =
     (if engine = [] \<or> encoding = []
      then Panic (PanicMsg (''gorp - undefined''
        @ (if engine = [] then '' MySQLDialect.Engine'' else [])
        @ (if engine = [] \<and> encoding = [] then '','' else [])
        @ (if encoding = [] then '' MySQLDialect.Encoding'' else [])
        @ ''. Check that your MySQLDialect was correctly initialized when declared.''))
      else Ret ('' engine='' @ engine @ '' charset='' @ encoding))"

definition MySQL_QuoteField :: "string \<Rightarrow> string" where
  "MySQL_QuoteField f = [backquote] @ f @ [backquote]"

definition MySQLDialect :: "string \<Rightarrow> string \<Rightarrow> Dialect" where
  "MySQLDialect engine encoding = \<lparr>
     QuerySuffix = '';'',
     ToSqlType = MySQL_ToSqlType,
     AutoIncrStr = ''auto_increment'',
     AutoIncrBindValue = ''null'',
     AutoIncrInsertSuffix = (\<lambda>col. []),
     CreateTableSuffix = MySQL_CreateTableSuffix engine encoding,
     TruncateClause = ''truncate'',
     BindVar = (\<lambda>i. ''?''),
     BindNow = ''now()'',
     InsertAutoIncr = Standard,
     QuoteField = MySQL_QuoteField,
     QuotedTableForQuery = schema_dot MySQL_QuoteField,
     IfSchemaNotExists = (\<lambda>command schema. if_not_exists command),
     IfTableExists = (\<lambda>command schema table. if_exists command),
     IfTableNotExists = (\<lambda>command schema table. if_not_exists command)\<rparr>"

section \<open>SQL Server\<close>

definition SqlServer_by_name :: "string \<Rightarrow> int \<Rightarrow> string" where
  "SqlServer_by_name name maxsize =
     (if name = ''NullInt64'' then ''bigint''
      else if name = ''NullFloat64'' then ''float(53)''
      else if name = ''NullBool'' then ''tinyint''
      else if name = ''Time'' then ''datetime''
      else varchar_255 maxsize)"

fun SqlServer_ToSqlType :: "go_type \<Rightarrow> int \<Rightarrow> bool \<Rightarrow> string" where
  "SqlServer_ToSqlType (PtrTo t) maxsize isAutoIncr = SqlServer_ToSqlType t maxsize isAutoIncr"
| "SqlServer_ToSqlType (SliceOf t n) maxsize isAutoIncr =
     (if kind_of t = KUint8 then ''varbinary'' else SqlServer_by_name n maxsize)"
| "SqlServer_ToSqlType (Basic k n) maxsize isAutoIncr =
     (case k of
        KBool \<Rightarrow> ''bit''
      | KInt8 \<Rightarrow> ''tinyint''
      | KUint8 \<Rightarrow> ''smallint''
      | KInt16 \<Rightarrow> ''smallint''
      | KUint16 \<Rightarrow> ''int''
      | KInt \<Rightarrow> ''int''
      | KInt32 \<Rightarrow> ''int''
      | KUint \<Rightarrow> ''bigint''
      | KUint32 \<Rightarrow> ''bigint''
      | KInt64 \<Rightarrow> ''bigint''
      | KUint64 \<Rightarrow> ''bigint''
      | KFloat32 \<Rightarrow> ''real''
      | KFloat64 \<Rightarrow> ''float(53)''
      | _ \<Rightarrow> SqlServer_by_name n maxsize)"

definition SqlServer_QuoteField :: "string \<Rightarrow> string" where
  "SqlServer_QuoteField f = [dquote] @ f @ [dquote]"

definition SqlServer_QuotedTable :: "string \<Rightarrow> string \<Rightarrow> string" where
  "SqlServer_QuotedTable schema table = schema_dot (\<lambda>t. t) schema table"

definition quoted :: "string \<Rightarrow> string" where
  "quoted s = [squote] @ s @ [squote]"

definition schema_clause :: "string \<Rightarrow> string" where
  "schema_clause schema =
     (if trim_space schema \<noteq> [] then ''table_schema = '' @ quoted schema @ '' and '' else [])"

definition SqlServer_IfSchemaNotExists :: "string \<Rightarrow> string \<Rightarrow> string" where
  "SqlServer_IfSchemaNotExists command schema =
     ''if not exists (select name from sys.schemas where name = '' @ quoted schema @ '') '' @ command"

definition SqlServer_IfTableExists :: "string \<Rightarrow> string \<Rightarrow> string \<Rightarrow> string" where
  "SqlServer_IfTableExists command schema table =
     ''if exists (select * from information_schema.tables where '' @ schema_clause schema
       @ ''table_name = '' @ quoted table @ '') '' @ command"

definition SqlServer_IfTableNotExists :: "string \<Rightarrow> string \<Rightarrow> string \<Rightarrow> string" where
  "SqlServer_IfTableNotExists command schema table =
     ''if not exists (select * from information_schema.tables where '' @ schema_clause schema
       @ ''table_name = '' @ quoted table @ '') '' @ command"

definition SqlServerDialect :: "string \<Rightarrow> Dialect" where
  "SqlServerDialect sfx = \<lparr>
     QuerySuffix = '';'',
     ToSqlType = SqlServer_ToSqlType,
     AutoIncrStr = ''identity(0,1)'',
     AutoIncrBindValue = [],
     AutoIncrInsertSuffix = (\<lambda>col. []),
     CreateTableSuffix = Ret sfx,
     TruncateClause = ''delete from'',
     BindVar = (\<lambda>i. ''?''),
     BindNow = ''GETDATE()'',
     InsertAutoIncr = Standard,
     QuoteField = SqlServer_QuoteField,
     QuotedTableForQuery = SqlServer_QuotedTable,
     IfSchemaNotExists = SqlServer_IfSchemaNotExists,
     IfTableExists = SqlServer_IfTableExists,
     IfTableNotExists = SqlServer_IfTableNotExists\<rparr>"

section \<open>Oracle\<close>

definition Oracle_by_name :: "string \<Rightarrow> int \<Rightarrow> string" where
  "Oracle_by_name name maxsize =
     (if name = ''NullInt64'' then ''bigint''
      else if name = ''NullFloat64'' then ''double precision''
      else if name = ''NullBool'' then ''boolean''
      else if name = ''NullTime'' \<or> name = ''Time'' then ''timestamp with time zone''
      else varchar_or_text maxsize)"

fun Oracle_ToSqlType :: "go_type \<Rightarrow> int \<Rightarrow> bool \<Rightarrow> string" where
  "Oracle_ToSqlType (PtrTo t) maxsize isAutoIncr = Oracle_ToSqlType t maxsize isAutoIncr"
| "Oracle_ToSqlType (SliceOf t n) maxsize isAutoIncr =
     (if kind_of t = KUint8 then ''bytea'' else Oracle_by_name n maxsize)"
| "Oracle_ToSqlType (Basic k n) maxsize isAutoIncr =
     (if k = KBool then ''boolean''
      else if k \<in> {KInt, KInt8, KInt16, KInt32, KUint8, KUint16, KUint32}
        then (if isAutoIncr then ''serial'' else ''integer'')
      else if k \<in> {KInt64, KUint64} then (if isAutoIncr then ''bigserial'' else ''bigint'')
      else if k = KFloat64 then ''double precision''
      else if k = KFloat32 then ''real''
      else Oracle_by_name n maxsize)"

definition Oracle_BindVar :: "nat \<Rightarrow> string" where
  "Oracle_BindVar i = '':'' @ nat_dec (i + 1)"

definition Oracle_QuoteField :: "string \<Rightarrow> string" where
  "Oracle_QuoteField f = [dquote] @ to_upper f @ [dquote]"

definition OracleDialect :: Dialect where
  "OracleDialect = \<lparr>
     QuerySuffix = [],
     ToSqlType = Oracle_ToSqlType,
     AutoIncrStr = [],
     AutoIncrBindValue = ''default'',
     AutoIncrInsertSuffix = (\<lambda>col. '' returning '' @ col),
     CreateTableSuffix = Ret [],
     TruncateClause = ''truncate'',
     BindVar = Oracle_BindVar,
     BindNow = ''sysdate'',
     InsertAutoIncr = Id_query,
     QuoteField = Oracle_QuoteField,
     QuotedTableForQuery = schema_dot Oracle_QuoteField,
     IfSchemaNotExists = (\<lambda>command schema. if_not_exists command),
     IfTableExists = (\<lambda>command schema table. if_exists command),
     IfTableNotExists = (\<lambda>command schema table. if_not_exists command)\<rparr>"

section \<open>The contract of a dialect\<close>

text \<open>Reading a quoted identifier, as a SQL lexer does: up to the next quote character.\<close>

definition read_ident :: "char \<Rightarrow> string \<Rightarrow> (string \<times> string) option" where
  "read_ident q s =
     (case s of
        [] \<Rightarrow> None
      | c # r \<Rightarrow> if c = q \<and> q \<in> set r
                then Some (takeWhile (\<lambda>x. x \<noteq> q) r, tl (dropWhile (\<lambda>x. x \<noteq> q) r)) else None)"

lemma read_ident_shorter:
  assumes "read_ident q s = Some (f, r)"
  shows "length r < length s"
proof (cases s)
  case (Cons c t)
  then have "r = tl (dropWhile (\<lambda>x. x \<noteq> q) t)" using assms by (auto simp: read_ident_def split: if_splits)
  then have "length r \<le> length t" using length_dropWhile_le [of "\<lambda>x. x \<noteq> q" t] by simp
  with Cons show ?thesis by simp
qed (use assms in \<open>simp add: read_ident_def\<close>)

text \<open>A list of quoted identifiers separated by commas.\<close>

function read_idents :: "char \<Rightarrow> string \<Rightarrow> string list option" where
  "read_idents q s =
     (case read_ident q s of
        None \<Rightarrow> None
      | Some (f, []) \<Rightarrow> Some [f]
      | Some (f, c # r) \<Rightarrow> if c = CHR '','' then map_option ((#) f) (read_idents q r) else None)"
  by pat_completeness auto

termination
proof (relation "measure (\<lambda>(q, s). length s)")
  fix q s x f r c r'
  assume "read_ident q s = Some x" "(f, r) = x" "r = c # r'" "c = CHR '',''"
  then have "length (c # r') < length s" using read_ident_shorter [of q s f r] by simp
  then show "((q, r'), (q, s)) \<in> measure (\<lambda>(q, s). length s)" by simp
qed simp

declare read_idents.simps [simp del]

text \<open>What the statement builders rely on: one quote character around a name whose characters are
  changed one by one, never into the quote; and place holders that are all alike or all different.\<close>

locale dialect =
  fixes d :: Dialect and q :: char and letter :: "char \<Rightarrow> char"
  assumes quote: "QuoteField d f = q # map letter f @ [q]"
    and letter_q: "letter c = q \<longleftrightarrow> c = q"
    and bind: "(\<forall>i. BindVar d i = ''?'') \<or> inj (BindVar d)"
    and bind_plain: "BindVar d i \<noteq> [] \<and> CHR '','' \<notin> set (BindVar d i)"
    and q_comma: "q \<noteq> CHR '',''"
begin

lemma read_quoted:
  assumes "q \<notin> set f"
  shows "read_ident q (QuoteField d f @ rest) = Some (map letter f, rest)"
proof -
  have n: "\<forall>x \<in> set (map letter f). x \<noteq> q" using assms letter_q by auto
  then have "takeWhile (\<lambda>x. x \<noteq> q) (map letter f @ q # rest) = map letter f"
    "dropWhile (\<lambda>x. x \<noteq> q) (map letter f @ q # rest) = q # rest"
    by (simp_all add: takeWhile_append2 dropWhile_append2 takeWhile_tail del: set_map)
  then show ?thesis by (simp add: quote read_ident_def)
qed

lemma read_back:
  assumes "fs \<noteq> []" "\<forall>f \<in> set fs. q \<notin> set f"
  shows "read_idents q (join '','' (map (QuoteField d) fs)) = Some (map (map letter) fs)"
  using assms
proof (induction "'',''" fs rule: join.induct)
  case 1
  then show ?case by simp
next
  case (2 f)
  then show ?case using read_quoted [of f "[]"] by (subst read_idents.simps) simp
next
  case (3 f g fs)
  then show ?case using read_quoted [of f "'','' @ join '','' (map (QuoteField d) (g # fs))"]
    by (subst read_idents.simps) simp
qed

text \<open>A quote character inside a name is not escaped: it ends the identifier.\<close>

lemma quote_escapes:
  assumes "q \<notin> set f"
  shows "read_ident q (QuoteField d (f @ q # g) @ rest) = Some (map letter f, map letter g @ q # rest)"
proof -
  have "letter q = q" by (simp add: letter_q)
  then have "QuoteField d (f @ q # g) @ rest = QuoteField d f @ map letter g @ q # rest" by (simp add: quote)
  then show ?thesis using read_quoted [OF assms] by simp
qed

end

lemma lower_char_quote: "lower_char c = dquote \<longleftrightarrow> c = dquote"
proof (cases "65 \<le> (of_char c :: nat) \<and> (of_char c :: nat) \<le> 90")
  case True
  then have "(of_char (char_of (of_char c + 32 :: nat) :: char) :: nat) = of_char c + 32"
    by (intro of_char_char_of_small) simp
  with True show ?thesis by (auto simp: lower_char_def dest: arg_cong [where f = "of_char :: char \<Rightarrow> nat"])
next
  case False
  then show ?thesis by (auto simp: lower_char_def)
qed

lemma upper_char_quote: "upper_char c = dquote \<longleftrightarrow> c = dquote"
proof (cases "97 \<le> (of_char c :: nat) \<and> (of_char c :: nat) \<le> 122")
  case True
  then have "(of_char (char_of (of_char c - 32 :: nat) :: char) :: nat) = of_char c - 32"
    by (intro of_char_char_of_small) linarith
  with True show ?thesis by (auto simp: upper_char_def dest: arg_cong [where f = "of_char :: char \<Rightarrow> nat"])
next
  case False
  then show ?thesis by (auto simp: upper_char_def)
qed

lemma comma_not_digit: "\<not> is_digit CHR '',''"
  by (simp add: is_digit_def)

interpretation sqlite: dialect "SqliteDialect sfx" dquote "\<lambda>c. c" for sfx
  by unfold_locales (simp_all add: SqliteDialect_def Sqlite_QuoteField_def)

interpretation postgres: dialect "PostgresDialect sfx" dquote lower_char for sfx
  by unfold_locales
    (auto simp: PostgresDialect_def Postgres_QuoteField_def Postgres_BindVar_def to_lower_def lower_char_quote
      comma_not_digit intro!: injI)

interpretation mysql: dialect "MySQLDialect engine encoding" backquote "\<lambda>c. c" for engine encoding
  by unfold_locales (simp_all add: MySQLDialect_def MySQL_QuoteField_def)

interpretation sqlserver: dialect "SqlServerDialect sfx" dquote "\<lambda>c. c" for sfx
  by unfold_locales (simp_all add: SqlServerDialect_def SqlServer_QuoteField_def)

interpretation oracle_db: dialect OracleDialect dquote upper_char
  by unfold_locales
    (auto simp: OracleDialect_def Oracle_QuoteField_def Oracle_BindVar_def to_upper_def upper_char_quote
      comma_not_digit intro!: injI)

section \<open>Column types\<close>

text \<open>The families of the column types the dialects name.\<close>

datatype family = Integers | Floats | Booleans | Binary | Times | Texts

definition family_of :: "string \<Rightarrow> family" where
  "family_of s =
     (if s \<in> {''integer'', ''serial'', ''bigserial'', ''bigint'', ''int'', ''smallint'', ''tinyint'',
         ''tinyint unsigned'', ''smallint unsigned'', ''int unsigned'', ''bigint unsigned''} then Integers
      else if s \<in> {''real'', ''double'', ''double precision'', ''float(53)''} then Floats
      else if s \<in> {''boolean'', ''bit''} then Booleans
      else if s \<in> {''blob'', ''bytea'', ''mediumblob'', ''varbinary''} then Binary
      else if s \<in> {''datetime'', ''timestamp with time zone''} then Times
      else Texts)"

definition integer_kinds :: "reflect_kind list" where
  "integer_kinds = [KInt, KInt8, KInt16, KInt32, KInt64, KUint, KUint8, KUint16, KUint32, KUint64]"

fun strip_ptr :: "go_type \<Rightarrow> go_type" where
  "strip_ptr (PtrTo t) = strip_ptr t"
| "strip_ptr t = t"

definition special_names :: "string list" where
  "special_names = [''NullInt64'', ''NullFloat64'', ''NullBool'', ''NullTime'', ''Time'']"

text \<open>The family a Go type belongs to.\<close>

definition go_family :: "go_type \<Rightarrow> family" where
  "go_family t =
     (case strip_ptr t of
        PtrTo u \<Rightarrow> Texts
      | SliceOf u n \<Rightarrow> if kind_of u = KUint8 then Binary else Texts
      | Basic k n \<Rightarrow> if k \<in> set integer_kinds then Integers
          else if k \<in> {KFloat32, KFloat64} then Floats
          else if k = KBool then Booleans
          else if n = ''NullInt64'' then Integers
          else if n = ''NullFloat64'' then Floats
          else if n = ''NullBool'' then Booleans
          else if n = ''Time'' \<or> n = ''NullTime'' then Times
          else Texts)"

lemma family_names [simp]:
  "family_of ''integer'' = Integers"
  "family_of ''serial'' = Integers"
  "family_of ''bigserial'' = Integers"
  "family_of ''bigint'' = Integers"
  "family_of ''int'' = Integers"
  "family_of ''smallint'' = Integers"
  "family_of ''tinyint'' = Integers"
  "family_of ''tinyint unsigned'' = Integers"
  "family_of ''smallint unsigned'' = Integers"
  "family_of ''int unsigned'' = Integers"
  "family_of ''bigint unsigned'' = Integers"
  "family_of ''real'' = Floats"
  "family_of ''double'' = Floats"
  "family_of ''double precision'' = Floats"
  "family_of ''float(53)'' = Floats"
  "family_of ''boolean'' = Booleans"
  "family_of ''bit'' = Booleans"
  "family_of ''blob'' = Binary"
  "family_of ''bytea'' = Binary"
  "family_of ''mediumblob'' = Binary"
  "family_of ''varbinary'' = Binary"
  "family_of ''datetime'' = Times"
  "family_of ''timestamp with time zone'' = Times"
  "family_of ''text'' = Texts"
  by (code_simp+)

lemma varchar_Texts: "family_of (varchar n) = Texts"
  by (simp add: family_of_def varchar_def)

lemma by_name_Texts:
  "family_of (varchar_255 m) = Texts" "family_of (varchar_or_text m) = Texts"
  by (simp_all add: varchar_255_def varchar_or_text_def varchar_Texts)

lemma strip_ptr_ToSqlType:
  "Sqlite_ToSqlType (strip_ptr t) = Sqlite_ToSqlType t"
  "Postgres_ToSqlType (strip_ptr t) = Postgres_ToSqlType t"
  "MySQL_ToSqlType (strip_ptr t) = MySQL_ToSqlType t"
  "SqlServer_ToSqlType (strip_ptr t) = SqlServer_ToSqlType t"
  "Oracle_ToSqlType (strip_ptr t) = Oracle_ToSqlType t"
  by (induction t) (auto simp: fun_eq_iff)

lemma strip_ptr_idem: "strip_ptr (strip_ptr t) = strip_ptr t"
  by (induction t) auto

lemma strip_ptr_not_PtrTo: "strip_ptr t \<noteq> PtrTo u"
  by (induction t) auto

text \<open>Unnamed slices and the types of the packages \<open>database/sql\<close> and \<open>time\<close>
  carry the special names only.\<close>

definition plain_type :: "go_type \<Rightarrow> bool" where
  "plain_type t \<longleftrightarrow> (case strip_ptr t of
      SliceOf u n \<Rightarrow> n \<notin> set special_names
    | Basic k n \<Rightarrow> n \<in> set special_names \<longrightarrow> k = KStruct
    | PtrTo u \<Rightarrow> True)"

lemmas ToSqlType_simps = SqliteDialect_def PostgresDialect_def MySQLDialect_def SqlServerDialect_def
  OracleDialect_def

lemmas by_name_defs = Sqlite_by_name_def Postgres_by_name_def MySQL_by_name_def SqlServer_by_name_def
  Oracle_by_name_def

text \<open>A boolean may be kept in an integer column.\<close>

definition fits :: "family \<Rightarrow> family \<Rightarrow> bool" where
  "fits g f \<longleftrightarrow> f = g \<or> g = Booleans \<and> f = Integers"

definition is_null_time :: "go_type \<Rightarrow> bool" where
  "is_null_time t \<longleftrightarrow> type_name (strip_ptr t) = ''NullTime''"

definition is_uint :: "go_type \<Rightarrow> bool" where
  "is_uint t \<longleftrightarrow> kind_of (strip_ptr t) = KUint"

lemmas column_defs = go_family_def by_name_defs plain_type_def special_names_def integer_kinds_def
  by_name_Texts fits_def is_null_time_def is_uint_def

lemma stripped_family:
  assumes "plain_type t" "strip_ptr t = t"
  shows "(fits (go_family t) (family_of (Sqlite_ToSqlType t m a)) \<longleftrightarrow> \<not> is_null_time t)
    \<and> (fits (go_family t) (family_of (MySQL_ToSqlType t m a)) \<longleftrightarrow> \<not> is_null_time t)
    \<and> (fits (go_family t) (family_of (SqlServer_ToSqlType t m a)) \<longleftrightarrow> \<not> is_null_time t)
    \<and> (fits (go_family t) (family_of (Postgres_ToSqlType t m a)) \<longleftrightarrow> \<not> is_null_time t \<and> \<not> is_uint t)
    \<and> (fits (go_family t) (family_of (Oracle_ToSqlType t m a)) \<longleftrightarrow> \<not> is_uint t)"
proof (cases t)
  case (PtrTo u)
  with assms(2) show ?thesis using strip_ptr_not_PtrTo [of t u] by simp
next
  case (SliceOf u n)
  with assms show ?thesis by (simp add: column_defs)
next
  case (Basic k n)
  show ?thesis
  proof (cases "n \<in> set special_names")
    case True
    with assms Basic have "k = KStruct" by (simp add: plain_type_def)
    with True Basic show ?thesis by (auto simp: column_defs)
  next
    case False
    with Basic show ?thesis by (cases k) (simp_all add: column_defs)
  qed
qed

lemma stripped:
  "go_family (strip_ptr t) = go_family t" "is_null_time (strip_ptr t) = is_null_time t"
  "is_uint (strip_ptr t) = is_uint t" "plain_type (strip_ptr t) = plain_type t"
  by (simp_all add: go_family_def is_null_time_def is_uint_def plain_type_def strip_ptr_idem)

text \<open>Every dialect gives a Go type a column of its own family (integers for every integer kind, through
  any number of pointers, and likewise for floats, booleans, byte slices and times), except that a NullTime
  becomes a character column everywhere but in Oracle, and an unsigned \<open>uint\<close> becomes a character
  column in PostgreSQL and Oracle.\<close>

lemma column_family:
  assumes "plain_type t"
  shows "(fits (go_family t) (family_of (ToSqlType (SqliteDialect s) t m a)) \<longleftrightarrow> \<not> is_null_time t)
    \<and> (fits (go_family t) (family_of (ToSqlType (MySQLDialect e c) t m a)) \<longleftrightarrow> \<not> is_null_time t)
    \<and> (fits (go_family t) (family_of (ToSqlType (SqlServerDialect s) t m a)) \<longleftrightarrow> \<not> is_null_time t)
    \<and> (fits (go_family t) (family_of (ToSqlType (PostgresDialect s) t m a)) \<longleftrightarrow> \<not> is_null_time t \<and> \<not> is_uint t)
    \<and> (fits (go_family t) (family_of (ToSqlType OracleDialect t m a)) \<longleftrightarrow> \<not> is_uint t)"
proof -
  have "plain_type (strip_ptr t)" "strip_ptr (strip_ptr t) = strip_ptr t"
    using assms by (simp_all add: stripped strip_ptr_idem)
  from stripped_family [OF this] show ?thesis
    by (simp add: ToSqlType_simps stripped strip_ptr_ToSqlType)
qed

lemma column_family_witness:
  "family_of (ToSqlType (PostgresDialect []) (PtrTo (Basic KUint ''uint'')) 0 False) \<noteq> Integers
   \<and> fits Integers (family_of (ToSqlType (MySQLDialect ''InnoDB'' ''UTF8'') (PtrTo (Basic KUint ''uint'')) 0 False))"
proof -
  have "plain_type (PtrTo (Basic KUint ''uint''))" by (simp add: plain_type_def special_names_def)
  from column_family [OF this, of "[]" 0 False "''InnoDB''" "''UTF8''"] show ?thesis
    by (simp add: fits_def go_family_def integer_kinds_def is_null_time_def is_uint_def)
qed

section \<open>Ranges\<close>

text \<open>The values of the Go integer kinds on a 64-bit platform.\<close>

definition go_range :: "reflect_kind \<Rightarrow> int \<times> int" where
  "go_range k = (case k of
      KInt8 \<Rightarrow> (- (2 ^ 7), 2 ^ 7 - 1) | KInt16 \<Rightarrow> (- (2 ^ 15), 2 ^ 15 - 1)
    | KInt32 \<Rightarrow> (- (2 ^ 31), 2 ^ 31 - 1) | KInt64 \<Rightarrow> (- (2 ^ 63), 2 ^ 63 - 1)
    | KInt \<Rightarrow> (- (2 ^ 63), 2 ^ 63 - 1)
    | KUint8 \<Rightarrow> (0, 2 ^ 8 - 1) | KUint16 \<Rightarrow> (0, 2 ^ 16 - 1) | KUint32 \<Rightarrow> (0, 2 ^ 32 - 1)
    | KUint64 \<Rightarrow> (0, 2 ^ 64 - 1) | KUint \<Rightarrow> (0, 2 ^ 64 - 1)
    | _ \<Rightarrow> (0, 0))"

text \<open>The documented ranges of the column types: what the two servers promise of \<open>r\<close>, the range
  of a column of the named type.\<close>

definition mysql_ranges :: "(string \<Rightarrow> int \<times> int) \<Rightarrow> bool" where
  "mysql_ranges r \<longleftrightarrow>
     r ''tinyint'' = (- (2 ^ 7), 2 ^ 7 - 1) \<and> r ''tinyint unsigned'' = (0, 2 ^ 8 - 1)
   \<and> r ''smallint'' = (- (2 ^ 15), 2 ^ 15 - 1) \<and> r ''smallint unsigned'' = (0, 2 ^ 16 - 1)
   \<and> r ''int'' = (- (2 ^ 31), 2 ^ 31 - 1) \<and> r ''int unsigned'' = (0, 2 ^ 32 - 1)
   \<and> r ''bigint'' = (- (2 ^ 63), 2 ^ 63 - 1) \<and> r ''bigint unsigned'' = (0, 2 ^ 64 - 1)"

definition sqlserver_ranges :: "(string \<Rightarrow> int \<times> int) \<Rightarrow> bool" where
  "sqlserver_ranges r \<longleftrightarrow>
     r ''tinyint'' = (0, 2 ^ 8 - 1) \<and> r ''smallint'' = (- (2 ^ 15), 2 ^ 15 - 1)
   \<and> r ''int'' = (- (2 ^ 31), 2 ^ 31 - 1) \<and> r ''bigint'' = (- (2 ^ 63), 2 ^ 63 - 1)"

definition covers :: "int \<times> int \<Rightarrow> int \<times> int \<Rightarrow> bool" where
  "covers col v \<longleftrightarrow> fst col \<le> fst v \<and> snd v \<le> snd col"

text \<open>Given the documented ranges of the column types, the column MySQL gets for an integer kind holds
  every value of the kind except for the 64-bit int and uint, which get 32-bit columns; in SQL Server it holds
  every value except for int8 (whose tinyint is unsigned there), int, uint and uint64.\<close>

lemma column_range:
  assumes "mysql_ranges r" "sqlserver_ranges r'" "k \<in> set integer_kinds"
  shows "(covers (r (ToSqlType (MySQLDialect e c) (Basic k n) m a)) (go_range k) \<longleftrightarrow> k \<notin> {KInt, KUint})
    \<and> (covers (r' (ToSqlType (SqlServerDialect s) (Basic k n) m a)) (go_range k)
        \<longleftrightarrow> k \<notin> {KInt8, KInt, KUint, KUint64})"
  using assms
  by (cases k) (simp_all add: MySQLDialect_def SqlServerDialect_def covers_def go_range_def mysql_ranges_def
      sqlserver_ranges_def integer_kinds_def)

definition documented :: "(string \<times> int \<times> int) list \<Rightarrow> string \<Rightarrow> int \<times> int" where
  "documented rs s = (case map_of rs s of Some p \<Rightarrow> p | None \<Rightarrow> (0, 0))"

lemma column_range_witness:
  "\<exists>r. mysql_ranges r \<and> \<not> covers (r (ToSqlType (MySQLDialect ''InnoDB'' ''UTF8'') (Basic KInt ''int'') 0 False)) (go_range KInt)"
proof -
  define r where "r = documented [(''tinyint'', (- (2 ^ 7), 2 ^ 7 - 1)), (''tinyint unsigned'', (0, 2 ^ 8 - 1)),
    (''smallint'', (- (2 ^ 15), 2 ^ 15 - 1)), (''smallint unsigned'', (0, 2 ^ 16 - 1)),
    (''int'', (- (2 ^ 31), 2 ^ 31 - 1)), (''int unsigned'', (0, 2 ^ 32 - 1)),
    (''bigint'', (- (2 ^ 63), 2 ^ 63 - 1)), (''bigint unsigned'', (0, 2 ^ 64 - 1))]"
  define r' where "r' = documented [(''tinyint'', (0, 2 ^ 8 - 1)), (''smallint'', (- (2 ^ 15), 2 ^ 15 - 1)),
    (''int'', (- (2 ^ 31), 2 ^ 31 - 1)), (''bigint'', (- (2 ^ 63), 2 ^ 63 - 1))]"
  have "mysql_ranges r" by (simp add: mysql_ranges_def r_def documented_def)
  moreover have "sqlserver_ranges r'" by (simp add: sqlserver_ranges_def r'_def documented_def)
  ultimately show ?thesis
    using column_range [of r r' KInt "''InnoDB''" "''UTF8''" "''int''" 0 False "[]"] by (auto simp: integer_kinds_def)
qed

section \<open>Quoting\<close>

text \<open>In every dialect a list of quoted column names reads back as the names (folded to lower case by
  PostgreSQL and to upper case by Oracle) when none contains the quote character; a quote character in a name is
  not escaped, it ends the identifier and the rest of the name is read as SQL.\<close>

lemma quoted_names_read_back:
  assumes "fs \<noteq> []" "\<forall>f \<in> set fs. dquote \<notin> set f \<and> backquote \<notin> set f"
  shows "read_idents dquote (join '','' (map (QuoteField (SqliteDialect s)) fs)) = Some fs
    \<and> read_idents dquote (join '','' (map (QuoteField (PostgresDialect s)) fs)) = Some (map to_lower fs)
    \<and> read_idents backquote (join '','' (map (QuoteField (MySQLDialect e c)) fs)) = Some fs
    \<and> read_idents dquote (join '','' (map (QuoteField (SqlServerDialect s)) fs)) = Some fs
    \<and> read_idents dquote (join '','' (map (QuoteField OracleDialect) fs)) = Some (map to_upper fs)
    \<and> read_ident backquote (QuoteField (MySQLDialect e c) (hd fs @ backquote # sql)) = Some (hd fs, sql @ [backquote])"
proof -
  have d: "\<forall>f \<in> set fs. dquote \<notin> set f" "\<forall>f \<in> set fs. backquote \<notin> set f" using assms(2) by auto
  have h: "backquote \<notin> set (hd fs)" using assms(1) d(2) by simp
  have f: "map lower_char = to_lower" "map upper_char = to_upper"
    by (simp_all add: fun_eq_iff to_lower_def to_upper_def)
  show ?thesis
    using sqlite.read_back [OF assms(1) d(1)] postgres.read_back [OF assms(1) d(1)] mysql.read_back [OF assms(1) d(2)]
      sqlserver.read_back [OF assms(1) d(1)] oracle_db.read_back [OF assms(1) d(1)]
      mysql.quote_escapes [OF h, of e c sql "[]"]
    by (simp add: f)
qed

lemma quoted_names_read_back_witness:
  "read_ident backquote (QuoteField (MySQLDialect ''InnoDB'' ''UTF8'') (''id'' @ backquote # '' or 1=1''))
    = Some (''id'', '' or 1=1'' @ [backquote])"
proof -
  have "[''id''] \<noteq> []" "\<forall>f \<in> set [''id'']. dquote \<notin> set f \<and> backquote \<notin> set f" by simp_all
  from quoted_names_read_back [OF this, of "[]" "''InnoDB''" "''UTF8''" "'' or 1=1''"] show ?thesis
    by (metis list.sel(1))
qed

end
