(* ===== verification/GorpTable.thy ===== *)
theory GorpTable
  imports GorpDialect "HOL-Library.AList" "HOL-Library.Sublist"
begin

text \<open>
  Tables and statement plans of \<open>gorp/gorp.go\<close>: how a Go struct becomes a table
  (\<open>readStructColumns\<close>, \<open>SetKeys\<close>), and how a struct value becomes the statement and
  the variables of an insert, update, delete or get.

  A \<open>*ColumnMap\<close> is its identity \<open>c_id\<close>; \<open>keys\<close> and \<open>version\<close> point to
  columns by identity. A struct type is a list of \<open>sfield\<close>s, a struct value the map from field
  names to \<open>fvalue\<close>s. The type converter, user code, is a parameter. The plans that the
  code stores in the table are written and never read, and left out.
\<close>

section \<open>Values\<close>

text \<open>The contents of a struct matter only in whether it is deeply equal to the zero value.\<close>

datatype fvalue =
    FInt int
  | FUint int
  | FFloat string
  | FBool bool
  | FString string
  | FSlice "fvalue list"
  | FMap "(string \<times> fvalue) list"
  | FPtr "fvalue option"
  | FStruct string bool

type_synonym struct_value = "string \<rightharpoonup> fvalue"

definition IsEmptyValue :: "fvalue \<Rightarrow> bool" where
  "IsEmptyValue v = (case v of
      FString s \<Rightarrow> s = []
    | FSlice vs \<Rightarrow> vs = []
    | FMap kvs \<Rightarrow> kvs = []
    | FPtr p \<Rightarrow> p = None
    | FStruct s zero \<Rightarrow> zero
    | _ \<Rightarrow> False)"

text \<open>\<open>!fv.IsValid() || utils.IsEmptyValue(fv)\<close> for the field of a name.\<close>

definition absent :: "struct_value \<Rightarrow> string \<Rightarrow> bool" where
  "absent elem f = (case elem f of None \<Rightarrow> True | Some v \<Rightarrow> IsEmptyValue v)"

section \<open>Tables\<close>

record ColumnMap =
  c_id :: nat
  ColumnName :: string
  Transient :: bool
  Unique :: bool
  MaxSize :: int
  fieldName :: string
  FieldIndex :: nat
  db_tag :: string
  c_gotype :: go_type
  isPK :: bool
  isAutoIncr :: bool
  isNotNull :: bool

record TableMap =
  t_name :: string
  SchemaName :: string
  t_gotype :: string
  Columns :: "ColumnMap list"
  t_keys :: "nat list"
  uniqueTogether :: "string list list"
  version :: "nat option"

definition colMapOrNil :: "TableMap \<Rightarrow> string \<Rightarrow> ColumnMap option" where
  "colMapOrNil t field = find (\<lambda>col. fieldName col = field \<or> ColumnName col = field) (Columns t)"

definition ColMap :: "TableMap \<Rightarrow> string \<Rightarrow> ColumnMap outcome" where
  "ColMap t field =
     (case colMapOrNil t field of
        Some col \<Rightarrow> Ret col
      | None \<Rightarrow> Panic (PanicMsg (''No ColumnMap in table '' @ t_name t @ '' type '' @ t_gotype t
          @ '' with field '' @ field)))"

text \<open>Writing through a column pointer.\<close>

definition on_column :: "nat \<Rightarrow> (ColumnMap \<Rightarrow> ColumnMap) \<Rightarrow> TableMap \<Rightarrow> TableMap" where
  "on_column i f t = t\<lparr>Columns := map (\<lambda>c. if c_id c = i then f c else c) (Columns t)\<rparr>"

definition Rename :: "string \<Rightarrow> nat \<Rightarrow> TableMap \<Rightarrow> TableMap" where
  "Rename colname i = on_column i (\<lambda>c. c\<lparr>ColumnName := colname\<rparr>)"

definition SetTransient :: "bool \<Rightarrow> nat \<Rightarrow> TableMap \<Rightarrow> TableMap" where
  "SetTransient b i = on_column i (\<lambda>c. c\<lparr>Transient := b\<rparr>)"

definition SetUnique :: "bool \<Rightarrow> nat \<Rightarrow> TableMap \<Rightarrow> TableMap" where
  "SetUnique b i = on_column i (\<lambda>c. c\<lparr>Unique := b\<rparr>)"

definition SetNotNull :: "bool \<Rightarrow> nat \<Rightarrow> TableMap \<Rightarrow> TableMap" where
  "SetNotNull b i = on_column i (\<lambda>c. c\<lparr>isNotNull := b\<rparr>)"

definition SetMaxSize :: "int \<Rightarrow> nat \<Rightarrow> TableMap \<Rightarrow> TableMap" where
  "SetMaxSize n i = on_column i (\<lambda>c. c\<lparr>MaxSize := n\<rparr>)"

fun set_keys_loop :: "bool \<Rightarrow> string list \<Rightarrow> TableMap \<Rightarrow> TableMap outcome" where
  "set_keys_loop autoIncr [] t = Ret t"
| "set_keys_loop autoIncr (name # names) t =
     bind_outcome (ColMap t name) (\<lambda>col.
       set_keys_loop autoIncr names
         ((on_column (c_id col) (\<lambda>c. c\<lparr>isPK := True, isAutoIncr := autoIncr\<rparr>) t)\<lparr>t_keys := t_keys t @ [c_id col]\<rparr>))"

definition SetKeys :: "bool \<Rightarrow> string list \<Rightarrow> TableMap \<Rightarrow> TableMap outcome" where
  "SetKeys autoIncr fieldNames t =
     (if autoIncr \<and> length fieldNames \<noteq> 1
      then Panic (PanicMsg (''gorp: SetKeys: fieldNames length must be 1 if key is auto-increment. (Saw ''
        @ nat_dec (length fieldNames) @ '' fieldNames)''))
      else set_keys_loop autoIncr fieldNames (t\<lparr>t_keys := []\<rparr>))"

definition SetUniqueTogether :: "string list \<Rightarrow> TableMap \<Rightarrow> TableMap outcome" where
  "SetUniqueTogether fieldNames t =
     (if length fieldNames < 2
      then Panic (PanicMsg
        ''gorp: SetUniqueTogether: must provide at least two fieldNames to set uniqueness constraint.'')
      else Ret (t\<lparr>uniqueTogether := uniqueTogether t @ [fieldNames]\<rparr>))"

definition SetVersionCol :: "string \<Rightarrow> TableMap \<Rightarrow> TableMap outcome" where
  "SetVersionCol field t = bind_outcome (ColMap t field) (\<lambda>c. Ret (t\<lparr>version := Some (c_id c)\<rparr>))"

definition column :: "TableMap \<Rightarrow> nat \<Rightarrow> ColumnMap option" where
  "column t i = find (\<lambda>c. c_id c = i) (Columns t)"

text \<open>The columns of the keys, and of the version, as far as they are columns of the table.\<close>

definition key_columns :: "TableMap \<Rightarrow> ColumnMap list" where
  "key_columns t = List.map_filter (column t) (t_keys t)"

definition version_name :: "TableMap \<Rightarrow> string" where
  "version_name t = (case Option.bind (version t) (column t) of Some c \<Rightarrow> ColumnName c | None \<Rightarrow> [])"

definition is_version :: "TableMap \<Rightarrow> ColumnMap \<Rightarrow> bool" where
  "is_version t col = (version t = Some (c_id col))"

section \<open>From a struct type to columns\<close>

text \<open>A field with its tag, or an embedded struct (or pointer to one).\<close>

datatype sfield = Field string string go_type | Embedded "sfield list"

definition is_upper :: "char \<Rightarrow> bool" where
  "is_upper c = (65 \<le> (of_char c :: nat) \<and> (of_char c :: nat) \<le> 90)"

fun underscore_from :: "bool \<Rightarrow> string \<Rightarrow> string" where
  "underscore_from start [] = []"
| "underscore_from start (c # s) =
     (if is_upper c
      then (if start then [] else ''_'') @ [char_of (of_char c + 32 :: nat)] @ underscore_from False s
      else c # underscore_from False s)"

definition underscore :: "string \<Rightarrow> string" where
  "underscore str = underscore_from True str"

definition getFieldName :: "string \<Rightarrow> string \<Rightarrow> string" where
  "getFieldName name tag =
     (let columnName = (case find (\<lambda>t. contains_sub t ''column:'') (split_on (CHR '';'') tag) of
          Some t \<Rightarrow> drop 7 t | None \<Rightarrow> [])
      in if columnName = [] then underscore name else columnName)"

definition append_subcol :: "ColumnMap \<Rightarrow> ColumnMap list \<Rightarrow> ColumnMap list" where
  "append_subcol subcol cols =
     (if list_ex (\<lambda>col. \<not> Transient subcol \<and> fieldName subcol = fieldName col) cols then cols
      else cols @ [subcol])"

fun put_column :: "ColumnMap \<Rightarrow> ColumnMap list \<Rightarrow> ColumnMap list" where
  "put_column cm [] = [cm]"
| "put_column cm (col # cols) =
     (if \<not> Transient col \<and> fieldName col = fieldName cm then cm # cols else col # put_column cm cols)"

definition new_column :: "(go_type \<Rightarrow> go_type option) \<Rightarrow> nat \<Rightarrow> nat \<Rightarrow> string \<Rightarrow> string \<Rightarrow> go_type \<Rightarrow> ColumnMap" where
  "new_column holder i n name tag ty =
     \<lparr>c_id = n, ColumnName = getFieldName name tag, Transient = (tag = ''-''), Unique = False, MaxSize = 0,
      fieldName = name, FieldIndex = i, db_tag = tag,
      c_gotype = (case holder ty of Some ty' \<Rightarrow> ty' | None \<Rightarrow> ty),
      isPK = False, isAutoIncr = False, isNotNull = False\<rparr>"

text \<open>The loop over the fields: the columns and the version so far, and the next fresh identity.\<close>

fun read_fields ::
  "(go_type \<Rightarrow> go_type option) \<Rightarrow> sfield list \<Rightarrow> nat \<Rightarrow> ColumnMap list \<Rightarrow> nat option \<Rightarrow> nat
   \<Rightarrow> ColumnMap list \<times> nat option \<times> nat" where
  "read_fields holder [] i cols ver n = (cols, ver, n)"
| "read_fields holder (Embedded sub # fs) i cols ver n =
     (case read_fields holder sub 0 [] None n of
        (subcols, subversion, n') \<Rightarrow>
          read_fields holder fs (i + 1) (fold append_subcol subcols cols)
            (if subversion \<noteq> None then subversion else ver) n')"
| "read_fields holder (Field name tag ty # fs) i cols ver n =
     read_fields holder fs (i + 1) (put_column (new_column holder i n name tag ty) cols)
       (if name = ''Version'' then Some n else ver) (n + 1)"

definition readStructColumns ::
  "(go_type \<Rightarrow> go_type option) \<Rightarrow> sfield list \<Rightarrow> ColumnMap list \<times> nat option" where
  "readStructColumns holder fs =
     (case read_fields holder fs 0 [] None 0 of (cols, ver, n) \<Rightarrow> (cols, ver))"

section \<open>The registered tables\<close>

record DbMap =
  m_dialect :: Dialect
  m_holder :: "go_type \<Rightarrow> go_type option"
  m_tables :: "(string \<times> TableMap) list"

text \<open>\<open>AddTableWithNameAndSchema\<close>: a table of the same type is renamed, under its old key.\<close>

definition AddTableWithNameAndSchema :: "string \<Rightarrow> sfield list \<Rightarrow> string \<Rightarrow> string \<Rightarrow> DbMap \<Rightarrow> DbMap" where
  "AddTableWithNameAndSchema gotype fs schema name m =
     (let name = (if name = [] then gotype else name)
      in if list_ex (\<lambda>(k, t). t_gotype t = gotype) (m_tables m)
         then m\<lparr>m_tables := map (\<lambda>(k, t). if t_gotype t = gotype then (k, t\<lparr>t_name := name\<rparr>) else (k, t)) (m_tables m)\<rparr>
         else let (cols, ver) = readStructColumns (m_holder m) fs
              in m\<lparr>m_tables := AList.update name
                   \<lparr>t_name = name, SchemaName = schema, t_gotype = gotype, Columns = cols, t_keys = [],
                    uniqueTogether = [], version = ver\<rparr> (m_tables m)\<rparr>)"

definition tableOrNil :: "DbMap \<Rightarrow> string \<Rightarrow> TableMap option" where
  "tableOrNil m gotype = map_option snd (find (\<lambda>(k, t). t_gotype t = gotype) (m_tables m))"

datatype table_error = NoTable string | NoKeys string

definition TableFor :: "DbMap \<Rightarrow> string \<Rightarrow> bool \<Rightarrow> table_error + TableMap" where
  "TableFor m gotype checkPK =
     (case tableOrNil m gotype of
        None \<Rightarrow> Inl (NoTable gotype)
      | Some t \<Rightarrow> if checkPK \<and> length (t_keys t) < 1 then Inl (NoKeys (t_name t)) else Inr t)"

section \<open>Statement plans\<close>

record bindPlan =
  p_query :: string
  argFields :: "string list"
  keyFields :: "string list"
  versField :: string
  autoIncrIdx :: int
  autoIncrFieldName :: string

definition empty_plan :: bindPlan where
  "empty_plan = \<lparr>p_query = [], argFields = [], keyFields = [], versField = [], autoIncrIdx = 0,
     autoIncrFieldName = []\<rparr>"

definition versFieldConst :: string where
  "versFieldConst = ''[gorp_ver_field]''"

definition quoted_table :: "Dialect \<Rightarrow> TableMap \<Rightarrow> string" where
  "quoted_table d t = QuotedTableForQuery d (SchemaName t) (t_name t)"

definition add_now :: "ColumnMap \<Rightarrow> bool" where
  "add_now col = contains_sub (db_tag col) ''add_now''"

definition update_now :: "ColumnMap \<Rightarrow> bool" where
  "update_now col = contains_sub (db_tag col) ''update_now''"

subsection \<open>Insert\<close>

record insert_acc =
  i_names :: string
  i_values :: string
  i_x :: nat
  i_first :: bool
  i_plan :: bindPlan

definition bind_column :: "TableMap \<Rightarrow> ColumnMap \<Rightarrow> bindPlan \<Rightarrow> bindPlan" where
  "bind_column t col plan =
     (if is_version t col
      then plan\<lparr>versField := fieldName col, argFields := argFields plan @ [versFieldConst]\<rparr>
      else plan\<lparr>argFields := argFields plan @ [fieldName col]\<rparr>)"

definition insert_step :: "Dialect \<Rightarrow> TableMap \<Rightarrow> struct_value \<Rightarrow> nat \<Rightarrow> ColumnMap \<Rightarrow> insert_acc \<Rightarrow> insert_acc" where
  "insert_step d t elem y col a =
     (if \<not> isAutoIncr col \<and> \<not> add_now col \<and> absent elem (fieldName col) then a
      else if isAutoIncr col \<and> AutoIncrBindValue d = []
      then a\<lparr>i_plan := (i_plan a)\<lparr>autoIncrIdx := int y, autoIncrFieldName := fieldName col\<rparr>\<rparr>
      else if Transient col then a
      else
        let sep = (if i_first a then [] else '','');
            b = a\<lparr>i_names := i_names a @ sep @ QuoteField d (ColumnName col), i_first := False\<rparr>
        in if isAutoIncr col
           then b\<lparr>i_values := i_values a @ sep @ AutoIncrBindValue d,
                  i_plan := (i_plan a)\<lparr>autoIncrIdx := int y, autoIncrFieldName := fieldName col\<rparr>\<rparr>
           else if add_now col \<and> absent elem (fieldName col)
           then b\<lparr>i_values := i_values a @ sep @ BindNow d\<rparr>
           else b\<lparr>i_values := i_values a @ sep @ BindVar d (i_x a), i_plan := bind_column t col (i_plan a),
                  i_x := i_x a + 1\<rparr>)"

fun insert_loop :: "Dialect \<Rightarrow> TableMap \<Rightarrow> struct_value \<Rightarrow> nat \<Rightarrow> ColumnMap list \<Rightarrow> insert_acc \<Rightarrow> insert_acc" where
  "insert_loop d t elem y [] a = a"
| "insert_loop d t elem y (col # cols) a = insert_loop d t elem (y + 1) cols (insert_step d t elem y col a)"

definition insert_plan :: "Dialect \<Rightarrow> TableMap \<Rightarrow> struct_value \<Rightarrow> bindPlan" where
  "insert_plan d t elem =
     (let a = insert_loop d t elem 0 (Columns t) \<lparr>i_names = [], i_values = [], i_x = 0, i_first = True,
                i_plan = empty_plan\<lparr>autoIncrIdx := -1\<rparr>\<rparr>;
          plan = i_plan a;
          ret = (if autoIncrIdx plan > -1
                 then AutoIncrInsertSuffix d (ColumnName (Columns t ! nat (autoIncrIdx plan))) else [])
      in plan\<lparr>p_query := ''INSERT INTO '' @ quoted_table d t @ '' ('' @ i_names a @ '') VALUES ('' @ i_values a
                @ '')'' @ ret @ QuerySuffix d\<rparr>)"

subsection \<open>Update\<close>

record update_acc =
  u_sets :: string
  u_x :: nat
  u_plan :: bindPlan

definition update_step :: "Dialect \<Rightarrow> TableMap \<Rightarrow> struct_value \<Rightarrow> ColumnMap \<Rightarrow> update_acc \<Rightarrow> update_acc" where
  "update_step d t elem col a =
     (if isAutoIncr col \<or> Transient col \<or> absent elem (fieldName col) then a
      else
        let s = u_sets a @ (if u_x a > 0 then '', '' else []) @ QuoteField d (ColumnName col) @ ''=''
        in if update_now col then a\<lparr>u_sets := s @ BindNow d, u_x := u_x a + 1\<rparr>
           else a\<lparr>u_sets := s @ BindVar d (u_x a), u_x := u_x a + 1, u_plan := bind_column t col (u_plan a)\<rparr>)"

text \<open>The keys, each with the next place holder.\<close>

fun key_sql :: "Dialect \<Rightarrow> string \<Rightarrow> nat \<Rightarrow> bool \<Rightarrow> ColumnMap list \<Rightarrow> string" where
  "key_sql d glue x first [] = []"
| "key_sql d glue x first (col # cols) =
     (if first then [] else glue) @ QuoteField d (ColumnName col) @ ''='' @ BindVar d x
       @ key_sql d glue (x + 1) False cols"

definition update_plan :: "Dialect \<Rightarrow> TableMap \<Rightarrow> struct_value \<Rightarrow> bindPlan" where
  "update_plan d t elem =
     (let a = fold (update_step d t elem) (Columns t) \<lparr>u_sets = [], u_x = 0, u_plan = empty_plan\<rparr>;
          ks = map fieldName (key_columns t);
          plan = (u_plan a)\<lparr>argFields := argFields (u_plan a) @ ks, keyFields := keyFields (u_plan a) @ ks\<rparr>;
          s = ''UPDATE '' @ quoted_table d t @ '' SET '' @ u_sets a @ '' WHERE ''
                @ key_sql d '' AND '' (u_x a) True (key_columns t)
      in if versField plan \<noteq> []
         then plan\<lparr>argFields := argFields plan @ [versField plan],
                   p_query := s @ '' AND '' @ QuoteField d (version_name t) @ ''=''
                     @ BindVar d (u_x a + length (key_columns t)) @ QuerySuffix d\<rparr>
         else plan\<lparr>p_query := s @ QuerySuffix d\<rparr>)"

subsection \<open>Delete and get\<close>

text \<open>The loop keeps the last column that is the version.\<close>

definition delete_version :: "TableMap \<Rightarrow> string" where
  "delete_version t =
     fold (\<lambda>col v. if \<not> Transient col \<and> is_version t col then fieldName col else v) (Columns t) []"

definition delete_plan :: "Dialect \<Rightarrow> TableMap \<Rightarrow> bindPlan" where
  "delete_plan d t =
     (let ks = map fieldName (key_columns t);
          plan = empty_plan\<lparr>versField := delete_version t, keyFields := ks, argFields := ks\<rparr>;
          s = ''delete from '' @ quoted_table d t @ '' where '' @ key_sql d '' and '' 0 True (key_columns t)
      in if versField plan \<noteq> []
         then plan\<lparr>argFields := argFields plan @ [versField plan],
                   p_query := s @ '' and '' @ QuoteField d (version_name t) @ ''=''
                     @ BindVar d (length (argFields plan)) @ QuerySuffix d\<rparr>
         else plan\<lparr>p_query := s @ QuerySuffix d\<rparr>)"

definition get_plan :: "Dialect \<Rightarrow> TableMap \<Rightarrow> bindPlan" where
  "get_plan d t =
     (let cols = filter (\<lambda>col. \<not> Transient col) (Columns t)
      in empty_plan\<lparr>argFields := map fieldName cols, keyFields := map fieldName (key_columns t),
           p_query := ''select '' @ join '','' (map (\<lambda>col. QuoteField d (ColumnName col)) cols) @ '' from ''
             @ quoted_table d t @ '' where '' @ key_sql d '' and '' 0 True (key_columns t) @ QuerySuffix d\<rparr>)"

subsection \<open>Binding\<close>

record bindInstance =
  b_query :: string
  b_args :: "fvalue list"
  b_keys :: "fvalue list"
  existingVersion :: int
  b_versField :: string
  b_autoIncrIdx :: int
  b_autoIncrFieldName :: string

text \<open>\<open>elem.FieldByName(f).Interface()\<close>, and \<open>.Int()\<close>, which panics on other kinds.\<close>

definition field_interface :: "struct_value \<Rightarrow> string \<Rightarrow> fvalue outcome" where
  "field_interface elem f = (case elem f of Some v \<Rightarrow> Ret v | None \<Rightarrow> Panic (PanicMsg ''reflect: Interface''))"

definition field_int :: "struct_value \<Rightarrow> string \<Rightarrow> int outcome" where
  "field_int elem f = (case elem f of Some (FInt i) \<Rightarrow> Ret i | _ \<Rightarrow> Panic (PanicMsg ''reflect: Int''))"

text \<open>A converted field; the converter may fail.\<close>

definition convert :: "(fvalue \<Rightarrow> string + fvalue) option \<Rightarrow> fvalue \<Rightarrow> string + fvalue" where
  "convert conv v = (case conv of None \<Rightarrow> Inr v | Some to_db \<Rightarrow> to_db v)"

text \<open>The new version is written to the struct when the existing one is 0. 64-bit versions wrap.\<close>

definition next_version :: "int \<Rightarrow> int" where
  "next_version v = sint (word_of_int (v + 1) :: 64 word)"

fun bind_args ::
  "(fvalue \<Rightarrow> string + fvalue) option \<Rightarrow> string \<Rightarrow> int \<Rightarrow> string list \<Rightarrow> struct_value
   \<Rightarrow> (string + fvalue list) outcome \<times> struct_value" where
  "bind_args conv vf ver [] elem = (Ret (Inr []), elem)"
| "bind_args conv vf ver (k # ks) elem =
     (if k = versFieldConst then
        let elem' = (if ver = 0 then elem(vf \<mapsto> FInt (next_version ver)) else elem);
            (r, elem'') = bind_args conv vf ver ks elem'
        in (bind_outcome r (\<lambda>vs. Ret (case vs of Inl e \<Rightarrow> Inl e | Inr vs \<Rightarrow> Inr (FInt (next_version ver) # vs))), elem'')
      else
        case field_interface elem k of
          Panic p \<Rightarrow> (Panic p, elem)
        | Ret v \<Rightarrow>
            (case convert conv v of
               Inl e \<Rightarrow> (Ret (Inl e), elem)
             | Inr v' \<Rightarrow>
                 let (r, elem') = bind_args conv vf ver ks elem
                 in (bind_outcome r (\<lambda>vs. Ret (case vs of Inl e \<Rightarrow> Inl e | Inr vs \<Rightarrow> Inr (v' # vs))), elem')))"

fun bind_keys ::
  "(fvalue \<Rightarrow> string + fvalue) option \<Rightarrow> string list \<Rightarrow> struct_value \<Rightarrow> (string + fvalue list) outcome" where
  "bind_keys conv [] elem = Ret (Inr [])"
| "bind_keys conv (k # ks) elem =
     (case field_interface elem k of
        Panic p \<Rightarrow> Panic p
      | Ret v \<Rightarrow>
          (case convert conv v of
             Inl e \<Rightarrow> Ret (Inl e)
           | Inr v' \<Rightarrow> bind_outcome (bind_keys conv ks elem)
               (\<lambda>vs. Ret (case vs of Inl e \<Rightarrow> Inl e | Inr vs \<Rightarrow> Inr (v' # vs)))))"

definition createBindInstance ::
  "bindPlan \<Rightarrow> (fvalue \<Rightarrow> string + fvalue) option \<Rightarrow> struct_value \<Rightarrow> (string + bindInstance) outcome \<times> struct_value" where
  "createBindInstance plan conv elem =
     (case (if versField plan \<noteq> [] then field_int elem (versField plan) else Ret 0) of
        Panic p \<Rightarrow> (Panic p, elem)
      | Ret ver \<Rightarrow>
          (case bind_args conv (versField plan) ver (argFields plan) elem of
             (Panic p, elem') \<Rightarrow> (Panic p, elem')
           | (Ret (Inl e), elem') \<Rightarrow> (Ret (Inl e), elem')
           | (Ret (Inr args), elem') \<Rightarrow>
               (case bind_keys conv (keyFields plan) elem' of
                  Panic p \<Rightarrow> (Panic p, elem')
                | Ret (Inl e) \<Rightarrow> (Ret (Inl e), elem')
                | Ret (Inr ks) \<Rightarrow>
                    (Ret (Inr \<lparr>b_query = p_query plan, b_args = args, b_keys = ks, existingVersion = ver,
                       b_versField = versField plan, b_autoIncrIdx = autoIncrIdx plan,
                       b_autoIncrFieldName = autoIncrFieldName plan\<rparr>), elem'))))"

section \<open>Statements about whole tables\<close>

definition column_sql :: "Dialect \<Rightarrow> TableMap \<Rightarrow> ColumnMap \<Rightarrow> string" where
  "column_sql d t col =
     QuoteField d (ColumnName col) @ '' '' @ ToSqlType d (c_gotype col) (MaxSize col) (isAutoIncr col)
     @ (if isPK col \<or> isNotNull col then '' not null'' else [])
     @ (if isPK col \<and> length (t_keys t) = 1 then '' primary key'' else [])
     @ (if Unique col then '' unique'' else [])
     @ (if isAutoIncr col then '' '' @ AutoIncrStr d else [])"

definition createTable_sql :: "Dialect \<Rightarrow> bool \<Rightarrow> TableMap \<Rightarrow> string outcome" where
  "createTable_sql d ifNotExists t =
     bind_outcome (CreateTableSuffix d) (\<lambda>sfx. Ret (
       (if trim_space (SchemaName t) \<noteq> []
        then (if ifNotExists then IfSchemaNotExists d ''create schema'' (SchemaName t) else ''create schema'')
          @ '' '' @ SchemaName t @ '';'' else [])
       @ (if ifNotExists then IfTableNotExists d ''create table'' (SchemaName t) (t_name t) else ''create table'')
       @ '' '' @ quoted_table d t @ '' (''
       @ join '', '' (map (column_sql d t) (filter (\<lambda>col. \<not> Transient col) (Columns t)))
       @ (if length (t_keys t) > 1
          then '', primary key ('' @ join '', '' (map (\<lambda>col. QuoteField d (ColumnName col)) (key_columns t)) @ '')''
          else [])
       @ concat (map (\<lambda>cols. '', unique ('' @ join '', '' (map (QuoteField d) cols) @ '')'') (uniqueTogether t))
       @ '') '' @ sfx @ QuerySuffix d))"

definition dropTable_sql :: "Dialect \<Rightarrow> bool \<Rightarrow> TableMap \<Rightarrow> string" where
  "dropTable_sql d ifExists t =
     (if ifExists then IfTableExists d ''drop table'' (SchemaName t) (t_name t) else ''drop table'')
     @ '' '' @ quoted_table d t @ '';''"

definition truncateTable_sql :: "Dialect \<Rightarrow> TableMap \<Rightarrow> string" where
  "truncateTable_sql d t = TruncateClause d @ '' '' @ quoted_table d t @ '';''"

text \<open>Dropping the table of an unregistered type formats its error with the name of a nil table.\<close>

definition dropTable :: "DbMap \<Rightarrow> string \<Rightarrow> bool \<Rightarrow> string outcome" where
  "dropTable m gotype addIfExists =
     (case tableOrNil m gotype of
        None \<Rightarrow> Panic NilDereference
      | Some t \<Rightarrow> Ret (dropTable_sql (m_dialect m) addIfExists t))"

section \<open>The columns of a struct\<close>

definition mapped_names :: "ColumnMap list \<Rightarrow> string list" where
  "mapped_names cols = map fieldName (filter (\<lambda>c. \<not> Transient c) cols)"

text \<open>Identities are fresh, and the names of the columns that are not transient are distinct.\<close>

definition columns_inv :: "nat \<Rightarrow> nat \<Rightarrow> ColumnMap list \<Rightarrow> bool" where
  "columns_inv lo hi cols \<longleftrightarrow> distinct (map c_id cols) \<and> (\<forall>c \<in> set cols. lo \<le> c_id c \<and> c_id c < hi)
     \<and> distinct (mapped_names cols)"

lemma columns_inv_Nil: "columns_inv lo hi []"
  by (simp add: columns_inv_def mapped_names_def)

lemma columns_inv_append:
  assumes "columns_inv lo hi cols" "lo \<le> c_id c" "c_id c < hi'" "hi \<le> hi'" "c_id c \<notin> c_id ` set cols"
    and "\<not> Transient c \<Longrightarrow> fieldName c \<notin> set (mapped_names cols)"
  shows "columns_inv lo hi' (cols @ [c])"
  using assms by (auto simp: columns_inv_def mapped_names_def)

lemma fold_append_subcol:
  assumes "columns_inv lo mid cols" "columns_inv mid hi subs" "lo \<le> mid" "mid \<le> hi"
  shows "columns_inv lo hi (fold append_subcol subs cols)"
proof -
  have "columns_inv lo hi (fold append_subcol xs cols) \<and>
      (\<forall>c \<in> set (fold append_subcol xs cols). c \<in> set cols \<or> c \<in> set xs)"
    if "prefix xs subs" for xs
    using that
  proof (induction xs rule: rev_induct)
    case Nil
    then show ?case using assms(1,4) by (auto simp: columns_inv_def)
  next
    case (snoc c xs)
    let ?r = "fold append_subcol xs cols"
    have IH: "columns_inv lo hi ?r" "\<forall>c \<in> set ?r. c \<in> set cols \<or> c \<in> set xs"
      using snoc by (auto dest: append_prefixD)
    obtain zs where subs: "subs = xs @ c # zs" using snoc.prems by (auto simp: prefix_def)
    have "c_id c \<notin> c_id ` set ?r"
    proof
      assume "c_id c \<in> c_id ` set ?r"
      then obtain e where e: "e \<in> set ?r" "c_id e = c_id c" by auto
      then consider "e \<in> set cols" | "e \<in> set xs" using IH(2) by auto
      then show False
      proof cases
        case 1
        then have "c_id e < mid" "mid \<le> c_id c" using assms(1,2) subs by (auto simp: columns_inv_def)
        with e(2) show False by simp
      next
        case 2
        then have "c_id e \<in> set (map c_id xs)" by simp
        moreover have "distinct (map c_id xs @ map c_id (c # zs))"
          using assms(2) by (simp add: columns_inv_def subs del: list.map)
        ultimately show False using e(2) by simp
      qed
    qed
    moreover have "c \<in> set subs" using subs by simp
    then have "mid \<le> c_id c" "c_id c < hi" using assms(2) by (auto simp: columns_inv_def)
    then have "lo \<le> c_id c" "c_id c < hi" using assms(3) by auto
    ultimately have app: "columns_inv lo hi (?r @ [c])"
      if "\<not> Transient c \<Longrightarrow> fieldName c \<notin> set (mapped_names ?r)"
      using that by (intro columns_inv_append [OF IH(1)]) auto
    show ?case
    proof (cases "list_ex (\<lambda>col. \<not> Transient c \<and> fieldName c = fieldName col) ?r")
      case True
      with IH show ?thesis by (auto simp: append_subcol_def [of c ?r])
    next
      case False
      then have "\<not> Transient c \<Longrightarrow> fieldName c \<notin> set (mapped_names ?r)"
        by (auto simp: mapped_names_def list_ex_iff)
      with app False IH(2) show ?thesis by (auto simp: append_subcol_def [of c ?r])
    qed
  qed
  from this [of subs] show ?thesis by simp
qed

lemma put_column_set:
  "set (put_column cm cols) \<subseteq> insert cm (set cols)" "set (mapped_names (put_column cm cols)) \<subseteq> insert (fieldName cm) (set (mapped_names cols))"
  by (induction cols) (auto simp: mapped_names_def)

lemma columns_inv_put:
  assumes "columns_inv lo n cols" "c_id cm = n" "lo \<le> n"
  shows "columns_inv lo (n + 1) (put_column cm cols)"
  using assms
proof (induction cols)
  case Nil
  then show ?case by (auto simp: columns_inv_def mapped_names_def)
next
  case (Cons c cols)
  have c: "columns_inv lo n cols" "c_id c \<notin> c_id ` set cols" "c_id c < n" "lo \<le> c_id c"
    "\<not> Transient c \<Longrightarrow> fieldName c \<notin> set (mapped_names cols)"
    using Cons.prems(1) by (auto simp: columns_inv_def mapped_names_def split: if_splits)
  show ?case
  proof (cases "\<not> Transient c \<and> fieldName c = fieldName cm")
    case True
    then have "fieldName cm \<notin> set (mapped_names cols)" using c(5) by simp
    moreover have "n \<notin> c_id ` set cols" using c(1) by (auto simp: columns_inv_def)
    ultimately show ?thesis using True c(1) Cons.prems(2,3) by (auto simp: columns_inv_def mapped_names_def)
  next
    case False
    have IH: "columns_inv lo (n + 1) (put_column cm cols)" using Cons c(1) by simp
    have "c_id c \<notin> c_id ` set (put_column cm cols)"
      using put_column_set(1) [of cm cols] c(2,3) Cons.prems(2) by auto
    moreover have "\<not> Transient c \<Longrightarrow> fieldName c \<notin> set (mapped_names (put_column cm cols))"
      using put_column_set(2) [of cm cols] c(5) False by auto
    ultimately show ?thesis using False IH c(3,4) by (auto simp: columns_inv_def mapped_names_def)
  qed
qed

lemma read_fields_inv:
  assumes "read_fields holder fs i cols ver n = (cols', ver', n')" "columns_inv lo n cols" "lo \<le> n"
  shows "n \<le> n' \<and> columns_inv lo n' cols'"
  using assms
proof (induction holder fs i cols ver n arbitrary: lo cols' ver' n' rule: read_fields.induct)
  case (1 holder i cols ver n)
  then show ?case by simp
next
  case (2 holder sub fs i cols ver n)
  obtain subcols subver m where s: "read_fields holder sub 0 [] None n = (subcols, subver, m)"
    by (metis prod_cases3)
  have sub: "n \<le> m" "columns_inv n m subcols"
    using "2.IH"(1) [OF s columns_inv_Nil, of n] by auto
  have "columns_inv lo m (fold append_subcol subcols cols)"
    using fold_append_subcol [OF "2.prems"(2) sub(2)] "2.prems"(3) sub(1) by simp
  moreover have "read_fields holder fs (i + 1) (fold append_subcol subcols cols)
      (if subver \<noteq> None then subver else ver) m = (cols', ver', n')"
    using "2.prems"(1) s by simp
  ultimately show ?case
    using "2.IH"(2) [OF s [symmetric] refl, of cols' ver' n' lo] "2.prems"(3) sub(1) by auto
next
  case (3 holder name tag ty fs i cols ver n)
  have "columns_inv lo (n + 1) (put_column (new_column holder i n name tag ty) cols)"
    using columns_inv_put [OF "3.prems"(2)] "3.prems"(3) by (simp add: new_column_def)
  with "3.IH" [of cols' ver' n' lo] "3.prems" show ?case by auto
qed

lemma readStructColumns_inv:
  "distinct (mapped_names (fst (readStructColumns holder fs)))"
  "distinct (map c_id (fst (readStructColumns holder fs)))"
proof -
  obtain cols ver n where r: "read_fields holder fs 0 [] None 0 = (cols, ver, n)" by (metis prod_cases3)
  then have "columns_inv 0 n cols" using read_fields_inv [OF r columns_inv_Nil, of 0] by simp
  then show "distinct (mapped_names (fst (readStructColumns holder fs)))"
    "distinct (map c_id (fst (readStructColumns holder fs)))"
    using r by (simp_all add: readStructColumns_def columns_inv_def)
qed

section \<open>The text of an insert\<close>

text \<open>The columns an insert names, those it binds a variable for, and the values it lists.\<close>

definition ins_named :: "Dialect \<Rightarrow> struct_value \<Rightarrow> ColumnMap \<Rightarrow> bool" where
  "ins_named d elem col \<longleftrightarrow> \<not> Transient col
     \<and> (if isAutoIncr col then AutoIncrBindValue d \<noteq> [] else add_now col \<or> \<not> absent elem (fieldName col))"

definition ins_bound :: "Dialect \<Rightarrow> struct_value \<Rightarrow> ColumnMap \<Rightarrow> bool" where
  "ins_bound d elem col \<longleftrightarrow> ins_named d elem col \<and> \<not> isAutoIncr col \<and> \<not> absent elem (fieldName col)"

fun ins_values :: "Dialect \<Rightarrow> struct_value \<Rightarrow> nat \<Rightarrow> ColumnMap list \<Rightarrow> string list" where
  "ins_values d elem x [] = []"
| "ins_values d elem x (col # cols) =
     (if isAutoIncr col then AutoIncrBindValue d # ins_values d elem x cols
      else if absent elem (fieldName col) then BindNow d # ins_values d elem x cols
      else BindVar d x # ins_values d elem (x + 1) cols)"

definition arg_field :: "TableMap \<Rightarrow> ColumnMap \<Rightarrow> string" where
  "arg_field t col = (if is_version t col then versFieldConst else fieldName col)"

lemma join_snoc: "join sep (xs @ [x]) = join sep xs @ (if xs = [] then [] else sep) @ x"
  by (induction sep xs rule: join.induct) auto

lemma argFields_bind_column: "argFields (bind_column t col plan) = argFields plan @ [arg_field t col]"
  by (simp add: bind_column_def arg_field_def)

lemma insert_step_named:
  assumes "i_names a = join '','' ns" "i_values a = join '','' vs" "i_first a \<longleftrightarrow> ns = []" "length vs = length ns"
  shows "\<exists>ns' vs'. i_names (insert_step d t elem y col a) = join '','' (ns @ ns')
      \<and> i_values (insert_step d t elem y col a) = join '','' (vs @ vs')
      \<and> ns' = (if ins_named d elem col then [QuoteField d (ColumnName col)] else [])
      \<and> vs' = (if ins_named d elem col then ins_values d elem (i_x a) [col] else [])
      \<and> (i_first (insert_step d t elem y col a) \<longleftrightarrow> ns @ ns' = [])
      \<and> i_x (insert_step d t elem y col a) = i_x a + (if ins_bound d elem col then 1 else 0)
      \<and> argFields (i_plan (insert_step d t elem y col a))
          = argFields (i_plan a) @ (if ins_bound d elem col then [arg_field t col] else [])"
  using assms
  by (auto simp: insert_step_def ins_named_def ins_bound_def Let_def join_snoc argFields_bind_column)

lemma ins_values_Cons:
  "ins_named d elem col \<Longrightarrow> ins_values d elem x (col # cols)
    = ins_values d elem x [col] @ ins_values d elem (x + (if ins_bound d elem col then 1 else 0)) cols"
  by (simp add: ins_bound_def)

lemma length_ins_values: "length (ins_values d elem x cols) = length cols"
  by (induction cols arbitrary: x) auto

lemma insert_loop_text:
  assumes "i_names a = join '','' ns" "i_values a = join '','' vs" "i_first a \<longleftrightarrow> ns = []" "length vs = length ns"
  shows "i_names (insert_loop d t elem y cols a)
      = join '','' (ns @ map (\<lambda>c. QuoteField d (ColumnName c)) (filter (ins_named d elem) cols))
    \<and> i_values (insert_loop d t elem y cols a)
      = join '','' (vs @ ins_values d elem (i_x a) (filter (ins_named d elem) cols))
    \<and> argFields (i_plan (insert_loop d t elem y cols a))
      = argFields (i_plan a) @ map (arg_field t) (filter (ins_bound d elem) cols)"
  using assms
proof (induction cols arbitrary: y a ns vs)
  case Nil
  then show ?case by simp
next
  case (Cons col cols)
  let ?a = "insert_step d t elem y col a"
  let ?ns = "if ins_named d elem col then [QuoteField d (ColumnName col)] else []"
  let ?vs = "if ins_named d elem col then ins_values d elem (i_x a) [col] else []"
  have s: "i_names ?a = join '','' (ns @ ?ns)" "i_values ?a = join '','' (vs @ ?vs)"
    "i_first ?a \<longleftrightarrow> ns @ ?ns = []" "i_x ?a = i_x a + (if ins_bound d elem col then 1 else 0)"
    "argFields (i_plan ?a) = argFields (i_plan a) @ (if ins_bound d elem col then [arg_field t col] else [])"
    using insert_step_named [OF Cons.prems, of d t elem y col] by blast+
  have l: "length (vs @ ?vs) = length (ns @ ?ns)"
    using Cons.prems(4) by (simp add: length_ins_values)
  note IH = Cons.IH [OF s(1,2,3) l, of "y + 1"]
  have b: "ins_bound d elem col \<Longrightarrow> ins_named d elem col" by (simp add: ins_bound_def)
  show ?case
  proof (cases "ins_named d elem col")
    case True
    then show ?thesis using IH s(4,5) ins_values_Cons [OF True, of "i_x a" "filter (ins_named d elem) cols"] by simp
  next
    case False
    then show ?thesis using IH s(4,5) b by auto
  qed
qed

text \<open>The place holders of an insert, in the order of the columns, are the first ones.\<close>

lemma ins_placeholders:
  assumes "\<forall>c \<in> set cols. ins_named d elem c"
  shows "map snd (filter (\<lambda>(c, v). ins_bound d elem c) (zip cols (ins_values d elem x cols)))
    = map (BindVar d) [x..<x + length (filter (ins_bound d elem) cols)]"
  using assms
proof (induction cols arbitrary: x)
  case (Cons c cols)
  then have IH: "map snd (filter (\<lambda>(c, v). ins_bound d elem c) (zip cols (ins_values d elem y cols)))
    = map (BindVar d) [y..<y + length (filter (ins_bound d elem) cols)]" for y by simp
  show ?case
  proof (cases "ins_bound d elem c")
    case True
    then have "ins_values d elem x (c # cols) = BindVar d x # ins_values d elem (x + 1) cols"
      by (simp add: ins_bound_def)
    moreover have "[x..<x + length (filter (ins_bound d elem) (c # cols))]
        = x # [x + 1..<x + 1 + length (filter (ins_bound d elem) cols)]"
      using True by (simp add: upt_conv_Cons del: upt_Suc)
    ultimately show ?thesis using True IH [of "x + 1"] by simp
  next
    case False
    then have "\<exists>v. ins_values d elem x (c # cols) = v # ins_values d elem x cols"
      using Cons.prems by (auto simp: ins_bound_def)
    then show ?thesis using False IH [of x] by auto
  qed
qed simp

lemma insert_plan_parts:
  defines "named \<equiv> \<lambda>d elem cols. filter (ins_named d elem) cols"
  shows "\<exists>ret. p_query (insert_plan d t elem) = ''INSERT INTO '' @ quoted_table d t @ '' (''
      @ join '','' (map (\<lambda>c. QuoteField d (ColumnName c)) (named d elem (Columns t))) @ '') VALUES (''
      @ join '','' (ins_values d elem 0 (named d elem (Columns t))) @ '')'' @ ret @ QuerySuffix d"
    and "argFields (insert_plan d t elem) = map (arg_field t) (filter (ins_bound d elem) (Columns t))"
proof -
  let ?a = "\<lparr>i_names = [], i_values = [], i_x = 0, i_first = True, i_plan = empty_plan\<lparr>autoIncrIdx := -1\<rparr>\<rparr>"
  have "i_names ?a = join '','' []" "i_values ?a = join '','' []" "i_first ?a \<longleftrightarrow> [] = ([] :: string list)"
    "length ([] :: string list) = length ([] :: string list)" by simp_all
  note r = insert_loop_text [OF this, of d t elem 0 "Columns t"]
  then show "\<exists>ret. p_query (insert_plan d t elem) = ''INSERT INTO '' @ quoted_table d t @ '' (''
      @ join '','' (map (\<lambda>c. QuoteField d (ColumnName c)) (named d elem (Columns t))) @ '') VALUES (''
      @ join '','' (ins_values d elem 0 (named d elem (Columns t))) @ '')'' @ ret @ QuerySuffix d"
    by (auto simp: insert_plan_def Let_def named_def)
  from r show "argFields (insert_plan d t elem) = map (arg_field t) (filter (ins_bound d elem) (Columns t))"
    by (simp add: insert_plan_def Let_def empty_plan_def)
qed

section \<open>The text of an update\<close>

definition upd_set :: "struct_value \<Rightarrow> ColumnMap \<Rightarrow> bool" where
  "upd_set elem col \<longleftrightarrow> \<not> isAutoIncr col \<and> \<not> Transient col \<and> \<not> absent elem (fieldName col)"

text \<open>The assignments, numbered by their position.\<close>

definition assignment :: "Dialect \<Rightarrow> nat \<times> ColumnMap \<Rightarrow> string" where
  "assignment d p = (case p of (i, col) \<Rightarrow>
     QuoteField d (ColumnName col) @ ''='' @ (if update_now col then BindNow d else BindVar d i))"

definition upd_columns :: "TableMap \<Rightarrow> struct_value \<Rightarrow> ColumnMap list" where
  "upd_columns t elem = filter (upd_set elem) (Columns t)"

lemma update_step_text:
  assumes "u_sets a = join '', '' ss" "length ss = u_x a"
  shows "u_sets (update_step d t elem col a)
      = join '', '' (ss @ (if upd_set elem col then [assignment d (u_x a, col)] else []))
    \<and> u_x (update_step d t elem col a) = u_x a + (if upd_set elem col then 1 else 0)
    \<and> argFields (u_plan (update_step d t elem col a))
      = argFields (u_plan a) @ (if upd_set elem col \<and> \<not> update_now col then [arg_field t col] else [])
    \<and> keyFields (u_plan (update_step d t elem col a)) = keyFields (u_plan a)"
  using assms
  by (auto simp: update_step_def upd_set_def assignment_def Let_def join_snoc argFields_bind_column bind_column_def arg_field_def)

lemma update_loop_text:
  assumes "u_sets a = join '', '' ss" "length ss = u_x a"
  shows "u_sets (fold (update_step d t elem) cols a)
      = join '', '' (ss @ map (assignment d) (enumerate (u_x a) (filter (upd_set elem) cols)))
    \<and> u_x (fold (update_step d t elem) cols a) = u_x a + length (filter (upd_set elem) cols)
    \<and> argFields (u_plan (fold (update_step d t elem) cols a))
      = argFields (u_plan a) @ map (arg_field t) (filter (\<lambda>c. upd_set elem c \<and> \<not> update_now c) cols)
    \<and> keyFields (u_plan (fold (update_step d t elem) cols a)) = keyFields (u_plan a)"
  using assms
proof (induction cols arbitrary: a ss)
  case Nil
  then show ?case by simp
next
  case (Cons col cols)
  note s = update_step_text [OF Cons.prems, of d t elem col]
  let ?ss = "ss @ (if upd_set elem col then [assignment d (u_x a, col)] else [])"
  have "u_sets (update_step d t elem col a) = join '', '' ?ss" "length ?ss = u_x (update_step d t elem col a)"
    using s Cons.prems(2) by auto
  from Cons.IH [OF this] s show ?case by (cases "upd_set elem col") auto
qed

lemma key_sql_join:
  "key_sql d sep x True cols = join sep (map (\<lambda>(i, c). QuoteField d (ColumnName c) @ ''='' @ BindVar d i) (enumerate x cols))"
proof -
  have f: "key_sql d sep x False cols = concat (map (\<lambda>(i, c). sep @ QuoteField d (ColumnName c) @ ''='' @ BindVar d i)
      (enumerate x cols))" for x cols
    by (induction cols arbitrary: x) simp_all
  have j: "join sep (y # ys) = y @ concat (map (\<lambda>z. sep @ z) ys)" for y and ys :: "string list"
    by (induction ys arbitrary: y) simp_all
  show ?thesis
    by (cases cols) (simp_all add: f j split_def comp_def)
qed

text \<open>The numbers of the place holders of an update, in the order of its text: those of the assignments that
  are not \<open>update_now\<close>, then those of the keys and of the version.\<close>

definition upd_numbers :: "TableMap \<Rightarrow> struct_value \<Rightarrow> bool \<Rightarrow> nat list" where
  "upd_numbers t elem versioned =
     (let cols = upd_columns t elem; k = length (key_columns t) + (if versioned then 1 else 0)
      in map fst (filter (\<lambda>(i, col). \<not> update_now col) (enumerate 0 cols)) @ [length cols..<length cols + k])"

definition key_condition :: "Dialect \<Rightarrow> nat \<times> ColumnMap \<Rightarrow> string" where
  "key_condition d p = (case p of (i, c) \<Rightarrow> QuoteField d (ColumnName c) @ ''='' @ BindVar d i)"

definition update_text :: "Dialect \<Rightarrow> TableMap \<Rightarrow> struct_value \<Rightarrow> bool \<Rightarrow> string" where
  "update_text d t elem versioned =
     (let n = length (upd_columns t elem)
      in ''UPDATE '' @ quoted_table d t @ '' SET ''
        @ join '', '' (map (assignment d) (enumerate 0 (upd_columns t elem))) @ '' WHERE ''
        @ join '' AND '' (map (key_condition d) (enumerate n (key_columns t)))
        @ (if versioned then '' AND '' @ QuoteField d (version_name t) @ ''='' @ BindVar d (n + length (key_columns t)) else [])
        @ QuerySuffix d)"

lemma key_condition_fun: "(\<lambda>(i, c). QuoteField d (ColumnName c) @ ''='' @ BindVar d i) = key_condition d"
  by (simp add: fun_eq_iff key_condition_def)

lemma update_plan_parts:
  "p_query (update_plan d t elem) = update_text d t elem (versField (update_plan d t elem) \<noteq> [])"
  "argFields (update_plan d t elem)
    = map (arg_field t) (filter (\<lambda>c. \<not> update_now c) (upd_columns t elem)) @ map fieldName (key_columns t)
      @ (if versField (update_plan d t elem) \<noteq> [] then [versField (update_plan d t elem)] else [])"
  "keyFields (update_plan d t elem) = map fieldName (key_columns t)"
proof -
  define a where "a = fold (update_step d t elem) (Columns t) \<lparr>u_sets = [], u_x = 0, u_plan = empty_plan\<rparr>"
  have a: "u_sets a = join '', '' (map (assignment d) (enumerate 0 (upd_columns t elem)))" "u_x a = length (upd_columns t elem)"
    "argFields (u_plan a) = map (arg_field t) (filter (\<lambda>c. \<not> update_now c) (upd_columns t elem))"
    "keyFields (u_plan a) = []"
    using update_loop_text [of "\<lparr>u_sets = [], u_x = 0, u_plan = empty_plan\<rparr>" "[]" d t elem "Columns t"]
    by (simp_all add: upd_columns_def a_def empty_plan_def conj_commute)
  show "p_query (update_plan d t elem) = update_text d t elem (versField (update_plan d t elem) \<noteq> [])"
    unfolding update_plan_def Let_def a_def [symmetric] update_text_def key_sql_join key_condition_fun a
    by (cases "versField (u_plan a) = []") simp_all
  show "argFields (update_plan d t elem)
    = map (arg_field t) (filter (\<lambda>c. \<not> update_now c) (upd_columns t elem)) @ map fieldName (key_columns t)
      @ (if versField (update_plan d t elem) \<noteq> [] then [versField (update_plan d t elem)] else [])"
    "keyFields (update_plan d t elem) = map fieldName (key_columns t)"
    unfolding update_plan_def Let_def a_def [symmetric] using a(3,4)
    by (cases "versField (u_plan a) = []"; simp)+
qed

lemma filter_enumerate_fst:
  "(\<forall>x \<in> set xs. P x) \<Longrightarrow> map fst (filter (\<lambda>(i, x). P x) (enumerate n xs)) = [n..<n + length xs]"
  by (induction xs arbitrary: n) (simp_all add: upt_conv_Cons del: upt_Suc)

lemma length_filter_enumerate:
  "length (filter (\<lambda>(i, x). P x) (enumerate n xs)) = length (filter P xs)"
  by (induction xs arbitrary: n) simp_all

text \<open>The numbers are the first ones exactly when nothing in between is set to the current time.\<close>

lemma upd_numbers_consecutive:
  assumes "key_columns t \<noteq> []"
  shows "upd_numbers t elem v = [0..<length (upd_numbers t elem v)]
    \<longleftrightarrow> (\<forall>c \<in> set (upd_columns t elem). \<not> update_now c)"
proof -
  let ?cols = "upd_columns t elem"
  let ?k = "length (key_columns t) + (if v then 1 else 0)"
  let ?set = "map fst (filter (\<lambda>(i, col). \<not> update_now col) (enumerate 0 ?cols))"
  have k: "0 < ?k" using assms by simp
  have nums: "upd_numbers t elem v = ?set @ [length ?cols..<length ?cols + ?k]"
    by (simp add: upd_numbers_def Let_def)
  have len: "length ?set = length (filter (\<lambda>c. \<not> update_now c) ?cols)"
    using length_filter_enumerate [of "\<lambda>c. \<not> update_now c" 0 ?cols] by simp
  show ?thesis
  proof
    assume eq: "upd_numbers t elem v = [0..<length (upd_numbers t elem v)]"
    have "upd_numbers t elem v ! length ?set = length ?cols"
      unfolding nums using k by (simp add: nth_append)
    moreover have "length ?set < length (upd_numbers t elem v)" unfolding nums using k by simp
    ultimately have "length ?set = length ?cols"
      using arg_cong [OF eq, of "\<lambda>l. l ! length ?set"] by simp
    then have "length (filter (\<lambda>c. \<not> update_now c) ?cols) = length ?cols" using len by simp
    then show "\<forall>c \<in> set ?cols. \<not> update_now c" by (metis length_filter_less less_irrefl)
  next
    assume "\<forall>c \<in> set ?cols. \<not> update_now c"
    then have "?set = [0..<length ?cols]" using filter_enumerate_fst [of ?cols "\<lambda>c. \<not> update_now c" 0] by simp
    then have "upd_numbers t elem v = [0..<length ?cols + ?k]"
      unfolding nums using upt_add_eq_append [of 0 "length ?cols" ?k] by simp
    then show "upd_numbers t elem v = [0..<length (upd_numbers t elem v)]" by simp
  qed
qed

lemma length_upd_numbers:
  "length (upd_numbers t elem (versField (update_plan d t elem) \<noteq> [])) = length (argFields (update_plan d t elem))"
  unfolding update_plan_parts(2) upd_numbers_def Let_def
  using length_filter_enumerate [of "\<lambda>c. \<not> update_now c" 0 "upd_columns t elem"] by simp

section \<open>Binding the version\<close>

lemma update_step_versField:
  "versField (u_plan (update_step d t elem col a))
    = (if upd_set elem col \<and> \<not> update_now col \<and> is_version t col then fieldName col else versField (u_plan a))"
  by (simp add: update_step_def upd_set_def bind_column_def Let_def)

lemma update_loop_versField:
  "\<forall>c \<in> set cols. \<not> is_version t c \<Longrightarrow>
    versField (u_plan (fold (update_step d t elem) cols a)) = versField (u_plan a)"
  by (induction cols arbitrary: a) (simp_all add: update_step_versField)

lemma update_plan_versField:
  assumes "Columns t = as @ col # bs" "distinct (map c_id (Columns t))" "version t = Some (c_id col)"
    and "upd_set elem col" "\<not> update_now col"
  shows "versField (update_plan d t elem) = fieldName col"
proof -
  have n: "\<forall>c \<in> set as. \<not> is_version t c" "\<forall>c \<in> set bs. \<not> is_version t c" "is_version t col"
    using assms(1-3) by (auto simp: is_version_def)
  let ?e = "\<lparr>u_sets = [], u_x = 0, u_plan = empty_plan\<rparr>"
  have "versField (u_plan (fold (update_step d t elem) (Columns t) ?e)) = fieldName col"
    using n assms(4,5) by (simp add: assms(1) update_loop_versField update_step_versField)
  then show ?thesis by (simp add: update_plan_def Let_def)
qed

text \<open>The fields that exist and that the converter accepts, and what it makes of them.\<close>

definition bindable :: "(fvalue \<Rightarrow> string + fvalue) option \<Rightarrow> struct_value \<Rightarrow> string \<Rightarrow> bool" where
  "bindable conv elem k \<longleftrightarrow> (\<exists>x w. elem k = Some x \<and> convert conv x = Inr w)"

definition converted :: "(fvalue \<Rightarrow> string + fvalue) option \<Rightarrow> fvalue \<Rightarrow> fvalue" where
  "converted conv x = (case convert conv x of Inr w \<Rightarrow> w | Inl e \<Rightarrow> x)"

definition bound_value :: "(fvalue \<Rightarrow> string + fvalue) option \<Rightarrow> struct_value \<Rightarrow> string \<Rightarrow> fvalue" where
  "bound_value conv elem k = converted conv (the (elem k))"

lemma bind_args_plain:
  "\<forall>k \<in> set ks. k \<noteq> versFieldConst \<and> bindable conv elem k \<Longrightarrow>
    bind_args conv vf ver ks elem = (Ret (Inr (map (bound_value conv elem) ks)), elem)"
  by (induction ks) (auto simp: field_interface_def bindable_def bound_value_def converted_def)

lemma bind_args_prefix:
  "\<forall>k \<in> set pre. k \<noteq> versFieldConst \<and> bindable conv elem k \<Longrightarrow>
   bind_args conv vf ver ks elem = (Ret (Inr vs), elem') \<Longrightarrow>
   bind_args conv vf ver (pre @ ks) elem = (Ret (Inr (map (bound_value conv elem) pre @ vs)), elem')"
  by (induction pre) (auto simp: field_interface_def bindable_def bound_value_def converted_def)

lemma bind_keys_plain:
  "\<forall>k \<in> set ks. bindable conv elem k \<Longrightarrow> bind_keys conv ks elem = Ret (Inr (map (bound_value conv elem) ks))"
  by (induction ks) (auto simp: field_interface_def bindable_def bound_value_def converted_def)

definition bumped :: "string \<Rightarrow> int \<Rightarrow> struct_value \<Rightarrow> struct_value" where
  "bumped vf ver elem = (if ver = 0 then elem(vf \<mapsto> FInt 1) else elem)"

lemma next_version_0: "next_version 0 = 1"
  by (simp add: next_version_def)

lemma key_columns_in: "set (key_columns t) \<subseteq> set (Columns t)"
proof -
  have "c \<in> set (Columns t)" if "column t i = Some c" for i c
    using that by (auto simp: column_def find_Some_iff)
  then show ?thesis by (auto simp: key_columns_def List.map_filter_def)
qed

lemma createBindInstance_versioned:
  assumes "argFields plan = pre @ versFieldConst # post" "versField plan = vf" "vf \<noteq> []"
    and "elem vf = Some (FInt v)"
    and "\<forall>k \<in> set (pre @ post @ keyFields plan). elem k \<noteq> None"
    and "\<forall>k \<in> set (pre @ post). k \<noteq> versFieldConst"
    and "\<forall>x \<in> insert (FInt 1) (ran elem). \<exists>w. convert conv x = Inr w"
  shows "createBindInstance plan conv elem = (Ret (Inr \<lparr>b_query = p_query plan,
      b_args = map (bound_value conv elem) pre @ FInt (next_version v) # map (bound_value conv (bumped vf v elem)) post,
      b_keys = map (bound_value conv (bumped vf v elem)) (keyFields plan), existingVersion = v, b_versField = vf,
      b_autoIncrIdx = autoIncrIdx plan, b_autoIncrFieldName = autoIncrFieldName plan\<rparr>), bumped vf v elem)"
proof -
  have e: "bindable conv elem k" "bindable conv (bumped vf v elem) k" if "elem k \<noteq> None" for k
    using that assms(7) by (auto simp: bindable_def bumped_def ran_def)
  have "bind_args conv vf v post (bumped vf v elem) = (Ret (Inr (map (bound_value conv (bumped vf v elem)) post)), bumped vf v elem)"
    using assms(5,6) e by (intro bind_args_plain) auto
  then have "bind_args conv vf v (versFieldConst # post) elem
      = (Ret (Inr (FInt (next_version v) # map (bound_value conv (bumped vf v elem)) post)), bumped vf v elem)"
    by (cases "v = 0") (simp_all add: bumped_def next_version_0)
  then have "bind_args conv vf v (argFields plan) elem
      = (Ret (Inr (map (bound_value conv elem) pre @ FInt (next_version v) # map (bound_value conv (bumped vf v elem)) post)), bumped vf v elem)"
    unfolding assms(1) using assms(5,6) e by (intro bind_args_prefix) auto
  moreover have "bind_keys conv (keyFields plan) (bumped vf v elem)
      = Ret (Inr (map (bound_value conv (bumped vf v elem)) (keyFields plan)))"
    using assms(5) e by (intro bind_keys_plain) auto
  ultimately show ?thesis
    using assms(2-4) by (simp add: createBindInstance_def field_int_def)
qed

lemma version_name_column:
  assumes "Columns t = as @ col # bs" "distinct (map c_id (Columns t))" "version t = Some (c_id col)"
  shows "version_name t = ColumnName col"
proof -
  have "\<forall>c \<in> set as. c_id c \<noteq> c_id col" using assms(1,2) by (metis IntI append_eq_conv_conj distinct_append empty_iff imageI
      list.set_intros(1) list.set_map map_append)
  then have "find (\<lambda>c. c_id c = c_id col) (as @ col # bs) = Some col" by (induction as) auto
  then show ?thesis using assms(1,3) by (simp add: version_name_def column_def)
qed

section \<open>Properties\<close>

text \<open>Whatever a struct type nests, the columns read from it have distinct identities, and the columns that
  are not transient have distinct field names: the outermost field of a name wins.\<close>

lemma struct_columns_distinct:
  "distinct (map c_id (fst (readStructColumns holder fs)))
   \<and> distinct (map fieldName (filter (\<lambda>c. \<not> Transient c) (fst (readStructColumns holder fs))))"
  using readStructColumns_inv [of holder fs] by (simp add: mapped_names_def)

text \<open>C5: An insert names the columns that are present, generated or set to the current time, gives one value
  per name, and its place holders are the first ones, one per bound argument and in the order of the arguments.\<close>

theorem insert_statement:
  "(\<exists>ret. p_query (insert_plan d t elem) = ''INSERT INTO '' @ quoted_table d t @ '' (''
      @ join '','' (map (\<lambda>c. QuoteField d (ColumnName c)) (filter (ins_named d elem) (Columns t))) @ '') VALUES (''
      @ join '','' (ins_values d elem 0 (filter (ins_named d elem) (Columns t))) @ '')'' @ ret @ QuerySuffix d)
   \<and> length (ins_values d elem 0 (filter (ins_named d elem) (Columns t))) = length (filter (ins_named d elem) (Columns t))
   \<and> map snd (filter (\<lambda>(c, v). ins_bound d elem c)
        (zip (filter (ins_named d elem) (Columns t)) (ins_values d elem 0 (filter (ins_named d elem) (Columns t)))))
      = map (BindVar d) [0..<length (argFields (insert_plan d t elem))]
   \<and> argFields (insert_plan d t elem) = map (arg_field t) (filter (ins_bound d elem) (Columns t))"
proof -
  have "filter (ins_bound d elem) (filter (ins_named d elem) (Columns t)) = filter (ins_bound d elem) (Columns t)"
    by (auto simp: ins_bound_def intro!: filter_cong)
  with insert_plan_parts [of d t elem] ins_placeholders [of "filter (ins_named d elem) (Columns t)" d elem 0]
  show ?thesis by (simp add: length_ins_values)
qed

text \<open>An update has as many place holders as arguments, and they are numbered one after the other exactly
  when no assigned column is set to the current time; such a column takes a number without an argument, so in
  PostgreSQL and Oracle the later place holders then name the wrong arguments.\<close>

lemma update_numbering:
  assumes "key_columns t \<noteq> []"
  shows "length (upd_numbers t elem (versField (update_plan d t elem) \<noteq> [])) = length (argFields (update_plan d t elem))
    \<and> (upd_numbers t elem (versField (update_plan d t elem) \<noteq> []) = [0..<length (argFields (update_plan d t elem))]
        \<longleftrightarrow> (\<forall>c \<in> set (upd_columns t elem). \<not> update_now c))
    \<and> p_query (update_plan d t elem) = update_text d t elem (versField (update_plan d t elem) \<noteq> [])"
  using upd_numbers_consecutive [OF assms, of elem "versField (update_plan d t elem) \<noteq> []"]
  unfolding length_upd_numbers update_plan_parts(1) by simp

text \<open>C32: The version of an update. Take a mapped struct with an integer version field that holds v and is among the assigned columns, whose
  columns have distinct identities and no reserved name, whose key fields exist, and a converter, if there is one, that accepts
  the values of the struct. Then the arguments are bound, and the update assigns v + 1 (wrapping at 64 bits) to the version column, at its place among
  the bound arguments. The last condition of the statement is on the version column, and the last argument, for the last place holder, is v as the
  converter makes it; but when v is 0 the field is set to 1 while the arguments are gathered, so the comparison is with
  1, and a row still at version 0 is never found.\<close>

theorem update_version_args:
  assumes "Columns t = as @ col # bs" "distinct (map c_id (Columns t))" "version t = Some (c_id col)"
    and "upd_set elem col" "\<not> update_now col" "elem (fieldName col) = Some (FInt v)" "fieldName col \<noteq> []"
    and "\<forall>c \<in> set (Columns t). fieldName c \<noteq> versFieldConst" "\<forall>c \<in> set (key_columns t). elem (fieldName c) \<noteq> None"
    and "\<forall>x \<in> insert (FInt 1) (ran elem). \<exists>w. convert conv x = Inr w"
  shows "\<exists>bi pre post w s. createBindInstance (update_plan d t elem) conv elem
      = (Ret (Inr bi), if v = 0 then elem(fieldName col \<mapsto> FInt 1) else elem)
    \<and> b_args bi = pre @ FInt (next_version v) # post @ [w]
    \<and> length pre = length (filter (\<lambda>c. upd_set elem c \<and> \<not> update_now c) as)
    \<and> convert conv (FInt (if v = 0 then 1 else v)) = Inr w \<and> existingVersion bi = v
    \<and> b_query bi = update_text d t elem True
    \<and> b_query bi = s @ '' AND '' @ QuoteField d (ColumnName col) @ ''=''
        @ BindVar d (length (upd_columns t elem) + length (key_columns t)) @ QuerySuffix d"
proof -
  let ?vf = "fieldName col"
  let ?bound = "\<lambda>cs. map (arg_field t) (filter (\<lambda>c. upd_set elem c \<and> \<not> update_now c) cs)"
  let ?ks = "map fieldName (key_columns t)"
  have vf: "versField (update_plan d t elem) = ?vf" by (rule update_plan_versField [OF assms(1-5)])
  have v: "arg_field t col = versFieldConst" using assms(3) by (simp add: arg_field_def is_version_def)
  have other: "arg_field t c = fieldName c" if "c \<in> set as \<union> set bs" for c
    using that assms(1-3) by (auto simp: arg_field_def is_version_def)
  have args: "argFields (update_plan d t elem) = ?bound as @ versFieldConst # (?bound bs @ ?ks @ [?vf])"
    unfolding update_plan_parts(2) vf upd_columns_def assms(1)
    using assms(4,5,7) v by (simp add: conj_commute)
  have bound: "elem k \<noteq> None \<and> k \<noteq> versFieldConst" if "k \<in> set (?bound as @ ?bound bs)" for k
    using that other assms(1,8) by (auto simp: upd_set_def absent_def split: option.splits)
  have keys: "\<forall>c \<in> set (key_columns t). fieldName c \<noteq> versFieldConst"
    using assms(8) key_columns_in [of t] by auto
  have ok: "\<forall>k \<in> set (?bound as @ (?bound bs @ ?ks @ [?vf]) @ keyFields (update_plan d t elem)). elem k \<noteq> None"
    "\<forall>k \<in> set (?bound as @ (?bound bs @ ?ks @ [?vf])). k \<noteq> versFieldConst"
    using bound keys assms(1,6,8,9) update_plan_parts(3) [of d t elem] by auto
  let ?e = "bumped ?vf v elem"
  obtain bi where bi: "createBindInstance (update_plan d t elem) conv elem = (Ret (Inr bi), ?e)"
    "b_args bi = map (bound_value conv elem) (?bound as) @ FInt (next_version v) # map (bound_value conv ?e) (?bound bs @ ?ks @ [?vf])"
    "b_query bi = p_query (update_plan d t elem)" "existingVersion bi = v"
    using createBindInstance_versioned [OF args vf assms(7) assms(6) ok assms(10)] by fastforce
  have last: "the (?e ?vf) = FInt (if v = 0 then 1 else v)" using assms(6) by (simp add: bumped_def)
  have "convert conv (FInt (if v = 0 then 1 else v)) = Inr (bound_value conv ?e ?vf)"
    using assms(6,10) unfolding bound_value_def last converted_def by (auto simp: ran_def split: sum.splits)
  moreover have "b_args bi = map (bound_value conv elem) (?bound as) @ FInt (next_version v) # map (bound_value conv ?e) (?bound bs @ ?ks)
      @ [bound_value conv ?e ?vf]"
    unfolding bi(2) by simp
  moreover have "createBindInstance (update_plan d t elem) conv elem
      = (Ret (Inr bi), if v = 0 then elem(?vf \<mapsto> FInt 1) else elem)"
    using bi(1) by (simp add: bumped_def)
  moreover have "length (map (bound_value conv elem) (?bound as)) = length (filter (\<lambda>c. upd_set elem c \<and> \<not> update_now c) as)"
    by simp
  moreover have q: "b_query bi = update_text d t elem True" using bi(3) assms(7) by (simp add: update_plan_parts(1) vf)
  moreover obtain s where "b_query bi = s @ '' AND '' @ QuoteField d (ColumnName col) @ ''=''
        @ BindVar d (length (upd_columns t elem) + length (key_columns t)) @ QuerySuffix d"
    unfolding q update_text_def Let_def version_name_column [OF assms(1-3)] by auto
  ultimately show ?thesis using bi(4) by blast
qed

section \<open>The properties at concrete inputs\<close>

definition sample_fields :: "sfield list" where
  "sample_fields = [Field ''Id'' [] (Basic KInt64 ''int64''), Field ''Updated'' ''update_now'' (Basic KString ''string''),
     Embedded [Field ''Name'' ''column:name'' (Basic KString ''string''), Field ''Version'' [] (Basic KInt64 ''int64'')]]"

definition sample_table :: TableMap where
  "sample_table = \<lparr>t_name = ''user'', SchemaName = [], t_gotype = ''User'',
     Columns = fst (readStructColumns (\<lambda>_. None) sample_fields), t_keys = [0], uniqueTogether = [],
     version = snd (readStructColumns (\<lambda>_. None) sample_fields)\<rparr>"

definition sample_row :: struct_value where
  "sample_row = [''Id'' \<mapsto> FInt 7, ''Updated'' \<mapsto> FString ''x'', ''Name'' \<mapsto> FString ''ann'', ''Version'' \<mapsto> FInt 0]"

lemma update_numbering_witness:
  "p_query (update_plan (PostgresDialect []) sample_table sample_row)
     = ''UPDATE '' @ [dquote] @ ''user'' @ [dquote] @ '' SET '' @ [dquote] @ ''id'' @ [dquote] @ ''=$1, '' @ [dquote]
       @ ''updated'' @ [dquote] @ ''=now(), '' @ [dquote] @ ''name'' @ [dquote] @ ''=$3, '' @ [dquote] @ ''version''
       @ [dquote] @ ''=$4 WHERE '' @ [dquote] @ ''id'' @ [dquote] @ ''=$5 AND '' @ [dquote] @ ''version'' @ [dquote] @ ''=$6;''
   \<and> length (argFields (update_plan (PostgresDialect []) sample_table sample_row)) = 5
   \<and> upd_numbers sample_table sample_row True \<noteq> [0..<5]"
proof -
  have k: "key_columns sample_table \<noteq> []" by code_simp
  have u: "\<not> (\<forall>c \<in> set (upd_columns sample_table sample_row). \<not> update_now c)" by code_simp
  have v: "(versField (update_plan (PostgresDialect []) sample_table sample_row) \<noteq> []) = True" by code_simp
  have l: "length (argFields (update_plan (PostgresDialect []) sample_table sample_row)) = 5" by code_simp
  have t: "update_text (PostgresDialect []) sample_table sample_row True
     = ''UPDATE '' @ [dquote] @ ''user'' @ [dquote] @ '' SET '' @ [dquote] @ ''id'' @ [dquote] @ ''=$1, '' @ [dquote]
       @ ''updated'' @ [dquote] @ ''=now(), '' @ [dquote] @ ''name'' @ [dquote] @ ''=$3, '' @ [dquote] @ ''version''
       @ [dquote] @ ''=$4 WHERE '' @ [dquote] @ ''id'' @ [dquote] @ ''=$5 AND '' @ [dquote] @ ''version'' @ [dquote] @ ''=$6;''"
    by code_simp
  show ?thesis
    using update_numbering [OF k, of sample_row "PostgresDialect []"] u l t unfolding v by simp
qed

text \<open>With a converter, and a row at version 0.\<close>

lemma update_version_args_witness:
  "\<exists>bi pre post s. createBindInstance (update_plan (MySQLDialect ''InnoDB'' ''UTF8'') sample_table sample_row) (Some Inr) sample_row
      = (Ret (Inr bi), sample_row(''Version'' \<mapsto> FInt 1))
    \<and> b_args bi = pre @ FInt 1 # post @ [FInt 1] \<and> b_query bi = s @ ''`version`=?;''"
proof -
  let ?cols = "Columns sample_table" and ?d = "MySQLDialect ''InnoDB'' ''UTF8''"
  let ?col = "?cols ! 3"
  have c: "?cols = take 3 ?cols @ ?col # []" "distinct (map c_id ?cols)" "version sample_table = Some (c_id ?col)"
    "upd_set sample_row ?col" "\<not> update_now ?col" "fieldName ?col = ''Version''"
    "\<forall>c \<in> set ?cols. fieldName c \<noteq> versFieldConst" "\<forall>c \<in> set (key_columns sample_table). sample_row (fieldName c) \<noteq> None"
    by code_simp+
  have e: "sample_row (fieldName ?col) = Some (FInt 0)" "fieldName ?col \<noteq> []"
    unfolding c(6) by (simp_all add: sample_row_def)
  have s: "\<forall>x \<in> insert (FInt 1) (ran sample_row). \<exists>w. convert (Some Inr) x = Inr w" by (simp add: convert_def)
  have q: "QuoteField ?d (ColumnName ?col) @ ''='' @ BindVar ?d n @ QuerySuffix ?d = ''`version`=?;''" for n by code_simp
  let ?ok = "\<lambda>bi pre post w s. createBindInstance (update_plan ?d sample_table sample_row) (Some Inr) sample_row
      = (Ret (Inr bi), sample_row(''Version'' \<mapsto> FInt 1)) \<and> b_args bi = pre @ FInt 1 # post @ [w] \<and> w = FInt 1
    \<and> b_query bi = s @ '' AND '' @ ''`version`=?;''"
  have "\<exists>bi pre post w s. ?ok bi pre post w s"
    using update_version_args [OF c(1-5) e c(7,8) s, of ?d] unfolding c(6) q next_version_0
    by (elim exE conjE, intro exI conjI) (assumption | simp add: convert_def)+
  then obtain bi pre post w s' where b: "?ok bi pre post w s'" by (elim exE)
  then have "b_query bi = (s' @ '' AND '') @ ''`version`=?;''" by simp
  with b show ?thesis by blast
qed

end
