(* ===== verification/GorpExec.thy ===== *)
theory GorpExec
  imports GorpTable
begin

text \<open>
  Running statements: \<open>insert\<close>, \<open>update\<close>, \<open>delete\<close>, \<open>get\<close> and named queries of
  \<open>gorp/gorp.go\<close>.

  The \<open>SqlExecutor\<close> (the package \<open>database/sql\<close>, a connection or a transaction), the
  hooks of the struct types and the type converter are code of others: they are the fields of the
  record \<open>env\<close>, functions on the state \<open>'db\<close> of the world outside. An element of the argument
  list is a pointer to a struct: its type, the types of its fields and its value, which the operations
  update. An action works on the element and the world and returns, fails with an error or panics.
\<close>

section \<open>Actions\<close>

datatype gorp_failure =
    NotPointer
  | TableError table_error
  | HookError string
  | ConvertError string
  | DbError string
  | NoSerial string
  | CannotSetKey string
  | OptimisticLock string "fvalue list" bool int

datatype 'a res = Ok 'a | Fail gorp_failure | Crash panic

type_synonym ('s, 'a) act = "'s \<Rightarrow> 'a res \<times> 's"

definition act_return :: "'a \<Rightarrow> ('s, 'a) act" where
  "act_return x s = (Ok x, s)"

definition act_fail :: "gorp_failure \<Rightarrow> ('s, 'a) act" where
  "act_fail e s = (Fail e, s)"

definition act_bind :: "('s, 'a) act \<Rightarrow> ('a \<Rightarrow> ('s, 'b) act) \<Rightarrow> ('s, 'b) act" where
  "act_bind m f s = (case m s of (Ok x, s') \<Rightarrow> f x s' | (Fail e, s') \<Rightarrow> (Fail e, s') | (Crash p, s') \<Rightarrow> (Crash p, s'))"

section \<open>The world outside\<close>

text \<open>\<open>ex_exec\<close> gives the result's \<open>RowsAffected\<close> and \<open>LastInsertId\<close>; \<open>ex_query\<close>
  the first row (the scan of its only column) if there is one, and the error of the rows;
  \<open>ex_row\<close> the scanned columns of a single row.\<close>

type_synonym 'db hook = "struct_value \<Rightarrow> 'db \<Rightarrow> string option \<times> struct_value \<times> 'db"

record 'db env =
  ex_exec :: "string \<Rightarrow> fvalue list \<Rightarrow> 'db \<Rightarrow> (string + (string + int) \<times> (string + int)) \<times> 'db"
  ex_query :: "string \<Rightarrow> fvalue list \<Rightarrow> 'db \<Rightarrow> (string + (string + fvalue) option \<times> string option) \<times> 'db"
  ex_row :: "string \<Rightarrow> fvalue list \<Rightarrow> 'db \<Rightarrow> (string + fvalue list) \<times> 'db"
  to_db :: "(fvalue \<Rightarrow> string + fvalue) option"
  from_db :: "(fvalue \<Rightarrow> string + fvalue) option"
  pre_insert :: "string \<Rightarrow> 'db hook option"
  post_insert :: "string \<Rightarrow> 'db hook option"
  pre_update :: "string \<Rightarrow> 'db hook option"
  post_update :: "string \<Rightarrow> 'db hook option"
  pre_delete :: "string \<Rightarrow> 'db hook option"
  post_delete :: "string \<Rightarrow> 'db hook option"
  post_get :: "string \<Rightarrow> 'db hook option"

record item =
  it_pointer :: bool
  it_type :: string
  it_types :: "string \<Rightarrow> go_type"
  it_elem :: struct_value

type_synonym ('db, 'a) op = "(struct_value \<times> 'db, 'a) act"

definition run_hook :: "'db hook option \<Rightarrow> ('db, unit) op" where
  "run_hook h s =
     (case h of
        None \<Rightarrow> (Ok (), s)
      | Some f \<Rightarrow> (case f (fst s) (snd s) of
          (None, elem, db) \<Rightarrow> (Ok (), (elem, db))
        | (Some e, elem, db) \<Rightarrow> (Fail (HookError e), (elem, db))))"

definition run_bind :: "'db env \<Rightarrow> bindPlan \<Rightarrow> ('db, bindInstance) op" where
  "run_bind ev plan s =
     (case createBindInstance plan (to_db ev) (fst s) of
        (Panic p, elem) \<Rightarrow> (Crash p, (elem, snd s))
      | (Ret (Inl e), elem) \<Rightarrow> (Fail (ConvertError e), (elem, snd s))
      | (Ret (Inr bi), elem) \<Rightarrow> (Ok bi, (elem, snd s)))"

definition run_exec :: "'db env \<Rightarrow> string \<Rightarrow> fvalue list \<Rightarrow> ('db, (string + int) \<times> (string + int)) op" where
  "run_exec ev query args s =
     (case ex_exec ev query args (snd s) of
        (Inl e, db) \<Rightarrow> (Fail (DbError e), (fst s, db))
      | (Inr r, db) \<Rightarrow> (Ok r, (fst s, db)))"

definition lift_db :: "string + 'a \<Rightarrow> ('s, 'a) act" where
  "lift_db r = (case r of Inl e \<Rightarrow> act_fail (DbError e) | Inr x \<Rightarrow> act_return x)"

definition set_field :: "string \<Rightarrow> fvalue \<Rightarrow> ('db, unit) op" where
  "set_field f v s = (Ok (), ((fst s)(f \<mapsto> v), snd s))"

definition tableForPointer :: "DbMap \<Rightarrow> item \<Rightarrow> bool \<Rightarrow> ('s, TableMap) act" where
  "tableForPointer m i checkPK =
     (if \<not> it_pointer i then act_fail NotPointer
      else case TableFor m (it_type i) checkPK of
        Inl e \<Rightarrow> act_fail (TableError e)
      | Inr t \<Rightarrow> act_return t)"

section \<open>Get\<close>

text \<open>The scanned columns, converted, become the fields of a new struct.\<close>

fun scan_fields :: "(fvalue \<Rightarrow> string + fvalue) option \<Rightarrow> string list \<Rightarrow> fvalue list \<Rightarrow> struct_value \<Rightarrow> string + struct_value" where
  "scan_fields conv (f # fs) (v # vs) elem =
     (case convert conv v of Inl e \<Rightarrow> Inl e | Inr v' \<Rightarrow> scan_fields conv fs vs (elem(f \<mapsto> v')))"
| "scan_fields conv fs vs elem = Inr elem"

text \<open>\<open>get\<close> returns \<open>nil\<close> (\<open>None\<close>) beside an error only: when there is none, the struct that it has made.\<close>

definition run_get :: "DbMap \<Rightarrow> 'db env \<Rightarrow> string \<Rightarrow> fvalue list \<Rightarrow> 'db \<Rightarrow> struct_value option res \<times> 'db" where
  "run_get m ev gotype ks db =
     (case TableFor m gotype True of
        Inl e \<Rightarrow> (Fail (TableError e), db)
      | Inr t \<Rightarrow>
          let plan = get_plan (m_dialect m) t
          in case ex_row ev (p_query plan) ks db of
               (Inl e, db') \<Rightarrow> (Fail (DbError e), db')
             | (Inr row, db') \<Rightarrow>
                 (case scan_fields (from_db ev) (argFields plan) row Map.empty of
                    Inl e \<Rightarrow> (Fail (ConvertError e), db')
                  | Inr v \<Rightarrow>
                      (case run_hook (post_get ev gotype) (v, db') of
                         (Ok _, (v', db'')) \<Rightarrow> (Ok (Some v'), db'')
                       | (Fail e, (v', db'')) \<Rightarrow> (Fail e, db'')
                       | (Crash p, (v', db'')) \<Rightarrow> (Crash p, db''))))"

text \<open>\<open>lockError\<close>: the row is read again, and the error says whether \<open>get\<close> returned something.\<close>

definition lockError :: "DbMap \<Rightarrow> 'db env \<Rightarrow> string \<Rightarrow> string \<Rightarrow> int \<Rightarrow> fvalue list \<Rightarrow> ('db, 'a) op" where
  "lockError m ev tableName gotype existingVer ks s =
     (case run_get m ev gotype ks (snd s) of
        (Ok existing, db) \<Rightarrow> (Fail (OptimisticLock tableName ks (existing \<noteq> None) existingVer), (fst s, db))
      | (Fail e, db) \<Rightarrow> (Fail e, (fst s, db))
      | (Crash p, db) \<Rightarrow> (Crash p, (fst s, db)))"

section \<open>One element\<close>

definition delete_one :: "DbMap \<Rightarrow> 'db env \<Rightarrow> item \<Rightarrow> ('db, int) op" where
  "delete_one m ev i =
     act_bind (tableForPointer m i True) (\<lambda>t.
     act_bind (run_hook (pre_delete ev (it_type i))) (\<lambda>_.
     act_bind (run_bind ev (delete_plan (m_dialect m) t)) (\<lambda>bi.
     act_bind (run_exec ev (b_query bi) (b_args bi)) (\<lambda>result.
     act_bind (lift_db (fst result)) (\<lambda>rows.
       if rows = 0 \<and> existingVersion bi > 0
       then lockError m ev (t_name t) (it_type i) (existingVersion bi) (b_keys bi)
       else act_bind (run_hook (post_delete ev (it_type i))) (\<lambda>_. act_return rows))))))"

definition update_one :: "DbMap \<Rightarrow> 'db env \<Rightarrow> item \<Rightarrow> ('db, int) op" where
  "update_one m ev i =
     act_bind (tableForPointer m i True) (\<lambda>t.
     act_bind (run_hook (pre_update ev (it_type i))) (\<lambda>_.
     act_bind (\<lambda>s. run_bind ev (update_plan (m_dialect m) t (fst s)) s) (\<lambda>bi.
     act_bind (run_exec ev (b_query bi) (b_args bi)) (\<lambda>result.
     act_bind (lift_db (fst result)) (\<lambda>rows.
       if rows = 0 \<and> existingVersion bi > 0
       then lockError m ev (t_name t) (it_type i) (existingVersion bi) (b_keys bi)
       else act_bind (if b_versField bi \<noteq> [] then set_field (b_versField bi) (FInt (next_version (existingVersion bi)))
                      else act_return ()) (\<lambda>_.
            act_bind (run_hook (post_update ev (it_type i))) (\<lambda>_. act_return rows)))))))"

text \<open>Setting the key from an \<open>int64\<close>: through the pointer types \<open>*string\<close>, \<open>*int64\<close> and
  \<open>*int\<close>, or into an integer field, cut to its width. An \<open>int8\<close> is not accepted.\<close>

definition signed_id :: "reflect_kind \<Rightarrow> int \<Rightarrow> int" where
  "signed_id k i = (case k of KInt16 \<Rightarrow> sint (word_of_int i :: 16 word) | KInt32 \<Rightarrow> sint (word_of_int i :: 32 word) | _ \<Rightarrow> i)"

definition unsigned_id :: "reflect_kind \<Rightarrow> int \<Rightarrow> int" where
  "unsigned_id k i = (case k of KUint16 \<Rightarrow> uint (word_of_int i :: 16 word) | KUint32 \<Rightarrow> uint (word_of_int i :: 32 word)
     | _ \<Rightarrow> uint (word_of_int i :: 64 word))"

definition key_value :: "go_type \<Rightarrow> int \<Rightarrow> fvalue option" where
  "key_value ty i =
     (case ty of
        PtrTo u \<Rightarrow>
          if u = Basic KString ''string'' then Some (FPtr (Some (FString (itoa i))))
          else if u = Basic KInt64 ''int64'' then Some (FPtr (Some (FInt i)))
          else if u = Basic KInt ''int'' then Some (FPtr (Some (FInt i)))
          else None
      | Basic k n \<Rightarrow>
          if k \<in> {KInt, KInt16, KInt32, KInt64} then Some (FInt (signed_id k i))
          else if k \<in> {KUint, KUint16, KUint32, KUint64} then Some (FUint (unsigned_id k i))
          else None
      | _ \<Rightarrow> None)"

definition set_key :: "item \<Rightarrow> string \<Rightarrow> int \<Rightarrow> ('db, unit) op" where
  "set_key i f v =
     (case key_value (it_types i f) v of
        Some fv \<Rightarrow> set_field f fv
      | None \<Rightarrow> act_fail (CannotSetKey f))"

text \<open>The inserts of the dialects. Without a row the message asks a nil error for its text.\<close>

definition standardInsertAutoIncr :: "'db env \<Rightarrow> bindInstance \<Rightarrow> ('db, int) op" where
  "standardInsertAutoIncr ev bi =
     act_bind (run_exec ev (b_query bi) (b_args bi)) (\<lambda>result. lift_db (snd result))"

definition query_key :: "'db env \<Rightarrow> bindInstance \<Rightarrow> ('db, fvalue) op" where
  "query_key ev bi s =
     (case ex_query ev (b_query bi) (b_args bi) (snd s) of
        (Inl e, db) \<Rightarrow> (Fail (DbError e), (fst s, db))
      | (Inr (Some (Inl e), _), db) \<Rightarrow> (Fail (DbError e), (fst s, db))
      | (Inr (Some (Inr v), _), db) \<Rightarrow> (Ok v, (fst s, db))
      | (Inr (None, Some e), db) \<Rightarrow> (Fail (NoSerial e), (fst s, db))
      | (Inr (None, None), db) \<Rightarrow> (Crash NilDereference, (fst s, db)))"

definition id_of :: "fvalue \<Rightarrow> int" where
  "id_of v = (case v of FInt i \<Rightarrow> i | _ \<Rightarrow> 0)"

definition insert_auto :: "DbMap \<Rightarrow> 'db env \<Rightarrow> item \<Rightarrow> bindInstance \<Rightarrow> ('db, unit) op" where
  "insert_auto m ev i bi =
     (case InsertAutoIncr (m_dialect m) of
        Standard \<Rightarrow> act_bind (standardInsertAutoIncr ev bi) (\<lambda>v. set_key i (b_autoIncrFieldName bi) v)
      | Id_query \<Rightarrow> act_bind (query_key ev bi) (\<lambda>v. set_key i (b_autoIncrFieldName bi) (id_of v))
      | Target_query \<Rightarrow> act_bind (query_key ev bi) (\<lambda>v. set_field (b_autoIncrFieldName bi) v))"

definition insert_one :: "DbMap \<Rightarrow> 'db env \<Rightarrow> item \<Rightarrow> ('db, unit) op" where
  "insert_one m ev i =
     act_bind (tableForPointer m i False) (\<lambda>t.
     act_bind (run_hook (pre_insert ev (it_type i))) (\<lambda>_.
     act_bind (\<lambda>s. run_bind ev (insert_plan (m_dialect m) t (fst s)) s) (\<lambda>bi.
     act_bind (if b_autoIncrIdx bi > -1 then insert_auto m ev i bi
               else act_bind (run_exec ev (b_query bi) (b_args bi)) (\<lambda>_. act_return ())) (\<lambda>_.
       run_hook (post_insert ev (it_type i))))))"

section \<open>Lists of elements\<close>

text \<open>Each element is worked on with the world its predecessors left; the first error ends the list.\<close>

fun on_list :: "(item \<Rightarrow> ('db, int) op) \<Rightarrow> item list \<Rightarrow> int \<Rightarrow> 'db \<Rightarrow> int res \<times> item list \<times> 'db" where
  "on_list one [] count db = (Ok count, [], db)"
| "on_list one (i # is) count db =
     (case one i (it_elem i, db) of
        (Ok rows, (elem, db')) \<Rightarrow>
          (case on_list one is (count + rows) db' of (r, is', db'') \<Rightarrow> (r, i\<lparr>it_elem := elem\<rparr> # is', db''))
      | (Fail e, (elem, db')) \<Rightarrow> (Fail e, i\<lparr>it_elem := elem\<rparr> # is, db')
      | (Crash p, (elem, db')) \<Rightarrow> (Crash p, i\<lparr>it_elem := elem\<rparr> # is, db'))"

definition gorp_delete :: "DbMap \<Rightarrow> 'db env \<Rightarrow> item list \<Rightarrow> 'db \<Rightarrow> int res \<times> item list \<times> 'db" where
  "gorp_delete m ev is db = on_list (delete_one m ev) is 0 db"

definition gorp_update :: "DbMap \<Rightarrow> 'db env \<Rightarrow> item list \<Rightarrow> 'db \<Rightarrow> int res \<times> item list \<times> 'db" where
  "gorp_update m ev is db = on_list (update_one m ev) is 0 db"

definition gorp_insert :: "DbMap \<Rightarrow> 'db env \<Rightarrow> item list \<Rightarrow> 'db \<Rightarrow> int res \<times> item list \<times> 'db" where
  "gorp_insert m ev is db = on_list (\<lambda>i. act_bind (insert_one m ev i) (\<lambda>_. act_return 0)) is 0 db"

section \<open>Transactions\<close>

text \<open>The driver's transaction is committed or rolled back by the first call only; the others answer
  \<open>ErrTxDone\<close>. The second component is the call passed to the driver.\<close>

datatype tx_end = TxCommit | TxRollback

record Transaction =
  tx_closed :: bool

definition Commit :: "Transaction \<Rightarrow> Transaction \<times> tx_end option" where
  "Commit t = (if \<not> tx_closed t then (t\<lparr>tx_closed := True\<rparr>, Some TxCommit) else (t, None))"

definition Rollback :: "Transaction \<Rightarrow> Transaction \<times> tx_end option" where
  "Rollback t = (if \<not> tx_closed t then (t\<lparr>tx_closed := True\<rparr>, Some TxRollback) else (t, None))"

definition Savepoint_sql :: "Dialect \<Rightarrow> string \<Rightarrow> string" where
  "Savepoint_sql d name = ''savepoint '' @ QuoteField d name"

definition RollbackToSavepoint_sql :: "Dialect \<Rightarrow> string \<Rightarrow> string" where
  "RollbackToSavepoint_sql d name = ''rollback to savepoint '' @ QuoteField d name"

definition ReleaseSavepoint_sql :: "Dialect \<Rightarrow> string \<Rightarrow> string" where
  "ReleaseSavepoint_sql d name = ''release savepoint '' @ QuoteField d name"

section \<open>Named queries\<close>

text \<open>The regular expression \<open>:[[:word:]]+\<close>, longest match from the left.\<close>

definition is_word :: "char \<Rightarrow> bool" where
  "is_word c = (is_digit c \<or> 65 \<le> (of_char c :: nat) \<and> (of_char c :: nat) \<le> 90
     \<or> 97 \<le> (of_char c :: nat) \<and> (of_char c :: nat) \<le> 122 \<or> c = CHR ''_'')"

function expand_named :: "Dialect \<Rightarrow> (string \<rightharpoonup> fvalue) \<Rightarrow> nat \<Rightarrow> string \<Rightarrow> string \<times> fvalue list" where
  "expand_named d getter n [] = ([], [])"
| "expand_named d getter n (c # s) =
     (if c = CHR '':'' \<and> s \<noteq> [] \<and> is_word (hd s)
      then let key = takeWhile is_word s; rest = dropWhile is_word s
           in case getter key of
                None \<Rightarrow> (case expand_named d getter n rest of (q, args) \<Rightarrow> (c # key @ q, args))
              | Some v \<Rightarrow> (case expand_named d getter (n + 1) rest of (q, args) \<Rightarrow> (BindVar d n @ q, v # args))
      else case expand_named d getter n s of (q, args) \<Rightarrow> (c # q, args))"
  by pat_completeness auto
termination
  by (relation "measure (\<lambda>(d, getter, n, s). length s)")
    (auto simp: less_Suc_eq_le intro: length_dropWhile_le)

declare expand_named.simps [simp del]

definition expandNamedQuery :: "Dialect \<Rightarrow> string \<Rightarrow> (string \<rightharpoonup> fvalue) \<Rightarrow> string \<times> fvalue list" where
  "expandNamedQuery d query keyGetter = expand_named d keyGetter 0 query"

text \<open>\<open>maybeExpandNamedQuery\<close>: pointers are followed; a map with string keys or a struct, other than a
  \<open>time.Time\<close>, names the values.\<close>

datatype query_arg =
    ArgMap "(string \<times> fvalue) list"
  | ArgStruct bool "(string \<times> fvalue) list"
  | ArgPtr query_arg
  | ArgOther fvalue

fun maybeExpandNamedQuery :: "Dialect \<Rightarrow> string \<Rightarrow> query_arg \<Rightarrow> string \<times> (fvalue list + query_arg)" where
  "maybeExpandNamedQuery d query (ArgPtr a) =
     (case maybeExpandNamedQuery d query a of
        (q, Inl vs) \<Rightarrow> (q, Inl vs) | (q, Inr a') \<Rightarrow> (q, Inr (ArgPtr a)))"
| "maybeExpandNamedQuery d query (ArgMap kvs) =
     (case expandNamedQuery d query (map_of kvs) of (q, vs) \<Rightarrow> (q, Inl vs))"
| "maybeExpandNamedQuery d query (ArgStruct is_time kvs) =
     (if is_time then (query, Inr (ArgStruct is_time kvs))
      else case expandNamedQuery d query (map_of kvs) of (q, vs) \<Rightarrow> (q, Inl vs))"
| "maybeExpandNamedQuery d query (ArgOther v) = (query, Inr (ArgOther v))"

section \<open>Columns of a result\<close>

text \<open>A column of a result goes to the field whose column name, without regard to case, is its own; fields
  with the tag \<open>-\<close> are skipped. As \<open>FieldByNameFunc\<close>, the search finds nothing when several
  fields match; the fields are those of one depth.\<close>

definition result_name :: "TableMap option \<Rightarrow> string \<times> string \<Rightarrow> string" where
  "result_name t p = (case p of (name, tag) \<Rightarrow>
     let fieldName = getFieldName name tag
     in case t of None \<Rightarrow> fieldName
        | Some table \<Rightarrow> (case colMapOrNil table fieldName of Some c \<Rightarrow> ColumnName c | None \<Rightarrow> fieldName))"

definition field_for_column :: "TableMap option \<Rightarrow> (string \<times> string) list \<Rightarrow> string \<Rightarrow> nat option" where
  "field_for_column t flds col =
     (case filter (\<lambda>i. snd (flds ! i) \<noteq> ''-'' \<and> to_lower col = to_lower (result_name t (flds ! i))) [0..<length flds] of
        [i] \<Rightarrow> Some i | _ \<Rightarrow> None)"

definition columnToFieldIndex ::
  "TableMap option \<Rightarrow> (string \<times> string) list \<Rightarrow> string list \<Rightarrow> nat option list \<times> string list" where
  "columnToFieldIndex t flds cols =
     (let idx = map (field_for_column t flds) cols
      in (idx, map to_lower (map fst (filter (\<lambda>(c, i). i = None) (zip cols idx)))))"

section \<open>What a list of elements does\<close>

text \<open>The elements that were worked on, one after the other, each successfully.\<close>

inductive succeeds ::
  "(item \<Rightarrow> ('db, int) op) \<Rightarrow> item list \<Rightarrow> 'db \<Rightarrow> item list \<Rightarrow> int \<Rightarrow> 'db \<Rightarrow> bool"
  for one :: "item \<Rightarrow> ('db, int) op" where
  Done: "succeeds one [] db [] 0 db"
| Step: "one i (it_elem i, db) = (Ok rows, (elem, db1)) \<Longrightarrow> succeeds one is db1 is' cnt db2 \<Longrightarrow>
    succeeds one (i # is) db (i\<lparr>it_elem := elem\<rparr> # is') (rows + cnt) db2"

text \<open>The first element that fails, after its predecessors succeeded; the later ones are untouched.\<close>

definition stops_at ::
  "(item \<Rightarrow> ('db, int) op) \<Rightarrow> item list \<Rightarrow> 'db \<Rightarrow> int res \<Rightarrow> item list \<Rightarrow> 'db \<Rightarrow> bool" where
  "stops_at one is db r is' db' \<longleftrightarrow>
     (\<exists>done i rest done' cnt db1 elem. is = done @ i # rest \<and> succeeds one done db done' cnt db1
        \<and> one i (it_elem i, db1) = (r, (elem, db')) \<and> is' = done' @ i\<lparr>it_elem := elem\<rparr> # rest)"

lemma stops_at_Step:
  assumes "one i (it_elem i, db) = (Ok rows, (elem, db1))" "stops_at one is db1 r is' db2"
  shows "stops_at one (i # is) db r (i\<lparr>it_elem := elem\<rparr> # is') db2"
proof -
  from assms(2) obtain before k rest before' cnt db3 elem' where s: "is = before @ k # rest"
    "succeeds one before db1 before' cnt db3" "one k (it_elem k, db3) = (r, (elem', db2))"
    "is' = before' @ k\<lparr>it_elem := elem'\<rparr> # rest"
    unfolding stops_at_def by blast
  have "succeeds one (i # before) db (i\<lparr>it_elem := elem\<rparr> # before') (rows + cnt) db3"
    by (rule succeeds.Step [OF assms(1) s(2)])
  then show ?thesis
    unfolding stops_at_def using s
    by (intro exI [of _ "i # before"] exI [of _ k] exI [of _ rest] exI [of _ "i\<lparr>it_elem := elem\<rparr> # before'"]
        exI [of _ "rows + cnt"] exI [of _ db3] exI [of _ elem']) simp
qed

lemma stops_at_here:
  assumes "one i (it_elem i, db) = (r, (elem, db1))"
  shows "stops_at one (i # is) db r (i\<lparr>it_elem := elem\<rparr> # is) db1"
  unfolding stops_at_def using assms succeeds.Done [of one db]
  by (intro exI [of _ "[]"] exI [of _ i] exI [of _ "is"] exI [of _ "[]"] exI [of _ 0] exI [of _ db] exI [of _ elem]) simp

lemma on_list_cases:
  "case on_list one is count db of
     (Ok n, is', db') \<Rightarrow> succeeds one is db is' (n - count) db'
   | (Fail e, is', db') \<Rightarrow> stops_at one is db (Fail e) is' db'
   | (Crash p, is', db') \<Rightarrow> stops_at one is db (Crash p) is' db'"
proof (induction one "is" count db rule: on_list.induct)
  case (1 one count db)
  show ?case by (simp add: succeeds.Done)
next
  case (2 one i "is" count db)
  obtain r elem db1 where one: "one i (it_elem i, db) = (r, (elem, db1))" by (metis prod_cases3)
  show ?case
  proof (cases r)
    case (Ok rows)
    note one = one [unfolded Ok]
    obtain r2 is2 db2 where tail: "on_list one is (count + rows) db1 = (r2, is2, db2)" by (metis prod_cases3)
    have IH: "case on_list one is (count + rows) db1 of
       (Ok n, is', db') \<Rightarrow> succeeds one is db1 is' (n - (count + rows)) db'
     | (Fail e, is', db') \<Rightarrow> stops_at one is db1 (Fail e) is' db'
     | (Crash p, is', db') \<Rightarrow> stops_at one is db1 (Crash p) is' db'"
      by (rule "2.IH" [OF one [symmetric] refl refl])
    show ?thesis
    proof (cases r2)
      case (Ok n)
      then have "succeeds one is db1 is2 (n - (count + rows)) db2" using IH tail by simp
      from succeeds.Step [of one i db rows elem db1, OF one this]
      have "succeeds one (i # is) db (i\<lparr>it_elem := elem\<rparr> # is2) (n - count) db2" by simp
      then show ?thesis using one tail Ok by simp
    next
      case (Fail e)
      then have "stops_at one is db1 (Fail e) is2 db2" using IH tail by simp
      from stops_at_Step [of one i db, OF one this] show ?thesis using one tail Fail by simp
    next
      case (Crash p)
      then have "stops_at one is db1 (Crash p) is2 db2" using IH tail by simp
      from stops_at_Step [of one i db, OF one this] show ?thesis using one tail Crash by simp
    qed
  next
    case (Fail e)
    from stops_at_here [of one i db "Fail e", OF one [unfolded Fail]] show ?thesis using one Fail by simp
  next
    case (Crash p)
    from stops_at_here [of one i db "Crash p", OF one [unfolded Crash]] show ?thesis using one Crash by simp
  qed
qed

section \<open>Lock errors\<close>

text \<open>An action that never reports a lock error for a row that does not exist.\<close>

definition row_exists :: "('s, 'a) act \<Rightarrow> bool" where
  "row_exists a \<longleftrightarrow> (\<forall>s name ks ver. fst (a s) \<noteq> Fail (OptimisticLock name ks False ver))"

lemma row_exists_bind:
  assumes "row_exists m" "\<And>x. row_exists (f x)"
  shows "row_exists (act_bind m f)"
  unfolding row_exists_def
proof (intro allI)
  fix s name ks ver
  obtain r s' where m: "m s = (r, s')" by (cases "m s")
  show "fst (act_bind m f s) \<noteq> Fail (OptimisticLock name ks False ver)"
    using assms(1) [unfolded row_exists_def, rule_format, of s name ks ver]
      assms(2) [unfolded row_exists_def, rule_format, of _ s' name ks ver]
    by (cases r) (simp_all add: act_bind_def m)
qed

lemma row_exists_simple:
  "row_exists (act_return x)"
  "\<lbrakk>\<And>n ks v. e \<noteq> OptimisticLock n ks False v\<rbrakk> \<Longrightarrow> row_exists (act_fail e)"
  "row_exists (run_hook h)" "row_exists (run_bind ev plan)" "row_exists (run_exec ev q args)"
  "row_exists (lift_db r)" "row_exists (set_field f v)" "row_exists (tableForPointer m i pk)"
  "row_exists (\<lambda>s. run_bind ev (plan' s) s)"
  by (auto simp: row_exists_def act_return_def act_fail_def run_hook_def run_bind_def run_exec_def lift_db_def
      set_field_def tableForPointer_def split: option.splits prod.splits sum.splits outcome.splits)

lemma run_hook_not_lock: "fst (run_hook h s) \<noteq> Fail (OptimisticLock n k b v)"
  by (auto simp: run_hook_def split: option.splits prod.splits)

lemma run_get_not_lock: "fst (run_get m ev g ks db) \<noteq> Fail (OptimisticLock n k b v)"
proof (cases "TableFor m g True")
  case (Inr t)
  obtain r db1 where row: "ex_row ev (p_query (get_plan (m_dialect m) t)) ks db = (r, db1)" by fastforce
  show ?thesis
  proof (cases r)
    case (Inr vs)
    show ?thesis
    proof (cases "scan_fields (from_db ev) (argFields (get_plan (m_dialect m) t)) vs Map.empty")
      case sc: (Inr w)
      obtain q e db2 where hk: "run_hook (post_get ev g) (w, db1) = (q, (e, db2))" by (metis prod_cases3)
      then have "q \<noteq> Fail (OptimisticLock n k b v)" using run_hook_not_lock [of "post_get ev g" "(w, db1)" n k b v] by simp
      with \<open>TableFor m g True = Inr t\<close> row Inr sc hk show ?thesis by (cases q) (simp_all add: run_get_def Let_def)
    qed (use \<open>TableFor m g True = Inr t\<close> row Inr in \<open>simp add: run_get_def Let_def\<close>)
  qed (use \<open>TableFor m g True = Inr t\<close> row in \<open>simp add: run_get_def Let_def\<close>)
qed (simp add: run_get_def)

text \<open>So the branch of \<open>lockError\<close> for \<open>nil\<close> is never taken.\<close>

lemma run_get_some: "fst (run_get m ev g ks db) \<noteq> Ok None"
  by (auto simp: run_get_def Let_def split: sum.splits prod.splits res.splits)

lemma row_exists_lockError: "row_exists (lockError m ev name g ver ks)"
  unfolding row_exists_def
proof (intro allI)
  fix s :: "struct_value \<times> 'a" and n k v
  obtain r db where r: "run_get m ev g ks (snd s) = (r, db)" by (cases "run_get m ev g ks (snd s)")
  then have "r \<noteq> Fail (OptimisticLock n k False v)" using run_get_not_lock [of m ev g ks "snd s" n k False v] by simp
  with r run_get_some [of m ev g ks "snd s"] show "fst (lockError m ev name g ver ks s) \<noteq> Fail (OptimisticLock n k False v)"
    by (cases r) (simp_all add: lockError_def)
qed

lemma update_one_row_exists: "row_exists (update_one m ev i)"
  unfolding update_one_def
  by (auto intro!: row_exists_bind row_exists_simple row_exists_lockError)

lemma delete_one_row_exists: "row_exists (delete_one m ev i)"
  unfolding delete_one_def
  by (auto intro!: row_exists_bind row_exists_simple row_exists_lockError)

text \<open>An update that changes no row, of a struct with a positive version after its hook.\<close>

lemma update_one_stale:
  assumes "it_pointer i" "TableFor m (it_type i) True = Inr t" "run_hook (pre_update ev (it_type i)) s = (Ok (), elem, db)"
    and "createBindInstance (update_plan (m_dialect m) t elem) (to_db ev) elem = (Ret (Inr bi), elem')"
    and "existingVersion bi > 0" "ex_exec ev (b_query bi) (b_args bi) db = (Inr (Inr 0, lid), db')"
  shows "update_one m ev i s
    = lockError m ev (t_name t) (it_type i) (existingVersion bi) (b_keys bi) (elem', db')"
  using assms
  by (simp add: update_one_def act_bind_def tableForPointer_def act_return_def run_bind_def run_exec_def lift_db_def)

section \<open>Properties\<close>

text \<open>Updating (and deleting) a list works on the elements in order, each in the world its predecessors left:
  on success every element succeeded and the result is the sum of the affected rows; an error is that of the first
  element that fails, whose predecessors have been carried out and stay so, and whose successors are untouched.\<close>

lemma update_list_in_order:
  "(\<forall>n is' db'. gorp_update m ev is db = (Ok n, is', db') \<longrightarrow> succeeds (update_one m ev) is db is' n db')
   \<and> (\<forall>e is' db'. gorp_update m ev is db = (Fail e, is', db') \<longrightarrow> stops_at (update_one m ev) is db (Fail e) is' db')
   \<and> (\<forall>n is' db'. gorp_delete m ev is db = (Ok n, is', db') \<longrightarrow> succeeds (delete_one m ev) is db is' n db')
   \<and> (\<forall>e is' db'. gorp_delete m ev is db = (Fail e, is', db') \<longrightarrow> stops_at (delete_one m ev) is db (Fail e) is' db')"
  using on_list_cases [where one = "update_one m ev" and ?is = "is" and count = 0 and db = db]
    on_list_cases [where one = "delete_one m ev" and ?is = "is" and count = 0 and db = db]
  by (auto simp: gorp_update_def gorp_delete_def)

text \<open>C14: A lost update is reported. Update a pointer to a struct of a mapped table with a primary key. When its \<open>PreUpdate\<close> hook, if any,
  succeeds, its columns can be bound, the version it then has is positive and the statement changes no row, then the update fails: it reads the row
  again, and the result is a lock error with the key, that version and the mark that the row exists, when the row is read, and the
  error of the read otherwise. And no update or delete of one struct ever ends in the lock error for a row that is gone, which the code documents:
  the read of such a row is an error of its own.\<close>

theorem stale_update_fails:
  assumes "it_pointer i" "TableFor m (it_type i) True = Inr t" "run_hook (pre_update ev (it_type i)) s = (Ok (), elem, db)"
    and "createBindInstance (update_plan (m_dialect m) t elem) (to_db ev) elem = (Ret (Inr bi), elem')"
    and "existingVersion bi > 0" "ex_exec ev (b_query bi) (b_args bi) db = (Inr (Inr 0, lid), db')"
  shows "fst (update_one m ev i s)
      = (case fst (run_get m ev (it_type i) (b_keys bi) db') of
           Ok _ \<Rightarrow> Fail (OptimisticLock (t_name t) (b_keys bi) True (existingVersion bi))
         | Fail e \<Rightarrow> Fail e | Crash p \<Rightarrow> Crash p)
    \<and> fst (update_one m ev j s') \<noteq> Fail (OptimisticLock name ks False ver)
    \<and> fst (delete_one m ev j s') \<noteq> Fail (OptimisticLock name ks False ver)"
proof (intro conjI)
  show "fst (update_one m ev j s') \<noteq> Fail (OptimisticLock name ks False ver)"
    "fst (delete_one m ev j s') \<noteq> Fail (OptimisticLock name ks False ver)"
    using update_one_row_exists [of m ev j] delete_one_row_exists [of m ev j] unfolding row_exists_def by blast+
  obtain r db2 where r: "run_get m ev (it_type i) (b_keys bi) db' = (r, db2)" by fastforce
  with run_get_some [of m ev "it_type i" "b_keys bi" db'] have "r \<noteq> Ok None" by simp
  then show "fst (update_one m ev i s)
      = (case fst (run_get m ev (it_type i) (b_keys bi) db') of
           Ok _ \<Rightarrow> Fail (OptimisticLock (t_name t) (b_keys bi) True (existingVersion bi))
         | Fail e \<Rightarrow> Fail e | Crash p \<Rightarrow> Crash p)"
    unfolding update_one_stale [OF assms] using r by (cases r) (simp_all add: lockError_def)
qed

section \<open>The properties at concrete inputs\<close>

text \<open>A database in which every statement changes \<open>n\<close> rows and every read finds the row.\<close>

definition sample_env :: "int \<Rightarrow> unit env" where
  "sample_env n = \<lparr>ex_exec = (\<lambda>q args db. (Inr (Inr n, Inr 0), db)),
     ex_query = (\<lambda>q args db. (Inr (None, None), db)),
     ex_row = (\<lambda>q args db. (Inr [FInt 7], db)), to_db = None, from_db = None,
     pre_insert = (\<lambda>_. None), post_insert = (\<lambda>_. None), pre_update = (\<lambda>_. None), post_update = (\<lambda>_. None),
     pre_delete = (\<lambda>_. None), post_delete = (\<lambda>_. None), post_get = (\<lambda>_. None)\<rparr>"

definition sample_map :: DbMap where
  "sample_map = \<lparr>m_dialect = MySQLDialect ''InnoDB'' ''UTF8'', m_holder = (\<lambda>_. None),
     m_tables = [(''user'', sample_table)]\<rparr>"

definition sample_item :: item where
  "sample_item = \<lparr>it_pointer = True, it_type = ''User'', it_types = (\<lambda>_. Basic KInt64 ''int64''),
     it_elem = sample_row(''Version'' \<mapsto> FInt 3)\<rparr>"

lemma sample_TableFor: "TableFor sample_map ''User'' True = Inr sample_table"
  by (simp add: TableFor_def tableOrNil_def sample_map_def sample_table_def)

lemma update_list_in_order_witness:
  "\<exists>is'. succeeds (update_one sample_map (sample_env 1)) [sample_item] () is' 1 ()"
proof -
  have "fst (gorp_update sample_map (sample_env 1) [sample_item] ()) = Ok 1" by code_simp
  then obtain is' where "gorp_update sample_map (sample_env 1) [sample_item] () = (Ok 1, is', ())"
    by (metis fst_conv old.unit.exhaust prod_cases3)
  then show ?thesis
    using update_list_in_order [of sample_map "sample_env 1" "[sample_item]" "()"] by blast
qed

lemma stale_update_fails_witness:
  "fst (update_one sample_map (sample_env 0) sample_item (sample_row(''Version'' \<mapsto> FInt 3), ()))
    = Fail (OptimisticLock ''user'' [FInt 7] True 3)"
proof -
  let ?elem = "sample_row(''Version'' \<mapsto> FInt 3)"
  let ?plan = "update_plan (m_dialect sample_map) sample_table ?elem"
  have "case fst (createBindInstance ?plan (to_db (sample_env 0)) ?elem) of
      Ret (Inr bi) \<Rightarrow> existingVersion bi = 3 \<and> b_keys bi = [FInt 7] | _ \<Rightarrow> False"
    by code_simp
  then obtain bi elem' where bi: "createBindInstance ?plan (to_db (sample_env 0)) ?elem = (Ret (Inr bi), elem')"
    "existingVersion bi = 3" "b_keys bi = [FInt 7]"
    by (cases "createBindInstance ?plan (to_db (sample_env 0)) ?elem") (auto split: outcome.splits sum.splits)
  have i: "it_pointer sample_item" "TableFor sample_map (it_type sample_item) True = Inr sample_table"
    "run_hook (pre_update (sample_env 0) (it_type sample_item)) (?elem, ()) = (Ok (), ?elem, ())" "t_name sample_table = ''user''"
    using sample_TableFor by (simp_all add: sample_item_def sample_env_def sample_table_def run_hook_def)
  have x: "ex_exec (sample_env 0) (b_query bi) (b_args bi) () = (Inr (Inr 0, Inr 0), ())" "existingVersion bi > 0"
    using bi(2) by (simp_all add: sample_env_def)
  have "case fst (run_get sample_map (sample_env 0) (it_type sample_item) [FInt 7] ()) of Ok _ \<Rightarrow> True | _ \<Rightarrow> False"
    by code_simp
  then show ?thesis
    using stale_update_fails [OF i(1-3) bi(1) x(2,1)] bi(2,3) i(4)
    by (auto split: res.splits)
qed

end
