(* ===== verification/GorpBuilder.thy ===== *)
theory GorpBuilder
  imports Prelude
begin

text \<open>
  The query builder of \<open>gorp/builder.go\<close>, \<open>gorp/builder_private.go\<close> and
  \<open>gorp/search.go\<close>: it collects conditions in a \<open>search\<close> and prints one statement
  with its variables.

  A Go \<open>interface{}\<close> argument is a \<open>gvalue\<close>. A query given as a map lists its pairs in
  the order the iteration happens to take. The registered tables are the argument \<open>tables\<close>:
  from a name to the column names of its keys. A clone shares nothing the later steps write to, so
  it is a copy. The statement goes to the database as the pair \<open>(Sql, SqlVars)\<close>.
\<close>

section \<open>Data\<close>

datatype elem_type = EInt | EInt32 | EInt64 | EString | EOther

datatype gvalue =
    VNil
  | VString string
  | VInt int
  | VInt32 int
  | VInt64 int
  | VNullInt64 int bool
  | VSlice elem_type "gvalue list"
  | VMap "(string \<times> gvalue) list"
  | VOther string

record clause =
  c_query :: gvalue
  c_args :: "gvalue list"

record search =
  WhereConditions :: "clause list"
  OrConditions :: "clause list"
  NotConditions :: "clause list"
  HavingCondition :: "clause option"
  Orders :: "string list"
  Joins :: string
  SelectCols :: string
  OffsetBy :: string
  LimitTo :: string
  GroupBy :: string
  TableName :: string
  Unscope :: bool
  RawQuery :: bool

datatype gorp_error = InvalidSql

record Builder =
  bsearch :: search
  PrimaryKey :: string
  Sql :: string
  SqlVars :: "gvalue list"
  berr :: "gorp_error option"

definition empty_search :: search where
  "empty_search = \<lparr>WhereConditions = [], OrConditions = [], NotConditions = [], HavingCondition = None,
     Orders = [], Joins = [], SelectCols = [], OffsetBy = [], LimitTo = [], GroupBy = [], TableName = [],
     Unscope = False, RawQuery = False\<rparr>"

definition NewBuilder :: Builder where
  "NewBuilder = \<lparr>bsearch = empty_search, PrimaryKey = [], Sql = [], SqlVars = [], berr = None\<rparr>"

definition Builder_clone :: "Builder \<Rightarrow> Builder" where
  "Builder_clone b = \<lparr>bsearch = bsearch b, PrimaryKey = PrimaryKey b, Sql = [], SqlVars = [], berr = None\<rparr>"

definition Builder_Err :: "gorp_error \<Rightarrow> Builder \<Rightarrow> Builder" where
  "Builder_Err e b = b\<lparr>berr := Some e\<rparr>"

abbreviation on_search :: "(search \<Rightarrow> search) \<Rightarrow> Builder \<Rightarrow> Builder" where
  "on_search f b \<equiv> b\<lparr>bsearch := f (bsearch b)\<rparr>"

section \<open>Collecting\<close>

definition search_where :: "gvalue \<Rightarrow> gvalue list \<Rightarrow> search \<Rightarrow> search" where
  "search_where query values s =
     s\<lparr>WhereConditions := WhereConditions s @ [\<lparr>c_query = query, c_args = values\<rparr>]\<rparr>"

definition search_not :: "gvalue \<Rightarrow> gvalue list \<Rightarrow> search \<Rightarrow> search" where
  "search_not query values s =
     s\<lparr>NotConditions := NotConditions s @ [\<lparr>c_query = query, c_args = values\<rparr>]\<rparr>"

definition search_or :: "gvalue \<Rightarrow> gvalue list \<Rightarrow> search \<Rightarrow> search" where
  "search_or query values s =
     s\<lparr>OrConditions := OrConditions s @ [\<lparr>c_query = query, c_args = values\<rparr>]\<rparr>"

definition search_order :: "string \<Rightarrow> bool list \<Rightarrow> search \<Rightarrow> search" where
  "search_order v reorder s =
     (if reorder \<noteq> [] \<and> hd reorder then s\<lparr>Orders := [v]\<rparr> else s\<lparr>Orders := Orders s @ [v]\<rparr>)"

text \<open>\<open>getInterfaceAsSql\<close>; \<open>None\<close> is the default case, which records \<open>InvalidSql\<close>.\<close>

fun column_list :: "string \<Rightarrow> gvalue list \<Rightarrow> string" where
  "column_list str [] = str"
| "column_list str (VString v # vs) =
     column_list (if str = [] then ''T.`'' @ v @ ''`'' else str @ '', T.`'' @ v @ ''`'') vs"
| "column_list str (v # vs) = column_list str vs"

fun getInterfaceAsSql :: "gvalue \<Rightarrow> string option" where
  "getInterfaceAsSql (VString s) = Some s"
| "getInterfaceAsSql (VInt v) = Some (if v < 0 then [] else itoa v)"
| "getInterfaceAsSql (VSlice EString vs) = Some (column_list [] vs)"
| "getInterfaceAsSql v = None"

definition with_sql :: "gvalue \<Rightarrow> (string \<Rightarrow> search \<Rightarrow> search) \<Rightarrow> Builder \<Rightarrow> Builder" where
  "with_sql v put b =
     (case getInterfaceAsSql v of
        Some str \<Rightarrow> on_search (put str) b
      | None \<Rightarrow> Builder_Err InvalidSql (on_search (put []) b))"

definition Builder_Where :: "gvalue \<Rightarrow> gvalue list \<Rightarrow> Builder \<Rightarrow> Builder" where
  "Builder_Where query args b = on_search (search_where query args) b"

definition Builder_Or :: "gvalue \<Rightarrow> gvalue list \<Rightarrow> Builder \<Rightarrow> Builder" where
  "Builder_Or query args b = on_search (search_or query args) b"

definition Builder_Not :: "gvalue \<Rightarrow> gvalue list \<Rightarrow> Builder \<Rightarrow> Builder" where
  "Builder_Not query args b = on_search (search_not query args) b"

definition Limit :: "gvalue \<Rightarrow> Builder \<Rightarrow> Builder" where
  "Limit v b = with_sql v (\<lambda>str s. s\<lparr>LimitTo := str\<rparr>) b"

definition Offset :: "gvalue \<Rightarrow> Builder \<Rightarrow> Builder" where
  "Offset v b = with_sql v (\<lambda>str s. s\<lparr>OffsetBy := str\<rparr>) b"

definition Order :: "string \<Rightarrow> bool list \<Rightarrow> Builder \<Rightarrow> Builder" where
  "Order v reorder b = on_search (search_order v reorder) b"

definition Select :: "gvalue \<Rightarrow> Builder \<Rightarrow> Builder" where
  "Select v b = with_sql v (\<lambda>str s. s\<lparr>SelectCols := str\<rparr>) b"

definition Group :: "gvalue \<Rightarrow> Builder \<Rightarrow> Builder" where
  "Group v b = with_sql v (\<lambda>str s. s\<lparr>GroupBy := str\<rparr>) b"

definition Having :: "string \<Rightarrow> gvalue list \<Rightarrow> Builder \<Rightarrow> Builder" where
  "Having query values b =
     on_search (\<lambda>s. s\<lparr>HavingCondition := Some \<lparr>c_query = VString query, c_args = values\<rparr>\<rparr>) b"

definition set_Joins :: "string \<Rightarrow> Builder \<Rightarrow> Builder" where
  "set_Joins query b = on_search (\<lambda>s. s\<lparr>Joins := query\<rparr>) b"

definition Unscoped :: "Builder \<Rightarrow> Builder" where
  "Unscoped b = on_search (\<lambda>s. s\<lparr>Unscope := True\<rparr>) b"

definition Raw :: "string \<Rightarrow> gvalue list \<Rightarrow> Builder \<Rightarrow> Builder" where
  "Raw sql values b = on_search (\<lambda>s. search_where (VString sql) values (s\<lparr>RawQuery := True\<rparr>)) b"

definition Table :: "(string \<rightharpoonup> string list) \<Rightarrow> string \<Rightarrow> Builder \<Rightarrow> Builder outcome" where
  "Table tables name b =
     (case tables name of
        None \<Rightarrow> Panic (PanicMsg (''unknow table `'' @ name @ ''`''))
      | Some keys \<Rightarrow>
          let b' = (if keys \<noteq> [] then b\<lparr>PrimaryKey := hd keys\<rparr> else b)
          in Ret (on_search (\<lambda>s. s\<lparr>TableName := name\<rparr>) b'))"

section \<open>Printing conditions\<close>

definition Quote :: "string \<Rightarrow> string" where
  "Quote str = ''`'' @ str @ ''` T''"

definition QuotedTableName :: "Builder \<Rightarrow> string" where
  "QuotedTableName b = Quote (TableName (bsearch b))"

text \<open>A mark stands for the variable until the statement is complete.\<close>

definition AddToVars :: "gvalue \<Rightarrow> Builder \<Rightarrow> string \<times> Builder" where
  "AddToVars v b = (''$$'', b\<lparr>SqlVars := SqlVars b @ [v]\<rparr>)"

definition primaryCondiation :: "Builder \<Rightarrow> string \<Rightarrow> string" where
  "primaryCondiation b v = ''('' @ Quote (PrimaryKey b) @ '' = '' @ v @ '')''"

text \<open>The regular expression \<open>^\s*\d+\s*$\<close>.\<close>

definition re_space :: "char \<Rightarrow> bool" where
  "re_space c = (of_char c \<in> {9, 10, 12, 13, 32 :: nat})"

definition is_number_text :: "string \<Rightarrow> bool" where
  "is_number_text s =
     (let rest = dropWhile re_space s; tail = dropWhile is_digit rest
      in rest \<noteq> [] \<and> is_digit (hd rest) \<and> list_all re_space tail)"

text \<open>The value of \<open>id, _ := strconv.Atoi(value)\<close>, with the error dropped: 0 for a syntax error,
  the largest integer for a number out of range.\<close>

definition atoi_dropped :: "string \<Rightarrow> int" where
  "atoi_dropped s =
     (case atoi s of Some v \<Rightarrow> v
      | None \<Rightarrow> if parse_dec s \<noteq> None then 2 ^ 63 - 1 else 0)"

definition driver_value :: "gvalue \<Rightarrow> gvalue" where
  "driver_value v = (case v of VNullInt64 i valid \<Rightarrow> if valid then VInt64 i else VNil | _ \<Rightarrow> v)"

fun add_all :: "gvalue list \<Rightarrow> Builder \<Rightarrow> string list \<times> Builder" where
  "add_all [] b = ([], b)"
| "add_all (v # vs) b =
     (let (mark, b1) = AddToVars v b; (marks, b2) = add_all vs b1 in (mark # marks, b2))"

text \<open>The loop over the arguments: a slice gives a list of marks. The type of a nil argument is nil,
  and asking it for its kind panics.\<close>

fun where_args :: "gvalue list \<Rightarrow> string \<Rightarrow> Builder \<Rightarrow> (string \<times> Builder) outcome" where
  "where_args [] str b = Ret (str, b)"
| "where_args (arg # args) str b =
     (case arg of
        VNil \<Rightarrow> Panic NilDereference
      | VSlice e vs \<Rightarrow>
          (let (marks, b') = add_all vs b
           in where_args args (replace_first str ''?'' (join '','' marks)) b')
      | _ \<Rightarrow> (let (mark, b') = AddToVars (driver_value arg) b
              in where_args args (replace_first str ''?'' mark) b'))"

fun map_conditions :: "string \<Rightarrow> (string \<times> gvalue) list \<Rightarrow> Builder \<Rightarrow> string list \<times> Builder" where
  "map_conditions op [] b = ([], b)"
| "map_conditions op ((key, v) # kvs) b =
     (let (mark, b1) = AddToVars v b; (sqls, b2) = map_conditions op kvs b1
      in ((''('' @ Quote key @ op @ mark @ '')'') # sqls, b2))"

definition listed_slice :: "elem_type \<Rightarrow> bool" where
  "listed_slice e = (e \<in> {EInt, EInt32, EInt64, EString})"

definition primary_with :: "gvalue \<Rightarrow> Builder \<Rightarrow> (string \<times> Builder) outcome" where
  "primary_with v b = (let (mark, b') = AddToVars v b in Ret (primaryCondiation b' mark, b'))"

definition buildWhereCondition :: "clause \<Rightarrow> Builder \<Rightarrow> (string \<times> Builder) outcome" where
  "buildWhereCondition clause b =
     (case c_query clause of
        VString s \<Rightarrow>
          if is_number_text s then primary_with (VInt (atoi_dropped s)) b
          else where_args (c_args clause) s b
      | VInt i \<Rightarrow> primary_with (VInt i) b
      | VInt64 i \<Rightarrow> primary_with (VInt64 i) b
      | VInt32 i \<Rightarrow> primary_with (VInt32 i) b
      | VNullInt64 i valid \<Rightarrow> primary_with (VInt64 i) b
      | VSlice e vs \<Rightarrow>
          if listed_slice e
          then where_args [VSlice e vs] (''('' @ Quote (PrimaryKey b) @ '' in (?))'') b
          else where_args (c_args clause) [] b
      | VMap kvs \<Rightarrow> (let (sqls, b') = map_conditions '' = '' kvs b in Ret (join '' AND '' sqls, b'))
      | _ \<Rightarrow> where_args (c_args clause) [] b)"

text \<open>The regular expression \<open>(?i) (=|<>|>|<|LIKE|IS) \<close>.\<close>

definition is_comparison :: "string \<Rightarrow> bool" where
  "is_comparison s =
     list_ex (contains_sub (to_lower s)) ['' = '', '' <> '', '' > '', '' < '', '' like '', '' is '']"

text \<open>Here a scalar argument starts again from \<open>notEqualSql\<close>.\<close>

fun not_args :: "string \<Rightarrow> gvalue list \<Rightarrow> string \<Rightarrow> Builder \<Rightarrow> (string \<times> Builder) outcome" where
  "not_args notEqualSql [] str b = Ret (str, b)"
| "not_args notEqualSql (arg # args) str b =
     (case arg of
        VNil \<Rightarrow> Panic NilDereference
      | VSlice e vs \<Rightarrow>
          (let (marks, b') = add_all vs b
           in not_args notEqualSql args (replace_first str ''?'' (join '','' marks)) b')
      | _ \<Rightarrow> (let (mark, b') = AddToVars (driver_value arg) b
              in not_args notEqualSql args (replace_first notEqualSql ''?'' mark) b'))"

definition not_primary :: "int \<Rightarrow> Builder \<Rightarrow> (string \<times> Builder) outcome" where
  "not_primary i b = Ret (''('' @ Quote (PrimaryKey b) @ '' <> '' @ itoa i @ '')'', b)"

definition buildNotCondition :: "clause \<Rightarrow> Builder \<Rightarrow> (string \<times> Builder) outcome" where
  "buildNotCondition clause b =
     (case c_query clause of
        VString s \<Rightarrow>
          if is_number_text s then not_primary (atoi_dropped s) b
          else if is_comparison s
          then not_args (''NOT ('' @ s @ '')'') (c_args clause) ('' NOT ('' @ s @ '') '') b
          else not_args (''('' @ Quote s @ '' <> ?)'') (c_args clause) (''('' @ Quote s @ '' NOT IN (?))'') b
      | VInt i \<Rightarrow> not_primary i b
      | VInt64 i \<Rightarrow> not_primary i b
      | VInt32 i \<Rightarrow> not_primary i b
      | VSlice e vs \<Rightarrow>
          if listed_slice e
          then if vs \<noteq> []
               then not_args [] [VSlice e vs] (''('' @ Quote (PrimaryKey b) @ '' not in (?))'') b
               else Ret ([], b)
          else not_args [] (c_args clause) [] b
      | VMap kvs \<Rightarrow> (let (sqls, b') = map_conditions '' <> '' kvs b in Ret (join '' AND '' sqls, b'))
      | _ \<Rightarrow> not_args [] (c_args clause) [] b)"

text \<open>The conditions of a list, in its order.\<close>

fun build_all ::
  "(clause \<Rightarrow> Builder \<Rightarrow> (string \<times> Builder) outcome) \<Rightarrow> clause list \<Rightarrow> Builder \<Rightarrow> (string list \<times> Builder) outcome" where
  "build_all build [] b = Ret ([], b)"
| "build_all build (c # cs) b =
     bind_outcome (build c b) (\<lambda>(str, b1).
       bind_outcome (build_all build cs b1) (\<lambda>(strs, b2). Ret (str # strs, b2)))"

definition whereSql :: "Builder \<Rightarrow> (string \<times> Builder) outcome" where
  "whereSql b =
     bind_outcome (build_all buildWhereCondition (WhereConditions (bsearch b)) b) (\<lambda>(ands, b1).
     bind_outcome (build_all buildWhereCondition (OrConditions (bsearch b)) b1) (\<lambda>(ors, b2).
     bind_outcome (build_all buildNotCondition (NotConditions (bsearch b)) b2) (\<lambda>(nots, b3).
       let orSql = join '' OR '' ors; combinedSql = join '' AND '' (ands @ nots)
       in Ret (if combinedSql \<noteq> []
               then ''WHERE '' @ (if orSql \<noteq> [] then combinedSql @ '' OR '' @ orSql else combinedSql)
               else if orSql \<noteq> [] then ''WHERE '' @ orSql else [], b3))))"

section \<open>Printing the statement\<close>

definition selectSql :: "Builder \<Rightarrow> string" where
  "selectSql b = (if SelectCols (bsearch b) = [] then ''*'' else SelectCols (bsearch b))"

definition orderSql :: "Builder \<Rightarrow> string" where
  "orderSql b = (if Orders (bsearch b) = [] then [] else '' ORDER BY '' @ join '','' (Orders (bsearch b)))"

definition limitSql :: "Builder \<Rightarrow> string" where
  "limitSql b = (if LimitTo (bsearch b) = [] then [] else '' LIMIT '' @ LimitTo (bsearch b))"

definition offsetSql :: "Builder \<Rightarrow> string" where
  "offsetSql b = (if OffsetBy (bsearch b) = [] then [] else '' OFFSET '' @ OffsetBy (bsearch b))"

definition groupSql :: "Builder \<Rightarrow> string" where
  "groupSql b = (if GroupBy (bsearch b) = [] then [] else '' GROUP BY '' @ GroupBy (bsearch b))"

definition havingSql :: "Builder \<Rightarrow> (string \<times> Builder) outcome" where
  "havingSql b =
     (case HavingCondition (bsearch b) of
        None \<Rightarrow> Ret ([], b)
      | Some c \<Rightarrow> bind_outcome (buildWhereCondition c b) (\<lambda>(str, b'). Ret ('' HAVING '' @ str, b')))"

definition joinsSql :: "Builder \<Rightarrow> string" where
  "joinsSql b = Joins (bsearch b) @ '' ''"

definition CombinedConditionSql :: "Builder \<Rightarrow> (string \<times> Builder) outcome" where
  "CombinedConditionSql b =
     bind_outcome (whereSql b) (\<lambda>(w, b1).
     bind_outcome (havingSql b1) (\<lambda>(h, b2).
       Ret (joinsSql b @ w @ groupSql b @ h @ orderSql b @ limitSql b @ offsetSql b, b2)))"

text \<open>Every mark becomes a place holder.\<close>

definition unmark :: "string \<Rightarrow> string" where
  "unmark s = replace_all s ''$$'' ''?''"

definition prepareQuerySql :: "Builder \<Rightarrow> Builder outcome" where
  "prepareQuerySql b =
     bind_outcome (CombinedConditionSql b) (\<lambda>(str, b').
       Ret (b'\<lparr>Sql := unmark
         (if RawQuery (bsearch b) then trim_left str ''WHERE ''
          else ''SELECT '' @ [] @ '' '' @ selectSql b @ '' FROM '' @ QuotedTableName b @ '' '' @ str)\<rparr>))"

definition builder_count :: "Builder \<Rightarrow> Builder outcome" where
  "builder_count b = prepareQuerySql (Select (VString ''count(*)'') b)"

text \<open>\<open>Count\<close> and \<open>Find\<close>, up to the statement they send to the database.\<close>

definition Count :: "Builder \<Rightarrow> (string \<times> gvalue list) outcome" where
  "Count b = bind_outcome (builder_count (Builder_clone b)) (\<lambda>x. Ret (Sql x, SqlVars x))"

definition Builder_Find :: "Builder \<Rightarrow> (string \<times> gvalue list) outcome" where
  "Builder_Find b = bind_outcome (prepareQuerySql (Builder_clone b)) (\<lambda>x. Ret (Sql x, SqlVars x))"

section \<open>Marks\<close>

abbreviation dollar :: char where "dollar \<equiv> CHR ''$''"
abbreviation qmark :: char where "qmark \<equiv> CHR ''?''"

text \<open>Texts in which dollars come in pairs.\<close>

inductive balanced :: "string \<Rightarrow> bool" where
  Nil: "balanced []"
| Plain: "c \<noteq> dollar \<Longrightarrow> balanced s \<Longrightarrow> balanced (c # s)"
| Mark: "balanced s \<Longrightarrow> balanced (dollar # dollar # s)"

declare balanced.intros [intro]

lemma unmark_Nil [simp]: "unmark [] = []"
  by (simp add: unmark_def)

lemma unmark_Plain [simp]: "c \<noteq> dollar \<Longrightarrow> unmark (c # s) = c # unmark s"
  by (simp add: unmark_def has_prefix_Cons)

lemma unmark_Mark [simp]: "unmark (dollar # dollar # s) = qmark # unmark s"
  by (simp add: unmark_def has_prefix_Cons)

lemma unmark_append: "balanced a \<Longrightarrow> unmark (a @ b) = unmark a @ unmark b"
  by (induction rule: balanced.induct) auto

lemma balanced_append: "balanced a \<Longrightarrow> balanced b \<Longrightarrow> balanced (a @ b)"
  by (induction rule: balanced.induct) auto

lemma plain_balanced: "dollar \<notin> set s \<Longrightarrow> balanced s"
  by (induction s) auto

lemma plain_unmark: "dollar \<notin> set s \<Longrightarrow> unmark s = s"
  by (induction s) auto

lemma unmark_Nil_iff: "balanced s \<Longrightarrow> unmark s = [] \<longleftrightarrow> s = []"
  by (induction rule: balanced.induct) auto

lemma balanced_join:
  "dollar \<notin> set sep \<Longrightarrow> \<forall>s \<in> set strs. balanced s \<Longrightarrow> balanced (join sep strs)"
  by (induction sep strs rule: join.induct) (auto simp: balanced_append plain_balanced)

lemma unmark_join:
  "dollar \<notin> set sep \<Longrightarrow> \<forall>s \<in> set strs. balanced s \<Longrightarrow> unmark (join sep strs) = join sep (map unmark strs)"
  by (induction sep strs rule: join.induct)
    (auto simp: unmark_append plain_unmark plain_balanced)

lemma replace_first_split:
  "qmark \<notin> set p \<Longrightarrow> replace_first (p @ qmark # v) ''?'' new = p @ new @ v"
  by (induction p) (auto simp: has_prefix_Cons)

lemma replace_first_none: "qmark \<notin> set s \<Longrightarrow> replace_first s ''?'' new = s"
  by (induction s) (auto simp: has_prefix_Cons)

lemma join_marks:
  "balanced (join '','' (replicate n ''$$''))" "qmark \<notin> set (join '','' (replicate n ''$$''))"
  "unmark (join '','' (replicate n ''$$'')) = join '','' (replicate n ''?'')"
proof -
  have b: "\<forall>s \<in> set (replicate n ''$$''). balanced s" by auto
  show "balanced (join '','' (replicate n ''$$''))" by (rule balanced_join [OF _ b]) simp
  show "unmark (join '','' (replicate n ''$$'')) = join '','' (replicate n ''?'')"
    using unmark_join [OF _ b, of "'',''"] by (simp add: map_replicate)
  have "qmark \<notin> set (join '','' xs)" if "\<forall>s \<in> set xs. qmark \<notin> set s" for xs :: "string list"
    using that by (induction "'',''" xs rule: join.induct) auto
  then show "qmark \<notin> set (join '','' (replicate n ''$$''))" by simp
qed

section \<open>What a condition means\<close>

text \<open>The place holders an argument stands for and the variables it binds.\<close>

definition arg_text :: "gvalue \<Rightarrow> string" where
  "arg_text arg = (case arg of VSlice e vs \<Rightarrow> join '','' (replicate (length vs) ''?'') | _ \<Rightarrow> ''?'')"

definition arg_vars :: "gvalue \<Rightarrow> gvalue list" where
  "arg_vars arg = (case arg of VSlice e vs \<Rightarrow> vs | _ \<Rightarrow> [driver_value arg])"

fun expand :: "string \<Rightarrow> gvalue list \<Rightarrow> string" where
  "expand s [] = s"
| "expand [] (arg # args) = []"
| "expand (c # s) (arg # args) =
     (if c = qmark then arg_text arg @ expand s args else c # expand s (arg # args))"

lemma expand_plain: "qmark \<notin> set u \<Longrightarrow> expand (u @ v) args = u @ expand v args"
  by (induction u; cases args) auto

abbreviation more_vars :: "gvalue list \<Rightarrow> Builder \<Rightarrow> Builder" where
  "more_vars vs b \<equiv> b\<lparr>SqlVars := SqlVars b @ vs\<rparr>"

lemma add_all_eq: "add_all vs b = (replicate (length vs) ''$$'', more_vars vs b)"
  by (induction vs arbitrary: b) (simp_all add: AddToVars_def)

definition mark_of :: "gvalue \<Rightarrow> string" where
  "mark_of arg = (case arg of VSlice e vs \<Rightarrow> join '','' (replicate (length vs) ''$$'') | _ \<Rightarrow> ''$$'')"

lemma where_args_step:
  "arg \<noteq> VNil \<Longrightarrow> where_args (arg # args) str b
    = where_args args (replace_first str ''?'' (mark_of arg)) (more_vars (arg_vars arg) b)"
  by (cases arg) (simp_all add: add_all_eq AddToVars_def arg_vars_def mark_of_def driver_value_def)

lemma mark_of: "balanced (mark_of arg)" "qmark \<notin> set (mark_of arg)" "unmark (mark_of arg) = arg_text arg"
proof -
  have "balanced ''$$''" by auto
  with join_marks show "balanced (mark_of arg)" "qmark \<notin> set (mark_of arg)" "unmark (mark_of arg) = arg_text arg"
    by (cases arg; simp add: mark_of_def arg_text_def)+
qed

lemma where_args_expand:
  assumes "dollar \<notin> set s" "balanced p" "qmark \<notin> set p" "VNil \<notin> set args"
  shows "\<exists>str. where_args args (p @ s) b = Ret (str, more_vars (concat (map arg_vars args)) b)
    \<and> balanced str \<and> unmark str = unmark p @ expand s args"
  using assms
proof (induction args arbitrary: p s b)
  case Nil
  then show ?case
    by (auto simp: unmark_append plain_unmark plain_balanced intro!: balanced_append)
next
  case (Cons arg args)
  let ?m = "mark_of arg"
  have m: "where_args (arg # args) (p @ s) b
      = where_args args (replace_first (p @ s) ''?'' ?m) (more_vars (arg_vars arg) b)"
    "balanced ?m" "qmark \<notin> set ?m" "unmark ?m = arg_text arg"
    using where_args_step [of arg args "p @ s" b] Cons.prems(4) mark_of by auto
  show ?case
  proof (cases "qmark \<in> set s")
    case False
    have e: "expand s (arg # args) = s" "expand s args = s"
      using expand_plain [OF False, of "[]" "arg # args"] expand_plain [OF False, of "[]" args]
      by (cases args; simp)+
    have "replace_first (p @ s) ''?'' ?m = p @ s"
      using Cons.prems(3) False by (intro replace_first_none) simp
    then show ?thesis
      using Cons.IH [of s p "more_vars (arg_vars arg) b"] Cons.prems m(1) e by simp
  next
    case True
    then obtain u v where s: "s = u @ qmark # v" "qmark \<notin> set u" by (meson split_list_first)
    have "replace_first (p @ s) ''?'' ?m = (p @ u @ ?m) @ v"
      using replace_first_split [of "p @ u" v ?m] Cons.prems(3) s by simp
    moreover have b: "balanced u" "unmark u = u"
      using Cons.prems(1) s(1) by (simp_all add: plain_balanced plain_unmark)
    then have "balanced (p @ u @ ?m)" using Cons.prems(2) m(2) by (intro balanced_append)
    moreover have "unmark (p @ u @ ?m) = unmark p @ u @ arg_text arg"
      using Cons.prems(2) b m(4) by (simp add: unmark_append)
    moreover have "expand s (arg # args) = u @ arg_text arg @ expand v args"
      using expand_plain [OF s(2), of "qmark # v" "arg # args"] s(1) by simp
    ultimately show ?thesis
      using Cons.IH [of v "p @ u @ ?m" "more_vars (arg_vars arg) b"] Cons.prems m s by simp
  qed
qed

section \<open>Lists of conditions\<close>

text \<open>The contract of a condition printer: it prints a balanced text that means the text of the
  condition, and binds the variables of the condition.\<close>

locale condition_printer =
  fixes build :: "clause \<Rightarrow> Builder \<Rightarrow> (string \<times> Builder) outcome"
    and meaning :: "clause \<Rightarrow> string"
    and binds :: "clause \<Rightarrow> gvalue list"
    and plain :: "clause \<Rightarrow> bool"
  assumes prints: "plain c \<Longrightarrow>
    \<exists>str. build c b = Ret (str, more_vars (binds c) b) \<and> balanced str \<and> unmark str = meaning c"
begin

lemma prints_all:
  assumes "\<forall>c \<in> set cs. plain c"
  shows "\<exists>strs. build_all build cs b = Ret (strs, more_vars (concat (map binds cs)) b)
    \<and> (\<forall>s \<in> set strs. balanced s) \<and> map unmark strs = map meaning cs"
  using assms
proof (induction cs arbitrary: b)
  case (Cons c cs)
  then obtain str where 1: "build c b = Ret (str, more_vars (binds c) b)" "balanced str" "unmark str = meaning c"
    using prints [of c b] by auto
  obtain strs where 2: "build_all build cs (more_vars (binds c) b)
      = Ret (strs, more_vars (concat (map binds cs)) (more_vars (binds c) b))"
    "\<forall>s \<in> set strs. balanced s" "map unmark strs = map meaning cs"
    using Cons.IH [of "more_vars (binds c) b"] Cons.prems by auto
  show ?case using 1 2 by (intro exI [of _ "str # strs"]) simp
qed simp

end

definition plain_where :: "clause \<Rightarrow> bool" where
  "plain_where c = (case c_query c of
     VString s \<Rightarrow> \<not> is_number_text s \<and> dollar \<notin> set s \<and> VNil \<notin> set (c_args c) | _ \<Rightarrow> False)"

definition clause_text :: "clause \<Rightarrow> string" where
  "clause_text c = (case c_query c of VString s \<Rightarrow> expand s (c_args c) | _ \<Rightarrow> [])"

definition clause_vars :: "clause \<Rightarrow> gvalue list" where
  "clause_vars c = concat (map arg_vars (c_args c))"

text \<open>A negated comparison with one or more scalar arguments.\<close>

definition scalar :: "gvalue \<Rightarrow> bool" where
  "scalar v = (case v of VNil \<Rightarrow> False | VSlice e vs \<Rightarrow> False | _ \<Rightarrow> True)"

definition plain_not :: "clause \<Rightarrow> bool" where
  "plain_not c = (case c_query c of
     VString s \<Rightarrow> \<not> is_number_text s \<and> is_comparison s \<and> dollar \<notin> set s \<and> c_args c \<noteq> [] \<and> list_all scalar (c_args c)
   | _ \<Rightarrow> False)"

definition not_text :: "clause \<Rightarrow> string" where
  "not_text c = (case c_query c of VString s \<Rightarrow> ''NOT ('' @ s @ '')'' | _ \<Rightarrow> [])"

interpretation wheres: condition_printer buildWhereCondition clause_text clause_vars plain_where
proof
  fix c b
  assume "plain_where c"
  then obtain s where s: "c_query c = VString s" "\<not> is_number_text s" "dollar \<notin> set s" "VNil \<notin> set (c_args c)"
    by (auto simp: plain_where_def split: gvalue.splits)
  show "\<exists>str. buildWhereCondition c b = Ret (str, more_vars (clause_vars c) b) \<and> balanced str \<and> unmark str = clause_text c"
    using where_args_expand [OF s(3) balanced.Nil _ s(4), of b] s
    by (simp add: buildWhereCondition_def clause_vars_def clause_text_def)
qed

lemma not_args_scalars:
  assumes "list_all scalar args" "args \<noteq> []"
  shows "not_args ne args str b = Ret (replace_first ne ''?'' ''$$'', more_vars (concat (map arg_vars args)) b)"
  using assms
proof (induction args arbitrary: str b)
  case (Cons arg args)
  have "not_args ne (arg # args) str b = not_args ne args (replace_first ne ''?'' ''$$'') (more_vars (arg_vars arg) b)"
    using Cons.prems(1)
    by (cases arg) (simp_all add: scalar_def AddToVars_def arg_vars_def driver_value_def)
  with Cons show ?case by (cases args) simp_all
qed simp

lemma replace_first_mark:
  assumes "dollar \<notin> set s"
  shows "balanced (replace_first s ''?'' ''$$'')" "unmark (replace_first s ''?'' ''$$'') = s"
proof -
  have "balanced (replace_first s ''?'' ''$$'') \<and> unmark (replace_first s ''?'' ''$$'') = s"
  proof (cases "qmark \<in> set s")
    case True
    then obtain u v where s: "s = u @ qmark # v" "qmark \<notin> set u" by (meson split_list_first)
    then have "balanced u" "balanced v" "unmark u = u" "unmark v = v" using assms by (simp_all add: plain_balanced plain_unmark)
    with s show ?thesis
      by (auto simp: replace_first_split unmark_append intro!: balanced_append)
  qed (simp add: replace_first_none assms plain_balanced plain_unmark)
  then show "balanced (replace_first s ''?'' ''$$'')" "unmark (replace_first s ''?'' ''$$'') = s" by auto
qed

interpretation nots: condition_printer buildNotCondition not_text clause_vars plain_not
proof
  fix c b
  assume "plain_not c"
  then obtain s where s: "c_query c = VString s" "\<not> is_number_text s" "is_comparison s" "dollar \<notin> set s"
    "c_args c \<noteq> []" "list_all scalar (c_args c)"
    by (auto simp: plain_not_def split: gvalue.splits)
  have "dollar \<notin> set (''NOT ('' @ s @ '')'')" using s(4) by simp
  note m = replace_first_mark [OF this]
  show "\<exists>str. buildNotCondition c b = Ret (str, more_vars (clause_vars c) b) \<and> balanced str \<and> unmark str = not_text c"
    using m s not_args_scalars [OF s(6,5), of "''NOT ('' @ s @ '')''" "'' NOT ('' @ s @ '') ''" b]
    by (intro exI [of _ "replace_first (''NOT ('' @ s @ '')'') ''?'' ''$$''"])
      (simp add: buildNotCondition_def clause_vars_def not_text_def del: append.simps replace_first.simps)
qed

section \<open>The statement of a search\<close>

text \<open>The condition of the statement, and the variables in the order they are bound.\<close>

definition where_text :: "search \<Rightarrow> string" where
  "where_text s =
     (let ands = join '' AND '' (map clause_text (WhereConditions s) @ map not_text (NotConditions s));
          ors = join '' OR '' (map clause_text (OrConditions s))
      in if ands \<noteq> [] then ''WHERE '' @ (if ors \<noteq> [] then ands @ '' OR '' @ ors else ands)
         else if ors \<noteq> [] then ''WHERE '' @ ors else [])"

definition bound_vars :: "search \<Rightarrow> gvalue list" where
  "bound_vars s = concat (map clause_vars (WhereConditions s)) @ concat (map clause_vars (OrConditions s))
     @ concat (map clause_vars (NotConditions s))"

definition plain_search :: "search \<Rightarrow> bool" where
  "plain_search s \<longleftrightarrow> (\<forall>c \<in> set (WhereConditions s). plain_where c) \<and> (\<forall>c \<in> set (OrConditions s). plain_where c)
     \<and> (\<forall>c \<in> set (NotConditions s). plain_not c)"

lemma whereSql_plain:
  assumes "plain_search (bsearch b)"
  shows "\<exists>str. whereSql b = Ret (str, more_vars (bound_vars (bsearch b)) b) \<and> balanced str
    \<and> unmark str = where_text (bsearch b)"
proof -
  let ?s = "bsearch b"
  let ?v1 = "concat (map clause_vars (WhereConditions ?s))"
  let ?v2 = "concat (map clause_vars (OrConditions ?s))"
  have p: "\<forall>c \<in> set (WhereConditions ?s). plain_where c" "\<forall>c \<in> set (OrConditions ?s). plain_where c"
    "\<forall>c \<in> set (NotConditions ?s). plain_not c"
    using assms by (auto simp: plain_search_def)
  obtain ws where w: "build_all buildWhereCondition (WhereConditions ?s) b = Ret (ws, more_vars ?v1 b)"
    "\<forall>s \<in> set ws. balanced s" "map unmark ws = map clause_text (WhereConditions ?s)"
    using wheres.prints_all [OF p(1), of b] by auto
  obtain os where o: "build_all buildWhereCondition (OrConditions ?s) (more_vars ?v1 b)
      = Ret (os, more_vars ?v2 (more_vars ?v1 b))"
    "\<forall>s \<in> set os. balanced s" "map unmark os = map clause_text (OrConditions ?s)"
    using wheres.prints_all [OF p(2), of "more_vars ?v1 b"] by auto
  obtain ns where n: "build_all buildNotCondition (NotConditions ?s) (more_vars ?v2 (more_vars ?v1 b))
      = Ret (ns, more_vars (concat (map clause_vars (NotConditions ?s))) (more_vars ?v2 (more_vars ?v1 b)))"
    "\<forall>s \<in> set ns. balanced s" "map unmark ns = map not_text (NotConditions ?s)"
    using nots.prints_all [OF p(3), of "more_vars ?v2 (more_vars ?v1 b)"] by auto
  let ?ands = "join '' AND '' (ws @ ns)"
  let ?ors = "join '' OR '' os"
  have wn: "\<forall>s \<in> set (ws @ ns). balanced s" using w(2) n(2) by auto
  have a: "balanced ?ands" "unmark ?ands = join '' AND '' (map clause_text (WhereConditions ?s) @ map not_text (NotConditions ?s))"
    using balanced_join [OF _ wn, of "'' AND ''"] unmark_join [OF _ wn, of "'' AND ''"] w(3) n(3) by simp_all
  have r: "balanced ?ors" "unmark ?ors = join '' OR '' (map clause_text (OrConditions ?s))"
    using balanced_join [OF _ o(2), of "'' OR ''"] unmark_join [OF _ o(2), of "'' OR ''"] o(3) by simp_all
  note e = unmark_Nil_iff [OF a(1)] unmark_Nil_iff [OF r(1)]
  let ?str = "if ?ands \<noteq> [] then ''WHERE '' @ (if ?ors \<noteq> [] then ?ands @ '' OR '' @ ?ors else ?ands)
      else if ?ors \<noteq> [] then ''WHERE '' @ ?ors else []"
  have "whereSql b = Ret (?str, more_vars (bound_vars ?s) b)"
    using w(1) o(1) n(1) by (simp add: whereSql_def bound_vars_def)
  moreover have "balanced ?str"
    using a(1) r(1) by (simp add: balanced.Nil balanced.Plain balanced_append)
  moreover have "unmark ?str = where_text ?s"
    using e unfolding where_text_def Let_def a(2) [symmetric] r(2) [symmetric]
    by (simp add: unmark_append a(1) r(1))
  ultimately show ?thesis by blast
qed

text \<open>What follows the condition.\<close>

definition tail_sql :: "Builder \<Rightarrow> string" where
  "tail_sql b = groupSql b @ orderSql b @ limitSql b @ offsetSql b"

lemma same_search:
  "bsearch b' = bsearch b \<Longrightarrow> joinsSql b' = joinsSql b \<and> groupSql b' = groupSql b \<and> orderSql b' = orderSql b
    \<and> limitSql b' = limitSql b \<and> offsetSql b' = offsetSql b \<and> selectSql b' = selectSql b
    \<and> QuotedTableName b' = QuotedTableName b"
  by (simp add: joinsSql_def groupSql_def orderSql_def limitSql_def offsetSql_def selectSql_def QuotedTableName_def)

lemma combined_plain:
  assumes "plain_search (bsearch b)" "HavingCondition (bsearch b) = None"
  shows "\<exists>str. CombinedConditionSql b
      = Ret (joinsSql b @ str @ tail_sql b, more_vars (bound_vars (bsearch b)) b)
    \<and> balanced str \<and> unmark str = where_text (bsearch b)"
  using whereSql_plain [OF assms(1)] assms(2)
  by (auto simp: CombinedConditionSql_def havingSql_def tail_sql_def)

lemma find_plain:
  assumes "plain_search (bsearch b)" "HavingCondition (bsearch b) = None" "\<not> RawQuery (bsearch b)"
    and "dollar \<notin> set (selectSql b @ QuotedTableName b @ joinsSql b @ tail_sql b)"
  shows "Builder_Find b = Ret (''SELECT  '' @ selectSql b @ '' FROM '' @ QuotedTableName b @ '' '' @ joinsSql b
      @ where_text (bsearch b) @ tail_sql b, bound_vars (bsearch b))"
proof -
  let ?b = "Builder_clone b"
  have s: "bsearch ?b = bsearch b" "SqlVars ?b = []" by (simp_all add: Builder_clone_def)
  note eq = same_search [OF s(1)]
  have t: "tail_sql ?b = tail_sql b" using eq by (simp add: tail_sql_def)
  obtain str where c: "CombinedConditionSql ?b = Ret (joinsSql b @ str @ tail_sql b, more_vars (bound_vars (bsearch b)) ?b)"
    "balanced str" "unmark str = where_text (bsearch b)"
    using combined_plain [of ?b] assms(1,2) eq t unfolding s by auto
  let ?pre = "''SELECT '' @ [] @ '' '' @ selectSql b @ '' FROM '' @ QuotedTableName b @ '' '' @ joinsSql b"
  have "dollar \<notin> set ?pre" using assms(4) by simp
  note pre = plain_balanced [OF this] plain_unmark [OF this]
  have "unmark (?pre @ str @ tail_sql b) = ?pre @ where_text (bsearch b) @ tail_sql b"
    unfolding unmark_append [OF pre(1)] unmark_append [OF c(2)] pre(2) c(3)
    using plain_unmark [of "tail_sql b"] assms(4) by simp
  then show ?thesis
    using c(1) assms(3) s eq by (simp add: Builder_Find_def prepareQuerySql_def)
qed

lemma unmark_dropWhile:
  assumes "balanced s" "\<not> P dollar" "\<not> P qmark"
  shows "unmark (dropWhile P s) = dropWhile P (unmark s)"
  using assms by (induction rule: balanced.induct) auto

section \<open>Properties\<close>

text \<open>C27: The statement of Find. Let every condition of the search be a text that is not a number and has no dollar, its arguments not nil; let every
  negated one be a comparison with one or more arguments, none of them a slice (\<open>plain_search\<close>: the negated conditions with slices are not covered,
  nor are those given as values, slices or maps); let there be no HAVING, no raw query, and no dollar in the other clauses. Then Find sends exactly the
  selected columns, the table, the joins, the conditions joined by AND (negated ones as NOT) and then OR, and the clauses that follow; a
  slice argument of a condition that is not negated gives one place holder per element. The variables are bound in the order of the lists where, or,
  not, although in the text the negated conditions come before the alternatives.\<close>

theorem find_statement:
  assumes "plain_search (bsearch b)" "HavingCondition (bsearch b) = None" "\<not> RawQuery (bsearch b)"
    and "dollar \<notin> set (selectSql b @ QuotedTableName b @ joinsSql b @ tail_sql b)"
  shows "Builder_Find b = Ret (''SELECT  '' @ selectSql b @ '' FROM '' @ QuotedTableName b @ '' '' @ joinsSql b
      @ where_text (bsearch b) @ tail_sql b, bound_vars (bsearch b))"
  by (rule find_plain [OF assms])

text \<open>A negated condition with a slice and a scalar: the scalar starts again from the text of the condition, so the place holders of the slice are lost
  while its variables stay bound. There are two place holders and three variables.\<close>

lemma negated_slice_lost:
  "Builder_Find (Builder_Not (VString ''a in (?) AND b = ?'') [VSlice EInt [VInt 1, VInt 2], VInt 3] NewBuilder)
    = Ret (''SELECT  * FROM `` T  WHERE NOT (a in (?) AND b = ?)'', [VInt 1, VInt 2, VInt 3])"
  by code_simp

text \<open>A raw statement is sent with its arguments bound in order, but without its leading characters as long
  as they are among W, H, E, R and the space: the text is only sent unchanged when it starts with another
  character.\<close>

lemma raw_statement:
  assumes "plain_where \<lparr>c_query = VString sql, c_args = args\<rparr>" "expand sql args \<noteq> []"
  shows "Builder_Find (Raw sql args NewBuilder)
    = Ret (dropWhile (\<lambda>c. c \<in> set ''WHERE '') (expand sql args), concat (map arg_vars args))"
proof -
  let ?b = "Raw sql args NewBuilder"
  let ?c = "\<lparr>c_query = VString sql, c_args = args\<rparr>"
  have s: "bsearch (Builder_clone ?b) = bsearch ?b" "SqlVars (Builder_clone ?b) = []"
    by (simp_all add: Builder_clone_def)
  have w: "WhereConditions (bsearch ?b) = [?c]" "OrConditions (bsearch ?b) = []" "NotConditions (bsearch ?b) = []"
    "HavingCondition (bsearch ?b) = None" "RawQuery (bsearch ?b)"
    by (simp_all add: Raw_def NewBuilder_def empty_search_def search_where_def)
  have p: "plain_search (bsearch (Builder_clone ?b))" "HavingCondition (bsearch (Builder_clone ?b)) = None"
    unfolding s using w assms(1) by (simp_all add: plain_search_def)
  have wt: "where_text (bsearch ?b) = ''WHERE '' @ expand sql args"
    using w assms(2) by (simp add: where_text_def clause_text_def)
  obtain str where c: "CombinedConditionSql (Builder_clone ?b)
      = Ret (joinsSql (Builder_clone ?b) @ str @ tail_sql (Builder_clone ?b),
          more_vars (bound_vars (bsearch ?b)) (Builder_clone ?b))"
    "balanced str" "unmark str = ''WHERE '' @ expand sql args"
    using combined_plain [OF p] unfolding s wt by auto
  have j: "joinsSql (Builder_clone ?b) = '' ''" "tail_sql (Builder_clone ?b) = []"
    by (simp_all add: joinsSql_def tail_sql_def groupSql_def orderSql_def limitSql_def offsetSql_def Builder_clone_def Raw_def
        NewBuilder_def empty_search_def search_where_def)
  have "unmark (trim_left ('' '' @ str) ''WHERE '') = dropWhile (\<lambda>c. c \<in> set ''WHERE '') (unmark str)"
    using unmark_dropWhile [OF c(2), of "\<lambda>c. c \<in> set ''WHERE ''"] by (simp add: trim_left_def)
  also have "\<dots> = dropWhile (\<lambda>c. c \<in> set ''WHERE '') (expand sql args)"
    unfolding c(3) by simp
  finally show ?thesis
    using c(1) j w(1,2,3,5) s by (simp add: Builder_Find_def prepareQuerySql_def bound_vars_def clause_vars_def)
qed

text \<open>A limit, an offset or a group whose value is neither a string nor an int nor a list of strings (an
  \<open>int64\<close> for instance) is not reported by Find: the builder records the error, and the statement is that of
  a search without the clause.\<close>

theorem invalid_clause_ignored:
  assumes "getInterfaceAsSql v = None"
  shows "berr (Limit v b) = Some InvalidSql
    \<and> Builder_Find (Limit v b) = Builder_Find (b\<lparr>bsearch := (bsearch b)\<lparr>LimitTo := []\<rparr>\<rparr>)
    \<and> Builder_Find (Offset v b) = Builder_Find (b\<lparr>bsearch := (bsearch b)\<lparr>OffsetBy := []\<rparr>\<rparr>)
    \<and> Builder_Find (Group v b) = Builder_Find (b\<lparr>bsearch := (bsearch b)\<lparr>GroupBy := []\<rparr>\<rparr>)"
  using assms
  by (simp add: Limit_def Offset_def Group_def with_sql_def Builder_Err_def Builder_Find_def Builder_clone_def)

section \<open>The properties at concrete inputs\<close>

text \<open>The place holder of the negated condition gets the variable of the alternative.\<close>

lemma find_statement_witness:
  "Builder_Find (Builder_Or (VString ''c = ?'') [VInt 7] (Builder_Not (VString ''b = ?'') [VInt 5]
      (Builder_Where (VString ''a = ?'') [VInt 3] NewBuilder)))
    = Ret (''SELECT  * FROM `` T  WHERE a = ? AND NOT (b = ?) OR c = ?'', [VInt 3, VInt 7, VInt 5])"
proof -
  let ?b = "Builder_Or (VString ''c = ?'') [VInt 7] (Builder_Not (VString ''b = ?'') [VInt 5]
      (Builder_Where (VString ''a = ?'') [VInt 3] NewBuilder))"
  have w: "WhereConditions (bsearch ?b) = [\<lparr>c_query = VString ''a = ?'', c_args = [VInt 3]\<rparr>]"
    "OrConditions (bsearch ?b) = [\<lparr>c_query = VString ''c = ?'', c_args = [VInt 7]\<rparr>]"
    "NotConditions (bsearch ?b) = [\<lparr>c_query = VString ''b = ?'', c_args = [VInt 5]\<rparr>]"
    "HavingCondition (bsearch ?b) = None" "\<not> RawQuery (bsearch ?b)"
    by (simp_all add: Builder_Or_def Builder_Not_def Builder_Where_def search_where_def search_or_def
        search_not_def NewBuilder_def empty_search_def)
  have c: "plain_where \<lparr>c_query = VString ''a = ?'', c_args = [VInt 3]\<rparr>"
    "plain_where \<lparr>c_query = VString ''c = ?'', c_args = [VInt 7]\<rparr>"
    "plain_not \<lparr>c_query = VString ''b = ?'', c_args = [VInt 5]\<rparr>"
    by code_simp+
  then have p: "plain_search (bsearch ?b)" unfolding plain_search_def w by simp
  have t: "selectSql ?b = ''*''" "QuotedTableName ?b = ''`` T''" "joinsSql ?b = '' ''" "tail_sql ?b = []"
    by code_simp+
  have wt: "where_text (bsearch ?b) = ''WHERE a = ? AND NOT (b = ?) OR c = ?''"
    "bound_vars (bsearch ?b) = [VInt 3, VInt 7, VInt 5]"
    unfolding where_text_def bound_vars_def w by code_simp+
  show ?thesis
    using find_statement [OF p w(4,5)] unfolding t wt by simp
qed

lemma raw_statement_witness: "Builder_Find (Raw ''REPLACE INTO t VALUES (?)'' [VInt 3] NewBuilder)
    = Ret (''PLACE INTO t VALUES (?)'', [VInt 3])"
proof -
  have "plain_where \<lparr>c_query = VString ''REPLACE INTO t VALUES (?)'', c_args = [VInt 3]\<rparr>"
    "expand ''REPLACE INTO t VALUES (?)'' [VInt 3] = ''REPLACE INTO t VALUES (?)''"
    "concat (map arg_vars [VInt 3]) = [VInt 3]"
    by code_simp+
  then show ?thesis using raw_statement [of "''REPLACE INTO t VALUES (?)''" "[VInt 3]"] by simp
qed

lemma invalid_clause_ignored_witness:
  "Builder_Find (Limit (VInt64 10) (Builder_Where (VString ''a = 1'') [] NewBuilder))
    = Builder_Find (Builder_Where (VString ''a = 1'') [] NewBuilder)"
proof -
  have "getInterfaceAsSql (VInt64 10) = None" by simp
  from invalid_clause_ignored [OF this, of "Builder_Where (VString ''a = 1'') [] NewBuilder"] show ?thesis
    by (simp add: Builder_Where_def search_where_def NewBuilder_def empty_search_def)
qed

end
