(* ===== verification/RestCond.thy ===== *)
theory RestCond
  imports GorpBuilder GoTime
begin

text \<open>
  Query conditions of the REST layer: the type \<open>Condition\<close> of \<open>rest/model.go\<close> and its
  translation to clauses of the query builder (\<open>DoWhere\<close>), with the tag options of
  \<open>utils/tag.go\<close>.

  A value that a condition compares with is an \<open>rvalue\<close>; pointers to scalars are options, with
  \<open>None\<close> for a nil pointer. Of a condition inside another one only the field and the value \<open>Is\<close>
  are kept, the only ones the code reads. \<open>pr\<close> prints a list element that is neither a
  string nor an integer, by the verb given to it. An argument of type \<open>time.Time\<close> is the opaque value \<open>time_arg\<close>.
\<close>

section \<open>Tags\<close>

text \<open>\<open>ParseTag\<close> and \<open>TagOptions.Contains\<close>.\<close>

definition ParseTag :: "string \<Rightarrow> string \<times> string" where
  "ParseTag tag = (takeWhile (\<lambda>c. c \<noteq> CHR '','') tag, drop 1 (dropWhile (\<lambda>c. c \<noteq> CHR '','') tag))"

lemma ParseTag_length: "s \<noteq> [] \<Longrightarrow> length (snd (ParseTag s)) < length s"
  using length_dropWhile_le [of "\<lambda>c. c \<noteq> CHR '','' " s] by (cases s) (simp_all add: ParseTag_def)

function Contains :: "string \<Rightarrow> string \<Rightarrow> bool" where
  "Contains s optionName =
     (if s = [] then False
      else if fst (ParseTag s) = optionName then True
      else Contains (snd (ParseTag s)) optionName)"
  by pat_completeness auto
termination
  by (relation "measure (length \<circ> fst)") (simp_all add: ParseTag_length)

declare Contains.simps [simp del]

record StructColumn =
  col_tag :: string
  col_opts :: string
  col_ext :: string
  col_extopts :: string
  col_type :: string

section \<open>Values and conditions\<close>

datatype rvalue =
    RNil
  | RString string
  | RInt int
  | RInt64 int
  | RFloat string
  | RPString "string option"
  | RPInt "int option"
  | RPInt64 "int option"
  | RPFloat "string option"
  | RStrings "string list"
  | RInts "int list"
  | RIfaces "rvalue list"
  | RTime bool Time
  | RTimeRange bool Time Time
  | ROrderBy bool string string
  | RCond string rvalue
  | ROther string

record Condition =
  k_field :: string
  k_is :: rvalue
  k_not :: rvalue
  k_or :: rvalue
  k_gt :: rvalue
  k_lt :: rvalue
  k_like :: rvalue
  k_join :: rvalue
  k_joinon :: "rvalue list option"
  k_range :: rvalue
  k_order :: rvalue
  k_raw :: string

datatype ctype = CIs | CNot | COr | CLike | CGt | CLt | CJoin | CRange | COrder | CRaw

definition empty_condition :: "string \<Rightarrow> Condition" where
  "empty_condition field =
     \<lparr>k_field = field, k_is = RNil, k_not = RNil, k_or = RNil, k_gt = RNil, k_lt = RNil, k_like = RNil,
      k_join = RNil, k_joinon = None, k_range = RNil, k_order = RNil, k_raw = []\<rparr>"

text \<open>\<open>NewCondition\<close>: nil without a field or a value; a raw condition that is not a string panics.\<close>

definition NewCondition :: "ctype \<Rightarrow> string \<Rightarrow> rvalue list \<Rightarrow> Condition option outcome" where
  "NewCondition typ field cs =
     (if field = [] \<or> cs = [] then Ret None
      else let con = empty_condition field;
               v = (if length cs = 1 then hd cs else RIfaces cs)
           in case typ of
                CIs \<Rightarrow> Ret (Some (con\<lparr>k_is := v\<rparr>))
              | CNot \<Rightarrow> Ret (Some (con\<lparr>k_not := v\<rparr>))
              | CGt \<Rightarrow> Ret (Some (con\<lparr>k_gt := v\<rparr>))
              | CLt \<Rightarrow> Ret (Some (con\<lparr>k_lt := v\<rparr>))
              | CJoin \<Rightarrow> Ret (Some (con\<lparr>k_join := hd cs, k_joinon := (if 3 \<le> length cs then Some (tl cs) else None)\<rparr>))
              | COr \<Rightarrow> Ret (Some (con\<lparr>k_or := v\<rparr>))
              | CLike \<Rightarrow> Ret (Some (con\<lparr>k_like := v\<rparr>))
              | CRange \<Rightarrow> Ret (Some (con\<lparr>k_range := v\<rparr>))
              | COrder \<Rightarrow> Ret (Some (con\<lparr>k_order := v\<rparr>))
              | CRaw \<Rightarrow> (case v of RString s \<Rightarrow> Ret (Some (con\<lparr>k_raw := s\<rparr>))
                                 | _ \<Rightarrow> Panic (PanicMsg ''interface conversion'')))"

definition merge_value :: "rvalue \<Rightarrow> rvalue \<Rightarrow> rvalue" where
  "merge_value old v = (if v \<noteq> RNil then v else old)"

definition Merge :: "Condition \<Rightarrow> Condition option \<Rightarrow> Condition" where
  "Merge con oc =
     (case oc of
        None \<Rightarrow> con
      | Some oc \<Rightarrow>
          con\<lparr>k_is := merge_value (k_is con) (k_is oc), k_or := merge_value (k_or con) (k_or oc),
              k_not := merge_value (k_not con) (k_not oc), k_gt := merge_value (k_gt con) (k_gt oc),
              k_lt := merge_value (k_lt con) (k_lt oc), k_like := merge_value (k_like con) (k_like oc),
              k_range := merge_value (k_range con) (k_range oc), k_order := merge_value (k_order con) (k_order oc),
              k_join := merge_value (k_join con) (k_join oc),
              k_joinon := (if k_join oc \<noteq> RNil then k_joinon oc else k_joinon con),
              k_raw := (if k_raw oc \<noteq> [] then k_raw oc else k_raw con)\<rparr>)"

section \<open>Conditions as clauses\<close>

text \<open>The verbs \<open>%v\<close> and \<open>%s\<close>: a number is not accepted by the latter.\<close>

fun fmt_v :: "(char \<Rightarrow> rvalue \<Rightarrow> string) \<Rightarrow> rvalue \<Rightarrow> string" where
  "fmt_v pr (RString s) = s"
| "fmt_v pr (RInt i) = itoa i"
| "fmt_v pr (RInt64 i) = itoa i"
| "fmt_v pr v = pr (CHR ''v'') v"

fun fmt_s :: "(char \<Rightarrow> rvalue \<Rightarrow> string) \<Rightarrow> rvalue \<Rightarrow> string" where
  "fmt_s pr (RString s) = s"
| "fmt_s pr (RInt i) = ''%!s(int='' @ itoa i @ '')''"
| "fmt_s pr (RInt64 i) = ''%!s(int64='' @ itoa i @ '')''"
| "fmt_s pr v = pr (CHR ''s'') v"

text \<open>The apostrophe; a text between two of them, not escaped.\<close>

definition quo :: string where
  "quo = [CHR 0x27]"

definition sql_literal :: "string \<Rightarrow> string" where
  "sql_literal s = quo @ s @ quo"

definition value_list :: "string list \<Rightarrow> string" where
  "value_list vs = ''('' @ join '','' (map sql_literal vs) @ '')''"

definition sql_column :: "string \<Rightarrow> string \<Rightarrow> string" where
  "sql_column tableAlias field = tableAlias @ ''.`'' @ field @ ''`''"

definition time_arg :: "Time \<Rightarrow> gvalue" where
  "time_arg t = VOther (''time '' @ itoa (tsec t) @ ''.'' @ itoa (tnsec t))"

definition add_where :: "string \<Rightarrow> gvalue list \<Rightarrow> Builder \<Rightarrow> Builder" where
  "add_where text args b = Builder_Where (VString text) args b"

definition deref_where :: "string \<Rightarrow> ('a \<Rightarrow> gvalue) \<Rightarrow> 'a option \<Rightarrow> Builder \<Rightarrow> Builder outcome" where
  "deref_where text arg p b =
     (case p of None \<Rightarrow> Panic NilDereference | Some v \<Rightarrow> Ret (add_where text [arg v] b))"

definition buildWhereRaw :: "(char \<Rightarrow> rvalue \<Rightarrow> string) \<Rightarrow> string \<Rightarrow> string \<Rightarrow> rvalue \<Rightarrow> Builder \<Rightarrow> Builder outcome" where
  "buildWhereRaw pr tableAlias field con b =
     (let eq = sql_column tableAlias field @ '' = ?''; inn = sql_column tableAlias field @ '' IN ''
      in case con of
           RPString p \<Rightarrow> deref_where eq VString p b
         | RPInt p \<Rightarrow> deref_where eq VInt p b
         | RPInt64 p \<Rightarrow> deref_where eq VInt64 p b
         | RPFloat p \<Rightarrow> deref_where eq VOther p b
         | RString s \<Rightarrow> Ret (add_where eq [VString s] b)
         | RInt i \<Rightarrow> Ret (add_where eq [VInt i] b)
         | RInt64 i \<Rightarrow> Ret (add_where eq [VInt64 i] b)
         | RFloat s \<Rightarrow> Ret (add_where eq [VOther s] b)
         | RStrings vs \<Rightarrow> Ret (add_where (inn @ value_list vs) [] b)
         | RInts vs \<Rightarrow> Ret (add_where (inn @ value_list (map itoa vs)) [] b)
         | RIfaces vs \<Rightarrow> Ret (add_where (inn @ value_list (map (fmt_v pr) vs)) [] b)
         | _ \<Rightarrow> Ret b)"

text \<open>The alternatives of a list value, and the four comparisons written out in \<open>DoWhere\<close>.\<close>

definition any_of :: "string \<Rightarrow> string \<Rightarrow> (string \<Rightarrow> string) \<Rightarrow> string list \<Rightarrow> string" where
  "any_of field oper lit vs = ''('' @ join '' OR '' (map (\<lambda>v. sql_column ''T'' field @ oper @ lit v) vs) @ '')''"

definition where_raw :: "Condition \<Rightarrow> Builder \<Rightarrow> Builder" where
  "where_raw v b = (if k_raw v \<noteq> [] then add_where (''('' @ k_raw v @ '')'') [] b else b)"

definition where_not :: "(char \<Rightarrow> rvalue \<Rightarrow> string) \<Rightarrow> Condition \<Rightarrow> Builder \<Rightarrow> Builder" where
  "where_not pr v b =
     (case k_not v of
        RString s \<Rightarrow> add_where (sql_column ''T'' (k_field v) @ '' != ?'') [VString s] b
      | RStrings vs \<Rightarrow> add_where (sql_column ''T'' (k_field v) @ '' NOT IN '' @ value_list vs) [] b
      | RIfaces vs \<Rightarrow> add_where (sql_column ''T'' (k_field v) @ '' NOT IN '' @ value_list (map (fmt_s pr) vs)) [] b
      | _ \<Rightarrow> b)"

definition where_gt :: "(char \<Rightarrow> rvalue \<Rightarrow> string) \<Rightarrow> Condition \<Rightarrow> Builder \<Rightarrow> Builder" where
  "where_gt pr v b =
     (let f = k_field v; ge = sql_column ''T'' f @ '' >= ?''
      in case k_gt v of
           RString s \<Rightarrow> add_where ge [VString s] b
         | RStrings vs \<Rightarrow> add_where (any_of f '' >= '' sql_literal vs) [] b
         | RTimeRange p s e \<Rightarrow> add_where ge [time_arg s] b
         | RIfaces vs \<Rightarrow> add_where (any_of f '' >= '' sql_literal (map (fmt_s pr) vs)) [] b
         | _ \<Rightarrow> b)"

definition where_lt :: "(char \<Rightarrow> rvalue \<Rightarrow> string) \<Rightarrow> Condition \<Rightarrow> Builder \<Rightarrow> Builder" where
  "where_lt pr v b =
     (let f = k_field v; lt = sql_column ''T'' f @ '' < ?''
      in case k_lt v of
           RString s \<Rightarrow> add_where lt [VString s] b
         | RStrings vs \<Rightarrow> add_where (any_of f '' < '' sql_literal vs) [] b
         | RTime p t \<Rightarrow> add_where lt [time_arg t] b
         | RIfaces vs \<Rightarrow> add_where (any_of f '' < '' sql_literal (map (fmt_s pr) vs)) [] b
         | _ \<Rightarrow> b)"

definition like_text :: "string \<Rightarrow> string" where
  "like_text s = ''%'' @ s @ ''%''"

definition where_like :: "(char \<Rightarrow> rvalue \<Rightarrow> string) \<Rightarrow> Condition \<Rightarrow> Builder \<Rightarrow> Builder" where
  "where_like pr v b =
     (let f = k_field v
      in case k_like v of
           RString s \<Rightarrow> add_where (sql_column ''T'' f @ '' LIKE ?'') [VString (like_text s)] b
         | RStrings vs \<Rightarrow> add_where (any_of f '' LIKE '' (\<lambda>s. sql_literal (like_text s)) vs) [] b
         | RIfaces vs \<Rightarrow> add_where (any_of f '' LIKE '' (\<lambda>s. sql_literal (like_text s)) (map (fmt_s pr) vs)) [] b
         | _ \<Rightarrow> b)"

text \<open>\<open>DoWhere\<close>: a negated value goes through \<open>buildWhereRaw\<close> too.\<close>

definition DoWhere :: "(char \<Rightarrow> rvalue \<Rightarrow> string) \<Rightarrow> Condition \<Rightarrow> Builder \<Rightarrow> Builder outcome" where
  "DoWhere pr v b =
     bind_outcome (buildWhereRaw pr ''T'' (k_field v) (k_is v) (where_raw v b)) (\<lambda>b1.
     bind_outcome (buildWhereRaw pr ''T'' (k_field v) (k_not v) b1) (\<lambda>b2.
       Ret (where_like pr v (where_lt pr v (where_gt pr v (where_not pr v b2))))))"

section \<open>Conditions with single values\<close>

text \<open>The clauses of a condition whose values are single strings, each with its variables.\<close>

definition new_clause :: "string \<Rightarrow> string \<Rightarrow> clause" where
  "new_clause text s = \<lparr>c_query = VString text, c_args = [VString s]\<rparr>"

fun string_clause :: "string \<Rightarrow> string \<Rightarrow> rvalue \<Rightarrow> clause list" where
  "string_clause field oper (RString s) = [new_clause (sql_column ''T'' field @ oper) s]"
| "string_clause field oper v = []"

fun single :: "rvalue \<Rightarrow> bool" where
  "single RNil = True"
| "single (RString s) = True"
| "single v = False"

definition single_values :: "Condition \<Rightarrow> bool" where
  "single_values v \<longleftrightarrow> k_raw v = [] \<and> single (k_is v) \<and> single (k_not v) \<and> single (k_gt v) \<and> single (k_lt v) \<and>
     single (k_like v) \<and> k_or v = RNil \<and> k_join v = RNil \<and> k_range v = RNil \<and> k_order v = RNil"

fun like_value :: "rvalue \<Rightarrow> rvalue" where
  "like_value (RString s) = RString (like_text s)"
| "like_value v = v"

definition single_clauses :: "Condition \<Rightarrow> clause list" where
  "single_clauses v =
     (let f = k_field v
      in string_clause f '' = ?'' (k_is v) @ string_clause f '' = ?'' (k_not v) @ string_clause f '' != ?'' (k_not v)
         @ string_clause f '' >= ?'' (k_gt v) @ string_clause f '' < ?'' (k_lt v)
         @ string_clause f '' LIKE ?'' (like_value (k_like v)))"

abbreviation more_wheres :: "clause list \<Rightarrow> Builder \<Rightarrow> Builder" where
  "more_wheres cs b \<equiv> b\<lparr>bsearch := (bsearch b)\<lparr>WhereConditions := WhereConditions (bsearch b) @ cs\<rparr>\<rparr>"

lemma add_where_eq: "add_where text args b = more_wheres [\<lparr>c_query = VString text, c_args = args\<rparr>] b"
  by (simp add: add_where_def Builder_Where_def search_where_def)

lemma buildWhereRaw_single:
  "single v \<Longrightarrow> buildWhereRaw pr ''T'' f v b = Ret (more_wheres (string_clause f '' = ?'' v) b)"
  by (cases v) (simp_all add: buildWhereRaw_def add_where_eq new_clause_def)

lemma single_wheres:
  "single (k_not v) \<Longrightarrow> where_not pr v b = more_wheres (string_clause (k_field v) '' != ?'' (k_not v)) b"
  "single (k_gt v) \<Longrightarrow> where_gt pr v b = more_wheres (string_clause (k_field v) '' >= ?'' (k_gt v)) b"
  "single (k_lt v) \<Longrightarrow> where_lt pr v b = more_wheres (string_clause (k_field v) '' < ?'' (k_lt v)) b"
  "single (k_like v) \<Longrightarrow> where_like pr v b = more_wheres (string_clause (k_field v) '' LIKE ?'' (like_value (k_like v))) b"
proof -
  show "single (k_not v) \<Longrightarrow> where_not pr v b = more_wheres (string_clause (k_field v) '' != ?'' (k_not v)) b"
    by (cases "k_not v") (simp_all add: where_not_def add_where_eq new_clause_def)
  show "single (k_gt v) \<Longrightarrow> where_gt pr v b = more_wheres (string_clause (k_field v) '' >= ?'' (k_gt v)) b"
    by (cases "k_gt v") (simp_all add: where_gt_def add_where_eq new_clause_def)
  show "single (k_lt v) \<Longrightarrow> where_lt pr v b = more_wheres (string_clause (k_field v) '' < ?'' (k_lt v)) b"
    by (cases "k_lt v") (simp_all add: where_lt_def add_where_eq new_clause_def)
  show "single (k_like v) \<Longrightarrow> where_like pr v b = more_wheres (string_clause (k_field v) '' LIKE ?'' (like_value (k_like v))) b"
    by (cases "k_like v") (simp_all add: where_like_def add_where_eq new_clause_def)
qed

lemma DoWhere_single:
  assumes "single_values v"
  shows "DoWhere pr v b = Ret (more_wheres (single_clauses v) b)"
proof -
  have r: "where_raw v b = b" using assms by (simp add: where_raw_def single_values_def)
  show ?thesis
    using assms by (simp add: DoWhere_def r single_values_def buildWhereRaw_single single_wheres single_clauses_def Let_def)
qed

lemma string_clause_plain:
  assumes "dollar \<notin> set f" "oper \<noteq> []" "dollar \<notin> set oper" "c \<in> set (string_clause f oper v)"
  shows "plain_where c"
proof -
  obtain s where c: "c = new_clause (sql_column ''T'' f @ oper) s" using assms(4) by (cases v) auto
  have "\<not> is_number_text (sql_column ''T'' f @ oper)"
    by (simp add: is_number_text_def sql_column_def re_space_def is_digit_def)
  then show ?thesis using assms by (simp add: c plain_where_def new_clause_def sql_column_def)
qed

lemma single_clauses_plain:
  assumes "dollar \<notin> set (k_field v)" "c \<in> set (single_clauses v)"
  shows "plain_where c"
proof -
  note plain = string_clause_plain [OF assms(1), of _ c]
  show ?thesis
    using assms(2) plain [of "'' = ?''"] plain [of "'' != ?''"] plain [of "'' >= ?''"] plain [of "'' < ?''"]
      plain [of "'' LIKE ?''"]
    by (auto simp: single_clauses_def Let_def)
qed


section \<open>Lists of values\<close>

text \<open>A list of strings becomes a clause without variables: every element is in the statement as it came, between apostrophes.\<close>

lemma list_values_verbatim:
  "DoWhere pr ((empty_condition f)\<lparr>k_is := RStrings vs\<rparr>) b
    = Ret (more_wheres [\<lparr>c_query = VString (sql_column ''T'' f @ '' IN ('' @ join '','' (map (\<lambda>v. CHR 0x27 # v @ [CHR 0x27]) vs) @ '')''),
        c_args = []\<rparr>] b)"
proof -
  have "sql_literal v = CHR 0x27 # v @ [CHR 0x27]" for v by (simp add: sql_literal_def quo_def)
  then have "sql_literal = (\<lambda>v. CHR 0x27 # v @ [CHR 0x27])" by (rule ext)
  then show ?thesis
    by (simp add: DoWhere_def empty_condition_def buildWhereRaw_def where_raw_def where_not_def where_gt_def where_lt_def
        where_like_def add_where_eq value_list_def)
qed

end
