(* ===== verification/RestQuery.thy ===== *)
theory RestQuery
  imports RestCond
begin

text \<open>
  From the query string of a request to the conditions of a model: \<open>rest/query.go\<close>, the
  parameter loop of \<open>rest/middlewares.go\<close>, \<open>SetConditions\<close> of \<open>rest/model.go\<close> and the
  functions of \<open>rest/action.go\<close> that call it.

  Conditions are shared through pointers: they live in the list \<open>heap\<close>, and a pointer is an
  index of it, or nil. The parameters come as a list of keys with their values, in the order
  the iteration over the map happens to take. A location has a fixed offset, as in
  theory \<open>GoTime\<close>; the current time is an argument. A value of the request's context is an option field.
\<close>

section \<open>Parsing times\<close>

text \<open>
  \<open>time.ParseInLocation\<close> on the layouts of the package. A single digit is accepted for an hour,
  and a fraction may follow the seconds.
\<close>

datatype layout_item = LYear | LMonth | LDay | LHour | LMinute | LSecond | LChar char

record clock =
  cl_year :: int
  cl_month :: int
  cl_day :: int
  cl_hour :: int
  cl_minute :: int
  cl_second :: int
  cl_nsec :: int

definition clock0 :: clock where
  "clock0 = \<lparr>cl_year = 0, cl_month = 1, cl_day = 1, cl_hour = 0, cl_minute = 0, cl_second = 0, cl_nsec = 0\<rparr>"

fun getnum :: "bool \<Rightarrow> string \<Rightarrow> (int \<times> string) option" where
  "getnum fixed [] = None"
| "getnum fixed [a] = (if is_digit a \<and> \<not> fixed then Some (int (digit_val a), []) else None)"
| "getnum fixed (a # b # s) =
     (if \<not> is_digit a then None
      else if is_digit b then Some (int (10 * digit_val a + digit_val b), s)
      else if fixed then None else Some (int (digit_val a), b # s))"

definition num_in :: "bool \<Rightarrow> int \<Rightarrow> int \<Rightarrow> string \<Rightarrow> (int \<times> string) option" where
  "num_in fixed lo hi s =
     (case getnum fixed s of
        Some (n, s') \<Rightarrow> if lo \<le> n \<and> n \<le> hi then Some (n, s') else None
      | None \<Rightarrow> None)"

text \<open>The fraction: more than nine digits are accepted only for a value below \<open>10 ^ 9\<close>.\<close>

definition fraction :: "string \<Rightarrow> (int \<times> string) option" where
  "fraction s =
     (if 2 \<le> length s \<and> hd s = CHR ''.'' \<and> is_digit (s ! 1) then
        (let ds = takeWhile is_digit (tl s); n = int (dec_val ds)
         in if n < 10 ^ 9 then Some (n * 10 ^ (9 - length ds), dropWhile is_digit (tl s)) else None)
      else Some (0, s))"

fun parse_items :: "layout_item list \<Rightarrow> string \<Rightarrow> clock \<Rightarrow> clock option" where
  "parse_items [] s c = (if s = [] then Some c else None)"
| "parse_items (LChar x # ls) s c = (if s \<noteq> [] \<and> hd s = x then parse_items ls (tl s) c else None)"
| "parse_items (LYear # ls) s c =
     (if 4 \<le> length s \<and> list_all is_digit (take 4 s)
      then parse_items ls (drop 4 s) (c\<lparr>cl_year := int (dec_val (take 4 s))\<rparr>) else None)"
| "parse_items (LMonth # ls) s c =
     (case num_in True 1 12 s of Some (n, s') \<Rightarrow> parse_items ls s' (c\<lparr>cl_month := n\<rparr>) | None \<Rightarrow> None)"
| "parse_items (LDay # ls) s c =
     (case getnum True s of Some (n, s') \<Rightarrow> parse_items ls s' (c\<lparr>cl_day := n\<rparr>) | None \<Rightarrow> None)"
| "parse_items (LHour # ls) s c =
     (case num_in False 0 23 s of Some (n, s') \<Rightarrow> parse_items ls s' (c\<lparr>cl_hour := n\<rparr>) | None \<Rightarrow> None)"
| "parse_items (LMinute # ls) s c =
     (case num_in True 0 59 s of Some (n, s') \<Rightarrow> parse_items ls s' (c\<lparr>cl_minute := n\<rparr>) | None \<Rightarrow> None)"
| "parse_items (LSecond # ls) s c =
     (case num_in True 0 59 s of
        Some (n, s') \<Rightarrow>
          (case fraction s' of
             Some (ns, s'') \<Rightarrow> parse_items ls s'' (c\<lparr>cl_second := n, cl_nsec := ns\<rparr>)
           | None \<Rightarrow> None)
      | None \<Rightarrow> None)"

definition days_in :: "int \<Rightarrow> int \<Rightarrow> int" where
  "days_in y m = days_before_month (leap y) (m + 1) - days_before_month (leap y) m"

definition in_location :: "int \<Rightarrow> Time" where
  "in_location loc = \<lparr>tsec = 0, tnsec = 0, toff = loc\<rparr>"

definition ParseInLocation :: "layout_item list \<Rightarrow> string \<Rightarrow> int \<Rightarrow> Time option" where
  "ParseInLocation layout s loc =
     (case parse_items layout s clock0 of
        None \<Rightarrow> None
      | Some c \<Rightarrow>
          if cl_day c < 1 \<or> days_in (cl_year c) (cl_month c) < cl_day c then None
          else Some ((tDate (in_location loc) (cl_year c) (cl_month c) (cl_day c) (cl_hour c) (cl_minute c) (cl_second c))
                       \<lparr>tnsec := cl_nsec c\<rparr>))"

definition DATE_FORM :: "layout_item list" where
  "DATE_FORM = [LYear, LChar (CHR ''-''), LMonth, LChar (CHR ''-''), LDay]"
definition DATE_FORM1 :: "layout_item list" where
  "DATE_FORM1 = [LYear, LMonth, LDay]"
definition DATE_FORM2 :: "layout_item list" where
  "DATE_FORM2 = [LYear, LMonth, LDay, LHour]"
definition DATE_FORM3 :: "layout_item list" where
  "DATE_FORM3 = [LYear, LMonth, LDay, LHour, LMinute]"
definition DATE_FORM4 :: "layout_item list" where
  "DATE_FORM4 = [LYear, LMonth, LDay, LHour, LMinute, LSecond]"

definition TIME_FORM :: "layout_item list" where
  "TIME_FORM = DATE_FORM4"

section \<open>Time ranges and pages\<close>

text \<open>The layout and the step in nanoseconds, by the length of the text.\<close>

definition range_format :: "string \<Rightarrow> layout_item list \<times> int" where
  "range_format s =
     (if length s = 10 then
        (if CHR ''-'' \<in> set s \<and> hd s \<noteq> CHR ''-'' then (DATE_FORM, 86400000000000 - 1) else (DATE_FORM2, 3600000000000 - 1))
      else if length s = 8 then (DATE_FORM1, 86400000000000 - 1)
      else if length s = 12 then (DATE_FORM3, 60000000000 - 1)
      else if length s = 14 then (DATE_FORM4, 1000000000 - 1)
      else ([], 0))"

definition getTimeRange :: "int \<Rightarrow> Time \<Rightarrow> string \<Rightarrow> string \<Rightarrow> Time \<times> Time" where
  "getTimeRange loc now s e =
     (let (format, step) = range_format s
      in case ParseInLocation format s loc of
           None \<Rightarrow> (zeroTime, zeroTime)
         | Some ts \<Rightarrow>
             (ts,
              if e \<noteq> [] then
                (case ParseInLocation format e loc of
                   Some te \<Rightarrow> if After te ts then tAdd te step else tAdd ts step
                 | None \<Rightarrow> tAdd ts step)
              else
                (let t = now\<lparr>toff := loc\<rparr>
                 in (tDate t (tYear t) (tMonth t) (tDay t) 23 59 59)\<lparr>tnsec := 999000000\<rparr>)))"

record Pagination =
  Page :: int
  PerPage :: int
  POffset :: int

text \<open>\<open>MustInt\<close> of a string.\<close>

definition MustInt_string :: "string \<Rightarrow> int" where
  "MustInt_string s = atoi_value s"

definition NewPagination :: "string \<Rightarrow> string \<Rightarrow> Pagination" where
  "NewPagination pp p =
     (let perPage = MustInt_string pp;
          page = MustInt_string p;
          page' = (if page \<le> 0 then 1 else page);
          perPage' = (if perPage \<le> 0 then 100 else if 1000 < perPage then 1000 else perPage)
      in \<lparr>Page = page', PerPage = perPage', POffset = wrap64 (wrap64 (page' - 1) * perPage')\<rparr>)"

section \<open>The state of a request\<close>

record RestState =
  heap :: "Condition list"
  e_conds :: "nat list option"
  e_timerange :: "(Time \<times> Time) option"
  e_orderby :: "(string \<times> string) option"
  e_fields :: "string list option"
  e_pagination :: "Pagination option"
  e_pretty :: bool
  r_conditions :: "nat list"
  r_pagination :: "Pagination option"
  r_fields :: "string list"

definition new_request :: RestState where
  "new_request = \<lparr>heap = [], e_conds = None, e_timerange = None, e_orderby = None, e_fields = None,
     e_pagination = None, e_pretty = False, r_conditions = [], r_pagination = None, r_fields = []\<rparr>"

text \<open>Taking the address of a new condition.\<close>

definition alloc :: "Condition option \<Rightarrow> RestState \<Rightarrow> nat option \<times> RestState" where
  "alloc con st =
     (case con of
        None \<Rightarrow> (None, st)
      | Some c \<Rightarrow> (Some (length (heap st)), st\<lparr>heap := heap st @ [c]\<rparr>))"

definition GetParamConds :: "RestState \<Rightarrow> nat list" where
  "GetParamConds st = (case e_conds st of Some cs \<Rightarrow> cs | None \<Rightarrow> [])"

text \<open>\<open>SetParamConds\<close> reads the field of its argument first; a nil one panics.\<close>

definition merge_into :: "Condition \<Rightarrow> nat list \<Rightarrow> Condition list \<Rightarrow> Condition list" where
  "merge_into con ps h =
     foldl (\<lambda>h p. if k_field (h ! p) = k_field con then h[p := Merge (h ! p) (Some con)] else h) h ps"

definition SetParamConds :: "Condition option \<Rightarrow> RestState \<Rightarrow> RestState outcome" where
  "SetParamConds con st =
     (case con of
        None \<Rightarrow> Panic NilDereference
      | Some c \<Rightarrow>
          let conds = GetParamConds st
          in if list_ex (\<lambda>p. k_field (heap st ! p) = k_field c) conds
             then Ret (st\<lparr>heap := merge_into c conds (heap st), e_conds := Some conds\<rparr>)
             else Ret (st\<lparr>heap := heap st @ [c], e_conds := Some (conds @ [length (heap st)])\<rparr>))"

definition parseParams :: "string list \<Rightarrow> string list" where
  "parseParams v = filter (\<lambda>vs. vs \<noteq> []) v"

definition getCTypeByPrefix :: "char \<Rightarrow> ctype" where
  "getCTypeByPrefix p =
     (if p = CHR ''!'' then CNot else if p = CHR ''~'' then CLike
      else if p = CHR ''>'' then CGt else if p = CHR ''<'' then CLt else CIs)"

text \<open>\<open>strings.SplitN(s, sep, 2)\<close>: the part before the separator and, if there is one, the part after it.\<close>

definition split2 :: "char \<Rightarrow> string \<Rightarrow> string \<times> string option" where
  "split2 sep s =
     (takeWhile (\<lambda>c. c \<noteq> sep) s,
      if sep \<in> set s then Some (tl (dropWhile (\<lambda>c. c \<noteq> sep) s)) else None)"

definition setTimeRangeFromDate :: "int \<Rightarrow> Time \<Rightarrow> string list \<Rightarrow> RestState \<Rightarrow> RestState" where
  "setTimeRangeFromDate loc now p st =
     (let (s, e) =
        (if 1 < length p then (p ! 0, p ! 1)
         else if 0 < length p then
           (case split2 (CHR '','') (p ! 0) of (s, Some e) \<Rightarrow> (s, e) | (s, None) \<Rightarrow> (s, []))
         else ([], []))
      in st\<lparr>e_timerange := Some (getTimeRange loc now s e)\<rparr>)"

definition setTimeRangeFromStartEnd :: "int \<Rightarrow> Time \<Rightarrow> string \<Rightarrow> string \<Rightarrow> RestState \<Rightarrow> RestState" where
  "setTimeRangeFromStartEnd loc now s e st =
     (if s = [] then st
      else if e \<noteq> [] \<and> length s \<noteq> length e then st
      else st\<lparr>e_timerange := Some (getTimeRange loc now s e)\<rparr>)"

definition setOrderBy :: "string list \<Rightarrow> RestState \<Rightarrow> RestState" where
  "setOrderBy p st =
     (if p = [] then st\<lparr>e_orderby := Some ([], [])\<rparr>
      else case split2 (CHR '','') (hd p) of
        (field, rest) \<Rightarrow>
          st\<lparr>e_orderby := Some (field,
             case rest of Some d \<Rightarrow> if to_upper d = ''ASC'' then ''ASC'' else ''DESC'' | None \<Rightarrow> ''DESC'')\<rparr>)"

section \<open>The parameters of a request\<close>

text \<open>A condition as a value inside another one: its field and what it is compared with by equality.\<close>

definition nested :: "ctype \<Rightarrow> string \<Rightarrow> rvalue \<Rightarrow> rvalue" where
  "nested ct k cv = RCond k (if ct = CIs then cv else RNil)"

definition param_value :: "string list \<Rightarrow> rvalue" where
  "param_value v =
     (if 1 < length v then RStrings v
      else if CHR '','' \<in> set (hd v) then RStrings (split_on (CHR '','') (hd v))
      else RString (hd v))"

fun set_ors :: "ctype \<Rightarrow> string \<Rightarrow> rvalue \<Rightarrow> string list \<Rightarrow> RestState \<Rightarrow> RestState outcome" where
  "set_ors ct k cv [] st = Ret st"
| "set_ors ct k cv (f # fs) st =
     (if f \<noteq> [] then
        bind_outcome (NewCondition COr f [nested ct k cv]) (\<lambda>con.
        bind_outcome (SetParamConds con st) (\<lambda>st'. set_ors ct k cv fs st'))
      else set_ors ct k cv fs st)"

text \<open>The key without the prefix that gives the type of the condition, and one underscore. A key with a
  dot asks for a field of another table.\<close>

definition key_type :: "string \<Rightarrow> ctype" where
  "key_type key = getCTypeByPrefix (hd key)"

definition condition_key :: "string \<Rightarrow> string" where
  "condition_key key =
     (let k = (if key_type key \<noteq> CIs then tl key else key) in if has_prefix k ''_'' then tl k else k)"

definition joined :: "ctype \<Rightarrow> string \<Rightarrow> rvalue \<Rightarrow> string \<times> rvalue \<times> ctype" where
  "joined ct k cv =
     (case split2 (CHR ''.'') k of
        (t, Some f) \<Rightarrow> if t \<noteq> [] \<and> f \<noteq> [] then (t, nested ct f cv, CJoin) else (k, cv, ct)
      | (t, None) \<Rightarrow> (k, cv, ct))"

text \<open>The default case of the switch: every other parameter is a condition.\<close>

definition set_condition :: "string \<Rightarrow> string list \<Rightarrow> RestState \<Rightarrow> RestState outcome" where
  "set_condition key v st =
     (if key = [] then Panic IndexOutOfRange
      else
        let cv = param_value v; ct = key_type key; k = condition_key key
        in if CHR ''|'' \<in> set k then set_ors ct k cv (split_on (CHR ''|'') k) st
           else (case joined ct k cv of
              (k', cv', ct') \<Rightarrow> bind_outcome (NewCondition ct' k' [cv']) (\<lambda>con. SetParamConds con st)))"

record Init =
  i_st :: RestState
  i_p :: string
  i_pp :: string

definition init_param :: "int \<Rightarrow> Time \<Rightarrow> string \<times> string list \<Rightarrow> Init \<Rightarrow> Init outcome" where
  "init_param loc now kv a =
     (let (k, vs) = kv;
          st = (if k = ''pretty'' then (i_st a)\<lparr>e_pretty := True\<rparr> else i_st a);
          v = parseParams vs
      in if v = [] then Ret (a\<lparr>i_st := st\<rparr>)
         else if k = ''start'' \<or> k = ''end'' then Ret (a\<lparr>i_st := st\<rparr>)
         else if k = ''date'' then Ret (a\<lparr>i_st := setTimeRangeFromDate loc now v st\<rparr>)
         else if k = ''orderby'' then Ret (a\<lparr>i_st := setOrderBy v st\<rparr>)
         else if k = ''fields'' then
           Ret (a\<lparr>i_st := st\<lparr>e_fields := Some
             (if 1 < length v then v
              else if CHR '','' \<in> set (hd v) then split_on (CHR '','') (hd v) else v)\<rparr>\<rparr>)
         else if k = ''per_page'' then Ret (a\<lparr>i_st := st, i_pp := hd v\<rparr>)
         else if k = ''page'' then Ret (a\<lparr>i_st := st, i_p := hd v\<rparr>)
         else bind_outcome (set_condition k v st) (\<lambda>st'. Ret (a\<lparr>i_st := st'\<rparr>)))"

fun init_params :: "int \<Rightarrow> Time \<Rightarrow> (string \<times> string list) list \<Rightarrow> Init \<Rightarrow> Init outcome" where
  "init_params loc now [] a = Ret a"
| "init_params loc now (kv # kvs) a = bind_outcome (init_param loc now kv a) (init_params loc now kvs)"

text \<open>\<open>c.QueryParam\<close>: the first value of a key.\<close>

definition query_param :: "string \<Rightarrow> (string \<times> string list) list \<Rightarrow> string" where
  "query_param k params =
     (case map_of params k of Some (v # vs) \<Rightarrow> v | _ \<Rightarrow> [])"

text \<open>The part of \<open>Init\<close> that reads the query string.\<close>

definition Init_query :: "int \<Rightarrow> Time \<Rightarrow> (string \<times> string list) list \<Rightarrow> RestState outcome" where
  "Init_query loc now params =
     (let st = setTimeRangeFromStartEnd loc now (query_param ''start'' params) (query_param ''end'' params) new_request
      in bind_outcome (init_params loc now params \<lparr>i_st = st, i_p = [], i_pp = []\<rparr>) (\<lambda>a.
           Ret ((i_st a)\<lparr>e_pagination := Some (NewPagination (i_pp a) (i_p a))\<rparr>)))"

section \<open>Conditions on the columns of a model\<close>

definition GetCondition :: "Condition list \<Rightarrow> nat option list \<Rightarrow> string \<Rightarrow> nat option" where
  "GetCondition h cs k =
     (case filter (\<lambda>c. case c of Some p \<Rightarrow> k_field (h ! p) = k | None \<Rightarrow> False) cs of
        [] \<Rightarrow> None
      | c # _ \<Rightarrow> c)"

definition parse_time :: "int \<Rightarrow> rvalue \<Rightarrow> rvalue" where
  "parse_time loc v =
     (case v of
        RString s \<Rightarrow> (case ParseInLocation TIME_FORM s loc of Some t \<Rightarrow> RTime False t | None \<Rightarrow> v)
      | _ \<Rightarrow> v)"

definition ParseCondition :: "int \<Rightarrow> string \<Rightarrow> Condition \<Rightarrow> Condition" where
  "ParseCondition loc typ con =
     (if typ = ''*time.Time''
      then con\<lparr>k_is := parse_time loc (k_is con), k_not := parse_time loc (k_not con),
               k_gt := parse_time loc (k_gt con), k_lt := parse_time loc (k_lt con)\<rparr>
      else con)"

definition add_condition :: "nat \<Rightarrow> RestState \<Rightarrow> RestState" where
  "add_condition p st = st\<lparr>r_conditions := r_conditions st @ [p]\<rparr>"

definition on_heap :: "nat \<Rightarrow> (Condition \<Rightarrow> Condition) \<Rightarrow> RestState \<Rightarrow> RestState" where
  "on_heap p f st = st\<lparr>heap := (heap st)[p := f (heap st ! p)]\<rparr>"

text \<open>The five tests of the loop over the columns, in their order.\<close>

definition set_join :: "nat option list \<Rightarrow> StructColumn \<Rightarrow> RestState \<Rightarrow> RestState" where
  "set_join cs col st =
     (case GetCondition (heap st) cs (col_ext col) of
        Some p \<Rightarrow> if k_join (heap st ! p) \<noteq> RNil then add_condition p st else st
      | None \<Rightarrow> st)"

definition set_raw :: "nat option list \<Rightarrow> StructColumn \<Rightarrow> RestState \<Rightarrow> RestState" where
  "set_raw cs col st =
     (case GetCondition (heap st) cs (col_tag col) of
        Some p \<Rightarrow> if k_raw (heap st ! p) \<noteq> [] then add_condition p st else st
      | None \<Rightarrow> st)"

definition range_direct :: "int \<Rightarrow> Time \<Rightarrow> nat \<Rightarrow> RestState \<Rightarrow> RestState" where
  "range_direct loc now p st =
     (if k_range (heap st ! p) \<noteq> RNil then add_condition p st
      else case k_is (heap st ! p) of
        RStrings vs \<Rightarrow>
          if 1 < length vs then
            (let (s, e) = getTimeRange loc now (vs ! 0) (vs ! 1)
             in add_condition p (on_heap p (\<lambda>c. c\<lparr>k_is := RNil, k_range := RTimeRange True s e\<rparr>) st))
          else st
      | _ \<Rightarrow> st)"

definition range_by_name :: "nat option list \<Rightarrow> StructColumn \<Rightarrow> RestState \<Rightarrow> RestState" where
  "range_by_name cs col st =
     (case GetCondition (heap st) cs ''TR'' of
        Some p \<Rightarrow>
          if k_is (heap st ! p) \<noteq> RNil
          then add_condition p (on_heap p (\<lambda>c. c\<lparr>k_field := col_tag col\<rparr>) st) else st
      | None \<Rightarrow> st)"

definition set_range :: "int \<Rightarrow> Time \<Rightarrow> nat option list \<Rightarrow> StructColumn \<Rightarrow> RestState \<Rightarrow> RestState" where
  "set_range loc now cs col st =
     (if Contains (col_extopts col) ''TR'' then
        (case GetCondition (heap st) cs (col_tag col) of
           Some p \<Rightarrow>
             if k_range (heap st ! p) \<noteq> RNil \<or> k_is (heap st ! p) \<noteq> RNil
             then range_direct loc now p st else range_by_name cs col st
         | None \<Rightarrow> range_by_name cs col st)
      else st)"

definition set_order :: "nat option list \<Rightarrow> StructColumn \<Rightarrow> RestState \<Rightarrow> RestState" where
  "set_order cs col st =
     (if Contains (col_extopts col) ''O'' then
        (case GetCondition (heap st) cs ''O'' of
           Some p \<Rightarrow>
             if k_order (heap st ! p) \<noteq> RNil
             then add_condition p (on_heap p (\<lambda>c. c\<lparr>k_field := col_tag col\<rparr>) st) else st
         | None \<Rightarrow> st)
      else st)"

definition conditional :: "StructColumn \<Rightarrow> bool" where
  "conditional col \<longleftrightarrow> Contains (col_opts col) ''pk'' \<or> Contains (col_opts col) ''uk'' \<or>
     Contains (col_opts col) ''k'' \<or> Contains (col_extopts col) ''C''"

definition compares :: "Condition \<Rightarrow> bool" where
  "compares c \<longleftrightarrow> k_is c \<noteq> RNil \<or> k_not c \<noteq> RNil \<or> k_gt c \<noteq> RNil \<or> k_lt c \<noteq> RNil \<or> k_like c \<noteq> RNil \<or>
     k_join c \<noteq> RNil \<or> k_or c \<noteq> RNil"

definition set_compare :: "int \<Rightarrow> nat option list \<Rightarrow> StructColumn \<Rightarrow> RestState \<Rightarrow> RestState" where
  "set_compare loc cs col st =
     (if conditional col then
        (case GetCondition (heap st) cs (col_tag col) of
           Some p \<Rightarrow>
             if compares (heap st ! p)
             then add_condition p (on_heap p (ParseCondition loc (col_type col)) st) else st
         | None \<Rightarrow> st)
      else st)"

definition set_column :: "int \<Rightarrow> Time \<Rightarrow> nat option list \<Rightarrow> StructColumn \<Rightarrow> RestState \<Rightarrow> RestState" where
  "set_column loc now cs col st =
     set_compare loc cs col (set_order cs col (set_range loc now cs col (set_raw cs col (set_join cs col st))))"

text \<open>\<open>SetConditions\<close> of a model with these columns.\<close>

definition SetConditions :: "int \<Rightarrow> Time \<Rightarrow> StructColumn list \<Rightarrow> nat option list \<Rightarrow> RestState \<Rightarrow> RestState" where
  "SetConditions loc now cols cs st = foldl (\<lambda>st col. set_column loc now cs col st) st cols"

definition SetNew :: "int \<Rightarrow> Time \<Rightarrow> StructColumn list \<Rightarrow> Condition option \<Rightarrow> RestState \<Rightarrow> RestState" where
  "SetNew loc now cols con st =
     (let (p, st') = alloc con st in SetConditions loc now cols [p] st')"

text \<open>\<open>SetFields\<close>: no argument leaves a nil list.\<close>

definition set_request_fields :: "RestState \<Rightarrow> RestState" where
  "set_request_fields st = (case e_fields st of Some fs \<Rightarrow> st\<lparr>r_fields := fs\<rparr> | None \<Rightarrow> st)"

definition set_param_conditions :: "int \<Rightarrow> Time \<Rightarrow> StructColumn list \<Rightarrow> RestState \<Rightarrow> RestState" where
  "set_param_conditions loc now cols st = SetConditions loc now cols (map Some (GetParamConds st)) st"

definition new_or_nil :: "ctype \<Rightarrow> string \<Rightarrow> rvalue \<Rightarrow> Condition option" where
  "new_or_nil typ f v = (case NewCondition typ f [v] of Ret c \<Rightarrow> c | Panic _ \<Rightarrow> None)"

definition set_range_condition :: "int \<Rightarrow> Time \<Rightarrow> StructColumn list \<Rightarrow> ctype \<Rightarrow> RestState \<Rightarrow> RestState" where
  "set_range_condition loc now cols typ st =
     (case e_timerange st of
        Some (s, e) \<Rightarrow> SetNew loc now cols (new_or_nil typ ''TR'' (RTimeRange True s e)) st
      | None \<Rightarrow> st)"

definition PreGet :: "int \<Rightarrow> Time \<Rightarrow> StructColumn list \<Rightarrow> string \<Rightarrow> string \<Rightarrow> RestState \<Rightarrow> RestState" where
  "PreGet loc now cols pk rowkey st =
     (let st1 = (if rowkey \<noteq> [] then SetNew loc now cols (new_or_nil CIs pk (RString rowkey)) st else st);
          st2 = set_range_condition loc now cols CIs st1
      in set_request_fields (set_param_conditions loc now cols st2))"

definition PreSearch :: "int \<Rightarrow> Time \<Rightarrow> StructColumn list \<Rightarrow> RestState \<Rightarrow> RestState" where
  "PreSearch loc now cols st =
     (let st0 = (case e_pagination st of Some p \<Rightarrow> st\<lparr>r_pagination := Some p\<rparr> | None \<Rightarrow> st);
          st1 = (case e_orderby st0 of
                   Some (f, d) \<Rightarrow> SetNew loc now cols (new_or_nil COrder ''O'' (ROrderBy True f d)) st0
                 | None \<Rightarrow> st0);
          st2 = set_range_condition loc now cols CRange st1
      in set_request_fields (set_param_conditions loc now cols st2))"

definition PreCheck :: "int \<Rightarrow> Time \<Rightarrow> StructColumn list \<Rightarrow> RestState \<Rightarrow> RestState" where
  "PreCheck loc now cols st = set_param_conditions loc now cols (set_range_condition loc now cols CIs st)"


section \<open>Pages\<close>

lemma MustInt_range: "- (2 ^ 63) \<le> MustInt_string s \<and> MustInt_string s < 2 ^ 63"
  unfolding MustInt_string_def by (rule atoi_value_range)

lemma NewPagination_page:
  "1 \<le> Page (NewPagination pp p) \<and> Page (NewPagination pp p) < 2 ^ 63"
  using MustInt_range [of p] by (simp add: NewPagination_def Let_def)

lemma NewPagination_perPage:
  "1 \<le> PerPage (NewPagination pp p) \<and> PerPage (NewPagination pp p) \<le> 1000"
  by (simp add: NewPagination_def Let_def)

lemma NewPagination_offset:
  "POffset (NewPagination pp p) = wrap64 ((Page (NewPagination pp p) - 1) * PerPage (NewPagination pp p))"
proof -
  have "wrap64 (Page (NewPagination pp p) - 1) = Page (NewPagination pp p) - 1"
    using NewPagination_page [of pp p] by (intro wrap64_id) simp_all
  then show ?thesis by (simp add: NewPagination_def Let_def)
qed


lemma NewPagination_exact:
  "POffset (NewPagination pp p) = (Page (NewPagination pp p) - 1) * PerPage (NewPagination pp p)
    \<longleftrightarrow> (Page (NewPagination pp p) - 1) * PerPage (NewPagination pp p) < 2 ^ 63"
proof -
  let ?x = "(Page (NewPagination pp p) - 1) * PerPage (NewPagination pp p)"
  have "0 \<le> ?x" using NewPagination_page [of pp p] NewPagination_perPage [of pp p] by simp
  then have "wrap64 ?x = ?x \<longleftrightarrow> ?x < 2 ^ 63" using wrap64_id [of ?x] wrap64_range [of ?x] by auto
  then show ?thesis by (simp add: NewPagination_offset)
qed

text \<open>The last page that can be asked for starts before the first row.\<close>

lemma page_overflow: "POffset (NewPagination ''1000'' ''9223372036854775807'') = - 2000"
proof -
  have "atoi ''9223372036854775807'' = Some 9223372036854775807" "atoi ''1000'' = Some 1000"
    by (simp_all add: atoi_def has_prefix_Cons parse_dec_def dec_val_def digit_val_def is_digit_def)
  then have "MustInt_string ''9223372036854775807'' = 9223372036854775807" "MustInt_string ''1000'' = 1000"
    unfolding MustInt_string_def by (simp_all add: atoi_value_Some)
  then show ?thesis unfolding NewPagination_def Let_def by (simp add: wrap64_def)
qed

section \<open>The conditions of a request\<close>

text \<open>Pointers to conditions with pairwise different fields; the model has no conditions yet.\<close>

definition valid_conds :: "RestState \<Rightarrow> bool" where
  "valid_conds st \<longleftrightarrow> (\<forall>p \<in> set (GetParamConds st). p < length (heap st))
     \<and> distinct (map (\<lambda>p. k_field (heap st ! p)) (GetParamConds st)) \<and> r_conditions st = []"

lemma Merge_field: "k_field (Merge c oc) = k_field c"
  by (simp add: Merge_def split: option.split)

lemma merge_at_field: "q < length h \<Longrightarrow> k_field (h[a := Merge (h ! a) oc] ! q) = k_field (h ! q)"
  by (cases "a = q") (simp_all add: Merge_field)

lemma merge_into_keeps:
  "length (merge_into c ps h) = length h \<and> (q < length h \<longrightarrow> k_field (merge_into c ps h ! q) = k_field (h ! q))"
  by (induction ps arbitrary: h) (auto simp: merge_into_def merge_at_field)

lemma SetParamConds_valid:
  assumes "SetParamConds con st = Ret st'" "valid_conds st"
  shows "valid_conds st'"
proof -
  obtain c where c: "con = Some c" using assms(1) by (cases con) (auto simp: SetParamConds_def)
  show ?thesis
  proof (cases "list_ex (\<lambda>p. k_field (heap st ! p) = k_field c) (GetParamConds st)")
    case True
    then have "st' = st\<lparr>heap := merge_into c (GetParamConds st) (heap st), e_conds := Some (GetParamConds st)\<rparr>"
      using assms(1) by (simp add: SetParamConds_def c Let_def)
    then have st': "heap st' = merge_into c (GetParamConds st) (heap st)" "GetParamConds st' = GetParamConds st"
      "r_conditions st' = r_conditions st"
      by (simp_all add: GetParamConds_def)
    have m: "map (\<lambda>p. k_field (merge_into c (GetParamConds st) (heap st) ! p)) (GetParamConds st)
        = map (\<lambda>p. k_field (heap st ! p)) (GetParamConds st)"
      using assms(2) merge_into_keeps by (auto simp: valid_conds_def)
    show ?thesis
      using assms(2) merge_into_keeps unfolding valid_conds_def st' m by simp
  next
    case False
    then have "st' = st\<lparr>heap := heap st @ [c], e_conds := Some (GetParamConds st @ [length (heap st)])\<rparr>"
      using assms(1) by (simp add: SetParamConds_def c Let_def)
    then have st': "heap st' = heap st @ [c]" "GetParamConds st' = GetParamConds st @ [length (heap st)]"
      "r_conditions st' = r_conditions st"
      by (simp_all add: GetParamConds_def)
    have m: "map (\<lambda>p. k_field ((heap st @ [c]) ! p)) (GetParamConds st) = map (\<lambda>p. k_field (heap st ! p)) (GetParamConds st)"
      using assms(2) by (auto simp: valid_conds_def nth_append)
    show ?thesis
      using assms(2) False unfolding valid_conds_def st' map_append m by (auto simp: list_ex_iff less_Suc_eq)
  qed
qed

lemma valid_conds_cong:
  "heap st' = heap st \<Longrightarrow> e_conds st' = e_conds st \<Longrightarrow> r_conditions st' = r_conditions st
    \<Longrightarrow> valid_conds st' = valid_conds st"
  by (simp add: valid_conds_def GetParamConds_def)

lemma bind_outcome_RetE:
  assumes "bind_outcome m f = Ret y"
  obtains x where "m = Ret x" "f x = Ret y"
  using assms by (cases m) auto

lemma set_ors_valid: "set_ors ct k cv fs st = Ret st' \<Longrightarrow> valid_conds st \<Longrightarrow> valid_conds st'"
  by (induction ct k cv fs st rule: set_ors.induct)
    (auto split: if_splits elim!: bind_outcome_RetE intro: SetParamConds_valid)

lemma set_condition_valid:
  assumes "set_condition key v st = Ret st'" "valid_conds st"
  shows "valid_conds st'"
proof -
  obtain k cv ct where j: "joined (key_type key) (condition_key key) (param_value v) = (k, cv, ct)"
    by (metis prod_cases3)
  show ?thesis
    using assms
    by (auto simp: set_condition_def Let_def j split: if_splits elim!: bind_outcome_RetE
        intro: SetParamConds_valid set_ors_valid)
qed


lemma setTimeRange_same [simp]:
  "heap (setTimeRangeFromDate loc now v st) = heap st"
  "e_conds (setTimeRangeFromDate loc now v st) = e_conds st"
  "r_conditions (setTimeRangeFromDate loc now v st) = r_conditions st"
  "heap (setTimeRangeFromStartEnd loc now s e st) = heap st"
  "e_conds (setTimeRangeFromStartEnd loc now s e st) = e_conds st"
  "r_conditions (setTimeRangeFromStartEnd loc now s e st) = r_conditions st"
  by (simp_all add: setTimeRangeFromDate_def setTimeRangeFromStartEnd_def split: prod.split)

lemma setOrderBy_same [simp]:
  "heap (setOrderBy v st) = heap st" "e_conds (setOrderBy v st) = e_conds st"
  "r_conditions (setOrderBy v st) = r_conditions st"
  by (simp_all add: setOrderBy_def split: prod.split)

text \<open>One parameter: either the conditions stay as they are, or it is one of them.\<close>

definition reserved :: "string list" where
  "reserved = [''start'', ''end'', ''date'', ''orderby'', ''fields'', ''per_page'', ''page'']"

lemma init_param_cases:
  "if parseParams vs = [] \<or> k \<in> set reserved
   then \<exists>a'. init_param loc now (k, vs) a = Ret a' \<and> heap (i_st a') = heap (i_st a) \<and> e_conds (i_st a') = e_conds (i_st a)
     \<and> r_conditions (i_st a') = r_conditions (i_st a)
   else \<exists>st. heap st = heap (i_st a) \<and> e_conds st = e_conds (i_st a) \<and> r_conditions st = r_conditions (i_st a) \<and>
     init_param loc now (k, vs) a = bind_outcome (set_condition k (parseParams vs) st) (\<lambda>st'. Ret (a\<lparr>i_st := st'\<rparr>))"
proof -
  let ?st = "if k = ''pretty'' then (i_st a)\<lparr>e_pretty := True\<rparr> else i_st a"
  have same: "heap ?st = heap (i_st a)" "e_conds ?st = e_conds (i_st a)" "r_conditions ?st = r_conditions (i_st a)" by simp_all
  show ?thesis
  proof (cases "parseParams vs = [] \<or> k \<in> set reserved")
    case True
    then show ?thesis using same by (auto simp: init_param_def Let_def reserved_def)
  next
    case False
    then have "init_param loc now (k, vs) a
        = bind_outcome (set_condition k (parseParams vs) ?st) (\<lambda>st'. Ret (a\<lparr>i_st := st'\<rparr>))"
      by (simp add: init_param_def Let_def reserved_def)
    with False same show ?thesis by (auto intro: exI [of _ ?st])
  qed
qed


lemma NewCondition_some:
  "f \<noteq> [] \<Longrightarrow> ct \<noteq> CRaw \<Longrightarrow> \<exists>c. NewCondition ct f [v] = Ret (Some c) \<and> k_field c = f"
  by (cases ct) (simp_all add: NewCondition_def empty_condition_def)

lemma SetParamConds_some: "\<exists>st'. SetParamConds (Some c) st = Ret st'"
  by (simp add: SetParamConds_def Let_def)

lemma key_type_not: "key_type k \<noteq> CRaw" "key_type k \<noteq> CJoin" "key_type k \<noteq> COr"
  by (simp_all add: key_type_def getCTypeByPrefix_def)

lemma set_ors_returns: "\<exists>st'. set_ors ct k cv fs st = Ret st'"
proof (induction fs arbitrary: st)
  case (Cons f fs)
  show ?case
  proof (cases "f = []")
    case False
    obtain c where "NewCondition COr f [nested ct k cv] = Ret (Some c)"
      using NewCondition_some [OF False, of COr "nested ct k cv"] by auto
    with Cons SetParamConds_some [of c st] False show ?thesis by auto
  qed (use Cons in simp)
qed simp

lemma joined_returns:
  assumes "joined ct k cv = (k', cv', ct')" "k \<noteq> []" "ct \<noteq> CRaw"
  shows "k' \<noteq> [] \<and> ct' \<noteq> CRaw"
  using assms by (auto simp: joined_def split: prod.splits option.splits if_splits)

lemma set_condition_returns:
  "(\<exists>st'. set_condition key v st = Ret st') \<longleftrightarrow> key \<noteq> [] \<and> condition_key key \<noteq> []"
proof (cases "key = []")
  case False
  obtain k cv ct where j: "joined (key_type key) (condition_key key) (param_value v) = (k, cv, ct)"
    by (metis prod_cases3)
  show ?thesis
  proof (cases "condition_key key = []")
    case True
    then have "k = []" using j by (auto simp: joined_def split2_def)
    then have "set_condition key v st = Panic NilDereference"
      using True False j by (simp add: set_condition_def Let_def NewCondition_def SetParamConds_def)
    then show ?thesis using True by simp
  next
    case ne: False
    then obtain c where "NewCondition ct k [cv] = Ret (Some c)"
      using joined_returns [OF j ne key_type_not(1)] NewCondition_some by metis
    then show ?thesis
      using False ne j set_ors_returns SetParamConds_some by (auto simp: set_condition_def Let_def)
  qed
qed (simp add: set_condition_def)

text \<open>A parameter that the loop can handle.\<close>

definition good_param :: "string \<times> string list \<Rightarrow> bool" where
  "good_param kv \<longleftrightarrow> parseParams (snd kv) = [] \<or> fst kv \<in> set reserved \<or> fst kv \<noteq> [] \<and> condition_key (fst kv) \<noteq> []"

lemma init_param_returns: "(\<exists>a'. init_param loc now kv a = Ret a') \<longleftrightarrow> good_param kv"
proof (cases kv)
  case (Pair k vs)
  show ?thesis
  proof (cases "parseParams vs = [] \<or> k \<in> set reserved")
    case True
    then show ?thesis using init_param_cases [where k = k and vs = vs and a = a] by (auto simp: Pair good_param_def)
  next
    case False
    then obtain st where "init_param loc now (k, vs) a
        = bind_outcome (set_condition k (parseParams vs) st) (\<lambda>st'. Ret (a\<lparr>i_st := st'\<rparr>))"
      using init_param_cases [where k = k and vs = vs and a = a] by auto
    then show ?thesis
      using False set_condition_returns [of k "parseParams vs" st]
      by (cases "set_condition k (parseParams vs) st") (auto simp: Pair good_param_def)
  qed
qed

lemma init_params_returns: "(\<exists>a'. init_params loc now kvs a = Ret a') \<longleftrightarrow> (\<forall>kv \<in> set kvs. good_param kv)"
proof (induction kvs arbitrary: a)
  case (Cons kv kvs)
  show ?case
  proof (cases "init_param loc now kv a")
    case (Ret a1)
    then have "good_param kv" using init_param_returns [of loc now kv a] by auto
    then show ?thesis using Ret Cons [of a1] by simp
  next
    case (Panic p)
    then have "\<not> good_param kv" using init_param_returns [of loc now kv a] by auto
    then show ?thesis using Panic by simp
  qed
qed simp

lemma init_param_valid:
  assumes "init_param loc now kv a = Ret a'" "valid_conds (i_st a)"
  shows "valid_conds (i_st a')"
proof (cases kv)
  case (Pair k vs)
  show ?thesis
  proof (cases "parseParams vs = [] \<or> k \<in> set reserved")
    case True
    then show ?thesis
      using init_param_cases [where k = k and vs = vs and a = a and loc = loc and now = now] assms
        valid_conds_cong [of "i_st a'" "i_st a"]
      by (auto simp: Pair)
  next
    case False
    then obtain st where st: "heap st = heap (i_st a)" "e_conds st = e_conds (i_st a)"
      "r_conditions st = r_conditions (i_st a)" "init_param loc now (k, vs) a
        = bind_outcome (set_condition k (parseParams vs) st) (\<lambda>st'. Ret (a\<lparr>i_st := st'\<rparr>))"
      using init_param_cases [where k = k and vs = vs and a = a] by auto
    then obtain st' where "set_condition k (parseParams vs) st = Ret st'" "a' = a\<lparr>i_st := st'\<rparr>"
      using assms(1) by (auto simp: Pair elim!: bind_outcome_RetE)
    then show ?thesis
      using set_condition_valid valid_conds_cong [OF st(1,2,3)] assms(2) by simp
  qed
qed

lemma init_params_valid:
  "init_params loc now kvs a = Ret a' \<Longrightarrow> valid_conds (i_st a) \<Longrightarrow> valid_conds (i_st a')"
  by (induction kvs arbitrary: a) (auto elim!: bind_outcome_RetE intro: init_param_valid)

lemma Init_query_valid:
  assumes "Init_query loc now params = Ret st"
  shows "valid_conds st"
proof -
  let ?a = "\<lparr>i_st = setTimeRangeFromStartEnd loc now (query_param ''start'' params) (query_param ''end'' params) new_request,
    i_p = [], i_pp = []\<rparr>"
  obtain a where a: "init_params loc now params ?a = Ret a"
    "st = (i_st a)\<lparr>e_pagination := Some (NewPagination (i_pp a) (i_p a))\<rparr>"
    using assms by (auto simp: Init_query_def Let_def elim!: bind_outcome_RetE)
  have "valid_conds (i_st ?a)" by (simp add: valid_conds_def GetParamConds_def new_request_def)
  from init_params_valid [OF a(1) this] show ?thesis
    using valid_conds_cong [of st "i_st a"] a(2) by simp
qed


lemma Init_query_returns:
  "(\<exists>st. Init_query loc now params = Ret st) \<longleftrightarrow> (\<forall>kv \<in> set params. good_param kv)"
proof -
  let ?a = "\<lparr>i_st = setTimeRangeFromStartEnd loc now (query_param ''start'' params) (query_param ''end'' params) new_request,
    i_p = [], i_pp = []\<rparr>"
  show ?thesis
    using init_params_returns [of loc now params ?a]
    by (cases "init_params loc now params ?a") (auto simp: Init_query_def Let_def)
qed

lemma without_underscore: "(if has_prefix m ''_'' then tl m else m) = [] \<longleftrightarrow> m = [] \<or> m = ''_''"
  by (cases m) (auto simp: has_prefix_Cons)

lemma key_type_CIs: "key_type (c # k) \<noteq> CIs \<longleftrightarrow> c \<in> set ''!~><''"
  by (simp add: key_type_def getCTypeByPrefix_def)

definition bad_key :: "string \<Rightarrow> bool" where
  "bad_key k \<longleftrightarrow> k = [] \<or> k = ''_'' \<or> (\<exists>c \<in> set ''!~><''. k = [c] \<or> k = [c, CHR ''_''])"

lemma bad_key_iff: "k = [] \<or> condition_key k = [] \<longleftrightarrow> bad_key k"
proof (cases k)
  case (Cons c r)
  show ?thesis
  proof (cases "c \<in> set ''!~><''")
    case True
    then have "condition_key k = [] \<longleftrightarrow> r = [] \<or> r = ''_''"
      using without_underscore [of r] key_type_CIs [of c r] by (simp add: condition_key_def Cons Let_def)
    moreover have "c \<noteq> CHR ''_''" using True by auto
    ultimately show ?thesis using True unfolding bad_key_def Cons by blast
  next
    case False
    then have "condition_key k = (if has_prefix k ''_'' then tl k else k)"
      using key_type_CIs [of c r] by (simp add: condition_key_def Cons)
    then have "condition_key k = [] \<longleftrightarrow> k = ''_''"
      using without_underscore [of k] Cons by simp
    then show ?thesis using False unfolding bad_key_def Cons by blast
  qed
qed (simp add: bad_key_def)

section \<open>Times as operands\<close>

text \<open>What remains of an operand on a column of times: nothing once it is read as a time, except after \<open><\<close>.\<close>

definition unparsed :: "int \<Rightarrow> rvalue \<Rightarrow> rvalue" where
  "unparsed loc v =
     (case v of RString s \<Rightarrow> if ParseInLocation TIME_FORM s loc = None then v else RNil | _ \<Rightarrow> v)"

definition before_clause :: "int \<Rightarrow> string \<Rightarrow> rvalue \<Rightarrow> clause list" where
  "before_clause loc f v =
     (case parse_time loc v of
        RTime p t \<Rightarrow> [\<lparr>c_query = VString (sql_column ''T'' f @ '' < ?''), c_args = [time_arg t]\<rparr>]
      | v' \<Rightarrow> string_clause f '' < ?'' v')"

lemma parsed_equal:
  assumes "single v"
  shows "buildWhereRaw pr ''T'' f (parse_time loc v) b = Ret (more_wheres (string_clause f '' = ?'' (unparsed loc v)) b)"
  using assms
  by (cases v)
    (auto simp: buildWhereRaw_def parse_time_def unparsed_def add_where_eq new_clause_def split: option.splits)

lemma parsed_not:
  assumes "single (k_not v)"
  shows "where_not pr (v\<lparr>k_not := parse_time loc (k_not v)\<rparr>) b
    = more_wheres (string_clause (k_field v) '' != ?'' (unparsed loc (k_not v))) b"
  using assms
  by (cases "k_not v")
    (auto simp: where_not_def parse_time_def unparsed_def add_where_eq new_clause_def split: option.splits)

lemma parsed_gt:
  assumes "single (k_gt v)"
  shows "where_gt pr (v\<lparr>k_gt := parse_time loc (k_gt v)\<rparr>) b
    = more_wheres (string_clause (k_field v) '' >= ?'' (unparsed loc (k_gt v))) b"
  using assms
  by (cases "k_gt v")
    (auto simp: where_gt_def parse_time_def unparsed_def add_where_eq new_clause_def split: option.splits)

lemma parsed_lt:
  assumes "single (k_lt v)"
  shows "where_lt pr (v\<lparr>k_lt := parse_time loc (k_lt v)\<rparr>) b = more_wheres (before_clause loc (k_field v) (k_lt v)) b"
  using assms
  by (cases "k_lt v")
    (auto simp: where_lt_def before_clause_def parse_time_def add_where_eq new_clause_def split: option.splits)

lemma where_cong:
  "k_field v = k_field w \<Longrightarrow> k_not v = k_not w \<Longrightarrow> where_not pr v = where_not pr w"
  "k_field v = k_field w \<Longrightarrow> k_gt v = k_gt w \<Longrightarrow> where_gt pr v = where_gt pr w"
  "k_field v = k_field w \<Longrightarrow> k_lt v = k_lt w \<Longrightarrow> where_lt pr v = where_lt pr w"
  "k_field v = k_field w \<Longrightarrow> k_like v = k_like w \<Longrightarrow> where_like pr v = where_like pr w"
  unfolding where_not_def where_gt_def where_lt_def where_like_def by (simp_all only:)

section \<open>Properties\<close>

text \<open>C15: Reading the query string panics exactly when some parameter with a value that is not one of the reserved
  names has an empty name, or a name that is empty without the character for the type of the condition and one
  underscore, such as an exclamation mark alone: any client can send one.\<close>

theorem query_panics_iff:
  "(\<exists>p. Init_query loc now params = Panic p) \<longleftrightarrow>
     (\<exists>k vs. (k, vs) \<in> set params \<and> filter (\<lambda>v. v \<noteq> []) vs \<noteq> [] \<and> k \<notin> set reserved
        \<and> (k = [] \<or> k = ''_'' \<or> (\<exists>c \<in> set ''!~><''. k = [c] \<or> k = [c, CHR ''_''])))"
proof -
  have "(\<exists>p. Init_query loc now params = Panic p) \<longleftrightarrow> \<not> (\<exists>st. Init_query loc now params = Ret st)"
    by (cases "Init_query loc now params") simp_all
  also have "\<dots> \<longleftrightarrow> (\<exists>k vs. (k, vs) \<in> set params \<and> parseParams vs \<noteq> [] \<and> k \<notin> set reserved \<and> bad_key k)"
    unfolding Init_query_returns good_param_def bad_key_iff [symmetric] by force
  finally show ?thesis unfolding parseParams_def bad_key_def .
qed

theorem query_panics_iff_witness:
  "\<exists>p. Init_query 0 zeroTime [(''name'', [''x'']), (''!'', [''1''])] = Panic p"
  unfolding query_panics_iff by (intro exI [of _ "''!''"] exI [of _ "[''1'']"]) (simp add: reserved_def)

text \<open>On a column of times, an operand that reads as a time is dropped from the conditions for equality,
  inequality and greater-or-equal: it leaves no clause at all, and the search returns rows that the client excluded.
  Only less-than binds the time; operands that do not read as times are compared as strings.\<close>

lemma time_operands_dropped:
  assumes "single_values v"
  shows "DoWhere pr (ParseCondition loc ''*time.Time'' v) b = Ret (more_wheres
     (string_clause (k_field v) '' = ?'' (unparsed loc (k_is v)) @ string_clause (k_field v) '' = ?'' (unparsed loc (k_not v))
      @ string_clause (k_field v) '' != ?'' (unparsed loc (k_not v))
      @ string_clause (k_field v) '' >= ?'' (unparsed loc (k_gt v)) @ before_clause loc (k_field v) (k_lt v)
      @ string_clause (k_field v) '' LIKE ?'' (like_value (k_like v))) b)"
proof -
  let ?v = "ParseCondition loc ''*time.Time'' v"
  have s: "k_raw v = []" "single (k_is v)" "single (k_not v)" "single (k_gt v)" "single (k_lt v)" "single (k_like v)"
    using assms by (simp_all add: single_values_def)
  have f: "k_field ?v = k_field v" "k_is ?v = parse_time loc (k_is v)" "k_not ?v = parse_time loc (k_not v)"
    by (simp_all add: ParseCondition_def)
  have w: "where_raw ?v b = b" "where_not pr ?v = where_not pr (v\<lparr>k_not := parse_time loc (k_not v)\<rparr>)"
    "where_gt pr ?v = where_gt pr (v\<lparr>k_gt := parse_time loc (k_gt v)\<rparr>)"
    "where_lt pr ?v = where_lt pr (v\<lparr>k_lt := parse_time loc (k_lt v)\<rparr>)" "where_like pr ?v = where_like pr v"
    using s(1) by (auto simp: ParseCondition_def where_raw_def intro!: where_cong)
  show ?thesis
    unfolding DoWhere_def f w
    by (simp add: parsed_equal [OF s(2)] parsed_equal [OF s(3)] parsed_not [OF s(3)] parsed_gt [OF s(4)] parsed_lt [OF s(5)]
        single_wheres(4) [OF s(6)])
qed

lemma time_operands_dropped_witness:
  "single_values ((empty_condition ''created'')\<lparr>k_gt := RString ''20200101000000'', k_lt := RString ''x''\<rparr>) \<and>
   DoWhere (\<lambda>c v. []) (ParseCondition 0 ''*time.Time''
       ((empty_condition ''created'')\<lparr>k_gt := RString ''20200101000000'', k_lt := RString ''x''\<rparr>)) NewBuilder
     = Ret (more_wheres [new_clause (sql_column ''T'' ''created'' @ '' < ?'') ''x''] NewBuilder)"
proof -
  let ?v = "(empty_condition ''created'')\<lparr>k_gt := RString ''20200101000000'', k_lt := RString ''x''\<rparr>"
  have s: "single_values ?v" by (simp add: single_values_def empty_condition_def)
  have "unparsed 0 (k_gt ?v) = RNil" "before_clause 0 (k_field ?v) (k_lt ?v) = [new_clause (sql_column ''T'' ''created'' @ '' < ?'') ''x'']"
    by code_simp+
  then show ?thesis
    using time_operands_dropped [OF s, of "\<lambda>c v. []" 0 NewBuilder] s by (simp add: empty_condition_def unparsed_def)
qed

end
