(* ===== verification/RestRead.thy ===== *)
theory RestRead
  imports RestQuery
begin

text \<open>
  From the conditions of a model to the statement: \<open>ReadPrepare\<close>, \<open>Rows\<close>, \<open>List\<close>, \<open>GetCount\<close> and
  the field lists of \<open>rest/model.go\<close>, on the query builder of theory \<open>GorpBuilder\<close>.

  What the model's own fields hold (\<open>PKey\<close>, \<open>Key\<close>, \<open>UnionKeys\<close> and the texts of its conditional
  fields) is read by reflection: it is the record \<open>ModelKeys\<close>. The columns of a registered table are
  the parameter \<open>join_cols\<close>; the order in which the map of alternatives is iterated is the
  parameter \<open>arrange\<close>.
\<close>

record ModelKeys =
  m_pkey :: "string \<times> string"
  m_key :: "string \<times> string"
  m_union :: "(string \<times> string) list"
  m_fields :: "(string \<times> string) list"

datatype rest_error = ErrType | ErrNoCondition

definition format2 :: "int \<Rightarrow> string" where
  "format2 n = (if n < 10 then ''0'' @ itoa n else itoa n)"

definition format4 :: "int \<Rightarrow> string" where
  "format4 n = replicate (4 - length (itoa n)) (CHR ''0'') @ itoa n"

text \<open>\<open>t.Format\<close> with the layout \<open>_MYSQL_FORM\<close>, for years from 0 on.\<close>

definition format_mysql :: "Time \<Rightarrow> string" where
  "format_mysql t = format4 (tYear t) @ ''-'' @ format2 (tMonth t) @ ''-'' @ format2 (tDay t) @ '' ''
     @ format2 (tHour t) @ '':'' @ format2 (tMinute t) @ '':'' @ format2 (tSecond t)"

definition prepare_range :: "Condition \<Rightarrow> Builder \<Rightarrow> Builder" where
  "prepare_range v b =
     (case k_range v of
        RTimeRange p s e \<Rightarrow>
          add_where (sql_column ''T'' (k_field v) @ '' BETWEEN ? AND ?'') [VString (format_mysql s), VString (format_mysql e)] b
      | _ \<Rightarrow> b)"

definition prepare_order :: "bool \<Rightarrow> Condition \<Rightarrow> Builder \<Rightarrow> Builder" where
  "prepare_order disableOrder v b =
     (case k_order v of
        ROrderBy p f d \<Rightarrow> if disableOrder then b else Order (sql_column ''T'' f @ '' '' @ d) [] b
      | _ \<Rightarrow> b)"

text \<open>The alternatives, grouped by the field of the inner condition; a value that is not a condition panics.\<close>

definition or_text :: "(char \<Rightarrow> rvalue \<Rightarrow> string) \<Rightarrow> string \<Rightarrow> rvalue \<Rightarrow> string list" where
  "or_text pr field v =
     (case v of
        RString s \<Rightarrow> [sql_column ''T'' field @ '' = '' @ sql_literal s]
      | RStrings vs \<Rightarrow> [sql_column ''T'' field @ '' IN '' @ value_list vs]
      | RIfaces vs \<Rightarrow> [sql_column ''T'' field @ '' IN '' @ value_list (map (fmt_s pr) vs)]
      | _ \<Rightarrow> [])"

type_synonym groups = "(string \<times> string list) list"

fun add_group :: "string \<Rightarrow> string list \<Rightarrow> groups \<Rightarrow> groups" where
  "add_group k ts [] = [(k, ts)]"
| "add_group k ts ((k', ts') # gs) = (if k' = k then (k', ts' @ ts) # gs else (k', ts') # add_group k ts gs)"

definition prepare_or :: "(char \<Rightarrow> rvalue \<Rightarrow> string) \<Rightarrow> Condition \<Rightarrow> groups \<Rightarrow> groups outcome" where
  "prepare_or pr v gs =
     (case k_or v of
        RNil \<Rightarrow> Ret gs
      | RCond orKey is_value \<Rightarrow> Ret (add_group orKey (or_text pr (k_field v) is_value) gs)
      | _ \<Rightarrow> Panic (PanicMsg ''interface conversion''))"

definition joinable :: "(string \<Rightarrow> StructColumn list option) \<Rightarrow> string \<Rightarrow> string \<Rightarrow> bool" where
  "joinable join_cols table field =
     (case join_cols table of
        Some cols \<Rightarrow> list_ex (\<lambda>col. col_tag col = field \<and> Contains (col_extopts col) ''C'') cols
      | None \<Rightarrow> False)"

definition join_clause :: "(char \<Rightarrow> rvalue \<Rightarrow> string) \<Rightarrow> Condition \<Rightarrow> nat \<Rightarrow> string" where
  "join_clause pr v n =
     (let t = ''T'' @ nat_dec n; on1 = (case k_joinon v of Some vs \<Rightarrow> fmt_s pr (vs ! 0) | None \<Rightarrow> k_field v);
          on2 = (case k_joinon v of Some vs \<Rightarrow> fmt_s pr (vs ! 1) | None \<Rightarrow> ''id'')
      in ''LEFT JOIN `'' @ k_field v @ ''` '' @ t @ '' ON '' @ sql_column ''T'' on1 @ '' = '' @ sql_column t on2)"

definition prepare_join :: "(char \<Rightarrow> rvalue \<Rightarrow> string) \<Rightarrow> (string \<Rightarrow> StructColumn list option) \<Rightarrow> Condition
    \<Rightarrow> Builder \<times> nat \<Rightarrow> (Builder \<times> nat) outcome" where
  "prepare_join pr join_cols v bn =
     (case bn of (b, n) \<Rightarrow>
        (case k_join v of
           RCond f is_value \<Rightarrow>
             if is_value \<noteq> RNil \<and> joinable join_cols (k_field v) f
             then bind_outcome (buildWhereRaw pr (''T'' @ nat_dec n) f is_value (set_Joins (join_clause pr v n) b))
                    (\<lambda>b'. Ret (b', n + 1))
             else Ret (b, n)
         | _ \<Rightarrow> Ret (b, n)))"

fun prepare_conditions :: "(char \<Rightarrow> rvalue \<Rightarrow> string) \<Rightarrow> (string \<Rightarrow> StructColumn list option) \<Rightarrow> Condition list
    \<Rightarrow> Builder \<times> nat \<Rightarrow> groups \<Rightarrow> (Builder \<times> groups) outcome" where
  "prepare_conditions pr join_cols [] bn gs = Ret (fst bn, gs)"
| "prepare_conditions pr join_cols (v # vs) bn gs =
     bind_outcome (DoWhere pr v (fst bn)) (\<lambda>b1.
     bind_outcome (prepare_or pr v gs) (\<lambda>gs'.
     bind_outcome (prepare_join pr join_cols v (b1, snd bn)) (\<lambda>bn'.
       prepare_conditions pr join_cols vs bn' gs')))"

definition add_groups :: "groups \<Rightarrow> Builder \<Rightarrow> Builder" where
  "add_groups gs b = foldl (\<lambda>b g. add_where (''('' @ join '' OR '' (snd g) @ '')'') [] b) b gs"

definition equals :: "string \<times> string \<Rightarrow> Builder \<Rightarrow> Builder" where
  "equals fv b = add_where (sql_column ''T'' (fst fv) @ '' = ?'') [VString (snd fv)] b"

text \<open>Without conditions the model's own values are looked for.\<close>

definition own_values :: "ModelKeys \<Rightarrow> (string \<times> string) list" where
  "own_values mk =
     (if snd (m_pkey mk) \<noteq> [] then [m_pkey mk]
      else if snd (m_key mk) \<noteq> [] then [m_key mk]
      else if m_union mk \<noteq> [] then m_union mk
      else filter (\<lambda>fv. snd fv \<noteq> []) (m_fields mk))"

definition column_order :: "StructColumn \<Rightarrow> string option" where
  "column_order col =
     (if Contains (col_opts col) ''pk'' then None
      else if Contains (col_extopts col) ''O'' then Some (sql_column ''T'' (col_tag col) @ '' DESC'')
      else if Contains (col_extopts col) ''AO'' then Some (sql_column ''T'' (col_tag col) @ '' ASC'')
      else None)"

definition prepare_column :: "StructColumn \<Rightarrow> Builder \<Rightarrow> Builder" where
  "prepare_column col b =
     (let b1 = (case column_order col of Some t \<Rightarrow> Order t [] b | None \<Rightarrow> b)
      in if Contains (col_opts col) ''logic'' then add_where (sql_column ''T'' (col_tag col) @ '' != -1'') [] b1 else b1)"

definition pk_order :: "StructColumn list \<Rightarrow> string" where
  "pk_order cols =
     foldl (\<lambda>pks col. if Contains (col_opts col) ''pk''
        then sql_column ''T'' (col_tag col) @ (if Contains (col_extopts col) ''AO'' then '' ASC'' else '' DESC'')
        else pks) [] cols"

definition prepare_columns :: "StructColumn list \<Rightarrow> Builder \<Rightarrow> Builder" where
  "prepare_columns cols b =
     (let b1 = foldl (\<lambda>b col. prepare_column col b) b cols
      in if pk_order cols \<noteq> [] then Order (pk_order cols) [] b1 else b1)"

text \<open>The conditions of the model as the pointers now give them.\<close>

definition Conditions :: "RestState \<Rightarrow> Condition list" where
  "Conditions st = map ((!) (heap st)) (r_conditions st)"

definition ReadPrepare :: "(char \<Rightarrow> rvalue \<Rightarrow> string) \<Rightarrow> (string \<Rightarrow> StructColumn list option) \<Rightarrow> (groups \<Rightarrow> groups)
    \<Rightarrow> (string \<rightharpoonup> string list) \<Rightarrow> string \<Rightarrow> StructColumn list \<Rightarrow> ModelKeys \<Rightarrow> bool \<Rightarrow> bool \<Rightarrow> RestState
    \<Rightarrow> (rest_error + Builder) outcome" where
  "ReadPrepare pr join_cols arrange tables tb cols mk disableOrder mustHasCons st =
     (if cols = [] then Ret (Inl ErrType)
      else
        bind_outcome (Table tables tb NewBuilder) (\<lambda>b.
        bind_outcome
          (if Conditions st \<noteq> [] then
             (let b1 = foldl (\<lambda>b v. prepare_order disableOrder v (prepare_range v b)) b (Conditions st)
              in bind_outcome (prepare_conditions pr join_cols (Conditions st) (b1, 0) []) (\<lambda>(b2, gs).
                   Ret (Inr (add_groups (arrange gs) b2))))
           else if own_values mk = [] \<and> mustHasCons then Ret (Inl ErrNoCondition)
           else Ret (Inr (foldl (\<lambda>b fv. equals fv b) b (own_values mk))))
          (\<lambda>r. Ret (case r of
             Inl e \<Rightarrow> Inl e
           | Inr b3 \<Rightarrow> Inr (if disableOrder then b3 else prepare_columns cols b3)))))"

section \<open>Statements\<close>

text \<open>\<open>GetDbFields\<close>: the hidden columns are left out, the secret ones with \<open>readTag\<close>.\<close>

definition GetDbFields :: "string list \<Rightarrow> StructColumn list \<Rightarrow> bool \<Rightarrow> string list" where
  "GetDbFields fs cols readTag =
     map col_tag (filter (\<lambda>col. col_tag col \<noteq> ''-'' \<and> \<not> Contains (col_extopts col) ''H'' \<and>
       \<not> (readTag \<and> Contains (col_extopts col) ''S'') \<and>
       \<not> (fs \<noteq> [] \<and> \<not> Contains (col_opts col) ''pk'' \<and> col_tag col \<notin> set fs)) cols)"

definition select_fields :: "string list \<Rightarrow> Builder \<Rightarrow> Builder" where
  "select_fields fs b = Select (VSlice EString (map VString fs)) b"

definition paged :: "Pagination option \<Rightarrow> Builder \<Rightarrow> Builder" where
  "paged p b = (case p of Some pg \<Rightarrow> Limit (VInt (PerPage pg)) (Offset (VInt (POffset pg)) b) | None \<Rightarrow> b)"

text \<open>The statement that \<open>List\<close> finds its rows with; the pagination of \<open>Rows\<close> is its argument.\<close>

definition Rows_statement :: "string list \<Rightarrow> StructColumn list \<Rightarrow> bool \<Rightarrow> Pagination option \<Rightarrow> Builder
    \<Rightarrow> (string \<times> gvalue list) outcome" where
  "Rows_statement fs cols readTag p b = Builder_Find (paged p (select_fields (GetDbFields fs cols readTag) b))"


section \<open>A condition nobody points to\<close>

abbreviation more_heap :: "Condition \<Rightarrow> RestState \<Rightarrow> RestState" where
  "more_heap c st \<equiv> st\<lparr>heap := heap st @ [c]\<rparr>"

definition in_heap :: "nat list \<Rightarrow> RestState \<Rightarrow> bool" where
  "in_heap ps st \<longleftrightarrow> (\<forall>p \<in> set ps. p < length (heap st))"

lemma GetCondition_in_heap:
  "GetCondition h (map Some ps) k = Some p \<Longrightarrow> p \<in> set ps"
  by (induction ps) (auto simp: GetCondition_def split: if_splits)

lemma GetCondition_more_heap:
  assumes "in_heap ps st"
  shows "GetCondition (heap st @ [c]) (map Some ps) k = GetCondition (heap st) (map Some ps) k"
proof -
  have "filter (\<lambda>x. case x of Some p \<Rightarrow> k_field ((heap st @ [c]) ! p) = k | None \<Rightarrow> False) (map Some ps)
      = filter (\<lambda>x. case x of Some p \<Rightarrow> k_field (heap st ! p) = k | None \<Rightarrow> False) (map Some ps)"
    using assms by (intro filter_cong) (auto simp: in_heap_def nth_append)
  then show ?thesis by (simp add: GetCondition_def)
qed

lemma on_heap_more_heap:
  "p < length (heap st) \<Longrightarrow> on_heap p f (more_heap c st) = more_heap c (on_heap p f st)"
  by (simp add: on_heap_def nth_append list_update_append)

text \<open>A step of the loop that keeps to the conditions it is given: it does not see other cells of the heap or
  the range of times, and adds pointers to the conditions of the model.\<close>

abbreviation no_timerange :: "RestState \<Rightarrow> RestState" where
  "no_timerange st \<equiv> st\<lparr>e_timerange := None\<rparr>"

definition appends :: "nat list \<Rightarrow> RestState \<Rightarrow> RestState \<Rightarrow> bool" where
  "appends ps st st' \<longleftrightarrow> (\<exists>h rs. st' = st\<lparr>heap := h, r_conditions := r_conditions st @ rs\<rparr>
     \<and> length h = length (heap st) \<and> set rs \<subseteq> set ps)"

definition local_step :: "nat list \<Rightarrow> (RestState \<Rightarrow> RestState) \<Rightarrow> bool" where
  "local_step ps f \<longleftrightarrow> (\<forall>st. in_heap ps st \<longrightarrow>
     (\<forall>c. f (more_heap c st) = more_heap c (f st)) \<and> f (no_timerange st) = no_timerange (f st) \<and> appends ps st (f st))"

lemma local_stepI:
  assumes "\<And>st c. in_heap ps st \<Longrightarrow> f (more_heap c st) = more_heap c (f st)"
    and "\<And>st. f (no_timerange st) = no_timerange (f st)"
    and "\<And>st. in_heap ps st \<Longrightarrow> appends ps st (f st)"
  shows "local_step ps f"
  using assms by (simp add: local_step_def)

lemma appends_refl: "appends ps st st"
  unfolding appends_def by (intro exI [of _ "heap st"] exI [of _ "[]"]) simp

lemma appends_add: "p \<in> set ps \<Longrightarrow> appends ps st (add_condition p st)"
  unfolding appends_def by (intro exI [of _ "heap st"] exI [of _ "[p]"]) (simp add: add_condition_def)

lemma appends_on_heap: "p \<in> set ps \<Longrightarrow> appends ps st (add_condition p (on_heap p f st))"
  unfolding appends_def
  by (intro exI [of _ "(heap st)[p := f (heap st ! p)]"] exI [of _ "[p]"]) (simp add: add_condition_def on_heap_def)

lemma appends_trans:
  assumes "appends ps st st1" "appends ps st1 st2"
  shows "appends ps st st2"
proof -
  obtain h rs h' rs' where "st1 = st\<lparr>heap := h, r_conditions := r_conditions st @ rs\<rparr>" "length h = length (heap st)"
    "set rs \<subseteq> set ps" "st2 = st1\<lparr>heap := h', r_conditions := r_conditions st1 @ rs'\<rparr>" "length h' = length (heap st1)"
    "set rs' \<subseteq> set ps"
    using assms unfolding appends_def by blast
  then show ?thesis unfolding appends_def by (intro exI [of _ h'] exI [of _ "rs @ rs'"]) simp
qed

lemma appends_in_heap: "appends ps st st' \<Longrightarrow> in_heap qs st' = in_heap qs st"
  by (auto simp: appends_def in_heap_def)

lemma local_step_comp: "local_step ps f \<Longrightarrow> local_step ps g \<Longrightarrow> local_step ps (\<lambda>st. g (f st))"
  unfolding local_step_def using appends_in_heap appends_trans by fastforce

lemmas appends_intros = appends_refl appends_add appends_on_heap

lemma found_below:
  assumes "in_heap ps st" "GetCondition (heap st) (map Some ps) k = Some p"
  shows "p < length (heap st)"
  using assms GetCondition_in_heap by (auto simp: in_heap_def)

lemma lookup_more_heap:
  assumes "in_heap ps st" "GetCondition (heap st) (map Some ps) k = Some p"
  shows "(heap st @ [c]) ! p = heap st ! p"
  using found_below [OF assms] by (simp add: nth_append)

lemma no_timerange_simps:
  "add_condition p (no_timerange st) = no_timerange (add_condition p st)"
  "on_heap p f (no_timerange st) = no_timerange (on_heap p f st)"
  by (simp_all add: add_condition_def on_heap_def)

lemma add_condition_more_heap: "add_condition p (more_heap c st) = more_heap c (add_condition p st)"
  by (simp add: add_condition_def)

lemmas more_heap_simps = GetCondition_more_heap lookup_more_heap add_condition_more_heap on_heap_more_heap found_below

lemma local_set_join: "local_step ps (set_join (map Some ps) col)"
  by (intro local_stepI)
    (auto simp: set_join_def more_heap_simps no_timerange_simps split: option.split
      intro: appends_intros dest: GetCondition_in_heap)

lemma local_set_raw: "local_step ps (set_raw (map Some ps) col)"
  by (intro local_stepI)
    (auto simp: set_raw_def more_heap_simps no_timerange_simps split: option.split
      intro: appends_intros dest: GetCondition_in_heap)

lemma local_set_order: "local_step ps (set_order (map Some ps) col)"
  by (intro local_stepI)
    (auto simp: set_order_def more_heap_simps no_timerange_simps split: option.split
      intro: appends_intros dest: GetCondition_in_heap)

lemma local_set_compare: "local_step ps (set_compare loc (map Some ps) col)"
  by (intro local_stepI)
    (auto simp: set_compare_def more_heap_simps no_timerange_simps split: option.split
      intro: appends_intros dest: GetCondition_in_heap)

lemma range_direct_more_heap:
  assumes "p < length (heap st)"
  shows "range_direct loc now p (more_heap c st) = more_heap c (range_direct loc now p st)"
proof -
  have "(heap st @ [c]) ! p = heap st ! p" using assms by (simp add: nth_append)
  then show ?thesis
    using assms
    by (cases "k_is (heap st ! p)")
      (simp_all add: range_direct_def add_condition_more_heap on_heap_more_heap split: prod.split)
qed

lemma range_direct_same:
  "range_direct loc now p (no_timerange st) = no_timerange (range_direct loc now p st)"
  "p \<in> set ps \<Longrightarrow> appends ps st (range_direct loc now p st)"
  by (cases "k_is (heap st ! p)";
      simp add: range_direct_def no_timerange_simps appends_intros split: prod.split)+

lemma range_by_name_more_heap:
  "in_heap ps st \<Longrightarrow> range_by_name (map Some ps) col (more_heap c st) = more_heap c (range_by_name (map Some ps) col st)"
  by (auto simp: range_by_name_def more_heap_simps split: option.split)

lemma range_by_name_same:
  "range_by_name (map Some ps) col (no_timerange st) = no_timerange (range_by_name (map Some ps) col st)"
  "appends ps st (range_by_name (map Some ps) col st)"
  by (auto simp: range_by_name_def no_timerange_simps split: option.split intro: appends_intros dest: GetCondition_in_heap)

lemma local_set_range: "local_step ps (set_range loc now (map Some ps) col)"
  by (intro local_stepI)
    (auto simp: set_range_def more_heap_simps range_direct_more_heap range_by_name_more_heap range_direct_same(1)
       range_by_name_same split: option.split intro: appends_refl range_direct_same(2) dest: GetCondition_in_heap)

lemma local_set_column: "local_step ps (set_column loc now (map Some ps) col)"
  unfolding set_column_def [abs_def]
  by (rule local_step_comp [OF local_step_comp [OF local_step_comp [OF local_step_comp [OF
    local_set_join local_set_raw] local_set_range] local_set_order] local_set_compare])

lemma local_SetConditions: "local_step ps (SetConditions loc now cols (map Some ps))"
proof (induction cols)
  case (Cons col cols)
  then show ?case
    using local_step_comp [OF local_set_column Cons] by (simp add: SetConditions_def)
qed (simp add: SetConditions_def local_step_def appends_refl)

text \<open>The condition for a range of times is under a name that no column has, and it is none of the conditions
  that are looked for under that name.\<close>

lemma range_condition_dropped:
  assumes "\<forall>col \<in> set cols. col_tag col \<noteq> ''TR''"
    and "heap st ! p = (empty_condition ''TR'')\<lparr>k_range := r\<rparr>"
  shows "SetConditions loc now cols [Some p] st = st"
  using assms(1)
proof (induction cols)
  case (Cons col cols)
  note h = assms(2) empty_condition_def
  have g: "GetCondition (heap st) [Some p] k = (if k = ''TR'' then Some p else None)" for k
    by (simp add: GetCondition_def h)
  have tag: "GetCondition (heap st) [Some p] (col_tag col) = None" using Cons.prems by (simp add: g)
  have "set_join [Some p] col st = st" by (simp add: set_join_def g h)
  moreover have "set_raw [Some p] col st = st" by (simp add: set_raw_def tag)
  moreover have "set_range loc now [Some p] col st = st"
    unfolding set_range_def tag by (simp add: range_by_name_def g h)
  moreover have "set_order [Some p] col st = st" by (simp add: set_order_def g)
  moreover have "set_compare loc [Some p] col st = st" by (simp add: set_compare_def tag)
  ultimately have "set_column loc now [Some p] col st = st" by (simp add: set_column_def)
  with Cons show ?case by (simp add: SetConditions_def)
qed (simp add: SetConditions_def)


text \<open>All pointers of a request point to conditions.\<close>

definition pointers_ok :: "RestState \<Rightarrow> bool" where
  "pointers_ok st \<longleftrightarrow> in_heap (GetParamConds st) st \<and> in_heap (r_conditions st) st"

lemma appends_pointers:
  assumes "appends ps st st'" "in_heap ps st" "pointers_ok st"
  shows "pointers_ok st' \<and> GetParamConds st' = GetParamConds st \<and> e_timerange st' = e_timerange st"
proof -
  obtain h rs where st': "st' = st\<lparr>heap := h, r_conditions := r_conditions st @ rs\<rparr>" "length h = length (heap st)"
    "set rs \<subseteq> set ps"
    using assms(1) unfolding appends_def by blast
  show ?thesis
    using assms(2,3) st'(2,3) unfolding pointers_ok_def in_heap_def st'(1) GetParamConds_def by auto
qed

lemma more_heap_pointers:
  "pointers_ok st \<Longrightarrow> pointers_ok (more_heap c st) \<and> in_heap [length (heap st)] (more_heap c st)"
  by (auto simp: pointers_ok_def in_heap_def GetParamConds_def)

lemma Conditions_more_heap: "in_heap (r_conditions st) st \<Longrightarrow> Conditions (more_heap c st) = Conditions st"
  by (simp add: Conditions_def in_heap_def nth_append)

lemma local_stepD:
  assumes "local_step ps f" "in_heap ps st"
  shows "f (more_heap c st) = more_heap c (f st)" "f (no_timerange st) = no_timerange (f st)" "appends ps st (f st)"
  using assms by (simp_all add: local_step_def)

lemma SetNew_some: "SetNew loc now cols (Some c) st = SetConditions loc now cols [Some (length (heap st))] (more_heap c st)"
  by (simp add: SetNew_def alloc_def)

lemma heap_timerange: "st\<lparr>e_timerange := None, heap := h\<rparr> = st\<lparr>heap := h, e_timerange := None\<rparr>"
  by (cases st) simp

lemma timerange_unread [simp]:
  "GetParamConds (no_timerange st) = GetParamConds st" "Conditions (no_timerange st) = Conditions st"
  "GetParamConds (more_heap c st) = GetParamConds st"
  by (simp_all add: GetParamConds_def Conditions_def)

text \<open>A new condition, whatever it says.\<close>

lemma SetNew_keeps:
  assumes "pointers_ok st"
  shows "pointers_ok (SetNew loc now cols (Some c) st)"
    "e_timerange (SetNew loc now cols (Some c) st) = e_timerange st"
    "SetNew loc now cols (Some c) (no_timerange st) = no_timerange (SetNew loc now cols (Some c) st)"
proof -
  let ?n = "length (heap st)"
  note p = more_heap_pointers [OF assms, of c]
  note l = local_stepD [OF local_SetConditions [of "[?n]" loc now cols], of "more_heap c st"]
  have a: "appends [?n] (more_heap c st) (SetNew loc now cols (Some c) st)"
    using l(3) p by (simp add: SetNew_some)
  then show "pointers_ok (SetNew loc now cols (Some c) st)"
    "e_timerange (SetNew loc now cols (Some c) st) = e_timerange st"
    using appends_pointers [OF a] p by simp_all
  show "SetNew loc now cols (Some c) (no_timerange st) = no_timerange (SetNew loc now cols (Some c) st)"
    using l(2) p by (simp add: SetNew_some heap_timerange)
qed

text \<open>What a search does before it looks at the range of times.\<close>

definition before_range :: "int \<Rightarrow> Time \<Rightarrow> StructColumn list \<Rightarrow> RestState \<Rightarrow> RestState" where
  "before_range loc now cols st =
     (let st0 = (case e_pagination st of Some p \<Rightarrow> st\<lparr>r_pagination := Some p\<rparr> | None \<Rightarrow> st)
      in case e_orderby st0 of
           Some (f, d) \<Rightarrow> SetNew loc now cols (new_or_nil COrder ''O'' (ROrderBy True f d)) st0
         | None \<Rightarrow> st0)"

lemma before_range_keeps:
  assumes "pointers_ok st"
  shows "pointers_ok (before_range loc now cols st) \<and> e_timerange (before_range loc now cols st) = e_timerange st \<and>
    before_range loc now cols (no_timerange st) = no_timerange (before_range loc now cols st)"
proof -
  let ?st0 = "case e_pagination st of Some p \<Rightarrow> st\<lparr>r_pagination := Some p\<rparr> | None \<Rightarrow> st"
  have p: "pointers_ok ?st0" "e_timerange ?st0 = e_timerange st" "e_orderby ?st0 = e_orderby st"
    using assms by (simp_all add: pointers_ok_def in_heap_def GetParamConds_def split: option.split)
  have n: "(case e_pagination (no_timerange st) of Some p \<Rightarrow> (no_timerange st)\<lparr>r_pagination := Some p\<rparr>
      | None \<Rightarrow> no_timerange st) = no_timerange ?st0"
    by (simp split: option.split)
  have c: "\<exists>c. new_or_nil COrder ''O'' (ROrderBy True f d) = Some c" for f d
    by (simp add: new_or_nil_def NewCondition_def)
  show ?thesis
  proof (cases "e_orderby st")
    case None
    then show ?thesis using p unfolding before_range_def n Let_def by simp
  next
    case (Some fd)
    obtain f d where fd: "fd = (f, d)" by (cases fd)
    obtain c where c: "new_or_nil COrder ''O'' (ROrderBy True f d) = Some c" using c by blast
    show ?thesis
      using p Some SetNew_keeps [OF p(1), of loc now cols c] unfolding before_range_def n Let_def
      by (simp add: fd c)
  qed
qed


lemma search_conditions:
  assumes "pointers_ok st" "\<forall>col \<in> set cols. col_tag col \<noteq> ''TR''"
  shows "Conditions (PreSearch loc now cols st) = Conditions (PreSearch loc now cols (no_timerange st))"
proof -
  let ?st1 = "before_range loc now cols st"
  let ?f = "SetConditions loc now cols (map Some (GetParamConds ?st1))"
  note b = before_range_keeps [OF assms(1), of loc now cols]
  have P: "Conditions (PreSearch loc now cols s)
      = Conditions (set_param_conditions loc now cols (set_range_condition loc now cols CRange (before_range loc now cols s)))" for s
    by (simp add: PreSearch_def before_range_def Let_def set_request_fields_def Conditions_def split: option.split)
  have l: "?f (more_heap c ?st1) = more_heap c (?f ?st1)" "?f (no_timerange ?st1) = no_timerange (?f ?st1)"
    "pointers_ok (?f ?st1)" for c
    using local_stepD [OF local_SetConditions, of "GetParamConds ?st1" ?st1 loc now cols] b
      appends_pointers [of "GetParamConds ?st1" ?st1 "?f ?st1"]
    by (auto simp: pointers_ok_def)
  have none: "Conditions (PreSearch loc now cols (no_timerange st)) = Conditions (?f ?st1)"
    using b l(2) by (simp add: P set_range_condition_def set_param_conditions_def)
  show ?thesis
  proof (cases "e_timerange st")
    case None
    then have "set_range_condition loc now cols CRange ?st1 = ?st1" using b by (simp add: set_range_condition_def)
    then show ?thesis unfolding none P [of st] by (simp add: set_param_conditions_def)
  next
    case (Some r)
    obtain s e where r: "r = (s, e)" by (cases r)
    let ?c = "(empty_condition ''TR'')\<lparr>k_range := RTimeRange True s e\<rparr>"
    have n: "new_or_nil CRange ''TR'' (RTimeRange True s e) = Some ?c"
      by (simp add: new_or_nil_def NewCondition_def)
    have h: "heap (more_heap ?c ?st1) ! length (heap ?st1) = ?c" by simp
    have "set_range_condition loc now cols CRange ?st1 = more_heap ?c ?st1"
      using b Some range_condition_dropped [OF assms(2) h] by (simp add: set_range_condition_def r n SetNew_some)
    then have "Conditions (PreSearch loc now cols st) = Conditions (?f (more_heap ?c ?st1))"
      unfolding P by (simp add: set_param_conditions_def)
    also have "\<dots> = Conditions (?f ?st1)"
      using l(3) Conditions_more_heap unfolding l(1) pointers_ok_def by blast
    finally show ?thesis unfolding none .
  qed
qed

lemma ReadPrepare_cong:
  "Conditions st = Conditions st' \<Longrightarrow>
    ReadPrepare pr join_cols arrange tables tb cols mk d m st = ReadPrepare pr join_cols arrange tables tb cols mk d m st'"
  unfolding ReadPrepare_def by (simp only:)


lemma Init_query_pointers: "Init_query loc now params = Ret st \<Longrightarrow> pointers_ok st"
  using Init_query_valid [of loc now params st] by (simp add: valid_conds_def pointers_ok_def in_heap_def)

section \<open>Statements of single values\<close>

lemma foldl_id: "\<forall>v \<in> set vs. f b v = b \<Longrightarrow> foldl f b vs = b"
  by (induction vs) simp_all

lemma single_prepare:
  assumes "single_values v"
  shows "prepare_range v b = b" "prepare_order d v b = b" "prepare_or pr v gs = Ret gs" "prepare_join pr jc v bn = Ret bn"
  using assms
  by (simp_all add: single_values_def prepare_range_def prepare_order_def prepare_or_def prepare_join_def split: prod.split)

lemma more_wheres_append: "more_wheres ds (more_wheres cs b) = more_wheres (cs @ ds) b"
  by simp

lemma prepare_conditions_single:
  "\<forall>v \<in> set vs. single_values v \<Longrightarrow>
    prepare_conditions pr jc vs (b, n) gs = Ret (more_wheres (concat (map single_clauses vs)) b, gs)"
proof (induction vs arbitrary: b)
  case (Cons v vs)
  then have "single_values v" by simp
  then show ?case
    using Cons.IH [of "more_wheres (single_clauses v) b"] Cons.prems
    by (simp add: DoWhere_single single_prepare)
qed simp

text \<open>What the columns of the model add: an order, and the filter of deleted rows.\<close>

definition column_logic :: "StructColumn \<Rightarrow> string list" where
  "column_logic col = (if Contains (col_opts col) ''logic'' then [sql_column ''T'' (col_tag col) @ '' != -1''] else [])"

definition column_orders :: "StructColumn list \<Rightarrow> string list" where
  "column_orders cols = concat (map (\<lambda>col. case column_order col of Some t \<Rightarrow> [t] | None \<Rightarrow> []) cols) @ (if pk_order cols \<noteq> [] then [pk_order cols] else [])"


definition text_clause :: "string \<Rightarrow> clause" where
  "text_clause t = \<lparr>c_query = VString t, c_args = []\<rparr>"

abbreviation ordered :: "clause list \<Rightarrow> string list \<Rightarrow> Builder \<Rightarrow> Builder" where
  "ordered cs os b \<equiv> b\<lparr>bsearch := (bsearch b)\<lparr>WhereConditions := WhereConditions (bsearch b) @ cs,
     Orders := Orders (bsearch b) @ os\<rparr>\<rparr>"

lemma foldl_ordered:
  "foldl (\<lambda>b x. ordered (f x) (g x) b) b xs = ordered (concat (map f xs)) (concat (map g xs)) b"
  by (induction xs arbitrary: b) simp_all

lemma prepare_column_eq:
  "prepare_column col b = ordered (map text_clause (column_logic col))
     (case column_order col of Some t \<Rightarrow> [t] | None \<Rightarrow> []) b"
  by (simp add: prepare_column_def column_logic_def text_clause_def add_where_eq Order_def search_order_def
      split: option.split)

lemma prepare_columns_eq:
  "prepare_columns cols b = ordered (map text_clause (concat (map column_logic cols))) (column_orders cols) b"
  unfolding prepare_columns_def prepare_column_eq foldl_ordered Let_def
  by (simp add: column_orders_def Order_def search_order_def map_concat comp_def)

section \<open>The statement of a search\<close>

text \<open>The conditions as texts: which operands are given decides them, not what they say. A negated operand gives
  an equality as well.\<close>

fun given :: "string \<Rightarrow> rvalue \<Rightarrow> string list" where
  "given oper RNil = []"
| "given oper v = [oper]"

definition condition_texts :: "Condition \<Rightarrow> string list" where
  "condition_texts v = map (\<lambda>oper. sql_column ''T'' (k_field v) @ oper)
     (given '' = ?'' (k_is v) @ given '' = ?'' (k_not v) @ given '' != ?'' (k_not v) @ given '' >= ?'' (k_gt v)
      @ given '' < ?'' (k_lt v) @ given '' LIKE ?'' (k_like v))"

fun operand :: "rvalue \<Rightarrow> gvalue list" where
  "operand (RString s) = [VString s]"
| "operand v = []"

definition condition_operands :: "Condition \<Rightarrow> gvalue list" where
  "condition_operands v = operand (k_is v) @ operand (k_not v) @ operand (k_not v) @ operand (k_gt v) @ operand (k_lt v)
     @ operand (like_value (k_like v))"

lemma string_clause_text:
  assumes "single v" "qmark \<notin> set f" "oper = u @ [qmark]" "qmark \<notin> set u"
  shows "map clause_text (string_clause f oper v) = map (\<lambda>oper. sql_column ''T'' f @ oper) (given oper v)"
    and "concat (map clause_vars (string_clause f oper v)) = operand v"
proof -
  have "qmark \<notin> set (sql_column ''T'' f @ u)" using assms(2,4) by (simp add: sql_column_def)
  from expand_plain [OF this] have "expand ((sql_column ''T'' f @ u) @ [qmark]) [VString s] = (sql_column ''T'' f @ u) @ [qmark]" for s
    by (simp add: arg_text_def)
  with assms show "map clause_text (string_clause f oper v) = map (\<lambda>oper. sql_column ''T'' f @ oper) (given oper v)"
    by (cases v) (simp_all add: clause_text_def new_clause_def)
  show "concat (map clause_vars (string_clause f oper v)) = operand v"
    using assms(1) by (cases v) (simp_all add: clause_vars_def new_clause_def arg_vars_def driver_value_def)
qed

lemma single_like: "single v \<Longrightarrow> single (like_value v) \<and> given oper (like_value v) = given oper v"
  by (cases v) simp_all

lemma single_clauses_text:
  assumes "single_values v" "qmark \<notin> set (k_field v)"
  shows "map clause_text (single_clauses v) = condition_texts v"
    and "concat (map clause_vars (single_clauses v)) = condition_operands v"
proof -
  have s: "single (k_is v)" "single (k_not v)" "single (k_gt v)" "single (k_lt v)" "single (like_value (k_like v))"
    "given '' LIKE ?'' (like_value (k_like v)) = given '' LIKE ?'' (k_like v)"
    using assms(1) single_like by (simp_all add: single_values_def)
  note t = string_clause_text [OF s(1) assms(2), of "'' = ?''" "'' = ''"]
    string_clause_text [OF s(2) assms(2), of "'' = ?''" "'' = ''"]
    string_clause_text [OF s(2) assms(2), of "'' != ?''" "'' != ''"]
    string_clause_text [OF s(3) assms(2), of "'' >= ?''" "'' >= ''"]
    string_clause_text [OF s(4) assms(2), of "'' < ?''" "'' < ''"]
    string_clause_text [OF s(5) assms(2), of "'' LIKE ?''" "'' LIKE ''"]
  show "map clause_text (single_clauses v) = condition_texts v"
    using t s(6) by (simp add: single_clauses_def condition_texts_def Let_def)
  show "concat (map clause_vars (single_clauses v)) = condition_operands v"
    using t by (simp add: single_clauses_def condition_operands_def Let_def)
qed


definition order_text :: "string list \<Rightarrow> string" where
  "order_text os = (if os = [] then [] else '' ORDER BY '' @ join '','' os)"

definition page_text :: "Pagination option \<Rightarrow> string" where
  "page_text p = limitSql (paged p NewBuilder) @ offsetSql (paged p NewBuilder)"

definition fields_text :: "string list \<Rightarrow> string" where
  "fields_text fs = (if column_list [] (map VString fs) = [] then ''*'' else column_list [] (map VString fs))"

definition conditions_text :: "string list \<Rightarrow> string" where
  "conditions_text ts = (if ts = [] then [] else ''WHERE '' @ join '' AND '' ts)"

lemma in_set_join: "x \<in> set (join sep ss) \<Longrightarrow> x \<in> set sep \<or> (\<exists>s \<in> set ss. x \<in> set s)"
  by (induction sep ss rule: join.induct) auto

lemma join_Nil_iff: "\<forall>t \<in> set ts. t \<noteq> [] \<Longrightarrow> join sep ts = [] \<longleftrightarrow> ts = []"
  by (induction sep ts rule: join.induct) auto

lemma dollar_itoa: "dollar \<notin> set (itoa i)"
proof -
  have "dollar \<notin> set (nat_dec n)" for n
    using nat_dec_digits [of n] by (auto simp: list_all_iff is_digit_def)
  then show ?thesis by (simp add: itoa_def)
qed

lemma paged_search:
  "bsearch (paged p b) = (case p of None \<Rightarrow> bsearch b
     | Some pg \<Rightarrow> (bsearch b)\<lparr>OffsetBy := (if POffset pg < 0 then [] else itoa (POffset pg)),
         LimitTo := (if PerPage pg < 0 then [] else itoa (PerPage pg))\<rparr>)"
  by (simp add: paged_def Limit_def Offset_def with_sql_def split: option.split)

lemma page_text_dollar: "dollar \<notin> set (page_text p)"
  by (cases p) (simp_all add: page_text_def limitSql_def offsetSql_def paged_search dollar_itoa NewBuilder_def
      empty_search_def)

lemma column_list_dollar:
  "dollar \<notin> set str \<Longrightarrow> \<forall>f \<in> set fs. dollar \<notin> set f \<Longrightarrow> dollar \<notin> set (column_list str (map VString fs))"
  by (induction fs arbitrary: str) simp_all

lemma order_text_dollar: "\<forall>t \<in> set os. dollar \<notin> set t \<Longrightarrow> dollar \<notin> set (order_text os)"
  by (auto simp: order_text_def dest: in_set_join)

text \<open>The names of the columns contain none of the two characters with a meaning in the builder.\<close>

definition plain_names :: "string list \<Rightarrow> bool" where
  "plain_names fs \<longleftrightarrow> (\<forall>f \<in> set fs. dollar \<notin> set f \<and> qmark \<notin> set f)"

lemma pk_order_cases:
  "foldl (\<lambda>pks col. if Contains (col_opts col) ''pk''
      then sql_column ''T'' (col_tag col) @ (if Contains (col_extopts col) ''AO'' then '' ASC'' else '' DESC'')
      else pks) pks cols \<in> insert pks ((\<lambda>(col, d). sql_column ''T'' (col_tag col) @ d) ` (set cols \<times> {'' ASC'', '' DESC''}))"
  by (induction cols arbitrary: pks rule: rev_induct) auto

lemma column_orders_dollar:
  assumes "plain_names (map col_tag cols)"
  shows "\<forall>t \<in> set (column_orders cols). dollar \<notin> set t"
proof -
  have c: "col \<in> set cols \<Longrightarrow> dollar \<notin> set (sql_column ''T'' (col_tag col))" for col
    using assms by (auto simp: plain_names_def sql_column_def)
  have "pk_order cols \<in> insert [] ((\<lambda>(col, d). sql_column ''T'' (col_tag col) @ d) ` (set cols \<times> {'' ASC'', '' DESC''}))"
    unfolding pk_order_def by (rule pk_order_cases)
  then have "dollar \<notin> set (pk_order cols)" using c by auto
  then show ?thesis
    using c by (auto simp: column_orders_def column_order_def split: if_splits option.splits)
qed

lemma text_clause_plain:
  assumes "dollar \<notin> set (col_tag col)" "t \<in> set (column_logic col)"
  shows "plain_where (text_clause t)"
  using assms
  by (auto simp: plain_where_def text_clause_def column_logic_def sql_column_def is_number_text_def re_space_def is_digit_def
      split: if_splits)


lemma ReadPrepare_single:
  assumes "Conditions st \<noteq> []" "\<forall>v \<in> set (Conditions st). single_values v" "cols \<noteq> []" "tables tb = Some keys"
    and "arrange [] = []"
  shows "\<exists>b0. Table tables tb NewBuilder = Ret b0 \<and> bsearch b0 = empty_search\<lparr>TableName := tb\<rparr> \<and>
    ReadPrepare pr jc arrange tables tb cols mk False m st
      = Ret (Inr (prepare_columns cols (more_wheres (concat (map single_clauses (Conditions st))) b0)))"
proof -
  obtain b0 where b0: "Table tables tb NewBuilder = Ret b0" "bsearch b0 = empty_search\<lparr>TableName := tb\<rparr>"
    using assms(4) by (simp add: Table_def NewBuilder_def Let_def)
  have f: "foldl (\<lambda>b v. prepare_order False v (prepare_range v b)) b0 (Conditions st) = b0"
    using assms(2) single_prepare(1,2) by (intro foldl_id) simp
  show ?thesis
    using b0 assms(1,3) prepare_conditions_single [OF assms(2), of pr jc b0 0 "[]"]
    by (intro exI [of _ b0]) (simp add: ReadPrepare_def f assms(5) add_groups_def)
qed

lemma where_text_texts:
  assumes "NotConditions s = []" "OrConditions s = []" "map clause_text (WhereConditions s) = ts" "\<forall>t \<in> set ts. t \<noteq> []"
  shows "where_text s = conditions_text ts"
  using assms join_Nil_iff [OF assms(4)] by (simp add: where_text_def conditions_text_def)

lemma condition_texts_not_Nil: "t \<in> set (condition_texts v) \<Longrightarrow> t \<noteq> []"
  by (auto simp: condition_texts_def sql_column_def)

lemma column_logic_not_Nil: "t \<in> set (column_logic col) \<Longrightarrow> t \<noteq> []"
  by (auto simp: column_logic_def sql_column_def split: if_splits)

lemma text_clauses:
  "map clause_text (map text_clause ts) = ts" "concat (map clause_vars (map text_clause ts)) = []"
  by (induction ts) (simp_all add: clause_text_def clause_vars_def text_clause_def)

lemma concat_map_concat: "concat (map f (concat (map g xs))) = concat (map (\<lambda>x. concat (map f (g x))) xs)"
  by (induction xs) simp_all

text \<open>The statement of a builder that only holds conditions with single values.\<close>

lemma Rows_statement_single:
  assumes "\<forall>v \<in> set vs. single_values v" "plain_names (map k_field vs)" "plain_names (map col_tag cols)"
    and "dollar \<notin> set tb" "bsearch b0 = empty_search\<lparr>TableName := tb\<rparr>"
  shows "Rows_statement fs cols readTag p (prepare_columns cols (more_wheres (concat (map single_clauses vs)) b0))
    = Ret (''SELECT  '' @ fields_text (GetDbFields fs cols readTag) @ '' FROM `'' @ tb @ ''` T  ''
        @ conditions_text (concat (map condition_texts vs) @ concat (map column_logic cols))
        @ order_text (column_orders cols) @ page_text p,
        concat (map condition_operands vs))"
proof -
  let ?ts = "concat (map column_logic cols)"
  let ?cs = "concat (map single_clauses vs) @ map text_clause ?ts"
  let ?fs = "GetDbFields fs cols readTag"
  let ?b = "paged p (select_fields ?fs (prepare_columns cols (more_wheres (concat (map single_clauses vs)) b0)))"
  have S: "bsearch (select_fields ?fs b) = (bsearch b)\<lparr>SelectCols := column_list [] (map VString ?fs)\<rparr>" for b
    by (simp add: select_fields_def Select_def with_sql_def)
  have w: "WhereConditions (bsearch ?b) = ?cs" "OrConditions (bsearch ?b) = []" "NotConditions (bsearch ?b) = []"
    "HavingCondition (bsearch ?b) = None" "\<not> RawQuery (bsearch ?b)"
    unfolding paged_search S prepare_columns_eq by (simp_all add: assms(5) empty_search_def split: option.split)
  have t: "selectSql ?b = fields_text ?fs" "QuotedTableName ?b = ''`'' @ tb @ ''` T''" "joinsSql ?b = '' ''"
    "tail_sql ?b = order_text (column_orders cols) @ page_text p"
    unfolding selectSql_def QuotedTableName_def joinsSql_def tail_sql_def groupSql_def orderSql_def limitSql_def offsetSql_def
      paged_search page_text_def S prepare_columns_eq
    by (simp_all add: assms(5) empty_search_def NewBuilder_def Quote_def fields_text_def order_text_def split: option.split)
  have names: "v \<in> set vs \<Longrightarrow> single_values v \<and> dollar \<notin> set (k_field v) \<and> qmark \<notin> set (k_field v)" for v
    using assms(1,2) by (simp add: plain_names_def)
  have tags: "col \<in> set cols \<Longrightarrow> dollar \<notin> set (col_tag col)" for col
    using assms(3) by (simp add: plain_names_def)
  have "\<forall>c \<in> set ?cs. plain_where c"
    using single_clauses_plain text_clause_plain names tags by fastforce
  then have plain: "plain_search (bsearch ?b)" unfolding plain_search_def w by simp
  have "set ?fs \<subseteq> col_tag ` set cols" by (auto simp: GetDbFields_def)
  then have "dollar \<notin> set (fields_text ?fs)"
    using tags column_list_dollar [of "[]" ?fs] by (auto simp: fields_text_def)
  then have d: "dollar \<notin> set (selectSql ?b @ QuotedTableName ?b @ joinsSql ?b @ tail_sql ?b)"
    unfolding t using assms(4) order_text_dollar [OF column_orders_dollar [OF assms(3)]] page_text_dollar by simp
  have "map clause_text (concat (map single_clauses vs)) = concat (map condition_texts vs)"
    using names single_clauses_text(1) by (induction vs) simp_all
  moreover have v: "concat (map clause_vars (concat (map single_clauses vs))) = concat (map condition_operands vs)"
    using names single_clauses_text(2) unfolding concat_map_concat by (intro arg_cong [where f = concat] map_cong) simp_all
  ultimately have "map clause_text (WhereConditions (bsearch ?b)) = concat (map condition_texts vs) @ ?ts"
    unfolding w map_append text_clauses by simp
  then have wt: "where_text (bsearch ?b) = conditions_text (concat (map condition_texts vs) @ ?ts)"
    using condition_texts_not_Nil column_logic_not_Nil by (intro where_text_texts w) auto
  have "bound_vars (bsearch ?b) = concat (map condition_operands vs)"
    unfolding bound_vars_def w map_append concat_append v text_clauses by simp
  then show ?thesis
    using find_plain [OF plain w(4,5) d] unfolding Rows_statement_def wt t by simp
qed


section \<open>Properties\<close>

text \<open>C7: When the conditions of a search have single strings as values, the statement is fixed by the names of the
  columns and by which operands are given: no character of a value gets into the text. The values are bound as
  variables, in the order of the conditions, a negated one twice; rows marked as deleted are left out, and the
  order and the page follow.\<close>

theorem search_values_bound:
  assumes "Conditions st \<noteq> []" "\<forall>v \<in> set (Conditions st). single_values v" "plain_names (map k_field (Conditions st))"
    and "cols \<noteq> []" "plain_names (map col_tag cols)" "tables tb = Some keys" "dollar \<notin> set tb" "arrange [] = []"
  shows "\<exists>b. ReadPrepare pr jc arrange tables tb cols mk False m st = Ret (Inr b) \<and>
    Rows_statement fs cols readTag p b
      = Ret (''SELECT  '' @ fields_text (GetDbFields fs cols readTag) @ '' FROM `'' @ tb @ ''` T  ''
          @ conditions_text (concat (map condition_texts (Conditions st)) @ concat (map column_logic cols))
          @ order_text (column_orders cols) @ page_text p,
          concat (map condition_operands (Conditions st)))"
  using ReadPrepare_single [where pr = pr and jc = jc and arrange = arrange and tables = tables and mk = mk and m = m,
      OF assms(1,2,4,6,8)]
    Rows_statement_single [OF assms(2,3,5,7)]
  by metis

text \<open>The range of times that a client gives with start and end or with date has no effect on a search: unless a
  column is called TR, the statement is prepared from the same conditions as without it. Neither has it one where the
  range is given as an equality, as when one row is fetched: such a condition gives no clause.\<close>

lemma search_time_range_ignored:
  assumes "Init_query loc now params = Ret st" "\<forall>col \<in> set cols. col_tag col \<noteq> ''TR''"
  shows "ReadPrepare pr jc arrange tables tb cols mk d m (PreSearch loc now cols st)
      = ReadPrepare pr jc arrange tables tb cols mk d m (PreSearch loc now cols (st\<lparr>e_timerange := None\<rparr>))
    \<and> DoWhere pr ((empty_condition f)\<lparr>k_is := RTimeRange True s e\<rparr>) b = Ret b"
  using ReadPrepare_cong [OF search_conditions [OF Init_query_pointers [OF assms(1)] assms(2)]]
  by (simp add: DoWhere_def empty_condition_def buildWhereRaw_def where_raw_def where_not_def where_gt_def where_lt_def
      where_like_def)

text \<open>C39: A page starts at 1 and has between 1 and 1000 rows, 100 unless the client asks for another number. The
  statement skips the rows of the pages before it as long as their number is below \<open>2 ^ 63\<close>; beyond that the offset
  is another number.\<close>

theorem page_bounds:
  "let pg = NewPagination pp p; skipped = (Page pg - 1) * PerPage pg
   in 1 \<le> Page pg \<and> 1 \<le> PerPage pg \<and> PerPage pg \<le> 1000
     \<and> limitSql (paged (Some pg) b) = '' LIMIT '' @ itoa (PerPage pg)
     \<and> (if skipped < 2 ^ 63 then offsetSql (paged (Some pg) b) = '' OFFSET '' @ itoa skipped else POffset pg \<noteq> skipped)"
proof -
  let ?pg = "NewPagination pp p"
  note n = NewPagination_page [of pp p] NewPagination_perPage [of pp p] NewPagination_exact [of pp p]
  have l: "limitSql (paged (Some ?pg) b) = '' LIMIT '' @ itoa (PerPage ?pg)"
    using n by (simp add: limitSql_def paged_search itoa_not_Nil)
  have "0 \<le> (Page ?pg - 1) * PerPage ?pg" using n by simp
  then have "(Page ?pg - 1) * PerPage ?pg < 2 ^ 63
      \<Longrightarrow> offsetSql (paged (Some ?pg) b) = '' OFFSET '' @ itoa ((Page ?pg - 1) * PerPage ?pg)"
    using n(3) by (simp add: offsetSql_def paged_search itoa_not_Nil del: mult_eq_0_iff)
  with n l show ?thesis unfolding Let_def by auto
qed


definition example_cols :: "StructColumn list" where
  "example_cols = [\<lparr>col_tag = ''id'', col_opts = ''pk'', col_ext = [], col_extopts = [], col_type = ''string''\<rparr>,
     \<lparr>col_tag = ''name'', col_opts = [], col_ext = [], col_extopts = ''C'', col_type = ''string''\<rparr>]"

definition example_state :: RestState where
  "example_state = new_request\<lparr>heap := [(empty_condition ''name'')\<lparr>k_not := RString ''x?''\<rparr>], r_conditions := [0]\<rparr>"

theorem search_values_bound_witness:
  "\<exists>b. ReadPrepare (\<lambda>c v. []) (\<lambda>t. None) (\<lambda>gs. gs) [''users'' \<mapsto> [''id'']] ''users'' example_cols
       \<lparr>m_pkey = ([], []), m_key = ([], []), m_union = [], m_fields = []\<rparr> False False example_state = Ret (Inr b) \<and>
     Rows_statement [] example_cols True (Some \<lparr>Page = 2, PerPage = 10, POffset = 10\<rparr>) b
       = Ret (''SELECT  T.`id`, T.`name` FROM `users` T  WHERE T.`name` = ? AND T.`name` != ?''
              @ '' ORDER BY T.`id` DESC LIMIT 10 OFFSET 10'', [VString ''x?'', VString ''x?''])"
proof -
  have c: "Conditions example_state = [(empty_condition ''name'')\<lparr>k_not := RString ''x?''\<rparr>]"
    by (simp add: example_state_def Conditions_def)
  have h: "Conditions example_state \<noteq> []" "\<forall>v \<in> set (Conditions example_state). single_values v"
    "plain_names (map k_field (Conditions example_state))"
    unfolding c by (simp_all add: single_values_def empty_condition_def plain_names_def)
  have e: "example_cols \<noteq> []" "plain_names (map col_tag example_cols)" "[''users'' \<mapsto> [''id'']] ''users'' = Some [''id'']"
    "dollar \<notin> set ''users''"
    by (simp_all add: example_cols_def plain_names_def)
  have t: "fields_text (GetDbFields [] example_cols True) = ''T.`id`, T.`name`''"
    "concat (map condition_texts (Conditions example_state)) = [''T.`name` = ?'', ''T.`name` != ?'']"
    "concat (map column_logic example_cols) = []" "order_text (column_orders example_cols) = '' ORDER BY T.`id` DESC''"
    "page_text (Some \<lparr>Page = 2, PerPage = 10, POffset = 10\<rparr>) = '' LIMIT 10 OFFSET 10''"
    "concat (map condition_operands (Conditions example_state)) = [VString ''x?'', VString ''x?'']"
    by code_simp+
  show ?thesis
    using search_values_bound [where tables = "[''users'' \<mapsto> [''id'']]" and tb = "''users''" and arrange = "\<lambda>gs. gs" and pr = "\<lambda>c v. []" and jc = "\<lambda>t. None"
        and m = False and fs = "[]" and readTag = True and p = "Some \<lparr>Page = 2, PerPage = 10, POffset = 10\<rparr>"
        and mk = "\<lparr>m_pkey = ([], []), m_key = ([], []), m_union = [], m_fields = []\<rparr>", OF h e]
    unfolding t by (simp add: conditions_text_def)
qed

lemma search_time_range_ignored_witness:
  "\<exists>st. Init_query 0 zeroTime [(''date'', [''2020-01-01'']), (''name'', [''x''])] = Ret st \<and>
     ReadPrepare (\<lambda>c v. []) (\<lambda>t. None) (\<lambda>gs. gs) [''users'' \<mapsto> [''id'']] ''users'' example_cols
       \<lparr>m_pkey = ([], []), m_key = ([], []), m_union = [], m_fields = []\<rparr> False False (PreSearch 0 zeroTime example_cols st)
     = ReadPrepare (\<lambda>c v. []) (\<lambda>t. None) (\<lambda>gs. gs) [''users'' \<mapsto> [''id'']] ''users'' example_cols
       \<lparr>m_pkey = ([], []), m_key = ([], []), m_union = [], m_fields = []\<rparr> False False
       (PreSearch 0 zeroTime example_cols (st\<lparr>e_timerange := None\<rparr>))"
proof -
  have "condition_key ''name'' = ''name''" by code_simp
  then have "\<forall>kv \<in> set [(''date'', [''2020-01-01'']), (''name'', [''x''])]. good_param kv"
    by (simp add: good_param_def reserved_def)
  then obtain st where st: "Init_query 0 zeroTime [(''date'', [''2020-01-01'']), (''name'', [''x''])] = Ret st"
    unfolding Init_query_returns [of 0 zeroTime, symmetric] by blast
  have "\<forall>col \<in> set example_cols. col_tag col \<noteq> ''TR''" by (simp add: example_cols_def)
  from search_time_range_ignored [OF st this] st show ?thesis by blast
qed

end
