(* ===== verification/RestModel.thy ===== *)
theory RestModel
  imports RestRead
begin

text \<open>
  The fields of a model as the REST layer sees them through its columns: \<open>rest/model.go\<close> and the setting of
  fields from text of \<open>utils/struct.go\<close>.

  A model is the list of its columns with the values of their fields. Integers carry the number
  of bits of their type, 0 for \<open>int\<close> and \<open>uint\<close>; a field inside an embedded nil pointer is \<open>MInvalid\<close>.
  \<open>MOther\<close> is a value of another type whose zero value is empty (a struct, a slice, a map), with whether
  it is empty. Floating-point numbers are kept as text: reading and printing them is the parameter \<open>fl\<close>.
\<close>

section \<open>Values of fields\<close>

datatype mvalue =
    MInvalid
  | MString string
  | MPString "string option"
  | MInt nat int
  | MPInt nat "int option"
  | MUint nat int
  | MPUint nat "int option"
  | MBool bool
  | MPBool "bool option"
  | MFloat nat string
  | MPFloat nat "string option"
  | MOther bool string

record floats =
  fl_parse :: "nat \<Rightarrow> string \<Rightarrow> string option"
  fl_print :: "string \<Rightarrow> string"

type_synonym model = "(StructColumn \<times> mvalue) list"

text \<open>\<open>IsEmptyValue\<close>: numbers and booleans are never empty.\<close>

fun empty_value :: "mvalue \<Rightarrow> bool" where
  "empty_value (MString s) \<longleftrightarrow> s = []"
| "empty_value (MPString p) \<longleftrightarrow> p = None"
| "empty_value (MPInt b p) \<longleftrightarrow> p = None"
| "empty_value (MPUint b p) \<longleftrightarrow> p = None"
| "empty_value (MPBool p) \<longleftrightarrow> p = None"
| "empty_value (MPFloat b p) \<longleftrightarrow> p = None"
| "empty_value (MOther e s) \<longleftrightarrow> e"
| "empty_value v \<longleftrightarrow> False"

text \<open>\<open>fv.IsValid() && !utils.IsEmptyValue(fv)\<close>.\<close>

definition has_value :: "mvalue \<Rightarrow> bool" where
  "has_value v \<longleftrightarrow> v \<noteq> MInvalid \<and> \<not> empty_value v"

fun GetRealString :: "floats \<Rightarrow> mvalue \<Rightarrow> string" where
  "GetRealString fl (MString s) = s"
| "GetRealString fl (MPString (Some s)) = s"
| "GetRealString fl (MInt b i) = itoa i"
| "GetRealString fl (MPInt b (Some i)) = itoa i"
| "GetRealString fl (MFloat b x) = fl_print fl x"
| "GetRealString fl (MPFloat b (Some x)) = fl_print fl x"
| "GetRealString fl v = []"

text \<open>The switch over the types of keys; other types give no text.\<close>

fun key_text :: "mvalue \<Rightarrow> string" where
  "key_text (MString s) = s"
| "key_text (MPString (Some s)) = s"
| "key_text (MInt b i) = (if b = 0 \<or> b = 64 then itoa i else [])"
| "key_text (MPInt b (Some i)) = (if b = 0 \<or> b = 64 then itoa i else [])"
| "key_text v = []"

text \<open>\<open>reflect.Zero\<close>.\<close>

fun zero_of :: "mvalue \<Rightarrow> mvalue" where
  "zero_of MInvalid = MInvalid"
| "zero_of (MString s) = MString []"
| "zero_of (MPString p) = MPString None"
| "zero_of (MInt b i) = MInt b 0"
| "zero_of (MPInt b p) = MPInt b None"
| "zero_of (MUint b i) = MUint b 0"
| "zero_of (MPUint b p) = MPUint b None"
| "zero_of (MBool x) = MBool False"
| "zero_of (MPBool p) = MPBool None"
| "zero_of (MFloat b x) = MFloat b ''0''"
| "zero_of (MPFloat b p) = MPFloat b None"
| "zero_of (MOther e s) = MOther True []"

section \<open>Setting a field from text\<close>

text \<open>\<open>strconv.ParseInt\<close>, \<open>ParseUint\<close> and \<open>ParseBool\<close>; a number of bits of 0 stands for 64.\<close>

definition bits_of :: "nat \<Rightarrow> nat" where
  "bits_of b = (if b = 0 then 64 else b)"

definition ParseInt :: "nat \<Rightarrow> string \<Rightarrow> int option" where
  "ParseInt b s =
     (let body = (if has_prefix s ''-'' \<or> has_prefix s ''+'' then tl s else s)
      in case parse_dec body of
           None \<Rightarrow> None
         | Some n \<Rightarrow>
             let v = (if has_prefix s ''-'' then - int n else int n)
             in if - (2 ^ (bits_of b - 1)) \<le> v \<and> v < 2 ^ (bits_of b - 1) then Some v else None)"

definition ParseUint :: "nat \<Rightarrow> string \<Rightarrow> int option" where
  "ParseUint b s =
     (case parse_dec s of
        None \<Rightarrow> None
      | Some n \<Rightarrow> if int n < 2 ^ bits_of b then Some (int n) else None)"

definition ParseBool :: "string \<Rightarrow> bool option" where
  "ParseBool s =
     (if s \<in> set [''1'', ''t'', ''T'', ''TRUE'', ''true'', ''True''] then Some True
      else if s \<in> set [''0'', ''f'', ''F'', ''FALSE'', ''false'', ''False''] then Some False else None)"

definition or_text_if_empty :: "string \<Rightarrow> string \<Rightarrow> string" where
  "or_text_if_empty s d = (if s = [] then d else s)"

definition set_parsed :: "('a \<Rightarrow> mvalue) \<Rightarrow> 'a option \<Rightarrow> mvalue \<Rightarrow> bool \<times> mvalue" where
  "set_parsed put r old = (case r of Some x \<Rightarrow> (True, put x) | None \<Rightarrow> (False, old))"

text \<open>\<open>SetWithProperType\<close> with a text: whether it returned no error, and the new value. Asking an
  invalid value for its type panics; an empty text leaves a string pointer as it is.\<close>

fun SetWithProperType :: "floats \<Rightarrow> string \<Rightarrow> mvalue \<Rightarrow> (bool \<times> mvalue) outcome" where
  "SetWithProperType fl s MInvalid = Panic (PanicMsg ''reflect: call of reflect.Value.Type on zero Value'')"
| "SetWithProperType fl s (MInt b i) = Ret (set_parsed (MInt b) (ParseInt b (or_text_if_empty s ''0'')) (MInt b i))"
| "SetWithProperType fl s (MPInt b p) =
     Ret (set_parsed (MPInt b \<circ> Some) (ParseInt b (or_text_if_empty s ''0'')) (MPInt b p))"
| "SetWithProperType fl s (MUint b i) = Ret (set_parsed (MUint b) (ParseUint b (or_text_if_empty s ''0'')) (MUint b i))"
| "SetWithProperType fl s (MPUint b p) =
     Ret (set_parsed (MPUint b \<circ> Some) (ParseUint b (or_text_if_empty s ''0'')) (MPUint b p))"
| "SetWithProperType fl s (MBool x) = Ret (set_parsed MBool (ParseBool (or_text_if_empty s ''false'')) (MBool x))"
| "SetWithProperType fl s (MPBool p) =
     Ret (set_parsed (MPBool \<circ> Some) (ParseBool (or_text_if_empty s ''false'')) (MPBool p))"
| "SetWithProperType fl s (MFloat b x) =
     Ret (set_parsed (MFloat b) (fl_parse fl b (or_text_if_empty s ''0.0'')) (MFloat b x))"
| "SetWithProperType fl s (MPFloat b p) =
     Ret (set_parsed (MPFloat b \<circ> Some) (fl_parse fl b (or_text_if_empty s ''0.0'')) (MPFloat b p))"
| "SetWithProperType fl s (MString x) = Ret (True, MString s)"
| "SetWithProperType fl s (MPString p) = Ret (True, if s = [] then MPString p else MPString (Some s))"
| "SetWithProperType fl s (MOther e x) = Ret (False, MOther e x)"

text \<open>\<open>ImportValue\<close>: the columns in order, for each the options in the order the map is iterated. Only the
  last error is returned.\<close>

fun import_field :: "floats \<Rightarrow> StructColumn \<Rightarrow> (string \<times> string) list \<Rightarrow> bool \<times> mvalue \<Rightarrow> (bool \<times> mvalue) outcome" where
  "import_field fl col [] r = Ret r"
| "import_field fl col ((tag, s) # kvs) r =
     (if Contains (col_opts col) tag
      then bind_outcome (SetWithProperType fl s (snd r)) (import_field fl col kvs)
      else import_field fl col kvs r)"

fun import_values :: "floats \<Rightarrow> (string \<times> string) list \<Rightarrow> bool \<Rightarrow> model \<Rightarrow> (bool \<times> model) outcome" where
  "import_values fl kvs ok [] = Ret (ok, [])"
| "import_values fl kvs ok ((col, v) # m) =
     bind_outcome (import_field fl col kvs (ok, v)) (\<lambda>(ok', v').
     bind_outcome (import_values fl kvs ok' m) (\<lambda>(ok'', m'). Ret (ok'', (col, v') # m')))"

definition ImportValue :: "floats \<Rightarrow> (string \<times> string) list \<Rightarrow> model \<Rightarrow> (bool \<times> model) outcome" where
  "ImportValue fl kvs m = import_values fl kvs True m"

section \<open>Keys\<close>

definition key_value_text :: "mvalue \<Rightarrow> string" where
  "key_value_text v = (if has_value v then key_text v else [])"

text \<open>\<open>primaryKey\<close>: the first column marked as primary key, its value as text, and whether the database counts it up.\<close>

definition generated :: "StructColumn \<Rightarrow> bool" where
  "generated col \<longleftrightarrow> Contains (col_opts col) ''na'' \<or> Contains (col_extopts col) ''G'' \<and> col_ext col \<noteq> []"

fun primaryKey :: "model \<Rightarrow> string \<times> string \<times> bool" where
  "primaryKey [] = ([], [], False)"
| "primaryKey ((col, v) # m) =
     (if Contains (col_opts col) ''pk'' then (col_tag col, key_value_text v, \<not> generated col) else primaryKey m)"

definition pk_field :: "model \<Rightarrow> string" where
  "pk_field m = fst (primaryKey m)"

definition pk_text :: "model \<Rightarrow> string" where
  "pk_text m = fst (snd (primaryKey m))"

text \<open>\<open>Key\<close>: the first field with a value that is a primary key or a key.\<close>

fun Key :: "model \<Rightarrow> string \<times> string \<times> bool" where
  "Key [] = ([], [], False)"
| "Key ((col, v) # m) =
     (if has_value v \<and> (Contains (col_opts col) ''pk'' \<or> Contains (col_opts col) ''k'')
      then (col_tag col, key_text v, Contains (col_opts col) ''pk'') else Key m)"

text \<open>\<open>UnionKeys\<close>: all of them or nil; a map as the list of its pairs.\<close>

fun map_put :: "string \<Rightarrow> string \<Rightarrow> (string \<times> string) list \<Rightarrow> (string \<times> string) list" where
  "map_put k v [] = [(k, v)]"
| "map_put k v ((k', v') # kvs) = (if k' = k then (k, v) # kvs else (k', v') # map_put k v kvs)"

definition union_key :: "bool \<Rightarrow> StructColumn \<times> mvalue \<Rightarrow> (string \<times> string) list \<times> nat \<Rightarrow> (string \<times> string) list \<times> nat" where
  "union_key withValue cv a =
     (let (col, v) = cv; (tmp, cnt) = a in
      if Contains (col_opts col) ''uk'' then
        (let tmp1 = (if \<not> withValue then map_put (col_tag col) [] tmp else tmp)
         in (if key_value_text v \<noteq> [] then map_put (col_tag col) (key_value_text v) tmp1 else tmp1, cnt + 1))
      else (tmp, cnt))"

definition UnionKeys :: "bool \<Rightarrow> model \<Rightarrow> (string \<times> string) list option" where
  "UnionKeys withValue m =
     (let (tmp, cnt) = foldl (\<lambda>a cv. union_key withValue cv a) ([], 0) m
      in if m \<noteq> [] \<and> cnt = length tmp then Some tmp else None)"

definition union_keys :: "model \<Rightarrow> (string \<times> string) list" where
  "union_keys m = (case UnionKeys True m of Some uks \<Rightarrow> uks | None \<Rightarrow> [])"

definition canUpdate :: "model \<Rightarrow> bool" where
  "canUpdate m \<longleftrightarrow> pk_field m \<noteq> [] \<and> pk_text m \<noteq> []"

text \<open>The fields that identify a row when no key does.\<close>

definition conditional_fields :: "floats \<Rightarrow> model \<Rightarrow> (string \<times> string) list" where
  "conditional_fields fl m =
     map (\<lambda>(col, v). (col_tag col, GetRealString fl v))
       (filter (\<lambda>(col, v). (Contains (col_extopts col) ''C'' \<or> Contains (col_opts col) ''uk'' \<or> Contains (col_opts col) ''k'')
          \<and> has_value v) m)"

definition model_keys :: "floats \<Rightarrow> ((string \<times> string) list \<Rightarrow> (string \<times> string) list) \<Rightarrow> model \<Rightarrow> ModelKeys" where
  "model_keys fl iter m =
     \<lparr>m_pkey = (pk_field m, pk_text m), m_key = (fst (Key m), fst (snd (Key m))), m_union = iter (union_keys m),
      m_fields = conditional_fields fl m\<rparr>"

section \<open>What a model shows\<close>

text \<open>\<open>Filter\<close> fills a new model with the primary key and the fields that are returned after a write;
  \<open>Protect\<close> empties the secret fields. An invalid value can neither be set nor asked for its type.\<close>

fun map_fields :: "(StructColumn \<Rightarrow> mvalue \<Rightarrow> mvalue outcome) \<Rightarrow> model \<Rightarrow> model outcome" where
  "map_fields f [] = Ret []"
| "map_fields f ((col, v) # m) =
     bind_outcome (f col v) (\<lambda>v'. bind_outcome (map_fields f m) (\<lambda>m'. Ret ((col, v') # m')))"

definition returned_column :: "StructColumn \<Rightarrow> bool" where
  "returned_column col \<longleftrightarrow> Contains (col_opts col) ''pk'' \<or> Contains (col_extopts col) ''RET''"

definition filter_field :: "StructColumn \<Rightarrow> mvalue \<Rightarrow> mvalue outcome" where
  "filter_field col v =
     (if returned_column col
      then (if v = MInvalid then Panic (PanicMsg ''reflect: call of reflect.Value.Set on zero Value'') else Ret v)
      else Ret (zero_of v))"

definition Filter :: "model \<Rightarrow> model outcome" where
  "Filter m = map_fields filter_field m"

definition protect_field :: "StructColumn \<Rightarrow> mvalue \<Rightarrow> mvalue outcome" where
  "protect_field col v =
     (if Contains (col_extopts col) ''S''
      then (if v = MInvalid then Panic (PanicMsg ''reflect: call of reflect.Value.Type on zero Value'') else Ret (zero_of v))
      else Ret v)"

definition Protect :: "model \<Rightarrow> model outcome" where
  "Protect m = map_fields protect_field m"

text \<open>\<open>underscore\<close>, for the name of the table.\<close>

definition upper_letter :: "char \<Rightarrow> bool" where
  "upper_letter c \<longleftrightarrow> (of_char c :: nat) \<in> {65..90}"

fun rest_underscore_from :: "nat \<Rightarrow> string \<Rightarrow> string" where
  "rest_underscore_from i [] = []"
| "rest_underscore_from i (c # s) =
     (if upper_letter c then (if 0 < i then ''_'' else []) @ [char_of (of_char c + 32 :: nat)] else [c])
     @ rest_underscore_from (i + 1) s"

definition rest_underscore :: "string \<Rightarrow> string" where
  "rest_underscore s = rest_underscore_from 0 s"


section \<open>Lemmas\<close>

lemma map_fields_Ret:
  "map_fields f m = Ret m' \<Longrightarrow> length m' = length m \<and>
     (\<forall>i < length m. fst (m' ! i) = fst (m ! i) \<and> f (fst (m ! i)) (snd (m ! i)) = Ret (snd (m' ! i)))"
proof (induction m arbitrary: m')
  case (Cons cv m)
  obtain col v where cv: "cv = (col, v)" by (cases cv)
  obtain v' m1 where v: "f col v = Ret v'" "map_fields f m = Ret m1" "m' = (col, v') # m1"
    using Cons.prems by (auto simp: cv elim!: bind_outcome_RetE)
  show ?case using Cons.IH [OF v(2)] v by (auto simp: cv less_Suc_eq_0_disj)
qed simp

lemma map_fields_ok:
  "\<forall>(col, v) \<in> set m. \<exists>v'. f col v = Ret v' \<Longrightarrow> \<exists>m'. map_fields f m = Ret m'"
  by (induction m) fastforce+

lemma zero_of_zero [simp]: "zero_of (zero_of v) = zero_of v"
  by (cases v) simp_all

lemma map_put_length: "length (map_put k v kvs) = (if k \<in> fst ` set kvs then length kvs else length kvs + 1)"
  by (induction k v kvs rule: map_put.induct) auto

text \<open>Setting the primary key from a text that is not empty, where it is a string, an integer or a
  pointer to one.\<close>

definition text_key :: "mvalue \<Rightarrow> bool" where
  "text_key v = (case v of MString s \<Rightarrow> True | MPString p \<Rightarrow> True | _ \<Rightarrow> False)"

lemma set_text_key:
  assumes "text_key v" "s \<noteq> []"
  shows "\<exists>v'. SetWithProperType fl s v = Ret (True, v') \<and> key_value_text v' = s \<and> text_key v'"
  using assms by (cases v) (auto simp: text_key_def key_value_text_def has_value_def)

text \<open>Exactly one primary key, of type string or pointer to string.\<close>

fun pk_model :: "model \<Rightarrow> bool" where
  "pk_model [] = False"
| "pk_model ((col, v) # m) =
     (if Contains (col_opts col) ''pk'' then text_key v \<and> col_tag col \<noteq> []
        \<and> (\<forall>c \<in> set m. \<not> Contains (col_opts (fst c)) ''pk'') else pk_model m)"

lemma import_none:
  "\<forall>c \<in> set m. \<not> Contains (col_opts (fst c)) tag \<Longrightarrow> import_values fl [(tag, s)] ok m = Ret (ok, m)"
  by (induction m) auto

lemma ImportValue_pk:
  assumes "pk_model m" "s \<noteq> []"
  shows "\<exists>m'. ImportValue fl [(''pk'', s)] m = Ret (True, m') \<and> pk_text m' = s \<and> pk_field m' = pk_field m
    \<and> map fst m' = map fst m \<and> pk_model m' \<and> pk_field m \<noteq> []"
  using assms(1) unfolding ImportValue_def
proof (induction m)
  case (Cons cv m)
  obtain col v where cv: "cv = (col, v)" by (cases cv)
  show ?case
  proof (cases "Contains (col_opts col) ''pk''")
    case True
    then obtain v' where "SetWithProperType fl s v = Ret (True, v')" "key_value_text v' = s" "text_key v'"
      using set_text_key [OF _ assms(2), of v fl] Cons.prems by (auto simp: cv)
    moreover have "import_values fl [(''pk'', s)] True m = Ret (True, m)"
      using Cons.prems True by (intro import_none) (auto simp: cv)
    ultimately show ?thesis
      using True Cons.prems by (simp add: cv pk_text_def pk_field_def)
  next
    case False
    then show ?thesis using Cons by (auto simp: cv pk_text_def pk_field_def)
  qed
qed simp

end
