(* ===== verification/RestRecord.thy ===== *)
theory RestRecord
  imports RestModel WCache WorkJob
begin

text \<open>
  Records: the rows of \<open>rest/model.go\<close> behind the cache of \<open>rest/cache.go\<close>, with the validation of models.

  An \<open>Inst\<close> is a model with its \<open>*REST\<close>. The mapper's \<open>Find\<close>, \<open>Insert\<close> and \<open>Update\<close> on the database of type
  \<open>'d\<close> are operations of the record \<open>Layer\<close>, with the other parameters: the order in which maps are iterated,
  the hash function of the cache, the JSON decoder, the zoo of keepers and what \<open>Bind\<close> does.
  Statements reach \<open>Find\<close> as texts with their variables. A cached value is a copy of the model. The
  goroutine that writes to the search index is left out.
\<close>

section \<open>State\<close>

datatype record_error =
    ErrRead rest_error
  | ErrNoRecord
  | ErrConflict
  | ErrEmptyModel
  | ErrNotNeedUpdate
  | ErrSet
  | ErrInvalidField string
  | ErrRequired string
  | ErrSetField string
  | ErrTimeType string
  | ErrOther go_error
  | ErrDb string

text \<open>A keeper is called with whether a record is created, the position of its column and the model.\<close>

type_synonym keeper = "bool \<Rightarrow> nat \<Rightarrow> model \<Rightarrow> (record_error option \<times> model) outcome"

record Inst =
  vals :: model
  rst :: RestState
  i_action :: string
  i_older :: "model option"
  i_filled :: bool
  i_saved :: bool
  i_guest :: bool

record 'd Layer =
  l_table :: string
  l_tables :: "string \<rightharpoonup> string list"
  l_joins :: "string \<Rightarrow> StructColumn list option"
  l_pr :: "char \<Rightarrow> rvalue \<Rightarrow> string"
  l_fl :: floats
  l_arrange :: "groups \<Rightarrow> groups"
  l_iter :: "(string \<times> string) list \<Rightarrow> (string \<times> string) list"
  l_loc :: int
  l_hash :: "string \<Rightarrow> 64 word"
  l_bind :: "string \<Rightarrow> model \<Rightarrow> model"
  l_json :: "string \<Rightarrow> model \<Rightarrow> model option"
  l_zoo :: "string \<Rightarrow> keeper option"
  l_find :: "'d \<Rightarrow> string \<times> gvalue list \<Rightarrow> string + model list"
  l_count :: "'d \<Rightarrow> string \<times> gvalue list \<Rightarrow> string + int"
  l_insert :: "'d \<Rightarrow> model \<Rightarrow> 'd \<times> (string + model)"
  l_update :: "'d \<Rightarrow> model \<Rightarrow> 'd \<times> (string + int)"

record 'd Store =
  s_db :: 'd
  s_cache :: "model Cache"

definition unix :: "Time \<Rightarrow> int" where
  "unix t = tsec t - 62135596800"

section \<open>The cache of records\<close>

definition CACHE_EXPIRE :: int where
  "CACHE_EXPIRE = 30"

definition LocalGet :: "'d Layer \<Rightarrow> Time \<Rightarrow> string \<Rightarrow> 'd Store \<Rightarrow> model option \<times> 'd Store" where
  "LocalGet l now key s =
     (if key \<noteq> [] then
        (case Cache_Get (l_hash l) (Some key) (unix now) (s_cache s) of
           (r, c) \<Rightarrow> (case r of Inr v \<Rightarrow> v | Inl e \<Rightarrow> None, s\<lparr>s_cache := c\<rparr>))
      else (None, s))"

definition LocalSet :: "'d Layer \<Rightarrow> Time \<Rightarrow> string \<Rightarrow> model \<Rightarrow> int \<Rightarrow> 'd Store \<Rightarrow> 'd Store" where
  "LocalSet l now key m ex s = s\<lparr>s_cache := snd (Cache_Set (l_hash l) (Some key) m ex (unix now) (s_cache s))\<rparr>"

definition LocalDel :: "'d Layer \<Rightarrow> string \<Rightarrow> 'd Store \<Rightarrow> 'd Store" where
  "LocalDel l key s = s\<lparr>s_cache := snd (Cache_Del (l_hash l) (Some key) (s_cache s))\<rparr>"

section \<open>Rows\<close>

definition set_is :: "'d Layer \<Rightarrow> Time \<Rightarrow> string \<Rightarrow> string \<Rightarrow> Inst \<Rightarrow> Inst" where
  "set_is l now f v m =
     m\<lparr>rst := SetNew (l_loc l) now (map fst (vals m)) (new_or_nil CIs f (RString v)) (rst m)\<rparr>"

definition Row_statement :: "'d Layer \<Rightarrow> Inst \<Rightarrow> (rest_error + string \<times> gvalue list) outcome" where
  "Row_statement l m =
     (let cols = map fst (vals m)
      in bind_outcome (ReadPrepare (l_pr l) (l_joins l) (l_arrange l) (l_tables l) (l_table l) cols
             (model_keys (l_fl l) (l_iter l) (vals m)) False True (rst m)) (\<lambda>r.
           case r of
             Inl e \<Rightarrow> Ret (Inl e)
           | Inr b \<Rightarrow>
               bind_outcome (Builder_Find (Limit (VString ''1'') (select_fields (GetDbFields (r_fields (rst m)) cols False) b)))
                 (\<lambda>stmt. Ret (Inr stmt))))"

definition Row :: "'d Layer \<Rightarrow> Time \<Rightarrow> (model \<Rightarrow> model) \<Rightarrow> string \<Rightarrow> 'd \<Rightarrow> Inst \<Rightarrow> (Inst \<times> (record_error + model)) outcome" where
  "Row l now bnd rk d m =
     (let pf = pk_field (vals m); pv = pk_text (vals m);
          m1 = (if pv \<noteq> [] then set_is l now pf pv m
                else if rk \<noteq> [] then set_is l now pf rk m
                else m\<lparr>vals := bnd (vals m)\<rparr>)
      in bind_outcome (Row_statement l m1) (\<lambda>r.
           Ret (m1, case r of
             Inl e \<Rightarrow> Inl (ErrRead e)
           | Inr stmt \<Rightarrow>
               (case l_find l d stmt of
                  Inl e \<Rightarrow> Inl (ErrDb e)
                | Inr [] \<Rightarrow> Inl ErrNoRecord
                | Inr (row # rows) \<Rightarrow> Inr row))))"

definition CreateRow :: "'d Layer \<Rightarrow> 'd Store \<Rightarrow> Inst \<Rightarrow> 'd Store \<times> Inst \<times> (record_error + model)" where
  "CreateRow l s m =
     (if i_saved m then (s, m, Inr (vals m))
      else case l_insert l (s_db s) (vals m) of
        (d, Inl e) \<Rightarrow> (s\<lparr>s_db := d\<rparr>, m, Inl (ErrDb e))
      | (d, Inr v) \<Rightarrow> (s\<lparr>s_db := d\<rparr>, m\<lparr>vals := v, i_saved := True\<rparr>, Inr v))"

definition do_update :: "'d Layer \<Rightarrow> 'd Store \<Rightarrow> Inst \<Rightarrow> 'd Store \<times> (record_error + int)" where
  "do_update l s m =
     (case l_update l (s_db s) (vals m) of
        (d, Inl e) \<Rightarrow> (s\<lparr>s_db := d\<rparr>, Inl (ErrDb e))
      | (d, Inr n) \<Rightarrow> (s\<lparr>s_db := d\<rparr>, Inr n))"

text \<open>The identifier is the argument, if one is given.\<close>

definition UpdateRow :: "'d Layer \<Rightarrow> string option \<Rightarrow> 'd Store \<Rightarrow> Inst \<Rightarrow> ('d Store \<times> Inst \<times> (record_error + int)) outcome" where
  "UpdateRow l ido s m =
     (case ido of
        Some i \<Rightarrow>
          if i \<noteq> [] then
            bind_outcome (ImportValue (l_fl l) [(''pk'', i)] (vals m)) (\<lambda>(ok, v).
              let m1 = m\<lparr>vals := v\<rparr>
              in Ret (if ok then (case do_update l s m1 of (s1, r) \<Rightarrow> (s1, m1, r)) else (s, m1, Inl ErrSet)))
          else Ret (s, m, Inl ErrNoRecord)
      | None \<Rightarrow>
          if pk_field (vals m) \<noteq> [] \<and> pk_text (vals m) = [] then Ret (s, m, Inl ErrNoRecord)
          else if pk_field (vals m) = [] \<and> union_keys (vals m) = [] then Ret (s, m, Inl ErrNoRecord)
          else Ret (case do_update l s m of (s1, r) \<Rightarrow> (s1, m, r)))"

definition DeleteRow :: "'d Layer \<Rightarrow> string \<Rightarrow> 'd Store \<Rightarrow> Inst \<Rightarrow> ('d Store \<times> Inst \<times> (record_error + int)) outcome" where
  "DeleteRow l i s m =
     bind_outcome (ImportValue (l_fl l) (l_iter l [(''pk'', i), (''logic'', ''-1'')]) (vals m)) (\<lambda>(ok, v).
       let m1 = m\<lparr>vals := v\<rparr>
       in Ret (if ok then (case do_update l s m1 of (s1, r) \<Rightarrow> (s1, m1, r)) else (s, m1, Inl ErrSet)))"

section \<open>Records\<close>

definition key_path :: "(string \<times> string) list \<Rightarrow> string" where
  "key_path fvs = concat (map (\<lambda>(f, v). '':'' @ f @ '':'' @ v) fvs)"

definition pk_key :: "'d Layer \<Rightarrow> string \<Rightarrow> string" where
  "pk_key l pk = l_table l @ '':'' @ pk"

text \<open>The key of the cache that a record is read under; \<open>None\<close> when the primary key cannot be set.\<close>

definition read_key :: "'d Layer \<Rightarrow> bool \<Rightarrow> (model \<Rightarrow> model) \<Rightarrow> string \<Rightarrow> Inst \<Rightarrow> (Inst \<times> string option) outcome" where
  "read_key l fuzzy bnd pk m =
     (if pk \<noteq> [] then
        bind_outcome (ImportValue (l_fl l) [(''pk'', pk)] (vals m)) (\<lambda>(ok, v).
          Ret (m\<lparr>vals := v\<rparr>, if ok then Some (pk_key l pk) else None))
      else if pk_text (vals m) \<noteq> [] then Ret (m, Some (pk_key l (pk_text (vals m))))
      else
        let v = bnd (vals m); (kf, kv, _) = Key v
        in Ret (m\<lparr>vals := v\<rparr>, Some
             (if kv \<noteq> [] then l_table l @ key_path [(kf, kv)]
              else if union_keys v \<noteq> [] then l_table l @ key_path (l_iter l (union_keys v))
              else if fuzzy \<and> key_path (filter (\<lambda>fv. snd fv \<noteq> []) (conditional_fields (l_fl l) v)) \<noteq> []
              then l_table l @ key_path (filter (\<lambda>fv. snd fv \<noteq> []) (conditional_fields (l_fl l) v))
              else [])))"

definition GetRecord :: "'d Layer \<Rightarrow> Time \<Rightarrow> bool \<Rightarrow> (model \<Rightarrow> model) \<Rightarrow> string \<Rightarrow> 'd Store \<Rightarrow> Inst
    \<Rightarrow> ('d Store \<times> Inst \<times> model option) outcome" where
  "GetRecord l now fuzzy bnd pk s m =
     bind_outcome (read_key l fuzzy bnd pk m) (\<lambda>(m1, ck).
       case ck of
         None \<Rightarrow> Ret (s, m1, None)
       | Some ck \<Rightarrow>
           if ck = [] then Ret (s, m1, None)
           else case LocalGet l now ck s of
             (Some v, s1) \<Rightarrow> Ret (s1, m1, Some v)
           | (None, s1) \<Rightarrow>
               bind_outcome (Row l now id [] (s_db s1) m1) (\<lambda>(m2, r).
                 Ret (case r of
                   Inr row \<Rightarrow> (LocalSet l now ck row CACHE_EXPIRE s1, m2, Some row)
                 | Inl e \<Rightarrow> (s1, m2, None))))"

text \<open>The key of the cache that a write removes.\<close>

definition write_key :: "'d Layer \<Rightarrow> string \<Rightarrow> Inst \<Rightarrow> (Inst \<times> string option) outcome" where
  "write_key l pk m =
     (if pk \<noteq> [] then
        bind_outcome (ImportValue (l_fl l) [(''pk'', pk)] (vals m)) (\<lambda>(ok, v).
          Ret (m\<lparr>vals := v\<rparr>, if ok then Some (pk_key l pk) else None))
      else if pk_text (vals m) \<noteq> [] then Ret (m, Some (pk_key l (pk_text (vals m))))
      else if union_keys (vals m) \<noteq> [] then Ret (m, Some (l_table l @ key_path (l_iter l (union_keys (vals m)))))
      else Ret (m, Some []))"

definition UpdateRecord :: "'d Layer \<Rightarrow> string \<Rightarrow> 'd Store \<Rightarrow> Inst \<Rightarrow> ('d Store \<times> Inst \<times> (record_error + int)) outcome" where
  "UpdateRecord l pk s m =
     bind_outcome (write_key l pk m) (\<lambda>(m1, ck).
       case ck of
         None \<Rightarrow> Ret (s, m1, Inl ErrSet)
       | Some ck \<Rightarrow>
           if ck = [] then Ret (s, m1, Inl ErrNoRecord)
           else bind_outcome (UpdateRow l None s m1) (\<lambda>(s1, m2, r).
             Ret (case r of Inl e \<Rightarrow> (s1, m2, Inl e) | Inr n \<Rightarrow> (LocalDel l ck s1, m2, Inr n))))"

definition FlushRecord :: "'d Layer \<Rightarrow> string \<Rightarrow> 'd Store \<Rightarrow> Inst \<Rightarrow> ('d Store \<times> Inst \<times> record_error option) outcome" where
  "FlushRecord l pk s m =
     bind_outcome (write_key l pk m) (\<lambda>(m1, ck).
       Ret (case ck of
         None \<Rightarrow> (s, m1, Some ErrSet)
       | Some ck \<Rightarrow> if ck = [] then (s, m1, Some ErrNoRecord) else (LocalDel l ck s, m1, None)))"

text \<open>\<open>Write\<close> looks the record up with two arguments, which is not the form in which \<open>GetRecord\<close> takes an
  identifier: the first of two is a name, and the second its value.\<close>

definition Write :: "'d Layer \<Rightarrow> Time \<Rightarrow> string \<Rightarrow> 'd Store \<Rightarrow> Inst \<Rightarrow> ('d Store \<times> Inst \<times> (record_error + model)) outcome" where
  "Write l now arg s m =
     (let (pf, pv, ai) = primaryKey (vals m); pk = (if pv = [] then arg else pv)
      in if pf \<noteq> [] \<and> pk = [] \<and> \<not> ai then Ret (s, m, Inl ErrNoRecord)
         else if pf = [] \<and> union_keys (vals m) = [] then Ret (s, m, Inl ErrNoRecord)
         else
           let pk' = (if pf \<noteq> [] then pk else pv)
           in bind_outcome (GetRecord l now False (if pk' \<noteq> [] then l_bind l pk' else id) [] s m) (\<lambda>(s1, m1, found).
                if found \<noteq> None then
                  bind_outcome (UpdateRecord l pk' s1 m1) (\<lambda>(s2, m2, r).
                    Ret (s2, m2, case r of Inl e \<Rightarrow> Inl e | Inr n \<Rightarrow> Inr (vals m2)))
                else Ret (CreateRow l s1 m1)))"

text \<open>\<open>GetOlder\<close>: with a context its row key is used, even when it is empty.\<close>

definition GetOlder :: "'d Layer \<Rightarrow> Time \<Rightarrow> string option \<Rightarrow> string \<Rightarrow> 'd Store \<Rightarrow> Inst \<Rightarrow> ('d Store \<times> Inst \<times> model option) outcome" where
  "GetOlder l now ctx arg s m =
     (case i_older m of
        Some o' \<Rightarrow> Ret (s, m, Some o')
      | None \<Rightarrow>
          let rk = (if arg \<noteq> [] then arg else case ctx of Some k \<Rightarrow> k | None \<Rightarrow> pk_text (vals m))
          in if rk = [] then Ret (s, m, None)
             else bind_outcome (GetRecord l now True id rk s m) (\<lambda>(s1, m1, r).
                    Ret (s1, m1\<lparr>i_older := r\<rparr>, r)))"


section \<open>Reading a row by its primary key\<close>

definition is_condition :: "string \<Rightarrow> string \<Rightarrow> Condition" where
  "is_condition f s = (empty_condition f)\<lparr>k_is := RString s\<rparr>"

lemma new_is_condition: "f \<noteq> [] \<Longrightarrow> new_or_nil CIs f (RString s) = Some (is_condition f s)"
  by (simp add: new_or_nil_def NewCondition_def is_condition_def)

text \<open>The loop over the columns takes such a condition at the column of this name, if it can be a condition.\<close>

lemma set_column_is:
  assumes h: "heap st ! p = is_condition f s" and "p < length (heap st)" "f \<noteq> ''TR''"
    and "col_tag col = f \<Longrightarrow> conditional col \<and> col_type col \<noteq> ''*time.Time''"
  shows "set_column loc now [Some p] col st = (if col_tag col = f then add_condition p st else st)"
proof -
  note c = is_condition_def empty_condition_def
  have g: "GetCondition (heap st) [Some p] k = (if k = f then Some p else None)" for k
    by (auto simp: GetCondition_def h c)
  have "set_join [Some p] col st = st" by (simp add: set_join_def g h c)
  moreover have "set_raw [Some p] col st = st" by (simp add: set_raw_def g h c)
  moreover have "set_range loc now [Some p] col st = st"
    using assms(3) by (auto simp: set_range_def range_by_name_def range_direct_def g h c)
  moreover have "set_order [Some p] col st = st" by (simp add: set_order_def g h c)
  moreover have "on_heap p (ParseCondition loc (col_type col)) st = st" if "col_tag col = f"
  proof -
    have "(heap st)[p := heap st ! p] = heap st" by simp
    then show ?thesis using assms that by (simp add: on_heap_def ParseCondition_def)
  qed
  then have "set_compare loc [Some p] col st = (if col_tag col = f then add_condition p st else st)"
    using assms(4) by (auto simp: set_compare_def g h c compares_def)
  ultimately show ?thesis by (simp add: set_column_def)
qed

lemma SetConditions_is:
  assumes "heap st ! p = is_condition f s" "p < length (heap st)" "f \<noteq> ''TR''" "distinct (map col_tag cols)"
    and "\<And>col. col \<in> set cols \<Longrightarrow> col_tag col = f \<Longrightarrow> conditional col \<and> col_type col \<noteq> ''*time.Time''"
  shows "SetConditions loc now cols [Some p] st = (if f \<in> col_tag ` set cols then add_condition p st else st)"
  using assms
proof (induction cols arbitrary: st)
  case (Cons col cols)
  let ?st = "if col_tag col = f then add_condition p st else st"
  have step: "set_column loc now [Some p] col st = ?st"
    using Cons.prems by (intro set_column_is) auto
  have keep: "heap ?st = heap st" by (simp add: add_condition_def)
  have "SetConditions loc now cols [Some p] ?st = (if f \<in> col_tag ` set cols then add_condition p ?st else ?st)"
    using Cons.prems keep by (intro Cons.IH) auto
  moreover have "col_tag col = f \<Longrightarrow> f \<notin> col_tag ` set cols" using Cons.prems(4) by auto
  ultimately show ?case using step by (auto simp: SetConditions_def)
qed (simp add: SetConditions_def)

text \<open>A model with a text as its only primary key, whose columns have plain and different names.\<close>

definition keyed_columns :: "StructColumn list \<Rightarrow> string \<Rightarrow> bool" where
  "keyed_columns cols f \<longleftrightarrow> distinct (map col_tag cols) \<and> plain_names (map col_tag cols) \<and> f \<noteq> ''TR'' \<and>
     (\<forall>col \<in> set cols. col_tag col = f \<longrightarrow> Contains (col_opts col) ''pk'' \<and> col_type col \<noteq> ''*time.Time'')"

definition fresh_rest :: "Inst \<Rightarrow> bool" where
  "fresh_rest m \<longleftrightarrow> rst m = new_request"

lemma pk_model_column: "pk_model m \<Longrightarrow> pk_field m \<in> col_tag ` set (map fst m) \<and> m \<noteq> []"
  by (induction m) (auto simp: pk_field_def)

lemma set_is_conditions:
  assumes "fresh_rest m" "pk_model (vals m)" "keyed_columns (map fst (vals m)) (pk_field (vals m))" "pk_field (vals m) \<noteq> []"
  shows "Conditions (rst (set_is l now (pk_field (vals m)) s m)) = [is_condition (pk_field (vals m)) s]"
proof -
  let ?f = "pk_field (vals m)" and ?c = "is_condition (pk_field (vals m)) s"
  let ?st = "more_heap ?c new_request"
  have cond: "conditional col \<and> col_type col \<noteq> ''*time.Time''" if "col \<in> set (map fst (vals m))" "col_tag col = ?f" for col
    using assms(3) that by (auto simp: keyed_columns_def conditional_def)
  have "SetConditions (l_loc l) now (map fst (vals m)) [Some 0] ?st
      = (if ?f \<in> col_tag ` set (map fst (vals m)) then add_condition 0 ?st else ?st)"
    using assms(3) cond by (intro SetConditions_is [of ?st 0 ?f s]) (auto simp: keyed_columns_def new_request_def)
  also have "\<dots> = add_condition 0 ?st" using pk_model_column [OF assms(2)] by simp
  finally show ?thesis
    using assms(1,4)
    by (simp add: set_is_def fresh_rest_def new_is_condition SetNew_some new_request_def Conditions_def add_condition_def)
qed


text \<open>The statement that reads the row with this primary key.\<close>

definition row_statement :: "'d Layer \<Rightarrow> StructColumn list \<Rightarrow> string \<Rightarrow> string \<Rightarrow> string \<times> gvalue list" where
  "row_statement l cols f s =
     (''SELECT  '' @ fields_text (GetDbFields [] cols False) @ '' FROM `'' @ l_table l @ ''` T  ''
        @ conditions_text ((sql_column ''T'' f @ '' = ?'') # concat (map column_logic cols))
        @ order_text (column_orders cols) @ '' LIMIT 1'', [VString s])"

text \<open>What the statements rest on: the table is registered, its name is plain, and no alternatives give no clause.\<close>

definition registered :: "'d Layer \<Rightarrow> bool" where
  "registered l \<longleftrightarrow> l_tables l (l_table l) \<noteq> None \<and> dollar \<notin> set (l_table l) \<and> l_arrange l [] = []"

lemma SetNew_fields:
  assumes "pointers_ok st"
  shows "r_fields (SetNew loc now cols (Some c) st) = r_fields st"
proof -
  have "appends [length (heap st)] (more_heap c st) (SetNew loc now cols (Some c) st)"
    using local_stepD(3) [OF local_SetConditions [of "[length (heap st)]" loc now cols], of "more_heap c st"]
      more_heap_pointers [OF assms] by (simp add: SetNew_some)
  then show ?thesis by (auto simp: appends_def)
qed

lemma limit_one:
  "Builder_Find (Limit (VString ''1'') (select_fields fs b))
    = Builder_Find (paged (Some \<lparr>Page = 1, PerPage = 1, POffset = - 1\<rparr>) (select_fields fs b)) \<or> OffsetBy (bsearch b) \<noteq> []"
proof (cases "OffsetBy (bsearch b) = []")
  case True
  have d: "itoa 1 = ''1''" by code_simp
  have "paged (Some \<lparr>Page = 1, PerPage = 1, POffset = - 1\<rparr>) (select_fields fs b) = Limit (VString ''1'') (select_fields fs b)"
    using True by (cases b, cases "bsearch b")
      (simp add: paged_def Limit_def Offset_def with_sql_def select_fields_def Select_def d)
  then show ?thesis by simp
qed simp

lemma page_one: "page_text (Some \<lparr>Page = 1, PerPage = 1, POffset = - 1\<rparr>) = '' LIMIT 1''"
  by code_simp

lemma Row_statement_pk:
  assumes "fresh_rest m" "pk_model (vals m)" "keyed_columns (map fst (vals m)) (pk_field (vals m))" "pk_field (vals m) \<noteq> []"
    and "registered l"
  shows "Row_statement l (set_is l now (pk_field (vals m)) s m)
    = Ret (Inr (row_statement l (map fst (vals m)) (pk_field (vals m)) s))"
proof -
  let ?f = "pk_field (vals m)" and ?cols = "map fst (vals m)" and ?m = "set_is l now (pk_field (vals m)) s m"
  let ?p = "Some \<lparr>Page = 1, PerPage = 1, POffset = - 1\<rparr>"
  have c: "Conditions (rst ?m) = [is_condition ?f s]" by (rule set_is_conditions [OF assms(1-4)])
  have v: "vals ?m = vals m" by (simp add: set_is_def)
  have r: "r_fields (rst ?m) = []"
    using assms(1,4) SetNew_fields [of new_request "l_loc l" now ?cols "is_condition ?f s"]
    by (simp add: set_is_def fresh_rest_def new_is_condition new_request_def pointers_ok_def in_heap_def GetParamConds_def)
  have f: "?f \<in> set (map col_tag ?cols)" using pk_model_column [OF assms(2)] by auto
  then have n: "plain_names (map k_field (Conditions (rst ?m)))" "plain_names (map col_tag ?cols)"
    using assms(3) by (auto simp: keyed_columns_def plain_names_def c is_condition_def empty_condition_def)
  have sv: "\<forall>v \<in> set (Conditions (rst ?m)). single_values v"
    by (simp add: c single_values_def is_condition_def empty_condition_def)
  obtain keys where keys: "l_tables l (l_table l) = Some keys" using assms(5) by (auto simp: registered_def)
  have ne: "Conditions (rst ?m) \<noteq> []" "?cols \<noteq> []" "l_arrange l [] = []"
    using assms(5) pk_model_column [OF assms(2)] by (simp_all add: c registered_def)
  obtain b0 where b0: "bsearch b0 = empty_search\<lparr>TableName := l_table l\<rparr>"
    "ReadPrepare (l_pr l) (l_joins l) (l_arrange l) (l_tables l) (l_table l) ?cols
        (model_keys (l_fl l) (l_iter l) (vals m)) False True (rst ?m)
      = Ret (Inr (prepare_columns ?cols (more_wheres (concat (map single_clauses (Conditions (rst ?m)))) b0)))"
    using ReadPrepare_single [where pr = "l_pr l" and jc = "l_joins l" and tables = "l_tables l" and tb = "l_table l"
        and arrange = "l_arrange l" and cols = ?cols and mk = "model_keys (l_fl l) (l_iter l) (vals m)" and m = True,
        OF ne(1) sv ne(2) keys ne(3)] by blast
  let ?b = "prepare_columns ?cols (more_wheres (concat (map single_clauses (Conditions (rst ?m)))) b0)"
  have "OffsetBy (bsearch ?b) = []" by (simp add: prepare_columns_eq b0(1) empty_search_def)
  then have "Builder_Find (Limit (VString ''1'') (select_fields (GetDbFields [] ?cols False) ?b))
      = Rows_statement [] ?cols False ?p ?b"
    using limit_one [of "GetDbFields [] ?cols False" ?b] by (simp add: Rows_statement_def)
  also have "\<dots> = Ret (row_statement l ?cols ?f s)"
    using Rows_statement_single [OF sv n _ b0(1), of "[]" False ?p] assms(5)
    unfolding c by (simp add: registered_def row_statement_def page_one condition_texts_def condition_operands_def
        is_condition_def empty_condition_def)
  finally show ?thesis unfolding Row_statement_def v r Let_def b0(2) by simp
qed


section \<open>The cache in front of the rows\<close>

definition fresh_inst :: "model \<Rightarrow> Inst" where
  "fresh_inst v = \<lparr>vals = v, rst = new_request, i_action = [], i_older = None, i_filled = False, i_saved = False, i_guest = True\<rparr>"

text \<open>The row with this primary key, as the database has it.\<close>

definition db_row :: "'d Layer \<Rightarrow> StructColumn list \<Rightarrow> string \<Rightarrow> string \<Rightarrow> 'd \<Rightarrow> model option" where
  "db_row l cols f pk d = (case l_find l d (row_statement l cols f pk) of Inr (row # rows) \<Rightarrow> Some row | _ \<Rightarrow> None)"

text \<open>Models of a table with these columns and the primary key \<open>f\<close>.\<close>

definition model_of :: "StructColumn list \<Rightarrow> string \<Rightarrow> model \<Rightarrow> bool" where
  "model_of cols f v \<longleftrightarrow> map fst v = cols \<and> pk_model v \<and> pk_field v = f \<and> f \<noteq> [] \<and> keyed_columns cols f"

lemma Row_pk:
  assumes "model_of cols f (vals m)" "fresh_rest m" "registered l" "pk_text (vals m) \<noteq> []"
  shows "\<exists>m1 r. Row l now bnd rk d m = Ret (m1, r)
    \<and> (case r of Inr row \<Rightarrow> Some row | Inl e \<Rightarrow> None) = db_row l cols f (pk_text (vals m)) d"
proof -
  have "Row_statement l (set_is l now f (pk_text (vals m)) m) = Ret (Inr (row_statement l cols f (pk_text (vals m))))"
    using Row_statement_pk [OF assms(2), of l now "pk_text (vals m)"] assms(1,3) by (auto simp: model_of_def)
  then show ?thesis
    using assms(1,4) by (auto simp: Row_def Let_def model_of_def db_row_def split: sum.split list.split)
qed

lemma import_pk:
  assumes "model_of cols f v" "pk \<noteq> []"
  shows "\<exists>v'. ImportValue fl [(''pk'', pk)] v = Ret (True, v') \<and> pk_text v' = pk \<and> model_of cols f v'"
  using ImportValue_pk [of v pk fl] assms by (auto simp: model_of_def)

lemma pk_key_not_Nil: "pk_key l pk \<noteq> []"
  by (simp add: pk_key_def)

lemma pk_key_inject: "pk_key l pk = pk_key l pk' \<longleftrightarrow> pk = pk'"
  by (simp add: pk_key_def)

text \<open>\<open>GetRecord\<close> on a new model: the cache, or else the database, whose answer is then cached.\<close>

definition get_by_pk :: "'d Layer \<Rightarrow> StructColumn list \<Rightarrow> string \<Rightarrow> Time \<Rightarrow> string \<Rightarrow> 'd Store \<Rightarrow> 'd Store \<times> model option" where
  "get_by_pk l cols f now pk s =
     (case LocalGet l now (pk_key l pk) s of
        (Some v, s1) \<Rightarrow> (s1, Some v)
      | (None, s1) \<Rightarrow>
          (case db_row l cols f pk (s_db s1) of
             Some row \<Rightarrow> (LocalSet l now (pk_key l pk) row CACHE_EXPIRE s1, Some row)
           | None \<Rightarrow> (s1, None)))"

lemma GetRecord_pk:
  assumes "model_of cols f (vals m)" "fresh_rest m" "registered l" "pk \<noteq> []"
  shows "\<exists>m'. GetRecord l now fuzzy bnd pk s m
    = Ret (fst (get_by_pk l cols f now pk s), m', snd (get_by_pk l cols f now pk s))"
proof -
  obtain v where v: "ImportValue (l_fl l) [(''pk'', pk)] (vals m) = Ret (True, v)" "pk_text v = pk" "model_of cols f v"
    using import_pk [OF assms(1,4)] by blast
  let ?m = "m\<lparr>vals := v\<rparr>"
  have k: "read_key l fuzzy bnd pk m = Ret (?m, Some (pk_key l pk))" using v assms(4) by (simp add: read_key_def)
  obtain r s1 where g: "LocalGet l now (pk_key l pk) s = (r, s1)" by (cases "LocalGet l now (pk_key l pk) s")
  have "fresh_rest ?m" using assms(2) by (simp add: fresh_rest_def)
  then obtain m1 a where row: "Row l now id [] (s_db s1) ?m = Ret (m1, a)"
    "(case a of Inr row \<Rightarrow> Some row | Inl e \<Rightarrow> None) = db_row l cols f pk (s_db s1)"
    using Row_pk [of cols f ?m l now id "[]" "s_db s1"] v assms(3,4) by auto
  show ?thesis
    using row(2) [symmetric] by (cases r; cases a) (auto simp: GetRecord_def k pk_key_not_Nil g row(1) get_by_pk_def)
qed

definition coherent :: "'d Layer \<Rightarrow> StructColumn list \<Rightarrow> string \<Rightarrow> 'd Store \<Rightarrow> bool" where
  "coherent l cols f s \<longleftrightarrow> cache_inv (l_hash l) (s_cache s) \<and>
     (\<forall>pk e. stored (l_hash l) (s_cache s) (pk_key l pk) = Some e
        \<longrightarrow> (\<exists>row. e_value e = Some row \<and> db_row l cols f pk (s_db s) = Some row))"

text \<open>What a store like this needs of the mapper: an update changes at most the row of the key it is given, none when it
  fails, and an insert leaves the rows that are there.\<close>

definition row_laws :: "'d Layer \<Rightarrow> StructColumn list \<Rightarrow> string \<Rightarrow> bool" where
  "row_laws l cols f \<longleftrightarrow>
     (\<forall>d v pk. (pk \<noteq> pk_text v \<or> (\<exists>e. snd (l_update l d v) = Inl e)
        \<longrightarrow> db_row l cols f pk (fst (l_update l d v)) = db_row l cols f pk d)
      \<and> (db_row l cols f pk d \<noteq> None \<longrightarrow> db_row l cols f pk (fst (l_insert l d v)) = db_row l cols f pk d))"

lemma coherent_get:
  assumes "coherent l cols f s" "short (pk_key l pk)"
  shows "snd (get_by_pk l cols f now pk s) = db_row l cols f pk (s_db s)"
    "coherent l cols f (fst (get_by_pk l cols f now pk s))" "s_db (fst (get_by_pk l cols f now pk s)) = s_db s"
proof -
  let ?k = "pk_key l pk" and ?h = "l_hash l"
  obtain r c where g: "Cache_Get ?h (Some ?k) (unix now) (s_cache s) = (r, c)" by (cases "Cache_Get ?h (Some ?k) (unix now) (s_cache s)")
  have inv: "cache_inv ?h (s_cache s)" using assms(1) by (simp add: coherent_def)
  note spec = Cache_Get_spec [OF inv assms(2), of "unix now", unfolded g fst_conv snd_conv]
  let ?s = "s\<lparr>s_cache := c\<rparr>"
  have co: "coherent l cols f ?s" using assms(1) spec unfolding coherent_def by auto
  have L: "LocalGet l now ?k s = (case r of Inr v \<Rightarrow> v | Inl e \<Rightarrow> None, ?s)" by (simp add: LocalGet_def g pk_key_not_Nil)
  show "snd (get_by_pk l cols f now pk s) = db_row l cols f pk (s_db s)"
    "coherent l cols f (fst (get_by_pk l cols f now pk s))" "s_db (fst (get_by_pk l cols f now pk s)) = s_db s"
  proof -
    have hit: "v = db_row l cols f pk (s_db s) \<and> v \<noteq> None" if "r = Inr v" for v
      using that spec assms(1) unfolding coherent_def by (fastforce split: option.splits if_splits)
    have set: "coherent l cols f (LocalSet l now ?k row CACHE_EXPIRE ?s)" if "db_row l cols f pk (s_db s) = Some row" for row
    proof -
      note w = Cache_Set_spec [of ?h c ?k row CACHE_EXPIRE "unix now"]
      have "cache_inv ?h c" using co by (simp add: coherent_def)
      with w assms(2) co that show ?thesis by (auto simp: coherent_def LocalSet_def pk_key_inject split: if_splits)
    qed
    show "snd (get_by_pk l cols f now pk s) = db_row l cols f pk (s_db s)"
      using hit by (cases r) (auto simp: get_by_pk_def L split: option.split)
    show "coherent l cols f (fst (get_by_pk l cols f now pk s))"
      using co set hit by (cases r) (auto simp: get_by_pk_def L split: option.split)
    show "s_db (fst (get_by_pk l cols f now pk s)) = s_db s"
      by (auto simp: get_by_pk_def L LocalSet_def split: option.split sum.split)
  qed
qed


lemma coherent_del:
  assumes "coherent l cols f s" "short (pk_key l pk)"
  shows "coherent l cols f (LocalDel l (pk_key l pk) s)"
    and "\<And>d. (\<And>pk'. pk' \<noteq> pk \<Longrightarrow> db_row l cols f pk' d = db_row l cols f pk' (s_db s))
      \<Longrightarrow> coherent l cols f (LocalDel l (pk_key l pk) (s\<lparr>s_db := d\<rparr>))"
proof -
  note spec = Cache_Del_spec [of "l_hash l" "s_cache s" "pk_key l pk"]
  show "coherent l cols f (LocalDel l (pk_key l pk) s)"
    using spec assms by (auto simp: coherent_def LocalDel_def split: if_splits)
  fix d
  assume "\<And>pk'. pk' \<noteq> pk \<Longrightarrow> db_row l cols f pk' d = db_row l cols f pk' (s_db s)"
  then show "coherent l cols f (LocalDel l (pk_key l pk) (s\<lparr>s_db := d\<rparr>))"
    using spec assms by (auto simp: coherent_def LocalDel_def pk_key_inject split: if_splits)
qed

lemma coherent_db:
  assumes "coherent l cols f s" "\<And>pk. db_row l cols f pk (s_db s) \<noteq> None \<Longrightarrow> db_row l cols f pk d = db_row l cols f pk (s_db s)"
  shows "coherent l cols f (s\<lparr>s_db := d\<rparr>)"
  using assms unfolding coherent_def by fastforce

text \<open>The primary key a write goes to: the one it is given, or else that of the model.\<close>

definition target :: "string \<Rightarrow> model \<Rightarrow> string" where
  "target pk v = (if pk \<noteq> [] then pk else pk_text v)"

lemma write_key_pk:
  assumes "model_of cols f (vals m)" "target pk (vals m) \<noteq> []"
  shows "\<exists>v. write_key l pk m = Ret (m\<lparr>vals := v\<rparr>, Some (pk_key l (target pk (vals m)))) \<and> model_of cols f v
    \<and> pk_text v = target pk (vals m)"
proof (cases "pk = []")
  case True
  then show ?thesis using assms by (intro exI [of _ "vals m"]) (simp add: write_key_def target_def)
next
  case False
  then show ?thesis using import_pk [OF assms(1) False, of "l_fl l"] by (auto simp: write_key_def target_def)
qed

lemma UpdateRecord_pk:
  assumes "model_of cols f (vals m)" "target pk (vals m) \<noteq> []"
  shows "\<exists>v m'. pk_text v = target pk (vals m) \<and> UpdateRecord l pk s m
    = Ret (case l_update l (s_db s) v of
        (d, Inl e) \<Rightarrow> (s\<lparr>s_db := d\<rparr>, m', Inl (ErrDb e))
      | (d, Inr n) \<Rightarrow> (LocalDel l (pk_key l (target pk (vals m))) (s\<lparr>s_db := d\<rparr>), m', Inr n))"
proof -
  obtain v where v: "write_key l pk m = Ret (m\<lparr>vals := v\<rparr>, Some (pk_key l (target pk (vals m))))" "model_of cols f v"
    "pk_text v = target pk (vals m)"
    using write_key_pk [OF assms] by blast
  have "pk_field v \<noteq> []" using v(2) by (auto simp: model_of_def)
  then show ?thesis
    using assms(2) v
    by (intro exI [of _ v] exI [of _ "m\<lparr>vals := v\<rparr>"])
      (auto simp: UpdateRecord_def pk_key_not_Nil UpdateRow_def do_update_def split: prod.split sum.split)
qed

section \<open>Runs of operations\<close>

text \<open>Each operation works on a model of its own, at its own time.\<close>

datatype record_op = GetOp string | UpdateOp string model | FlushOp string model | CreateOp model

fun op_ok :: "'d Layer \<Rightarrow> StructColumn list \<Rightarrow> string \<Rightarrow> record_op \<Rightarrow> bool" where
  "op_ok l cols f (GetOp pk) \<longleftrightarrow> pk \<noteq> [] \<and> short (pk_key l pk)"
| "op_ok l cols f (UpdateOp pk v) \<longleftrightarrow> model_of cols f v \<and> target pk v \<noteq> [] \<and> short (pk_key l (target pk v))"
| "op_ok l cols f (FlushOp pk v) \<longleftrightarrow> model_of cols f v \<and> target pk v \<noteq> [] \<and> short (pk_key l (target pk v))"
| "op_ok l cols f (CreateOp v) \<longleftrightarrow> model_of cols f v"

fun run_op :: "'d Layer \<Rightarrow> model \<Rightarrow> Time \<times> record_op \<Rightarrow> 'd Store \<Rightarrow> 'd Store outcome" where
  "run_op l m0 (now, GetOp pk) s = bind_outcome (GetRecord l now True id pk s (fresh_inst m0)) (\<lambda>r. Ret (fst r))"
| "run_op l m0 (now, UpdateOp pk v) s = bind_outcome (UpdateRecord l pk s (fresh_inst v)) (\<lambda>r. Ret (fst r))"
| "run_op l m0 (now, FlushOp pk v) s = bind_outcome (FlushRecord l pk s (fresh_inst v)) (\<lambda>r. Ret (fst r))"
| "run_op l m0 (now, CreateOp v) s = Ret (fst (CreateRow l s (fresh_inst v)))"

fun run_records :: "'d Layer \<Rightarrow> model \<Rightarrow> (Time \<times> record_op) list \<Rightarrow> 'd Store \<Rightarrow> 'd Store outcome" where
  "run_records l m0 [] s = Ret s"
| "run_records l m0 (x # xs) s = bind_outcome (run_op l m0 x s) (run_records l m0 xs)"

lemma fresh_simps [simp]: "vals (fresh_inst v) = v" "fresh_rest (fresh_inst v)" "\<not> i_saved (fresh_inst v)"
  by (simp_all add: fresh_inst_def fresh_rest_def)

lemma run_op_coherent:
  assumes "coherent l cols f s" "row_laws l cols f" "registered l" "model_of cols f m0" "op_ok l cols f (snd x)"
  shows "\<exists>s'. run_op l m0 x s = Ret s' \<and> coherent l cols f s'"
proof -
  obtain now op where x: "x = (now, op)" by (cases x)
  show ?thesis
  proof (cases op)
    case (GetOp pk)
    then show ?thesis
      using GetRecord_pk [of cols f "fresh_inst m0" l pk now True id s] coherent_get [OF assms(1), of pk now] assms(3-5)
      by (auto simp: x)
  next
    case (UpdateOp pk v)
    note ok = assms(5) [unfolded x UpdateOp snd_conv op_ok.simps]
    obtain v' m' where v': "pk_text v' = target pk v" "UpdateRecord l pk s (fresh_inst v)
        = Ret (case l_update l (s_db s) v' of
            (d, Inl e) \<Rightarrow> (s\<lparr>s_db := d\<rparr>, m', Inl (ErrDb e))
          | (d, Inr n) \<Rightarrow> (LocalDel l (pk_key l (target pk v)) (s\<lparr>s_db := d\<rparr>), m', Inr n))"
      using UpdateRecord_pk [of cols f "fresh_inst v" pk l s] ok by auto
    obtain d r where u: "l_update l (s_db s) v' = (d, r)" by (cases "l_update l (s_db s) v'")
    have other: "pk' \<noteq> target pk v \<or> (\<exists>e. r = Inl e) \<Longrightarrow> db_row l cols f pk' d = db_row l cols f pk' (s_db s)" for pk'
      using assms(2) v'(1) u unfolding row_laws_def by (metis fst_conv snd_conv)
    show ?thesis
    proof (cases r)
      case (Inl e)
      then show ?thesis using coherent_db [OF assms(1), of d] other v'(2) u by (simp add: x UpdateOp)
    next
      case (Inr n)
      then show ?thesis using coherent_del(2) [OF assms(1), of "target pk v" d] other v'(2) u ok by (simp add: x UpdateOp)
    qed
  next
    case (FlushOp pk v)
    note ok = assms(5) [unfolded x FlushOp snd_conv op_ok.simps]
    then show ?thesis
      using write_key_pk [of cols f "fresh_inst v" pk l] coherent_del(1) [OF assms(1), of "target pk v"]
      by (auto simp: x FlushOp FlushRecord_def pk_key_not_Nil)
  next
    case (CreateOp v)
    obtain d r where i: "l_insert l (s_db s) v = (d, r)" by (cases "l_insert l (s_db s) v")
    have "coherent l cols f (s\<lparr>s_db := d\<rparr>)"
      using assms(2) i by (intro coherent_db [OF assms(1)]) (metis fst_conv row_laws_def)
    then show ?thesis by (cases r) (simp_all add: x CreateOp CreateRow_def i)
  qed
qed

lemma run_records_coherent:
  assumes "row_laws l cols f" "registered l" "model_of cols f m0"
  shows "coherent l cols f s \<Longrightarrow> \<forall>x \<in> set ops. op_ok l cols f (snd x)
    \<Longrightarrow> \<exists>s'. run_records l m0 ops s = Ret s' \<and> coherent l cols f s'"
proof (induction ops arbitrary: s)
  case (Cons x ops)
  obtain s1 where "run_op l m0 x s = Ret s1" "coherent l cols f s1"
    using run_op_coherent [OF Cons.prems(1) assms, of x] Cons.prems(2) by auto
  with Cons.IH [of s1] Cons.prems(2) show ?case by simp
qed simp

lemma coherent_start: "coherent l cols f \<lparr>s_db = d, s_cache = NewCache\<rparr>"
  by (simp add: coherent_def cache_inv_New stored_New)


section \<open>Entries that outlive their rows\<close>

lemma LocalGet_spec:
  assumes "cache_inv (l_hash l) (s_cache s)" "short k" "k \<noteq> []"
  shows "fst (LocalGet l now k s) = (case stored (l_hash l) (s_cache s) k of
      Some e \<Rightarrow> if expired (unix now) e then None else e_value e | None \<Rightarrow> None)
    \<and> cache_inv (l_hash l) (s_cache (snd (LocalGet l now k s))) \<and> s_db (snd (LocalGet l now k s)) = s_db s
    \<and> (\<forall>k'. stored (l_hash l) (s_cache (snd (LocalGet l now k s))) k' = stored (l_hash l) (s_cache s) k')"
  using Cache_Get_spec [OF assms(1,2), of "unix now"] assms(3)
  by (auto simp: LocalGet_def split: prod.split option.splits if_splits)

lemma LocalSet_spec:
  assumes "cache_inv (l_hash l) (s_cache s)" "short k"
  shows "cache_inv (l_hash l) (s_cache (LocalSet l now k row ex s))
    \<and> (\<exists>e. stored (l_hash l) (s_cache (LocalSet l now k row ex s)) k = Some e \<and> e_value e = Some row
        \<and> e_expireAt e = expiry ex (unix now))"
  using Cache_Set_spec [OF assms, of row ex "unix now"] by (auto simp: LocalSet_def)

lemma not_expired:
  assumes "e_expireAt e = expiry CACHE_EXPIRE t0" "0 \<le> t0" "t0 \<le> t1" "t1 < t0 + 30" "t0 + 30 < 2 ^ 32"
  shows "\<not> expired t1 e"
proof -
  have u: "uint (word_of_int x :: 32 word) = x" if "0 \<le> x" "x < 2 ^ 32" for x
    using that by (simp add: uint_word_of_int)
  have "\<not> t0 + 30 \<le> t1" using assms(4) by simp
  then have "\<not> (word_of_int (t0 + 30) :: 32 word) \<le> word_of_int t1"
    unfolding word_le_def using u [of "t0 + 30"] u [of t1] assms(2-5) by presburger
  moreover have "e_expireAt e = word_of_int (t0 + 30)" using assms(1) by (simp add: expiry_def CACHE_EXPIRE_def)
  ultimately show ?thesis unfolding expired_def by presburger
qed

text \<open>A record that was just read is found in the cache for the next half a minute, whatever the database holds.\<close>

lemma cached_record:
  assumes "cache_inv (l_hash l) (s_cache s)" "short (pk_key l pk)"
    and "e_value e = Some row" "e_expireAt e = expiry CACHE_EXPIRE (unix t0)"
    and "stored (l_hash l) (s_cache s) (pk_key l pk) = Some e"
    and "0 \<le> unix t0" "unix t0 \<le> unix t1" "unix t1 < unix t0 + 30" "unix t0 + 30 < 2 ^ 32"
  shows "snd (get_by_pk l cols f t1 pk s) = Some row"
proof -
  have "fst (LocalGet l t1 (pk_key l pk) s) = Some row"
    using LocalGet_spec [OF assms(1,2) pk_key_not_Nil, of t1] assms(3,5) not_expired [OF assms(4,6-9)] by simp
  then show ?thesis by (cases "LocalGet l t1 (pk_key l pk) s") (simp add: get_by_pk_def)
qed

lemma get_stores:
  assumes "cache_inv (l_hash l) (s_cache s)" "short (pk_key l pk)" "fst (LocalGet l t0 (pk_key l pk) s) = None"
    and "snd (get_by_pk l cols f t0 pk s) = Some row"
  shows "cache_inv (l_hash l) (s_cache (fst (get_by_pk l cols f t0 pk s))) \<and>
    (\<exists>e. stored (l_hash l) (s_cache (fst (get_by_pk l cols f t0 pk s))) (pk_key l pk) = Some e
       \<and> e_value e = Some row \<and> e_expireAt e = expiry CACHE_EXPIRE (unix t0))"
proof -
  obtain s1 where s1: "LocalGet l t0 (pk_key l pk) s = (None, s1)"
    using assms(3) by (cases "LocalGet l t0 (pk_key l pk) s") auto
  have "cache_inv (l_hash l) (s_cache s1)"
    using LocalGet_spec [OF assms(1,2) pk_key_not_Nil, of t0] s1 by simp
  from LocalSet_spec [OF this assms(2), of t0 row CACHE_EXPIRE] show ?thesis
    using assms(4) s1 by (auto simp: get_by_pk_def split: option.splits)
qed

lemma DeleteRow_cache: "DeleteRow l i s m = Ret (s', m', r) \<Longrightarrow> s_cache s' = s_cache s"
  by (auto simp: DeleteRow_def do_update_def Let_def elim!: bind_outcome_RetE split: prod.splits sum.splits if_splits)

text \<open>An update by primary key leaves the entries that were read by another key.\<close>

lemma update_keeps_other_entries:
  assumes "model_of cols f (vals m)" "target pk (vals m) \<noteq> []" "cache_inv (l_hash l) (s_cache s)"
    and "short (pk_key l (target pk (vals m)))" "UpdateRecord l pk s m = Ret (s', m', r)" "k \<noteq> pk_key l (target pk (vals m))"
  shows "stored (l_hash l) (s_cache s') k = stored (l_hash l) (s_cache s) k"
proof -
  obtain v m1 where "UpdateRecord l pk s m = Ret (case l_update l (s_db s) v of
      (d, Inl e) \<Rightarrow> (s\<lparr>s_db := d\<rparr>, m1, Inl (ErrDb e))
    | (d, Inr n) \<Rightarrow> (LocalDel l (pk_key l (target pk (vals m))) (s\<lparr>s_db := d\<rparr>), m1, Inr n))"
    using UpdateRecord_pk [OF assms(1,2), of l s] by blast
  with assms(5) Cache_Del_spec [OF assms(3,4)] assms(6) show ?thesis
    by (auto simp: LocalDel_def split: prod.splits sum.splits)
qed

text \<open>A read that found nothing in the cache before an update, and stores its row after it, leaves the old row there.\<close>

lemma reader_overtaken:
  assumes "cache_inv (l_hash l) (s_cache s)" "short (pk_key l pk)"
    and "0 \<le> unix t0" "unix t0 \<le> unix t1" "unix t1 < unix t0 + 30" "unix t0 + 30 < 2 ^ 32"
  shows "snd (get_by_pk l cols f t1 pk (LocalSet l t0 (pk_key l pk) old CACHE_EXPIRE (LocalDel l (pk_key l pk) (s\<lparr>s_db := d\<rparr>))))
    = Some old"
proof -
  have "cache_inv (l_hash l) (s_cache (LocalDel l (pk_key l pk) (s\<lparr>s_db := d\<rparr>)))"
    using Cache_Del_spec [OF assms(1,2)] by (simp add: LocalDel_def)
  from LocalSet_spec [OF this assms(2), of t0 old CACHE_EXPIRE] cached_record [OF _ assms(2) _ _ _ assms(3-6)]
  show ?thesis by blast
qed

text \<open>A number as primary key is cached under each of its spellings: a read of \<open>07\<close> and an update of \<open>7\<close> mean the same record, and use
  different entries, so the update leaves what the read has cached.\<close>

lemma integer_key_spellings:
  assumes "Contains (col_opts col) ''pk''" "vals m = [(col, MInt 64 i)]"
  shows "read_key l fuzzy bnd ''07'' m = Ret (m\<lparr>vals := [(col, MInt 64 7)]\<rparr>, Some (pk_key l ''07''))
    \<and> write_key l ''7'' m = Ret (m\<lparr>vals := [(col, MInt 64 7)]\<rparr>, Some (pk_key l ''7'')) \<and> pk_key l ''07'' \<noteq> pk_key l ''7''"
proof -
  have "ParseInt 64 ''07'' = Some 7" "ParseInt 64 ''7'' = Some 7" by code_simp+
  then show ?thesis
    using assms by (simp add: read_key_def write_key_def ImportValue_def or_text_if_empty_def set_parsed_def pk_key_def)
qed

text \<open>\<open>Write\<close> with an identifier for a model that has none itself always inserts.\<close>

lemma write_ignores_identifier:
  assumes "model_of cols f (vals m)" "pk_text (vals m) = []" "l_bind l arg (vals m) = vals m" "arg \<noteq> []"
    and "fst (snd (Key (vals m))) = []" "union_keys (vals m) = []"
  shows "Write l now arg s m = Ret (CreateRow l s m)"
proof -
  obtain ai where p: "primaryKey (vals m) = (f, [], ai)"
    using assms(1,2) by (cases "primaryKey (vals m)") (auto simp: model_of_def pk_field_def pk_text_def)
  obtain kf b where k: "Key (vals m) = (kf, [], b)" using assms(5) by (cases "Key (vals m)") auto
  have "read_key l False (l_bind l arg) [] m = Ret (m, Some [])"
    using assms(2,3,6) k by (simp add: read_key_def)
  then have "GetRecord l now False (l_bind l arg) [] s m = Ret (s, m, None)" by (simp add: GetRecord_def)
  then show ?thesis using assms(1,4) p by (simp add: Write_def model_of_def)
qed

section \<open>Properties\<close>

text \<open>C8: Behind the cache, records are what the database holds. The model is one of a registered table whose only primary key is a
  text column (a string or a pointer to one, \<open>model_of\<close>); the keys are not empty and short enough to be cached; and the database
  does what an SQL database does for a key of text: an update, or one that fails, changes at most the row whose key it names, and an insert
  leaves the rows that are there (\<open>row_laws\<close>). Then, whatever sequence of reads, updates, flushes and inserts by primary key runs one after
  the other, each on its own model, none of them panics, and the next read returns the row that the database has then, or
  nothing when it has none, however the keys collide in the cache.\<close>

theorem record_cache_transparent:
  assumes "row_laws l cols f" "registered l" "model_of cols f m0"
    and "\<forall>x \<in> set ops. op_ok l cols f (snd x)" "pk \<noteq> []" "short (pk_key l pk)"
  shows "\<exists>s s' m'. run_records l m0 ops \<lparr>s_db = d, s_cache = NewCache\<rparr> = Ret s
    \<and> GetRecord l now True id pk s (fresh_inst m0) = Ret (s', m', db_row l cols f pk (s_db s))"
proof -
  obtain s where s: "run_records l m0 ops \<lparr>s_db = d, s_cache = NewCache\<rparr> = Ret s" "coherent l cols f s"
    using run_records_coherent [OF assms(1-3) coherent_start assms(4)] by blast
  then show ?thesis
    using GetRecord_pk [of cols f "fresh_inst m0" l pk now True id s] coherent_get(1) [OF s(2) assms(6)] assms(2,3,5)
    by auto
qed

text \<open>Deleting a record leaves it in the cache. A record that was read from the database, and then deleted with
  whatever result, is still returned by every read of the next half minute.\<close>

lemma deleted_record_still_read:
  assumes "model_of cols f (vals m)" "fresh_rest m" "model_of cols f (vals m2)" "fresh_rest m2" "registered l" "pk \<noteq> []"
    and "cache_inv (l_hash l) (s_cache s)" "short (pk_key l pk)" "fst (LocalGet l t0 (pk_key l pk) s) = None"
    and "GetRecord l t0 True id pk s m = Ret (s1, m', Some row)" "DeleteRow l pk s1 m1 = Ret (s2, m1', r)"
    and "0 \<le> unix t0" "unix t0 \<le> unix t1" "unix t1 < unix t0 + 30" "unix t0 + 30 < 2 ^ 32"
  shows "\<exists>s3 m3. GetRecord l t1 True id pk s2 m2 = Ret (s3, m3, Some row)"
proof -
  let ?g = "get_by_pk l cols f t0 pk s"
  have g: "snd ?g = Some row" "s1 = fst ?g"
    using GetRecord_pk [OF assms(1,2,5,6), of t0 True id s] assms(10) by auto
  from get_stores [OF assms(7,8,9) g(1)] obtain e where e: "cache_inv (l_hash l) (s_cache s1)"
    "stored (l_hash l) (s_cache s1) (pk_key l pk) = Some e" "e_value e = Some row"
    "e_expireAt e = expiry CACHE_EXPIRE (unix t0)"
    unfolding g(2) by blast
  have "snd (get_by_pk l cols f t1 pk s2) = Some row"
    using e unfolding DeleteRow_cache [OF assms(11), symmetric]
    by (intro cached_record [OF _ assms(8) e(3,4) _ assms(12-15)])
  then show ?thesis using GetRecord_pk [OF assms(3,4,5,6), of t1 True id s2] by auto
qed


section \<open>Examples\<close>

definition example_layer :: "(string \<Rightarrow> model option) Layer" where
  "example_layer = \<lparr>l_table = ''users'', l_tables = [''users'' \<mapsto> [''id'']], l_joins = (\<lambda>t. None), l_pr = (\<lambda>c v. []),
     l_fl = \<lparr>fl_parse = (\<lambda>b s. Some s), fl_print = id\<rparr>, l_arrange = id, l_iter = id, l_loc = 0, l_hash = (\<lambda>k. 5),
     l_bind = (\<lambda>k. id), l_json = (\<lambda>j m. None), l_zoo = (\<lambda>k. None),
     l_find = (\<lambda>d (t, vs). case vs of [VString pk] \<Rightarrow> Inr (case d pk of None \<Rightarrow> [] | Some v \<Rightarrow> [v]) | _ \<Rightarrow> Inr []),
     l_count = (\<lambda>d q. Inr 0),
     l_insert = (\<lambda>d v. if d (pk_text v) = None then (d(pk_text v \<mapsto> v), Inr v) else (d, Inl ''duplicate'')),
     l_update = (\<lambda>d v. if d (pk_text v) = None then (d, Inr 0) else (d(pk_text v \<mapsto> v), Inr 1))\<rparr>"

definition user :: "string \<Rightarrow> string \<Rightarrow> model" where
  "user i n = zip example_cols [MString i, MString n]"

lemma example_model: "model_of example_cols ''id'' (user i n)"
proof -
  have "keyed_columns example_cols ''id''" by code_simp
  moreover have "Contains ''pk'' ''pk''" by code_simp
  ultimately show ?thesis
    by (simp add: model_of_def user_def example_cols_def pk_field_def text_key_def) code_simp
qed

lemma example_row: "db_row example_layer cols f pk d = d pk"
  by (simp add: db_row_def example_layer_def row_statement_def split: option.split)

lemma example_laws: "row_laws example_layer cols f"
  unfolding row_laws_def example_row by (auto simp: example_layer_def split: if_splits)

lemma example_registered: "registered example_layer"
  by (simp add: registered_def example_layer_def)

theorem record_cache_transparent_witness:
  "\<exists>s s' m'. run_records example_layer (user [] [])
       [(zeroTime, CreateOp (user ''7'' ''a'')), (zeroTime, GetOp ''7''), (zeroTime, UpdateOp ''7'' (user [] ''b''))]
       \<lparr>s_db = (\<lambda>i. None), s_cache = NewCache\<rparr> = Ret s
     \<and> GetRecord example_layer zeroTime True id ''7'' s (fresh_inst (user [] [])) = Ret (s', m', s_db s ''7'')"
proof -
  have "\<forall>x \<in> set [(zeroTime, CreateOp (user ''7'' ''a'')), (zeroTime, GetOp ''7''), (zeroTime, UpdateOp ''7'' (user [] ''b''))].
      op_ok example_layer example_cols ''id'' (snd x)"
    by (simp add: example_model target_def pk_key_def example_layer_def)
  note t = record_cache_transparent [OF example_laws example_registered example_model this,
      where pk = "''7''" and d = "\<lambda>i. None" and now = zeroTime, unfolded example_row]
  show ?thesis by (rule t) (simp_all add: pk_key_def example_layer_def)
qed

lemma deleted_record_still_read_witness:
  "\<exists>s1 m1 s2 m2 r s3 m3.
     GetRecord example_layer (zeroTime\<lparr>tsec := 62135596801\<rparr>) True id ''7''
         \<lparr>s_db = [''7'' \<mapsto> user ''7'' ''a''], s_cache = NewCache\<rparr> (fresh_inst (user [] []))
       = Ret (s1, m1, Some (user ''7'' ''a'')) \<and>
     DeleteRow example_layer ''7'' s1 (fresh_inst (user [] [])) = Ret (s2, m2, r) \<and>
     GetRecord example_layer (zeroTime\<lparr>tsec := 62135596820\<rparr>) True id ''7'' s2 (fresh_inst (user [] []))
       = Ret (s3, m3, Some (user ''7'' ''a''))"
proof -
  let ?s = "\<lparr>s_db = [''7'' \<mapsto> user ''7'' ''a''], s_cache = NewCache\<rparr> :: (string \<Rightarrow> model option) Store"
  let ?t0 = "zeroTime\<lparr>tsec := 62135596801\<rparr>" and ?t1 = "zeroTime\<lparr>tsec := 62135596820\<rparr>"
  let ?m = "fresh_inst (user [] [])"
  note m = example_model [of "[]" "[]"]
  have k: "short (pk_key example_layer ''7'')" by (simp add: pk_key_def example_layer_def)
  have i: "cache_inv (l_hash example_layer) (s_cache ?s)" by (simp add: cache_inv_New)
  have none: "fst (LocalGet example_layer ?t0 (pk_key example_layer ''7'') ?s) = None"
    using LocalGet_spec [OF i k pk_key_not_Nil, of ?t0] by (simp add: stored_New)
  have "snd (get_by_pk example_layer example_cols ''id'' ?t0 ''7'' ?s) = Some (user ''7'' ''a'')"
    using coherent_get(1) [OF coherent_start k] by (simp add: example_row)
  then obtain s1 m1 where g: "GetRecord example_layer ?t0 True id ''7'' ?s ?m = Ret (s1, m1, Some (user ''7'' ''a''))"
    using GetRecord_pk [of example_cols "''id''" ?m example_layer "''7''" ?t0 True id ?s] m example_registered by auto
  have "ImportValue (l_fl example_layer) (l_iter example_layer [(''pk'', ''7''), (''logic'', ''-1'')]) (user [] []) = Ret (True, user ''7'' [])"
    by code_simp
  then obtain s2 m2 r where d: "DeleteRow example_layer ''7'' s1 ?m = Ret (s2, m2, r)"
    by (fastforce simp: DeleteRow_def do_update_def Let_def split: prod.splits sum.splits)
  from deleted_record_still_read [of example_cols "''id''" ?m ?m, OF _ _ _ _ example_registered _ i k none g d, of ?t1] m g d
  show ?thesis by (auto simp: unix_def)
qed

end
