(* ===== verification/RestValid.thy ===== *)
theory RestValid
  imports RestRecord
begin

text \<open>
  What a client may write: the keepers, \<open>Valid\<close> with the filling of the model from the body, and what \<open>Protect\<close> and
  \<open>Filter\<close> let out, all of \<open>rest/model.go\<close>.

  A field is known by the position of its column. The hash, the identifiers, the time, the user and the test of a
  field that is itself a model (it reads that record) are the parameters of a \<open>Zoo\<close>.
\<close>

section \<open>Keepers\<close>

record Zoo =
  k_sha1 :: "mvalue \<Rightarrow> string"
  k_userid :: string
  k_missing :: "StructColumn \<Rightarrow> mvalue \<Rightarrow> bool"
  k_now :: string
  k_uuid :: "nat \<Rightarrow> string"
  k_luuid :: "nat \<Rightarrow> string"

definition kept :: "floats \<Rightarrow> string \<Rightarrow> nat \<Rightarrow> model \<Rightarrow> (record_error option \<times> model) outcome" where
  "kept fl s i m =
     (let (col, v) = m ! i
      in bind_outcome (SetWithProperType fl s v) (\<lambda>(ok, v').
           Ret (if ok then None else Some (ErrSetField (col_tag col)), m[i := (col, v')])))"

definition sha1_keeper :: "floats \<Rightarrow> Zoo \<Rightarrow> keeper" where
  "sha1_keeper fl z cre i m =
     (if has_value (snd (m ! i)) then kept fl (k_sha1 z (snd (m ! i))) i m else Ret (None, m))"

definition filling_keeper :: "floats \<Rightarrow> string \<Rightarrow> keeper" where
  "filling_keeper fl s cre i m =
     (if cre \<and> \<not> has_value (snd (m ! i)) then kept fl s i m else Ret (None, m))"

definition existence_keeper :: "Zoo \<Rightarrow> keeper" where
  "existence_keeper z cre i m = Ret (if k_missing z (fst (m ! i)) (snd (m ! i)) then Some ErrNoRecord else None, m)"

definition time_keeper :: "Zoo \<Rightarrow> keeper" where
  "time_keeper z cre i m =
     (let (col, v) = m ! i in
      if cre \<and> \<not> has_value v then
        if v = MInvalid then Panic (PanicMsg ''reflect: call of reflect.Value.Type on zero Value'')
        else if col_type col \<in> {''*time.Time'', ''time.Time''} then Ret (None, m[i := (col, MOther False (k_now z))])
        else Ret (Some (ErrTimeType (col_tag col)), m)
      else Ret (None, m))"

definition zoo :: "floats \<Rightarrow> Zoo \<Rightarrow> string \<Rightarrow> keeper option" where
  "zoo fl z tag =
     (if tag = ''sha1'' then Some (sha1_keeper fl z)
      else if tag = ''userid'' then Some (filling_keeper fl (k_userid z))
      else if tag = ''existense'' \<or> tag = ''existence'' then Some (existence_keeper z)
      else if tag = ''time'' then Some (time_keeper z)
      else if tag = ''uuid'' then Some (\<lambda>cre i. filling_keeper fl (k_uuid z i) cre i)
      else if tag = ''luuid'' then Some (\<lambda>cre i. filling_keeper fl (k_luuid z i) cre i)
      else None)"

definition AddKeeper :: "string \<Rightarrow> (model \<Rightarrow> (record_error option \<times> model) outcome) \<Rightarrow> (string \<Rightarrow> keeper option)
    \<Rightarrow> string \<Rightarrow> keeper option" where
  "AddKeeper tag kp ks = ks(tag := Some (\<lambda>cre i m. kp m))"

definition KeeperFactory :: "(string \<Rightarrow> keeper option) \<Rightarrow> keeper" where
  "KeeperFactory ks cre i m =
     (let col = fst (m ! i) in
      if col_ext col \<noteq> [] then (case ks (col_ext col) of Some k \<Rightarrow> k cre i m | None \<Rightarrow> Ret (None, m))
      else Ret (None, m))"

section \<open>Validation\<close>

definition ACTION_CREATE :: string where
  "ACTION_CREATE = ''C''"

definition ACTION_UPDATE :: string where
  "ACTION_UPDATE = ''U''"

definition Creating :: "Inst \<Rightarrow> bool" where
  "Creating m \<longleftrightarrow> i_action m = ACTION_CREATE"

definition Updating :: "Inst \<Rightarrow> bool" where
  "Updating m \<longleftrightarrow> i_action m = ACTION_UPDATE"

text \<open>One field: its value, and whether the field is one to write.\<close>

definition ignored_input :: "bool \<Rightarrow> StructColumn \<Rightarrow> bool" where
  "ignored_input upd col \<longleftrightarrow> Contains (col_opts col) ''ro''
     \<or> Contains (col_extopts col) ''G'' \<and> \<not> Contains (col_opts col) ''pk''
     \<or> upd \<and> Contains (col_extopts col) ''D''"

definition valid_field :: "bool \<Rightarrow> bool \<Rightarrow> StructColumn \<Rightarrow> mvalue \<Rightarrow> record_error + mvalue \<times> bool" where
  "valid_field upd cre col v =
     (if has_value v then
        (if ignored_input upd col then Inr (zero_of v, False)
         else Inr (v, \<not> Contains (col_opts col) ''pk''))
      else if Contains (col_extopts col) ''R'' \<and> cre then Inl (ErrRequired (col_tag col))
      else Inr (v, False))"

fun valid_fields :: "(string \<Rightarrow> keeper option) \<Rightarrow> bool \<Rightarrow> bool \<Rightarrow> string list \<Rightarrow> nat list \<Rightarrow> string list \<Rightarrow> model
    \<Rightarrow> ((record_error + string list) \<times> model) outcome" where
  "valid_fields ks upd cre only [] ufs m = Ret (Inr ufs, m)"
| "valid_fields ks upd cre only (i # is') ufs m =
     (let (col, v) = m ! i in
      if only \<noteq> [] \<and> col_tag col \<notin> set only then valid_fields ks upd cre only is' ufs m
      else if only \<noteq> [] \<and> \<not> has_value v then Ret (Inl (ErrInvalidField (col_tag col)), m)
      else case valid_field upd cre col v of
        Inl e \<Rightarrow> Ret (Inl e, m)
      | Inr (v', write) \<Rightarrow>
          bind_outcome (KeeperFactory ks cre i (m[i := (col, v')])) (\<lambda>(e, m').
            case e of
              Some e \<Rightarrow> Ret (Inl e, m')
            | None \<Rightarrow> valid_fields ks upd cre only is' (if write then ufs @ [col_tag col] else ufs) m'))"

definition Valid :: "'d Layer \<Rightarrow> Time \<Rightarrow> string option \<Rightarrow> string list \<Rightarrow> 'd Store \<Rightarrow> Inst
    \<Rightarrow> ('d Store \<times> Inst \<times> record_error option) outcome" where
  "Valid l now ctx only s m =
     bind_outcome (if Updating m then GetOlder l now ctx [] s m else Ret (s, m, None)) (\<lambda>(s1, m1, older).
       if Updating m \<and> older = None then Ret (s1, m1, Some ErrNoRecord)
       else if Creating m \<and> canUpdate (vals m1) then Ret (s1, m1, Some ErrConflict)
       else bind_outcome (valid_fields (l_zoo l) (Updating m) (Creating m) only [0..<length (vals m1)] [] (vals m1)) (\<lambda>(r, v).
         let m2 = m1\<lparr>vals := v\<rparr>
         in Ret (s1, m2, case r of
              Inl e \<Rightarrow> Some e
            | Inr ufs \<Rightarrow> if Updating m \<and> ufs = [] \<and> v \<noteq> [] then Some ErrNotNeedUpdate else None)))"

definition fill :: "'d Layer \<Rightarrow> string \<Rightarrow> Inst \<Rightarrow> Inst option" where
  "fill l body m =
     (if i_filled m then Some m
      else case l_json l body (vals m) of Some v \<Rightarrow> Some (m\<lparr>vals := v, i_filled := True\<rparr>) | None \<Rightarrow> None)"

definition REST_Valid :: "'d Layer \<Rightarrow> Time \<Rightarrow> string option \<Rightarrow> string \<Rightarrow> string list \<Rightarrow> 'd Store \<Rightarrow> Inst
    \<Rightarrow> ('d Store \<times> Inst \<times> record_error option) outcome" where
  "REST_Valid l now ctx body only s m =
     (if \<not> i_guest m \<and> \<not> i_filled m then
        (case (if body \<noteq> [] then fill l body m else None) of
           Some m1 \<Rightarrow> Valid l now ctx only s m1
         | None \<Rightarrow> Ret (s, m, Some ErrEmptyModel))
      else Valid l now ctx only s m)"

section \<open>Keepers keep to their field\<close>

text \<open>What validation needs of the keepers: each changes its own field only, and outside creations a keeper
  whose tag is not among \<open>changing\<close> changes nothing.\<close>

locale field_keepers =
  fixes ks :: "string \<Rightarrow> keeper option" and changing :: "string set"
  assumes own_field: "ks tag = Some k \<Longrightarrow> i < length m \<Longrightarrow> k cre i m = Ret (e, m') \<Longrightarrow> \<exists>v. m' = m[i := (fst (m ! i), v)]"
    and no_change: "ks tag = Some k \<Longrightarrow> tag \<notin> changing \<Longrightarrow> i < length m \<Longrightarrow> k False i m = Ret (e, m') \<Longrightarrow> m' = m"
begin

lemma factory_own:
  "i < length m \<Longrightarrow> KeeperFactory ks cre i m = Ret (e, m') \<Longrightarrow> \<exists>v. m' = m[i := (fst (m ! i), v)]"
  using own_field [of _ _ i m cre e m']
  by (auto simp: KeeperFactory_def Let_def split: if_splits option.splits intro: exI [of _ "snd (m ! i)"])

lemma factory_no_change:
  "i < length m \<Longrightarrow> col_ext (fst (m ! i)) \<notin> changing \<Longrightarrow> KeeperFactory ks False i m = Ret (e, m') \<Longrightarrow> m' = m"
  using no_change [of _ _ i m e m'] by (auto simp: KeeperFactory_def Let_def split: if_splits option.splits)

text \<open>The loop of \<open>Valid\<close> leaves the columns and the fields that it does not come to, and a field that it has come
  to stays as it leaves it.\<close>

lemma valid_fields_step:
  assumes "i < length m" "valid_fields ks upd cre [] (i # is') ufs m = Ret (Inr u, m')"
  obtains v wr w ufs' where "valid_field upd cre (fst (m ! i)) (snd (m ! i)) = Inr (v, wr)"
    "KeeperFactory ks cre i (m[i := (fst (m ! i), v)]) = Ret (None, m[i := (fst (m ! i), w)])"
    "valid_fields ks upd cre [] is' ufs' (m[i := (fst (m ! i), w)]) = Ret (Inr u, m')"
proof -
  obtain v wr e m1 where v: "valid_field upd cre (fst (m ! i)) (snd (m ! i)) = Inr (v, wr)"
    "KeeperFactory ks cre i (m[i := (fst (m ! i), v)]) = Ret (e, m1)" "e = None"
    "valid_fields ks upd cre [] is' (if wr then ufs @ [col_tag (fst (m ! i))] else ufs) m1 = Ret (Inr u, m')"
    using assms(2) by (auto simp: case_prod_beta elim!: bind_outcome_RetE split: sum.splits prod.splits option.splits)
  from factory_own [OF _ v(2)] assms(1) obtain w where "m1 = m[i := (fst (m ! i), w)]" by auto
  with v that show ?thesis by blast
qed

lemma valid_fields_frame:
  "valid_fields ks upd cre [] is' ufs m = Ret (Inr u, m') \<Longrightarrow> \<forall>i \<in> set is'. i < length m \<Longrightarrow>
     map fst m' = map fst m \<and> (\<forall>i. i \<notin> set is' \<longrightarrow> m' ! i = m ! i)"
proof (induction is' arbitrary: ufs m)
  case (Cons i is')
  obtain w ufs' where w: "valid_fields ks upd cre [] is' ufs' (m[i := (fst (m ! i), w)]) = Ret (Inr u, m')"
    using valid_fields_step [OF _ Cons.prems(1)] Cons.prems(2) by (metis list.set_intros(1))
  from Cons.IH [OF w] Cons.prems(2) show ?case
    by (auto simp: map_update) (metis list_update_id nth_map)
qed simp

end

lemma kept_own: "i < length m \<Longrightarrow> kept fl s i m = Ret (e, m') \<Longrightarrow> \<exists>v. m' = m[i := (fst (m ! i), v)]"
  by (cases "m ! i") (auto simp: kept_def elim!: bind_outcome_RetE)

lemma same_field: "i < length m \<Longrightarrow> \<exists>v. m = m[i := (fst (m ! i), v)]"
  by (metis list_update_id prod.collapse)

lemma zoo_own:
  assumes "zoo fl z tag = Some k" "i < length m" "k cre i m = Ret (e, m')"
  shows "\<exists>v. m' = m[i := (fst (m ! i), v)]"
  using assms kept_own [OF assms(2)] same_field [OF assms(2)]
  by (auto simp: zoo_def sha1_keeper_def filling_keeper_def existence_keeper_def time_keeper_def
      Let_def case_prod_beta split: if_splits)

lemma zoo_no_change:
  assumes "zoo fl z tag = Some k" "tag \<noteq> ''sha1''" "k False i m = Ret (e, m')"
  shows "m' = m"
  using assms
  by (auto simp: zoo_def filling_keeper_def existence_keeper_def time_keeper_def Let_def case_prod_beta split: if_splits)

interpretation builtin: field_keepers "zoo fl z" "{''sha1''}" for fl z
  by unfold_locales (use zoo_own zoo_no_change in blast)+

section \<open>What validation leaves\<close>

lemma nth_of_position: "x \<in> set xs \<Longrightarrow> \<exists>i < length xs. xs ! i = x"
  by (simp add: in_set_conv_nth)

lemma REST_ValidE:
  assumes "REST_Valid l now ctx body only s m = Ret (s', m', None)"
  obtains m1 s1 m2 older v u where "m1 = m \<or> fill l body m = Some m1"
    "(if Updating m1 then GetOlder l now ctx [] s m1 else Ret (s, m1, None)) = Ret (s1, m2, older)"
    "Updating m1 \<Longrightarrow> older \<noteq> None" "Creating m1 \<Longrightarrow> \<not> canUpdate (vals m2)"
    "valid_fields (l_zoo l) (Updating m1) (Creating m1) only [0..<length (vals m2)] [] (vals m2) = Ret (Inr u, v)"
    "m' = m2\<lparr>vals := v\<rparr>" "s' = s1" "Updating m1 \<Longrightarrow> u \<noteq> [] \<or> v = []"
proof -
  obtain m1 where m1: "m1 = m \<or> fill l body m = Some m1" "Valid l now ctx only s m1 = Ret (s', m', None)"
    using assms by (auto simp: REST_Valid_def split: if_splits option.splits)
  then show ?thesis
    using that [OF m1(1)]
    by (auto simp: Valid_def Let_def elim!: bind_outcome_RetE split: if_splits sum.splits prod.splits)
qed

lemma fill_action: "fill l body m = Some m1 \<Longrightarrow> i_action m1 = i_action m"
  by (auto simp: fill_def split: if_splits option.splits)

text \<open>What the validation of an update makes of a field, with the keepers that the program comes with: a value of a read-only, generated or
  uneditable field is replaced by the zero of its type, then the value of a field to hash by its hash; every other field stays.\<close>

definition checked_value :: "floats \<Rightarrow> Zoo \<Rightarrow> StructColumn \<Rightarrow> mvalue \<Rightarrow> mvalue" where
  "checked_value fl z col x =
     (let y = (if has_value x \<and> ignored_input True col then zero_of x else x)
      in if col_ext col = ''sha1'' \<and> has_value y
         then (case SetWithProperType fl (k_sha1 z y) y of Ret (ok, y') \<Rightarrow> y' | Panic p \<Rightarrow> y) else y)"

definition checked :: "floats \<Rightarrow> Zoo \<Rightarrow> model \<Rightarrow> model" where
  "checked fl z v = map (\<lambda>(col, x). (col, checked_value fl z col x)) v"

lemma keeper_checked:
  assumes "KeeperFactory (zoo fl z) False i m = Ret (None, m')" "m ! i = (col, y)" "i < length m"
  shows "m' = m[i := (col, if col_ext col = ''sha1'' \<and> has_value y
    then (case SetWithProperType fl (k_sha1 z y) y of Ret (ok, y') \<Rightarrow> y' | Panic p \<Rightarrow> y) else y)]"
proof (cases "col_ext col = ''sha1''")
  case True
  have "m[i := (col, y)] = m" using assms(2) by (metis list_update_id)
  with True assms(1, 2) show ?thesis
    by (auto simp: KeeperFactory_def Let_def zoo_def sha1_keeper_def kept_def elim!: bind_outcome_RetE split: outcome.splits if_splits)
next
  case False
  have "m[i := (col, y)] = m" using assms(2) by (metis list_update_id)
  moreover have "m' = m" using builtin.factory_no_change [OF assms(3) _ assms(1)] False assms(2) by simp
  ultimately show ?thesis using False by simp
qed

lemma valid_fields_checked:
  assumes "valid_fields (zoo fl z) True False [] is' ufs m = Ret (Inr u, m')" "\<forall>i \<in> set is'. i < length m" "distinct is'" "j \<in> set is'"
  shows "snd (m' ! j) = checked_value fl z (fst (m ! j)) (snd (m ! j))"
  using assms
proof (induction is' arbitrary: ufs m)
  case (Cons i is')
  obtain col x where x: "m ! i = (col, x)" by fastforce
  have i: "i < length m" "i \<notin> set is'" using Cons.prems(2, 3) by auto
  obtain v wr w ufs' where w: "valid_field True False col x = Inr (v, wr)"
    "KeeperFactory (zoo fl z) False i (m[i := (col, v)]) = Ret (None, m[i := (col, w)])"
    "valid_fields (zoo fl z) True False [] is' ufs' (m[i := (col, w)]) = Ret (Inr u, m')"
    using builtin.valid_fields_step [OF _ Cons.prems(1)] x i(1) by (metis fst_conv snd_conv)
  have v: "v = (if has_value x \<and> ignored_input True col then zero_of x else x)"
    using w(1) by (auto simp: valid_field_def split: if_splits)
  show ?case
  proof (cases "j = i")
    case True
    have "m' ! i = (col, w)" using builtin.valid_fields_frame [OF w(3)] Cons.prems(2) i by auto
    moreover have "m[i := (col, w)] = m[i := (col, checked_value fl z col x)]"
      using keeper_checked [OF w(2), of col v] i(1) by (simp add: checked_value_def v [symmetric] Let_def)
    then have "w = checked_value fl z col x" using i(1) by (metis nth_list_update_eq snd_conv)
    ultimately show ?thesis using True x by simp
  next
    case False
    then have "snd (m' ! j) = checked_value fl z (fst (m[i := (col, w)] ! j)) (snd (m[i := (col, w)] ! j))"
      using Cons.prems by (intro Cons.IH [OF w(3)]) auto
    with False show ?thesis by simp
  qed
qed simp

text \<open>A body that passes the validation of an update: it decodes to \<open>b\<close>, in which the identifier of the request is set when the stored record is
  read (a record that was read before is not read again), and every field is checked.\<close>

definition read_for :: "'d Layer \<Rightarrow> string \<Rightarrow> model option \<Rightarrow> model \<Rightarrow> model \<Rightarrow> bool" where
  "read_for l rk older b b1 \<longleftrightarrow> (if older = None then ImportValue (l_fl l) [(''pk'', rk)] b = Ret (True, b1) else b1 = b)"

lemma Row_vals: "pk_text (vals m) \<noteq> [] \<or> bnd = id \<Longrightarrow> Row l now bnd rk d m = Ret (m', r) \<Longrightarrow> vals m' = vals m"
  by (auto simp: Row_def set_is_def Let_def elim!: bind_outcome_RetE split: if_splits)

lemma GetOlder_read_for:
  assumes "GetOlder l now (Some rk) [] s m = Ret (s', m', Some older)" "rk \<noteq> []"
  shows "read_for l rk (i_older m) (vals m) (vals m')"
  using assms
  by (auto simp: GetOlder_def GetRecord_def read_key_def read_for_def elim!: bind_outcome_RetE dest!: Row_vals [OF disjI2, OF refl]
      split: option.splits if_splits prod.splits sum.splits)

lemma valid_update_written:
  assumes "REST_Valid l now (Some rk) body [] s m = Ret (s', m', None)" "Updating m" "l_zoo l = zoo fl z" "rk \<noteq> []"
    and "\<not> i_guest m" "\<not> i_filled m"
  shows "\<exists>b b1. l_json l body (vals m) = Some b \<and> read_for l rk (i_older m) b b1 \<and> vals m' = checked fl z b1"
proof -
  obtain b where b: "l_json l body (vals m) = Some b" "Valid l now (Some rk) [] s (m\<lparr>vals := b, i_filled := True\<rparr>) = Ret (s', m', None)"
    using assms(1, 5, 6) by (auto simp: REST_Valid_def fill_def split: if_splits option.splits)
  have up: "Updating (m\<lparr>vals := b, i_filled := True\<rparr>)" "\<not> Creating (m\<lparr>vals := b, i_filled := True\<rparr>)"
    using assms(2) by (auto simp: Updating_def Creating_def ACTION_UPDATE_def ACTION_CREATE_def)
  obtain s1 m2 older u v where v: "GetOlder l now (Some rk) [] s (m\<lparr>vals := b, i_filled := True\<rparr>) = Ret (s1, m2, Some older)"
    "valid_fields (zoo fl z) True False [] [0..<length (vals m2)] [] (vals m2) = Ret (Inr u, v)" "m' = m2\<lparr>vals := v\<rparr>"
    using b(2) up assms(3)
    by (auto simp: Valid_def Let_def Updating_def Creating_def elim!: bind_outcome_RetE split: if_splits sum.splits prod.splits)
  have r: "read_for l rk (i_older m) b (vals m2)" using GetOlder_read_for [OF v(1) assms(4)] by simp
  have cols: "map fst v = map fst (vals m2)" using builtin.valid_fields_frame [OF v(2)] by simp
  then have len: "length v = length (vals m2)" by (metis length_map)
  have "v = checked fl z (vals m2)"
  proof (rule nth_equalityI)
    fix j assume j: "j < length v"
    have "fst (v ! j) = fst (vals m2 ! j)" using cols j len by (metis nth_map)
    moreover have "snd (v ! j) = checked_value fl z (fst (vals m2 ! j)) (snd (vals m2 ! j))"
      using valid_fields_checked [OF v(2), of j] j len by simp
    ultimately show "v ! j = checked fl z (vals m2) ! j" using j len by (simp add: checked_def case_prod_beta prod_eq_iff)
  qed (simp add: checked_def len)
  with b(1) r v(3) show ?thesis by auto
qed

definition missing :: "model \<Rightarrow> (StructColumn \<times> mvalue) option" where
  "missing v = find (\<lambda>(col, x). Contains (col_extopts col) ''R'' \<and> \<not> has_value x) v"

text \<open>Two models with the same columns and the same types of fields.\<close>

definition same_fields :: "model \<Rightarrow> model \<Rightarrow> bool" where
  "same_fields v w \<longleftrightarrow> map (\<lambda>(col, x). (col, zero_of x)) v = map (\<lambda>(col, x). (col, zero_of x)) w"

text \<open>Keepers that raise no objection on models with the fields of \<open>v\<close>, and only set their own field.\<close>

definition lenient :: "(string \<Rightarrow> keeper option) \<Rightarrow> model \<Rightarrow> bool" where
  "lenient ks v0 \<longleftrightarrow> (\<forall>i v. same_fields v v0 \<longrightarrow> i < length v \<longrightarrow>
     (\<exists>x. KeeperFactory ks True i v = Ret (None, v[i := (fst (v ! i), x)]) \<and> zero_of x = zero_of (snd (v ! i))))"

lemma drop_update_Suc: "drop (Suc i) (v[i := x]) = drop (Suc i) v"
  by (simp add: drop_update_cancel)

lemma same_fields_update:
  "same_fields v v0 \<Longrightarrow> v ! i = (col, x) \<Longrightarrow> zero_of y = zero_of x \<Longrightarrow> same_fields (v[i := (col, y)]) v0"
proof -
  let ?f = "\<lambda>(col, x). (col, zero_of x)"
  assume v: "same_fields v v0" "v ! i = (col, x)" "zero_of y = zero_of x"
  have "map ?f (v[i := (col, y)]) = (map ?f v)[i := ?f (v ! i)]" using v(2,3) by (simp add: map_update)
  also have "\<dots> = map ?f (v[i := v ! i])" by (simp only: map_update)
  finally show ?thesis using v(1) by (simp add: same_fields_def)
qed

lemma valid_fields_create:
  assumes "lenient ks v0"
  shows "same_fields v v0 \<Longrightarrow> i \<le> length v \<Longrightarrow> \<exists>u v'. valid_fields ks False True [] [i..<length v] ufs v
    = Ret (case missing (drop i v) of Some (col, x) \<Rightarrow> Inl (ErrRequired (col_tag col)) | None \<Rightarrow> Inr u, v')"
proof (induction "length v - i" arbitrary: i v ufs)
  case (Suc n)
  then have i: "i < length v" by simp
  obtain col x where x: "v ! i = (col, x)" by (cases "v ! i")
  have d: "drop i v = (col, x) # drop (Suc i) v" using x i by (simp add: Cons_nth_drop_Suc [symmetric])
  have u: "[i..<length v] = i # [Suc i..<length v]" using i by (simp add: upt_conv_Cons)
  show ?case
  proof (cases "Contains (col_extopts col) ''R'' \<and> \<not> has_value x")
    case True
    then show ?thesis using x by (simp add: d u missing_def valid_field_def)
  next
    case False
    then have "\<exists>w wr. valid_field False True col x = Inr (w, wr) \<and> zero_of w = zero_of x"
      by (auto simp: valid_field_def)
    then obtain w wr where w: "valid_field False True col x = Inr (w, wr)" "zero_of w = zero_of x" by blast
    have sw: "same_fields (v[i := (col, w)]) v0" using same_fields_update [OF Suc.prems(1) x w(2)] .
    obtain y where y: "KeeperFactory ks True i (v[i := (col, w)]) = Ret (None, v[i := (col, y)])" "zero_of y = zero_of x"
      using assms i x w(2) sw unfolding lenient_def
      by (metis fst_conv length_list_update list_update_overwrite nth_list_update_eq snd_conv)
    have "n = length (v[i := (col, y)]) - Suc i" "Suc i \<le> length (v[i := (col, y)])" using Suc.hyps(2) i by simp_all
    from Suc.hyps(1) [OF this(1) same_fields_update [OF Suc.prems(1) x y(2)] this(2)] False
    show ?thesis by (auto simp: u x w(1) y(1) d drop_update_Suc missing_def)
  qed
qed (simp add: missing_def)

section \<open>Properties\<close>

text \<open>C24: When a creation is valid. Let the body decode to \<open>v\<close>, and let the keepers raise no objection to models with the fields of \<open>v\<close> and keep the
  types of their fields (\<open>lenient\<close>). The creation is refused as a conflict exactly when \<open>canUpdate v\<close>, that is when the first
  primary key of \<open>v\<close> has a text: a string or pointer that the body names, a plain number of type \<open>int\<close> or \<open>int64\<close> always, an unsigned one
  never. Otherwise it is refused for the first required field, in the order of the columns, that \<open>v\<close> has no value for; a body without
  either is accepted. The store stays as it is.\<close>

theorem create_validity:
  assumes "Creating m" "\<not> i_guest m" "\<not> i_filled m" "body \<noteq> []" "l_json l body (vals m) = Some v" "lenient (l_zoo l) v"
  shows "\<exists>m'. REST_Valid l now ctx body [] s m = Ret (s, m',
    if canUpdate v then Some ErrConflict else map_option (\<lambda>(col, x). ErrRequired (col_tag col)) (missing v))"
proof -
  have a: "\<not> Updating m" using assms(1) by (auto simp: Updating_def Creating_def ACTION_UPDATE_def ACTION_CREATE_def)
  obtain u v' where v': "valid_fields (l_zoo l) False True [] [0..<length v] [] v
      = Ret (case missing v of Some (col, x) \<Rightarrow> Inl (ErrRequired (col_tag col)) | None \<Rightarrow> Inr u, v')"
    using valid_fields_create [OF assms(6), of v 0 "[]"] by (auto simp: same_fields_def)
  have c: "Creating (m\<lparr>vals := v, i_filled := True\<rparr>)" "\<not> Updating (m\<lparr>vals := v, i_filled := True\<rparr>)"
    using a assms(1) by (simp_all add: Updating_def Creating_def)
  show ?thesis
    using assms(2-5) c v'
    by (cases "missing v") (auto simp: REST_Valid_def Valid_def fill_def Let_def split: prod.splits)
qed

text \<open>The primary key of a creation by its type: a plain number always makes a conflict, even when the body does not name it, and an
  unsigned one never does.\<close>

lemma number_key_conflicts:
  assumes "Contains (col_opts col) ''pk''" "col_tag col \<noteq> []" "b = 0 \<or> b = 64"
  shows "canUpdate ((col, MInt b i) # m) \<and> \<not> canUpdate ((col, MUint b j) # m)"
  using assms nat_dec_not_Nil by (auto simp: canUpdate_def pk_field_def pk_text_def key_value_text_def has_value_def itoa_def)

text \<open>A number that is not a pointer always counts as given.\<close>

lemma required_number_accepted: "has_value (MInt b 0)" "has_value (MUint b 0)" "has_value (MBool False)"
  by (simp_all add: has_value_def)

section \<open>Examples\<close>

definition account_cols :: "StructColumn list" where
  "account_cols = [\<lparr>col_tag = ''id'', col_opts = ''pk'', col_ext = ''uuid'', col_extopts = ''G'', col_type = ''string''\<rparr>,
     \<lparr>col_tag = ''role'', col_opts = [], col_ext = [], col_extopts = ''D'', col_type = ''string''\<rparr>,
     \<lparr>col_tag = ''name'', col_opts = [], col_ext = [], col_extopts = ''R'', col_type = ''string''\<rparr>]"

definition account :: "string \<Rightarrow> string \<Rightarrow> string \<Rightarrow> model" where
  "account i r n = zip account_cols [MString i, MString r, MString n]"

definition example_zoo :: Zoo where
  "example_zoo = \<lparr>k_sha1 = (\<lambda>v. ''h''), k_userid = ''u'', k_missing = (\<lambda>c v. False), k_now = ''t'',
     k_uuid = (\<lambda>i. ''x''), k_luuid = (\<lambda>i. ''y'')\<rparr>"

text \<open>A body is the name of the account, and tries to set its role.\<close>

definition account_layer :: "(string \<Rightarrow> model option) Layer" where
  "account_layer = example_layer\<lparr>l_json := (\<lambda>j v. Some (account [] ''admin'' j)), l_zoo := zoo (l_fl example_layer) example_zoo\<rparr>"

definition account_inst :: "string \<Rightarrow> Inst" where
  "account_inst act = (fresh_inst (account [] [] []))\<lparr>i_action := act, i_guest := False, i_older := Some (account ''7'' ''user'' ''ann'')\<rparr>"

definition no_store :: "(string \<Rightarrow> model option) Store" where
  "no_store = \<lparr>s_db = (\<lambda>i. None), s_cache = NewCache\<rparr>"

lemma same_account: "same_fields v (account i r n) \<Longrightarrow> \<exists>i r n. v = account i r n"
  by (auto simp: same_fields_def account_def account_cols_def Cons_eq_map_conv elim!: zero_of.elims)

lemma account_lenient: "lenient (l_zoo account_layer) (account i r n)"
  unfolding lenient_def
proof (intro allI impI)
  fix p v assume "same_fields v (account i r n)" and p: "p < length v"
  then obtain i' r' n' where v: "v = account i' r' n'" using same_account by blast
  have "p = 0 \<or> p = 1 \<or> p = 2" using p by (auto simp: v account_def account_cols_def)
  then show "\<exists>x. KeeperFactory (l_zoo account_layer) True p v = Ret (None, v[p := (fst (v ! p), x)])
      \<and> zero_of x = zero_of (snd (v ! p))"
    by (auto simp: v account_def account_cols_def KeeperFactory_def Let_def account_layer_def zoo_def filling_keeper_def kept_def has_value_def)
qed

lemma account_update:
  "\<exists>m'. REST_Valid account_layer zeroTime (Some ''7'') ''bob'' [] no_store (account_inst ''U'') = Ret (no_store, m', None)
     \<and> vals m' = account [] [] ''bob'' \<and> rst m' = new_request"
proof -
  have f: "valid_fields (l_zoo account_layer) True False [] [0..<3] [] (account [] ''admin'' ''bob'')
      = Ret (Inr [''name''], account [] [] ''bob'')"
    by code_simp
  have n: "length (account i r n) = 3" for i r n by (simp add: account_def account_cols_def)
  show ?thesis
    using f [unfolded account_layer_def]
    by (simp add: REST_Valid_def Valid_def fill_def GetOlder_def account_layer_def account_inst_def fresh_inst_def Updating_def
        Creating_def ACTION_UPDATE_def ACTION_CREATE_def n)
qed

theorem create_validity_witness:
  "\<exists>m'. REST_Valid account_layer zeroTime None ''bob'' [] no_store (account_inst ''C'') = Ret (no_store, m', None)"
proof -
  have "missing (account [] ''admin'' ''bob'') = None" "\<not> canUpdate (account [] ''admin'' ''bob'')" by code_simp+
  then show ?thesis
    using create_validity [of "account_inst ''C''" "''bob''" account_layer "account [] ''admin'' ''bob''" zeroTime None no_store]
      account_lenient
    by (simp add: account_layer_def account_inst_def fresh_inst_def Creating_def ACTION_CREATE_def)
qed

end
