(* ===== verification/RestAction.thy ===== *)
theory RestAction
  imports RestValid
begin

text \<open>
  The requests: the actions of \<open>rest/action.go\<close>, the handlers of \<open>rest/router.go\<close> that call them, and the answers
  of \<open>rest/rest.go\<close>.

  The interface \<open>Action\<close> is a record of functions on the state of a call; its default methods are those of
  \<open>*REST\<close>. An answer is the value that is given to the JSON encoder, or the error that the server turns
  into one. The time of a request and its method, row key and body are arguments; logging is left out.
\<close>

section \<open>Calls and answers\<close>

record RList =
  li_page :: int
  li_per_page :: int
  li_total :: int
  li_rows :: "model list"

datatype rest_value = RNothing | RModel model | RRows RList | RCount int

record 'd Call =
  c_store :: "'d Store"
  c_inst :: Inst
  c_result :: rest_value

type_synonym 'd act = "'d Call \<Rightarrow> ('d Call \<times> rest_value \<times> record_error option) outcome"

record 'd Action =
  a_PreGet :: "'d act"
  a_WillGet :: "'d act"
  a_OnGet :: "'d act"
  a_DidGet :: "'d act"
  a_PostGet :: "'d act"
  a_PreSearch :: "'d act"
  a_WillSearch :: "'d act"
  a_OnSearch :: "'d act"
  a_DidSearch :: "'d act"
  a_PostSearch :: "'d act"
  a_PreCreate :: "'d act"
  a_WillCreate :: "'d act"
  a_OnCreate :: "'d act"
  a_DidCreate :: "'d act"
  a_PostCreate :: "'d act"
  a_PreUpdate :: "'d act"
  a_WillUpdate :: "'d act"
  a_OnUpdate :: "'d act"
  a_DidUpdate :: "'d act"
  a_PostUpdate :: "'d act"
  a_PreDelete :: "'d act"
  a_OnDelete :: "'d act"
  a_PostDelete :: "'d act"
  a_PreCheck :: "'d act"
  a_OnCheck :: "'d act"
  a_PostCheck :: "'d act"
  a_Trigger :: "'d act"
  a_Defer :: "'d Call \<Rightarrow> 'd Call"

record Req =
  q_meth :: string
  q_rowkey :: string
  q_body :: string
  q_now :: Time

datatype cause = CText string | CError record_error

text \<open>\<open>Done\<close> with the status, the value and whether it is printed for people; \<open>Failed\<close> with the code of the
  error, a thousand times the status, and its text; an error of the server is passed on.\<close>

datatype rest_reply = Done int rest_value bool | Failed int cause | Passed ServerError

definition getCode :: "bool \<Rightarrow> string \<Rightarrow> int" where
  "getCode ifSuc meth =
     (if ifSuc then
        (if to_lower meth = ''delete'' then 204
         else if to_lower meth = ''put'' \<or> to_lower meth = ''post'' then 201
         else 200)
      else
        (if to_lower meth = ''get'' then 404
         else if to_lower meth = ''head'' then 409
         else 400))"

definition returnError :: "string \<Rightarrow> record_error option \<Rightarrow> int \<Rightarrow> string \<Rightarrow> rest_reply" where
  "returnError meth err code0 msg0 =
     (let code = (if code0 = 0 then getCode False meth * 1000 else code0);
          msg = (if msg0 = [] then ''error!'' else msg0)
      in case err of
           Some (ErrOther (ServerErr e)) \<Rightarrow> Passed e
         | Some e \<Rightarrow> Failed code (CError e)
         | None \<Rightarrow> Failed code (CText msg))"

definition NotOK :: "Req \<Rightarrow> record_error option \<Rightarrow> rest_reply" where
  "NotOK q err = returnError (q_meth q) err 0 []"

definition BadRequest :: "Req \<Rightarrow> record_error option \<Rightarrow> rest_reply" where
  "BadRequest q err = returnError (q_meth q) err (400 * 1000) ''Bad request!''"

definition NotFound :: "Req \<Rightarrow> record_error option \<Rightarrow> rest_reply" where
  "NotFound q err = returnError (q_meth q) err (404 * 1000) ''Not found!''"

definition InternalError :: "Req \<Rightarrow> record_error option \<Rightarrow> rest_reply" where
  "InternalError q err = returnError (q_meth q) err (500 * 1000) ''Internal errors!''"

definition OK :: "Req \<Rightarrow> 'd Call \<Rightarrow> rest_value \<Rightarrow> rest_reply" where
  "OK q c v = Done (getCode True (q_meth q)) v (e_pretty (rst (c_inst c)))"

section \<open>Handlers\<close>

type_synonym 'd answer = "('d Call \<times> rest_reply) outcome"

text \<open>An action whose error ends the request, and one whose error is only logged.\<close>

definition attempt :: "'d act \<Rightarrow> (record_error \<Rightarrow> rest_reply) \<Rightarrow> ('d Call \<Rightarrow> rest_value \<Rightarrow> 'd answer) \<Rightarrow> 'd Call \<Rightarrow> 'd answer" where
  "attempt f failed k c =
     bind_outcome (f c) (\<lambda>(c1, v, e). case e of Some e \<Rightarrow> Ret (c1, failed e) | None \<Rightarrow> k c1 v)"

definition logged :: "'d act \<Rightarrow> ('d Call \<Rightarrow> rest_value \<Rightarrow> 'd answer) \<Rightarrow> 'd Call \<Rightarrow> 'd answer" where
  "logged f k c = bind_outcome (f c) (\<lambda>(c1, v, e). k c1 v)"

definition deferred :: "'d Action \<Rightarrow> 'd answer \<Rightarrow> 'd answer" where
  "deferred a r = bind_outcome r (\<lambda>(c, rep). Ret (a_Defer a c, rep))"

definition bad :: "Req \<Rightarrow> record_error \<Rightarrow> rest_reply" where
  "bad q e = BadRequest q (Some e)"

definition not_ok :: "Req \<Rightarrow> record_error \<Rightarrow> rest_reply" where
  "not_ok q e = NotOK q (Some e)"

definition read_failed :: "Req \<Rightarrow> record_error \<Rightarrow> rest_reply" where
  "read_failed q e = (if e = ErrNoRecord then NotFound q (Some e) else InternalError q (Some e))"

definition answered :: "Req \<Rightarrow> 'd Call \<Rightarrow> rest_value \<Rightarrow> 'd answer" where
  "answered q c v = Ret (c, OK q c v)"

definition RESTGet :: "'d Action \<Rightarrow> Req \<Rightarrow> 'd Call \<Rightarrow> 'd answer" where
  "RESTGet a q c = deferred a
     (attempt (a_PreGet a) (bad q) (\<lambda>c v.
      attempt (a_WillGet a) (bad q) (\<lambda>c v.
      attempt (a_OnGet a) (read_failed q) (\<lambda>c v.
      attempt (a_DidGet a) (not_ok q) (\<lambda>c v.
      attempt (a_PostGet a) (not_ok q) (answered q) c) c) c) c) c)"

definition RESTSearch :: "'d Action \<Rightarrow> Req \<Rightarrow> 'd Call \<Rightarrow> 'd answer" where
  "RESTSearch a q c = deferred a
     (attempt (a_PreSearch a) (bad q) (\<lambda>c v.
      attempt (a_WillSearch a) (bad q) (\<lambda>c v.
      attempt (a_OnSearch a) (read_failed q) (\<lambda>c v.
      attempt (a_DidSearch a) (not_ok q) (\<lambda>c v.
      attempt (a_PostSearch a) (not_ok q) (answered q) c) c) c) c) c)"

definition RESTPost :: "'d Action \<Rightarrow> Req \<Rightarrow> 'd Call \<Rightarrow> 'd answer" where
  "RESTPost a q c = deferred a
     (attempt (a_PreCreate a) (bad q) (\<lambda>c v.
      attempt (a_WillCreate a) (bad q) (\<lambda>c v.
      attempt (a_OnCreate a) (not_ok q) (\<lambda>c v.
      attempt (a_DidCreate a) (not_ok q) (\<lambda>c v.
      logged (a_Trigger a) (\<lambda>c v.
      logged (a_PostCreate a) (answered q) c) c) c) c) c) c)"

definition RESTPatch :: "'d Action \<Rightarrow> Req \<Rightarrow> 'd Call \<Rightarrow> 'd answer" where
  "RESTPatch a q c = deferred a
     (attempt (a_PreUpdate a) (bad q) (\<lambda>c v.
      attempt (a_WillUpdate a) (bad q) (\<lambda>c v.
      attempt (a_OnUpdate a) (not_ok q) (\<lambda>c v.
      attempt (a_DidUpdate a) (not_ok q) (\<lambda>c v.
      logged (a_Trigger a) (\<lambda>c v.
      logged (a_PostUpdate a) (answered q) c) c) c) c) c) c)"

definition RESTPut :: "'d Action \<Rightarrow> Req \<Rightarrow> 'd Call \<Rightarrow> 'd answer" where
  "RESTPut a q c = deferred a
     (attempt (a_PreUpdate a) (bad q) (\<lambda>c v.
      attempt (a_OnUpdate a) (not_ok q) (\<lambda>c v.
      logged (a_Trigger a) (\<lambda>c v.
      logged (a_PostUpdate a) (answered q) c) c) c) c)"

definition RESTDelete :: "'d Action \<Rightarrow> Req \<Rightarrow> 'd Call \<Rightarrow> 'd answer" where
  "RESTDelete a q c = deferred a
     (attempt (a_PreDelete a) (bad q) (\<lambda>c v.
      attempt (a_OnDelete a) (not_ok q) (\<lambda>c v.
      logged (a_PostDelete a) (\<lambda>c rt.
      logged (a_Trigger a) (\<lambda>c v. answered q c rt) c) c) c) c)"

definition RESTHead :: "'d Action \<Rightarrow> Req \<Rightarrow> 'd Call \<Rightarrow> 'd answer" where
  "RESTHead a q c = deferred a
     (attempt (a_PreCheck a) (bad q) (\<lambda>c v.
      attempt (a_OnCheck a) (read_failed q) (\<lambda>c cnt.
      attempt (a_PostCheck a) (\<lambda>e. InternalError q (Some e)) (\<lambda>c v.
        case cnt of
          RCount n \<Rightarrow> Ret (c, if 0 < n then NotOK q None else OK q c RNothing)
        | _ \<Rightarrow> Panic (PanicMsg ''interface conversion'')) c) c) c)"

section \<open>The default actions\<close>

definition returns :: "('d Call \<Rightarrow> rest_value) \<Rightarrow> 'd act" where
  "returns f c = Ret (c, f c, None)"

definition the_model :: "'d Call \<Rightarrow> rest_value" where
  "the_model c = RModel (vals (c_inst c))"

definition on_rest :: "(RestState \<Rightarrow> RestState) \<Rightarrow> 'd act" where
  "on_rest f c =
     (let c1 = c\<lparr>c_inst := (c_inst c)\<lparr>rst := f (rst (c_inst c))\<rparr>\<rparr> in Ret (c1, the_model c1, None))"

definition columns_of :: "'d Call \<Rightarrow> StructColumn list" where
  "columns_of c = map fst (vals (c_inst c))"

definition act_PreGet :: "'d Layer \<Rightarrow> Req \<Rightarrow> 'd act" where
  "act_PreGet l q c =
     on_rest (PreGet (l_loc l) (q_now q) (columns_of c) (pk_field (vals (c_inst c))) (q_rowkey q)) c"

definition act_PreSearch :: "'d Layer \<Rightarrow> Req \<Rightarrow> 'd act" where
  "act_PreSearch l q c = on_rest (PreSearch (l_loc l) (q_now q) (columns_of c)) c"

definition act_PreCheck :: "'d Layer \<Rightarrow> Req \<Rightarrow> 'd act" where
  "act_PreCheck l q c = on_rest (PreCheck (l_loc l) (q_now q) (columns_of c)) c"

text \<open>\<open>OnGet\<close> assigns the row to the model of the request.\<close>

definition OnGet :: "'d Layer \<Rightarrow> Req \<Rightarrow> 'd act" where
  "OnGet l q c =
     bind_outcome (Row l (q_now q) id [] (s_db (c_store c)) (c_inst c)) (\<lambda>(m1, r).
       Ret (case r of
         Inr row \<Rightarrow> (c\<lparr>c_inst := m1\<lparr>vals := row\<rparr>\<rparr>, RModel row, None)
       | Inl e \<Rightarrow> (c\<lparr>c_inst := m1\<rparr>, RNothing, Some e)))"

definition PostGet :: "'d act" where
  "PostGet c =
     bind_outcome (Protect (vals (c_inst c))) (\<lambda>v. Ret (c\<lparr>c_inst := (c_inst c)\<lparr>vals := v\<rparr>\<rparr>, RModel v, None))"

text \<open>\<open>List\<close>: an error of \<open>ReadPrepare\<close> leaves a nil builder, whose \<open>Count\<close> panics; an error of the counting
  is ignored.\<close>

definition REST_List :: "'d Layer \<Rightarrow> 'd \<Rightarrow> Inst \<Rightarrow> (RList \<times> record_error option) outcome" where
  "REST_List l d m =
     (let cols = map fst (vals m) in
      bind_outcome (ReadPrepare (l_pr l) (l_joins l) (l_arrange l) (l_tables l) (l_table l) cols
          (model_keys (l_fl l) (l_iter l) (vals m)) False False (rst m)) (\<lambda>r.
        case r of
          Inl e \<Rightarrow> Panic NilDereference
        | Inr b \<Rightarrow>
            bind_outcome (Count b) (\<lambda>cq.
              let count = (case l_count l d cq of Inr n \<Rightarrow> n | Inl e \<Rightarrow> 0);
                  p = r_pagination (rst m);
                  info = (case p of
                      Some p \<Rightarrow> \<lparr>li_page = Page p, li_per_page = PerPage p, li_total = count, li_rows = []\<rparr>
                    | None \<Rightarrow> \<lparr>li_page = 1, li_per_page = count, li_total = count, li_rows = []\<rparr>)
              in bind_outcome (Rows_statement (r_fields (rst m)) cols True p b) (\<lambda>stmt.
                   Ret (case l_find l d stmt of
                     Inl e \<Rightarrow> (info, Some (ErrDb e))
                   | Inr rows \<Rightarrow> (info\<lparr>li_rows := rows\<rparr>, None))))))"

definition OnSearch :: "'d Layer \<Rightarrow> 'd act" where
  "OnSearch l c =
     bind_outcome (REST_List l (s_db (c_store c)) (c_inst c)) (\<lambda>(li, e).
       Ret (case e of Some e \<Rightarrow> (c, RNothing, Some e) | None \<Rightarrow> (c\<lparr>c_result := RRows li\<rparr>, RRows li, None)))"

definition PreWrite :: "'d Layer \<Rightarrow> Req \<Rightarrow> string \<Rightarrow> 'd act" where
  "PreWrite l q act c =
     bind_outcome (REST_Valid l (q_now q) (Some (q_rowkey q)) (q_body q) [] (c_store c) ((c_inst c)\<lparr>i_action := act\<rparr>))
       (\<lambda>(s, m, e). Ret (c\<lparr>c_store := s, c_inst := m\<rparr>, case e of None \<Rightarrow> RModel (vals m) | Some e \<Rightarrow> RNothing, e))"

definition OnCreate :: "'d Layer \<Rightarrow> 'd act" where
  "OnCreate l c =
     (case CreateRow l (c_store c) (c_inst c) of
        (s, m, r) \<Rightarrow> Ret (c\<lparr>c_store := s, c_inst := m\<rparr>,
          case r of Inr v \<Rightarrow> RModel v | Inl e \<Rightarrow> RNothing, case r of Inr v \<Rightarrow> None | Inl e \<Rightarrow> Some e))"

definition written :: "'d Call \<Rightarrow> 'd Store \<times> Inst \<times> (record_error + int) \<Rightarrow> 'd Call \<times> rest_value \<times> record_error option" where
  "written c = (\<lambda>(s, m, r). (c\<lparr>c_store := s, c_inst := m\<rparr>,
     case r of Inr n \<Rightarrow> RModel (vals m) | Inl e \<Rightarrow> RNothing, case r of Inr n \<Rightarrow> None | Inl e \<Rightarrow> Some e))"

definition OnUpdate :: "'d Layer \<Rightarrow> Req \<Rightarrow> 'd act" where
  "OnUpdate l q c =
     bind_outcome (UpdateRecord l (q_rowkey q) (c_store c) (c_inst c)) (\<lambda>r. Ret (written c r))"

definition OnDelete :: "'d Layer \<Rightarrow> Req \<Rightarrow> 'd act" where
  "OnDelete l q c =
     bind_outcome (DeleteRow l (q_rowkey q) (c_store c) (c_inst c)) (\<lambda>r. Ret (written c r))"

text \<open>\<open>Filter\<close> fills a new model and leaves that of the request.\<close>

definition PostWrite :: "'d act" where
  "PostWrite c = bind_outcome (Filter (vals (c_inst c))) (\<lambda>v. Ret (c, RModel v, None))"

definition GetCount :: "'d Layer \<Rightarrow> 'd \<Rightarrow> Inst \<Rightarrow> (record_error + int) outcome" where
  "GetCount l d m =
     bind_outcome (ReadPrepare (l_pr l) (l_joins l) (l_arrange l) (l_tables l) (l_table l) (map fst (vals m))
         (model_keys (l_fl l) (l_iter l) (vals m)) False False (rst m)) (\<lambda>r.
       case r of
         Inl e \<Rightarrow> Panic NilDereference
       | Inr b \<Rightarrow> bind_outcome (Count b) (\<lambda>cq.
           Ret (case l_count l d cq of Inr n \<Rightarrow> Inr n | Inl e \<Rightarrow> Inl (ErrDb e))))"

definition OnCheck :: "'d Layer \<Rightarrow> 'd act" where
  "OnCheck l c =
     bind_outcome (GetCount l (s_db (c_store c)) (c_inst c)) (\<lambda>r.
       Ret (c, case r of Inr n \<Rightarrow> RCount n | Inl e \<Rightarrow> RNothing, case r of Inr n \<Rightarrow> None | Inl e \<Rightarrow> Some e))"

definition default_action :: "'d Layer \<Rightarrow> Req \<Rightarrow> 'd Action" where
  "default_action l q = \<lparr>
     a_PreGet = act_PreGet l q, a_WillGet = returns the_model, a_OnGet = OnGet l q, a_DidGet = returns the_model,
     a_PostGet = PostGet,
     a_PreSearch = act_PreSearch l q, a_WillSearch = returns the_model, a_OnSearch = OnSearch l,
     a_DidSearch = returns c_result, a_PostSearch = returns c_result,
     a_PreCreate = PreWrite l q ACTION_CREATE, a_WillCreate = returns the_model, a_OnCreate = OnCreate l,
     a_DidCreate = returns the_model, a_PostCreate = PostWrite,
     a_PreUpdate = PreWrite l q ACTION_UPDATE, a_WillUpdate = returns the_model, a_OnUpdate = OnUpdate l q,
     a_DidUpdate = returns the_model, a_PostUpdate = PostWrite,
     a_PreDelete = returns the_model, a_OnDelete = OnDelete l q, a_PostDelete = returns the_model,
     a_PreCheck = act_PreCheck l q, a_OnCheck = OnCheck l, a_PostCheck = returns the_model,
     a_Trigger = returns the_model, a_Defer = id\<rparr>"

section \<open>Routes\<close>

unbundle bit_operations_syntax

definition GM_GET :: int where "GM_GET = 1"
definition GM_LIST :: int where "GM_LIST = 2"
definition GM_POST :: int where "GM_POST = 4"
definition GM_DELETE :: int where "GM_DELETE = 8"
definition GM_PATCH :: int where "GM_PATCH = 16"
definition GM_PUT :: int where "GM_PUT = 32"
definition GM_HEAD :: int where "GM_HEAD = 64"
definition GM_RPT :: int where "GM_RPT = 128"

definition GM_ALL :: int where
  "GM_ALL = GM_GET OR GM_LIST OR GM_POST OR GM_DELETE OR GM_PATCH OR GM_HEAD OR GM_PUT"

definition GM_NONE :: int where "GM_NONE = 0"

datatype rest_handler = HGet | HPost | HDelete | HPatch | HPut | HHead | HSearch | RESTDeny

datatype meth_arg = MethBits int | MethName string

text \<open>The handler of a method, given as bits or by its name, with the flags if they are given.\<close>

definition method_of_name :: "string \<Rightarrow> int" where
  "method_of_name s =
     (case map_of [(''GET'', GM_GET), (''POST'', GM_POST), (''DELETE'', GM_DELETE), (''PATCH'', GM_PATCH),
        (''PUT'', GM_PUT), (''HEAD'', GM_HEAD)] (to_upper s) of Some n \<Rightarrow> n | None \<Rightarrow> GM_NONE)"

definition method_number :: "meth_arg \<Rightarrow> int" where
  "method_number a =
     (case a of
        MethBits n \<Rightarrow> if 0 < n then n else GM_NONE
      | MethName s \<Rightarrow> if 0 < MustInt_string s then MustInt_string s else method_of_name s)"

definition handlerByMethod :: "meth_arg \<Rightarrow> int option \<Rightarrow> rest_handler" where
  "handlerByMethod a f =
     (let flag = (case f of Some f \<Rightarrow> if 0 < f then f else GM_ALL | None \<Rightarrow> GM_ALL);
          n = method_number a
      in if 0 < flag AND n then
           if n = GM_GET then HGet
           else if n = GM_POST then HPost
           else if n = GM_DELETE then HDelete
           else if n = GM_PATCH then HPatch
           else if n = GM_PUT then HPut
           else if n = GM_HEAD then HHead
           else if n = GM_LIST \<or> n = GM_RPT then HSearch
           else RESTDeny
         else RESTDeny)"

definition RowkeyKey :: string where "RowkeyKey = ''_rk_''"

definition Builtin :: "string \<Rightarrow> int \<Rightarrow> (string \<times> string \<times> rest_handler) list" where
  "Builtin endpoint flag =
     (let h = (\<lambda>n. handlerByMethod (MethBits n) (Some flag)); one = ''/'' @ endpoint @ ''/:'' @ RowkeyKey
      in [(''HEAD'', ''/'' @ endpoint, h GM_HEAD), (''GET'', one, h GM_GET), (''GET'', ''/'' @ endpoint, h GM_LIST),
          (''POST'', ''/'' @ endpoint, h GM_POST), (''DELETE'', one, h GM_DELETE), (''PATCH'', one, h GM_PATCH),
          (''PUT'', one, h GM_PUT)])"

text \<open>What a handler does with a request.\<close>

definition handle :: "rest_handler \<Rightarrow> 'd Action \<Rightarrow> Req \<Rightarrow> 'd Call \<Rightarrow> 'd answer" where
  "handle h a q c =
     (case h of
        HGet \<Rightarrow> RESTGet a q c
      | HPost \<Rightarrow> RESTPost a q c
      | HDelete \<Rightarrow> RESTDelete a q c
      | HPatch \<Rightarrow> RESTPatch a q c
      | HPut \<Rightarrow> RESTPut a q c
      | HHead \<Rightarrow> RESTHead a q c
      | HSearch \<Rightarrow> RESTSearch a q c
      | RESTDeny \<Rightarrow> Ret (c, Passed \<lparr>Code = 405, Message = ''Method Not Allowed''\<rparr>))"

section \<open>Lemmas\<close>

lemma attempt_Done:
  assumes "attempt f failed k c = Ret (c', Done st v p)" "\<And>e. failed e \<noteq> Done st v p"
  obtains c1 v1 where "f c = Ret (c1, v1, None)" "k c1 v1 = Ret (c', Done st v p)"
  using assms by (auto simp: attempt_def elim!: bind_outcome_RetE split: option.splits)

lemma logged_Ret:
  assumes "logged f k c = Ret r"
  obtains c1 v1 e where "f c = Ret (c1, v1, e)" "k c1 v1 = Ret r"
  using assms by (auto simp: logged_def elim!: bind_outcome_RetE)

lemma deferred_Ret:
  assumes "deferred a x = Ret (c', rep)"
  obtains c1 where "x = Ret (c1, rep)" "c' = a_Defer a c1"
  using assms by (auto simp: deferred_def elim!: bind_outcome_RetE)

lemma returnError_not_Done: "returnError meth e code msg \<noteq> Done st v p"
  by (simp add: returnError_def Let_def split: option.splits record_error.splits go_error.splits)

lemma errors_not_Done [simp]:
  "bad q e \<noteq> Done st v p" "not_ok q e \<noteq> Done st v p" "read_failed q e \<noteq> Done st v p"
  by (simp_all add: bad_def not_ok_def read_failed_def BadRequest_def NotOK_def NotFound_def InternalError_def
      returnError_not_Done)

lemma answered_Ret: "answered q c v = Ret (c', Done st w p) \<longleftrightarrow> c' = c \<and> OK q c v = Done st w p"
  by (auto simp: answered_def)

lemma returns_Ret: "returns f c = Ret (c', v, e) \<longleftrightarrow> c' = c \<and> v = f c \<and> e = None"
  by (auto simp: returns_def)

lemma default_simps [simp]:
  "a_PreGet (default_action l q) = act_PreGet l q" "a_WillGet (default_action l q) = returns the_model"
  "a_OnGet (default_action l q) = OnGet l q" "a_DidGet (default_action l q) = returns the_model"
  "a_PostGet (default_action l q) = PostGet"
  "a_PreCreate (default_action l q) = PreWrite l q ACTION_CREATE" "a_WillCreate (default_action l q) = returns the_model"
  "a_OnCreate (default_action l q) = OnCreate l" "a_DidCreate (default_action l q) = returns the_model"
  "a_PostCreate (default_action l q) = PostWrite"
  "a_PreUpdate (default_action l q) = PreWrite l q ACTION_UPDATE" "a_WillUpdate (default_action l q) = returns the_model"
  "a_OnUpdate (default_action l q) = OnUpdate l q" "a_DidUpdate (default_action l q) = returns the_model"
  "a_PostUpdate (default_action l q) = PostWrite"
  "a_Trigger (default_action l q) = returns the_model" "a_Defer (default_action l q) = id"
  by (simp_all add: default_action_def)

lemma map_fields_in:
  assumes "map_fields f m = Ret m'" "(col, x) \<in> set m'"
  shows "\<exists>y. (col, y) \<in> set m \<and> f col y = Ret x"
proof -
  obtain i where i: "i < length m'" "m' ! i = (col, x)" using assms(2) by (metis in_set_conv_nth)
  then have "i < length m" "fst (m ! i) = col" "f (fst (m ! i)) (snd (m ! i)) = Ret x"
    using map_fields_Ret [OF assms(1)] by fastforce+
  then show ?thesis by (metis nth_mem prod.collapse)
qed

lemma Protect_hides: "Protect v = Ret w \<Longrightarrow> (col, x) \<in> set w \<Longrightarrow> Contains (col_extopts col) ''S'' \<Longrightarrow> x = zero_of x"
  using map_fields_in [of protect_field v w col x] by (auto simp: Protect_def protect_field_def split: if_splits)

lemma Filter_hides: "Filter v = Ret w \<Longrightarrow> (col, x) \<in> set w \<Longrightarrow> \<not> returned_column col \<Longrightarrow> x = zero_of x"
  using map_fields_in [of filter_field v w col x] by (auto simp: Filter_def filter_field_def split: if_splits)

lemma OK_Done: "OK q c v = Done st w p \<Longrightarrow> w = v"
  by (simp add: OK_def)

lemma PostGet_value: "PostGet c = Ret (c', v, e) \<Longrightarrow> \<exists>w. v = RModel w \<and> Protect (vals (c_inst c)) = Ret w"
  by (auto simp: PostGet_def elim!: bind_outcome_RetE)

lemma PostWrite_value: "PostWrite c = Ret (c', v, e) \<Longrightarrow> \<exists>w. v = RModel w \<and> Filter (vals (c_inst c)) = Ret w \<and> c' = c"
  by (auto simp: PostWrite_def elim!: bind_outcome_RetE)

lemma get_reply:
  assumes "RESTGet (default_action l q) q c = Ret (c', Done st v p)"
  shows "\<exists>u w. v = RModel w \<and> Protect u = Ret w"
  using assms unfolding RESTGet_def
  by (auto elim!: deferred_Ret attempt_Done simp: answered_Ret dest!: OK_Done PostGet_value) blast+

text \<open>The calls of an update that is answered with a value.\<close>

lemma update_reply:
  assumes "h = HPatch \<or> h = HPut" "handle h (default_action l q) q c = Ret (c', Done st v p)"
  obtains c1 v1 c2 v2 w where "PreWrite l q ACTION_UPDATE c = Ret (c1, v1, None)" "OnUpdate l q c1 = Ret (c2, v2, None)"
    "v = RModel w" "Filter (vals (c_inst c2)) = Ret w" "c' = c2"
  using assms unfolding handle_def
  by (auto simp: RESTPatch_def RESTPut_def answered_Ret returns_Ret elim!: deferred_Ret attempt_Done logged_Ret
      dest!: OK_Done PostWrite_value)

lemma post_reply:
  assumes "RESTPost (default_action l q) q c = Ret (c', Done st v p)"
  shows "\<exists>u w. v = RModel w \<and> Filter u = Ret w"
  using assms unfolding RESTPost_def
  by (auto elim!: deferred_Ret attempt_Done logged_Ret simp: answered_Ret dest!: OK_Done PostWrite_value) blast+

text \<open>Reading records does not change the database.\<close>

lemma LocalGet_db: "s_db (snd (LocalGet l now k s)) = s_db s"
  by (simp add: LocalGet_def split: prod.split)

lemma LocalGet_db': "LocalGet l now k s = (r, s1) \<Longrightarrow> s_db s1 = s_db s"
  using LocalGet_db [of l now k s] by simp

lemma GetRecord_db: "GetRecord l now fuzzy bnd pk s m = Ret (s', m', r) \<Longrightarrow> s_db s' = s_db s"
  by (auto simp: GetRecord_def LocalSet_def dest!: LocalGet_db' elim!: bind_outcome_RetE
      split: option.splits if_splits prod.splits sum.splits)

lemma GetOlder_db: "GetOlder l now ctx arg s m = Ret (s', m', r) \<Longrightarrow> s_db s' = s_db s"
  by (auto simp: GetOlder_def Let_def dest!: GetRecord_db elim!: bind_outcome_RetE split: option.splits if_splits)

lemma REST_Valid_db:
  assumes "REST_Valid l now ctx body only s m = Ret (s', m', None)"
  shows "s_db s' = s_db s"
proof -
  obtain m1 s1 m2 older where "(if Updating m1 then GetOlder l now ctx [] s m1 else Ret (s, m1, None)) = Ret (s1, m2, older)"
    "s' = s1"
    using REST_ValidE [OF assms] by metis
  then show ?thesis using GetOlder_db by (auto split: if_splits)
qed

text \<open>A successful update by primary key: the model with this key is given to the database, and the record is
  removed from the cache.\<close>

lemma UpdateRecord_calls:
  assumes "UpdateRecord l pk s m = Ret (s', m', Inr n)" "pk \<noteq> []"
  shows "\<exists>w d. ImportValue (l_fl l) [(''pk'', pk)] (vals m) = Ret (True, w) \<and> l_update l (s_db s) w = (d, Inr n)
    \<and> s' = LocalDel l (pk_key l pk) (s\<lparr>s_db := d\<rparr>)"
  using assms
  by (auto simp: UpdateRecord_def write_key_def UpdateRow_def do_update_def pk_key_not_Nil
      elim!: bind_outcome_RetE split: option.splits if_splits prod.splits sum.splits)

section \<open>Properties\<close>

text \<open>C22: What answers show. With the default actions, the record that a GET answers has every secret field zero, and the
  record that answers a POST, PATCH or PUT has every field zero that is not the primary key or one to be returned.\<close>

theorem answers_hide_fields:
  assumes "handle h (default_action l q) q c = Ret (c', Done st (RModel v) p)" "(col, x) \<in> set v"
  shows "h = HGet \<and> Contains (col_extopts col) ''S'' \<or> h \<in> {HPost, HPatch, HPut} \<and> \<not> returned_column col \<longrightarrow> x = zero_of x"
proof -
  have "h = HGet \<Longrightarrow> Contains (col_extopts col) ''S'' \<Longrightarrow> x = zero_of x"
    using assms get_reply [of l q c c' st "RModel v" p] Protect_hides [OF _ assms(2)] by (auto simp: handle_def)
  moreover have "\<exists>u. Filter u = Ret v" if "h \<in> {HPost, HPatch, HPut}"
  proof (cases "h = HPost")
    case True
    then show ?thesis using assms(1) post_reply [of l q c c' st "RModel v" p] by (simp add: handle_def)
  next
    case False
    with that have "h = HPatch \<or> h = HPut" by simp
    from update_reply [OF this assms(1)] show ?thesis by (metis rest_value.inject(1))
  qed
  ultimately show ?thesis using Filter_hides [OF _ assms(2)] by auto
qed

text \<open>Which built-in routes answer. With flags, a route is refused exactly when the flag of its kind is not set;
  without any, as for a model whose routes are to be disabled, every route is served.\<close>

lemma builtin_routes_denied:
  assumes "n \<in> {GM_GET, GM_LIST, GM_POST, GM_DELETE, GM_PATCH, GM_PUT, GM_HEAD}"
  shows "handlerByMethod (MethBits n) (Some flag) = RESTDeny \<longleftrightarrow> 0 < flag \<and> flag AND n = 0"
proof -
  note d = GM_GET_def GM_LIST_def GM_POST_def GM_DELETE_def GM_PATCH_def GM_PUT_def GM_HEAD_def GM_RPT_def
  have all: "0 < GM_ALL AND n" using assms by (auto simp: d GM_ALL_def)
  have "0 < flag AND n \<longleftrightarrow> flag AND n \<noteq> 0" if "0 < flag"
  proof -
    have "0 \<le> flag AND n" using that by simp
    then show ?thesis by linarith
  qed
  moreover have "0 < n" using assms by (auto simp: d)
  ultimately show ?thesis
    using assms all by (auto simp: handlerByMethod_def method_number_def Let_def d split: if_splits)
qed

text \<open>C10: What an update does. A PATCH or PUT with the default actions, on a model that is not filled yet, that answers a value has
  updated the database once, and what it wrote is the body of the request: the body decodes to \<open>b\<close>; the identifier of the request is set in it;
  every read-only, generated or uneditable field with a value is replaced by the zero of its type (so \<open>nil\<close> for a pointer and the empty text for
  a string, which the database leaves out of its update, but a zero that counts as a value for a plain number or boolean), the value of a field to hash by its hash, and no other field is changed; and
  the identifier is set again as the primary key. The record of that identifier was then removed from the cache. The keepers are those that the
  program comes with.\<close>

theorem update_writes_once:
  assumes "h = HPatch \<or> h = HPut" "handle h (default_action l q) q c = Ret (c', Done st v p)"
    and "l_zoo l = zoo fl z" "q_rowkey q \<noteq> []" "\<not> i_guest (c_inst c)" "\<not> i_filled (c_inst c)"
  shows "\<exists>b b1 w n t. l_json l (q_body q) (vals (c_inst c)) = Some b \<and> read_for l (q_rowkey q) (i_older (c_inst c)) b b1
    \<and> ImportValue (l_fl l) [(''pk'', q_rowkey q)] (checked fl z b1) = Ret (True, w)
    \<and> l_update l (s_db (c_store c)) w = (s_db t, Inr n) \<and> c_store c' = LocalDel l (pk_key l (q_rowkey q)) t"
proof -
  obtain c1 v1 c2 v2 where c: "PreWrite l q ACTION_UPDATE c = Ret (c1, v1, None)" "OnUpdate l q c1 = Ret (c2, v2, None)" "c' = c2"
    using update_reply [OF assms(1,2)] by metis
  obtain s m where m: "REST_Valid l (q_now q) (Some (q_rowkey q)) (q_body q) [] (c_store c) ((c_inst c)\<lparr>i_action := ACTION_UPDATE\<rparr>)
      = Ret (s, m, None)" "c_store c1 = s" "c_inst c1 = m"
    using c(1) by (auto simp: PreWrite_def elim!: bind_outcome_RetE)
  obtain b b1 where b: "l_json l (q_body q) (vals (c_inst c)) = Some b" "read_for l (q_rowkey q) (i_older (c_inst c)) b b1"
    "vals m = checked fl z b1"
    using valid_update_written [OF m(1) _ assms(3,4)] assms(5,6) by (auto simp: Updating_def)
  have "s_db s = s_db (c_store c)" by (rule REST_Valid_db [OF m(1)])
  moreover obtain s2 m2 n where "UpdateRecord l (q_rowkey q) s m = Ret (s2, m2, Inr n)" "c_store c2 = s2"
    using c(2) m(2,3) by (auto simp: OnUpdate_def written_def elim!: bind_outcome_RetE split: sum.splits)
  moreover from UpdateRecord_calls [OF this(1) assms(4)] obtain w d where
    "ImportValue (l_fl l) [(''pk'', q_rowkey q)] (vals m) = Ret (True, w)" "l_update l (s_db s) w = (d, Inr n)"
    "s2 = LocalDel l (pk_key l (q_rowkey q)) (s\<lparr>s_db := d\<rparr>)"
    by blast
  moreover have "s_db (s\<lparr>s_db := d\<rparr>) = d" by simp
  ultimately show ?thesis using c(3) b by metis
qed

text \<open>Updating a record that is not there. A PATCH or PUT for an identifier that neither the cache nor the database
  knows answers a bad request saying that there is no record, and leaves the database as it was.\<close>

lemma update_of_missing_record:
  assumes "h = HPatch \<or> h = HPut" "model_of cols f v" "fresh_rest (c_inst c)" "registered l" "i_older (c_inst c) = None"
    and "\<not> i_guest (c_inst c)" "\<not> i_filled (c_inst c)" "q_body q \<noteq> []" "l_json l (q_body q) (vals (c_inst c)) = Some v"
    and "q_rowkey q \<noteq> []" "snd (get_by_pk l cols f (q_now q) (q_rowkey q) (c_store c)) = None"
  shows "\<exists>c'. handle h (default_action l q) q c = Ret (c', Failed 400000 (CError ErrNoRecord))
    \<and> s_db (c_store c') = s_db (c_store c)"
proof -
  let ?m = "(c_inst c)\<lparr>i_action := ACTION_UPDATE, vals := v, i_filled := True\<rparr>"
  have "model_of cols f (vals ?m)" "fresh_rest ?m" using assms(2,3) by (simp_all add: fresh_rest_def)
  then obtain m' where g: "GetRecord l (q_now q) True id (q_rowkey q) (c_store c) ?m
      = Ret (fst (get_by_pk l cols f (q_now q) (q_rowkey q) (c_store c)), m', None)"
    using GetRecord_pk [of cols f ?m l "q_rowkey q" "q_now q" True id "c_store c"] assms(4,10,11) by auto
  obtain s1 where s1: "GetRecord l (q_now q) True id (q_rowkey q) (c_store c) ?m = Ret (s1, m', None)"
    "s_db s1 = s_db (c_store c)"
    using g GetRecord_db [OF g] by blast
  have "GetOlder l (q_now q) (Some (q_rowkey q)) [] (c_store c) ?m = Ret (s1, m'\<lparr>i_older := None\<rparr>, None)"
    using assms(5,10) s1(1) by (simp add: GetOlder_def)
  then have "\<exists>m'. REST_Valid l (q_now q) (Some (q_rowkey q)) (q_body q) [] (c_store c) ((c_inst c)\<lparr>i_action := ACTION_UPDATE\<rparr>)
      = Ret (s1, m', Some ErrNoRecord)"
    using assms(6-9) by (simp add: REST_Valid_def fill_def Valid_def Updating_def)
  then obtain c1 where "PreWrite l q ACTION_UPDATE c = Ret (c1, RNothing, Some ErrNoRecord)" "s_db (c_store c1) = s_db (c_store c)"
    using s1(2) by (auto simp: PreWrite_def)
  moreover have "bad q ErrNoRecord = Failed 400000 (CError ErrNoRecord)"
    by (simp add: bad_def BadRequest_def returnError_def)
  ultimately show ?thesis
    using assms(1) by (auto simp: handle_def RESTPatch_def RESTPut_def attempt_def deferred_def)
qed

section \<open>Examples\<close>

definition account_req :: Req where
  "account_req = \<lparr>q_meth = ''PATCH'', q_rowkey = ''7'', q_body = ''bob'', q_now = zeroTime\<rparr>"

definition account_call :: "(string \<Rightarrow> model option) Call" where
  "account_call = \<lparr>c_store = no_store, c_inst = account_inst [], c_result = RNothing\<rparr>"

lemma account_patch:
  "\<exists>c' v. handle HPatch (default_action account_layer account_req) account_req account_call = Ret (c', Done 200 (RModel v) False)
    \<and> v ! 1 = (account_cols ! 1, MString []) \<and> 1 < length v"
proof -
  obtain m where m: "REST_Valid account_layer zeroTime (Some ''7'') ''bob'' [] no_store (account_inst ''U'') = Ret (no_store, m, None)"
    "vals m = account [] [] ''bob''" "rst m = new_request"
    using account_update by blast
  have a: "(account_inst [])\<lparr>i_action := ACTION_UPDATE\<rparr> = account_inst ''U''"
    by (simp add: account_inst_def fresh_inst_def ACTION_UPDATE_def)
  have p: "ImportValue (l_fl example_layer) [(''pk'', ''7'')] (account [] [] ''bob'') = Ret (True, account ''7'' [] ''bob'')"
    "primaryKey (account ''7'' [] ''bob'') = (''id'', ''7'', False)"
    "Filter (account ''7'' [] ''bob'') = Ret (account ''7'' [] [])"
    by code_simp+
  have k: "account ''7'' [] [] ! 1 = (account_cols ! 1, MString [])" "1 < length (account ''7'' [] [])"
    by (simp_all add: account_def account_cols_def)
  have u: "\<exists>s. UpdateRecord account_layer ''7'' no_store m = Ret (s, m\<lparr>vals := account ''7'' [] ''bob''\<rparr>, Inr 0)"
    using p m(2)
    by (simp add: UpdateRecord_def write_key_def UpdateRow_def do_update_def pk_key_not_Nil pk_field_def pk_text_def
        account_layer_def example_layer_def no_store_def)
  have r: "OK account_req \<lparr>c_store = s, c_inst = m\<lparr>vals := w\<rparr>, c_result = RNothing\<rparr> v = Done 200 v False" for s :: "(string \<Rightarrow> model option) Store" and w v
    using m(3) by (simp add: OK_def getCode_def account_req_def new_request_def) code_simp
  show ?thesis
    using u m(1) p(3) k r
    by (auto simp: handle_def RESTPatch_def deferred_def attempt_def logged_def returns_def PreWrite_def OnUpdate_def PostWrite_def
        written_def answered_def account_call_def a account_req_def)
qed

theorem answers_hide_fields_witness:
  "\<exists>c' v. handle HPatch (default_action account_layer account_req) account_req account_call = Ret (c', Done 200 (RModel v) False)
    \<and> v ! 1 = (account_cols ! 1, MString []) \<and> MString [] = zero_of (MString [])"
proof -
  obtain c' v where v: "handle HPatch (default_action account_layer account_req) account_req account_call
      = Ret (c', Done 200 (RModel v) False)" "v ! 1 = (account_cols ! 1, MString [])" "1 < length v"
    using account_patch by blast
  have "(account_cols ! 1, MString []) \<in> set v" using v(2,3) nth_mem [of 1 v] by simp
  moreover have "\<not> returned_column (account_cols ! 1)" by code_simp
  ultimately have "MString [] = zero_of (MString [])" using answers_hide_fields [OF v(1)] by simp
  with v(1,2) show ?thesis by blast
qed

lemma builtin_routes_denied_witness:
  "handlerByMethod (MethBits GM_PUT) (Some (GM_GET OR GM_LIST)) = RESTDeny"
proof -
  have "(GM_GET OR GM_LIST) AND GM_PUT = 0" by (simp add: GM_GET_def GM_LIST_def GM_PUT_def)
  moreover have "0 < GM_GET OR GM_LIST" by (simp add: GM_GET_def GM_LIST_def)
  ultimately show ?thesis using builtin_routes_denied [of GM_PUT "GM_GET OR GM_LIST"] by simp
qed

theorem update_writes_once_witness:
  "\<exists>c' v b w n t. handle HPatch (default_action account_layer account_req) account_req account_call = Ret (c', Done 200 v False)
    \<and> l_json account_layer ''bob'' (account [] [] []) = Some b
    \<and> ImportValue (l_fl account_layer) [(''pk'', ''7'')] (checked (l_fl example_layer) example_zoo b) = Ret (True, w)
    \<and> l_update account_layer (s_db no_store) w = (s_db t, Inr n)
    \<and> c_store c' = LocalDel account_layer (pk_key account_layer ''7'') t"
proof -
  obtain c' v where v: "handle HPatch (default_action account_layer account_req) account_req account_call
      = Ret (c', Done 200 (RModel v) False)"
    using account_patch by blast
  have z: "l_zoo account_layer = zoo (l_fl example_layer) example_zoo" "q_rowkey account_req = ''7''" "q_body account_req = ''bob''"
    "c_store account_call = no_store" "vals (c_inst account_call) = account [] [] []"
    by (simp_all add: account_layer_def account_req_def account_call_def account_inst_def fresh_inst_def)
  have i: "q_rowkey account_req \<noteq> []" "\<not> i_guest (c_inst account_call)" "\<not> i_filled (c_inst account_call)" "i_older (c_inst account_call) \<noteq> None"
    by (simp_all add: account_req_def account_call_def account_inst_def fresh_inst_def)
  then have r: "read_for account_layer k (i_older (c_inst account_call)) b b1 \<longleftrightarrow> b1 = b" for k b b1
    using i(4) by (simp only: read_for_def if_False)
  from update_writes_once [OF _ v z(1) i(1-3)] v show ?thesis unfolding z r by (simp only: simp_thms) blast
qed

lemma update_of_missing_record_witness:
  "\<exists>c'. handle HPut (default_action (example_layer\<lparr>l_json := \<lambda>j v. Some (user [] j)\<rparr>) account_req) account_req
      (account_call\<lparr>c_inst := (fresh_inst (user [] []))\<lparr>i_guest := False\<rparr>\<rparr>)
    = Ret (c', Failed 400000 (CError ErrNoRecord))"
proof -
  let ?l = "example_layer\<lparr>l_json := \<lambda>j v. Some (user [] j)\<rparr>"
  let ?c = "account_call\<lparr>c_inst := (fresh_inst (user [] []))\<lparr>i_guest := False\<rparr>\<rparr>"
  have k: "short (pk_key ?l ''7'')" by (simp add: pk_key_def example_layer_def)
  have "snd (get_by_pk ?l example_cols ''id'' zeroTime ''7'' no_store) = None"
    using coherent_get(1) [OF coherent_start k] example_row
    by (simp add: no_store_def) (simp add: db_row_def example_layer_def row_statement_def)
  moreover have "registered ?l" using example_registered by (simp add: registered_def)
  ultimately show ?thesis
    using update_of_missing_record [of HPut example_cols "''id''" "user [] ''bob''" ?c ?l account_req] example_model
    by (simp add: fresh_rest_def fresh_inst_def account_call_def account_req_def) blast
qed

end
