(* ===== verification/RestPool.thy ===== *)
theory RestPool
  imports RestRecord
begin

text \<open>
  Where the \<open>*REST\<close> of a request comes from: the pools of \<open>rest/rest.go\<close>, with the making of models of
  \<open>rest/model.go\<close> that uses them.

  Pools and values of type \<open>REST\<close> live in a \<open>Heap\<close>; a pointer is an index. \<open>sync.Pool\<close> may hand out any value that
  was put into it or call \<open>New\<close>: the choice is an argument. What a context stores under \<open>__!rest!__\<close>
  is \<open>h_ctx\<close>. A request of a route brings the pool that the route was registered with.
\<close>

section \<open>Values and pools\<close>

text \<open>What a factory is closed over: the full name, the endpoint, the flags and the empty model.\<close>

record Kind =
  k_name :: string
  k_endpoint :: string
  k_flag :: int
  k_mg :: model

record RestObj =
  o_kind :: Kind
  o_pool :: nat
  o_ctx :: "nat option"
  o_inst :: Inst
  o_result :: "model list option"

record RestPoolRec =
  pl_kind :: Kind
  pl_items :: "nat list"

record Heap =
  h_rests :: "RestObj list"
  h_pools :: "RestPoolRec list"
  h_registry :: "string \<rightharpoonup> nat"
  h_ctx :: "nat \<Rightarrow> nat option"

definition new_inst :: "model \<Rightarrow> Inst" where
  "new_inst v = \<lparr>vals = v, rst = new_request, i_action = [], i_older = None, i_filled = False, i_saved = False, i_guest = False\<rparr>"

text \<open>A new value has a new pool of its own, with the same factory.\<close>

definition restFactory :: "Kind \<Rightarrow> Heap \<Rightarrow> nat \<times> Heap" where
  "restFactory k h =
     (length (h_rests h),
      h\<lparr>h_rests := h_rests h @ [\<lparr>o_kind = k, o_pool = length (h_pools h), o_ctx = None, o_inst = new_inst (k_mg k), o_result = None\<rparr>],
        h_pools := h_pools h @ [\<lparr>pl_kind = k, pl_items = []\<rparr>]\<rparr>)"

definition Pool_Get :: "nat option \<Rightarrow> nat \<Rightarrow> Heap \<Rightarrow> nat \<times> Heap" where
  "Pool_Get choice p h =
     (let pl = h_pools h ! p in
      case choice of
        Some i \<Rightarrow>
          if i < length (pl_items pl) then
            (pl_items pl ! i,
             h\<lparr>h_pools := (h_pools h)[p := pl\<lparr>pl_items := take i (pl_items pl) @ drop (Suc i) (pl_items pl)\<rparr>]\<rparr>)
          else restFactory (pl_kind pl) h
      | None \<Rightarrow> restFactory (pl_kind pl) h)"

definition Pool_Put :: "nat \<Rightarrow> nat \<Rightarrow> Heap \<Rightarrow> Heap" where
  "Pool_Put p r h = h\<lparr>h_pools := (h_pools h)[p := (h_pools h ! p)\<lparr>pl_items := pl_items (h_pools h ! p) @ [r]\<rparr>]\<rparr>"

definition on_rest_obj :: "nat \<Rightarrow> (RestObj \<Rightarrow> RestObj) \<Rightarrow> Heap \<Rightarrow> Heap" where
  "on_rest_obj r f h = h\<lparr>h_rests := (h_rests h)[r := f (h_rests h ! r)]\<rparr>"

section \<open>The operations of rest.go\<close>

definition addREST :: "Kind \<Rightarrow> Heap \<Rightarrow> nat \<times> Heap" where
  "addREST k h = (let (r, h1) = restFactory k h
     in (r, h1\<lparr>h_registry := (h_registry h1)(k_name k \<mapsto> o_pool (h_rests h1 ! r))\<rparr>))"

definition getREST :: "nat option \<Rightarrow> string \<Rightarrow> Heap \<Rightarrow> nat option \<times> Heap" where
  "getREST choice name h =
     (case h_registry h name of
        Some p \<Rightarrow> (case Pool_Get choice p h of (r, h1) \<Rightarrow> (Some r, h1))
      | None \<Rightarrow> (None, h))"

definition setContext :: "nat option \<Rightarrow> nat \<Rightarrow> Heap \<Rightarrow> Heap" where
  "setContext c r h = on_rest_obj r (\<lambda>x. x\<lparr>o_ctx := c\<rparr>) h"

text \<open>The \<open>*REST\<close> of a context: the one it has, or one from the pool of the route.\<close>

definition GetREST :: "nat option \<Rightarrow> nat \<Rightarrow> nat option \<Rightarrow> Heap \<Rightarrow> nat option \<times> Heap" where
  "GetREST choice c route h =
     (case h_ctx h c of
        Some r \<Rightarrow> (Some r, h)
      | None \<Rightarrow>
          (case route of
             Some p \<Rightarrow> (case Pool_Get choice p h of (r, h1) \<Rightarrow>
               (Some r, (setContext (Some c) r h1)\<lparr>h_ctx := (h_ctx h1)(c \<mapsto> r)\<rparr>))
           | None \<Rightarrow> (None, h)))"

text \<open>\<open>reset\<close> keeps the pagination and the result. The action and the parameters of the request are in the context,
  which is let go.\<close>

definition reset_inst :: "model \<Rightarrow> Inst \<Rightarrow> Inst" where
  "reset_inst v m = m\<lparr>vals := v, rst := new_request\<lparr>r_pagination := r_pagination (rst m)\<rparr>, i_action := [], i_older := None,
     i_filled := False, i_saved := False, i_guest := False\<rparr>"

definition reset :: "nat \<Rightarrow> Heap \<Rightarrow> Heap" where
  "reset r h = on_rest_obj r (\<lambda>x. x\<lparr>o_ctx := None, o_inst := reset_inst (k_mg (o_kind x)) (o_inst x)\<rparr>) h"

definition release :: "nat \<Rightarrow> Heap \<Rightarrow> Heap" where
  "release r h =
     (let h1 = reset r h;
          h2 = (case o_ctx (h_rests h1 ! r) of Some c \<Rightarrow> h1\<lparr>h_ctx := (h_ctx h1)(c := None)\<rparr> | None \<Rightarrow> h1)
      in Pool_Put (o_pool (h_rests h2 ! r)) r h2)"

definition newREST :: "nat option \<Rightarrow> nat \<Rightarrow> Heap \<Rightarrow> nat \<times> Heap" where
  "newREST choice r h =
     (case Pool_Get choice (o_pool (h_rests h ! r)) h of (r', h1) \<Rightarrow>
        (r', case o_ctx (h_rests h1 ! r) of Some c \<Rightarrow> setContext (Some c) r' h1 | None \<Rightarrow> h1))"

section \<open>Making models\<close>

text \<open>A model is known by its \<open>*REST\<close>; \<open>set_model\<close> is \<open>setModel\<close> with a pointer.\<close>

definition set_model :: "model \<Rightarrow> nat \<Rightarrow> Heap \<Rightarrow> Heap" where
  "set_model v r h = on_rest_obj r (\<lambda>x. x\<lparr>o_inst := (o_inst x)\<lparr>vals := v\<rparr>\<rparr>) h"

definition NewModel :: "nat option \<Rightarrow> Kind \<Rightarrow> Heap \<Rightarrow> nat \<times> Heap" where
  "NewModel choice k h =
     (case getREST choice (k_name k) h of (Some r, h1) \<Rightarrow> (r, h1) | (None, h1) \<Rightarrow> addREST k h1)"

definition REST_NewModel :: "nat option \<Rightarrow> Kind \<Rightarrow> nat \<Rightarrow> Heap \<Rightarrow> nat \<times> Heap" where
  "REST_NewModel choice k r h =
     (case o_ctx (h_rests h ! r) of
        Some c \<Rightarrow>
          (case getREST choice (k_name k) h of
             (Some r', h1) \<Rightarrow> (r', setContext (Some c) r' h1)
           | (None, h1) \<Rightarrow> NewModel choice k h1)
      | None \<Rightarrow> NewModel choice k h)"

definition set_guest :: "nat \<Rightarrow> Heap \<Rightarrow> Heap" where
  "set_guest r h = on_rest_obj r (\<lambda>x. x\<lparr>o_inst := (o_inst x)\<lparr>i_guest := True\<rparr>\<rparr>) h"

definition SetModel :: "nat option \<Rightarrow> string \<Rightarrow> model \<Rightarrow> Heap \<Rightarrow> nat option \<times> Heap" where
  "SetModel choice name v h =
     (case getREST choice name h of
        (Some r, h1) \<Rightarrow> (Some r, set_guest r (set_model v r h1))
      | (None, h1) \<Rightarrow> (None, h1))"

text \<open>The model may be a nil pointer.\<close>

definition Modelize :: "nat option \<Rightarrow> string \<Rightarrow> model option \<Rightarrow> model \<Rightarrow> nat \<Rightarrow> Heap \<Rightarrow> nat option \<times> Heap" where
  "Modelize choice name v zero r h =
     (case o_ctx (h_rests h ! r) of
        Some c \<Rightarrow>
          (case getREST choice name h of
             (Some r', h1) \<Rightarrow>
               (let h2 = set_guest r' (setContext (Some c) r' h1)
                in (Some r', case v of Some v \<Rightarrow> set_model v r' h2 | None \<Rightarrow> h2))
           | (None, h1) \<Rightarrow> SetModel choice name (case v of Some v \<Rightarrow> v | None \<Rightarrow> zero) h1)
      | None \<Rightarrow> SetModel choice name (case v of Some v \<Rightarrow> v | None \<Rightarrow> zero) h)"

section \<open>A server at work\<close>

text \<open>Registering models, requests of their routes, the end of a request, and models made meanwhile. The pools of the
  routes are recorded: a route keeps its pool when its model is registered again.\<close>

datatype pool_op =
    Add Kind
  | Request "nat option" nat nat
  | Finish nat
  | MakeNew "nat option" nat
  | MakeModel "nat option" Kind nat
  | MakeGuest "nat option" string "model option" model nat

inductive rest_step :: "Heap \<times> nat set \<Rightarrow> pool_op \<Rightarrow> Heap \<times> nat set \<Rightarrow> bool" where
  add: "addREST k h = (r, h') \<Longrightarrow> rest_step (h, ps) (Add k) (h', insert (o_pool (h_rests h' ! r)) ps)"
| request: "p \<in> ps \<Longrightarrow> GetREST choice c (Some p) h = (r, h') \<Longrightarrow> rest_step (h, ps) (Request choice c p) (h', ps)"
| finish: "h_ctx h c = Some r \<Longrightarrow> rest_step (h, ps) (Finish c) (release r h, ps)"
| make_new: "r < length (h_rests h) \<Longrightarrow> newREST choice r h = (r', h') \<Longrightarrow> rest_step (h, ps) (MakeNew choice r) (h', ps)"
| make_model: "r < length (h_rests h) \<Longrightarrow> h_registry h (k_name k) \<noteq> None \<Longrightarrow> REST_NewModel choice k r h = (r', h')
    \<Longrightarrow> rest_step (h, ps) (MakeModel choice k r) (h', ps)"
| make_guest: "r < length (h_rests h) \<Longrightarrow> Modelize choice name v z r h = (r', h')
    \<Longrightarrow> rest_step (h, ps) (MakeGuest choice name v z r) (h', ps)"

inductive pool_reachable :: "Heap \<times> nat set \<Rightarrow> bool" where
  start: "pool_reachable (\<lparr>h_rests = [], h_pools = [], h_registry = (\<lambda>n. None), h_ctx = (\<lambda>c. None)\<rparr>, {})"
| step: "pool_reachable s \<Longrightarrow> rest_step s x s' \<Longrightarrow> pool_reachable s'"

text \<open>The pools of the routes stay empty, and the value of a request has another pool.\<close>

definition pools_inv :: "Heap \<Rightarrow> nat set \<Rightarrow> bool" where
  "pools_inv h ps \<longleftrightarrow>
     (\<forall>p \<in> ps. p < length (h_pools h) \<and> pl_items (h_pools h ! p) = []) \<and>
     (\<forall>n p. h_registry h n = Some p \<longrightarrow> p \<in> ps) \<and>
     (\<forall>r < length (h_rests h). o_pool (h_rests h ! r) < length (h_pools h)) \<and>
     (\<forall>p < length (h_pools h). \<forall>r \<in> set (pl_items (h_pools h ! p)). r < length (h_rests h)) \<and>
     (\<forall>c r. h_ctx h c = Some r \<longrightarrow> r < length (h_rests h) \<and> o_pool (h_rests h ! r) \<notin> ps)"

lemma pools_invD:
  assumes "pools_inv h ps"
  shows "p \<in> ps \<Longrightarrow> p < length (h_pools h)" "p \<in> ps \<Longrightarrow> pl_items (h_pools h ! p) = []"
    and "h_registry h n = Some p \<Longrightarrow> p \<in> ps"
    and "r < length (h_rests h) \<Longrightarrow> o_pool (h_rests h ! r) < length (h_pools h)"
    and "p < length (h_pools h) \<Longrightarrow> r \<in> set (pl_items (h_pools h ! p)) \<Longrightarrow> r < length (h_rests h)"
    and "h_ctx h c = Some r \<Longrightarrow> r < length (h_rests h) \<and> o_pool (h_rests h ! r) \<notin> ps"
  using assms by (auto simp: pools_inv_def)

lemma pools_inv_factory:
  assumes "pools_inv h ps"
  shows "pools_inv (snd (restFactory k h)) ps"
  unfolding pools_inv_def restFactory_def
  using pools_invD [OF assms] by (auto simp: nth_append less_Suc_eq intro: less_SucI)

text \<open>Changing a value, but not its pool, keeps the invariant.\<close>

lemma pools_inv_on_obj:
  assumes "pools_inv h ps" "\<And>x. o_pool (f x) = o_pool x"
  shows "pools_inv (on_rest_obj r f h) ps"
proof -
  have "o_pool ((h_rests h)[r := f (h_rests h ! r)] ! i) = o_pool (h_rests h ! i)" for i
    using assms(2) by (cases "i = r"; cases "r < length (h_rests h)") (simp_all add: list_update_beyond)
  then show ?thesis using pools_invD [OF assms(1)] by (auto simp: pools_inv_def on_rest_obj_def)
qed

lemma pools_inv_pool:
  assumes "pools_inv h ps" "p \<notin> ps" "\<forall>r \<in> set (pl_items pl). r < length (h_rests h)"
  shows "pools_inv (h\<lparr>h_pools := (h_pools h)[p := pl]\<rparr>) ps"
proof -
  have n: "(h_pools h)[p := pl] ! q = (if q = p \<and> p < length (h_pools h) then pl else h_pools h ! q)" for q
    by (cases "p < length (h_pools h)") (simp_all add: nth_list_update list_update_beyond)
  show ?thesis using pools_invD [OF assms(1)] assms(2,3) unfolding pools_inv_def by (auto simp: n)
qed

lemma Pool_Get_empty:
  "pl_items (h_pools h ! p) = [] \<Longrightarrow> Pool_Get choice p h = restFactory (pl_kind (h_pools h ! p)) h"
  by (simp add: Pool_Get_def Let_def split: option.split)

lemma pools_inv_get:
  assumes "pools_inv h ps" "p < length (h_pools h)" "Pool_Get choice p h = (r, h')"
  shows "pools_inv h' ps" "r < length (h_rests h')" "length (h_rests h) \<le> length (h_rests h')" "h_ctx h' = h_ctx h"
    "h_registry h' = h_registry h"
proof -
  have "pools_inv h' ps \<and> r < length (h_rests h') \<and> length (h_rests h) \<le> length (h_rests h') \<and> h_ctx h' = h_ctx h
    \<and> h_registry h' = h_registry h"
  proof (cases "\<exists>i. choice = Some i \<and> i < length (pl_items (h_pools h ! p))")
    case False
    then have "Pool_Get choice p h = restFactory (pl_kind (h_pools h ! p)) h"
      by (auto simp: Pool_Get_def Let_def split: option.split)
    then show ?thesis using pools_inv_factory [OF assms(1), of "pl_kind (h_pools h ! p)"] assms(3)
      by (auto simp: restFactory_def)
  next
    case True
    then obtain i where i: "choice = Some i" "i < length (pl_items (h_pools h ! p))" by blast
    let ?pl = "h_pools h ! p"
    let ?pl' = "?pl\<lparr>pl_items := take i (pl_items ?pl) @ drop (Suc i) (pl_items ?pl)\<rparr>"
    have h': "h' = h\<lparr>h_pools := (h_pools h)[p := ?pl']\<rparr>" "r = pl_items ?pl ! i"
      using assms(3) i by (auto simp: Pool_Get_def Let_def)
    have p: "p \<notin> ps" using pools_invD(2) [OF assms(1), of p] i(2) by auto
    have "\<forall>r \<in> set (pl_items ?pl'). r < length (h_rests h)"
      using pools_invD(5) [OF assms(1,2)] by (auto dest: in_set_takeD in_set_dropD)
    then have "pools_inv h' ps" unfolding h' by (rule pools_inv_pool [OF assms(1) p])
    moreover have "r < length (h_rests h)" using pools_invD(5) [OF assms(1,2), of r] i(2) h'(2) by auto
    ultimately show ?thesis by (simp add: h')
  qed
  then show "pools_inv h' ps" "r < length (h_rests h')" "length (h_rests h) \<le> length (h_rests h')" "h_ctx h' = h_ctx h"
    "h_registry h' = h_registry h" by auto
qed

lemma pools_inv_ctx:
  assumes "pools_inv h ps" "r < length (h_rests h)" "o_pool (h_rests h ! r) \<notin> ps"
  shows "pools_inv (h\<lparr>h_ctx := (h_ctx h)(c \<mapsto> r)\<rparr>) ps"
  using assms unfolding pools_inv_def by auto

lemma pools_inv_simple:
  "pools_inv h ps \<Longrightarrow> pools_inv (setContext c r h) ps" "pools_inv h ps \<Longrightarrow> pools_inv (set_model v r h) ps"
  "pools_inv h ps \<Longrightarrow> pools_inv (set_guest r h) ps" "pools_inv h ps \<Longrightarrow> pools_inv (reset r h) ps"
  by (simp_all add: setContext_def set_model_def set_guest_def reset_def pools_inv_on_obj)

lemma pools_inv_getREST:
  assumes "pools_inv h ps" "getREST choice n h = (r, h')"
  shows "pools_inv h' ps"
  using assms pools_inv_get(1) [OF assms(1) pools_invD(1) [OF assms(1) pools_invD(3) [OF assms(1)]]]
  by (auto simp: getREST_def split: option.splits prod.splits)

text \<open>A request of a route gets a value that did not exist before.\<close>

lemma GetREST_new:
  assumes "pools_inv h ps" "p \<in> ps" "h_ctx h c = None"
  shows "fst (GetREST choice c (Some p) h) = Some (length (h_rests h))"
    and "h_rests (snd (GetREST choice c (Some p) h)) ! length (h_rests h)
      = \<lparr>o_kind = pl_kind (h_pools h ! p), o_pool = length (h_pools h), o_ctx = Some c,
         o_inst = new_inst (k_mg (pl_kind (h_pools h ! p))), o_result = None\<rparr>"
    and "pools_inv (snd (GetREST choice c (Some p) h)) ps"
proof -
  let ?k = "pl_kind (h_pools h ! p)" and ?r = "length (h_rests h)"
  have g: "GetREST choice c (Some p) h
      = (Some ?r, (setContext (Some c) ?r (snd (restFactory ?k h)))\<lparr>h_ctx := (h_ctx h)(c \<mapsto> ?r)\<rparr>)"
    using assms(3) Pool_Get_empty [OF pools_invD(2) [OF assms(1,2)], of choice] by (simp add: GetREST_def restFactory_def)
  show "fst (GetREST choice c (Some p) h) = Some ?r"
    "h_rests (snd (GetREST choice c (Some p) h)) ! ?r
      = \<lparr>o_kind = ?k, o_pool = length (h_pools h), o_ctx = Some c, o_inst = new_inst (k_mg ?k), o_result = None\<rparr>"
    by (simp_all add: g setContext_def on_rest_obj_def restFactory_def)
  let ?h = "setContext (Some c) ?r (snd (restFactory ?k h))"
  have o: "o_pool (h_rests ?h ! ?r) = length (h_pools h)" "?r < length (h_rests ?h)" "h_ctx ?h = h_ctx h"
    by (simp_all add: setContext_def on_rest_obj_def restFactory_def)
  have "length (h_pools h) \<notin> ps" using pools_invD(1) [OF assms(1)] by blast
  then have "pools_inv (?h\<lparr>h_ctx := (h_ctx ?h)(c \<mapsto> ?r)\<rparr>) ps"
    using o by (intro pools_inv_ctx pools_inv_simple pools_inv_factory assms(1)) simp_all
  then show "pools_inv (snd (GetREST choice c (Some p) h)) ps" by (simp add: g o(3))
qed

lemma pools_inv_release:
  assumes "pools_inv h ps" "h_ctx h c = Some r"
  shows "pools_inv (release r h) ps"
proof -
  have r: "r < length (h_rests h)" "o_pool (h_rests h ! r) \<notin> ps" using pools_invD(6) [OF assms] by auto
  have o: "o_pool (h_rests (reset r h) ! r) = o_pool (h_rests h ! r)" "o_ctx (h_rests (reset r h) ! r) = None"
    "length (h_rests (reset r h)) = length (h_rests h)" "h_pools (reset r h) = h_pools h"
    using r(1) by (simp_all add: reset_def on_rest_obj_def)
  have "\<forall>x \<in> set (pl_items (h_pools h ! o_pool (h_rests h ! r)) @ [r]). x < length (h_rests (reset r h))"
    using pools_invD(5) [OF assms(1) pools_invD(4) [OF assms(1) r(1)]] r(1) o(3) by auto
  then have "pools_inv ((reset r h)\<lparr>h_pools := (h_pools (reset r h))[o_pool (h_rests h ! r) :=
      (h_pools h ! o_pool (h_rests h ! r))\<lparr>pl_items := pl_items (h_pools h ! o_pool (h_rests h ! r)) @ [r]\<rparr>]\<rparr>) ps"
    by (intro pools_inv_pool [OF pools_inv_simple(4) [OF assms(1)] r(2)]) simp
  then show ?thesis using o by (simp add: release_def Let_def Pool_Put_def)
qed

lemma pools_inv_step:
  assumes "rest_step (h, ps) x (h', ps')" "pools_inv h ps"
  shows "pools_inv h' ps'"
  using assms(1)
proof cases
  case (add k r)
  have "o_pool (h_rests h ! r') \<noteq> length (h_pools h)" if "h_ctx h c = Some r'" for c r'
    using pools_invD(6) [OF assms(2) that] pools_invD(4) [OF assms(2), of r'] by auto
  then show ?thesis using add pools_invD [OF assms(2)]
    by (auto simp: addREST_def restFactory_def pools_inv_def Let_def nth_append less_Suc_eq split: if_splits)
next
  case (request p choice c r)
  show ?thesis
  proof (cases "h_ctx h c")
    case None
    then show ?thesis using GetREST_new(3) [OF assms(2) request(3), of c choice] request by simp
  next
    case (Some r)
    then show ?thesis using request assms(2) by (auto simp: GetREST_def)
  qed
next
  case (finish c r)
  then show ?thesis using pools_inv_release [OF assms(2)] by simp
next
  case (make_new r choice r')
  obtain r1 h1 where g: "Pool_Get choice (o_pool (h_rests h ! r)) h = (r1, h1)" by (cases "Pool_Get choice (o_pool (h_rests h ! r)) h")
  have "pools_inv h1 ps" by (rule pools_inv_get(1) [OF assms(2) pools_invD(4) [OF assms(2) make_new(3)] g])
  then show ?thesis using make_new g by (auto simp: newREST_def pools_inv_simple split: option.splits)
next
  case (make_model r k choice r')
  then obtain r1 h1 where g: "getREST choice (k_name k) h = (Some r1, h1)"
    by (cases "getREST choice (k_name k) h") (auto simp: getREST_def split: prod.splits)
  have "pools_inv h1 ps" by (rule pools_inv_getREST [OF assms(2) g])
  then show ?thesis using make_model g
    by (auto simp: REST_NewModel_def NewModel_def pools_inv_simple split: option.splits)
next
  case (make_guest r choice name v z r')
  obtain r1 h1 where g: "getREST choice name h = (r1, h1)" by (cases "getREST choice name h")
  have i: "pools_inv h1 ps" by (rule pools_inv_getREST [OF assms(2) g])
  have "h1 = h" if "r1 = None" using g that by (auto simp: getREST_def split: option.splits prod.splits)
  then show ?thesis using make_guest g i
    by (auto simp: Modelize_def SetModel_def Let_def pools_inv_simple split: option.splits)
qed

lemma pools_inv_reachable: "pool_reachable s \<Longrightarrow> pools_inv (fst s) (snd s)"
proof (induction rule: pool_reachable.induct)
  case start
  show ?case by (simp add: pools_inv_def)
next
  case (step s x s')
  then show ?case using pools_inv_step [of "fst s" "snd s" x "fst s'" "snd s'"] by simp
qed

section \<open>Properties\<close>

text \<open>C23: No request sees what another one left. Whatever the pools hand out, in every run of registrations, requests,
  ends of requests and models made meanwhile, a request of a route whose context has no \<open>*REST\<close> yet gets one that did not exist
  before, with no conditions, no page, no result, an empty model and its own context.\<close>

theorem requests_start_fresh:
  assumes "pool_reachable (h, ps)" "p \<in> ps" "h_ctx h c = None"
  shows "\<exists>h'. GetREST choice c (Some p) h = (Some (length (h_rests h)), h')
    \<and> h_rests h' ! length (h_rests h)
      = \<lparr>o_kind = pl_kind (h_pools h ! p), o_pool = length (h_pools h), o_ctx = Some c,
         o_inst = new_inst (k_mg (pl_kind (h_pools h ! p))), o_result = None\<rparr>"
  using GetREST_new(1,2) [of h ps p c choice] pools_inv_reachable [OF assms(1)] assms(2,3)
  by (cases "GetREST choice c (Some p) h") simp

text \<open>The pools are of no use: a value goes back to its own pool, which no request is served from. \<open>release\<close> clears
  the context first, so the context keeps pointing to the released value.\<close>

lemma release_keeps_context: "r < length (h_rests h) \<Longrightarrow> h_ctx (release r h) = h_ctx h"
  by (simp add: release_def reset_def on_rest_obj_def Pool_Put_def)

lemma release_keeps_leftovers:
  assumes "r < length (h_rests h)"
  shows "o_result (h_rests (release r h) ! r) = o_result (h_rests h ! r)"
    and "r_pagination (rst (o_inst (h_rests (release r h) ! r))) = r_pagination (rst (o_inst (h_rests h ! r)))"
  using assms by (simp_all add: release_def reset_def on_rest_obj_def Pool_Put_def reset_inst_def)

lemma finished_context_reuses: "h_ctx h c = Some r \<Longrightarrow> r < length (h_rests h) \<Longrightarrow> GetREST choice c route (release r h) = (Some r, release r h)"
  by (simp add: GetREST_def release_keeps_context)

section \<open>Examples\<close>

definition user_kind :: Kind where
  "user_kind = \<lparr>k_name = ''m.user'', k_endpoint = ''users'', k_flag = 127, k_mg = []\<rparr>"

theorem requests_start_fresh_witness:
  "\<exists>h h' r. pool_reachable (h, {0}) \<and> h_ctx h 1 = Some r \<and> h_rests h ! 1 \<noteq> h_rests h ! 0
    \<and> GetREST (Some 0) 2 (Some 0) h = (Some 2, h') \<and> o_ctx (h_rests h' ! 2) = Some 2"
proof -
  let ?h0 = "\<lparr>h_rests = [], h_pools = [], h_registry = (\<lambda>n. None), h_ctx = (\<lambda>c. None)\<rparr> :: Heap"
  let ?h1 = "snd (addREST user_kind ?h0)"
  let ?h2 = "snd (GetREST None 1 (Some 0) ?h1)"
  let ?h3 = "release 1 ?h2"
  have "pool_reachable (?h0, {})" by (rule pool_reachable.start)
  moreover have "rest_step (?h0, {}) (Add user_kind) (?h1, {0})"
    using rest_step.add [of user_kind ?h0 0 ?h1 "{}"] by (simp add: addREST_def restFactory_def)
  ultimately have r1: "pool_reachable (?h1, {0})" by (rule pool_reachable.step)
  have "rest_step (?h1, {0}) (Request None 1 0) (?h2, {0})"
    by (rule rest_step.request [of _ _ _ _ _ "fst (GetREST None 1 (Some 0) ?h1)"]) simp_all
  with r1 have r2: "pool_reachable (?h2, {0})" by (rule pool_reachable.step)
  have c2: "h_ctx ?h2 1 = Some 1" "h_ctx ?h2 2 = None" "length (h_rests ?h2) = 2"
    by (simp_all add: addREST_def restFactory_def GetREST_def Pool_Get_def Let_def setContext_def on_rest_obj_def)
  have "rest_step (?h2, {0}) (Finish 1) (?h3, {0})" by (rule rest_step.finish [OF c2(1)])
  with r2 have r3: "pool_reachable (?h3, {0})" by (rule pool_reachable.step)
  have c3: "h_ctx ?h3 2 = None" "h_ctx ?h3 1 = Some 1" "length (h_rests ?h3) = 2"
    using c2 by (simp_all add: release_keeps_context) (simp add: release_def reset_def on_rest_obj_def Pool_Put_def split: option.split)
  have d: "h_rests ?h3 ! 1 \<noteq> h_rests ?h3 ! 0"
    by (simp add: addREST_def restFactory_def GetREST_def Pool_Get_def Let_def setContext_def on_rest_obj_def release_def reset_def Pool_Put_def)
  from requests_start_fresh [OF r3 _ c3(1), of 0 "Some 0"] c3(3) obtain h' where
    "GetREST (Some 0) 2 (Some 0) ?h3 = (Some 2, h')" "o_ctx (h_rests h' ! 2) = Some 2"
    by auto
  with r3 c3(2) d show ?thesis by blast
qed

end
