(* ===== verification/RestDb.thy ===== *)
theory RestDb
  imports GorpExec "HOL-Library.Sublist"
begin

text \<open>
  Transactions of \<open>rest/db.go\<close> and \<open>REST.Transaction\<close> of \<open>rest/model.go\<close>, over the transactions of gorp (\<open>GorpExec\<close>).

  The connection to the server is a \<open>driver\<close>: functions on the state of the connection that answer an error or none. What an SQL server
  does with savepoints is the hypothesis \<open>keeps_savepoints\<close>; it is stated over the content of the database as the transaction sees it and
  the savepoints the server holds, the last one set first.
\<close>

section \<open>The model\<close>

record 'd driver =
  dr_Begin :: "'d \<Rightarrow> 'd \<times> string option"
  dr_Exec :: "string \<Rightarrow> 'd \<Rightarrow> 'd \<times> string option"
  dr_Commit :: "'d \<Rightarrow> 'd \<times> string option"
  dr_Rollback :: "'d \<Rightarrow> 'd \<times> string option"

text \<open>\<open>rest.Transaction\<close>: the savepoints, in the order in which they were set, whether it is over, and the transaction of gorp.\<close>

record RestTransaction =
  t_savepoints :: "string list"
  t_committed :: bool
  t_gorp :: Transaction

definition tx_Commit :: "'d driver \<Rightarrow> Transaction \<Rightarrow> 'd \<Rightarrow> Transaction \<times> 'd \<times> string option" where
  "tx_Commit drv t d =
     (case Commit t of
        (t', Some _) \<Rightarrow> (t', dr_Commit drv d)
      | (t', None) \<Rightarrow> (t', d, Some ''sql: transaction has already been committed or rolled back''))"

definition tx_Rollback :: "'d driver \<Rightarrow> Transaction \<Rightarrow> 'd \<Rightarrow> Transaction \<times> 'd \<times> string option" where
  "tx_Rollback drv t d =
     (case Rollback t of
        (t', Some _) \<Rightarrow> (t', dr_Rollback drv d)
      | (t', None) \<Rightarrow> (t', d, Some ''sql: transaction has already been committed or rolled back''))"

definition CommitAll :: "'d driver \<Rightarrow> RestTransaction \<Rightarrow> 'd \<Rightarrow> RestTransaction \<times> 'd \<times> string option" where
  "CommitAll drv t d =
     (case tx_Commit drv (t_gorp t) d of (g, d', e) \<Rightarrow> (t\<lparr>t_committed := True, t_gorp := g\<rparr>, d', e))"

definition RollbackAll :: "'d driver \<Rightarrow> RestTransaction \<Rightarrow> 'd \<Rightarrow> RestTransaction \<times> 'd \<times> string option" where
  "RollbackAll drv t d =
     (case tx_Rollback drv (t_gorp t) d of (g, d', e) \<Rightarrow> (t\<lparr>t_committed := True, t_gorp := g\<rparr>, d', e))"

definition Savepoint :: "'d driver \<Rightarrow> Dialect \<Rightarrow> string \<Rightarrow> RestTransaction \<Rightarrow> 'd \<Rightarrow> RestTransaction \<times> 'd \<times> string option" where
  "Savepoint drv dia name t d =
     (t\<lparr>t_savepoints := t_savepoints t @ [name]\<rparr>, dr_Exec drv (Savepoint_sql dia name) d)"

definition ReleaseSavepoint :: "'d driver \<Rightarrow> Dialect \<Rightarrow> RestTransaction \<Rightarrow> 'd \<Rightarrow> RestTransaction \<times> 'd \<times> string option" where
  "ReleaseSavepoint drv dia t d =
     (if 0 < length (t_savepoints t)
      then (t\<lparr>t_savepoints := butlast (t_savepoints t)\<rparr>, dr_Exec drv (ReleaseSavepoint_sql dia (last (t_savepoints t))) d)
      else (t, d, Some ''not found savepoint''))"

definition rest_Commit :: "'d driver \<Rightarrow> Dialect \<Rightarrow> RestTransaction \<Rightarrow> 'd \<Rightarrow> RestTransaction \<times> 'd \<times> string option" where
  "rest_Commit drv dia t d = (if 0 < length (t_savepoints t) then ReleaseSavepoint drv dia t d else CommitAll drv t d)"

definition rest_Rollback :: "'d driver \<Rightarrow> Dialect \<Rightarrow> RestTransaction \<Rightarrow> 'd \<Rightarrow> RestTransaction \<times> 'd \<times> string option" where
  "rest_Rollback drv dia t d =
     (if 0 < length (t_savepoints t)
      then (t\<lparr>t_savepoints := butlast (t_savepoints t)\<rparr>, dr_Exec drv (RollbackToSavepoint_sql dia (last (t_savepoints t))) d)
      else RollbackAll drv t d)"

text \<open>\<open>REST.Transaction\<close>: the transaction of the \<open>*REST\<close>, the one passed as a parameter, and the name of a new savepoint.
  An error of the new savepoint is dropped.\<close>

definition live_tx :: "RestTransaction option \<Rightarrow> RestTransaction option" where
  "live_tx t = (case t of Some x \<Rightarrow> if \<not> t_committed x then Some x else None | None \<Rightarrow> None)"

definition REST_Transaction :: "'d driver \<Rightarrow> Dialect \<Rightarrow> string \<Rightarrow> RestTransaction option \<Rightarrow> RestTransaction option \<Rightarrow> 'd
    \<Rightarrow> (string + RestTransaction) \<times> 'd" where
  "REST_Transaction drv dia sp own passed d =
     (case live_tx own of
        Some t \<Rightarrow> (case Savepoint drv dia sp t d of (t', d', e) \<Rightarrow> (Inr t', d'))
      | None \<Rightarrow>
          (case live_tx passed of
             Some t \<Rightarrow> (case Savepoint drv dia sp t d of (t', d', e) \<Rightarrow> (Inr t', d'))
           | None \<Rightarrow>
               (case dr_Begin drv d of
                  (d', Some e) \<Rightarrow> (Inl e, d')
                | (d', None) \<Rightarrow> (Inr \<lparr>t_savepoints = [], t_committed = False, t_gorp = \<lparr>tx_closed = False\<rparr>\<rparr>, d'))))"

section \<open>Servers with savepoints\<close>

text \<open>What is known of a connection: the content the transaction sees, the savepoints with the content each one keeps, the content outside
  the transaction, and whether a transaction is open.\<close>

record 'c view =
  v_content :: 'c
  v_marks :: "(string \<times> 'c) list"
  v_base :: 'c
  v_open :: bool

definition keeps_savepoints :: "'d driver \<Rightarrow> Dialect \<Rightarrow> ('d \<Rightarrow> 'c view) \<Rightarrow> bool" where
  "keeps_savepoints drv dia view \<longleftrightarrow>
     (\<forall>d. \<not> v_open (view d) \<longrightarrow> snd (dr_Begin drv d) = None \<longrightarrow>
        view (fst (dr_Begin drv d)) = \<lparr>v_content = v_base (view d), v_marks = [], v_base = v_base (view d), v_open = True\<rparr>) \<and>
     (\<forall>d n. v_open (view d) \<longrightarrow> snd (dr_Exec drv (Savepoint_sql dia n) d) = None \<and>
        view (fst (dr_Exec drv (Savepoint_sql dia n) d))
          = (view d)\<lparr>v_marks := (n, v_content (view d)) # filter (\<lambda>m. fst m \<noteq> n) (v_marks (view d))\<rparr>) \<and>
     (\<forall>d n c. v_open (view d) \<longrightarrow> map_of (v_marks (view d)) n = Some c \<longrightarrow>
        snd (dr_Exec drv (RollbackToSavepoint_sql dia n) d) = None \<and>
        view (fst (dr_Exec drv (RollbackToSavepoint_sql dia n) d))
          = (view d)\<lparr>v_content := c, v_marks := dropWhile (\<lambda>m. fst m \<noteq> n) (v_marks (view d))\<rparr>) \<and>
     (\<forall>d n c. v_open (view d) \<longrightarrow> map_of (v_marks (view d)) n = Some c \<longrightarrow>
        snd (dr_Exec drv (ReleaseSavepoint_sql dia n) d) = None \<and>
        (\<exists>kept. subseq kept (takeWhile (\<lambda>m. fst m \<noteq> n) (v_marks (view d))) \<and>
          view (fst (dr_Exec drv (ReleaseSavepoint_sql dia n) d))
            = (view d)\<lparr>v_marks := kept @ tl (dropWhile (\<lambda>m. fst m \<noteq> n) (v_marks (view d)))\<rparr>)) \<and>
     (\<forall>d. v_open (view d) \<longrightarrow> snd (dr_Commit drv d) = None \<and>
        view (fst (dr_Commit drv d)) = \<lparr>v_content = v_content (view d), v_marks = [], v_base = v_content (view d), v_open = False\<rparr>) \<and>
     (\<forall>d. v_open (view d) \<longrightarrow> snd (dr_Rollback drv d) = None \<and>
        view (fst (dr_Rollback drv d)) = \<lparr>v_content = v_base (view d), v_marks = [], v_base = v_base (view d), v_open = False\<rparr>)"

section \<open>Nested transactions\<close>

datatype 'c tx_event = Nest string | Work 'c | Finish | Undo

text \<open>The specification: every level keeps the content at its start; finishing drops it, undoing goes back to it.\<close>

record 'c levels =
  l_saved :: "'c list"
  l_now :: 'c

fun spec_event :: "'c levels \<Rightarrow> 'c tx_event \<Rightarrow> 'c levels" where
  "spec_event l (Nest sp) = l\<lparr>l_saved := l_now l # l_saved l\<rparr>"
| "spec_event l (Work c) = l\<lparr>l_now := c\<rparr>"
| "spec_event l Finish = l\<lparr>l_saved := tl (l_saved l)\<rparr>"
| "spec_event l Undo = l\<lparr>l_saved := tl (l_saved l), l_now := hd (l_saved l)\<rparr>"

definition spec_run :: "'c \<Rightarrow> 'c tx_event list \<Rightarrow> 'c levels" where
  "spec_run c evs = foldl spec_event \<lparr>l_saved = [c], l_now = c\<rparr> evs"

text \<open>The runs of one transaction that its users share. A new savepoint has a new name (a UUID); statements change the content only.\<close>

inductive tx_run :: "'d driver \<Rightarrow> Dialect \<Rightarrow> ('d \<Rightarrow> 'c view) \<Rightarrow> RestTransaction \<times> 'd \<Rightarrow> 'c tx_event list \<Rightarrow> RestTransaction \<times> 'd \<Rightarrow> bool"
  for drv :: "'d driver" and dia :: Dialect and view :: "'d \<Rightarrow> 'c view" and s :: "RestTransaction \<times> 'd" where
  start: "tx_run drv dia view s [] s"
| nest: "tx_run drv dia view s evs (t, d) \<Longrightarrow> \<not> t_committed t \<Longrightarrow> sp \<notin> fst ` set (v_marks (view d))
    \<Longrightarrow> REST_Transaction drv dia sp (Some t) passed d = (Inr t', d') \<Longrightarrow> tx_run drv dia view s (evs @ [Nest sp]) (t', d')"
| work: "tx_run drv dia view s evs (t, d) \<Longrightarrow> \<not> t_committed t \<Longrightarrow> view d' = (view d)\<lparr>v_content := c\<rparr>
    \<Longrightarrow> tx_run drv dia view s (evs @ [Work c]) (t, d')"
| finish: "tx_run drv dia view s evs (t, d) \<Longrightarrow> \<not> t_committed t \<Longrightarrow> rest_Commit drv dia t d = (t', d', e)
    \<Longrightarrow> tx_run drv dia view s (evs @ [Finish]) (t', d')"
| undo: "tx_run drv dia view s evs (t, d) \<Longrightarrow> \<not> t_committed t \<Longrightarrow> rest_Rollback drv dia t d = (t', d', e)
    \<Longrightarrow> tx_run drv dia view s (evs @ [Undo]) (t', d')"

text \<open>How a transaction and its connection represent the levels.\<close>

definition tx_abs :: "RestTransaction \<Rightarrow> 'c view \<Rightarrow> 'c levels \<Rightarrow> bool" where
  "tx_abs t v l \<longleftrightarrow> v_content v = l_now l \<and>
     (if t_committed t then l_saved l = [] \<and> v_base v = l_now l \<and> \<not> v_open v
      else \<not> tx_closed (t_gorp t) \<and> v_open v \<and> distinct (map fst (v_marks v)) \<and>
        (\<exists>olds. l_saved l = olds @ [v_base v] \<and> length olds = length (t_savepoints t) \<and>
          subseq (zip (rev (t_savepoints t)) olds) (v_marks v)))"

lemma subseq_distinct: "subseq xs ys \<Longrightarrow> distinct ys \<Longrightarrow> distinct xs"
proof (induction rule: list_emb.induct)
  case (list_emb_Cons2 x y xs ys)
  then have "set xs \<subseteq> set ys" by (auto dest: list_emb_set)
  with list_emb_Cons2 show ?case by auto
qed simp_all

lemma subseq_dropWhile_key:
  assumes "subseq ((n, c) # own) ms" "distinct (map fst ms)"
  shows "map_of ms n = Some c" "\<exists>rest. dropWhile (\<lambda>m. fst m \<noteq> n) ms = (n, c) # rest \<and> subseq own rest"
proof -
  obtain a b where ms: "ms = a @ (n, c) # b" "subseq own b"
    using list_emb_ConsD [OF assms(1)] that by auto
  have "n \<notin> fst ` set a" using assms(2) by (auto simp: ms)
  then have "dropWhile (\<lambda>m. fst m \<noteq> n) ms = (n, c) # b" unfolding ms
    by (subst dropWhile_append2) force+
  with ms(2) show "\<exists>rest. dropWhile (\<lambda>m. fst m \<noteq> n) ms = (n, c) # rest \<and> subseq own rest" by blast
  show "map_of ms n = Some c" by (rule map_of_is_SomeI [OF assms(2)]) (simp add: ms(1))
qed

text \<open>What the laws give for each command of a transaction.\<close>

lemma keeps_savepointsD:
  assumes "keeps_savepoints drv dia view"
  shows "\<not> v_open (view d) \<Longrightarrow> dr_Begin drv d = (d', None)
      \<Longrightarrow> view d' = \<lparr>v_content = v_base (view d), v_marks = [], v_base = v_base (view d), v_open = True\<rparr>"
    and "v_open (view d) \<Longrightarrow> dr_Exec drv (Savepoint_sql dia n) d = (d', e) \<Longrightarrow> n \<notin> fst ` set (v_marks (view d))
      \<Longrightarrow> view d' = (view d)\<lparr>v_marks := (n, v_content (view d)) # v_marks (view d)\<rparr>"
    and "v_open (view d) \<Longrightarrow> dr_Exec drv (RollbackToSavepoint_sql dia n) d = (d', e) \<Longrightarrow> map_of (v_marks (view d)) n = Some c
      \<Longrightarrow> view d' = (view d)\<lparr>v_content := c, v_marks := dropWhile (\<lambda>m. fst m \<noteq> n) (v_marks (view d))\<rparr>"
    and "v_open (view d) \<Longrightarrow> dr_Exec drv (ReleaseSavepoint_sql dia n) d = (d', e) \<Longrightarrow> map_of (v_marks (view d)) n = Some c
      \<Longrightarrow> \<exists>kept. subseq kept (takeWhile (\<lambda>m. fst m \<noteq> n) (v_marks (view d))) \<and>
        view d' = (view d)\<lparr>v_marks := kept @ tl (dropWhile (\<lambda>m. fst m \<noteq> n) (v_marks (view d)))\<rparr>"
    and "v_open (view d) \<Longrightarrow> dr_Commit drv d = (d', e)
      \<Longrightarrow> view d' = \<lparr>v_content = v_content (view d), v_marks = [], v_base = v_content (view d), v_open = False\<rparr>"
    and "v_open (view d) \<Longrightarrow> dr_Rollback drv d = (d', e)
      \<Longrightarrow> view d' = \<lparr>v_content = v_base (view d), v_marks = [], v_base = v_base (view d), v_open = False\<rparr>"
proof -
  note k = assms [unfolded keeps_savepoints_def]
  show "\<not> v_open (view d) \<Longrightarrow> dr_Begin drv d = (d', None)
      \<Longrightarrow> view d' = \<lparr>v_content = v_base (view d), v_marks = [], v_base = v_base (view d), v_open = True\<rparr>"
    using k [THEN conjunct1, rule_format, of d] by simp
  show "v_open (view d) \<Longrightarrow> dr_Exec drv (Savepoint_sql dia n) d = (d', e) \<Longrightarrow> n \<notin> fst ` set (v_marks (view d))
      \<Longrightarrow> view d' = (view d)\<lparr>v_marks := (n, v_content (view d)) # v_marks (view d)\<rparr>"
  proof -
    assume "v_open (view d)" "dr_Exec drv (Savepoint_sql dia n) d = (d', e)" "n \<notin> fst ` set (v_marks (view d))"
    moreover from this(3) have "filter (\<lambda>m. fst m \<noteq> n) (v_marks (view d)) = v_marks (view d)" by (auto intro: filter_True)
    ultimately show ?thesis using k [THEN conjunct2, THEN conjunct1, rule_format, of d n] by simp
  qed
  show "v_open (view d) \<Longrightarrow> dr_Exec drv (RollbackToSavepoint_sql dia n) d = (d', e) \<Longrightarrow> map_of (v_marks (view d)) n = Some c
      \<Longrightarrow> view d' = (view d)\<lparr>v_content := c, v_marks := dropWhile (\<lambda>m. fst m \<noteq> n) (v_marks (view d))\<rparr>"
    using k [THEN conjunct2, THEN conjunct2, THEN conjunct1, rule_format, of d n c] by simp
  show "v_open (view d) \<Longrightarrow> dr_Exec drv (ReleaseSavepoint_sql dia n) d = (d', e) \<Longrightarrow> map_of (v_marks (view d)) n = Some c
      \<Longrightarrow> \<exists>kept. subseq kept (takeWhile (\<lambda>m. fst m \<noteq> n) (v_marks (view d))) \<and>
        view d' = (view d)\<lparr>v_marks := kept @ tl (dropWhile (\<lambda>m. fst m \<noteq> n) (v_marks (view d)))\<rparr>"
    using k [THEN conjunct2, THEN conjunct2, THEN conjunct2, THEN conjunct1, rule_format, of d n c] by simp
  show "v_open (view d) \<Longrightarrow> dr_Commit drv d = (d', e)
      \<Longrightarrow> view d' = \<lparr>v_content = v_content (view d), v_marks = [], v_base = v_content (view d), v_open = False\<rparr>"
    using k [THEN conjunct2, THEN conjunct2, THEN conjunct2, THEN conjunct2, THEN conjunct1, rule_format, of d] by simp
  show "v_open (view d) \<Longrightarrow> dr_Rollback drv d = (d', e)
      \<Longrightarrow> view d' = \<lparr>v_content = v_base (view d), v_marks = [], v_base = v_base (view d), v_open = False\<rparr>"
    using k [THEN conjunct2, THEN conjunct2, THEN conjunct2, THEN conjunct2, THEN conjunct2, rule_format, of d] by simp
qed

lemma tx_absD:
  assumes "tx_abs t v l" "\<not> t_committed t"
  obtains olds where "v_content v = l_now l" "\<not> tx_closed (t_gorp t)" "v_open v" "distinct (map fst (v_marks v))"
    "l_saved l = olds @ [v_base v]" "length olds = length (t_savepoints t)" "subseq (zip (rev (t_savepoints t)) olds) (v_marks v)"
  using assms by (auto simp: tx_abs_def)

text \<open>The parts of the list that a savepoint leaves.\<close>

lemma tx_abs_top:
  assumes "l_saved l = olds @ [b]" "length olds = length sps" "subseq (zip (rev sps) olds) ms" "distinct (map fst ms)" "sps \<noteq> []"
  obtains c olds' rest where "olds = c # olds'" "map_of ms (last sps) = Some c" "length olds' = length (butlast sps)"
    "dropWhile (\<lambda>m. fst m \<noteq> last sps) ms = (last sps, c) # rest" "subseq (zip (rev (butlast sps)) olds') rest"
proof -
  have r: "rev sps = last sps # rev (butlast sps)" using assms(5) by (cases sps rule: rev_cases) simp_all
  obtain c olds' where o: "olds = c # olds'" using assms(2,5) by (cases olds) auto
  have "subseq ((last sps, c) # zip (rev (butlast sps)) olds') ms" using assms(3) by (simp add: r o)
  from subseq_dropWhile_key [OF this assms(4)] show thesis using that [OF o] assms(2) o by auto
qed

section \<open>Every step is one of the specification\<close>

lemma tx_nest_step:
  assumes "keeps_savepoints drv dia view" "tx_abs t (view d) l" "\<not> t_committed t" "sp \<notin> fst ` set (v_marks (view d))"
    and "REST_Transaction drv dia sp (Some t) passed d = (Inr t', d')"
  shows "tx_abs t' (view d') (spec_event l (Nest sp))"
proof -
  from assms(2,3) obtain olds where a: "v_content (view d) = l_now l" "\<not> tx_closed (t_gorp t)" "v_open (view d)"
    "distinct (map fst (v_marks (view d)))" "l_saved l = olds @ [v_base (view d)]" "length olds = length (t_savepoints t)"
    "subseq (zip (rev (t_savepoints t)) olds) (v_marks (view d))" by (rule tx_absD)
  obtain e where x: "dr_Exec drv (Savepoint_sql dia sp) d = (d', e)" and t': "t' = t\<lparr>t_savepoints := t_savepoints t @ [sp]\<rparr>"
    using assms(3,5) by (auto simp: REST_Transaction_def live_tx_def Savepoint_def split: prod.splits)
  have "view d' = (view d)\<lparr>v_marks := (sp, v_content (view d)) # v_marks (view d)\<rparr>"
    by (rule keeps_savepointsD(2) [OF assms(1) a(3) x assms(4)])
  then show ?thesis using a assms(3,4) by (auto simp: tx_abs_def t' intro!: exI [of _ "l_now l # olds"])
qed

lemma tx_work_step:
  "tx_abs t (view d) l \<Longrightarrow> \<not> t_committed t \<Longrightarrow> view d' = (view d)\<lparr>v_content := c\<rparr> \<Longrightarrow> tx_abs t (view d') (spec_event l (Work c))"
  by (simp add: tx_abs_def)

text \<open>\<open>Finish\<close> and \<open>Undo\<close>, with a savepoint and without.\<close>

lemma tx_finish_step:
  assumes "keeps_savepoints drv dia view" "tx_abs t (view d) l" "\<not> t_committed t" "rest_Commit drv dia t d = (t', d', e)"
  shows "tx_abs t' (view d') (spec_event l Finish)"
proof -
  from assms(2,3) obtain olds where a: "v_content (view d) = l_now l" "\<not> tx_closed (t_gorp t)" "v_open (view d)"
    "distinct (map fst (v_marks (view d)))" "l_saved l = olds @ [v_base (view d)]" "length olds = length (t_savepoints t)"
    "subseq (zip (rev (t_savepoints t)) olds) (v_marks (view d))" by (rule tx_absD)
  show ?thesis
  proof (cases "t_savepoints t = []")
    case True
    then obtain e' where "dr_Commit drv d = (d', e')" and t': "t_committed t'"
      using assms(4) a(2) by (auto simp: rest_Commit_def CommitAll_def tx_Commit_def Commit_def split: prod.splits)
    then have "view d' = \<lparr>v_content = v_content (view d), v_marks = [], v_base = v_content (view d), v_open = False\<rparr>"
      by (intro keeps_savepointsD(5) [OF assms(1) a(3)])
    then show ?thesis using a True t' by (simp add: tx_abs_def)
  next
    case False
    from tx_abs_top [OF a(5,6,7,4) False] obtain c olds' rest where p: "olds = c # olds'"
      "map_of (v_marks (view d)) (last (t_savepoints t)) = Some c" "length olds' = length (butlast (t_savepoints t))"
      "dropWhile (\<lambda>m. fst m \<noteq> last (t_savepoints t)) (v_marks (view d)) = (last (t_savepoints t), c) # rest"
      "subseq (zip (rev (butlast (t_savepoints t))) olds') rest" by blast
    have x: "dr_Exec drv (ReleaseSavepoint_sql dia (last (t_savepoints t))) d = (d', e)"
      and t': "t' = t\<lparr>t_savepoints := butlast (t_savepoints t)\<rparr>"
      using assms(4) False by (simp_all add: rest_Commit_def ReleaseSavepoint_def)
    obtain kept where k: "subseq kept (takeWhile (\<lambda>m. fst m \<noteq> last (t_savepoints t)) (v_marks (view d)))"
      "view d' = (view d)\<lparr>v_marks := kept @ rest\<rparr>" using keeps_savepointsD(4) [OF assms(1) a(3) x p(2)] unfolding p(4) by auto
    have "subseq (kept @ rest) (takeWhile (\<lambda>m. fst m \<noteq> last (t_savepoints t)) (v_marks (view d))
        @ dropWhile (\<lambda>m. fst m \<noteq> last (t_savepoints t)) (v_marks (view d)))"
      unfolding p(4) by (intro list_emb_append_mono k(1)) auto
    then have "subseq (kept @ rest) (v_marks (view d))" by simp
    then have "subseq (map fst (kept @ rest)) (map fst (v_marks (view d)))" by (rule subseq_map)
    then have "distinct (map fst (kept @ rest))" using a(4) by (rule subseq_distinct)
    moreover have "subseq (zip (rev (butlast (t_savepoints t))) olds') (kept @ rest)" using p(5) by (simp add: list_emb_append2)
    ultimately show ?thesis using a p(1,3) assms(3) k(2) by (auto simp: tx_abs_def t')
  qed
qed

lemma tx_undo_step:
  assumes "keeps_savepoints drv dia view" "tx_abs t (view d) l" "\<not> t_committed t" "rest_Rollback drv dia t d = (t', d', e)"
  shows "tx_abs t' (view d') (spec_event l Undo)"
proof -
  from assms(2,3) obtain olds where a: "v_content (view d) = l_now l" "\<not> tx_closed (t_gorp t)" "v_open (view d)"
    "distinct (map fst (v_marks (view d)))" "l_saved l = olds @ [v_base (view d)]" "length olds = length (t_savepoints t)"
    "subseq (zip (rev (t_savepoints t)) olds) (v_marks (view d))" by (rule tx_absD)
  show ?thesis
  proof (cases "t_savepoints t = []")
    case True
    then obtain e' where "dr_Rollback drv d = (d', e')" and t': "t_committed t'"
      using assms(4) a(2) by (auto simp: rest_Rollback_def RollbackAll_def tx_Rollback_def Rollback_def split: prod.splits)
    then have "view d' = \<lparr>v_content = v_base (view d), v_marks = [], v_base = v_base (view d), v_open = False\<rparr>"
      by (intro keeps_savepointsD(6) [OF assms(1) a(3)])
    then show ?thesis using a True t' by (simp add: tx_abs_def)
  next
    case False
    from tx_abs_top [OF a(5,6,7,4) False] obtain c olds' rest where p: "olds = c # olds'"
      "map_of (v_marks (view d)) (last (t_savepoints t)) = Some c" "length olds' = length (butlast (t_savepoints t))"
      "dropWhile (\<lambda>m. fst m \<noteq> last (t_savepoints t)) (v_marks (view d)) = (last (t_savepoints t), c) # rest"
      "subseq (zip (rev (butlast (t_savepoints t))) olds') rest" by blast
    have x: "dr_Exec drv (RollbackToSavepoint_sql dia (last (t_savepoints t))) d = (d', e)"
      and t': "t' = t\<lparr>t_savepoints := butlast (t_savepoints t)\<rparr>"
      using assms(4) False by (simp_all add: rest_Rollback_def)
    have v: "view d' = (view d)\<lparr>v_content := c, v_marks := (last (t_savepoints t), c) # rest\<rparr>"
      using keeps_savepointsD(3) [OF assms(1) a(3) x p(2)] unfolding p(4) .
    have "subseq ((last (t_savepoints t), c) # rest) (v_marks (view d))"
      using suffix_imp_subseq [OF suffix_dropWhile [of "\<lambda>m. fst m \<noteq> last (t_savepoints t)" "v_marks (view d)"]] unfolding p(4) .
    then have "distinct (map fst ((last (t_savepoints t), c) # rest))" using a(4) by (blast intro: subseq_distinct subseq_map)
    moreover have "subseq (zip (rev (butlast (t_savepoints t))) olds') ((last (t_savepoints t), c) # rest)" using p(5) by auto
    ultimately show ?thesis using a p(1,3) assms(3) v by (auto simp: tx_abs_def t')
  qed
qed

lemma tx_run_abs:
  assumes "tx_run drv dia view s evs s'" "keeps_savepoints drv dia view" "tx_abs (fst s) (view (snd s)) l"
  shows "tx_abs (fst s') (view (snd s')) (foldl spec_event l evs)"
  using assms(1)
proof (induction rule: tx_run.induct)
  case start
  show ?case using assms(3) by simp
next
  case (nest evs t d sp passed t' d')
  then show ?case using tx_nest_step [OF assms(2), of t d "foldl spec_event l evs" sp passed t' d'] by simp
next
  case (work evs t d d' c)
  then show ?case using tx_work_step [of t view d "foldl spec_event l evs" d' c] by simp
next
  case (finish evs t d t' d' e)
  then show ?case using tx_finish_step [OF assms(2), of t d "foldl spec_event l evs" t' d' e] by simp
next
  case (undo evs t d t' d' e)
  then show ?case using tx_undo_step [OF assms(2), of t d "foldl spec_event l evs" t' d' e] by simp
qed

lemma tx_abs_saved: "tx_abs t v l \<Longrightarrow> \<not> t_committed t \<Longrightarrow> l_saved l \<noteq> [] \<and> v_base v = last (l_saved l)"
  by (auto simp: tx_abs_def)

lemma spec_event_last:
  "l_saved l \<noteq> [] \<Longrightarrow> l_saved (spec_event l ev) \<noteq> [] \<Longrightarrow> last (l_saved (spec_event l ev)) = last (l_saved l)"
  by (cases ev; cases "l_saved l") auto

lemma tx_run_open: "tx_run drv dia view s evs s' \<Longrightarrow> evs = evs' @ [ev] \<Longrightarrow>
    \<exists>t d. tx_run drv dia view s evs' (t, d) \<and> \<not> t_committed t"
  by (induction rule: tx_run.induct) auto

text \<open>Until the first level is over, the database is not touched.\<close>

lemma tx_run_base:
  assumes "keeps_savepoints drv dia view" "tx_abs (fst s) (view (snd s)) l" "l_saved l = [v_base (view (snd s))]"
    and "tx_run drv dia view s evs s'" "\<not> t_committed (fst s')"
  shows "v_base (view (snd s')) = v_base (view (snd s))"
proof -
  have "last (l_saved (foldl spec_event l evs)) = v_base (view (snd s))" if "tx_run drv dia view s evs s'" "\<not> t_committed (fst s')" for s' evs
    using that
  proof (induction evs arbitrary: s' rule: rev_induct)
    case Nil
    then show ?case using assms(3) by simp
  next
    case (snoc ev evs)
    obtain t d where r: "tx_run drv dia view s evs (t, d)" "\<not> t_committed t" using tx_run_open [OF snoc.prems(1)] by blast
    have "l_saved (foldl spec_event l evs) \<noteq> []" "l_saved (foldl spec_event l (evs @ [ev])) \<noteq> []"
      using tx_abs_saved [OF tx_run_abs [OF r(1) assms(1,2)]] tx_abs_saved [OF tx_run_abs [OF snoc.prems(1) assms(1,2)]]
        r(2) snoc.prems(2) by simp_all
    then show ?case using snoc.IH [OF r(1)] r(2) spec_event_last [of "foldl spec_event l evs" ev] by simp
  qed
  then show ?thesis using tx_abs_saved [OF tx_run_abs [OF assms(4,1,2)]] assms(4,5) by simp
qed

section \<open>Properties\<close>

text \<open>C9: Nested transactions. On every server that keeps savepoints, the shared transaction of a \<open>*REST\<close> is a stack of contents: each
  call of \<open>Transaction\<close> remembers the content, \<open>Commit\<close> forgets the last one remembered, and \<open>Rollback\<close> returns to it, whatever a
  rolled-back level leaves on the server. Until the first level is over the database is not touched; then it is what that level
  decided.\<close>

theorem nested_transactions:
  assumes "keeps_savepoints drv dia view" "\<not> v_open (view d0)"
    and "REST_Transaction drv dia sp None None d0 = (Inr t, d)" "tx_run drv dia view (t, d) evs (t', d')"
  shows "v_content (view d') = l_now (spec_run (v_base (view d0)) evs)
    \<and> (t_committed t' \<longleftrightarrow> l_saved (spec_run (v_base (view d0)) evs) = [])
    \<and> v_base (view d') = (if t_committed t' then l_now (spec_run (v_base (view d0)) evs) else v_base (view d0))"
proof -
  let ?l = "\<lparr>l_saved = [v_base (view d0)], l_now = v_base (view d0)\<rparr>"
  have b: "dr_Begin drv d0 = (d, None)" and t: "t = \<lparr>t_savepoints = [], t_committed = False, t_gorp = \<lparr>tx_closed = False\<rparr>\<rparr>"
    using assms(3) by (auto simp: REST_Transaction_def live_tx_def split: prod.splits option.splits)
  note v = keeps_savepointsD(1) [OF assms(1,2) b]
  have a: "tx_abs (fst (t, d)) (view (snd (t, d))) ?l" by (simp add: t v tx_abs_def)
  have "tx_abs t' (view d') (spec_run (v_base (view d0)) evs)"
    using tx_run_abs [OF assms(4,1) a] by (simp add: spec_run_def)
  moreover have "v_base (view d') = v_base (view d0)" if "\<not> t_committed t'"
    using tx_run_base [OF assms(1) a _ assms(4)] that by (simp add: v)
  ultimately show ?thesis by (auto simp: tx_abs_def split: if_splits)
qed

section \<open>Examples\<close>

text \<open>A server whose state is what is known of it. The names are between back quotes.\<close>

definition stack_exec :: "string \<Rightarrow> 'c view \<Rightarrow> 'c view \<times> string option" where
  "stack_exec q v =
     (let n = tl (butlast (dropWhile (\<lambda>c. c \<noteq> CHR ''`'') q))
      in if hd q = CHR ''s'' then (v\<lparr>v_marks := (n, v_content v) # filter (\<lambda>m. fst m \<noteq> n) (v_marks v)\<rparr>, None)
         else case map_of (v_marks v) n of
                None \<Rightarrow> (v, Some ''SAVEPOINT does not exist'')
              | Some c \<Rightarrow>
                  if take 2 q = ''ro'' then (v\<lparr>v_content := c, v_marks := dropWhile (\<lambda>m. fst m \<noteq> n) (v_marks v)\<rparr>, None)
                  else (v\<lparr>v_marks := tl (dropWhile (\<lambda>m. fst m \<noteq> n) (v_marks v))\<rparr>, None))"

definition stack_driver :: "'c view driver" where
  "stack_driver = \<lparr>
     dr_Begin = (\<lambda>v. (\<lparr>v_content = v_base v, v_marks = [], v_base = v_base v, v_open = True\<rparr>, None)),
     dr_Exec = stack_exec,
     dr_Commit = (\<lambda>v. (\<lparr>v_content = v_content v, v_marks = [], v_base = v_content v, v_open = False\<rparr>, None)),
     dr_Rollback = (\<lambda>v. (\<lparr>v_content = v_base v, v_marks = [], v_base = v_base v, v_open = False\<rparr>, None))\<rparr>"

lemma stack_exec_simps:
  assumes "QuoteField dia = MySQL_QuoteField"
  shows "stack_exec (Savepoint_sql dia n) v = (v\<lparr>v_marks := (n, v_content v) # filter (\<lambda>m. fst m \<noteq> n) (v_marks v)\<rparr>, None)"
    and "map_of (v_marks v) n = Some c \<Longrightarrow> stack_exec (RollbackToSavepoint_sql dia n) v
      = (v\<lparr>v_content := c, v_marks := dropWhile (\<lambda>m. fst m \<noteq> n) (v_marks v)\<rparr>, None)"
    and "map_of (v_marks v) n = Some c \<Longrightarrow> stack_exec (ReleaseSavepoint_sql dia n) v
      = (v\<lparr>v_marks := tl (dropWhile (\<lambda>m. fst m \<noteq> n) (v_marks v))\<rparr>, None)"
  by (simp_all add: stack_exec_def Savepoint_sql_def RollbackToSavepoint_sql_def ReleaseSavepoint_sql_def
      assms MySQL_QuoteField_def Let_def butlast_append)

lemma stack_driver_keeps: "QuoteField dia = MySQL_QuoteField \<Longrightarrow> keeps_savepoints stack_driver dia id"
  unfolding keeps_savepoints_def by (auto simp: stack_driver_def stack_exec_simps intro!: exI [of _ "[]"])

theorem nested_transactions_witness:
  "\<exists>t d. tx_run stack_driver (MySQLDialect ''InnoDB'' ''UTF8'') id
       (\<lparr>t_savepoints = [], t_committed = False, t_gorp = \<lparr>tx_closed = False\<rparr>\<rparr>,
        fst (dr_Begin stack_driver \<lparr>v_content = 7, v_marks = [], v_base = 7, v_open = False\<rparr>))
       [Nest ''a'', Work 2, Undo, Work (3 :: nat), Finish] (t, d) \<and> t_committed t \<and> v_base d = 3"
proof -
  let ?dia = "MySQLDialect ''InnoDB'' ''UTF8''" and ?before = "\<lparr>v_content = 7, v_marks = [], v_base = 7 :: nat, v_open = False\<rparr>"
  let ?t = "\<lparr>t_savepoints = [], t_committed = False, t_gorp = \<lparr>tx_closed = False\<rparr>\<rparr>" and ?v = "fst (dr_Begin stack_driver ?before)"
  let ?run = "tx_run stack_driver ?dia id (?t, ?v)"
  have q: "QuoteField ?dia = MySQL_QuoteField" by (simp add: MySQLDialect_def)
  have v: "?v = \<lparr>v_content = 7, v_marks = [], v_base = 7, v_open = True\<rparr>" by (simp add: stack_driver_def)
  let ?t1 = "?t\<lparr>t_savepoints := [''a'']\<rparr>" and ?v1 = "?v\<lparr>v_marks := [(''a'', 7)]\<rparr>"
  have n: "REST_Transaction stack_driver ?dia ''a'' (Some ?t) None ?v = (Inr ?t1, ?v1)"
    unfolding v by (simp add: REST_Transaction_def live_tx_def Savepoint_def stack_driver_def stack_exec_simps(1) [OF q])
  have u: "rest_Rollback stack_driver ?dia ?t1 (?v1\<lparr>v_content := 2\<rparr>) = (?t, ?v1, None)"
    unfolding v by (simp add: rest_Rollback_def stack_driver_def stack_exec_simps(2) [OF q, of _ _ 7])
  have "?run [] (?t, ?v)" by (rule tx_run.start)
  then have "?run ([] @ [Nest ''a'']) (?t1, ?v1)"
    by (rule tx_run.nest [OF _ _ _ n]) (simp_all add: v)
  then have "?run (([] @ [Nest ''a'']) @ [Work 2]) (?t1, ?v1\<lparr>v_content := 2\<rparr>)" by (rule tx_run.work) simp_all
  then have "?run ((([] @ [Nest ''a'']) @ [Work 2]) @ [Undo]) (?t, ?v1)"
    by (rule tx_run.undo [OF _ _ u]) simp
  then have "?run (((([] @ [Nest ''a'']) @ [Work 2]) @ [Undo]) @ [Work 3]) (?t, ?v1\<lparr>v_content := 3\<rparr>)"
    by (rule tx_run.work) simp_all
  moreover obtain t d e where c: "rest_Commit stack_driver ?dia ?t (?v1\<lparr>v_content := 3\<rparr>) = (t, d, e)" by (rule prod_cases3)
  ultimately have "?run ((((([] @ [Nest ''a'']) @ [Work 2]) @ [Undo]) @ [Work 3]) @ [Finish]) (t, d)"
    by (intro tx_run.finish [OF _ _ c]) simp_all
  then have r: "?run [Nest ''a'', Work 2, Undo, Work 3, Finish] (t, d)" by simp
  have "REST_Transaction stack_driver ?dia [] None None ?before = (Inr ?t, ?v)"
    by (simp add: REST_Transaction_def live_tx_def stack_driver_def)
  from nested_transactions [OF stack_driver_keeps [OF q] _ this r] have "t_committed t \<and> v_base d = 3"
    by (auto simp: spec_run_def)
  with r show ?thesis by blast
qed

end
