(* ===== verification/RestConv.thy ===== *)
theory RestConv
  imports Prelude
begin

text \<open>
  What goes into a column and comes out of it: \<open>BaseConverter\<close> of \<open>rest/db.go\<close>.

  The JSON codec and \<open>time.ParseInLocation\<close> in the zone of the environment are the parameters \<open>codec\<close>; \<open>'t\<close> is the type of times and
  \<open>'j\<close> that of the values JSON encodes. A type that converts itself gives its own result.
\<close>

section \<open>Values and columns\<close>

record ('t, 'j) codec =
  cd_marshal :: "'j \<Rightarrow> string"
  cd_unmarshal :: "string \<Rightarrow> string \<Rightarrow> 'j option"
  cd_time :: "string \<Rightarrow> string \<Rightarrow> 't option"

text \<open>The argument of \<open>ToDb\<close>: one of the slices and maps it lists, a boolean, a time, a value that converts itself, a model with the name
  and the value of its primary key, another struct, and anything else.\<close>

datatype ('t, 'j) to_arg =
    FromContainer 'j
  | FromBool bool
  | FromTime 't
  | FromSelf "string + ('t, 'j) db_value"
  | FromModel string string 'j
  | FromStruct 'j
  | FromOther 'j
and ('t, 'j) db_value = DbText string | DbInt int | DbSame "('t, 'j) to_arg"

definition ToDb :: "('t, 'j) codec \<Rightarrow> ('t, 'j) to_arg \<Rightarrow> string + ('t, 'j) db_value" where
  "ToDb cd v =
     (case v of
        FromContainer j \<Rightarrow> Inr (DbText (cd_marshal cd j))
      | FromBool b \<Rightarrow> if b then Inr (DbInt 1) else Inr (DbInt 0)
      | FromTime t \<Rightarrow> Inr (DbSame v)
      | FromSelf r \<Rightarrow> r
      | FromModel f pk j \<Rightarrow> if f \<noteq> [] \<and> pk \<noteq> [] then Inr (DbText pk) else Inr (DbSame v)
      | FromStruct j \<Rightarrow> Inr (DbText (cd_marshal cd j))
      | FromOther j \<Rightarrow> Inr (DbSame v))"

text \<open>The targets of \<open>FromDb\<close>, with a flag where there are two cases, one for a value and one for a pointer to it.\<close>

datatype db_target =
    TTime bool | TStrings bool | TItfs | TArray bool | TMapSS bool | TMapSI bool | TMapII
  | TPString | TPFloat | TPInt64 | TBool | TItf | TModel bool | TStruct bool

text \<open>\<open>sql.NullString\<close>, \<open>sql.NullInt64\<close> and \<open>sql.NullFloat64\<close>; \<open>None\<close> is NULL.\<close>

datatype holder = HString "string option" | HInt "int option" | HFloat "string option"

datatype ('t, 'j) go_val = GTime 't | GJson 'j | GOneText string | GText string | GInt int | GFloat string | GBool bool | GModel string

definition holder_of :: "db_target \<Rightarrow> holder" where
  "holder_of tgt = (case tgt of TPFloat \<Rightarrow> HFloat None | TPInt64 \<Rightarrow> HInt None | TBool \<Rightarrow> HInt None | _ \<Rightarrow> HString None)"

text \<open>The name of the type a text is decoded into.\<close>

definition json_type :: "db_target \<Rightarrow> string" where
  "json_type tgt =
     (case tgt of
        TStrings _ \<Rightarrow> ''[]string'' | TItfs \<Rightarrow> ''[]interface{}'' | TArray _ \<Rightarrow> ''Array'' | TMapSS _ \<Rightarrow> ''map[string]string''
      | TMapSI _ \<Rightarrow> ''map[string]interface{}'' | TMapII \<Rightarrow> ''map[interface{}]interface{}'' | TStruct _ \<Rightarrow> ''struct'' | _ \<Rightarrow> [])"

definition base :: string where
  "base = ''0000-00-00 00:00:00.0000000''"

definition timeFormat :: string where
  "timeFormat = ''2006-01-02 15:04:05.999999''"

text \<open>The binders: an error, or the new value of the target, \<open>None\<close> when it stays what it is.\<close>

definition bind_time :: "('t, 'j) codec \<Rightarrow> string option \<Rightarrow> string + ('t, 'j) go_val option" where
  "bind_time cd h =
     (case h of
        None \<Rightarrow> Inr None
      | Some str \<Rightarrow>
          if length str \<in> {10, 19, 21, 22, 23, 24, 25, 26} then
            if str = take (length str) base then Inr None
            else (case cd_time cd (take (length str) timeFormat) str of
                    Some t \<Rightarrow> Inr (Some (GTime t))
                  | None \<Rightarrow> Inl ''parsing time'')
          else Inl (''Invalid Time-String: '' @ str))"

definition bind_text :: "(string \<Rightarrow> string + ('t, 'j) go_val option) \<Rightarrow> string option \<Rightarrow> string + ('t, 'j) go_val option" where
  "bind_text f h = (case h of Some str \<Rightarrow> if str \<noteq> [] then f str else Inr None | None \<Rightarrow> Inr None)"

definition bind_list :: "('t, 'j) codec \<Rightarrow> db_target \<Rightarrow> string \<Rightarrow> string + ('t, 'j) go_val option" where
  "bind_list cd tgt str =
     (case cd_unmarshal cd (json_type tgt) str of Some j \<Rightarrow> Inr (Some (GJson j)) | None \<Rightarrow> Inr (Some (GOneText str)))"

definition bind_map :: "('t, 'j) codec \<Rightarrow> db_target \<Rightarrow> string \<Rightarrow> string + ('t, 'j) go_val option" where
  "bind_map cd tgt str =
     (case cd_unmarshal cd (json_type tgt) str of Some j \<Rightarrow> Inr (Some (GJson j)) | None \<Rightarrow> Inl ''json'')"

definition bind_itf :: "('t, 'j) codec \<Rightarrow> string \<Rightarrow> string + ('t, 'j) go_val option" where
  "bind_itf cd str =
     (case cd_unmarshal cd ''[]interface{}'' str of
        Some j \<Rightarrow> Inr (Some (GJson j))
      | None \<Rightarrow>
          (case cd_unmarshal cd ''map[string]interface{}'' str of
             Some j \<Rightarrow> Inr (Some (GJson j))
           | None \<Rightarrow> Inr (Some (GText str))))"

definition or_zero :: "'a \<Rightarrow> 'a option \<Rightarrow> 'a" where
  "or_zero z h = (case h of Some x \<Rightarrow> x | None \<Rightarrow> z)"

text \<open>A holder of another kind would not pass the type assertion of the binder.\<close>

fun FromDb :: "('t, 'j) codec \<Rightarrow> db_target \<Rightarrow> holder \<Rightarrow> (string + ('t, 'j) go_val option) outcome" where
  "FromDb cd (TTime p) (HString h) = Ret (bind_time cd h)"
| "FromDb cd (TStrings p) (HString h) = Ret (bind_text (bind_list cd (TStrings p)) h)"
| "FromDb cd TItfs (HString h) = Ret (bind_text (bind_list cd TItfs) h)"
| "FromDb cd (TArray p) (HString h) = Ret (bind_text (bind_list cd (TArray p)) h)"
| "FromDb cd (TMapSS p) (HString h) = Ret (bind_text (bind_map cd (TMapSS p)) h)"
| "FromDb cd (TMapSI p) (HString h) = Ret (bind_text (bind_map cd (TMapSI p)) h)"
| "FromDb cd TMapII (HString h) = Ret (bind_text (bind_map cd TMapII) h)"
| "FromDb cd TPString (HString h) = Ret (Inr (Some (GText (or_zero [] h))))"
| "FromDb cd TPFloat (HFloat h) = Ret (Inr (Some (GFloat (or_zero ''0'' h))))"
| "FromDb cd TPInt64 (HInt h) = Ret (Inr (Some (GInt (or_zero 0 h))))"
| "FromDb cd TBool (HInt h) =
     Ret (case h of None \<Rightarrow> Inr None | Some v \<Rightarrow> Inr (Some (GBool (if v = 1 then True else False))))"
| "FromDb cd TItf (HString h) = Ret (bind_text (bind_itf cd) h)"
| "FromDb cd (TModel p) (HString h) =
     Ret (let s = or_zero [] h in if s \<noteq> [] \<and> s \<noteq> ''0'' then Inr (Some (GModel s)) else Inr None)"
| "FromDb cd (TStruct p) (HString h) =
     Ret (bind_text (\<lambda>str. case cd_unmarshal cd ''struct'' str of Some j \<Rightarrow> Inr (Some (GJson j)) | None \<Rightarrow> Inr None) h)"
| "FromDb cd tgt h = Panic (PanicMsg ''interface conversion'')"

section \<open>Properties\<close>

lemma FromDb_holder: "\<exists>r. FromDb cd tgt (holder_of tgt) = Ret r"
  by (cases tgt) (simp_all add: holder_of_def)

text \<open>What the driver stores and gives back: the same text or number.\<close>

definition written_holder :: "('t, 'j) db_value \<Rightarrow> holder" where
  "written_holder v = (case v of DbText s \<Rightarrow> HString (Some s) | DbInt i \<Rightarrow> HInt (Some i) | DbSame _ \<Rightarrow> HString None)"

definition container_target :: "db_target \<Rightarrow> bool" where
  "container_target tgt \<longleftrightarrow>
     (case tgt of TStrings _ \<Rightarrow> True | TItfs \<Rightarrow> True | TArray _ \<Rightarrow> True | TMapSS _ \<Rightarrow> True | TMapSI _ \<Rightarrow> True | TMapII \<Rightarrow> True | _ \<Rightarrow> False)"

text \<open>Columns read back. A boolean written to a column is read as the same boolean, and a slice or a map as the same value, when JSON
  decodes what it encodes and no encoding is empty.\<close>

lemma column_roundtrip:
  assumes "container_target tgt" "cd_unmarshal cd (json_type tgt) (cd_marshal cd j) = Some j" "cd_marshal cd j \<noteq> []"
  shows "(\<exists>v. ToDb cd (FromContainer j) = Inr v \<and> FromDb cd tgt (written_holder v) = Ret (Inr (Some (GJson j))))
    \<and> (\<exists>v. ToDb cd (FromBool b) = Inr v \<and> FromDb cd TBool (written_holder v) = Ret (Inr (Some (GBool b))))"
  using assms
  by (cases tgt) (auto simp: container_target_def ToDb_def written_holder_def bind_text_def bind_list_def bind_map_def)

lemma column_roundtrip_witness:
  "\<exists>v. ToDb \<lparr>cd_marshal = (\<lambda>j. ''['' @ j @ '']''), cd_unmarshal = (\<lambda>t s. Some (butlast (tl s))), cd_time = (\<lambda>f s. None :: nat option)\<rparr>
      (FromContainer ''1'') = Inr v \<and> v = DbText ''[1]''"
  using column_roundtrip [of TItfs "\<lparr>cd_marshal = (\<lambda>j. ''['' @ j @ '']''), cd_unmarshal = (\<lambda>t s. Some (butlast (tl s))),
    cd_time = (\<lambda>f s. None :: nat option)\<rparr>" "''1''" True]
  by (simp add: container_target_def ToDb_def)

text \<open>A list column that is not JSON is a list of one text, a map column is an error; NULL in a column of pointers is a pointer to the
  zero value, not nil.\<close>

lemma bad_json_list: "cd_unmarshal cd (json_type (TStrings p)) s = None \<Longrightarrow> s \<noteq> [] \<Longrightarrow>
    FromDb cd (TStrings p) (HString (Some s)) = Ret (Inr (Some (GOneText s)))"
  by (simp add: bind_text_def bind_list_def)

lemma null_pointer_not_nil: "FromDb cd TPString (HString None) = Ret (Inr (Some (GText [])))"
  by (simp add: or_zero_def)

lemma zero_date_kept: "FromDb cd (TTime p) (HString (Some ''0000-00-00'')) = Ret (Inr None)"
  by (simp add: bind_time_def base_def)

end
