(* ===== verification/StoreLock.thy ===== *)
theory StoreLock
  imports Prelude "HOL-Library.Word" Complex_Main
begin

unbundle bit_operations_syntax

text \<open>
  The store: the nodes of \<open>storage/storage.go\<close>, the lock of \<open>storage/lock.go\<close> on them, and the adapter of
  \<open>storage/redis/redis.go\<close>.

  The interface \<open>core.Cache\<close> is a record of functions on the state of a node; the Redis server behind the adapter is
  the parameter \<open>srv\<close>, which answers a command with its arguments. Rounding of a floating-point division is the parameter \<open>rnd\<close>.
  \<open>Delete\<close> starts a goroutine: the deletions that have not run yet are kept in a list.
\<close>

section \<open>Nodes\<close>

text \<open>What a server answers; \<open>RNull\<close> is nil.\<close>

datatype store_answer = RNull | RBulk string | RStatus string | RInt int

record 'n StoreNode =
  n_Get :: "string \<Rightarrow> 'n \<Rightarrow> 'n \<times> store_answer"
  n_GetSet :: "string \<Rightarrow> string \<Rightarrow> 'n \<Rightarrow> 'n \<times> (string + store_answer)"
  n_Put :: "string \<Rightarrow> string \<Rightarrow> int \<Rightarrow> bool \<Rightarrow> 'n \<Rightarrow> 'n \<times> string option"
  n_Delete :: "string \<Rightarrow> 'n \<Rightarrow> 'n \<times> string option"

record 'n Storage =
  st_nodes :: "'n list"
  st_deletes :: "(nat \<times> string) list"

section \<open>The Redis adapter\<close>

type_synonym 'r server = "string list \<Rightarrow> 'r \<Rightarrow> 'r \<times> (string + store_answer)"

definition redis_Get :: "'r server \<Rightarrow> string \<Rightarrow> string \<Rightarrow> 'r \<Rightarrow> 'r \<times> store_answer" where
  "redis_Get srv pre key r =
     (case srv [''GET'', pre @ key] r of (r1, Inr v) \<Rightarrow> (r1, v) | (r1, Inl e) \<Rightarrow> (r1, RNull))"

definition redis_GetSet :: "'r server \<Rightarrow> string \<Rightarrow> string \<Rightarrow> string \<Rightarrow> 'r \<Rightarrow> 'r \<times> (string + store_answer)" where
  "redis_GetSet srv pre key v r = srv [''GETSET'', pre @ key, v] r"

text \<open>The time is in nanoseconds; Go divides towards zero.\<close>

definition whole_secs :: "int \<Rightarrow> int" where
  "whole_secs t = (if 0 \<le> t then t div 1000000000 else - ((- t) div 1000000000))"

definition redis_Put :: "'r server \<Rightarrow> string \<Rightarrow> string \<Rightarrow> string \<Rightarrow> int \<Rightarrow> bool \<Rightarrow> 'r \<Rightarrow> 'r \<times> string option" where
  "redis_Put srv pre key v timeout nx r =
     (case srv ([''SET'', pre @ key, v, ''EX'', itoa (whole_secs timeout)] @ (if nx then [''NX''] else [])) r of
        (r1, Inr _) \<Rightarrow> (r1, None)
      | (r1, Inl e) \<Rightarrow> (r1, Some e))"

definition redis_Delete :: "'r server \<Rightarrow> string \<Rightarrow> string \<Rightarrow> 'r \<Rightarrow> 'r \<times> string option" where
  "redis_Delete srv pre key r =
     (case srv [''DEL'', pre @ key] r of (r1, Inr _) \<Rightarrow> (r1, None) | (r1, Inl e) \<Rightarrow> (r1, Some e))"

definition redis_node :: "'r server \<Rightarrow> string \<Rightarrow> 'r StoreNode" where
  "redis_node srv pre = \<lparr>n_Get = redis_Get srv pre, n_GetSet = redis_GetSet srv pre, n_Put = redis_Put srv pre,
     n_Delete = redis_Delete srv pre\<rparr>"

definition redis_IsExist :: "'r server \<Rightarrow> string \<Rightarrow> string \<Rightarrow> 'r \<Rightarrow> 'r \<times> bool" where
  "redis_IsExist srv pre key r =
     (case srv [''EXISTS'', pre @ key] r of (r1, Inr (RInt n)) \<Rightarrow> (r1, n \<noteq> 0) | (r1, _) \<Rightarrow> (r1, False))"

definition redis_IncrBy :: "'r server \<Rightarrow> string \<Rightarrow> string \<Rightarrow> int \<Rightarrow> 'r \<Rightarrow> 'r \<times> (string + store_answer)" where
  "redis_IncrBy srv pre key n r = srv [''INCRBY'', pre @ key, itoa n] r"

definition redis_Incr :: "'r server \<Rightarrow> string \<Rightarrow> string \<Rightarrow> 'r \<Rightarrow> 'r \<times> (string + store_answer)" where
  "redis_Incr srv pre key r = srv [''INCRBY'', pre @ key, itoa 1] r"

section \<open>The node of a key\<close>

text \<open>\<open>crc32.ChecksumIEEE\<close>: the reflected polynomial, a bit at a time.\<close>

definition crc_bit :: "32 word \<Rightarrow> 32 word" where
  "crc_bit c = (if c AND 1 = 1 then drop_bit 1 c XOR 0xEDB88320 else drop_bit 1 c)"

definition crc_byte :: "32 word \<Rightarrow> char \<Rightarrow> 32 word" where
  "crc_byte c x = (crc_bit ^^ 8) (c XOR word_of_nat (of_char x))"

definition ChecksumIEEE :: "string \<Rightarrow> 32 word" where
  "ChecksumIEEE s = NOT (foldl crc_byte (NOT 0) s)"

definition shard :: "(real \<Rightarrow> real) \<Rightarrow> nat \<Rightarrow> nat \<Rightarrow> nat" where
  "shard rnd sub n = nat \<lfloor>rnd (real sub / rnd (1024 / real n))\<rfloor>"

definition Hash :: "(real \<Rightarrow> real) \<Rightarrow> nat \<Rightarrow> string \<Rightarrow> nat outcome" where
  "Hash rnd n key =
     (if key = [] then Panic (PanicMsg ''keys error'')
      else Ret (shard rnd (unat (ChecksumIEEE key) mod 1024) n))"

section \<open>Storage\<close>

definition on_node :: "nat \<Rightarrow> ('n \<Rightarrow> 'n \<times> 'a) \<Rightarrow> 'n Storage \<Rightarrow> ('n Storage \<times> 'a) outcome" where
  "on_node i f s =
     (if i < length (st_nodes s)
      then case f (st_nodes s ! i) of (n, a) \<Rightarrow> Ret (s\<lparr>st_nodes := (st_nodes s)[i := n]\<rparr>, a)
      else Panic IndexOutOfRange)"

definition Storage_Get :: "'n StoreNode \<Rightarrow> (real \<Rightarrow> real) \<Rightarrow> string \<Rightarrow> 'n Storage \<Rightarrow> ('n Storage \<times> store_answer) outcome" where
  "Storage_Get N rnd key s =
     (if key \<noteq> [] then bind_outcome (Hash rnd (length (st_nodes s)) key) (\<lambda>i. on_node i (n_Get N key) s)
      else Ret (s, RNull))"

definition Storage_GetSet :: "'n StoreNode \<Rightarrow> (real \<Rightarrow> real) \<Rightarrow> string \<Rightarrow> string \<Rightarrow> 'n Storage
    \<Rightarrow> ('n Storage \<times> (string + store_answer)) outcome" where
  "Storage_GetSet N rnd key v s =
     (if key \<noteq> [] then bind_outcome (Hash rnd (length (st_nodes s)) key) (\<lambda>i. on_node i (n_GetSet N key v) s)
      else Ret (s, Inl ''no key''))"

text \<open>\<open>Put\<close> tries five times, and returns nil whatever happened.\<close>

fun put_tries :: "'n StoreNode \<Rightarrow> nat \<Rightarrow> nat \<Rightarrow> string \<Rightarrow> string \<Rightarrow> int \<Rightarrow> bool \<Rightarrow> 'n Storage \<Rightarrow> 'n Storage outcome" where
  "put_tries N 0 i key v timeout nx s = Ret s"
| "put_tries N (Suc k) i key v timeout nx s =
     bind_outcome (on_node i (n_Put N key v timeout nx) s) (\<lambda>(s1, err).
       if err = None then Ret s1 else put_tries N k i key v timeout nx s1)"

definition Storage_Put :: "'n StoreNode \<Rightarrow> (real \<Rightarrow> real) \<Rightarrow> string \<Rightarrow> string \<Rightarrow> int \<Rightarrow> bool \<Rightarrow> 'n Storage
    \<Rightarrow> ('n Storage \<times> string option) outcome" where
  "Storage_Put N rnd key v timeout nx s =
     bind_outcome (Hash rnd (length (st_nodes s)) key) (\<lambda>i.
     bind_outcome (put_tries N 5 i key v timeout nx s) (\<lambda>s1. Ret (s1, None)))"

definition Storage_Delete :: "(real \<Rightarrow> real) \<Rightarrow> string \<Rightarrow> 'n Storage \<Rightarrow> ('n Storage \<times> string option) outcome" where
  "Storage_Delete rnd key s =
     bind_outcome (Hash rnd (length (st_nodes s)) key) (\<lambda>i. Ret (s\<lparr>st_deletes := st_deletes s @ [(i, key)]\<rparr>, None))"

text \<open>The goroutine of a deletion runs.\<close>

definition run_delete :: "'n StoreNode \<Rightarrow> nat \<times> string \<Rightarrow> 'n Storage \<Rightarrow> 'n Storage outcome" where
  "run_delete N d s =
     bind_outcome (on_node (fst d) (n_Delete N (snd d)) (s\<lparr>st_deletes := remove1 d (st_deletes s)\<rparr>)) (\<lambda>(s1, e). Ret s1)"

section \<open>The lock\<close>

definition LOCK_TIMEOUT :: int where
  "LOCK_TIMEOUT = 60"

definition lock_value :: "int \<Rightarrow> string \<Rightarrow> string" where
  "lock_value ts cs = itoa ts @ '','' @ cs"

text \<open>The time in a lock; the error of \<open>Atoi\<close> is dropped.\<close>

definition lock_time :: "string \<Rightarrow> int" where
  "lock_time old = atoi_value (hd (split_on (CHR '','') old))"

definition bytes_of :: "store_answer \<Rightarrow> string outcome" where
  "bytes_of a = (case a of RBulk s \<Rightarrow> Ret s | _ \<Rightarrow> Panic (PanicMsg ''interface conversion''))"

text \<open>The tries of \<open>GetLock\<close>, at the time \<open>ts\<close> and with the checksum \<open>cs\<close>.\<close>

fun lock_tries :: "'n StoreNode \<Rightarrow> (real \<Rightarrow> real) \<Rightarrow> nat \<Rightarrow> int \<Rightarrow> string \<Rightarrow> string \<Rightarrow> 'n Storage
    \<Rightarrow> ('n Storage \<times> (string + string)) outcome" where
  "lock_tries N rnd 0 ts cs key s = Ret (s, Inl ''can't get lock'')"
| "lock_tries N rnd (Suc k) ts cs key s =
     bind_outcome (Storage_Put N rnd key (lock_value ts cs) 0 True s) (\<lambda>(s1, err).
       case err of
         None \<Rightarrow> Ret (s1, Inr cs)
       | Some e \<Rightarrow>
           bind_outcome (Storage_Get N rnd key s1) (\<lambda>(s2, ob).
             if ob = RNull then Ret (s2, Inl e)
             else bind_outcome (bytes_of ob) (\<lambda>old.
               if LOCK_TIMEOUT < ts - lock_time old then
                 bind_outcome (Storage_GetSet N rnd key (lock_value ts cs) s2) (\<lambda>(s3, r).
                   case r of
                     Inl e \<Rightarrow> Ret (s3, Inl e)
                   | Inr glb \<Rightarrow>
                       bind_outcome (bytes_of glb) (\<lambda>gl.
                         if gl = old then Ret (s3, Inr cs) else lock_tries N rnd k ts cs key s3))
               else lock_tries N rnd k ts cs key s2)))"

definition GetLock :: "'n StoreNode \<Rightarrow> (real \<Rightarrow> real) \<Rightarrow> int \<Rightarrow> string \<Rightarrow> string \<Rightarrow> 'n Storage
    \<Rightarrow> ('n Storage \<times> (string + string)) outcome" where
  "GetLock N rnd ts cs key s = lock_tries N rnd 4 ts cs key s"

definition ReleaseLock :: "'n StoreNode \<Rightarrow> (real \<Rightarrow> real) \<Rightarrow> string \<Rightarrow> 'n Storage \<Rightarrow> ('n Storage \<times> string option) outcome" where
  "ReleaseLock N rnd key s =
     bind_outcome (Storage_Get N rnd key s) (\<lambda>(s1, cur).
       if cur \<noteq> RNull then Storage_Delete rnd key s1 else Ret (s1, Some ''release wrong''))"

section \<open>Every key has a node\<close>

text \<open>A check value of the checksum.\<close>

lemma ChecksumIEEE_check: "ChecksumIEEE ''a'' = 0xE8B7BE43"
  by code_simp

text \<open>Division of IEEE 754 is exact up to a relative error of \<open>2^-53\<close>.\<close>

definition ieee :: "(real \<Rightarrow> real) \<Rightarrow> bool" where
  "ieee rnd \<longleftrightarrow> (\<forall>x. 0 \<le> x \<longrightarrow> \<bar>rnd x - x\<bar> \<le> x / 2 ^ 53)"

lemma ieee_bounds: "ieee rnd \<Longrightarrow> 0 \<le> x \<Longrightarrow> x * (1 - 1 / 2 ^ 53) \<le> rnd x \<and> rnd x \<le> x * (1 + 1 / 2 ^ 53)"
proof -
  assume "ieee rnd" "0 \<le> x"
  define t where "t = x / 2 ^ 53"
  have "\<bar>rnd x - x\<bar> \<le> t" using \<open>ieee rnd\<close> \<open>0 \<le> x\<close> by (simp add: ieee_def t_def)
  moreover have e: "x * (1 - 1 / 2 ^ 53) = x - t" "x * (1 + 1 / 2 ^ 53) = x + t"
    by (simp_all add: t_def right_diff_distrib distrib_left)
  ultimately show ?thesis unfolding e by linarith
qed

lemma shard_bound:
  assumes "ieee rnd" "sub < 1024" "0 < n"
  shows "shard rnd sub n < n"
proof -
  let ?e = "1 / 2 ^ 53 :: real"
  have n: "0 < real n" using assms(3) by simp
  define d where "d = rnd (1024 / real n)"
  have d: "1024 / real n * (1 - ?e) \<le> d" using ieee_bounds [OF assms(1), of "1024 / real n"] n by (simp add: d_def)
  have pos: "0 < 1024 / real n * (1 - ?e)" using n by (intro mult_pos_pos) simp_all
  then have dpos: "0 < d" using d by linarith
  have "real sub / d \<le> 1023 / (1024 / real n * (1 - ?e))"
    using assms(2) d pos by (intro frac_le) simp_all
  also have "\<dots> = real n * (1023 / (1024 * (1 - ?e)))" using n by (simp add: field_simps)
  finally have q: "real sub / d \<le> real n * (1023 / (1024 * (1 - ?e)))" .
  have "rnd (real sub / d) \<le> real sub / d * (1 + ?e)"
    using ieee_bounds [OF assms(1), of "real sub / d"] dpos by simp
  also have "\<dots> \<le> real n * (1023 / (1024 * (1 - ?e))) * (1 + ?e)" using q by (intro mult_right_mono) simp_all
  also have "\<dots> = real n * (1023 / (1024 * (1 - ?e)) * (1 + ?e))" by simp
  also have "\<dots> < real n * 1" using n by (intro mult_strict_left_mono) simp_all
  finally have "rnd (real sub / d) < real n" by simp
  then have "\<lfloor>rnd (real sub / d)\<rfloor> < int n" by (simp add: floor_less_iff)
  then show ?thesis using assms(3) by (simp add: shard_def d_def nat_less_iff)
qed

lemma Hash_bound: "ieee rnd \<Longrightarrow> 0 < n \<Longrightarrow> key \<noteq> [] \<Longrightarrow> \<exists>i < n. Hash rnd n key = Ret i"
  by (simp add: Hash_def shard_bound)

lemma on_node_Ret:
  "i < length (st_nodes s) \<Longrightarrow> \<exists>n a. on_node i f s = Ret (s\<lparr>st_nodes := (st_nodes s)[i := n]\<rparr>, a) \<and> f (st_nodes s ! i) = (n, a)"
  by (cases "f (st_nodes s ! i)") (simp add: on_node_def)

lemma put_tries_Ret:
  "i < length (st_nodes s) \<Longrightarrow> \<exists>s'. put_tries N k i key v timeout nx s = Ret s' \<and> length (st_nodes s') = length (st_nodes s)"
proof (induction k arbitrary: s)
  case (Suc k)
  obtain n a where o: "on_node i (n_Put N key v timeout nx) s = Ret (s\<lparr>st_nodes := (st_nodes s)[i := n]\<rparr>, a)"
    using on_node_Ret [OF Suc.prems, of "n_Put N key v timeout nx"] by blast
  let ?s = "s\<lparr>st_nodes := (st_nodes s)[i := n]\<rparr>"
  have l: "length (st_nodes ?s) = length (st_nodes s)" by simp
  obtain s' where s': "put_tries N k i key v timeout nx ?s = Ret s'" "length (st_nodes s') = length (st_nodes s)"
    using Suc.IH [of ?s] Suc.prems unfolding l by blast
  show ?case
  proof (cases a)
    case None
    then show ?thesis using o l by simp
  next
    case (Some e)
    then show ?thesis using o s' by simp
  qed
qed simp

lemma put_tries_first:
  "on_node i (n_Put N key v timeout nx) s = Ret (s1, None) \<Longrightarrow> put_tries N 5 i key v timeout nx s = Ret s1"
proof -
  have n: "(5::nat) = Suc 4" by simp
  assume "on_node i (n_Put N key v timeout nx) s = Ret (s1, None)"
  then show ?thesis unfolding n put_tries.simps by simp
qed

lemma GetLock_first:
  "Storage_Put N rnd key (lock_value ts cs) 0 True s = Ret (s1, None) \<Longrightarrow> GetLock N rnd ts cs key s = Ret (s1, Inr cs)"
proof -
  have n: "(4::nat) = Suc 3" by simp
  assume "Storage_Put N rnd key (lock_value ts cs) 0 True s = Ret (s1, None)"
  then show ?thesis unfolding GetLock_def n lock_tries.simps by simp
qed

text \<open>What reaches a node is read back: the first try of a \<open>Put\<close> that the node accepts.\<close>

lemma get_after_put:
  assumes "ieee rnd" "st_nodes s \<noteq> []" "key \<noteq> []"
    and "\<And>n. n_Put N key v timeout nx n = (put n, None) \<and> snd (n_Get N key (put n)) = RBulk v"
  shows "\<exists>s1 s2. Storage_Put N rnd key v timeout nx s = Ret (s1, None) \<and> Storage_Get N rnd key s1 = Ret (s2, RBulk v)"
proof -
  obtain i where i: "i < length (st_nodes s)" "Hash rnd (length (st_nodes s)) key = Ret i"
    using Hash_bound [OF assms(1) _ assms(3)] assms(2) by auto
  let ?s1 = "s\<lparr>st_nodes := (st_nodes s)[i := put (st_nodes s ! i)]\<rparr>"
  note n = assms(4) [of "st_nodes s ! i"]
  have "put_tries N 5 i key v timeout nx s = Ret ?s1"
    using i(1) n by (intro put_tries_first) (simp add: on_node_def)
  moreover have "\<exists>s2. on_node i (n_Get N key) ?s1 = Ret (s2, RBulk v)"
    using i(1) n by (cases "n_Get N key (put (st_nodes s ! i))") (simp add: on_node_def)
  ultimately show ?thesis using i assms(3) by (simp add: Storage_Put_def Storage_Get_def)
qed

section \<open>Properties\<close>

text \<open>C26: The lock excludes nobody. Whatever the nodes answer, and whoever holds the lock already, \<open>GetLock\<close> for a key that is not
  empty returns at once and grants the lock to its caller.\<close>

theorem lock_always_granted:
  assumes "ieee rnd" "st_nodes s \<noteq> []" "key \<noteq> []"
  shows "\<exists>s'. GetLock N rnd ts cs key s = Ret (s', Inr cs)"
proof -
  obtain i where i: "i < length (st_nodes s)" "Hash rnd (length (st_nodes s)) key = Ret i"
    using Hash_bound [OF assms(1) _ assms(3)] assms(2) by auto
  obtain s' where "put_tries N 5 i key (lock_value ts cs) 0 True s = Ret s'" using put_tries_Ret [OF i(1)] by blast
  then have "Storage_Put N rnd key (lock_value ts cs) 0 True s = Ret (s', None)" using i by (simp add: Storage_Put_def)
  then show ?thesis using GetLock_first by blast
qed

text \<open>On Redis the lock is not even stored: a server refuses an expiry of 0 seconds.\<close>

definition refuses_zero_expiry :: "'r server \<Rightarrow> bool" where
  "refuses_zero_expiry srv \<longleftrightarrow> (\<forall>key v opts r. \<exists>e. srv ([''SET'', key, v, ''EX'', ''0''] @ opts) r = (r, Inl e))"

lemma lock_not_stored:
  assumes "refuses_zero_expiry srv" "ieee rnd" "st_nodes s \<noteq> []" "key \<noteq> []"
  shows "GetLock (redis_node srv pre) rnd ts cs key s = Ret (s, Inr cs)"
proof -
  obtain i where i: "i < length (st_nodes s)" "Hash rnd (length (st_nodes s)) key = Ret i"
    using Hash_bound [OF assms(2) _ assms(4)] assms(3) by auto
  have z: "itoa (whole_secs 0) = ''0''" by code_simp
  have p: "\<exists>e. n_Put (redis_node srv pre) key v 0 True n = (n, Some e)" for v n
  proof -
    obtain e where "srv [''SET'', pre @ key, v, ''EX'', ''0'', ''NX''] n = (n, Inl e)"
      using assms(1) [unfolded refuses_zero_expiry_def, rule_format, of "pre @ key" v "[''NX'']" n] by auto
    then show ?thesis by (simp add: redis_node_def redis_Put_def z)
  qed
  have o: "\<exists>e. on_node i (n_Put (redis_node srv pre) key v 0 True) s = Ret (s, Some e)" for v
    using i(1) p [of v "st_nodes s ! i"] by (auto simp: on_node_def)
  have "put_tries (redis_node srv pre) k i key v 0 True s = Ret s" for k v
    using o [of v] by (induction k) auto
  then show ?thesis using i(2) by (intro GetLock_first) (simp add: Storage_Put_def)
qed

section \<open>Examples\<close>

text \<open>A node that keeps what it has: it refuses every \<open>Put\<close> of a key that exists.\<close>

definition kept_node :: "(string \<rightharpoonup> string) StoreNode" where
  "kept_node = \<lparr>n_Get = (\<lambda>k n. (n, case n k of Some v \<Rightarrow> RBulk v | None \<Rightarrow> RNull)),
     n_GetSet = (\<lambda>k v n. (n(k \<mapsto> v), Inr (case n k of Some v \<Rightarrow> RBulk v | None \<Rightarrow> RNull))),
     n_Put = (\<lambda>k v t nx n. if nx \<and> n k \<noteq> None then (n, Some ''exists'') else (n(k \<mapsto> v), None)),
     n_Delete = (\<lambda>k n. (n(k := None), None))\<rparr>"

theorem lock_always_granted_witness:
  "\<exists>s'. GetLock kept_node id 100 ''b'' ''lock'' \<lparr>st_nodes = [[''lock'' \<mapsto> ''99,a'']], st_deletes = []\<rparr> = Ret (s', Inr ''b'')"
  by (rule lock_always_granted) (simp_all add: ieee_def)

end
