(* ===== verification/GorpSelect.thy ===== *)
theory GorpSelect
  imports GorpExec
begin

text \<open>
  Reading rows with \<open>gorp/gorp.go\<close>: \<open>SelectInt\<close> and its relatives, \<open>SelectOne\<close>,
  \<open>Select\<close> with its hooks, and \<open>rawselect\<close>, which scans the rows of a query into structs or into
  a slice of the caller.

  The \<open>SqlExecutor\<close> runs a query on the world \<open>'db\<close> and answers with an error or with a cursor:
  the column names, the rows that \<open>Next\<close> delivers and what \<open>Err\<close> says after the last one.
  \<open>Rows.Scan\<close> and the type converter are parameters too. A struct has fields of one depth; the
  pointers in a slice of the caller are pairwise different and not nil, and so is the pointer to the slice.
\<close>

section \<open>Types, cursors and errors\<close>

datatype rtype = RStruct string "(string \<times> string \<times> rtype) list" | RPtr rtype | RSlice rtype | ROther string

datatype sql_error = ErrNoRows | SqlErr string

record 'row cursor =
  cur_columns :: "sql_error + string list"
  cur_rows :: "'row list"
  cur_err :: "sql_error option"

type_synonym ('row, 'db) executor = "string \<Rightarrow> query_arg list \<Rightarrow> 'db \<Rightarrow> (sql_error + 'row cursor) \<times> 'db"

datatype select_error =
    SqlError sql_error
  | CannotSelectInto rtype
  | NonPointerSlice rtype
  | NeedsOneColumn nat
  | NoFieldInType string "string list"
  | BindError string
  | PostGetError string
  | HolderNotPointer rtype
  | MultipleRows string

definition NonFatalError :: "select_error \<Rightarrow> bool" where
  "NonFatalError e = (case e of NoFieldInType n cols \<Rightarrow> True | _ \<Rightarrow> False)"

definition expand_args :: "Dialect \<Rightarrow> string \<Rightarrow> query_arg list \<Rightarrow> string \<times> query_arg list" where
  "expand_args d query args =
     (case args of
        [a] \<Rightarrow> (case maybeExpandNamedQuery d query a of
            (q, Inl vs) \<Rightarrow> (q, map ArgOther vs) | (q, Inr a') \<Rightarrow> (q, [a']))
      | _ \<Rightarrow> (query, args))"

section \<open>A single value\<close>

text \<open>\<open>selectVal\<close>: the first row is scanned into the holder. What \<open>Err\<close> says when there is no row
  is not looked at.\<close>

definition selectVal ::
  "Dialect \<Rightarrow> ('row, 'db) executor \<Rightarrow> ('row \<Rightarrow> 'h \<Rightarrow> sql_error option \<times> 'h) \<Rightarrow> 'h \<Rightarrow> string \<Rightarrow> query_arg list \<Rightarrow> 'db
    \<Rightarrow> (sql_error option \<times> 'h) \<times> 'db" where
  "selectVal d ex scan holder query args db =
     (case expand_args d query args of (q, as) \<Rightarrow>
      case ex q as db of
        (Inl e, db') \<Rightarrow> ((Some e, holder), db')
      | (Inr cur, db') \<Rightarrow>
          (case cur_rows cur of
             [] \<Rightarrow> ((Some ErrNoRows, holder), db')
           | row # rows \<Rightarrow> (scan row holder, db')))"

text \<open>The six functions around it: an \<open>ErrNoRows\<close> is no error. On another error the plain ones answer
  with zero, those with a \<open>Null\<close> type with the holder as the scan left it.\<close>

definition select_plain ::
  "'h \<Rightarrow> Dialect \<Rightarrow> ('row, 'db) executor \<Rightarrow> ('row \<Rightarrow> 'h \<Rightarrow> sql_error option \<times> 'h) \<Rightarrow> string \<Rightarrow> query_arg list \<Rightarrow> 'db
    \<Rightarrow> ('h \<times> sql_error option) \<times> 'db" where
  "select_plain zero d ex scan query args db =
     (case selectVal d ex scan zero query args db of
        ((err, h), db') \<Rightarrow> (if err \<noteq> None \<and> err \<noteq> Some ErrNoRows then (zero, err) else (h, None), db'))"

definition select_null ::
  "'h \<Rightarrow> Dialect \<Rightarrow> ('row, 'db) executor \<Rightarrow> ('row \<Rightarrow> 'h \<Rightarrow> sql_error option \<times> 'h) \<Rightarrow> string \<Rightarrow> query_arg list \<Rightarrow> 'db
    \<Rightarrow> ('h \<times> sql_error option) \<times> 'db" where
  "select_null zero d ex scan query args db =
     (case selectVal d ex scan zero query args db of
        ((err, h), db') \<Rightarrow> (if err \<noteq> None \<and> err \<noteq> Some ErrNoRows then (h, err) else (h, None), db'))"

text \<open>\<open>Null\<close> values: the value and \<open>Valid\<close>; a \<open>float64\<close> is given by its text.\<close>

definition SelectInt where "SelectInt = select_plain (0 :: int)"
definition SelectFloat where "SelectFloat = select_plain ''0''"
definition SelectStr where "SelectStr = select_plain ('''' :: string)"
definition SelectNullInt where "SelectNullInt = select_null (0 :: int, False)"
definition SelectNullFloat where "SelectNullFloat = select_null (''0'', False)"
definition SelectNullStr where "SelectNullStr = select_null ('''' :: string, False)"

section \<open>The destination of a select\<close>

fun toType :: "rtype \<Rightarrow> rtype option" where
  "toType (RPtr t) = toType t"
| "toType (RStruct n fs) = Some (RStruct n fs)"
| "toType t = None"

text \<open>The element type of a pointer to a slice; the error is for a slice without the pointer.\<close>

fun toSliceType :: "rtype \<Rightarrow> select_error + rtype option" where
  "toSliceType (RSlice t) = Inl (NonPointerSlice (RSlice t))"
| "toSliceType (RPtr (RSlice t)) = Inr (Some t)"
| "toSliceType t = Inr None"

record select_into =
  si_type :: rtype
  si_append :: bool
  si_struct :: bool
  si_pointers :: bool

definition select_target :: "rtype \<Rightarrow> select_error + select_into" where
  "select_target i =
     (case toType i of
        Some t \<Rightarrow> Inr \<lparr>si_type = t, si_append = False, si_struct = True, si_pointers = True\<rparr>
      | None \<Rightarrow>
          (case toSliceType i of
             Inl e \<Rightarrow> Inl e
           | Inr None \<Rightarrow> Inl (CannotSelectInto i)
           | Inr (Some t) \<Rightarrow>
               (let ptr = (case t of RPtr u \<Rightarrow> True | _ \<Rightarrow> False);
                    u = (case t of RPtr u \<Rightarrow> u | _ \<Rightarrow> t);
                    str = (case u of RStruct n fs \<Rightarrow> True | _ \<Rightarrow> False)
                in Inr \<lparr>si_type = u, si_append = True, si_struct = str, si_pointers = ptr\<rparr>)))"

fun struct_fields :: "rtype \<Rightarrow> (string \<times> string \<times> rtype) list" where
  "struct_fields (RStruct n fs) = fs"
| "struct_fields t = []"

fun rtype_name :: "rtype \<Rightarrow> string" where
  "rtype_name (RStruct n fs) = n"
| "rtype_name (ROther n) = n"
| "rtype_name t = []"

section \<open>Scanning the rows\<close>

text \<open>An element of the result: a struct by its fields, or a single value.\<close>

datatype elem = EStruct struct_value | EValue fvalue

text \<open>A converter may put its own holder in the place of a target and bind its value after the scan.\<close>

type_synonym converter = "(rtype \<Rightarrow> (rtype \<times> (fvalue \<Rightarrow> string + fvalue)) option) option"

text \<open>The targets of a row: for every column the field it goes to, its type and its binding; a column
  without a field is scanned into a dummy.\<close>

definition bound_target :: "converter \<Rightarrow> rtype \<Rightarrow> rtype \<times> (fvalue \<Rightarrow> string + fvalue)" where
  "bound_target conv t = (case conv of None \<Rightarrow> (t, Inr) | Some c \<Rightarrow> (case c t of None \<Rightarrow> (t, Inr) | Some b \<Rightarrow> b))"

definition row_targets ::
  "converter \<Rightarrow> select_into \<Rightarrow> nat option list \<Rightarrow> nat \<Rightarrow> (string \<times> rtype \<times> (fvalue \<Rightarrow> string + fvalue)) option list" where
  "row_targets conv si index n =
     map (\<lambda>x.
       if si_struct si
       then (case index ! x of
               None \<Rightarrow> None
             | Some k \<Rightarrow> (case struct_fields (si_type si) ! k of (name, tag, t) \<Rightarrow> Some (name, bound_target conv t)))
       else Some ([], bound_target conv (si_type si)))
     [0..<n]"

fun bind_row :: "(string \<times> rtype \<times> (fvalue \<Rightarrow> string + fvalue)) option list \<Rightarrow> fvalue list \<Rightarrow> elem \<Rightarrow> string + elem" where
  "bind_row (None # ts) (v # vs) e = bind_row ts vs e"
| "bind_row (Some (name, t, bind) # ts) (v # vs) e =
     (case bind v of
        Inl err \<Rightarrow> Inl err
      | Inr v' \<Rightarrow> bind_row ts vs (case e of EStruct s \<Rightarrow> EStruct (s(name \<mapsto> v')) | EValue u \<Rightarrow> EValue v'))"
| "bind_row ts vs e = Inr e"

type_synonym 'row scanner = "'row \<Rightarrow> rtype option list \<Rightarrow> sql_error + fvalue list"

definition new_elem :: "select_into \<Rightarrow> (rtype \<Rightarrow> fvalue) \<Rightarrow> elem" where
  "new_elem si zero = (if si_struct si then EStruct Map.empty else EValue (zero (si_type si)))"

definition scan_row ::
  "'row scanner \<Rightarrow> (rtype \<Rightarrow> fvalue) \<Rightarrow> converter \<Rightarrow> select_into \<Rightarrow> nat option list \<Rightarrow> nat \<Rightarrow> 'row \<Rightarrow> select_error + elem" where
  "scan_row scan zero conv si index n row =
     (let ts = row_targets conv si index n
      in case scan row (map (map_option (fst \<circ> snd)) ts) of
           Inl e \<Rightarrow> Inl (SqlError e)
         | Inr vs \<Rightarrow> (case bind_row ts vs (new_elem si zero) of Inl e \<Rightarrow> Inl (BindError e) | Inr e \<Rightarrow> Inr e))"

text \<open>The rows, one after the other: into the slice of the caller, nil or not, or into the list.\<close>

fun scan_rows ::
  "('row \<Rightarrow> select_error + elem) \<Rightarrow> bool \<Rightarrow> 'row list \<Rightarrow> sql_error option \<Rightarrow> elem list \<Rightarrow> elem list option
    \<Rightarrow> select_error option \<times> elem list \<times> elem list option" where
  "scan_rows one app [] err lst dst = (map_option SqlError err, lst, dst)"
| "scan_rows one app (row # rows) err lst dst =
     (case one row of
        Inl e \<Rightarrow> (Some e, lst, dst)
      | Inr v \<Rightarrow> if app then scan_rows one app rows err lst (Some ((case dst of None \<Rightarrow> [] | Some xs \<Rightarrow> xs) @ [v]))
                 else scan_rows one app rows err (lst @ [v]) dst)"

section \<open>rawselect\<close>

record 'row reader =
  rd_scan :: "'row scanner"
  rd_zero :: "rtype \<Rightarrow> fvalue"
  rd_conv :: converter

type_synonym selected = "(elem list \<times> select_error option) \<times> elem list option"

definition field_index :: "DbMap \<Rightarrow> rtype \<Rightarrow> string list \<Rightarrow> nat option list \<times> select_error option" where
  "field_index m t cols =
     (case columnToFieldIndex (tableOrNil m (rtype_name t)) (map (\<lambda>(n, g, u). (n, g)) (struct_fields t)) cols of
        (idx, missing) \<Rightarrow> (idx, if missing \<noteq> [] then Some (NoFieldInType (rtype_name t) missing) else None))"

definition row_reader :: "DbMap \<Rightarrow> 'row reader \<Rightarrow> select_into \<Rightarrow> string list \<Rightarrow> 'row \<Rightarrow> select_error + elem" where
  "row_reader m rd si cols =
     scan_row (rd_scan rd) (rd_zero rd) (rd_conv rd) si (if si_struct si then fst (field_index m (si_type si) cols) else []) (length cols)"

definition read_cursor ::
  "DbMap \<Rightarrow> 'row reader \<Rightarrow> select_into \<Rightarrow> 'row cursor \<Rightarrow> elem list option \<Rightarrow> selected" where
  "read_cursor m rd si cur dst =
     (case cur_columns cur of
        Inl e \<Rightarrow> (([], Some (SqlError e)), dst)
      | Inr cols \<Rightarrow>
          if \<not> si_struct si \<and> length cols > 1 then (([], Some (NeedsOneColumn (length cols))), dst)
          else
            let nonFatalErr = (if si_struct si then snd (field_index m (si_type si) cols) else None)
            in case scan_rows (row_reader m rd si cols) (si_append si) (cur_rows cur) (cur_err cur) [] dst of
                 (Some e, lst, dst') \<Rightarrow> (([], Some e), dst')
               | (None, lst, dst') \<Rightarrow>
                   ((lst, nonFatalErr), if si_append si \<and> dst' = None then Some [] else dst'))"

definition rawselect ::
  "DbMap \<Rightarrow> ('row, 'db) executor \<Rightarrow> 'row reader \<Rightarrow> rtype \<Rightarrow> elem list option \<Rightarrow> string \<Rightarrow> query_arg list \<Rightarrow> 'db
    \<Rightarrow> selected \<times> 'db" where
  "rawselect m ex rd i dst query args db =
     (case select_target i of
        Inl e \<Rightarrow> ((([], Some e), dst), db)
      | Inr si \<Rightarrow>
          (case expand_args (m_dialect m) query args of (q, as) \<Rightarrow>
           case ex q as db of
             (Inl e, db') \<Rightarrow> ((([], Some (SqlError e)), dst), db')
           | (Inr cur, db') \<Rightarrow> (read_cursor m rd si cur dst, db')))"

section \<open>Hooks, and a single struct\<close>

text \<open>\<open>PostGet\<close> of an element, by the type of the element; a value is passed as a copy.\<close>

type_synonym 'db elem_hook = "elem \<Rightarrow> 'db \<Rightarrow> string option \<times> elem \<times> 'db"

fun run_hooks :: "'db elem_hook option \<Rightarrow> bool \<Rightarrow> elem list \<Rightarrow> 'db \<Rightarrow> string option \<times> elem list \<times> 'db" where
  "run_hooks None by_ref es db = (None, es, db)"
| "run_hooks (Some h) by_ref [] db = (None, [], db)"
| "run_hooks (Some h) by_ref (e # es) db =
     (case h e db of
        (Some err, e', db') \<Rightarrow> (Some err, (if by_ref then e' else e) # es, db')
      | (None, e', db') \<Rightarrow>
          (case run_hooks (Some h) by_ref es db' of
             (r, es', db'') \<Rightarrow> (r, (if by_ref then e' else e) # es', db'')))"

definition is_pointer :: "rtype \<Rightarrow> bool" where
  "is_pointer t = (case t of RPtr u \<Rightarrow> True | _ \<Rightarrow> False)"

text \<open>The hooks run on the list, or on the whole slice of the caller.\<close>

definition hookedselect ::
  "DbMap \<Rightarrow> ('row, 'db) executor \<Rightarrow> 'row reader \<Rightarrow> (rtype \<Rightarrow> 'db elem_hook option) \<Rightarrow> rtype \<Rightarrow> elem list option
    \<Rightarrow> string \<Rightarrow> query_arg list \<Rightarrow> 'db \<Rightarrow> selected \<times> 'db" where
  "hookedselect m ex rd hooks i dst query args db =
     (case rawselect m ex rd i dst query args db of
        (((lst, err), dst'), db') \<Rightarrow>
          if (case err of None \<Rightarrow> False | Some e \<Rightarrow> \<not> NonFatalError e) then ((([], err), dst'), db')
          else case toSliceType i of
            Inr (Some t) \<Rightarrow>
              (case run_hooks (hooks t) (is_pointer t) (case dst' of None \<Rightarrow> [] | Some xs \<Rightarrow> xs) db' of
                 (Some e, xs, db'') \<Rightarrow> ((([], Some (PostGetError e)), map_option (\<lambda>_. xs) dst'), db'')
               | (None, xs, db'') \<Rightarrow> (((lst, err), map_option (\<lambda>_. xs) dst'), db''))
          | _ \<Rightarrow>
              (case run_hooks (hooks (RPtr (the (toType i)))) True lst db' of
                 (Some e, lst', db'') \<Rightarrow> ((([], Some (PostGetError e)), dst'), db'')
               | (None, lst', db'') \<Rightarrow> (((lst', err), dst'), db'')))"

text \<open>The holder of \<open>SelectOne\<close>: a pointer to a struct, a pointer to a pointer to one, or another pointer,
  whose value a scan sets. \<open>None\<close> is a nil pointer.\<close>

datatype 'h one_holder = HoldStruct "elem option" | HoldPointer "elem option option" | HoldValue 'h

definition store_struct :: "elem \<Rightarrow> 'h one_holder \<Rightarrow> 'h one_holder outcome" where
  "store_struct e h =
     (case h of
        HoldStruct None \<Rightarrow> Panic (PanicMsg ''reflect: reflect.Value.Set using unaddressable value'')
      | HoldStruct (Some _) \<Rightarrow> Ret (HoldStruct (Some e))
      | HoldPointer None \<Rightarrow> Panic (PanicMsg ''reflect: call of reflect.Value.IsNil on zero Value'')
      | HoldPointer (Some _) \<Rightarrow> Ret (HoldPointer (Some (Some e)))
      | HoldValue v \<Rightarrow> Ret h)"

definition SelectOne ::
  "DbMap \<Rightarrow> ('row, 'db) executor \<Rightarrow> 'row reader \<Rightarrow> (rtype \<Rightarrow> 'db elem_hook option) \<Rightarrow> ('row \<Rightarrow> 'h \<Rightarrow> sql_error option \<times> 'h)
    \<Rightarrow> rtype \<Rightarrow> 'h one_holder \<Rightarrow> string \<Rightarrow> query_arg list \<Rightarrow> 'db \<Rightarrow> (select_error option \<times> 'h one_holder) outcome \<times> 'db" where
  "SelectOne m ex rd hooks scan t h query args db =
     (if \<not> is_pointer t then (Ret (Some (HolderNotPointer t), h), db)
      else case h of
        HoldValue v \<Rightarrow>
          (case selectVal (m_dialect m) ex scan v query args db of
             ((err, v'), db') \<Rightarrow> (Ret (map_option SqlError err, HoldValue v'), db'))
      | _ \<Rightarrow>
          (case hookedselect m ex rd hooks t None query args db of
             (((lst, err), dst'), db') \<Rightarrow>
               if (case err of None \<Rightarrow> False | Some e \<Rightarrow> \<not> NonFatalError e) then (Ret (err, h), db')
               else case lst of
                 [] \<Rightarrow> (Ret (Some (SqlError ErrNoRows), h), db')
               | [e] \<Rightarrow> (bind_outcome (store_struct e h) (\<lambda>h'. Ret (err, h')), db')
               | _ \<Rightarrow> (Ret (Some (MultipleRows query), h), db')))"

section \<open>The rows of a query\<close>

definition elems :: "elem list option \<Rightarrow> elem list" where
  "elems d = (case d of None \<Rightarrow> [] | Some xs \<Rightarrow> xs)"

lemma elems_simps [simp]: "elems None = []" "elems (Some xs) = xs"
  by (simp_all add: elems_def)

lemma scan_rows_slice:
  assumes "scan_rows one True rows err lst dst = (r, lst', dst')"
  shows "lst' = lst \<and> (\<exists>vs. elems dst' = elems dst @ vs \<and> list_all2 (\<lambda>row v. one row = Inr v) (take (length vs) rows) vs
    \<and> (if length vs < length rows then \<exists>e. one (rows ! length vs) = Inl e \<and> r = Some e else r = map_option SqlError err))"
  using assms
proof (induction rows arbitrary: dst)
  case Nil
  then show ?case by auto
next
  case (Cons row rows)
  show ?case
  proof (cases "one row")
    case (Inl e)
    with Cons.prems show ?thesis by (auto intro!: exI [of _ "[]"])
  next
    case (Inr v)
    with Cons.prems have "scan_rows one True rows err lst (Some (elems dst @ [v])) = (r, lst', dst')"
      by (simp add: elems_def)
    from Cons.IH [OF this] obtain vs where "lst' = lst" "elems dst' = (elems dst @ [v]) @ vs"
      "list_all2 (\<lambda>row v. one row = Inr v) (take (length vs) rows) vs"
      "if length vs < length rows then \<exists>e. one (rows ! length vs) = Inl e \<and> r = Some e else r = map_option SqlError err" by auto
    with Inr show ?thesis by (intro conjI exI [of _ "v # vs"]) simp_all
  qed
qed

lemma scan_rows_list:
  "scan_rows one False rows err lst dst = (r, lst', dst') \<Longrightarrow>
   dst' = dst \<and> (\<exists>vs. lst' = lst @ vs \<and> list_all2 (\<lambda>row v. one row = Inr v) (take (length vs) rows) vs
    \<and> (r = None \<longleftrightarrow> length vs = length rows \<and> err = None))"
proof (induction rows arbitrary: lst)
  case Nil
  then show ?case by (auto simp: map_option_case split: option.splits)
next
  case (Cons row rows)
  show ?case
  proof (cases "one row")
    case (Inl e)
    with Cons.prems show ?thesis by (auto intro!: exI [of _ "[]"])
  next
    case (Inr v)
    with Cons.prems have "scan_rows one False rows err (lst @ [v]) dst = (r, lst', dst')" by simp
    from Cons.IH [OF this] obtain vs where "dst' = dst" "lst' = (lst @ [v]) @ vs"
      "list_all2 (\<lambda>row v. one row = Inr v) (take (length vs) rows) vs"
      "r = None \<longleftrightarrow> length vs = length rows \<and> err = None" by auto
    with Inr show ?thesis by (intro conjI exI [of _ "v # vs"]) simp_all
  qed
qed

lemma row_error_fatal: "row_reader m rd si cols row = Inl e \<Longrightarrow> \<not> NonFatalError e"
  by (auto simp: row_reader_def scan_row_def Let_def NonFatalError_def split: sum.splits)

lemma toSliceType_Some: "toSliceType i = Inr (Some t) \<Longrightarrow> i = RPtr (RSlice t)"
  by (cases i rule: toSliceType.cases) simp_all

definition fatal :: "select_error option \<Rightarrow> bool" where
  "fatal err = (case err of None \<Rightarrow> False | Some e \<Rightarrow> \<not> NonFatalError e)"

lemma field_index_nonfatal: "\<not> fatal (snd (field_index m t cols))"
  by (simp add: field_index_def fatal_def NonFatalError_def case_prod_beta)

text \<open>C28: Selecting into a slice, of structs or of values of one column, when the query runs and names its columns. The elements of the slice stay, and
  the rows are appended in the order of the query, each as its scan read it, up to the first row that cannot be read: the next row, if there is one, is one
  whose scan gave the error that is returned, which is fatal. When every row was appended, the error is the one with which the rows ended, and
  without one there is none, or only the non-fatal one of a column without a field.\<close>

theorem select_fills_slice:
  assumes slice_type: "select_target (RPtr (RSlice t)) = Inr si"
    and run: "expand_args (m_dialect m) query args = (q, as)" "ex q as db = (Inr cur, db')"
    and cols: "cur_columns cur = Inr cols" "si_struct si \<or> length cols \<le> 1"
  shows "\<exists>err dst' vs. rawselect m ex rd (RPtr (RSlice t)) dst query args db = ((([], err), dst'), db')
    \<and> elems dst' = elems dst @ vs
    \<and> list_all2 (\<lambda>row v. row_reader m rd si cols row = Inr v) (take (length vs) (cur_rows cur)) vs
    \<and> (if length vs < length (cur_rows cur)
       then \<exists>e. row_reader m rd si cols (cur_rows cur ! length vs) = Inl e \<and> err = Some e \<and> fatal err
       else (case cur_err cur of Some e \<Rightarrow> err = Some (SqlError e) | None \<Rightarrow> \<not> fatal err))"
proof -
  have app: "si_append si" using slice_type by (auto simp: select_target_def Let_def)
  let ?one = "row_reader m rd si cols"
  obtain r lst' d where s: "scan_rows ?one True (cur_rows cur) (cur_err cur) [] dst = (r, lst', d)"
    by (metis prod_cases3)
  from scan_rows_slice [OF s] obtain vs where vs: "lst' = []" "elems d = elems dst @ vs"
    "list_all2 (\<lambda>row v. ?one row = Inr v) (take (length vs) (cur_rows cur)) vs"
    "if length vs < length (cur_rows cur) then \<exists>e. ?one (cur_rows cur ! length vs) = Inl e \<and> r = Some e
      else r = map_option SqlError (cur_err cur)" by auto
  have rs: "rawselect m ex rd (RPtr (RSlice t)) dst query args db = (read_cursor m rd si cur dst, db')"
    using slice_type run by (simp add: rawselect_def)
  show ?thesis
  proof (cases r)
    case None
    let ?err = "if si_struct si then snd (field_index m (si_type si) cols) else None" and ?d = "if d = None then Some [] else d"
    have c: "read_cursor m rd si cur dst = (([], ?err), ?d)"
      using None cols app s vs(1) by (auto simp: read_cursor_def)
    have e: "elems ?d = elems dst @ vs" using vs(2) by (cases d) simp_all
    have f: "\<not> fatal ?err" by (simp add: field_index_nonfatal) (simp add: fatal_def)
    have "\<not> length vs < length (cur_rows cur)" "cur_err cur = None" using vs(4) None by (auto split: if_splits)
    with f have g: "if length vs < length (cur_rows cur)
       then \<exists>e. ?one (cur_rows cur ! length vs) = Inl e \<and> ?err = Some e \<and> fatal ?err
       else (case cur_err cur of Some e \<Rightarrow> ?err = Some (SqlError e) | None \<Rightarrow> \<not> fatal ?err)" by simp
    show ?thesis unfolding rs c using e vs(3) g by blast
  next
    case (Some e)
    have c: "read_cursor m rd si cur dst = (([], Some e), d)" using Some cols app s by (auto simp: read_cursor_def)
    have "if length vs < length (cur_rows cur)
       then \<exists>e'. ?one (cur_rows cur ! length vs) = Inl e' \<and> Some e = Some e' \<and> fatal (Some e)
       else (case cur_err cur of Some s \<Rightarrow> Some e = Some (SqlError s) | None \<Rightarrow> \<not> fatal (Some e))"
      using vs(4) Some by (auto simp: fatal_def dest: row_error_fatal split: if_splits option.splits)
    with vs(2,3) show ?thesis unfolding rs c by blast
  qed
qed

text \<open>A query whose rows never arrive reads as zero. When the connection breaks before the first row, \<open>Err\<close> says so,
  but \<open>SelectInt\<close> returns zero and no error, as it does when there is no row.\<close>

lemma broken_rows_read_as_zero:
  assumes "expand_args d query args = (q, as)" "ex q as db = (Inr cur, db')" "cur_rows cur = []"
  shows "SelectInt d ex scan query args db = ((0, None), db')"
  using assms by (simp add: SelectInt_def select_plain_def selectVal_def)

lemma run_hooks_length: "length (fst (snd (run_hooks h by_ref es db))) = length es"
  by (induction h by_ref es db rule: run_hooks.induct) (auto split: prod.splits option.splits)

lemma scan_rows_fatal:
  "scan_rows one app rows err lst dst = (Some e, lst', dst') \<Longrightarrow> (\<And>row e. one row = Inl e \<Longrightarrow> \<not> NonFatalError e) \<Longrightarrow> \<not> NonFatalError e"
  by (induction one app rows err lst dst rule: scan_rows.induct) (auto simp: NonFatalError_def split: sum.splits if_splits)

lemma rawselect_struct_Some:
  assumes "rawselect m ex rd (RPtr (RStruct n fs)) dst query args db = (((lst, err), dst'), db')" "\<not> fatal err"
  shows "\<exists>q as cur cols. expand_args (m_dialect m) query args = (q, as) \<and> ex q as db = (Inr cur, db') \<and> cur_columns cur = Inr cols
    \<and> cur_err cur = None
    \<and> list_all2 (\<lambda>row v. row_reader m rd \<lparr>si_type = RStruct n fs, si_append = False, si_struct = True, si_pointers = True\<rparr> cols row = Inr v)
        (cur_rows cur) lst"
proof -
  let ?si = "\<lparr>si_type = RStruct n fs, si_append = False, si_struct = True, si_pointers = True\<rparr>"
  obtain q as where q: "expand_args (m_dialect m) query args = (q, as)" by fastforce
  obtain r db1 where r: "ex q as db = (r, db1)" by fastforce
  have "rawselect m ex rd (RPtr (RStruct n fs)) dst query args db =
      (case r of Inl e \<Rightarrow> ((([], Some (SqlError e)), dst), db1) | Inr cur \<Rightarrow> (read_cursor m rd ?si cur dst, db1))"
    by (simp add: rawselect_def select_target_def q r split: sum.splits)
  with assms obtain cur where cur: "r = Inr cur" "read_cursor m rd ?si cur dst = ((lst, err), dst')" "db1 = db'"
    by (auto simp: fatal_def NonFatalError_def split: sum.splits)
  with assms obtain cols where cols: "cur_columns cur = Inr cols"
    by (auto simp: read_cursor_def fatal_def NonFatalError_def split: sum.splits)
  obtain s lst1 d where s: "scan_rows (row_reader m rd ?si cols) False (cur_rows cur) (cur_err cur) [] dst = (s, lst1, d)"
    by (metis prod_cases3)
  from scan_rows_list [OF s] obtain vs where vs: "lst1 = vs"
    "list_all2 (\<lambda>row v. row_reader m rd ?si cols row = Inr v) (take (length vs) (cur_rows cur)) vs"
    "s = None \<longleftrightarrow> length vs = length (cur_rows cur) \<and> cur_err cur = None" by auto
  have "s = None"
  proof (rule ccontr)
    assume "s \<noteq> None"
    then obtain e where e: "s = Some e" by auto
    with cur cols s have "err = Some e" by (auto simp: read_cursor_def)
    moreover have "\<not> NonFatalError e" by (rule scan_rows_fatal [OF s [unfolded e]]) (rule row_error_fatal)
    ultimately show False using assms(2) by (simp add: fatal_def)
  qed
  moreover from this cur cols s have "lst = lst1" by (auto simp: read_cursor_def)
  ultimately show ?thesis using q r cur cols vs by auto
qed

text \<open>C29: \<open>SelectOne\<close> into a struct that answers without an error found exactly one row: the query ran, its only row was read,
  the rows did not break off, and the struct is now what the row's scan gave, or, when its pointer has a \<open>PostGet\<close> hook, what the hook, called
  on it once and without an error, made of it.\<close>

theorem select_one_exact:
  assumes "SelectOne m ex rd hooks scan (RPtr (RStruct n fs)) (HoldStruct old) query args db = (Ret (None, h), db')"
  shows "\<exists>q as cur db1 cols row v w. expand_args (m_dialect m) query args = (q, as) \<and> ex q as db = (Inr cur, db1)
    \<and> cur_columns cur = Inr cols \<and> cur_rows cur = [row] \<and> cur_err cur = None \<and> h = HoldStruct (Some w)
    \<and> row_reader m rd \<lparr>si_type = RStruct n fs, si_append = False, si_struct = True, si_pointers = True\<rparr> cols row = Inr v
    \<and> (case hooks (RPtr (RStruct n fs)) of None \<Rightarrow> w = v \<and> db' = db1 | Some f \<Rightarrow> f v db1 = (None, w, db'))"
proof -
  obtain lst err dst' db1 where raw: "rawselect m ex rd (RPtr (RStruct n fs)) None query args db = (((lst, err), dst'), db1)"
    by (metis prod.exhaust)
  have nf: "\<not> fatal err"
    using assms raw by (auto simp: SelectOne_def is_pointer_def hookedselect_def fatal_def split: option.splits if_splits)
  obtain he lst1 db2 where hk: "run_hooks (hooks (RPtr (RStruct n fs))) True lst db1 = (he, lst1, db2)" by (metis prod_cases3)
  have hs: "hookedselect m ex rd hooks (RPtr (RStruct n fs)) None query args db =
      (case he of Some e \<Rightarrow> ((([], Some (PostGetError e)), dst'), db2) | None \<Rightarrow> (((lst1, err), dst'), db2))"
    using raw nf hk by (simp add: hookedselect_def fatal_def split: option.splits)
  then have he: "he = None"
    using assms by (cases he) (auto simp: SelectOne_def is_pointer_def NonFatalError_def split: option.splits)
  with hs assms nf obtain w where w: "lst1 = [w]" "h = HoldStruct (Some w)" "db2 = db'"
    by (auto simp: SelectOne_def is_pointer_def store_struct_def fatal_def split: list.splits option.splits if_splits)
  have "length lst = 1" using run_hooks_length [of "hooks (RPtr (RStruct n fs))" True lst db1] hk w(1) by simp
  then obtain v where v: "lst = [v]" by (auto simp: length_Suc_conv)
  have h: "case hooks (RPtr (RStruct n fs)) of None \<Rightarrow> w = v \<and> db' = db1 | Some f \<Rightarrow> f v db1 = (None, w, db')"
    using hk he v w by (auto split: option.splits prod.splits)
  from rawselect_struct_Some [OF raw nf] obtain q as cur cols where c: "expand_args (m_dialect m) query args = (q, as)"
    "ex q as db = (Inr cur, db1)" "cur_columns cur = Inr cols" "cur_err cur = None"
    "list_all2 (\<lambda>row v. row_reader m rd \<lparr>si_type = RStruct n fs, si_append = False, si_struct = True, si_pointers = True\<rparr> cols row = Inr v)
        (cur_rows cur) lst" by blast
  from c(5) v obtain row where "cur_rows cur = [row]"
    "row_reader m rd \<lparr>si_type = RStruct n fs, si_append = False, si_struct = True, si_pointers = True\<rparr> cols row = Inr v"
    by (auto simp: list_all2_Cons2)
  with c w(2) h show ?thesis by blast
qed

section \<open>Examples\<close>

text \<open>The hooks of a select into a slice run again on the elements that were there before.\<close>

lemma hooks_run_again:
  "run_hooks (Some (\<lambda>e db. (None, e, db @ [e]))) True (old @ new) [] = (None, old @ new, old @ new)"
proof -
  have "run_hooks (Some (\<lambda>e db. (None, e, db @ [e]))) True es db = (None, es, db @ es)" for es db :: "elem list"
    by (induction es arbitrary: db) simp_all
  then show ?thesis by simp
qed

text \<open>A query of two numbers, and a query of one user.\<close>

definition numbers_ex :: "(fvalue, unit) executor" where
  "numbers_ex q as db = (Inr \<lparr>cur_columns = Inr [''n''], cur_rows = [FInt 7, FInt 9], cur_err = None\<rparr>, db)"

definition plain_reader :: "fvalue reader" where
  "plain_reader = \<lparr>rd_scan = \<lambda>row ts. Inr (map (\<lambda>_. row) ts), rd_zero = \<lambda>_. FInt 0, rd_conv = None\<rparr>"

definition user_type :: rtype where
  "user_type = RStruct ''Guest'' [(''Name'', ''name'', ROther ''string'')]"

definition silent_ex :: "(fvalue, unit) executor" where
  "silent_ex q as db = (Inr \<lparr>cur_columns = Inr [''n''], cur_rows = [], cur_err = Some (SqlErr ''bad connection'')\<rparr>, db)"

theorem select_fills_slice_witness:
  "\<exists>err dst' vs. rawselect sample_map numbers_ex plain_reader (RPtr (RSlice (ROther ''int64''))) (Some [EValue (FInt 3)]) ''q'' [] ()
      = ((([], err), dst'), ())
    \<and> elems dst' = [EValue (FInt 3)] @ vs
    \<and> list_all2 (\<lambda>row v. row_reader sample_map plain_reader
          \<lparr>si_type = ROther ''int64'', si_append = True, si_struct = False, si_pointers = False\<rparr> [''n''] row = Inr v)
        (take (length vs) [FInt 7, FInt 9]) vs
    \<and> length vs = 2 \<and> \<not> fatal err"
proof -
  let ?si = "\<lparr>si_type = ROther ''int64'', si_append = True, si_struct = False, si_pointers = False\<rparr>"
  let ?cur = "\<lparr>cur_columns = Inr [''n''], cur_rows = [FInt 7, FInt 9], cur_err = None\<rparr>"
  have r: "\<exists>v. row_reader sample_map plain_reader ?si [''n''] row = Inr v" for row
    by (simp add: row_reader_def scan_row_def row_targets_def plain_reader_def bound_target_def new_elem_def)
  obtain err dst' vs where v: "rawselect sample_map numbers_ex plain_reader (RPtr (RSlice (ROther ''int64''))) (Some [EValue (FInt 3)]) ''q'' [] ()
      = ((([], err), dst'), ())" "elems dst' = [EValue (FInt 3)] @ vs"
    "list_all2 (\<lambda>row v. row_reader sample_map plain_reader ?si [''n''] row = Inr v) (take (length vs) [FInt 7, FInt 9]) vs"
    "if length vs < length [FInt 7, FInt 9]
     then \<exists>e. row_reader sample_map plain_reader ?si [''n''] ([FInt 7, FInt 9] ! length vs) = Inl e \<and> err = Some e \<and> fatal err else \<not> fatal err"
    using select_fills_slice [of "ROther ''int64''" ?si sample_map "''q''" "[]" "''q''" "[]" numbers_ex "()" ?cur "()"
        "[''n'']" plain_reader "Some [EValue (FInt 3)]"]
    by (simp only: select_target_def expand_args_def numbers_ex_def cursor.select_convs option.case) force
  have "\<not> length vs < length [FInt 7, FInt 9]" using v(4) r by (metis sum.distinct(1))
  with list_all2_lengthD [OF v(3)] v(4) have "length vs = 2" "\<not> fatal err" by simp_all
  with v(1-3) show ?thesis by blast
qed

lemma broken_rows_read_as_zero_witness:
  "SelectInt (m_dialect sample_map) silent_ex (\<lambda>row h. (None, h + 1)) ''select n'' [] () = ((0, None), ())"
  by (rule broken_rows_read_as_zero [where q = "''select n''" and as = "[]"
      and cur = "\<lparr>cur_columns = Inr [''n''], cur_rows = [], cur_err = Some (SqlErr ''bad connection'')\<rparr>"])
    (simp_all add: expand_args_def silent_ex_def)

text \<open>A hook that counts its calls and renames the user.\<close>

definition count_hook :: "elem \<Rightarrow> nat \<Rightarrow> string option \<times> elem \<times> nat" where
  "count_hook e n = (None, EStruct [''Name'' \<mapsto> FString ''Al''], n + 1)"

definition count_ex :: "(fvalue, nat) executor" where
  "count_ex q as n = (Inr \<lparr>cur_columns = Inr [''NAME''], cur_rows = [FString ''Bo''], cur_err = None\<rparr>, n)"

lemma select_user:
  "SelectOne sample_map count_ex plain_reader (\<lambda>_. Some count_hook) (\<lambda>row h. (None, h)) (RPtr user_type) (HoldStruct (Some (EStruct Map.empty))) ''q'' [] 0
    = (Ret (None, HoldStruct (Some (EStruct [''Name'' \<mapsto> FString ''Al'']))), 1)"
proof -
  have "field_index sample_map user_type [''NAME''] = ([Some 0], None)" by code_simp
  moreover have "toSliceType (RPtr user_type) = Inr None" "toType (RPtr user_type) = Some user_type"
    by (simp_all add: user_type_def)
  ultimately show ?thesis
    by (simp add: SelectOne_def is_pointer_def hookedselect_def rawselect_def select_target_def expand_args_def count_ex_def count_hook_def
        read_cursor_def row_reader_def scan_row_def row_targets_def plain_reader_def bound_target_def new_elem_def store_struct_def)
      (simp add: user_type_def store_struct_def count_hook_def)
qed

theorem select_one_exact_witness:
  "\<exists>q as cur db1 cols row v. expand_args (m_dialect sample_map) ''q'' [] = (q, as) \<and> count_ex q as 0 = (Inr cur, db1)
    \<and> cur_columns cur = Inr cols \<and> cur_rows cur = [row] \<and> cur_err cur = None
    \<and> row_reader sample_map plain_reader \<lparr>si_type = user_type, si_append = False, si_struct = True, si_pointers = True\<rparr> cols row = Inr v
    \<and> count_hook v db1 = (None, EStruct [''Name'' \<mapsto> FString ''Al''], 1)"
  using select_one_exact [OF select_user [unfolded user_type_def]] unfolding user_type_def by auto

end
