(* ===== verification/UtilParams.thy ===== *)
theory UtilParams
  imports Prelude
begin

text \<open>
  Variadic arguments: \<open>utils/params.go\<close> and the conversions of \<open>utils/type.go\<close> behind it.

  A value of type \<open>interface{}\<close> is an \<open>arg\<close>; pointers, slices and maps are \<open>None\<close> when they are nil. A Go map is listed in the order in
  which the loop meets its keys. A floating-point number is its text, with the conversions \<open>float_ops\<close>; \<open>js\<close> is the JSON encoder, with
  its flag for indenting, for values other than booleans and nil. Offsets are not negative.
\<close>

section \<open>Values\<close>

datatype arg =
    ANil
  | AStr string
  | APStr "string option"
  | AInt int
  | APInt "int option"
  | AI64 int
  | API64 "int option"
  | AFloat string
  | APFloat "string option"
  | ABool bool
  | ANumber string
  | ABytes "string option"
  | AArr "arg list option"
  | AStrs "string list option"
  | AInts "int list option"
  | AI64s "int list option"
  | AMap "(string \<times> arg) list option"
  | AStrMap "(string \<times> string) list option"
  | AOther bool nat

record float_ops =
  fo_text :: "string \<Rightarrow> string"
  fo_int :: "string \<Rightarrow> int"
  fo_of_int :: "int \<Rightarrow> string"
  fo_parse :: "string \<Rightarrow> string"

text \<open>\<open>reflect.ValueOf(v).IsNil()\<close>, for the kinds that have it; \<open>AOther True\<close> is a nil pointer of another type.\<close>

fun nil_arg :: "arg \<Rightarrow> bool" where
  "nil_arg (APStr p) \<longleftrightarrow> p = None"
| "nil_arg (APInt p) \<longleftrightarrow> p = None"
| "nil_arg (API64 p) \<longleftrightarrow> p = None"
| "nil_arg (APFloat p) \<longleftrightarrow> p = None"
| "nil_arg (ABytes p) \<longleftrightarrow> p = None"
| "nil_arg (AArr p) \<longleftrightarrow> p = None"
| "nil_arg (AStrs p) \<longleftrightarrow> p = None"
| "nil_arg (AInts p) \<longleftrightarrow> p = None"
| "nil_arg (AI64s p) \<longleftrightarrow> p = None"
| "nil_arg (AMap p) \<longleftrightarrow> p = None"
| "nil_arg (AStrMap p) \<longleftrightarrow> p = None"
| "nil_arg (AOther b n) \<longleftrightarrow> b"
| "nil_arg v \<longleftrightarrow> False"

section \<open>Parameters\<close>

record Params =
  origin :: "arg list"
  named :: "string \<rightharpoonup> arg"

definition put_named :: "string \<Rightarrow> arg \<Rightarrow> (string \<rightharpoonup> arg) \<Rightarrow> string \<rightharpoonup> arg" where
  "put_named k v m = (if nil_arg v then m else m(to_lower k \<mapsto> v))"

fun put_pairs :: "arg list \<Rightarrow> (string \<rightharpoonup> arg) \<Rightarrow> string \<rightharpoonup> arg" where
  "put_pairs (k # v # vs) m =
     put_pairs vs (case k of AStr name \<Rightarrow> if name \<noteq> [] then put_named name v m else m | _ \<Rightarrow> m)"
| "put_pairs _ m = m"

definition Params_Parse :: "arg list \<Rightarrow> string \<rightharpoonup> arg" where
  "Params_Parse vs =
     (if 1 \<le> length vs \<and> length vs mod 2 = 0
      then put_pairs vs (case hd vs of AMap (Some kvs) \<Rightarrow> fold (\<lambda>(k, v). put_named k v) kvs Map.empty | _ \<Rightarrow> Map.empty)
      else Map.empty)"

definition NewParams :: "arg list \<Rightarrow> Params" where
  "NewParams vs = \<lparr>origin = vs, named = Params_Parse vs\<rparr>"

definition Remains :: "nat \<Rightarrow> Params \<Rightarrow> arg list" where
  "Remains off p = (if length (origin p) \<le> off + 1 then [] else drop (off + 1) (origin p))"

definition Shift :: "Params \<Rightarrow> Params" where
  "Shift p = (if 0 < length (origin p) then NewParams (tl (origin p)) else p)"

definition Itf :: "string \<Rightarrow> Params \<Rightarrow> arg" where
  "Itf key p = (case named p (to_lower key) of Some v \<Rightarrow> v | None \<Rightarrow> ANil)"

definition ItfByIndex :: "nat \<Rightarrow> Params \<Rightarrow> arg" where
  "ItfByIndex off p = (if off < length (origin p) then origin p ! off else ANil)"

section \<open>Conversions\<close>

text \<open>\<open>MustBool\<close> takes a value and a default.\<close>

definition MustBool :: "arg list \<Rightarrow> bool" where
  "MustBool opts =
     (let p = NewParams opts
      in case ItfByIndex 0 p of
           ABool b \<Rightarrow> b
         | _ \<Rightarrow> (case ItfByIndex 1 p of ABool d \<Rightarrow> d | _ \<Rightarrow> False))"

definition yes_text :: "string \<Rightarrow> bool" where
  "yes_text s \<longleftrightarrow> to_lower s = ''yes'' \<or> to_lower s = ''true''"

definition BoolByIndex :: "nat \<Rightarrow> bool list \<Rightarrow> Params \<Rightarrow> bool" where
  "BoolByIndex off opts p =
     (let d = (if length opts = 1 then hd opts else False);
          iv = ItfByIndex off p;
          rt = MustBool [iv, ABool d]
      in if \<not> rt \<and> \<not> d then (case iv of AStr s \<Rightarrow> yes_text s | _ \<Rightarrow> d) else rt)"

text \<open>The encoding of a value by \<open>json.Marshal\<close> or \<open>json.MarshalIndent\<close>.\<close>

definition json_text :: "(bool \<Rightarrow> arg \<Rightarrow> string) \<Rightarrow> bool \<Rightarrow> arg \<Rightarrow> string" where
  "json_text js pretty v =
     (if nil_arg v then ''null''
      else case v of ABool b \<Rightarrow> if b then ''true'' else ''false'' | _ \<Rightarrow> js pretty v)"

definition MustString :: "float_ops \<Rightarrow> (bool \<Rightarrow> arg \<Rightarrow> string) \<Rightarrow> arg \<Rightarrow> arg list \<Rightarrow> string" where
  "MustString fo js v opts =
     (let pretty = BoolByIndex 0 [] (NewParams opts)
      in case v of
           ANil \<Rightarrow> []
         | AStr s \<Rightarrow> s
         | APStr p \<Rightarrow> (case p of Some s \<Rightarrow> s | None \<Rightarrow> [])
         | APInt p \<Rightarrow> (case p of Some i \<Rightarrow> itoa i | None \<Rightarrow> [])
         | AInt i \<Rightarrow> itoa i
         | API64 p \<Rightarrow> (case p of Some i \<Rightarrow> itoa i | None \<Rightarrow> [])
         | AI64 i \<Rightarrow> itoa i
         | AFloat x \<Rightarrow> fo_text fo x
         | APFloat p \<Rightarrow> (case p of Some x \<Rightarrow> fo_text fo x | None \<Rightarrow> [])
         | ANumber s \<Rightarrow> s
         | ABytes p \<Rightarrow> (case p of Some s \<Rightarrow> s | None \<Rightarrow> [])
         | _ \<Rightarrow> json_text js pretty v)"

fun MustInt64 :: "float_ops \<Rightarrow> arg \<Rightarrow> int" where
  "MustInt64 fo (AStr s) = atoi_value s"
| "MustInt64 fo (APStr (Some s)) = atoi_value s"
| "MustInt64 fo (AInt i) = i"
| "MustInt64 fo (APInt (Some i)) = i"
| "MustInt64 fo (AI64 i) = i"
| "MustInt64 fo (API64 (Some i)) = i"
| "MustInt64 fo (AFloat x) = fo_int fo x"
| "MustInt64 fo (APFloat (Some x)) = fo_int fo x"
| "MustInt64 fo (ANumber s) = atoi_value s"
| "MustInt64 fo v = 0"

fun MustInt :: "float_ops \<Rightarrow> arg \<Rightarrow> int" where
  "MustInt fo (AStr s) = atoi_value s"
| "MustInt fo (APStr (Some s)) = atoi_value s"
| "MustInt fo (APInt (Some i)) = i"
| "MustInt fo (AInt i) = i"
| "MustInt fo (API64 (Some i)) = wrap64 i"
| "MustInt fo (AI64 i) = wrap64 i"
| "MustInt fo (AFloat x) = fo_int fo x"
| "MustInt fo (APFloat (Some x)) = fo_int fo x"
| "MustInt fo (ANumber s) = wrap64 (atoi_value s)"
| "MustInt fo v = 0"

fun MustFloat64 :: "float_ops \<Rightarrow> arg \<Rightarrow> string" where
  "MustFloat64 fo (AStr s) = fo_parse fo s"
| "MustFloat64 fo (APStr (Some s)) = fo_parse fo s"
| "MustFloat64 fo (APInt (Some i)) = fo_of_int fo i"
| "MustFloat64 fo (AInt i) = fo_of_int fo i"
| "MustFloat64 fo (API64 (Some i)) = fo_of_int fo i"
| "MustFloat64 fo (AI64 i) = fo_of_int fo i"
| "MustFloat64 fo (AFloat x) = x"
| "MustFloat64 fo (APFloat (Some x)) = x"
| "MustFloat64 fo (ANumber s) = fo_parse fo s"
| "MustFloat64 fo v = fo_of_int fo 0"

fun MustArray :: "arg \<Rightarrow> arg list option" where
  "MustArray (AArr vs) = vs"
| "MustArray (AStrs ss) = Some (map AStr (case ss of Some l \<Rightarrow> l | None \<Rightarrow> []))"
| "MustArray (AInts is) = Some (map AInt (case is of Some l \<Rightarrow> l | None \<Rightarrow> []))"
| "MustArray (AI64s is) = Some (map AI64 (case is of Some l \<Rightarrow> l | None \<Rightarrow> []))"
| "MustArray v = None"

fun MustStringMapString :: "arg \<Rightarrow> (string \<times> string) list option" where
  "MustStringMapString (AStrMap m) = m"
| "MustStringMapString v = None"

fun MustStringMap :: "arg \<Rightarrow> (string \<times> arg) list option" where
  "MustStringMap (AMap m) = m"
| "MustStringMap v = None"

definition Numberic :: "float_ops \<Rightarrow> arg \<Rightarrow> bool" where
  "Numberic fo v \<longleftrightarrow> 0 < MustInt64 fo v \<or> v = AStr ''0''"

section \<open>Reading parameters\<close>

definition String_key :: "float_ops \<Rightarrow> (bool \<Rightarrow> arg \<Rightarrow> string) \<Rightarrow> string \<Rightarrow> Params \<Rightarrow> string" where
  "String_key fo js key p = MustString fo js (Itf key p) []"

definition Int64_key :: "float_ops \<Rightarrow> string \<Rightarrow> Params \<Rightarrow> int" where
  "Int64_key fo key p = MustInt64 fo (Itf key p)"

definition Bool_key :: "float_ops \<Rightarrow> (bool \<Rightarrow> arg \<Rightarrow> string) \<Rightarrow> string \<Rightarrow> bool list \<Rightarrow> Params \<Rightarrow> bool" where
  "Bool_key fo js key opts p =
     (let d = (if length opts = 1 then hd opts else False);
          iv = Itf key p;
          rt = MustBool [iv, ABool d]
      in if \<not> rt \<and> \<not> d then yes_text (MustString fo js iv []) else rt)"

definition Array_key :: "string \<Rightarrow> Params \<Rightarrow> arg list option" where
  "Array_key key p = (if Itf key p \<noteq> ANil then MustArray (Itf key p) else None)"

definition StringMap_key :: "string \<Rightarrow> Params \<Rightarrow> (string \<times> arg) list option" where
  "StringMap_key key p = (if Itf key p \<noteq> ANil then MustStringMap (Itf key p) else None)"

definition StringMapString_key :: "string \<Rightarrow> Params \<Rightarrow> (string \<times> string) list option" where
  "StringMapString_key key p = (if Itf key p \<noteq> ANil then MustStringMapString (Itf key p) else None)"

definition StringByIndex :: "float_ops \<Rightarrow> (bool \<Rightarrow> arg \<Rightarrow> string) \<Rightarrow> nat \<Rightarrow> Params \<Rightarrow> string" where
  "StringByIndex fo js off p = MustString fo js (ItfByIndex off p) []"

definition Int64ByIndex :: "float_ops \<Rightarrow> nat \<Rightarrow> Params \<Rightarrow> int" where
  "Int64ByIndex fo off p = MustInt64 fo (ItfByIndex off p)"

definition Int64PointerByIndex :: "float_ops \<Rightarrow> nat \<Rightarrow> Params \<Rightarrow> int option" where
  "Int64PointerByIndex fo off p = (if ItfByIndex off p \<noteq> ANil then Some (MustInt64 fo (ItfByIndex off p)) else None)"

definition IntByIndex :: "float_ops \<Rightarrow> nat \<Rightarrow> Params \<Rightarrow> int" where
  "IntByIndex fo off p = MustInt fo (ItfByIndex off p)"

definition IntPointerByIndex :: "float_ops \<Rightarrow> nat \<Rightarrow> Params \<Rightarrow> int option" where
  "IntPointerByIndex fo off p = (if ItfByIndex off p \<noteq> ANil then Some (wrap64 (MustInt64 fo (ItfByIndex off p))) else None)"

definition ArrayByIndex :: "nat \<Rightarrow> Params \<Rightarrow> arg list option" where
  "ArrayByIndex off p = (if ItfByIndex off p \<noteq> ANil then MustArray (ItfByIndex off p) else None)"

definition StringMapByIndex :: "nat \<Rightarrow> Params \<Rightarrow> (string \<times> arg) list option" where
  "StringMapByIndex off p = (if ItfByIndex off p \<noteq> ANil then MustStringMap (ItfByIndex off p) else None)"

definition StringMapStringByIndex :: "nat \<Rightarrow> Params \<Rightarrow> (string \<times> string) list option" where
  "StringMapStringByIndex off p = (if ItfByIndex off p \<noteq> ANil then MustStringMapString (ItfByIndex off p) else None)"

text \<open>The only parameter, and the last of several.\<close>

definition PrimaryInt64 :: "float_ops \<Rightarrow> Params \<Rightarrow> int" where
  "PrimaryInt64 fo p = (if length (origin p) = 1 then Int64ByIndex fo 0 p else 0)"

definition PrimaryInt :: "float_ops \<Rightarrow> Params \<Rightarrow> int" where
  "PrimaryInt fo p = (if length (origin p) = 1 then IntByIndex fo 0 p else 0)"

definition PrimaryString :: "float_ops \<Rightarrow> (bool \<Rightarrow> arg \<Rightarrow> string) \<Rightarrow> Params \<Rightarrow> string" where
  "PrimaryString fo js p = (if length (origin p) = 1 then StringByIndex fo js 0 p else [])"

definition PrimaryInterface :: "Params \<Rightarrow> arg" where
  "PrimaryInterface p = (if length (origin p) = 1 then ItfByIndex 0 p else ANil)"

definition LastInt64 :: "float_ops \<Rightarrow> Params \<Rightarrow> int" where
  "LastInt64 fo p = (if 1 < length (origin p) then Int64ByIndex fo (length (origin p) - 1) p else 0)"

definition LastInt :: "float_ops \<Rightarrow> Params \<Rightarrow> int" where
  "LastInt fo p = (if 1 < length (origin p) then IntByIndex fo (length (origin p) - 1) p else 0)"

definition LastString :: "float_ops \<Rightarrow> (bool \<Rightarrow> arg \<Rightarrow> string) \<Rightarrow> Params \<Rightarrow> string" where
  "LastString fo js p = (if 1 < length (origin p) then StringByIndex fo js (length (origin p) - 1) p else [])"

definition LastInterface :: "Params \<Rightarrow> arg" where
  "LastInterface p = (if 1 < length (origin p) then ItfByIndex (length (origin p) - 1) p else ANil)"

definition LastBool :: "bool \<Rightarrow> Params \<Rightarrow> bool" where
  "LastBool d p = (if 1 < length (origin p) then BoolByIndex (length (origin p) - 1) [d] p else d)"

text \<open>\<open>Destructuring\<close> replaces the values of the keys that are given, and fails when none is.\<close>

definition Destructuring :: "(string \<times> arg) list \<Rightarrow> Params \<Rightarrow> (string \<times> arg) list \<times> bool" where
  "Destructuring mp p =
     (map (\<lambda>(k, v). (k, case named p (to_lower k) of Some w \<Rightarrow> w | None \<Rightarrow> v)) mp,
      \<exists>(k, v) \<in> set mp. named p (to_lower k) \<noteq> None)"

section \<open>Named parameters\<close>

fun pairs_of :: "(string \<times> arg) list \<Rightarrow> arg list" where
  "pairs_of [] = []"
| "pairs_of ((k, v) # kvs) = AStr k # v # pairs_of kvs"

lemma length_pairs_of [simp]: "length (pairs_of kvs) = 2 * length kvs"
  by (induction kvs rule: pairs_of.induct) simp_all

text \<open>The value of a name, when the pairs of a call are read as a specification does: the last one with that name, in any
  case, that is not nil.\<close>

definition named_value :: "(string \<times> arg) list \<Rightarrow> string \<Rightarrow> arg" where
  "named_value kvs key =
     (case filter (\<lambda>(k, v). to_lower k = to_lower key \<and> k \<noteq> [] \<and> \<not> nil_arg v) kvs of [] \<Rightarrow> ANil | l \<Rightarrow> snd (last l))"

lemma put_pairs_of:
  "put_pairs (pairs_of kvs) m x =
     (case filter (\<lambda>(k, v). to_lower k = x \<and> k \<noteq> [] \<and> \<not> nil_arg v) kvs of [] \<Rightarrow> m x | l \<Rightarrow> Some (snd (last l)))"
proof (induction kvs arbitrary: m)
  case (Cons kv kvs)
  obtain k v where kv: "kv = (k, v)" by (cases kv)
  let ?l = "filter (\<lambda>(k, v). to_lower k = x \<and> k \<noteq> [] \<and> \<not> nil_arg v) kvs"
  show ?case
    by (cases "to_lower k = x"; cases ?l) (auto simp: kv Cons.IH put_named_def)
qed simp

lemma Params_Parse_pairs_of: "Params_Parse (pairs_of kvs) = put_pairs (pairs_of kvs) Map.empty"
  by (cases kvs rule: pairs_of.cases) (simp_all add: Params_Parse_def fun_eq_iff)

lemma nil_arg_ANil [simp]: "\<not> nil_arg ANil"
  by simp

text \<open>Named parameters. When a call gives its parameters as pairs of a name and a value, looking a name up gives the last value
  of that name, in any case, that is not nil; a value without a name is never found.\<close>

lemma named_parameters: "Itf key (NewParams (pairs_of kvs)) = named_value kvs key"
  by (simp add: Itf_def NewParams_def Params_Parse_pairs_of put_pairs_of named_value_def split: list.split)

text \<open>A map alone is one parameter, an odd number, so its entries are not found. The comments of \<open>Interface\<close>, \<open>String\<close> and the
  others say that they are for a call with one map.\<close>

lemma lone_map_ignored: "Itf key (NewParams [AMap m]) = ANil"
  by (simp add: Itf_def NewParams_def Params_Parse_def)

lemma map_in_pair: "to_lower key = key \<Longrightarrow> \<not> nil_arg v \<Longrightarrow> Itf key (NewParams [AMap (Some [(key, v)]), x]) = v"
  by (simp add: Itf_def NewParams_def Params_Parse_def put_named_def)

lemma MustBool_pair: "MustBool [iv, ABool d] = (case iv of ABool b \<Rightarrow> b | _ \<Rightarrow> d)"
  by (simp add: MustBool_def NewParams_def ItfByIndex_def split: arg.split)

text \<open>What a boolean parameter with a default means. With the default true, only the boolean false is false (the texts false and no
  are true); with the default false, only the boolean true and the texts yes and true, in any case, are true.\<close>

lemma boolean_parameter:
  "(BoolByIndex off [True] p \<longleftrightarrow> ItfByIndex off p \<noteq> ABool False) \<and>
   (BoolByIndex off [False] p \<longleftrightarrow> ItfByIndex off p = ABool True \<or> (\<exists>s. ItfByIndex off p = AStr s \<and> yes_text s))"
  by (auto simp: BoolByIndex_def MustBool_pair Let_def split: arg.splits)

lemma BoolByIndex_default: "BoolByIndex off [] p = BoolByIndex off [False] p"
  by (simp add: BoolByIndex_def)

text \<open>A key with the boolean true, or any spelling of its JSON text, is true.\<close>

lemma Bool_key_true: "Bool_key fo js key opts p" if "Itf key p = ABool True"
  using that by (simp add: Bool_key_def MustBool_pair Let_def)

section \<open>Integers\<close>

text \<open>On a 64-bit machine the two conversions agree on every value whose integers fit.\<close>

fun fits64 :: "arg \<Rightarrow> bool" where
  "fits64 (AI64 i) \<longleftrightarrow> - (2 ^ 63) \<le> i \<and> i < 2 ^ 63"
| "fits64 (API64 (Some i)) \<longleftrightarrow> - (2 ^ 63) \<le> i \<and> i < 2 ^ 63"
| "fits64 (AInt i) \<longleftrightarrow> - (2 ^ 63) \<le> i \<and> i < 2 ^ 63"
| "fits64 (APInt (Some i)) \<longleftrightarrow> - (2 ^ 63) \<le> i \<and> i < 2 ^ 63"
| "fits64 v \<longleftrightarrow> True"

lemma MustInt_MustInt64: "fits64 v \<Longrightarrow> MustInt fo v = MustInt64 fo v"
  using atoi_value_range by (cases "(fo, v)" rule: MustInt.cases) (auto simp: wrap64_id)

text \<open>An integer read back. The text of an integer parameter (an int, an int64 or a pointer to one) is read back as the same
  integer by \<open>MustInt\<close> and \<open>MustInt64\<close>.\<close>

lemma int_text_roundtrip:
  assumes "- (2 ^ 63) \<le> i" "i < 2 ^ 63" "v \<in> {AInt i, AI64 i, APInt (Some i), API64 (Some i)}"
  shows "MustInt64 fo (AStr (MustString fo js v opts)) = i \<and> MustInt fo (AStr (MustString fo js v opts)) = i"
  using assms by (auto simp: MustString_def Let_def atoi_value_itoa)

lemma int_text_roundtrip_witness:
  "MustInt64 fo (AStr (MustString fo js (APInt (Some (- 42))) [])) = - 42"
  using int_text_roundtrip [of "- 42" "APInt (Some (- 42))"] by simp

end
