(* ===== verification/UtilStruct.thy ===== *)
theory UtilStruct
  imports RestCond UtilParams
begin

text \<open>
  The readers of struct types of \<open>utils/struct.go\<close>: fields with their tags, prefixes and indices (\<open>ReadStructFields\<close>), the columns of a
  struct (\<open>ReadStructColumns\<close>), and what is read through them.

  A struct type is the list of its fields, not recursive (the code does not return for a recursive one). The index of a field
  is a Go slice, built by \<open>append\<close> from the index of the struct it is in; arrays live in a store, and a slice is an array with a length. An
  array that is full doubles, as the runtime does for short slices.
\<close>

section \<open>Types, fields and slices\<close>

datatype stype = TBase string | TStruct string "sfld list" | TPtr stype | TSlice stype
and sfld = SFld string "(string \<times> string) list" bool stype

type_synonym slice = "nat \<times> nat"
type_synonym arrays = "nat list list"

datatype 'i fld = Fld (fld_name: string) (fld_type: stype) (fld_index: 'i) (fld_path: string)
  (fld_tags: "(string \<times> string \<times> string) list") (fld_subs: "'i fld list")

definition grow :: "nat \<Rightarrow> nat" where
  "grow c = (if c = 0 then 1 else 2 * c)"

definition append_slice :: "slice \<Rightarrow> nat \<Rightarrow> arrays \<Rightarrow> slice \<times> arrays" where
  "append_slice s x h =
     (case s of (a, l) \<Rightarrow>
        if l < length (h ! a) then ((a, l + 1), h[a := (h ! a)[l := x]])
        else ((length h, l + 1), h @ [take l (h ! a) @ [x] @ replicate (grow (length (h ! a)) - (l + 1)) 0]))"

definition read_slice :: "arrays \<Rightarrow> slice \<Rightarrow> nat list" where
  "read_slice h s = take (snd s) (h ! fst s)"

section \<open>Names\<close>

definition upper_ch :: "char \<Rightarrow> bool" where
  "upper_ch c \<longleftrightarrow> 65 \<le> (of_char c :: nat) \<and> (of_char c :: nat) \<le> 90"

definition lower_ch :: "char \<Rightarrow> bool" where
  "lower_ch c \<longleftrightarrow> 97 \<le> (of_char c :: nat) \<and> (of_char c :: nat) \<le> 122"

text \<open>The first pattern of \<open>Underscore\<close>, \<open>([A-Z]+)([A-Z][a-z])\<close>, from the left: it matches a longest run of at least two
  capitals that a small letter follows. The second one is \<open>([a-z\d])([A-Z])\<close>.\<close>

function split_runs :: "string \<Rightarrow> string" where
  "split_runs [] = []"
| "split_runs (c # s) =
     (let run = takeWhile upper_ch (c # s); rest = dropWhile upper_ch (c # s)
      in if run = [] then c # split_runs s
         else if 2 \<le> length run \<and> rest \<noteq> [] \<and> lower_ch (hd rest)
         then butlast run @ ''_'' @ [last run, hd rest] @ split_runs (tl rest)
         else run @ split_runs rest)"
  by pat_completeness auto
termination
proof (relation "measure length")
  have "length (dropWhile upper_ch s) \<le> length s" for s by (rule length_dropWhile_le)
  then show "run = takeWhile upper_ch (c # s) \<Longrightarrow> rest = dropWhile upper_ch (c # s) \<Longrightarrow> run \<noteq> [] \<Longrightarrow>
      2 \<le> length run \<and> rest \<noteq> [] \<and> lower_ch (hd rest) \<Longrightarrow> (tl rest, c # s) \<in> measure length" for run rest c s
    by (auto simp: le_imp_less_Suc le_diff_conv split: if_splits) (meson diff_le_self le_trans less_Suc_eq_le)+
  show "run = takeWhile upper_ch (c # s) \<Longrightarrow> rest = dropWhile upper_ch (c # s) \<Longrightarrow> run \<noteq> [] \<Longrightarrow>
      \<not> (2 \<le> length run \<and> rest \<noteq> [] \<and> lower_ch (hd rest)) \<Longrightarrow> (rest, c # s) \<in> measure length" for run rest c s
    using length_dropWhile_le [of upper_ch s] by (auto simp: le_imp_less_Suc split: if_splits)
qed auto

fun split_humps :: "string \<Rightarrow> string" where
  "split_humps (c # d # s) =
     (if (lower_ch c \<or> is_digit c) \<and> upper_ch d then [c] @ ''_'' @ [d] @ split_humps s else c # split_humps (d # s))"
| "split_humps s = s"

definition Underscore :: "string \<Rightarrow> string" where
  "Underscore w = to_lower (split_humps (split_runs w))"

section \<open>Reading the fields of a type\<close>

definition tag_get :: "(string \<times> string) list \<Rightarrow> string \<Rightarrow> string" where
  "tag_get tgs key = (case map_of tgs key of Some s \<Rightarrow> s | None \<Rightarrow> [])"

text \<open>The prefix of the names of a field, and the prefix of the fields below it.\<close>

definition field_prefixes :: "string \<Rightarrow> (string \<times> string) list \<Rightarrow> string \<times> string" where
  "field_prefixes pre tgs =
     (let pfs = tag_get tgs ''prefix''
      in if pfs = [] then (pre, [])
         else case ParseTag pfs of (p, po) \<Rightarrow> if Contains po ''skip'' then ([], []) else (pre, pre @ p))"

definition tag_entry :: "bool \<Rightarrow> string \<Rightarrow> string \<Rightarrow> (string \<times> string) list \<Rightarrow> string \<Rightarrow> string \<times> string" where
  "tag_entry dflt pf name tgs key =
     (let s = tag_get tgs key
      in if s \<noteq> [] then
           (case ParseTag s of (tn, ops) \<Rightarrow>
              (if key = ''json'' \<and> tn \<noteq> [] then tn
               else if tn = [] \<and> dflt then pf @ Underscore name
               else pf @ tn, ops))
         else if dflt then (pf @ Underscore name, [])
         else ([], []))"

definition field_tags :: "bool \<Rightarrow> string \<Rightarrow> string list \<Rightarrow> string \<Rightarrow> (string \<times> string) list \<Rightarrow> (string \<times> string \<times> string) list" where
  "field_tags dflt pf tags name tgs = map (\<lambda>key. (key, tag_entry dflt pf name tgs key)) tags"

definition struct_of :: "stype \<Rightarrow> sfld list option" where
  "struct_of t = (case t of TStruct n fs \<Rightarrow> if n \<noteq> ''time.Time'' then Some fs else None | _ \<Rightarrow> None)"

definition sub_struct :: "stype \<Rightarrow> sfld list option" where
  "sub_struct t =
     (case t of
        TPtr e \<Rightarrow> struct_of e
      | TStruct n fs \<Rightarrow> struct_of t
      | TSlice e \<Rightarrow> (case e of TPtr e' \<Rightarrow> struct_of e' | _ \<Rightarrow> struct_of e)
      | _ \<Rightarrow> None)"

text \<open>The fields below a field: for an embedded struct they take its place, otherwise they are its \<open>SubFields\<close>.\<close>

definition below_field :: "bool \<Rightarrow> stype \<Rightarrow> bool \<times> sfld list" where
  "below_field anon t =
     (case t of TStruct n fs \<Rightarrow> if anon then (True, fs) else (False, case sub_struct t of Some fs \<Rightarrow> fs | None \<Rightarrow> [])
      | _ \<Rightarrow> (False, case sub_struct t of Some fs \<Rightarrow> fs | None \<Rightarrow> []))"

lemma struct_of_size: "struct_of t = Some fs \<Longrightarrow> size_list size fs < size t"
  by (cases t) (auto simp: struct_of_def split: if_splits)

lemma below_size: "size_list size (snd (below_field anon t)) \<le> size t"
proof -
  have "size_list size fs < size t" if "sub_struct t = Some fs" for fs
    using that by (auto simp: sub_struct_def dest!: struct_of_size split: stype.splits)
  then show ?thesis by (auto simp: below_field_def less_imp_le split: stype.splits option.splits)
qed

text \<open>The index is appended to before a field that is not exported is passed over.\<close>

function read_type :: "bool \<Rightarrow> string list \<Rightarrow> slice \<Rightarrow> string \<Rightarrow> nat \<Rightarrow> sfld list \<Rightarrow> arrays \<Rightarrow> slice fld list \<times> arrays" where
  "read_type dflt tags idx pre i [] h = ([], h)"
| "read_type dflt tags idx pre i (SFld name tgs anon ty # fs) h =
     (case append_slice idx i h of (index, h1) \<Rightarrow>
        if \<not> upper_ch (hd name) then read_type dflt tags idx pre (i + 1) fs h1
        else
          (case read_type dflt tags index (snd (field_prefixes pre tgs)) 0 (snd (below_field anon ty)) h1 of (subs, h2) \<Rightarrow>
           case read_type dflt tags idx pre (i + 1) fs h2 of (rest, h3) \<Rightarrow>
             (if fst (below_field anon ty) then subs @ rest
              else Fld name ty index [] (field_tags dflt (fst (field_prefixes pre tgs)) tags name tgs) subs # rest, h3)))"
  by pat_completeness auto
termination
  by (relation "measure (\<lambda>(dflt, tags, idx, pre, i, fs, h). size_list size fs)")
    (auto simp: le_imp_less_Suc [OF le_trans [OF below_size]])

declare read_type.simps [simp del]

definition typeStructFields :: "bool \<Rightarrow> string list \<Rightarrow> sfld list \<Rightarrow> slice fld list \<times> arrays" where
  "typeStructFields dflt tags fs = read_type dflt tags (0, 0) [] 0 fs [[]]"

text \<open>The fields as a caller sees them: the content of every index when the reading is over.\<close>

fun ToType :: "stype \<Rightarrow> stype" where
  "ToType (TPtr t) = ToType t"
| "ToType t = t"

definition ReadStructFields :: "stype \<Rightarrow> bool \<Rightarrow> string list \<Rightarrow> nat list fld list" where
  "ReadStructFields t dflt tags =
     (case ToType t of
        TStruct n fs \<Rightarrow> (case typeStructFields dflt tags fs of (res, h) \<Rightarrow> map (map_fld (read_slice h)) res)
      | _ \<Rightarrow> [])"

text \<open>The specification: an index is the path of the field.\<close>

function field_paths :: "bool \<Rightarrow> string list \<Rightarrow> nat list \<Rightarrow> string \<Rightarrow> nat \<Rightarrow> sfld list \<Rightarrow> nat list fld list" where
  "field_paths dflt tags idx pre i [] = []"
| "field_paths dflt tags idx pre i (SFld name tgs anon ty # fs) =
     (if \<not> upper_ch (hd name) then field_paths dflt tags idx pre (i + 1) fs
      else
        (let subs = field_paths dflt tags (idx @ [i]) (snd (field_prefixes pre tgs)) 0 (snd (below_field anon ty));
             rest = field_paths dflt tags idx pre (i + 1) fs
         in if fst (below_field anon ty) then subs @ rest
            else Fld name ty (idx @ [i]) [] (field_tags dflt (fst (field_prefixes pre tgs)) tags name tgs) subs # rest))"
  by pat_completeness auto
termination
  by (relation "measure (\<lambda>(dflt, tags, idx, pre, i, fs). size_list size fs)")
    (auto simp: le_imp_less_Suc [OF le_trans [OF below_size]])

declare field_paths.simps [simp del]

text \<open>How deep the structs of a type are nested.\<close>

function nesting :: "sfld list \<Rightarrow> nat" where
  "nesting [] = 0"
| "nesting (SFld name tgs anon ty # fs) = max (Suc (nesting (snd (below_field anon ty)))) (nesting fs)"
  by pat_completeness auto
termination
  by (relation "measure (size_list size)") (auto simp: le_imp_less_Suc [OF le_trans [OF below_size]])

section \<open>Up to three levels every index is right\<close>

lemma nesting_0: "nesting fs = 0 \<Longrightarrow> fs = []"
  by (cases fs rule: nesting.cases) simp_all

lemma append_full:
  assumes "fst s < length h" "length (h ! fst s) = snd s"
  shows "append_slice s x h
    = ((length h, snd s + 1), h @ [(h ! fst s) @ [x] @ replicate (grow (snd s) - (snd s + 1)) 0])"
  using assms by (cases s) (simp add: append_slice_def)

lemma read_slice_new: "read_slice (h @ [xs @ [x] @ ys] @ zs) (length h, length xs + 1) = xs @ [x]"
  by (simp add: read_slice_def nth_append)

text \<open>A reading from a full slice writes only to new arrays, and the indices it gives stay what they are.\<close>

lemma read_type_paths:
  assumes "fst idx < length h" "length (h ! fst idx) = snd idx" "fs = [] \<or> snd idx + nesting fs \<le> 3"
  shows "\<exists>ys. snd (read_type dflt tags idx pre i fs h) = h @ ys \<and>
    (\<forall>zs. map (map_fld (read_slice (h @ ys @ zs))) (fst (read_type dflt tags idx pre i fs h))
      = field_paths dflt tags (h ! fst idx) pre i fs)"
  using assms
proof (induction dflt tags idx pre i fs h rule: read_type.induct)
  case (1 dflt tags idx pre i h)
  then show ?case by (simp add: read_type.simps field_paths.simps)
next
  case (2 dflt tags idx pre i name tgs anon ty fs h)
  let ?new = "(h ! fst idx) @ [i] @ replicate (grow (snd idx) - (snd idx + 1)) 0"
  let ?index = "(length h, snd idx + 1)" and ?h1 = "h @ [?new]"
  have a: "append_slice idx i h = (?index, ?h1)" by (rule append_full [OF 2(4,5)])
  have same: "?h1 ! fst idx = h ! fst idx" using 2(4) by (simp add: nth_append)
  have fits: "fs = [] \<or> snd idx + nesting fs \<le> 3" "snd idx + Suc (nesting (snd (below_field anon ty))) \<le> 3"
    using 2(6) by (auto simp: max_def split: if_splits)
  show ?case
  proof (cases "upper_ch (hd name)")
    case False
    obtain ys where "snd (read_type dflt tags idx pre (i + 1) fs ?h1) = ?h1 @ ys"
      "\<forall>zs. map (map_fld (read_slice (?h1 @ ys @ zs))) (fst (read_type dflt tags idx pre (i + 1) fs ?h1))
        = field_paths dflt tags (?h1 ! fst idx) pre (i + 1) fs"
      using 2(1) [OF a [symmetric] False] 2(4,5) fits(1) same by auto
    then show ?thesis using False a same
      by (intro exI [of _ "[?new] @ ys"]) (simp add: read_type.simps field_paths.simps)
  next
    case True
    let ?sub = "snd (below_field anon ty)" and ?npf = "snd (field_prefixes pre tgs)"
    let ?r = "read_type dflt tags ?index ?npf 0 ?sub ?h1"
    have "\<exists>ys. snd ?r = ?h1 @ ys \<and>
        (\<forall>zs. map (map_fld (read_slice (?h1 @ ys @ zs))) (fst ?r) = field_paths dflt tags ((h ! fst idx) @ [i]) ?npf 0 ?sub)"
    proof (cases "?sub = []")
      case True
      then show ?thesis by (simp add: read_type.simps field_paths.simps)
    next
      case False
      then have "nesting ?sub \<noteq> 0" using nesting_0 by blast
      then have "snd idx = 0 \<or> snd idx = 1" using fits(2) by linarith
      then have g: "grow (snd idx) \<le> Suc (snd idx)" by (auto simp: grow_def)
      have new: "?h1 ! fst ?index = (h ! fst idx) @ [i]" by (simp add: nth_append g)
      show ?thesis using 2(2) [OF a [symmetric]] True fits(2) 2(5) new by (auto simp: nth_append)
    qed
    then obtain ys where s: "snd ?r = ?h1 @ ys"
      "\<And>zs. map (map_fld (read_slice (?h1 @ ys @ zs))) (fst ?r) = field_paths dflt tags ((h ! fst idx) @ [i]) ?npf 0 ?sub" by blast
    let ?h2 = "?h1 @ ys"
    have r: "?r = (fst ?r, ?h2)" using s(1) by (metis prod.collapse)
    obtain ys' where t: "snd (read_type dflt tags idx pre (i + 1) fs ?h2) = ?h2 @ ys'"
      "\<And>zs. map (map_fld (read_slice (?h2 @ ys' @ zs))) (fst (read_type dflt tags idx pre (i + 1) fs ?h2))
        = field_paths dflt tags (h ! fst idx) pre (i + 1) fs"
      using 2(3) [OF a [symmetric] _ r [symmetric]] True 2(4,5) fits(1) by (auto simp: nth_append)
    have e: "read_type dflt tags idx pre i (SFld name tgs anon ty # fs) h
        = (if fst (below_field anon ty) then fst ?r @ fst (read_type dflt tags idx pre (i + 1) fs ?h2)
           else Fld name ty ?index [] (field_tags dflt (fst (field_prefixes pre tgs)) tags name tgs) (fst ?r)
             # fst (read_type dflt tags idx pre (i + 1) fs ?h2), ?h2 @ ys')"
    proof -
      have r2: "read_type dflt tags idx pre (i + 1) fs ?h2 = (fst (read_type dflt tags idx pre (i + 1) fs ?h2), ?h2 @ ys')"
        using t(1) by (metis prod.collapse)
      show ?thesis unfolding read_type.simps a prod.case
        by (simp only: True simp_thms if_False, subst r, simp only: prod.case, subst r2, simp only: prod.case)
    qed
    have n: "read_slice (h @ [?new] @ xs) ?index = (h ! fst idx) @ [i]" for xs
      using read_slice_new [of h "h ! fst idx" i _ xs] 2(5) by simp
    show ?thesis
      unfolding e field_paths.simps
      using True n s(2) t(2) by (intro exI [of _ "[?new] @ ys @ ys'"]) (simp add: Let_def)
  qed
qed

text \<open>C16: The readers of structs agree with the specification as long as structs are nested at most three deep: every field comes with the path
  that leads to it.\<close>

theorem struct_field_paths:
  assumes "ToType t = TStruct n fs" "nesting fs \<le> 3"
  shows "ReadStructFields t dflt tags = field_paths dflt tags [] [] 0 fs"
proof -
  obtain ys where "snd (read_type dflt tags (0, 0) [] 0 fs [[]]) = [[]] @ ys"
    "\<forall>zs. map (map_fld (read_slice ([[]] @ ys @ zs))) (fst (read_type dflt tags (0, 0) [] 0 fs [[]]))
      = field_paths dflt tags [] [] 0 fs"
    using read_type_paths [of "(0, 0)" "[[]]" fs dflt tags "[]" 0] assms(2) by auto
  from this(1) this(2) [THEN spec, of "[]"] show ?thesis
    by (simp add: ReadStructFields_def assms(1) typeStructFields_def case_prod_beta)
qed

section \<open>Four levels share an array\<close>

text \<open>A struct with plain exported fields.\<close>

definition plain_fields :: "sfld list \<Rightarrow> bool" where
  "plain_fields fs \<longleftrightarrow> (\<forall>f \<in> set fs. case f of SFld name tgs anon ty \<Rightarrow> upper_ch (hd name) \<and> below_field anon ty = (False, []))"

lemma append_room:
  "snd s < length (h ! fst s) \<Longrightarrow> append_slice s x h = ((fst s, snd s + 1), h[fst s := (h ! fst s)[snd s := x]])"
  by (cases s) (simp add: append_slice_def)

text \<open>When the array has room, all fields get the same slice, and the last one writes it.\<close>

lemma read_plain_shared:
  assumes "plain_fields fs" "fst idx < length h" "snd idx < length (h ! fst idx)"
  shows "fst (read_type dflt tags idx pre i fs h)
      = map (\<lambda>f. case f of SFld name tgs anon ty \<Rightarrow>
          Fld name ty (fst idx, Suc (snd idx)) [] (field_tags dflt (fst (field_prefixes pre tgs)) tags name tgs) []) fs
    \<and> (fs \<noteq> [] \<longrightarrow> snd (read_type dflt tags idx pre i fs h)
      = h[fst idx := (h ! fst idx)[snd idx := i + length fs - 1]])"
  using assms
proof (induction fs arbitrary: i h)
  case (Cons f fs)
  obtain name tgs anon ty where f: "f = SFld name tgs anon ty" by (cases f)
  have p: "upper_ch (hd name)" "below_field anon ty = (False, [])" "plain_fields fs" using Cons.prems by (auto simp: plain_fields_def f)
  let ?h = "h[fst idx := (h ! fst idx)[snd idx := i]]"
  have r: "read_type dflt tags idx pre i (f # fs) h
      = (Fld name ty (fst idx, Suc (snd idx)) [] (field_tags dflt (fst (field_prefixes pre tgs)) tags name tgs) []
          # fst (read_type dflt tags idx pre (i + 1) fs ?h), snd (read_type dflt tags idx pre (i + 1) fs ?h))"
    unfolding f read_type.simps append_room [OF Cons.prems(3)] prod.case
    using p by (simp add: read_type.simps(1) case_prod_beta)
  show ?case
    using Cons.IH [of ?h "i + 1"] p(3) Cons.prems unfolding r
    by (cases "fs = []") (simp_all add: f read_type.simps(1) split: sfld.split)
qed (simp add: read_type.simps)

lemma read_plain_index:
  assumes "plain_fields fs" "fst idx < length h" "snd idx < length (h ! fst idx)"
  shows "map fld_index (fst (read_type dflt tags idx pre i fs h)) = replicate (length fs) (fst idx, Suc (snd idx))"
proof -
  have "map fld_index (map (\<lambda>f. case f of SFld name tgs anon ty \<Rightarrow>
      Fld name ty p [] (field_tags dflt (fst (field_prefixes pre tgs)) tags name tgs) []) fs) = replicate (length fs) p" for p :: slice
    by (induction fs) (auto split: sfld.split)
  then show ?thesis using read_plain_shared [OF assms, of dflt tags pre i] by simp
qed

text \<open>Reading a struct with a single exported field that is itself a struct, from a full slice.\<close>

lemma read_chain:
  assumes "upper_ch (hd name)" "s \<noteq> ''time.Time''" "fst idx < length h" "length (h ! fst idx) = snd idx"
  shows "read_type dflt tags idx pre i [SFld name tgs False (TStruct s sub)] h
    = (case read_type dflt tags (length h, snd idx + 1) (snd (field_prefixes pre tgs)) 0 sub
          (h @ [(h ! fst idx) @ [i] @ replicate (grow (snd idx) - (snd idx + 1)) 0]) of
         (subs, h2) \<Rightarrow> ([Fld name (TStruct s sub) (length h, snd idx + 1) [] (field_tags dflt (fst (field_prefixes pre tgs)) tags name tgs) subs], h2))"
  unfolding read_type.simps append_full [OF assms(3,4)] using assms(1,2)
  by (simp add: below_field_def sub_struct_def struct_of_def case_prod_beta)

text \<open>From the fourth level on the index of a field is wrong. The fields of a struct in a struct in a struct in a struct all come with the
  index of its last field, because their indices share one array.\<close>

lemma fourth_level_shares_index:
  assumes "plain_fields fs" "upper_ch (hd n1)" "upper_ch (hd n2)" "upper_ch (hd n3)"
    and "s1 \<noteq> ''time.Time''" "s2 \<noteq> ''time.Time''" "s3 \<noteq> ''time.Time''"
  shows "\<exists>f1 f2 f3. ReadStructFields (TStruct s0 [SFld n1 g1 False (TStruct s1 [SFld n2 g2 False (TStruct s2
        [SFld n3 g3 False (TStruct s3 fs)])])]) dflt tags = [f1]
    \<and> fld_subs f1 = [f2] \<and> fld_subs f2 = [f3] \<and> map fld_index (fld_subs f3) = replicate (length fs) [0, 0, 0, length fs - 1]"
proof (cases "fs = []")
  case True
  then show ?thesis
    using assms
    by (simp add: ReadStructFields_def typeStructFields_def read_chain nth_append grow_def read_type.simps(1))
next
  case False
  let ?p = "snd (field_prefixes (snd (field_prefixes (snd (field_prefixes [] g1)) g2)) g3)"
  let ?h = "[[], [0], [0, 0], [0, 0, 0, 0]]"
  let ?r = "read_type dflt tags (3, 3) ?p 0 fs ?h"
  have r: "map fld_index (fst ?r) = replicate (length fs) (3, Suc 3)" "snd ?r = [[], [0], [0, 0], [0, 0, 0, length fs - 1]]"
    using read_plain_index [OF assms(1), of "(3, 3)" ?h dflt tags ?p 0] read_plain_shared [OF assms(1), of "(3, 3)" ?h dflt tags ?p 0] False
    by (simp_all add: numeral_3_eq_3)
  have "map fld_index (map (map_fld (read_slice (snd ?r))) (fst ?r)) = map (read_slice (snd ?r)) (map fld_index (fst ?r))"
    by (simp add: fld.map_sel)
  also have "\<dots> = replicate (length fs) [0, 0, 0, length fs - 1]" unfolding r by (simp add: read_slice_def)
  finally have i: "map fld_index (map (map_fld (read_slice (snd ?r))) (fst ?r)) = replicate (length fs) [0, 0, 0, length fs - 1]" .
  show ?thesis
    using assms i
    by (simp add: ReadStructFields_def typeStructFields_def read_chain nth_append grow_def case_prod_beta numeral_3_eq_3)
qed

section \<open>Names with their path\<close>

text \<open>\<open>ScanStructFields\<close> lists the fields with those below them. The code changes the tags of its argument on the way, too.\<close>

definition put_tag :: "string \<Rightarrow> string \<times> string \<Rightarrow> (string \<times> string \<times> string) list \<Rightarrow> (string \<times> string \<times> string) list" where
  "put_tag key tv tags = (if key \<in> fst ` set tags then map (\<lambda>(k, v). if k = key then (k, tv) else (k, v)) tags else tags @ [(key, tv)])"

function ScanStructFields :: "string \<Rightarrow> string \<Rightarrow> string \<Rightarrow> 'i fld list \<Rightarrow> 'i fld list" where
  "ScanStructFields tag pre path [] = []"
| "ScanStructFields tag pre path (f # fs) =
     (let tv = (case map_of (fld_tags f) tag of Some v \<Rightarrow> v | None \<Rightarrow> ([], []));
          name = (if pre \<noteq> [] then pre @ ''.'' else []) @ fst tv;
          f' = Fld (fld_name f) (fld_type f) (fld_index f) (if path \<noteq> [] then path else fld_path f)
            (put_tag tag (name, snd tv) (fld_tags f)) (fld_subs f);
          newPath = (case fld_type f of TSlice e \<Rightarrow> name | _ \<Rightarrow> path)
      in f' # (if fld_subs f \<noteq> [] then ScanStructFields tag name newPath (fld_subs f) else []) @ ScanStructFields tag pre path fs)"
  by pat_completeness auto
termination
proof (relation "measure (\<lambda>(tag, pre, path, fs). size_list size fs)")
  show "(((tag, name, newPath, fld_subs f)), (tag, pre, path, f # fs)) \<in> measure (\<lambda>(tag, pre, path, fs). size_list size fs)"
    for tag name newPath pre path and f :: "'i fld" and fs
    by (cases f) simp
qed auto

declare ScanStructFields.simps [simp del]

section \<open>Columns\<close>

record scol =
  sc_tag :: string
  sc_name :: string
  sc_opts :: string
  sc_ext :: string
  sc_extopts :: string
  sc_type :: stype
  sc_index :: "nat list"

definition put_scol :: "scol \<Rightarrow> scol list \<Rightarrow> scol list" where
  "put_scol sc cols =
     (case find (\<lambda>j. sc_tag (cols ! j) = sc_tag sc) [0..<length cols] of Some j \<Rightarrow> cols[j := sc] | None \<Rightarrow> cols @ [sc])"

text \<open>The loop over the index of a column of an embedded struct starts every time from the index of that struct.\<close>

definition add_subcol :: "nat \<Rightarrow> scol list \<Rightarrow> scol \<Rightarrow> scol list" where
  "add_subcol i cols sub =
     (if list_ex (\<lambda>col. sc_tag sub = sc_tag col) cols then cols
      else cols @ [sub\<lparr>sc_index := foldl (\<lambda>_ ii. [i] @ [ii]) (sc_index sub) (sc_index sub)\<rparr>])"

definition embedded_struct :: "bool \<Rightarrow> stype \<Rightarrow> sfld list option" where
  "embedded_struct anon t =
     (if anon then (case t of TStruct n fs \<Rightarrow> Some fs | TPtr (TStruct n fs) \<Rightarrow> Some fs | _ \<Rightarrow> None) else None)"

lemma embedded_struct_size: "embedded_struct anon t = Some sub \<Longrightarrow> size_list size sub < Suc (size t)"
  by (auto simp: embedded_struct_def split: if_splits stype.splits)

function type_cols :: "bool \<Rightarrow> string \<Rightarrow> string \<Rightarrow> nat \<Rightarrow> sfld list \<Rightarrow> scol list \<Rightarrow> scol list" where
  "type_cols snake tag ext i [] cols = cols"
| "type_cols snake tag ext i (SFld name tgs anon ty # fs) cols =
     (case embedded_struct anon ty of
        Some sub \<Rightarrow> type_cols snake tag ext (i + 1) fs (foldl (add_subcol i) cols (type_cols snake tag ext 0 sub []))
      | None \<Rightarrow>
          type_cols snake tag ext (i + 1) fs
            (case ParseTag (tag_get tgs tag) of (ts, tops) \<Rightarrow> case ParseTag (tag_get tgs ext) of (ets, etops) \<Rightarrow>
               put_scol \<lparr>sc_tag = (if ts = [] then if snake then Underscore name else name else ts), sc_name = name, sc_opts = tops,
                 sc_ext = ets, sc_extopts = etops, sc_type = ty, sc_index = [i]\<rparr> cols))"
  by pat_completeness auto
termination
  by (relation "measure (\<lambda>(snake, tag, ext, i, fs, cols). size_list size fs)")
    (auto dest: embedded_struct_size)

declare type_cols.simps [simp del]

definition typeStructColumns :: "sfld list \<Rightarrow> bool \<Rightarrow> string list \<Rightarrow> scol list" where
  "typeStructColumns fs snake tags =
     type_cols snake (if 0 < length tags then tags ! 0 else ''db'') (if 1 < length tags then tags ! 1 else ''filter'') 0 fs []"

definition ReadStructColumns :: "stype \<Rightarrow> bool \<Rightarrow> string list \<Rightarrow> scol list" where
  "ReadStructColumns t snake tags = (case ToType t of TStruct n fs \<Rightarrow> typeStructColumns fs snake tags | _ \<Rightarrow> [])"

section \<open>Values\<close>

datatype sval = SvInvalid | SvStr string | SvInt int | SvBool bool | SvList nat | SvStruct "sval list" | SvPtr "sval option" | SvOther string

text \<open>A field by its index: a nil pointer on the way gives the zero \<open>reflect.Value\<close>; \<open>Field\<close> panics out of range.\<close>

fun FieldByIndex :: "sval \<Rightarrow> nat list \<Rightarrow> sval outcome" where
  "FieldByIndex v [] = Ret v"
| "FieldByIndex v (i # is) =
     (case v of
        SvPtr None \<Rightarrow> Ret SvInvalid
      | SvPtr (Some (SvStruct vs)) \<Rightarrow> if i < length vs then FieldByIndex (vs ! i) is else Panic IndexOutOfRange
      | SvStruct vs \<Rightarrow> if i < length vs then FieldByIndex (vs ! i) is else Panic IndexOutOfRange
      | _ \<Rightarrow> Panic (PanicMsg ''reflect: call of Field''))"

text \<open>The zero value of a struct has zero fields, and nil pointers.\<close>

fun zero_val :: "sval \<Rightarrow> bool" where
  "zero_val (SvStr s) \<longleftrightarrow> s = []"
| "zero_val (SvInt i) \<longleftrightarrow> i = 0"
| "zero_val (SvBool b) \<longleftrightarrow> \<not> b"
| "zero_val (SvList n) \<longleftrightarrow> n = 0"
| "zero_val (SvStruct vs) \<longleftrightarrow> (\<forall>v \<in> set vs. zero_val v)"
| "zero_val (SvPtr p) \<longleftrightarrow> p = None"
| "zero_val v \<longleftrightarrow> True"

fun IsZero_value :: "sval \<Rightarrow> bool" where
  "IsZero_value (SvPtr p) = (case p of None \<Rightarrow> True | Some v \<Rightarrow> IsZero_value v)"
| "IsZero_value v = zero_val v"

section \<open>The options of a field list\<close>

definition fields_skip :: "arg list option \<Rightarrow> arg list" where
  "fields_skip a = (case a of Some l \<Rightarrow> l | None \<Rightarrow> [])"

definition Fields :: "float_ops \<Rightarrow> (bool \<Rightarrow> arg \<Rightarrow> string) \<Rightarrow> stype \<Rightarrow> arg list \<Rightarrow> string list" where
  "Fields fo js t opts =
     (let p = NewParams opts;
          ot = StringByIndex fo js 0 p; tag = (if ot \<noteq> [] then ot else ''json'');
          must = StringByIndex fo js 1 p;
          skip = fields_skip (ArrayByIndex 2 p);
          ost = StringByIndex fo js 2 p;
          skipTag = (if skip = [] \<and> ost \<noteq> [] then ost else ''sf'')
      in concat (map (\<lambda>f.
           case (case map_of (fld_tags f) tag of Some v \<Rightarrow> v | None \<Rightarrow> ([], [])) of (name, options) \<Rightarrow>
             if name \<noteq> [] \<and> (must = [] \<or> Contains options must) \<and> (skip = [] \<or> AStr name \<notin> set skip)
               \<and> (skipTag = [] \<or> \<not> Contains options skipTag)
             then [name] else [])
         (ReadStructFields t True [tag])))"

text \<open>\<open>StringMap\<close>: the text of a field by the name of its type. \<open>js\<close> is the JSON of a value; a nil \<open>*string\<close> has the text that reflection
  gives to no value, and a nil pointer to a number panics.\<close>

definition string_of :: "(sval \<Rightarrow> string) \<Rightarrow> stype \<Rightarrow> sval \<Rightarrow> string outcome" where
  "string_of js t v =
     (if t = TBase ''string'' then (case v of SvStr s \<Rightarrow> Ret s | _ \<Rightarrow> Ret ''<T Value>'')
      else if t = TPtr (TBase ''string'') then (case v of SvPtr (Some (SvStr s)) \<Rightarrow> Ret s | _ \<Rightarrow> Ret ''<invalid Value>'')
      else if t \<in> {TBase ''int'', TBase ''int64''} then (case v of SvInt i \<Rightarrow> Ret (itoa i) | _ \<Rightarrow> Panic (PanicMsg ''reflect: call of Int''))
      else if t \<in> {TPtr (TBase ''int''), TPtr (TBase ''int64'')} then
        (case v of SvPtr (Some (SvInt i)) \<Rightarrow> Ret (itoa i) | _ \<Rightarrow> Panic (PanicMsg ''reflect: call of Int''))
      else Ret (js v))"

fun string_map_loop :: "(sval \<Rightarrow> string) \<Rightarrow> string \<Rightarrow> string \<Rightarrow> sval \<Rightarrow> nat list fld list \<Rightarrow> (string \<rightharpoonup> string) \<Rightarrow> (string \<rightharpoonup> string) outcome" where
  "string_map_loop js tag must v [] m = Ret m"
| "string_map_loop js tag must v (f # fs) m =
     (case (case map_of (fld_tags f) tag of Some x \<Rightarrow> x | None \<Rightarrow> ([], [])) of (name, options) \<Rightarrow>
        bind_outcome (FieldByIndex v (fld_index f)) (\<lambda>fv.
          if (must = [] \<or> Contains options must) \<and> (\<not> Contains options ''omitempty'' \<or> \<not> IsZero_value fv)
          then bind_outcome (string_of js (fld_type f) fv) (\<lambda>s. string_map_loop js tag must v fs (m(name \<mapsto> s)))
          else string_map_loop js tag must v fs m))"

definition StringMap :: "(sval \<Rightarrow> string) \<Rightarrow> stype \<Rightarrow> sval \<Rightarrow> string list \<Rightarrow> (string \<rightharpoonup> string) outcome" where
  "StringMap js t v opts =
     (let tag = (if 0 < length opts \<and> opts ! 0 \<noteq> [] then opts ! 0 else ''json'');
          must = (if 1 < length opts then opts ! 1 else [])
      in string_map_loop js tag must v (ReadStructFields t True [tag]) Map.empty)"

section \<open>What the columns are\<close>

definition cols_ok :: "scol list \<Rightarrow> bool" where
  "cols_ok cols \<longleftrightarrow> distinct (map sc_tag cols) \<and> (\<forall>c \<in> set cols. length (sc_index c) \<in> {1, 2})"

lemma cols_ok_Nil [simp]: "cols_ok []"
  by (simp add: cols_ok_def)

lemma cols_ok_put:
  assumes "cols_ok cols" "length (sc_index sc) = 1"
  shows "cols_ok (put_scol sc cols)"
proof (cases "find (\<lambda>j. sc_tag (cols ! j) = sc_tag sc) [0..<length cols]")
  case None
  then have "sc_tag sc \<notin> set (map sc_tag cols)" by (auto simp: find_None_iff in_set_conv_nth)
  then show ?thesis using assms None by (auto simp: put_scol_def cols_ok_def)
next
  case (Some j)
  then have j: "j < length cols" "sc_tag (cols ! j) = sc_tag sc" by (auto simp: find_Some_iff)
  then have "map sc_tag (cols[j := sc]) = map sc_tag cols"
    by (intro nth_equalityI) (auto simp: nth_list_update)
  moreover have "set (cols[j := sc]) \<subseteq> insert sc (set cols)" by (rule set_update_subset_insert)
  ultimately show ?thesis using assms Some unfolding put_scol_def cols_ok_def by auto
qed

lemma sub_index: "length x \<in> {1, 2} \<Longrightarrow> foldl (\<lambda>_ ii. [i] @ [ii]) x x = [i, last x]"
  by (cases x rule: remdups_adj.cases) auto

lemma cols_ok_add: "cols_ok cols \<Longrightarrow> length (sc_index sub) \<in> {1, 2} \<Longrightarrow> cols_ok (add_subcol i cols sub)"
  by (simp only: add_subcol_def sub_index) (auto simp: cols_ok_def list_ex_iff)

lemma cols_ok_foldl: "cols_ok cols \<Longrightarrow> \<forall>s \<in> set subs. length (sc_index s) \<in> {1, 2} \<Longrightarrow> cols_ok (foldl (add_subcol i) cols subs)"
  by (induction subs arbitrary: cols) (simp_all add: cols_ok_add)

lemma cols_ok_type: "cols_ok cols \<Longrightarrow> cols_ok (type_cols snake tag ext i fs cols)"
proof (induction snake tag ext i fs cols rule: type_cols.induct)
  case (1 snake tag ext i cols)
  then show ?case by (simp add: type_cols.simps)
next
  case (2 snake tag ext i name tgs anon ty fs cols)
  show ?case
  proof (cases "embedded_struct anon ty")
    case None
    have "cols_ok (type_cols snake tag ext (i + 1) fs (case ParseTag (tag_get tgs tag) of (ts, tops) \<Rightarrow>
        case ParseTag (tag_get tgs ext) of (ets, etops) \<Rightarrow>
          put_scol \<lparr>sc_tag = (if ts = [] then if snake then Underscore name else name else ts), sc_name = name, sc_opts = tops,
            sc_ext = ets, sc_extopts = etops, sc_type = ty, sc_index = [i]\<rparr> cols))"
      by (intro 2(1) [OF None]) (auto intro: cols_ok_put [OF 2(4)] split: prod.split)
    then show ?thesis by (simp only: type_cols.simps None option.case)
  next
    case (Some sub)
    have "cols_ok (type_cols snake tag ext 0 sub [])" by (intro 2(2) [OF Some]) simp
    then have "cols_ok (type_cols snake tag ext (i + 1) fs (foldl (add_subcol i) cols (type_cols snake tag ext 0 sub [])))"
      by (intro 2(3) [OF Some] cols_ok_foldl 2(4)) (simp add: cols_ok_def)
    then show ?thesis by (simp only: type_cols.simps Some option.case)
  qed
qed

text \<open>C20: The columns of a struct. They have different names, and an index of one or two numbers, however deep structs are embedded.\<close>

theorem struct_columns_shape:
  "distinct (map sc_tag (ReadStructColumns t snake tags))
   \<and> (\<lambda>c. length (sc_index c)) ` set (ReadStructColumns t snake tags) \<subseteq> {1, 2}"
proof -
  have "cols_ok (ReadStructColumns t snake tags)"
    unfolding ReadStructColumns_def typeStructColumns_def by (auto intro: cols_ok_type split: stype.split)
  then show ?thesis by (auto simp: cols_ok_def)
qed

text \<open>So the column of a field embedded twice leads to a field of the outer struct.\<close>

lemma embedded_struct_True: "embedded_struct True (TStruct s fs) = Some fs"
  by (simp add: embedded_struct_def)

lemma embedded_twice:
  assumes "embedded_struct a2 t2 = None"
  shows "map sc_index (typeStructColumns
      [SFld n0 g0 True (TStruct s1 [SFld n1 g1 True (TStruct s2 [SFld n2 g2 a2 t2])])] snake tags) = [[0, 0]]"
  by (simp add: typeStructColumns_def type_cols.simps embedded_struct_True assms add_subcol_def put_scol_def case_prod_beta)

text \<open>With the structs \<open>A\<close>, \<open>B\<close> and \<open>C\<close> each embedded in the one before, the column of the field of \<open>C\<close> reads a whole struct.\<close>

lemma embedded_twice_reads: "FieldByIndex (SvStruct [SvStruct [SvStruct [SvStr ''x'']]]) [0, 0] = Ret (SvStruct [SvStr ''x''])"
  by simp

section \<open>Names, tags and values\<close>

text \<open>A level without a prefix of its own hands none on.\<close>

lemma prefix_not_inherited: "tag_get tgs ''prefix'' = [] \<Longrightarrow> snd (field_prefixes pre tgs) = []"
  by (simp add: field_prefixes_def)

lemma Underscore_examples:
  "Underscore ''UserID'' = ''user_id''" "Underscore ''HTTPServer'' = ''http_server''" "Underscore ''a-B'' = ''a-b''"
  by (simp_all add: Underscore_def split_runs.simps upper_ch_def lower_ch_def is_digit_def to_lower_def lower_char_def char_of_def bit_Suc_0_iff)

text \<open>A nil pointer to a number without omitempty makes \<open>StringMap\<close> panic.\<close>

lemma string_of_nil: "\<exists>p. string_of js (TPtr (TBase ''int'')) (SvPtr None) = Panic p"
  by (simp add: string_of_def)

section \<open>Examples\<close>

definition address :: stype where
  "address = TStruct ''m.Address'' [SFld ''City'' [(''json'', ''city,omitempty'')] False (TBase ''string''), SFld ''Zip'' [] False (TBase ''int'')]"

definition person :: stype where
  "person = TStruct ''m.Person'' [SFld ''Name'' [(''json'', ''name'')] False (TBase ''string''), SFld ''Home'' [] False address]"

theorem struct_field_paths_witness:
  "map fld_index (fld_subs (ReadStructFields person True [''json''] ! 1)) = [[1, 0], [1, 1]]"
proof -
  let ?fs = "[SFld ''Name'' [(''json'', ''name'')] False (TBase ''string''), SFld ''Home'' [] False address]"
  have b: "below_field False address = (False, [SFld ''City'' [(''json'', ''city,omitempty'')] False (TBase ''string''), SFld ''Zip'' [] False (TBase ''int'')])"
    "\<And>n. below_field False (TBase n) = (False, [])"
    by (simp_all add: address_def below_field_def sub_struct_def struct_of_def)
  have "nesting ?fs \<le> 3" by (simp add: b)
  from struct_field_paths [of person "''m.Person''" ?fs True "[''json'']", OF _ this] show ?thesis
    by (simp add: person_def field_paths.simps b upper_ch_def Let_def)
qed

lemma fourth_level_shares_index_witness:
  "\<exists>f1 f2 f3. ReadStructFields (TStruct ''A'' [SFld ''B'' [] False (TStruct ''B'' [SFld ''C'' [] False (TStruct ''C''
      [SFld ''D'' [] False (TStruct ''D'' [SFld ''X'' [] False (TBase ''int''), SFld ''Y'' [] False (TBase ''int'')])])])]) True [''json''] = [f1]
    \<and> fld_subs f1 = [f2] \<and> fld_subs f2 = [f3] \<and> map fld_index (fld_subs f3) = [[0, 0, 0, 1], [0, 0, 0, 1]]"
  using fourth_level_shares_index [of "[SFld ''X'' [] False (TBase ''int''), SFld ''Y'' [] False (TBase ''int'')]" "''B''" "''C''" "''D''"
    "''B''" "''C''" "''D''" "''A''" "[]" "[]" "[]" True "[''json'']"]
  by (simp add: plain_fields_def below_field_def sub_struct_def upper_ch_def numeral_2_eq_2)

end
