(* ===== verification/RestReport.thy ===== *)
theory RestReport
  imports RestQuery UtilStruct
begin

text \<open>
  The reports of \<open>rest/report.go\<close> over the search index, with the aggregations of \<open>rest/es.go\<close>.

  A report is set up by its setters, its \<open>Build\<close> composes the request, a tree of aggregations, and \<open>fetch\<close>
  reads the response along the same tree. The search library is not part of the program: a request is the record of what the code
  asks for, a response is a tree of named results (\<open>Aggregations.Sum(name)\<close> and its like find a result by its name), and
  running a request is a parameter. Floating-point numbers are texts. An aggregation is referred to from one place only.
\<close>

section \<open>Constants\<close>

definition FIELD_TAG :: string where "FIELD_TAG = ''json''"
definition RPT_TAG :: string where "RPT_TAG = ''report''"
definition RPT_NESTED :: string where "RPT_NESTED = ''nested''"
definition RPT_FILTER :: string where "RPT_FILTER = ''filter''"
definition RPT_KEYWORD :: string where "RPT_KEYWORD = ''keyword''"

datatype report_type = RpSum | RpCumSum | RpMax | RpMin | RpAvg | RpTerm | RpLast | RpRange | RpSearch | RpSnapshot | RpNone

definition RTKEY_RESULTS :: string where "RTKEY_RESULTS = ''_results_''"
definition RTKEY_COUNT :: string where "RTKEY_COUNT = ''_count_''"
definition RTKEY_NAME :: string where "RTKEY_NAME = ''_name_''"
definition RTKEY_HITS :: string where "RTKEY_HITS = ''_hits_''"
definition RTKEY_START :: string where "RTKEY_START = ''_start_''"
definition RTKEY_END :: string where "RTKEY_END = ''_end_''"
definition RTKEY_INTVL :: string where "RTKEY_INTVL = ''_interval_''"
definition RTKEY_TIME :: string where "RTKEY_TIME = ''_time_''"
definition RTKEY_TOPHITS :: string where "RTKEY_TOPHITS = ''_top_hits_''"

section \<open>Requests\<close>

record es_filter =
  f_name :: string
  f_field :: string
  f_values :: "rvalue list"

datatype es_agg =
    EsTerms string bool int bool "(string \<times> es_agg option) list"
  | EsSum string | EsMax string | EsMin string | EsAvg string
  | EsCumSum string
  | EsTop string bool
  | EsNested string "(string \<times> es_agg option) list"
  | EsFilter string string "(string \<times> es_agg option) list"
  | EsFilters "es_filter list" "(string \<times> es_agg option) list"
  | EsDates string string bool "(string \<times> es_agg option) list"

text \<open>\<open>SubAggregation\<close> puts an aggregation under a name; the others have no aggregations below them.\<close>

definition put_agg :: "string \<Rightarrow> 'a \<Rightarrow> (string \<times> 'a) list \<Rightarrow> (string \<times> 'a) list" where
  "put_agg n a xs = (if n \<in> fst ` set xs then map (\<lambda>(k, b). (k, if k = n then a else b)) xs else xs @ [(n, a)])"

fun SubAggregation :: "es_agg \<Rightarrow> string \<Rightarrow> es_agg option \<Rightarrow> es_agg" where
  "SubAggregation (EsTerms f m sz o_ts subs) n a = EsTerms f m sz o_ts (put_agg n a subs)"
| "SubAggregation (EsNested p subs) n a = EsNested p (put_agg n a subs)"
| "SubAggregation (EsFilter f v subs) n a = EsFilter f v (put_agg n a subs)"
| "SubAggregation (EsFilters fs subs) n a = EsFilters fs (put_agg n a subs)"
| "SubAggregation (EsDates f i c subs) n a = EsDates f i c (put_agg n a subs)"
| "SubAggregation e n a = e"

text \<open>The aggregations of \<open>rest/es.go\<close>. \<open>TermsAgg\<close> is given the flag of \<open>Missing\<close>, its size and its order.\<close>

definition TermsAgg :: "string \<Rightarrow> es_agg" where "TermsAgg f = EsTerms f False 1000 False []"
definition TopAgg :: "string \<Rightarrow> bool \<Rightarrow> es_agg" where "TopAgg f ascending = EsTop f ascending"
definition SumAgg :: "string \<Rightarrow> es_agg" where "SumAgg f = EsSum f"
definition CumSumAgg :: "string \<Rightarrow> es_agg" where "CumSumAgg f = EsCumSum f"
definition NestedAgg :: "string \<Rightarrow> es_agg" where "NestedAgg p = EsNested p []"
definition MinAgg :: "string \<Rightarrow> es_agg" where "MinAgg f = EsMin f"
definition MaxAgg :: "string \<Rightarrow> es_agg" where "MaxAgg f = EsMax f"
definition AvgAgg :: "string \<Rightarrow> es_agg" where "AvgAgg f = EsAvg f"
definition FilterAgg :: "string \<Rightarrow> string \<Rightarrow> es_agg" where "FilterAgg f v = EsFilter f v []"
definition FiltersAgg :: "es_filter list \<Rightarrow> es_agg" where "FiltersAgg fs = EsFilters fs []"

definition intervals :: "string list" where
  "intervals = [''hour'', ''day'', ''week'', ''month'', ''quarter'', ''year'']"

definition DateHistogramAgg :: "string \<Rightarrow> string \<Rightarrow> es_agg" where
  "DateHistogramAgg f interval = EsDates f interval (interval \<in> set intervals) []"

fun Missing :: "es_agg \<Rightarrow> es_agg" where
  "Missing (EsTerms f m sz o_ts subs) = EsTerms f True sz o_ts subs"
| "Missing e = e"

fun SetSize :: "es_agg \<Rightarrow> int \<Rightarrow> es_agg" where
  "SetSize (EsTerms f m sz o_ts subs) n = EsTerms f m n o_ts subs"
| "SetSize e n = e"

fun OrderByTs :: "es_agg \<Rightarrow> es_agg" where
  "OrderByTs (EsTerms f m sz o_ts subs) = EsTerms f m sz True subs"
| "OrderByTs e = e"

definition LatestField :: "string \<Rightarrow> string \<Rightarrow> es_agg" where
  "LatestField f tf = SubAggregation (OrderByTs (SetSize (TermsAgg f) 1)) ''_ts_'' (Some (MaxAgg tf))"

datatype es_query =
    EsIds string string
  | EsRange string Time Time
  | EsPhrase string string
  | EsTermsQuery string "rvalue list"
  | EsNestedQuery string es_query

record search_service =
  sv_index :: string
  sv_size :: "int option"
  sv_from :: "int option"
  sv_sort :: "(string \<times> bool) list"
  sv_query :: "es_query list option"
  sv_aggs :: "(string \<times> es_agg option) list"
  sv_source :: "(bool \<times> string list) option"

definition SearchService :: "string \<Rightarrow> search_service" where
  "SearchService index = \<lparr>sv_index = index, sv_size = None, sv_from = None, sv_sort = [], sv_query = None, sv_aggs = [], sv_source = None\<rparr>"

section \<open>Aggregations and reports\<close>

datatype Aggregation = Agg (ag_field: string) (ag_size: int) (ag_filters: "es_filter list")
  (ag_properties: "Aggregation list") (ag_subs: "Aggregation list") (ag_wraps: "string list")

definition NewAggregation :: "string \<Rightarrow> string list \<Rightarrow> Aggregation" where
  "NewAggregation field properties = Agg field 0 [] (map (\<lambda>p. Agg p 0 [] [] [] []) properties) [] []"

fun Properties :: "Aggregation \<Rightarrow> string list \<Rightarrow> Aggregation" where
  "Properties (Agg f sz fl ps subs w) properties = Agg f sz fl (ps @ map (\<lambda>p. NewAggregation p []) properties) subs w"

fun Size :: "Aggregation \<Rightarrow> int \<Rightarrow> Aggregation" where
  "Size (Agg f sz fl ps subs w) n = Agg f n fl ps subs w"

fun Filters :: "Aggregation \<Rightarrow> es_filter list \<Rightarrow> Aggregation" where
  "Filters (Agg f sz fl ps subs w) filters = Agg f sz (fl @ filters) ps subs w"

fun Sub :: "Aggregation \<Rightarrow> Aggregation \<Rightarrow> Aggregation" where
  "Sub (Agg f sz fl ps subs w) sa = Agg f sz fl ps (subs @ [sa]) w"

definition Unshift :: "Aggregation list \<Rightarrow> Aggregation \<Rightarrow> Aggregation list" where "Unshift aggs agg = agg # aggs"
definition Push :: "Aggregation list \<Rightarrow> Aggregation \<Rightarrow> Aggregation list" where "Push aggs agg = aggs @ [agg]"

record Report =
  rp_fields :: "nat list fld list"
  rp_index :: string
  rp_search :: search_service
  rp_limit :: "int option"
  rp_params :: "string list"
  rp_mterms :: "string list"
  rp_excludes :: "string list"
  rp_includes :: "string list"
  rp_tophits :: "(string \<times> string \<times> bool) option"
  rp_dimensions :: "string list"
  rp_qs :: "es_query list"
  rp_filters :: "(string \<times> string) list"
  rp_size :: int
  rp_timestamp :: "string option"
  rp_timeRange :: "(Time \<times> Time) option"
  rp_summary :: "Aggregation list"
  rp_dics :: "Aggregation list"
  rp_interval :: string
  rp_aggs :: "Aggregation list"
  rp_pagination :: "Pagination option"
  rp_keywordField :: string
  rp_id :: string
  rp_startEnd :: "(Time \<times> Time) option"

definition Today_range :: "Time \<Rightarrow> Time \<times> Time" where
  "Today_range now =
     (tDate now (tYear now) (tMonth now) (tDay now) 0 0 0,
      (tDate now (tYear now) (tMonth now) (tDay now) 23 59 59)\<lparr>tnsec := 999000000\<rparr>)"

definition Today :: "Time \<Rightarrow> Report \<Rightarrow> Report" where
  "Today now rpt = rpt\<lparr>rp_timeRange := Some (Today_range now)\<rparr>"

definition report_fields :: "stype \<Rightarrow> nat list fld list" where
  "report_fields base = ScanStructFields FIELD_TAG [] [] (ReadStructFields base True [FIELD_TAG, RPT_TAG])"

definition empty_report :: "stype \<Rightarrow> string \<Rightarrow> Report" where
  "empty_report base index = \<lparr>rp_fields = report_fields base, rp_index = index, rp_search = SearchService index, rp_limit = None,
     rp_params = [], rp_mterms = [], rp_excludes = [], rp_includes = [], rp_tophits = None, rp_dimensions = [], rp_qs = [], rp_filters = [],
     rp_size = 0, rp_timestamp = None, rp_timeRange = None, rp_summary = [], rp_dics = [], rp_interval = [], rp_aggs = [],
     rp_pagination = None, rp_keywordField = [], rp_id = [], rp_startEnd = None\<rparr>"

text \<open>The time range of the request, if it has one, is kept; a report has today's otherwise, and a log none.\<close>

definition NewReport :: "Time \<Rightarrow> string \<Rightarrow> stype \<Rightarrow> string list \<Rightarrow> RestState \<Rightarrow> Report" where
  "NewReport now reporting_index base oargs st =
     (let by_name = oargs \<noteq> [] \<and> hd oargs \<noteq> [];
          rpt = (empty_report base (if by_name then hd oargs else reporting_index))
                  \<lparr>rp_limit := Some 400, rp_params := (if by_name then tl oargs else [])\<rparr>
      in case e_timerange st of Some tr \<Rightarrow> rpt\<lparr>rp_timeRange := Some tr\<rparr> | None \<Rightarrow> Today now rpt)"

definition NewLogs :: "string \<Rightarrow> stype \<Rightarrow> string list \<Rightarrow> RestState \<Rightarrow> Report" where
  "NewLogs logs_index base params st = (empty_report base logs_index)\<lparr>rp_params := params, rp_timeRange := e_timerange st\<rparr>"

section \<open>Fields\<close>

definition field_tag :: "nat list fld option \<Rightarrow> string \<Rightarrow> string \<times> string" where
  "field_tag f tag = (case f of None \<Rightarrow> ([], []) | Some g \<Rightarrow> (case map_of (fld_tags g) tag of Some v \<Rightarrow> v | None \<Rightarrow> ([], [])))"

definition Field :: "Report \<Rightarrow> string \<Rightarrow> string \<Rightarrow> nat list fld option" where
  "Field rpt field tag = find (\<lambda>f. fst (field_tag (Some f) tag) = field) (rp_fields rpt)"

definition field_Path :: "nat list fld option \<Rightarrow> string" where
  "field_Path f = (case f of None \<Rightarrow> [] | Some g \<Rightarrow> fld_path g)"

definition SearchFieldName :: "Report \<Rightarrow> string \<Rightarrow> bool \<Rightarrow> string" where
  "SearchFieldName rpt rf useKWF =
     (let field = Field rpt rf RPT_TAG;
          kwf = (if Contains (snd (field_tag field RPT_TAG)) RPT_KEYWORD then RPT_KEYWORD
                 else if useKWF \<and> rp_keywordField rpt \<noteq> [] then rp_keywordField rpt else []);
          name = fst (field_tag field FIELD_TAG)
      in if kwf \<noteq> [] then name @ ''.'' @ kwf else name)"

text \<open>The type of a report field: its first option, or sum for a number and term for anything else.\<close>

definition number_types :: "string set" where
  "number_types = {''int'', ''int8'', ''int16'', ''int32'', ''int64'', ''float32'', ''float64''}"

definition default_type :: "stype \<Rightarrow> report_type" where
  "default_type t =
     (case (case t of TPtr u \<Rightarrow> u | _ \<Rightarrow> t) of TBase n \<Rightarrow> if n \<in> number_types then RpSum else RpTerm | _ \<Rightarrow> RpTerm)"

definition type_options :: "(string \<times> report_type) list" where
  "type_options = [(''sum'', RpSum), (''cum_sum'', RpCumSum), (''max'', RpMax), (''min'', RpMin), (''avg'', RpAvg), (''term'', RpTerm),
     (''last'', RpLast), (''range'', RpRange), (''search'', RpSearch), (''snapshot'', RpSnapshot)]"

definition reportType :: "nat list fld option \<Rightarrow> report_type" where
  "reportType f =
     (case f of
        None \<Rightarrow> RpNone
      | Some g \<Rightarrow> (case find (\<lambda>(opt, t). Contains (snd (field_tag f RPT_TAG)) opt) type_options of
          Some (opt, t) \<Rightarrow> t | None \<Rightarrow> default_type (fld_type g)))"

section \<open>Setters\<close>

definition Search :: "Report \<Rightarrow> string \<Rightarrow> Report" where
  "Search rpt name = rpt\<lparr>rp_index := name, rp_search := SearchService name\<rparr>"

definition Report_Size :: "Report \<Rightarrow> int \<Rightarrow> Report" where
  "Report_Size rpt n = rpt\<lparr>rp_size := n\<rparr>"

definition KeywordField :: "Report \<Rightarrow> string \<Rightarrow> Report" where
  "KeywordField rpt kwf = (if kwf \<noteq> [] then rpt\<lparr>rp_keywordField := kwf\<rparr> else rpt)"

definition From :: "Time \<Rightarrow> Report \<Rightarrow> int \<Rightarrow> Report" where
  "From now rpt days =
     (if days > 0 \<and> rp_timeRange rpt = None then rpt\<lparr>rp_timeRange := Some (AddDate now 0 0 (0 - days), now)\<rparr> else rpt)"

definition Report_Params :: "Report \<Rightarrow> string list \<Rightarrow> Report" where
  "Report_Params rpt ps = rpt\<lparr>rp_params := rp_params rpt @ ps\<rparr>"

definition MatchTerms :: "Report \<Rightarrow> string list \<Rightarrow> Report" where
  "MatchTerms rpt ts = rpt\<lparr>rp_mterms := rp_mterms rpt @ ts\<rparr>"

definition source_name :: "Report \<Rightarrow> string \<Rightarrow> string" where
  "source_name rpt field = (let sfn = SearchFieldName rpt field False in if sfn \<noteq> [] then sfn else field)"

definition Exclude :: "Report \<Rightarrow> string list \<Rightarrow> Report" where
  "Exclude rpt fs = rpt\<lparr>rp_excludes := rp_excludes rpt @ map (source_name rpt) fs\<rparr>"

definition Include :: "Report \<Rightarrow> string list \<Rightarrow> Report" where
  "Include rpt fs = rpt\<lparr>rp_includes := rp_includes rpt @ map (source_name rpt) fs\<rparr>"

definition Report_Condition :: "Report \<Rightarrow> string \<Rightarrow> rvalue list \<Rightarrow> RestState \<Rightarrow> (Report \<times> RestState) outcome" where
  "Report_Condition rpt field v st =
     bind_outcome (NewCondition CIs field v) (\<lambda>con.
     bind_outcome (SetParamConds con st) (\<lambda>st'. Ret (rpt\<lparr>rp_params := rp_params rpt @ [field]\<rparr>, st')))"

definition sized :: "Report \<Rightarrow> Aggregation \<Rightarrow> Aggregation" where
  "sized rpt agg = (if rp_size rpt > 0 then Size agg (rp_size rpt) else agg)"

definition Summary :: "Report \<Rightarrow> string list \<Rightarrow> Report" where
  "Summary rpt fs = rpt\<lparr>rp_summary := rp_summary rpt @ map (\<lambda>f. sized rpt (NewAggregation f [])) fs\<rparr>"

definition AggSummary :: "Report \<Rightarrow> Aggregation \<Rightarrow> Report" where
  "AggSummary rpt agg = rpt\<lparr>rp_summary := Push (rp_summary rpt) agg\<rparr>"

definition Dic :: "Report \<Rightarrow> string \<Rightarrow> string list \<Rightarrow> Report" where
  "Dic rpt field properties = rpt\<lparr>rp_dics := Push (rp_dics rpt) (sized rpt (NewAggregation field properties))\<rparr>"

definition Report_Aggregation :: "Report \<Rightarrow> Aggregation \<Rightarrow> Report" where
  "Report_Aggregation rpt agg = rpt\<lparr>rp_aggs := Push (rp_aggs rpt) agg\<rparr>"

definition Report_Sum :: "Report \<Rightarrow> string list \<Rightarrow> Report" where
  "Report_Sum rpt properties = rpt\<lparr>rp_aggs := rp_aggs rpt @ map (\<lambda>p. NewAggregation p []) properties\<rparr>"

definition TopHits :: "Report \<Rightarrow> string \<Rightarrow> string \<Rightarrow> bool \<Rightarrow> Report" where
  "TopHits rpt field sortField ascending = rpt\<lparr>rp_tophits := Some (field, sortField, ascending)\<rparr>"

definition Report_Id :: "Report \<Rightarrow> string \<Rightarrow> Report" where
  "Report_Id rpt key = rpt\<lparr>rp_id := key\<rparr>"

definition Timestamp :: "Report \<Rightarrow> string list \<Rightarrow> Report outcome" where
  "Timestamp rpt fs = (case fs of [] \<Rightarrow> Panic IndexOutOfRange | f # _ \<Rightarrow> Ret (rpt\<lparr>rp_timestamp := Some f\<rparr>))"

text \<open>The field of the timestamp; without one the code dereferences nil.\<close>

definition tsField :: "Report \<Rightarrow> string outcome" where
  "tsField rpt = (case rp_timestamp rpt of None \<Rightarrow> Panic NilDereference | Some f \<Rightarrow> Ret (SearchFieldName rpt f False))"

definition Snapshot :: "Report \<Rightarrow> Aggregation outcome" where
  "Snapshot rpt = bind_outcome (tsField rpt) (\<lambda>f. Ret (Agg f 0 [] [] [] []))"

section \<open>Intervals\<close>

text \<open>\<open>End.Sub(Start)\<close> in nanoseconds, saturated.\<close>

definition time_Sub :: "Time \<Rightarrow> Time \<Rightarrow> int" where
  "time_Sub t u = max (- (2 ^ 63)) (min (2 ^ 63 - 1) ((tsec t - tsec u) * 1000000000 + (tnsec t - tnsec u)))"

definition wrap32 :: "int \<Rightarrow> int" where
  "wrap32 x = (x + 2 ^ 31) mod 2 ^ 32 - 2 ^ 31"

text \<open>An interval's length in hours, and the seconds that a range with too many of them is cut to: 32-bit
  arithmetic. The hours of a range are compared exactly.\<close>

definition interval_hours :: "string \<Rightarrow> int" where
  "interval_hours inr =
     (if inr = ''hour'' then 1 else if inr = ''day'' then 24 else if inr = ''week'' then 24 * 7
      else if inr = ''month'' then 24 * 30 else if inr = ''quarter'' then 24 * 30 * 4 else 24 * 365)"

definition interval_cut :: "string \<Rightarrow> int \<Rightarrow> int" where
  "interval_cut inr lim =
     (if inr = ''hour'' then wrap32 (wrap32 (lim div 24 * 86400) - 1)
      else if inr = ''day'' then wrap32 (wrap32 (lim * 86400) - 1)
      else if inr = ''week'' then wrap32 (wrap32 (lim * 7 * 86400) - 1)
      else if inr = ''month'' then wrap32 (wrap32 (lim * 30 * 86400) - 1)
      else if inr = ''quarter'' then wrap32 (wrap32 (lim * 30 * 4 * 86400) - 1)
      else wrap32 (wrap32 (lim * 365 * 86400) - 1))"

definition Interval :: "Report \<Rightarrow> string \<Rightarrow> Report outcome" where
  "Interval rpt inr =
     (if inr \<in> set intervals then
        (case rp_limit rpt of
           None \<Rightarrow> Panic (PanicMsg ''interface conversion'')
         | Some lim \<Rightarrow>
             (case rp_timeRange rpt of
                None \<Rightarrow> Panic NilDereference
              | Some (s, e) \<Rightarrow>
                  if time_Sub e s > lim * interval_hours inr * 3600000000000
                  then Ret (rpt\<lparr>rp_interval := inr, rp_timeRange := Some (s, tAdd s (interval_cut inr lim * 1000000000))\<rparr>)
                  else Ret (rpt\<lparr>rp_interval := inr\<rparr>)))
      else Ret (rpt\<lparr>rp_interval := inr\<rparr>))"

definition periodic :: "Report \<Rightarrow> string \<Rightarrow> Report outcome" where
  "periodic rpt inr =
     (if rp_timestamp rpt = None \<or> rp_timestamp rpt = Some [] then Panic (PanicMsg ''can not interval reporting'') else Interval rpt inr)"

definition Monthly :: "Report \<Rightarrow> Report outcome" where "Monthly rpt = periodic rpt ''month''"
definition Weekly :: "Report \<Rightarrow> Report outcome" where "Weekly rpt = periodic rpt ''week''"
definition Daily :: "Report \<Rightarrow> Report outcome" where "Daily rpt = periodic rpt ''day''"
definition Hourly :: "Report \<Rightarrow> Report outcome" where "Hourly rpt = periodic rpt ''hour''"

section \<open>Building aggregations\<close>

text \<open>A field in a nested document, other than the one the aggregation around it is in, is wrapped once.\<close>

definition nest_agg :: "nat list fld option \<Rightarrow> string \<Rightarrow> string \<Rightarrow> es_agg \<times> string list \<Rightarrow> es_agg \<times> string list" where
  "nest_agg field path n e =
     (if field_Path field \<noteq> [] \<and> field_Path field \<noteq> path
      then (SubAggregation (NestedAgg (field_Path field)) n (Some (fst e)), snd e @ [RPT_NESTED])
      else e)"

text \<open>\<open>buildSumAgg\<close>, \<open>buildMaxAgg\<close>, \<open>buildMinAgg\<close> and \<open>buildAvgAgg\<close>, by the aggregation they make.\<close>

definition build_metric :: "(string \<Rightarrow> es_agg) \<Rightarrow> Report \<Rightarrow> string \<Rightarrow> string \<Rightarrow> es_agg \<times> string list" where
  "build_metric mk rpt f path = nest_agg (Field rpt f RPT_TAG) path f (mk (SearchFieldName rpt f False), [])"

text \<open>An aggregation that a condition names is filtered by it.\<close>

definition filter_agg :: "Report \<Rightarrow> string \<Rightarrow> es_agg \<times> string list \<Rightarrow> es_agg \<times> string list" where
  "filter_agg rpt f e =
     (case map_of (rp_filters rpt) f of
        Some v \<Rightarrow> if v \<noteq> [] then (SubAggregation (FilterAgg (SearchFieldName rpt f True) v) f (Some (fst e)), snd e @ [RPT_FILTER]) else e
      | None \<Rightarrow> e)"

fun add_wraps :: "Aggregation \<Rightarrow> string list \<Rightarrow> Aggregation" where
  "add_wraps (Agg f sz fl ps subs w) ws = Agg f sz fl ps subs (w @ ws)"

text \<open>The sum of a property in a nested document of its own is wrapped, and the property remembers it.\<close>

definition property_sum :: "Report \<Rightarrow> nat list fld option \<Rightarrow> Aggregation \<Rightarrow> es_agg \<times> string list" where
  "property_sum rpt field p =
     nest_agg (Field rpt (ag_field p) RPT_TAG) (field_Path field) (ag_field p) (SumAgg (SearchFieldName rpt (ag_field p) False), [])"

definition terms_property :: "Report \<Rightarrow> string \<Rightarrow> nat list fld option \<Rightarrow> Aggregation \<Rightarrow> es_agg \<Rightarrow> es_agg \<times> Aggregation" where
  "terms_property rpt ts field p e =
     (let spf = SearchFieldName rpt (ag_field p) False; add = (\<lambda>n a. SubAggregation e n (Some a))
      in case reportType (Field rpt (ag_field p) RPT_TAG) of
           RpTerm \<Rightarrow> (add (ag_field p) (LatestField spf ts), p)
         | RpLast \<Rightarrow> (add (ag_field p) (LatestField spf ts), p)
         | RpMax \<Rightarrow> (add (ag_field p) (MaxAgg spf), p)
         | RpMin \<Rightarrow> (add (ag_field p) (MinAgg spf), p)
         | RpAvg \<Rightarrow> (add (ag_field p) (AvgAgg spf), p)
         | RpCumSum \<Rightarrow> (SubAggregation (add (ag_field p) (SumAgg spf)) (ag_field p @ ''::_cum_'') (Some (CumSumAgg spf)), p)
         | RpSum \<Rightarrow> (add (ag_field p) (fst (property_sum rpt field p)), add_wraps p (snd (property_sum rpt field p)))
         | _ \<Rightarrow> (e, p))"

definition filters_property :: "Report \<Rightarrow> string \<Rightarrow> nat list fld option \<Rightarrow> Aggregation \<Rightarrow> es_agg \<Rightarrow> es_agg \<times> Aggregation" where
  "filters_property rpt ts field p e =
     (case reportType (Field rpt (ag_field p) RPT_TAG) of
        RpTerm \<Rightarrow> (SubAggregation e (ag_field p) (Some (LatestField (SearchFieldName rpt (ag_field p) False) ts)), p)
      | RpSum \<Rightarrow> (SubAggregation e (ag_field p) (Some (fst (property_sum rpt field p))), add_wraps p (snd (property_sum rpt field p)))
      | _ \<Rightarrow> (e, p))"

fun build_properties :: "(Aggregation \<Rightarrow> es_agg \<Rightarrow> es_agg \<times> Aggregation) \<Rightarrow> Aggregation list \<Rightarrow> es_agg \<Rightarrow> es_agg \<times> Aggregation list" where
  "build_properties one [] e = (e, [])"
| "build_properties one (p # ps) e =
     (case one p e of (e', p') \<Rightarrow> case build_properties one ps e' of (e'', ps') \<Rightarrow> (e'', p' # ps'))"

definition terms_base :: "Report \<Rightarrow> string \<Rightarrow> int \<Rightarrow> es_agg" where
  "terms_base rpt f sz =
     (let tmp = Missing (TermsAgg (SearchFieldName rpt f True)) in if sz > 0 then SetSize tmp sz else tmp)"

text \<open>\<open>buildAgg\<close>: the aggregation asked for, if any, the aggregation with its wraps and the dimensions. \<open>ts\<close> is
  the field of the timestamp, \<open>inc\<close> the option of its callers.\<close>

fun buildAgg :: "Report \<Rightarrow> string \<Rightarrow> Aggregation \<Rightarrow> string \<Rightarrow> bool \<Rightarrow> string list \<Rightarrow> es_agg option \<times> Aggregation \<times> string list"
and build_subs :: "Report \<Rightarrow> string \<Rightarrow> Aggregation list \<Rightarrow> string \<Rightarrow> es_agg \<Rightarrow> string list \<Rightarrow> es_agg \<times> Aggregation list \<times> string list" where
  "buildAgg rpt ts (Agg f sz fl ps subs w) path inc dims =
     (let field = Field rpt f RPT_TAG;
          metric = (\<lambda>mk. case build_metric mk rpt f path of (e, ws) \<Rightarrow> (Some e, Agg f sz fl ps subs (w @ ws), dims))
      in case reportType field of
           RpSum \<Rightarrow> metric SumAgg
         | RpCumSum \<Rightarrow> metric SumAgg
         | RpMax \<Rightarrow> metric MaxAgg
         | RpMin \<Rightarrow> metric MinAgg
         | RpAvg \<Rightarrow> metric AvgAgg
         | RpSnapshot \<Rightarrow> (Some (TopAgg (SearchFieldName rpt f False) False), Agg f sz fl ps subs w, dims)
         | RpTerm \<Rightarrow>
             (let dims' = (if inc \<and> \<not> InSliceIgnorecase f (rp_mterms rpt) then dims @ [f] else dims);
                  base = (if fl \<noteq> [] then FiltersAgg fl else terms_base rpt f sz);
                  (e1, ps') = build_properties (if fl \<noteq> [] then filters_property rpt ts field else terms_property rpt ts field) ps base;
                  (e2, subs', dims'') = build_subs rpt ts subs (field_Path field) e1 dims';
                  (e3, ws) = nest_agg field path f (filter_agg rpt f (e2, []))
              in (Some e3, Agg f sz fl ps' subs' (w @ ws), dims''))
         | _ \<Rightarrow> (None, Agg f sz fl ps subs w, dims))"
| "build_subs rpt ts [] path e dims = (e, [], dims)"
| "build_subs rpt ts (s # ss) path e dims =
     (case buildAgg rpt ts s path True dims of
        (a, s', dims') \<Rightarrow> case build_subs rpt ts ss path (SubAggregation e (ag_field s) a) dims' of
          (e', ss', dims'') \<Rightarrow> (e', s' # ss', dims''))"

declare buildAgg.simps [simp del]

section \<open>Preparing and building a report\<close>

definition idsQuery :: "Report \<Rightarrow> Report" where
  "idsQuery rpt = rpt\<lparr>rp_search := (rp_search rpt)\<lparr>sv_size := Some 1\<rparr>, rp_qs := rp_qs rpt @ [EsIds (rp_index rpt) (rp_id rpt)]\<rparr>"

definition rangeQuery :: "Time \<Rightarrow> (string \<Rightarrow> string) \<Rightarrow> Report \<Rightarrow> Report outcome" where
  "rangeQuery now qp rpt =
     (if rp_params rpt = [] \<or> to_lower (qp ''all_time'') \<noteq> ''true'' then
        (case (case rp_timeRange rpt of Some tr \<Rightarrow> tr | None \<Rightarrow> Today_range now) of
           (s, e) \<Rightarrow>
             bind_outcome (tsField rpt) (\<lambda>ts.
               let by = qp ''range_by'';
                   f = (if by \<noteq> [] then SearchFieldName rpt by False else ts)
               in Ret (rpt\<lparr>rp_timeRange := Some (s, e), rp_startEnd := Some (s, e), rp_qs := rp_qs rpt @ [EsRange f s e]\<rparr>)))
      else Ret rpt)"

definition matchPhraseQuery :: "Report \<Rightarrow> string \<Rightarrow> rvalue \<Rightarrow> Report" where
  "matchPhraseQuery rpt field v =
     (let q = (\<lambda>s. rpt\<lparr>rp_qs := rp_qs rpt @ [EsPhrase (SearchFieldName rpt field False) s]\<rparr>)
      in case v of RString s \<Rightarrow> q s | RStrings (s # _) \<Rightarrow> q s | _ \<Rightarrow> rpt)"

definition TermsQuery :: "Report \<Rightarrow> string \<Rightarrow> rvalue \<Rightarrow> Report" where
  "TermsQuery rpt field v =
     (let f = Field rpt field RPT_TAG;
          sfn = SearchFieldName rpt field True;
          vs = (case v of RString s \<Rightarrow> [RString s] | RStrings ss \<Rightarrow> map RString ss | RIfaces xs \<Rightarrow> xs | _ \<Rightarrow> []);
          filters = (case v of RString s \<Rightarrow> put_agg field s (rp_filters rpt) | _ \<Rightarrow> rp_filters rpt);
          q = EsTermsQuery sfn vs
      in rpt\<lparr>rp_filters := filters,
             rp_qs := rp_qs rpt @ [if field_Path f \<noteq> [] then EsNestedQuery (field_Path f) q else q]\<rparr>)"

definition condition_query :: "Report \<Rightarrow> Condition \<Rightarrow> Report" where
  "condition_query rpt con =
     (if k_is con \<noteq> RNil \<and> InSliceIgnorecase (k_field con) (rp_params rpt) then
        (case reportType (Field rpt (k_field con) RPT_TAG) of
           RpSearch \<Rightarrow> matchPhraseQuery rpt (k_field con) (k_is con)
         | RpTerm \<Rightarrow> TermsQuery (MatchTerms rpt [k_field con]) (k_field con) (k_is con)
         | _ \<Rightarrow> rpt)
      else rpt)"

text \<open>\<open>all_data=true\<close> writes to the pagination, nil or not.\<close>

definition all_data :: "(string \<Rightarrow> string) \<Rightarrow> Report \<Rightarrow> Report outcome" where
  "all_data qp rpt =
     (if rp_params rpt \<noteq> [] \<and> to_lower (qp ''all_data'') = ''true'' then
        (case rp_pagination rpt of
           None \<Rightarrow> Panic NilDereference
         | Some p \<Rightarrow> Ret (rpt\<lparr>rp_pagination := Some (p\<lparr>POffset := 0, Page := 1, PerPage := 10000\<rparr>)\<rparr>))
      else Ret rpt)"

definition prepare :: "Time \<Rightarrow> (string \<Rightarrow> string) \<Rightarrow> Condition list \<Rightarrow> Report \<Rightarrow> Report outcome" where
  "prepare now qp conds rpt =
     (if rp_id rpt \<noteq> [] then Ret (idsQuery rpt)
      else
        bind_outcome (all_data qp (rpt\<lparr>rp_search := (rp_search rpt)\<lparr>sv_size := Some 0\<rparr>\<rparr>)) (\<lambda>rpt1.
        bind_outcome (rangeQuery now qp rpt1) (\<lambda>rpt2.
          let rpt3 = foldl condition_query rpt2 conds
          in bind_outcome (tsField rpt3) (\<lambda>ts.
               Ret (rpt3\<lparr>rp_search := (rp_search rpt3)\<lparr>sv_sort := sv_sort (rp_search rpt3) @ [(ts, False)]\<rparr>\<rparr>)))))"

text \<open>The request of a report. A report of one record has no aggregations; one over an interval puts its aggregations
  below the histogram.\<close>

definition request_agg :: "string \<Rightarrow> es_agg option \<Rightarrow> Report \<Rightarrow> Report" where
  "request_agg n a rpt = rpt\<lparr>rp_search := (rp_search rpt)\<lparr>sv_aggs := put_agg n a (sv_aggs (rp_search rpt))\<rparr>\<rparr>"

definition build_hits :: "Report \<Rightarrow> Report" where
  "build_hits rpt =
     (case rp_pagination rpt of
        None \<Rightarrow> rpt
      | Some pg \<Rightarrow>
          (case rp_tophits rpt of
             Some (f, sortf, asc) \<Rightarrow>
               request_agg RTKEY_TOPHITS
                 (Some (SubAggregation (Missing (SetSize (TermsAgg f) (PerPage pg))) sortf (Some (TopAgg sortf False)))) rpt
           | None \<Rightarrow> rpt\<lparr>rp_search := (rp_search rpt)\<lparr>sv_from := Some (POffset pg), sv_size := Some (PerPage pg)\<rparr>\<rparr>))"

fun build_interval :: "Report \<Rightarrow> string \<Rightarrow> Aggregation list \<Rightarrow> es_agg \<Rightarrow> string list \<Rightarrow> es_agg \<times> Aggregation list \<times> string list" where
  "build_interval rpt ts [] e dims = (e, [], dims)"
| "build_interval rpt ts (agg # aggs) e dims =
     (case buildAgg rpt ts agg [] True dims of
        (a, agg', dims') \<Rightarrow>
          let e1 = SubAggregation e (ag_field agg) a;
              e2 = (if reportType (Field rpt (ag_field agg) RPT_TAG) = RpCumSum
                    then SubAggregation e1 (ag_field agg @ ''::_cumn_'') (Some (CumSumAgg (ag_field agg))) else e1)
          in case build_interval rpt ts aggs e2 dims' of (e3, aggs', dims'') \<Rightarrow> (e3, agg' # aggs', dims''))"

fun build_list :: "string \<Rightarrow> bool \<Rightarrow> (report_type \<Rightarrow> bool) \<Rightarrow> Aggregation list \<Rightarrow> Report \<Rightarrow> Aggregation list \<times> Report" where
  "build_list ts inc ok [] rpt = ([], rpt)"
| "build_list ts inc ok (agg # aggs) rpt =
     (if ok (reportType (Field rpt (ag_field agg) RPT_TAG)) then
        (case buildAgg rpt ts agg [] inc (rp_dimensions rpt) of
           (a, agg', dims) \<Rightarrow>
             (case build_list ts inc ok aggs (request_agg (ag_field agg) a (rpt\<lparr>rp_dimensions := dims\<rparr>)) of
                (aggs', rpt') \<Rightarrow> (agg' # aggs', rpt')))
      else (case build_list ts inc ok aggs rpt of (aggs', rpt') \<Rightarrow> (agg # aggs', rpt')))"

definition summary_type :: "report_type \<Rightarrow> bool" where
  "summary_type t \<longleftrightarrow> t \<in> {RpSum, RpCumSum, RpTerm, RpLast, RpAvg, RpMax, RpMin}"

definition build_aggs :: "string \<Rightarrow> Report \<Rightarrow> Report" where
  "build_aggs ts rpt =
     (if rp_interval rpt \<noteq> [] then
        (case build_interval rpt ts (rp_aggs rpt) (DateHistogramAgg ts (rp_interval rpt)) (rp_dimensions rpt @ [RTKEY_TIME]) of
           (e, aggs, dims) \<Rightarrow> request_agg RTKEY_INTVL (Some e) (rpt\<lparr>rp_aggs := aggs, rp_dimensions := dims\<rparr>))
      else (case build_list ts True (\<lambda>_. True) (rp_aggs rpt) rpt of (aggs, rpt') \<Rightarrow> rpt'\<lparr>rp_aggs := aggs\<rparr>))"

definition build_summary :: "string \<Rightarrow> Report \<Rightarrow> Report" where
  "build_summary ts rpt = (case build_list ts False summary_type (rp_summary rpt) rpt of (aggs, rpt') \<Rightarrow> rpt'\<lparr>rp_summary := aggs\<rparr>)"

definition build_dics :: "string \<Rightarrow> Report \<Rightarrow> Report" where
  "build_dics ts rpt = (case build_list ts False (\<lambda>t. t = RpTerm) (rp_dics rpt) rpt of (aggs, rpt') \<Rightarrow> rpt'\<lparr>rp_dics := aggs\<rparr>)"

text \<open>\<open>FetchSourceContext\<close> replaces the context set before.\<close>

definition source_filters :: "Report \<Rightarrow> Report" where
  "source_filters rpt =
     (let rpt1 = (if rp_includes rpt \<noteq> [] then rpt\<lparr>rp_search := (rp_search rpt)\<lparr>sv_source := Some (True, rp_includes rpt)\<rparr>\<rparr> else rpt)
      in if rp_excludes rpt1 \<noteq> [] then rpt1\<lparr>rp_search := (rp_search rpt1)\<lparr>sv_source := Some (False, rp_excludes rpt1)\<rparr>\<rparr> else rpt1)"

definition build_request :: "Time \<Rightarrow> (string \<Rightarrow> string) \<Rightarrow> Condition list \<Rightarrow> Report \<Rightarrow> Report outcome" where
  "build_request now qp conds rpt =
     bind_outcome (prepare now qp conds rpt) (\<lambda>rpt1.
       let rpt2 = (if rp_qs rpt1 \<noteq> [] then rpt1\<lparr>rp_search := (rp_search rpt1)\<lparr>sv_query := Some (rp_qs rpt1)\<rparr>\<rparr> else rpt1)
       in if rp_id rpt2 \<noteq> [] then Ret rpt2
          else bind_outcome (tsField rpt2) (\<lambda>ts.
            let rpt3 = request_agg RTKEY_END (Some (MaxAgg ts)) (request_agg RTKEY_START (Some (MinAgg ts)) rpt2)
            in Ret (source_filters (build_dics ts (build_summary ts (build_aggs ts (build_hits rpt3)))))))"

section \<open>Responses\<close>

text \<open>A named result: its value, its buckets, its named buckets, its hits and the results below it.\<close>

datatype es_key = KeyText string | KeyNumber string

datatype es_result = Res (res_value: "string option") (res_buckets: "es_bucket list") (res_named: "(string \<times> es_bucket) list")
  (res_hits: "string list") (res_aggs: "(string \<times> es_result) list")
and es_bucket = Bucket es_key nat "(string \<times> es_result) list"

type_synonym es_results = "(string \<times> es_result) list"

text \<open>A \<open>Result\<close> is a map, nil or not.\<close>

datatype rep = RepNil | RepNum string | RepText string | RepCount nat | RepHits "string list"
  | RepMap "(string \<times> rep) list option" | RepList "(string \<times> rep) list list"

type_synonym row = "(string \<times> rep) list"

definition rep_get :: "row option \<Rightarrow> string \<Rightarrow> rep" where
  "rep_get r k = (case r of None \<Rightarrow> RepNil | Some m \<Rightarrow> (case map_of m k of Some v \<Rightarrow> v | None \<Rightarrow> RepNil))"

definition Results :: "row option \<Rightarrow> row list" where
  "Results r = (case rep_get r RTKEY_RESULTS of RepList rows \<Rightarrow> rows | _ \<Rightarrow> [])"

definition IntervalResults :: "row option \<Rightarrow> row list" where
  "IntervalResults r = (case rep_get r RTKEY_INTVL of RepMap dr \<Rightarrow> Results dr | _ \<Rightarrow> [])"

definition Result_Count :: "row option \<Rightarrow> nat outcome" where
  "Result_Count r =
     (case r of None \<Rightarrow> Ret 0 | Some m \<Rightarrow> (case map_of m RTKEY_COUNT of None \<Rightarrow> Ret 0 | Some (RepCount n) \<Rightarrow> Ret n
        | Some _ \<Rightarrow> Panic (PanicMsg ''interface conversion'')))"

definition Result_Name :: "row option \<Rightarrow> string outcome" where
  "Result_Name r =
     (case r of None \<Rightarrow> Ret [] | Some m \<Rightarrow> (case map_of m RTKEY_NAME of None \<Rightarrow> Ret [] | Some (RepText n) \<Rightarrow> Ret n
        | Some _ \<Rightarrow> Panic (PanicMsg ''interface conversion'')))"

text \<open>Undoing the wraps, the last one first.\<close>

definition unwrap_one :: "Report \<Rightarrow> string \<Rightarrow> string \<Rightarrow> es_results \<Rightarrow> es_results" where
  "unwrap_one rpt f w aggs =
     (if w = RPT_NESTED then (case map_of aggs f of Some r \<Rightarrow> res_aggs r | None \<Rightarrow> aggs)
      else if w = RPT_FILTER then
        (case map_of (rp_filters rpt) f of
           Some v \<Rightarrow> if v \<noteq> [] then (case map_of aggs f of Some r \<Rightarrow> res_aggs r | None \<Rightarrow> aggs) else aggs
         | None \<Rightarrow> aggs)
      else aggs)"

definition unwrap :: "Report \<Rightarrow> string \<Rightarrow> string list \<Rightarrow> es_results \<Rightarrow> es_results" where
  "unwrap rpt f ws aggs = foldr (unwrap_one rpt f) ws aggs"

definition number_result :: "string \<Rightarrow> es_results \<Rightarrow> row option" where
  "number_result f aggs = (case map_of aggs f of Some r \<Rightarrow> map_option (\<lambda>v. [(f, RepNum v)]) (res_value r) | None \<Rightarrow> None)"

section \<open>Fetching\<close>

definition put_rep :: "string \<Rightarrow> rep \<Rightarrow> row \<Rightarrow> row" where
  "put_rep k v m = put_agg k v m"

text \<open>The types of properties that are copied into a row, besides terms.\<close>

definition row_number :: "bool \<Rightarrow> report_type \<Rightarrow> bool" where
  "row_number by_name t \<longleftrightarrow> t \<in> {RpSum, RpMax, RpMin, RpAvg} \<or> \<not> by_name \<and> t = RpLast"

definition property_value :: "bool \<Rightarrow> report_type \<Rightarrow> string \<Rightarrow> row option \<Rightarrow> row \<Rightarrow> row" where
  "property_value by_name t f rt tr =
     (if t = RpTerm then (case Results rt of r # _ \<Rightarrow> put_rep f (rep_get (Some r) f) tr | [] \<Rightarrow> tr)
      else if row_number by_name t then put_rep f (rep_get rt f) tr
      else tr)"

text \<open>\<open>fetchResult\<close> of an aggregation; \<open>fetch_rows\<close> makes a row of every bucket, with its properties and the
  aggregations below it. A key of another type panics.\<close>

function fetchResult :: "Report \<Rightarrow> Aggregation \<Rightarrow> es_results \<Rightarrow> row option outcome"
and fetch_rows :: "Report \<Rightarrow> bool \<Rightarrow> string \<Rightarrow> Aggregation list \<Rightarrow> Aggregation list \<Rightarrow> (string \<times> es_bucket) list \<Rightarrow> row list outcome"
and fetch_properties :: "Report \<Rightarrow> bool \<Rightarrow> Aggregation list \<Rightarrow> es_results \<Rightarrow> row \<Rightarrow> row outcome"
and fetch_subs :: "Report \<Rightarrow> Aggregation list \<Rightarrow> es_results \<Rightarrow> row \<Rightarrow> row outcome" where
  "fetchResult rpt (Agg f sz fl ps subs w) aggs0 =
     (let aggs = unwrap rpt f w aggs0
      in case reportType (Field rpt f RPT_TAG) of
           RpSum \<Rightarrow> Ret (number_result f aggs)
         | RpMax \<Rightarrow> Ret (number_result f aggs)
         | RpMin \<Rightarrow> Ret (number_result f aggs)
         | RpAvg \<Rightarrow> Ret (number_result f aggs)
         | RpCumSum \<Rightarrow> Ret (number_result f aggs)
         | RpLast \<Rightarrow>
             (case map_of aggs f of
                None \<Rightarrow> Ret None
              | Some r \<Rightarrow> (case res_buckets r of
                  [] \<Rightarrow> Ret None
                | Bucket (KeyNumber v) n sub # _ \<Rightarrow> Ret (Some [(f, RepNum v)])
                | Bucket (KeyText s) n sub # _ \<Rightarrow> Panic (PanicMsg ''interface conversion'')))
         | RpSnapshot \<Rightarrow>
             (case map_of aggs f of
                None \<Rightarrow> Ret None
              | Some r \<Rightarrow> Ret (if res_hits r = [] then None else Some [(RTKEY_HITS, RepHits (res_hits r))]))
         | RpTerm \<Rightarrow>
             (case map_of aggs f of
                None \<Rightarrow> Ret None
              | Some r \<Rightarrow>
                  if fl \<noteq> [] then
                    bind_outcome (fetch_rows rpt True f ps subs (res_named r)) (\<lambda>rows. Ret (Some [(RTKEY_RESULTS, RepList rows)]))
                  else if res_buckets r = [] then Ret None
                  else bind_outcome (fetch_rows rpt False f ps subs (map (\<lambda>b. ([], b)) (res_buckets r)))
                         (\<lambda>rows. Ret (Some [(RTKEY_RESULTS, RepList rows)])))
         | _ \<Rightarrow> Ret None)"
| "fetch_rows rpt by_name f ps subs [] = Ret []"
| "fetch_rows rpt by_name f ps subs ((name, Bucket k n aggs) # bs) =
     bind_outcome
       (if by_name then Ret [(RTKEY_NAME, RepText name), (RTKEY_COUNT, RepCount n)]
        else case k of KeyText s \<Rightarrow> Ret (put_rep f (RepText s) [(RTKEY_COUNT, RepCount n)])
          | KeyNumber v \<Rightarrow> Panic (PanicMsg ''interface conversion''))
       (\<lambda>tr. bind_outcome (fetch_properties rpt by_name ps aggs tr)
       (\<lambda>tr. bind_outcome (fetch_subs rpt subs aggs tr)
       (\<lambda>tr. bind_outcome (fetch_rows rpt by_name f ps subs bs) (\<lambda>rows. Ret (tr # rows)))))"
| "fetch_properties rpt by_name [] aggs tr = Ret tr"
| "fetch_properties rpt by_name (p # ps) aggs tr =
     bind_outcome (fetchResult rpt p aggs) (\<lambda>rt.
       fetch_properties rpt by_name ps aggs
         (property_value by_name (reportType (Field rpt (ag_field p) RPT_TAG)) (ag_field p) rt tr))"
| "fetch_subs rpt [] aggs tr = Ret tr"
| "fetch_subs rpt (s # ss) aggs tr =
     bind_outcome (fetchResult rpt s aggs) (\<lambda>rt. fetch_subs rpt ss aggs (put_rep (ag_field s) (RepMap rt) tr))"
  by pat_completeness auto
termination
  by (relation "measures
      [\<lambda>x. case x of
           Inl (Inl (rpt, agg, aggs)) \<Rightarrow> size agg
         | Inl (Inr (rpt, by_name, f, ps, subs, bs)) \<Rightarrow> size_list size ps + size_list size subs
         | Inr (Inl (rpt, by_name, ps, aggs, tr)) \<Rightarrow> size_list size ps
         | Inr (Inr (rpt, ss, aggs, tr)) \<Rightarrow> size_list size ss,
       \<lambda>x. case x of
           Inl (Inr (rpt, by_name, f, ps, subs, bs)) \<Rightarrow> Suc (length bs)
         | _ \<Rightarrow> 0]")
    auto

declare fetchResult.simps [simp del]

text \<open>The pages and hits of a report, the first and last time, the summary and the dictionaries.\<close>

record report_info =
  ri_total :: "nat option"
  ri_page :: "(int \<times> int) option"
  ri_first :: string
  ri_last :: string
  ri_summary :: "row option"
  ri_dics :: "row option"
  ri_interval :: string
  ri_dimensions :: "string list"

record es_response =
  er_total :: nat
  er_hits :: "string list"
  er_aggs :: es_results

definition nonempty :: "row option \<Rightarrow> bool" where
  "nonempty r \<longleftrightarrow> r \<noteq> None \<and> r \<noteq> Some []"

definition is_number :: "report_type \<Rightarrow> bool" where
  "is_number t \<longleftrightarrow> t \<in> {RpSum, RpCumSum, RpMax, RpMin, RpAvg}"

fun fetch_summary :: "Report \<Rightarrow> bool \<Rightarrow> Aggregation list \<Rightarrow> es_results \<Rightarrow> row \<Rightarrow> row outcome" where
  "fetch_summary rpt numbers [] aggs m = Ret m"
| "fetch_summary rpt numbers (agg # more_aggs) aggs m =
     (let f = ag_field agg; t = reportType (Field rpt f RPT_TAG)
      in if numbers \<and> is_number t then
           bind_outcome (fetchResult rpt agg aggs) (\<lambda>r. fetch_summary rpt numbers more_aggs aggs (put_rep f (rep_get r f) m))
         else if t = RpTerm then
           bind_outcome (fetchResult rpt agg aggs) (\<lambda>r.
             fetch_summary rpt numbers more_aggs aggs (if nonempty r then put_rep f (RepList (Results r)) m else m))
         else fetch_summary rpt numbers more_aggs aggs m)"

fun interval_row :: "Report \<Rightarrow> Aggregation list \<Rightarrow> es_results \<Rightarrow> row \<Rightarrow> bool \<Rightarrow> (row \<times> bool) outcome" where
  "interval_row rpt [] aggs tr empt = Ret (tr, empt)"
| "interval_row rpt (agg # more_aggs) aggs tr empt =
     (let f = ag_field agg; t = reportType (Field rpt f RPT_TAG)
      in bind_outcome (fetchResult rpt agg aggs) (\<lambda>r.
           if is_number t \<or> t = RpLast
           then interval_row rpt more_aggs aggs (put_rep f (rep_get r f) tr) (empt \<and> rep_get r f = RepNil)
           else interval_row rpt more_aggs aggs (put_rep f (RepMap r) tr) (empt \<and> \<not> nonempty r)))"

fun interval_rows :: "Report \<Rightarrow> es_bucket list \<Rightarrow> row list outcome" where
  "interval_rows rpt [] = Ret []"
| "interval_rows rpt (Bucket k n aggs # bs) =
     bind_outcome (interval_row rpt (rp_aggs rpt) aggs
         [(RTKEY_TIME, RepText (case k of KeyText s \<Rightarrow> s | KeyNumber s \<Rightarrow> s)), (RTKEY_COUNT, RepCount n)] True) (\<lambda>(tr, empt).
     bind_outcome (interval_rows rpt bs) (\<lambda>rows. Ret (if empt then rows else tr # rows)))"

fun fetch_aggs :: "Report \<Rightarrow> Aggregation list \<Rightarrow> es_results \<Rightarrow> row \<Rightarrow> row outcome" where
  "fetch_aggs rpt [] aggs r = Ret r"
| "fetch_aggs rpt (agg # more_aggs) aggs r =
     bind_outcome (fetchResult rpt agg aggs) (\<lambda>rst.
       fetch_aggs rpt more_aggs aggs (if nonempty rst then put_rep (ag_field agg) (RepMap rst) r else r))"

definition bucket_hits :: "string \<Rightarrow> es_bucket \<Rightarrow> string list" where
  "bucket_hits sortf b = (case b of Bucket k n aggs \<Rightarrow> (case map_of aggs sortf of Some r \<Rightarrow> res_hits r | None \<Rightarrow> []))"

definition fetch_hits :: "Report \<Rightarrow> es_response \<Rightarrow> row" where
  "fetch_hits rpt result =
     (case rp_tophits rpt of
        None \<Rightarrow> [(RTKEY_HITS, RepHits (er_hits result))]
      | Some (f, sortf, asc) \<Rightarrow>
          (case map_of (er_aggs result) RTKEY_TOPHITS of
             None \<Rightarrow> []
           | Some r \<Rightarrow> [(RTKEY_TOPHITS, RepHits (concat (map (bucket_hits sortf) (res_buckets r))))]))"

definition fetch_time :: "(string \<Rightarrow> string) \<Rightarrow> string \<Rightarrow> es_response \<Rightarrow> string" where
  "fetch_time reformat key result =
     (case map_of (er_aggs result) key of
        None \<Rightarrow> []
      | Some r \<Rightarrow> (case res_value r of None \<Rightarrow> [] | Some v \<Rightarrow> if v = [] then [] else reformat v))"

definition fetch :: "(string \<Rightarrow> string) \<Rightarrow> Report \<Rightarrow> es_response \<Rightarrow> ((string option \<times> row) \<times> report_info) outcome" where
  "fetch reformat rpt result =
     bind_outcome (fetch_summary rpt True (rp_summary rpt) (er_aggs result) []) (\<lambda>summary.
     bind_outcome (fetch_summary rpt False (rp_dics rpt) (er_aggs result) []) (\<lambda>dics.
       let paged = rp_tophits rpt = None;
           info = \<lparr>ri_total = (if paged \<and> rp_pagination rpt \<noteq> None then Some (er_total result) else None),
                   ri_page = (if paged then map_option (\<lambda>p. (Page p, PerPage p)) (rp_pagination rpt) else None),
                   ri_first = fetch_time reformat RTKEY_START result, ri_last = fetch_time reformat RTKEY_END result,
                   ri_summary = (if summary \<noteq> [] then Some summary else None),
                   ri_dics = (if rp_dics rpt \<noteq> [] then Some dics else None),
                   ri_interval = rp_interval rpt, ri_dimensions = rp_dimensions rpt\<rparr>;
           r = fetch_hits rpt result
       in if rp_interval rpt \<noteq> [] then
            (case map_of (er_aggs result) RTKEY_INTVL of
               None \<Rightarrow> Ret ((Some ''can't build interval report'', r), info\<lparr>ri_dimensions := []\<rparr>)
             | Some intvl \<Rightarrow>
                 bind_outcome (interval_rows rpt (res_buckets intvl)) (\<lambda>drts.
                   Ret ((None, put_rep RTKEY_INTVL (RepMap (Some [(RTKEY_RESULTS, RepList drts)])) r), info)))
          else bind_outcome (fetch_aggs rpt (rp_aggs rpt) (er_aggs result) r) (\<lambda>r'. Ret ((None, r'), info))))"

definition Build ::
  "(search_service \<Rightarrow> string + es_response) \<Rightarrow> (string \<Rightarrow> string) \<Rightarrow> Time \<Rightarrow> (string \<Rightarrow> string) \<Rightarrow> Condition list \<Rightarrow> Report
    \<Rightarrow> (Report \<times> (string + (string option \<times> row) \<times> report_info)) outcome" where
  "Build run reformat now qp conds rpt =
     bind_outcome (build_request now qp conds rpt) (\<lambda>rpt'.
       case run (rp_search rpt') of
         Inl e \<Rightarrow> Ret (rpt', Inl e)
       | Inr result \<Rightarrow> bind_outcome (fetch reformat rpt' result) (\<lambda>r. Ret (rpt', Inr r)))"

section \<open>Extracting a result into a struct\<close>

text \<open>What \<open>ExtractTo\<close> does to the struct: a field is set to a text, directly or through a pointer, to a new value of its
  type, or to its zero value. Of the values of a result it knows texts only (and \<open>int\<close>, which no result holds); a value of
  another type counts as found.\<close>

datatype field_assignment = SetText "nat list" bool string | SetNew "nat list" | SetZero "nat list"

fun type_string :: "stype \<Rightarrow> string" where
  "type_string (TBase n) = n"
| "type_string (TStruct n fs) = n"
| "type_string (TPtr t) = CHR 0x2A # type_string t"
| "type_string (TSlice t) = ''[]'' @ type_string t"

definition set_leaf :: "nat list fld \<Rightarrow> rep \<Rightarrow> field_assignment list" where
  "set_leaf f v =
     (case v of
        RepText s \<Rightarrow>
          (if type_string (fld_type f) = ''string'' then [SetText (fld_index f) False s]
           else if type_string (fld_type f) = ''*string'' then [SetText (fld_index f) True s] else [])
      | _ \<Rightarrow> [])"

function extract_fields :: "row option \<Rightarrow> nat list fld list \<Rightarrow> field_assignment list \<times> bool" where
  "extract_fields r [] = ([], False)"
| "extract_fields r (f # fs) =
     (let here = (if fld_subs f = [] then
                    (case rep_get r (fst (field_tag (Some f) RPT_TAG)) of
                       RepNil \<Rightarrow> ([], False) | v \<Rightarrow> (set_leaf f v, True))
                  else
                    (case extract_fields r (fld_subs f) of
                       (as, found) \<Rightarrow> (SetNew (fld_index f) # as @ (if found then [] else [SetZero (fld_index f)]), found)))
      in case extract_fields r fs of (as, found) \<Rightarrow> (fst here @ as, snd here \<or> found))"
  by pat_completeness auto
termination
proof (relation "measure (\<lambda>(r, fs). size_list size fs)")
  show "((r, fld_subs f), r, f # fs) \<in> measure (\<lambda>(r, fs). size_list size fs)" for r f and fs :: "nat list fld list"
    by (cases f) simp
qed auto

declare extract_fields.simps [simp del]

definition ExtractTo :: "row option \<Rightarrow> stype \<Rightarrow> field_assignment list \<times> bool" where
  "ExtractTo r ob = extract_fields r (ReadStructFields ob True [FIELD_TAG, RPT_TAG])"

lemma numbers_not_extracted:
  "fld_subs f = [] \<Longrightarrow> rep_get r (fst (field_tag (Some f) RPT_TAG)) = RepNum v \<Longrightarrow> extract_fields r [f] = ([], True)"
  by (simp add: extract_fields.simps set_leaf_def)

section \<open>Wraps are undone\<close>

text \<open>The result of the aggregation inside its wraps: a nested or a filter aggregation answers with the result of the one
  below it, under its name.\<close>

fun core_result :: "es_agg \<Rightarrow> es_result \<Rightarrow> es_result option" where
  "core_result (EsNested p [(n, Some e)]) r = (case map_of (res_aggs r) n of Some r' \<Rightarrow> core_result e r' | None \<Rightarrow> None)"
| "core_result (EsFilter f v [(n, Some e)]) r = (case map_of (res_aggs r) n of Some r' \<Rightarrow> core_result e r' | None \<Rightarrow> None)"
| "core_result e r = Some r"

fun unwrapped :: "Aggregation \<Rightarrow> Aggregation" where
  "unwrapped (Agg f sz fl ps subs w) = Agg f sz fl ps subs []"

definition wraps_ok :: "Report \<Rightarrow> string \<Rightarrow> es_agg \<times> string list \<Rightarrow> bool" where
  "wraps_ok rpt f e \<longleftrightarrow> (\<forall>r c aggs. map_of aggs f = Some r \<longrightarrow> core_result (fst e) r = Some c \<longrightarrow>
     map_of (unwrap rpt f (snd e) aggs) f = Some c)"

lemma put_agg_Nil [simp]: "put_agg n a [] = [(n, a)]"
  by (simp add: put_agg_def)

lemma tag_names_differ [simp]: "RPT_FILTER \<noteq> RPT_NESTED" "RPT_NESTED \<noteq> RPT_FILTER"
  by (simp_all add: RPT_FILTER_def RPT_NESTED_def)

lemma wraps_ok_nest: "wraps_ok rpt f e \<Longrightarrow> wraps_ok rpt f (nest_agg field path f e)"
  by (auto simp: wraps_ok_def nest_agg_def NestedAgg_def unwrap_def unwrap_one_def split: option.splits)

lemma wraps_ok_filter: "wraps_ok rpt f e \<Longrightarrow> wraps_ok rpt f (filter_agg rpt f e)"
  by (auto simp: wraps_ok_def filter_agg_def FilterAgg_def unwrap_def unwrap_one_def split: option.splits)

lemma wraps_ok_plain: "(\<And>r. core_result e r = Some r) \<Longrightarrow> wraps_ok rpt f (e, [])"
  by (simp add: wraps_ok_def unwrap_def)

definition unwrapping :: "es_agg \<Rightarrow> bool" where
  "unwrapping e \<longleftrightarrow> (\<exists>f m sz o_ts subs. e = EsTerms f m sz o_ts subs) \<or> (\<exists>fs subs. e = EsFilters fs subs)"

lemma unwrapping_core: "unwrapping e \<Longrightarrow> core_result e r = Some r"
  by (auto simp: unwrapping_def)

lemma unwrapping_Sub: "unwrapping e \<Longrightarrow> unwrapping (SubAggregation e n a)"
  by (auto simp: unwrapping_def)

lemma unwrapping_properties:
  assumes "\<And>p e. unwrapping e \<Longrightarrow> unwrapping (fst (one p e))" "unwrapping e"
  shows "unwrapping (fst (build_properties one ps e))"
  using assms(2) by (induction ps arbitrary: e) (simp_all add: case_prod_beta assms(1))

lemma unwrapping_property:
  "unwrapping e \<Longrightarrow> unwrapping (fst (terms_property rpt ts field p e))"
  "unwrapping e \<Longrightarrow> unwrapping (fst (filters_property rpt ts field p e))"
  by (simp_all add: terms_property_def filters_property_def Let_def unwrapping_Sub split: report_type.splits)

lemma unwrapping_base: "unwrapping (if fl \<noteq> [] then FiltersAgg fl else terms_base rpt f sz)"
  by (auto simp: unwrapping_def FiltersAgg_def terms_base_def TermsAgg_def Let_def)

lemma unwrapping_subs: "unwrapping e \<Longrightarrow> unwrapping (fst (build_subs rpt ts ss path e dims))"
  by (induction ss arbitrary: e dims) (simp_all add: case_prod_beta unwrapping_Sub)

lemma build_wraps:
  assumes "buildAgg rpt ts (Agg f sz fl ps subs []) path inc dims = (Some e, agg', dims')"
  shows "ag_field agg' = f \<and> wraps_ok rpt f (e, ag_wraps agg')"
proof -
  have metric: "wraps_ok rpt f (build_metric mk rpt f path)" if "\<And>s r. core_result (mk s) r = Some r" for mk
    unfolding build_metric_def by (intro wraps_ok_nest wraps_ok_plain that)
  have metric_case: ?thesis
    if "(case build_metric mk rpt f path of (e, ws) \<Rightarrow> (Some e, Agg f sz fl ps subs ws, dims)) = (Some e, agg', dims')"
      "\<And>s r. core_result (mk s) r = Some r" for mk
    using that metric [of mk] by (auto split: prod.splits)
  show ?thesis
  proof (cases "reportType (Field rpt f RPT_TAG) = RpTerm")
    case True
    let ?field = "Field rpt f RPT_TAG"
    let ?dims = "if inc \<and> \<not> InSliceIgnorecase f (rp_mterms rpt) then dims @ [f] else dims"
    let ?one = "if fl \<noteq> [] then filters_property rpt ts ?field else terms_property rpt ts ?field"
    obtain e1 ps' where p: "build_properties ?one ps (if fl \<noteq> [] then FiltersAgg fl else terms_base rpt f sz) = (e1, ps')"
      by (meson surj_pair)
    obtain e2 subs' dims2 where s: "build_subs rpt ts subs (field_Path ?field) e1 ?dims = (e2, subs', dims2)"
      by (meson prod_cases3)
    have "unwrapping e1"
      using unwrapping_properties [of ?one "if fl \<noteq> [] then FiltersAgg fl else terms_base rpt f sz" ps]
        unwrapping_base [of fl rpt f sz] unwrapping_property p by (auto split: if_splits)
    then have e2: "unwrapping e2" using unwrapping_subs [of e1 rpt ts subs "field_Path ?field" ?dims] s by simp
    obtain e3 ws where n: "nest_agg ?field path f (filter_agg rpt f (e2, [])) = (e3, ws)" by fastforce
    have "wraps_ok rpt f (e3, ws)"
      using wraps_ok_nest [OF wraps_ok_filter [OF wraps_ok_plain [OF unwrapping_core [OF e2]]]] n by metis
    then show ?thesis using assms True p s n by (auto simp: buildAgg.simps Let_def split: if_splits)
  next
    case False
    show ?thesis
    proof (cases "reportType (Field rpt f RPT_TAG) = RpSnapshot")
      case True
      then show ?thesis using assms by (auto simp: buildAgg.simps Let_def TopAgg_def intro!: wraps_ok_plain)
    next
      case snap: False
      then obtain mk where "mk \<in> {SumAgg, MaxAgg, MinAgg, AvgAgg}"
        "(case build_metric mk rpt f path of (e, ws) \<Rightarrow> (Some e, Agg f sz fl ps subs ws, dims)) = (Some e, agg', dims')"
        using assms False by (auto simp: buildAgg.simps Let_def split: report_type.splits)
      then show ?thesis by (intro metric_case [of mk]) (auto simp: SumAgg_def MaxAgg_def MinAgg_def AvgAgg_def)
    qed
  qed
qed

lemma fetchResult_cong:
  assumes "map_of (unwrap rpt f w aggs) f = map_of (unwrap rpt f w' aggs') f"
  shows "fetchResult rpt (Agg f sz fl ps subs w) aggs = fetchResult rpt (Agg f sz fl ps subs w') aggs'"
  using assms by (simp add: fetchResult.simps Let_def number_result_def split: report_type.split)

text \<open>C21: What is asked for is found. The aggregation that \<open>buildAgg\<close> asks for may be wrapped in a filter and in a nested aggregation;
  \<open>fetchResult\<close> reads its result as if it stood alone, without wraps, whatever else the response holds.\<close>

theorem wraps_undone:
  assumes "buildAgg rpt ts (Agg f sz fl ps subs []) path inc dims = (Some e, agg', dims')"
    and "core_result e r = Some c" "map_of aggs f = Some r"
  shows "fetchResult rpt agg' aggs = fetchResult rpt (unwrapped agg') [(f, c)]"
proof -
  from build_wraps [OF assms(1)] assms(2, 3)
  have "ag_field agg' = f" "map_of (unwrap rpt f (ag_wraps agg') aggs) f = Some c" by (auto simp: wraps_ok_def)
  then show ?thesis by (cases agg') (auto simp: unwrap_def intro!: fetchResult_cong)
qed

section \<open>Running sums and intervals\<close>

text \<open>A running sum is not read. The histogram of an interval report asks for the running sum of a field of type \<open>cum_sum\<close> under a
  name of its own; no row changes with the result under that name, and what is reported is the sum of each interval.\<close>

lemma running_sum_not_read:
  assumes "reportType (Field rpt f RPT_TAG) = RpCumSum"
  shows "interval_row rpt [Agg f sz fl ps subs []] ((f @ ''::_cumn_'', x) # aggs) tr empt
    = interval_row rpt [Agg f sz fl ps subs []] aggs tr empt"
  using assms by (simp add: fetchResult.simps Let_def number_result_def unwrap_def is_number_def)

text \<open>The type of an aggregation that is not asked for: a nil aggregation is put into the request.\<close>

lemma last_not_built: "reportType (Field rpt f RPT_TAG) = RpLast \<Longrightarrow> fst (buildAgg rpt ts (Agg f sz fl ps subs w) path inc dims) = None"
  by (simp add: buildAgg.simps Let_def)

lemma running_property_dropped: "property_value by_name RpCumSum f rt tr = tr"
  by (simp add: property_value_def row_number_def)

lemma includes_lost: "rp_excludes rpt \<noteq> [] \<Longrightarrow> sv_source (rp_search (source_filters rpt)) = Some (False, rp_excludes rpt)"
  by (simp add: source_filters_def Let_def)

lemma number_key_panics:
  assumes "reportType (Field rpt f RPT_TAG) = RpTerm" "map_of aggs f = Some (Res v (Bucket (KeyNumber k) n sub # bs) nb hs as)"
  shows "fetchResult rpt (Agg f sz [] ps subs []) aggs = Panic (PanicMsg ''interface conversion'')"
  using assms by (simp add: fetchResult.simps Let_def unwrap_def)

lemma logs_have_no_intervals:
  "inr \<in> set intervals \<Longrightarrow> \<exists>p. Interval (NewLogs idx base ps st) inr = Panic p"
  by (simp add: Interval_def NewLogs_def empty_report_def)

lemma all_data_without_pages:
  "rp_params rpt \<noteq> [] \<Longrightarrow> to_lower (qp ''all_data'') = ''true'' \<Longrightarrow> rp_pagination rpt = None \<Longrightarrow> all_data qp rpt = Panic NilDereference"
  by (simp add: all_data_def)

text \<open>Ranges of hours, days, weeks and months end in time; the range of a long quarterly report ends before it starts; the years of a
  range are never too many.\<close>

definition valid_time :: "Time \<Rightarrow> bool" where
  "valid_time t \<longleftrightarrow> 0 \<le> tnsec t \<and> tnsec t < 1000000000"

lemma time_Sub_tAdd: "time_Sub (tAdd s d) s = max (- (2 ^ 63)) (min (2 ^ 63 - 1) d)"
proof -
  have "(tsec (tAdd s d) - tsec s) * 1000000000 + (tnsec (tAdd s d) - tnsec s) = d"
    using div_mult_mod_eq [of "tnsec s + d" 1000000000] by (simp add: tAdd_def algebra_simps)
  then show ?thesis by (simp only: time_Sub_def)
qed

lemma interval_cuts:
  "interval_cut ''hour'' 400 = 16 * 86400 - 1" "interval_cut ''day'' 400 = 400 * 86400 - 1"
  "interval_cut ''week'' 400 = 400 * 7 * 86400 - 1" "interval_cut ''month'' 400 = 400 * 30 * 86400 - 1"
  "interval_cut ''quarter'' 400 = - 147767297"
  by (simp_all add: interval_cut_def wrap32_def)

lemma interval_fits:
  assumes "Interval rpt inr = Ret rpt'" "rp_limit rpt = Some 400" "rp_timeRange rpt' = Some (s, e)"
    "inr \<in> {''hour'', ''day'', ''week'', ''month''}"
  shows "time_Sub e s \<le> 400 * interval_hours inr * 3600000000000"
proof -
  have "inr \<in> set intervals" using assms(4) by (auto simp: intervals_def)
  moreover have "min (2 ^ 63 - 1) (interval_cut inr 400 * 1000000000) \<le> 400 * interval_hours inr * 3600000000000 \<and> 0 \<le> interval_hours inr"
    using assms(4) by (elim insertE) (simp_all add: interval_cuts interval_hours_def)
  ultimately show ?thesis
    using assms(1-3) by (auto simp: Interval_def time_Sub_tAdd split: option.splits if_splits)
qed

lemma years_never_cut: "time_Sub e s \<le> 400 * interval_hours ''year'' * 3600000000000"
  by (simp add: time_Sub_def interval_hours_def)

text \<open>A quarterly report over more than 400 of its quarters, of 120 days, is not cut but turned around: the 32-bit product
  overflows, and the new end is 1710 days before the start.\<close>

lemma long_quarters_reversed:
  assumes "rp_limit rpt = Some 400" "rp_timeRange rpt = Some (s, e)" "time_Sub e s > 400 * (24 * 30 * 4) * 3600000000000"
  shows "\<exists>rpt' e'. Interval rpt ''quarter'' = Ret rpt' \<and> rp_timeRange rpt' = Some (s, e') \<and> time_Sub e' s = - 147767297 * 1000000000"
  using assms by (simp add: Interval_def intervals_def interval_hours_def interval_cuts time_Sub_tAdd)

section \<open>Examples\<close>

text \<open>An order with a price in each of its items and a running total.\<close>

definition price_report :: Report where
  "price_report = (empty_report (TStruct ''Order'' []) ''orders'')\<lparr>rp_limit := Some 400, rp_fields :=
     [Fld ''Price'' (TBase ''int'') [0] ''items'' [(FIELD_TAG, ''items.price'', []), (RPT_TAG, ''price'', [])] [],
      Fld ''Paid'' (TBase ''int'') [1] [] [(FIELD_TAG, ''paid'', []), (RPT_TAG, ''paid'', ''cum_sum'')] []]\<rparr>"

definition sum_response :: "string \<Rightarrow> es_result" where
  "sum_response v = Res (Some v) [] [] [] []"

lemma price_built:
  "buildAgg price_report ''at'' (Agg ''price'' 0 [] [] [] []) [] True []
    = (Some (EsNested ''items'' [(''price'', Some (EsSum ''items.price''))]), Agg ''price'' 0 [] [] [] [RPT_NESTED], [])"
  by code_simp

theorem wraps_undone_witness:
  "fetchResult price_report (Agg ''price'' 0 [] [] [] [RPT_NESTED]) [(''price'', Res None [] [] [] [(''price'', sum_response ''12.5'')])]
    = fetchResult price_report (Agg ''price'' 0 [] [] [] []) [(''price'', sum_response ''12.5'')]"
  using wraps_undone [OF price_built, of "Res None [] [] [] [(''price'', sum_response ''12.5'')]" "sum_response ''12.5''"
      "[(''price'', Res None [] [] [] [(''price'', sum_response ''12.5'')])]"] by simp

lemma running_sum_not_read_witness:
  "interval_row price_report [Agg ''paid'' 0 [] [] [] []] ((''paid'' @ ''::_cumn_'', sum_response ''30'') # [(''paid'', sum_response ''10'')]) [] True
    = interval_row price_report [Agg ''paid'' 0 [] [] [] []] [(''paid'', sum_response ''10'')] [] True"
proof -
  have "reportType (Field price_report ''paid'' RPT_TAG) = RpCumSum" by code_simp
  then show ?thesis by (rule running_sum_not_read)
qed

lemma long_quarters_reversed_witness:
  "\<exists>rpt' e'. Interval (price_report\<lparr>rp_timeRange := Some (zeroTime, zeroTime\<lparr>tsec := 200 * 365 * 86400\<rparr>)\<rparr>) ''quarter'' = Ret rpt'
    \<and> rp_timeRange rpt' = Some (zeroTime, e') \<and> time_Sub e' zeroTime = - 147767297 * 1000000000"
  by (rule long_quarters_reversed [where e = "zeroTime\<lparr>tsec := 200 * 365 * 86400\<rparr>"])
    (simp_all add: price_report_def time_Sub_def zeroTime_def)

lemma report_of_prices:
  "fetchResult price_report (Agg ''price'' 0 [] [] [] [RPT_NESTED]) [(''price'', Res None [] [] [] [(''price'', sum_response ''12.5'')])]
    = Ret (Some [(''price'', RepNum ''12.5'')])"
  by code_simp

end
