(* ===== verification/UtilText.thy ===== *)
theory UtilText
  imports Prelude
begin

text \<open>
  Identifiers and words: the short form of UUIDs in \<open>utils/uuid.go\<close>, and the plurals of \<open>utils/words.go\<close>, from
  which the endpoints of models are named.

  A text that is not a number leaves the big integer of \<open>ShortenUUID\<close> undefined: its value is the parameter \<open>undef\<close>.
\<close>

section \<open>Numerals\<close>

text \<open>The digits of a number in base \<open>b\<close>, the lowest first.\<close>

function digits :: "nat \<Rightarrow> nat \<Rightarrow> nat list" where
  "digits b n = (if n = 0 \<or> b < 2 then [] else n mod b # digits b (n div b))"
  by pat_completeness auto
termination
  by (relation "measure snd") auto

declare digits.simps [simp del]

definition undigits :: "nat \<Rightarrow> nat list \<Rightarrow> nat" where
  "undigits b ds = foldr (\<lambda>d a. d + b * a) ds 0"

lemma digits_0 [simp]: "digits b 0 = []"
  by (simp add: digits.simps)

lemma undigits_digits: "2 \<le> b \<Longrightarrow> undigits b (digits b n) = n"
proof (induction b n rule: digits.induct)
  case (1 b n)
  then show ?case by (cases "n = 0") (simp_all add: digits.simps [of b n] undigits_def)
qed

lemma digits_less: "2 \<le> b \<Longrightarrow> d \<in> set (digits b n) \<Longrightarrow> d < b"
proof (induction b n rule: digits.induct)
  case (1 b n)
  then show ?case by (cases "n = 0") (auto simp: digits.simps [of b n])
qed

lemma length_digits: "2 \<le> b \<Longrightarrow> length (digits b n) \<le> k \<longleftrightarrow> n < b ^ k"
proof (induction k arbitrary: n)
  case 0
  then show ?case by (cases "n = 0") (simp_all add: digits.simps [of b n])
next
  case (Suc k)
  have "n div b < b ^ k \<longleftrightarrow> n < b * b ^ k" using Suc.prems by (simp add: div_less_iff_less_mult mult.commute)
  then show ?case using Suc by (cases "n = 0") (simp_all add: digits.simps [of b n])
qed

lemma undigits_append: "undigits b (xs @ ys) = undigits b xs + b ^ length xs * undigits b ys"
  by (induction xs) (simp_all add: undigits_def algebra_simps)

lemma undigits_zeros: "undigits b (replicate k 0) = 0"
  by (induction k) (simp_all add: undigits_def)

section \<open>UUIDs\<close>

definition alphabet :: string where
  "alphabet = ''23456789ABCDEFGHJKLMNPQRSTUVWXYZabcdefghijkmnopqrstuvwxyz''"

definition shortlen :: nat where
  "shortlen = 22"

definition hex_value :: "char \<Rightarrow> nat option" where
  "hex_value c =
     (if is_digit c then Some (digit_val c)
      else if 97 \<le> (of_char c :: nat) \<and> (of_char c :: nat) \<le> 102 then Some (of_char c - 87)
      else if 65 \<le> (of_char c :: nat) \<and> (of_char c :: nat) \<le> 70 then Some (of_char c - 55) else None)"

text \<open>\<open>SetString(s, 16)\<close>.\<close>

definition parse_hex :: "string \<Rightarrow> nat option" where
  "parse_hex s =
     (let body = (if has_prefix s ''+'' then tl s else s)
      in if body \<noteq> [] \<and> (\<forall>c \<in> set body. hex_value c \<noteq> None)
         then Some (undigits 16 (rev (map (\<lambda>c. the (hex_value c)) body))) else None)"

function to_alphabet :: "nat \<Rightarrow> string" where
  "to_alphabet n = (if n = 0 then [] else alphabet ! (n mod length alphabet) # to_alphabet (n div length alphabet))"
  by pat_completeness auto
termination
  by (relation "measure id") (simp_all add: alphabet_def)

declare to_alphabet.simps [simp del]

definition ShortenUUID :: "nat \<Rightarrow> string \<Rightarrow> string" where
  "ShortenUUID undef s =
     (let s1 = to_lower (filter (\<lambda>c. c \<noteq> CHR ''-'') s);
          ss = to_alphabet (case parse_hex s1 of Some n \<Rightarrow> n | None \<Rightarrow> undef)
      in ss @ replicate (shortlen - length ss) (alphabet ! 0))"

text \<open>\<open>strings.Index\<close> in the alphabet, -1 for other characters.\<close>

definition alphabet_index :: "char \<Rightarrow> int" where
  "alphabet_index c = (if c \<in> set alphabet then int (length (takeWhile (\<lambda>x. x \<noteq> c) alphabet)) else - 1)"

definition hex_char :: "nat \<Rightarrow> char" where
  "hex_char d = (if d < 10 then digit_char d else char_of (87 + d))"

definition hex :: "int \<Rightarrow> string" where
  "hex i = (if i < 0 then ''-'' else []) @ (if i = 0 then ''0'' else map hex_char (rev (digits 16 (nat \<bar>i\<bar>))))"

text \<open>\<open>%0wv\<close> of a text pads it with zeros on the left.\<close>

definition pad0 :: "nat \<Rightarrow> string \<Rightarrow> string" where
  "pad0 w s = replicate (w - length s) (CHR ''0'') @ s"

definition LengthenUUID :: "string \<Rightarrow> string outcome" where
  "LengthenUUID s =
     (let b = hex (foldr (\<lambda>c a. a * int (length alphabet) + alphabet_index c) s 0); ll = length b
      in if ll < 24 then Panic (PanicMsg ''slice bounds out of range'')
         else Ret (pad0 8 (take (ll - 24) b) @ ''-'' @ pad0 4 (take 4 (drop (ll - 24) b)) @ ''-''
           @ pad0 4 (take 4 (drop (ll - 20) b)) @ ''-'' @ pad0 4 (take 4 (drop (ll - 16) b)) @ ''-''
           @ pad0 12 (drop (ll - 12) b)))"

text \<open>The text of a UUID: 32 digits in groups.\<close>

definition hex32 :: "nat \<Rightarrow> string" where
  "hex32 n = pad0 32 (map hex_char (rev (digits 16 n)))"

definition uuid_text :: "nat \<Rightarrow> string" where
  "uuid_text n =
     (let h = hex32 n
      in take 8 h @ ''-'' @ take 4 (drop 8 h) @ ''-'' @ take 4 (drop 12 h) @ ''-'' @ take 4 (drop 16 h) @ ''-'' @ drop 20 h)"

lemma hex_char_value: "d < 16 \<Longrightarrow> hex_value (hex_char d) = Some d \<and> lower_char (hex_char d) = hex_char d
    \<and> hex_char d \<noteq> CHR ''-'' \<and> hex_char d \<noteq> CHR ''+''"
proof (cases "d < 10")
  case True
  then have "is_digit (hex_char d)" "digit_val (hex_char d) = d" by (simp_all add: hex_char_def)
  then show ?thesis by (auto simp: hex_value_def lower_char_digit is_digit_def)
next
  case False
  assume "d < 16"
  then have c: "(of_char (hex_char d) :: nat) = 87 + d" using False by (simp add: hex_char_def of_char_char_of_small)
  then have "hex_char d \<noteq> CHR ''-''" "hex_char d \<noteq> CHR ''+''" using False by auto
  then show ?thesis using False \<open>d < 16\<close> by (simp add: hex_value_def is_digit_def lower_char_def c)
qed

lemma hex_char_0: "hex_char 0 = CHR ''0''"
  by code_simp

lemma alphabet_facts: "distinct alphabet" "length alphabet = 57"
  by (code_simp, simp add: alphabet_def)

lemma alphabet_index_nth: "i < 57 \<Longrightarrow> alphabet_index (alphabet ! i) = int i"
proof -
  assume i: "i < 57"
  have "takeWhile (\<lambda>x. x \<noteq> alphabet ! i) alphabet = take i alphabet"
    using i alphabet_facts by (intro takeWhile_eq_take_P_nth) (auto simp: nth_eq_iff_index_eq)
  then show ?thesis using i alphabet_facts by (simp add: alphabet_index_def)
qed

lemma to_alphabet_0 [simp]: "to_alphabet 0 = []"
  by (simp add: to_alphabet.simps)

lemma to_alphabet_digits: "to_alphabet n = map (\<lambda>d. alphabet ! d) (digits 57 n)"
proof (induction n rule: less_induct)
  case (less n)
  then show ?case
    by (cases "n = 0") (simp_all add: to_alphabet.simps [of n] digits.simps [of 57 n] alphabet_facts)
qed

text \<open>Reading a short text back gives the number.\<close>

lemma read_alphabet:
  assumes "\<forall>d \<in> set ds. d < 57"
  shows "foldr (\<lambda>c a. a * int (length alphabet) + alphabet_index c) (map (\<lambda>d. alphabet ! d) ds) 0 = int (undigits 57 ds)"
  using assms by (induction ds) (simp_all add: undigits_def alphabet_index_nth alphabet_facts)

lemma ShortenUUID_value:
  assumes "parse_hex (to_lower (filter (\<lambda>c. c \<noteq> CHR ''-'') s)) = Some n"
  shows "foldr (\<lambda>c a. a * int (length alphabet) + alphabet_index c) (ShortenUUID undef s) 0 = int n"
proof -
  let ?ds = "digits 57 n" and ?k = "shortlen - length (digits 57 n)"
  have s: "ShortenUUID undef s = map (\<lambda>d. alphabet ! d) (?ds @ replicate ?k 0)"
    using assms by (simp add: ShortenUUID_def to_alphabet_digits)
  have "\<forall>d \<in> set (?ds @ replicate ?k 0). d < 57" using digits_less [of 57] by auto
  from read_alphabet [OF this] show ?thesis
    unfolding s by (simp only: undigits_append undigits_zeros undigits_digits)
qed

section \<open>The text of a UUID\<close>

lemma hex32_digits: "hex32 n = map hex_char (replicate (32 - length (digits 16 n)) 0 @ rev (digits 16 n))"
  by (simp add: hex32_def pad0_def hex_char_0)

lemma hex32_chars: "c \<in> set (hex32 n) \<Longrightarrow> \<exists>d < 16. c = hex_char d"
proof -
  assume "c \<in> set (hex32 n)"
  then obtain d where "c = hex_char d" "d \<in> set (replicate (32 - length (digits 16 n)) 0 @ rev (digits 16 n))"
    unfolding hex32_digits set_map by blast
  moreover from this have "d < 16" using digits_less [of 16 d n] by auto
  ultimately show ?thesis by blast
qed

lemma length_hex32: "n < 16 ^ 32 \<Longrightarrow> length (hex32 n) = 32"
  using length_digits [of 16 n 32] by (simp add: hex32_def pad0_def)

lemma undigits_pad: "map hex_char ds = ds' \<Longrightarrow> \<forall>d \<in> set ds. d < 16 \<Longrightarrow> map (\<lambda>c. the (hex_value c)) ds' = ds"
  using hex_char_value by (auto intro!: map_idI)

lemma parse_hex32: "parse_hex (hex32 n) = (if hex32 n = [] then None else Some n)"
proof -
  let ?ds = "replicate (32 - length (digits 16 n)) 0 @ rev (digits 16 n)"
  have ds: "\<forall>d \<in> set ?ds. d < 16" using digits_less [of 16] by auto
  have "map (\<lambda>c. the (hex_value c)) (hex32 n) = ?ds" by (rule undigits_pad [OF hex32_digits [symmetric] ds])
  moreover have "rev ?ds = digits 16 n @ replicate (32 - length (digits 16 n)) 0" by simp
  then have "undigits 16 (rev ?ds) = n" by (simp only: undigits_append undigits_zeros undigits_digits)
  moreover have "\<forall>c \<in> set (hex32 n). hex_value c \<noteq> None"
    using hex32_chars [of _ n] hex_char_value by force
  moreover have "\<not> has_prefix (hex32 n) ''+''"
    using hex32_chars [of "hd (hex32 n)" n] hex_char_value by (cases "hex32 n") (auto simp: has_prefix_Cons)
  ultimately show ?thesis by (simp add: parse_hex_def rev_map [symmetric])
qed

lemma uuid_text_hex: "n < 16 ^ 32 \<Longrightarrow> to_lower (filter (\<lambda>c. c \<noteq> CHR ''-'') (uuid_text n)) = hex32 n"
proof -
  assume n: "n < 16 ^ 32"
  let ?h = "hex32 n"
  have f: "filter (\<lambda>c. c \<noteq> CHR ''-'') s = s" "to_lower s = s" if "set s \<subseteq> set ?h" for s
    using that hex32_chars [of _ n] hex_char_value by (force intro!: filter_True, force simp: to_lower_def intro!: map_idI)
  have "filter (\<lambda>c. c \<noteq> CHR ''-'') (uuid_text n)
      = take 8 ?h @ take 4 (drop 8 ?h) @ take 4 (drop 12 ?h) @ take 4 (drop 16 ?h) @ drop 20 ?h"
    unfolding uuid_text_def Let_def by (simp add: f set_take_subset set_drop_subset order_trans [OF set_take_subset set_drop_subset])
  also have "\<dots> = ?h"
  proof -
    have "take 4 (drop 16 ?h) @ drop 20 ?h = drop 16 ?h" "take 4 (drop 12 ?h) @ drop 16 ?h = drop 12 ?h"
      "take 4 (drop 8 ?h) @ drop 12 ?h = drop 8 ?h"
      using append_take_drop_id [of 4 "drop 16 ?h"] append_take_drop_id [of 4 "drop 12 ?h"] append_take_drop_id [of 4 "drop 8 ?h"]
      by (simp_all add: drop_drop)
    then show ?thesis by simp
  qed
  finally show ?thesis using f(2) [of ?h] by simp
qed

lemma pad0_id [simp]: "length s = w \<Longrightarrow> pad0 w s = s"
  by (simp add: pad0_def)

text \<open>The groups that \<open>LengthenUUID\<close> cuts, from a text of 24 to 32 digits.\<close>

lemma uuid_groups:
  assumes "length b = ll" "24 \<le> ll" "ll \<le> 32"
  shows "pad0 8 (take (ll - 24) b) = take 8 (pad0 32 b)" "take 4 (drop (ll - 24) b) = take 4 (drop 8 (pad0 32 b))"
    "take 4 (drop (ll - 20) b) = take 4 (drop 12 (pad0 32 b))" "take 4 (drop (ll - 16) b) = take 4 (drop 16 (pad0 32 b))"
    "drop (ll - 12) b = drop 20 (pad0 32 b)"
proof -
  have d: "drop j (pad0 32 b) = drop (j + ll - 32) b" if "8 \<le> j" for j
    using that assms by (simp add: pad0_def)
  have "8 - (32 - ll) = ll - 24" "8 - (ll - 24) = 32 - ll" using assms(2,3) by simp_all
  then show "pad0 8 (take (ll - 24) b) = take 8 (pad0 32 b)"
    using assms by (simp add: pad0_def min_def)
  show "take 4 (drop (ll - 24) b) = take 4 (drop 8 (pad0 32 b))" "take 4 (drop (ll - 20) b) = take 4 (drop 12 (pad0 32 b))"
    "take 4 (drop (ll - 16) b) = take 4 (drop 16 (pad0 32 b))" "drop (ll - 12) b = drop 20 (pad0 32 b)"
    by (simp_all add: d add.commute)
qed

lemma LengthenUUID_hex:
  assumes "foldr (\<lambda>c a. a * int (length alphabet) + alphabet_index c) s 0 = i" "hex i = b" "length b = ll" "24 \<le> ll"
  shows "LengthenUUID s = Ret (pad0 8 (take (ll - 24) b) @ ''-'' @ pad0 4 (take 4 (drop (ll - 24) b)) @ ''-''
     @ pad0 4 (take 4 (drop (ll - 20) b)) @ ''-'' @ pad0 4 (take 4 (drop (ll - 16) b)) @ ''-'' @ pad0 12 (drop (ll - 12) b))"
  using assms(4) unfolding LengthenUUID_def Let_def assms(1-3) by simp

section \<open>Properties of UUIDs\<close>

text \<open>C35: The short form of a UUID can be read back, unless the UUID starts with nine zeros. \<open>LengthenUUID\<close> of the short
  form of a UUID is its text when its number has at least 24 hexadecimal digits, and panics otherwise.\<close>

theorem uuid_roundtrip:
  assumes "n < 16 ^ 32"
  shows "LengthenUUID (ShortenUUID undef (uuid_text n))
    = (if 16 ^ 23 \<le> n then Ret (uuid_text n) else Panic (PanicMsg ''slice bounds out of range''))"
proof -
  have "hex32 n \<noteq> []" using length_hex32 [OF assms] by auto
  then have v: "foldr (\<lambda>c a. a * int (length alphabet) + alphabet_index c) (ShortenUUID undef (uuid_text n)) 0 = int n"
    by (intro ShortenUUID_value) (simp add: uuid_text_hex [OF assms] parse_hex32)
  let ?b = "map hex_char (rev (digits 16 n))" and ?ll = "length (digits 16 n)"
  have ll: "?ll < 24 \<longleftrightarrow> n < 16 ^ 23" "?ll \<le> 32" using length_digits [of 16 n 23] length_digits [of 16 n 32] assms by auto
  show ?thesis
  proof (cases "16 ^ 23 \<le> n")
    case True
    then have h: "hex (int n) = ?b" "length ?b = ?ll" "24 \<le> ?ll" using ll by (auto simp: hex_def)
    have p: "pad0 32 ?b = hex32 n" by (simp add: hex32_def)
    note g = uuid_groups [OF h(2,3) ll(2), unfolded p]
    have l: "length (take 4 (drop 8 (hex32 n))) = 4" "length (take 4 (drop 12 (hex32 n))) = 4"
      "length (take 4 (drop 16 (hex32 n))) = 4" "length (drop 20 (hex32 n)) = 12"
      using length_hex32 [OF assms] by simp_all
    have "LengthenUUID (ShortenUUID undef (uuid_text n)) = Ret (uuid_text n)"
      unfolding LengthenUUID_hex [OF v h] by (simp only: uuid_text_def Let_def g l pad0_id)
    then show ?thesis using True by simp
  next
    case False
    then have "length (hex (int n)) < 24" using ll by (cases "n = 0") (simp_all add: hex_def)
    then show ?thesis using False by (simp add: LengthenUUID_def v Let_def)
  qed
qed

theorem uuid_roundtrip_witness:
  "LengthenUUID (ShortenUUID 0 (uuid_text (16 ^ 31 + 5))) = Ret (uuid_text (16 ^ 31 + 5))"
  using uuid_roundtrip [of "16 ^ 31 + 5" 0] by simp

section \<open>Plurals\<close>

definition pluralDictionary :: "(string \<times> string) list" where
  "pluralDictionary = [
    (''is'', ''are''), (''analysis'', ''analyses''), (''alumnus'', ''alumni''), (''alumnae'', ''alumni''),
    (''atlas'', ''atlases''), (''appendix'', ''appendices''), (''barrack'', ''barracks''), (''beef'', ''beefs''),
    (''brother'', ''brothers''), (''cafe'', ''cafes''), (''corpus'', ''corpuses''), (''cow'', ''cows''),
    (''ganglion'', ''ganglions''), (''genus'', ''genera''), (''graffito'', ''graffiti''), (''loaf'', ''loaves''),
    (''money'', ''monies''), (''mongoose'', ''mongooses''), (''move'', ''moves''), (''mythos'', ''mythoi''),
    (''niche'', ''niches''), (''numen'', ''numina''), (''octopus'', ''octopuses''), (''opus'', ''opuses''),
    (''ox'', ''oxen''), (''penis'', ''penises''), (''vagina'', ''vaginas''), (''sex'', ''sexes''),
    (''testis'', ''testes''), (''turf'', ''turfs''), (''tooth'', ''teeth''), (''foot'', ''feet''),
    (''cactus'', ''cacti''), (''child'', ''children''), (''criterion'', ''criteria''), (''news'', ''news''),
    (''datum'', ''data''), (''deer'', ''deer''), (''echo'', ''echoes''), (''elf'', ''elves''),
    (''embargo'', ''embargoes''), (''foe'', ''foes''), (''focus'', ''foci''), (''fungus'', ''fungi''),
    (''goose'', ''geese''), (''hero'', ''heroes''), (''hoof'', ''hooves''), (''index'', ''indices''),
    (''knife'', ''knives''), (''leaf'', ''leaves''), (''life'', ''lives''), (''man'', ''men''),
    (''mouse'', ''mice''), (''nucleus'', ''nuclei''), (''person'', ''people''), (''phenomenon'', ''phenomena''),
    (''potato'', ''potatoes''), (''self'', ''selves''), (''syllabus'', ''syllabi''), (''tomato'', ''tomatoes''),
    (''torpedo'', ''torpedoes''), (''veto'', ''vetoes''), (''woman'', ''women''), (''zero'', ''zeroes'')]"

definition singularDictionary :: "(string \<times> string) list" where
  "singularDictionary = [
    (''are'', ''is''), (''analyses'', ''analysis''), (''alumni'', ''alumnus''), (''genii'', ''genius''),
    (''data'', ''datum''), (''atlases'', ''atlas''), (''appendices'', ''appendix''), (''barracks'', ''barrack''),
    (''beefs'', ''beef''), (''brothers'', ''brother''), (''cafes'', ''cafe''), (''corpuses'', ''corpus''),
    (''cows'', ''cow''), (''ganglions'', ''ganglion''), (''genera'', ''genus''), (''graffiti'', ''graffito''),
    (''loaves'', ''loaf''), (''monies'', ''money''), (''mongooses'', ''mongoose''), (''moves'', ''move''),
    (''mythoi'', ''mythos''), (''niches'', ''niche''), (''numina'', ''numen''), (''octopuses'', ''octopus''),
    (''opuses'', ''opus''), (''oxen'', ''ox''), (''penises'', ''penis''), (''vaginas'', ''vagina''),
    (''sexes'', ''sex''), (''testes'', ''testis''), (''turfs'', ''turf''), (''teeth'', ''tooth''),
    (''feet'', ''foot''), (''cacti'', ''cactus''), (''children'', ''child''), (''criteria'', ''criterion''),
    (''news'', ''news''), (''deer'', ''deer''), (''echoes'', ''echo''), (''elves'', ''elf''),
    (''embargoes'', ''embargo''), (''foes'', ''foe''), (''foci'', ''focus''), (''fungi'', ''fungus''),
    (''geese'', ''goose''), (''heroes'', ''hero''), (''hooves'', ''hoof''), (''indices'', ''index''),
    (''knifes'', ''knife''), (''leaves'', ''leaf''), (''lives'', ''life''), (''men'', ''man''),
    (''mice'', ''mouse''), (''nuclei'', ''nucleus''), (''people'', ''person''), (''phenomena'', ''phenomenon''),
    (''potatoes'', ''potato''), (''selves'', ''self''), (''syllabi'', ''syllabus''), (''tomatoes'', ''tomato''),
    (''torpedoes'', ''torpedo''), (''vetoes'', ''veto''), (''women'', ''woman''), (''zeroes'', ''zero'')]"

text \<open>A map of texts gives the empty text for a missing key.\<close>

definition look_up :: "(string \<times> string) list \<Rightarrow> string \<Rightarrow> string" where
  "look_up d k = (case map_of d k of Some v \<Rightarrow> v | None \<Rightarrow> [])"

definition inVowels :: "char \<Rightarrow> bool" where
  "inVowels c \<longleftrightarrow> c \<in> set ''aeiou''"

text \<open>The last \<open>k\<close> characters, and the character before the last.\<close>

definition ending :: "nat \<Rightarrow> string \<Rightarrow> string outcome" where
  "ending k s = (if k \<le> length s then Ret (drop (length s - k) s) else Panic (PanicMsg ''slice bounds out of range''))"

definition before_last :: "string \<Rightarrow> char outcome" where
  "before_last s = (if 2 \<le> length s then Ret (s ! (length s - 2)) else Panic IndexOutOfRange)"

text \<open>The first of the two tests of the last character is always true.\<close>

definition AlreadyPluralized :: "string \<Rightarrow> bool outcome" where
  "AlreadyPluralized t =
     (if length t \<noteq> 1 then
        if look_up singularDictionary t \<noteq> [] then Ret True
        else bind_outcome (ending 1 t) (\<lambda>e1.
          if e1 \<noteq> ''s'' then
            if e1 \<noteq> ''e'' \<or> e1 \<noteq> ''y'' then Ret False
            else bind_outcome (ending 2 t) (\<lambda>e2. bind_outcome (ending 3 t) (\<lambda>e3.
              Ret (e2 \<noteq> ''ch'' \<and> e2 \<noteq> ''sh'' \<and> e3 \<noteq> ''nes'' \<and> e3 \<noteq> ''ius'' \<and> look_up pluralDictionary t = [])))
          else Ret True)
      else Ret False)"

text \<open>The regular plural.\<close>

definition regular_plural :: "string \<Rightarrow> string outcome" where
  "regular_plural s =
     bind_outcome (ending 1 s) (\<lambda>e1. bind_outcome (before_last s) (\<lambda>c.
       if e1 = ''y'' \<and> \<not> inVowels c then Ret (butlast s @ ''ies'')
       else if e1 = ''s'' then
         if inVowels c then
           bind_outcome (ending 3 s) (\<lambda>e3.
             Ret (if e3 = ''ius'' then take (length s - 2) s @ ''i'' else butlast s @ ''ses''))
         else Ret (s @ ''es'')
       else bind_outcome (ending 2 s) (\<lambda>e2. Ret (if e2 = ''ch'' \<or> e2 = ''sh'' then s @ ''es'' else s @ ''s''))))"

definition Pluralize :: "string \<Rightarrow> string outcome" where
  "Pluralize s =
     (if s = [] then Ret ''Singular cannot be empty''
      else if length s = 1 then Ret (s @ ''s'')
      else if look_up pluralDictionary s \<noteq> [] then Ret (look_up pluralDictionary s)
      else if has_suffix s ''sis'' then Ret (take (length s - 3) s @ ''ses'')
      else if has_suffix s ''z'' then Ret (butlast s @ ''zes'')
      else if has_suffix s ''ex'' then Ret (take (length s - 2) s @ ''ices'')
      else if has_suffix s ''ix'' then Ret (take (length s - 2) s @ ''ices'')
      else if has_suffix s ''us'' then Ret (take (length s - 2) s @ ''uses'')
      else bind_outcome (regular_plural s) (\<lambda>plural.
        bind_outcome (AlreadyPluralized s) (\<lambda>already. Ret (if already then s else plural))))"

lemma ending_append: "length e = k \<Longrightarrow> ending k (r @ e) = Ret e"
  by (simp add: ending_def)

lemma word_end:
  assumes "2 \<le> length s"
  obtains r c d where "s = r @ [c, d]" "ending 1 s = Ret [d]" "before_last s = Ret c" "ending 2 s = Ret [c, d]"
proof -
  obtain r d where r: "s = r @ [d]" using assms by (cases s rule: rev_cases) auto
  then obtain r' c where "r = r' @ [c]" using assms by (cases r rule: rev_cases) auto
  with r have s: "s = r' @ [c, d]" by simp
  show thesis by (rule that [OF s]) (simp_all add: s ending_def before_last_def nth_append)
qed

text \<open>The only words without a plural: two letters of which the second is an s and the first a vowel.\<close>

lemma AlreadyPluralized_Ret: "2 \<le> length s \<Longrightarrow> \<exists>b. AlreadyPluralized s = Ret b"
  by (rule word_end [of s]) (auto simp: AlreadyPluralized_def)

lemma regular_plural_panics:
  assumes "2 \<le> length s"
  shows "(\<exists>p. regular_plural s = Panic p) \<longleftrightarrow> length s = 2 \<and> s ! 1 = CHR ''s'' \<and> inVowels (s ! 0)"
proof -
  obtain r c d where e: "s = r @ [c, d]" "ending 1 s = Ret [d]" "before_last s = Ret c" "ending 2 s = Ret [c, d]"
    using word_end [OF assms] by blast
  show ?thesis
  proof (cases "d = CHR ''s'' \<and> inVowels c")
    case False
    then have "\<exists>q. regular_plural s = Ret q" unfolding regular_plural_def e(2-4) by auto
    then show ?thesis using False by (auto simp: e(1) nth_append)
  next
    case True
    then have "regular_plural s = bind_outcome (ending 3 s) (\<lambda>e3.
        Ret (if e3 = ''ius'' then take (length s - 2) s @ ''i'' else butlast s @ ''ses''))"
      unfolding regular_plural_def e(2-4) by simp
    moreover have "(\<exists>p. ending 3 s = Panic p) \<longleftrightarrow> r = []" by (cases r) (simp_all add: ending_def e(1))
    ultimately have "(\<exists>p. regular_plural s = Panic p) \<longleftrightarrow> r = []" by (cases "ending 3 s") auto
    then show ?thesis using True by (auto simp: e(1))
  qed
qed

text \<open>For which words the plural panics. \<open>Pluralize\<close> returns for every text but \<open>as\<close>, \<open>es\<close> and \<open>os\<close>.\<close>

lemma pluralize_panics_iff: "(\<exists>p. Pluralize s = Panic p) \<longleftrightarrow> s \<in> {''as'', ''es'', ''os''}"
proof (cases "2 \<le> length s")
  case False
  then have "s = [] \<or> length s = 1" by (cases "length s") auto
  then have "\<exists>q. Pluralize s = Ret q" unfolding Pluralize_def by auto
  moreover have "s \<notin> {''as'', ''es'', ''os''}" using False by auto
  ultimately show ?thesis by auto
next
  case True
  obtain b where b: "AlreadyPluralized s = Ret b" using AlreadyPluralized_Ret [OF True] by blast
  have two: "length s = 2 \<and> s ! 1 = CHR ''s'' \<and> inVowels (s ! 0) \<longleftrightarrow> s \<in> {''as'', ''es'', ''is'', ''os'', ''us''}"
    by (cases s rule: remdups_adj.cases) (auto simp: inVowels_def)
  define early where "early \<longleftrightarrow> look_up pluralDictionary s \<noteq> [] \<or> has_suffix s ''sis'' \<or> has_suffix s ''z''
    \<or> has_suffix s ''ex'' \<or> has_suffix s ''ix'' \<or> has_suffix s ''us''"
  have "s \<noteq> []" "length s \<noteq> 1" using True by auto
  then have "(\<exists>p. Pluralize s = Panic p) \<longleftrightarrow> \<not> early \<and> (\<exists>p. regular_plural s = Panic p)"
    by (cases "regular_plural s") (simp_all add: Pluralize_def early_def b)
  also have "\<dots> \<longleftrightarrow> \<not> early \<and> s \<in> {''as'', ''es'', ''is'', ''os'', ''us''}" using regular_plural_panics [OF True] two by blast
  also have "\<dots> \<longleftrightarrow> s \<in> {''as'', ''es'', ''os''}"
  proof -
    have "early" if "s = ''is'' \<or> s = ''us''"
      using that by (elim disjE) (simp_all add: early_def look_up_def pluralDictionary_def has_suffix_def)
    moreover have "\<not> early" if "s = ''as'' \<or> s = ''es'' \<or> s = ''os''"
      using that by (elim disjE) (simp_all add: early_def look_up_def pluralDictionary_def has_suffix_def)
    ultimately show ?thesis by blast
  qed
  finally show ?thesis .
qed

text \<open>A word that ends in s and is in no list is its own plural, so the rules for such words have no effect.\<close>

lemma pluralize_s:
  assumes "3 \<le> length s" "has_suffix s ''s''" "look_up pluralDictionary s = []"
    and "\<not> has_suffix s ''sis''" "\<not> has_suffix s ''us''"
  shows "Pluralize s = Ret s"
proof -
  have l: "2 \<le> length s" using assms(1) by simp
  obtain r c d where e: "s = r @ [c, d]" "ending 1 s = Ret [d]" "before_last s = Ret c" "ending 2 s = Ret [c, d]"
    using word_end [OF l] by blast
  have d: "d = CHR ''s''" using assms(2) e(1) by (auto simp: has_suffix_def)
  have "AlreadyPluralized s = Ret True" using l unfolding AlreadyPluralized_def e(2) d by simp
  moreover obtain p where "regular_plural s = Ret p"
    using regular_plural_panics [OF l] assms(1) by (cases "regular_plural s") auto
  moreover have "\<not> has_suffix s ''z''" "\<not> has_suffix s ''ex''" "\<not> has_suffix s ''ix''" by (auto simp: has_suffix_def e(1) d)
  moreover have "s \<noteq> []" "length s \<noteq> 1" using assms(1) by auto
  ultimately show ?thesis using assms(3-5) by (simp add: Pluralize_def)
qed

end
