(* ===== verification/UtilSlice.thy ===== *)
theory UtilSlice
  imports Prelude
begin

text \<open>
  Slices and the locked map: \<open>utils/slice.go\<close> and \<open>utils/safemap.go\<close>.

  The values are of any type with equality (Go panics when it compares values that are not comparable). A loop that may not end is a
  partial function: \<open>None\<close> is a call that never returns. The random choices of \<open>SliceRandList\<close>, \<open>SliceRand\<close> and \<open>SliceShuffle\<close> are
  arguments.
\<close>

section \<open>Membership\<close>

fun InSlice :: "'a \<Rightarrow> 'a list \<Rightarrow> bool" where
  "InSlice v [] = False"
| "InSlice v (w # ws) = (if w = v then True else InSlice v ws)"

fun purge_loop :: "'a \<Rightarrow> 'a list \<Rightarrow> 'a list \<Rightarrow> 'a list" where
  "purge_loop v [] acc = acc"
| "purge_loop v (w # ws) acc = purge_loop v ws (if w \<noteq> v then acc @ [w] else acc)"

definition PurgeSlice :: "'a \<Rightarrow> 'a list \<Rightarrow> 'a list" where
  "PurgeSlice v sl = purge_loop v sl []"

section \<open>Slices as collections\<close>

definition SliceMerge :: "'a list \<Rightarrow> 'a list \<Rightarrow> 'a list" where
  "SliceMerge a b = a @ b"

fun SliceReduce :: "('a \<Rightarrow> 'b) \<Rightarrow> 'a list \<Rightarrow> 'b list \<Rightarrow> 'b list" where
  "SliceReduce f [] acc = acc"
| "SliceReduce f (v # vs) acc = SliceReduce f vs (acc @ [f v])"

fun SliceSum :: "int list \<Rightarrow> int \<Rightarrow> int" where
  "SliceSum [] acc = acc"
| "SliceSum (v # vs) acc = SliceSum vs (wrap64 (acc + v))"

fun filter_loop :: "('a \<Rightarrow> bool) \<Rightarrow> 'a list \<Rightarrow> 'a list \<Rightarrow> 'a list" where
  "filter_loop f [] acc = acc"
| "filter_loop f (v # vs) acc = filter_loop f vs (if f v then acc @ [v] else acc)"

definition SliceFilter :: "('a \<Rightarrow> bool) \<Rightarrow> 'a list \<Rightarrow> 'a list" where
  "SliceFilter f sl = filter_loop f sl []"

definition SliceDiff :: "'a list \<Rightarrow> 'a list \<Rightarrow> 'a list" where
  "SliceDiff a b = filter_loop (\<lambda>v. \<not> InSlice v b) a []"

definition SliceIntersect :: "'a list \<Rightarrow> 'a list \<Rightarrow> 'a list" where
  "SliceIntersect a b = filter_loop (\<lambda>v. \<not> InSlice v b) a []"

fun unique_loop :: "'a list \<Rightarrow> 'a list \<Rightarrow> 'a list" where
  "unique_loop [] acc = acc"
| "unique_loop (v # vs) acc = unique_loop vs (if \<not> InSlice v acc then acc @ [v] else acc)"

definition SliceUnique :: "'a list \<Rightarrow> 'a list" where
  "SliceUnique sl = unique_loop sl []"

section \<open>Loops over indices\<close>

text \<open>\<open>s[lo:hi]\<close> of a slice whose capacity is its length.\<close>

definition subslice :: "'a list \<Rightarrow> int \<Rightarrow> int \<Rightarrow> 'a list outcome" where
  "subslice xs lo hi =
     (if 0 \<le> lo \<and> lo \<le> hi \<and> hi \<le> int (length xs) then Ret (take (nat (hi - lo)) (drop (nat lo) xs))
      else Panic (PanicMsg ''slice bounds out of range''))"

partial_function (option) chunk_loop :: "'a list \<Rightarrow> int \<Rightarrow> int \<Rightarrow> int \<Rightarrow> 'a list list \<Rightarrow> 'a list list outcome option" where
  "chunk_loop xs sz i hi acc =
     (if i \<le> int (length xs) - sz
      then case subslice xs i hi of
             Panic p \<Rightarrow> Some (Panic p)
           | Ret c \<Rightarrow> chunk_loop xs sz (i + sz) (hi + sz) (acc @ [c])
      else Some (Ret acc))"

definition SliceChunk :: "'a list \<Rightarrow> int \<Rightarrow> 'a list list outcome option" where
  "SliceChunk xs sz = (if int (length xs) \<le> sz then Some (Ret [xs]) else chunk_loop xs sz 0 sz [])"

partial_function (option) range_loop :: "int \<Rightarrow> int \<Rightarrow> int \<Rightarrow> int list \<Rightarrow> int list option" where
  "range_loop i hi step acc = (if i \<le> hi then range_loop (wrap64 (i + step)) hi step (acc @ [i]) else Some acc)"

definition SliceRange :: "int \<Rightarrow> int \<Rightarrow> int \<Rightarrow> int list option" where
  "SliceRange lo hi step = range_loop lo hi step []"

text \<open>The bound of this loop shrinks while the slice grows.\<close>

function pad_loop :: "nat \<Rightarrow> 'a list \<Rightarrow> int \<Rightarrow> 'a \<Rightarrow> 'a list" where
  "pad_loop i xs sz val = (if int i < sz - int (length xs) then pad_loop (Suc i) (xs @ [val]) sz val else xs)"
  by pat_completeness auto
termination
  by (relation "measure (\<lambda>(i, xs, sz, val). nat (sz - int (length xs) - int i))") auto

declare pad_loop.simps [simp del]

definition SlicePad :: "'a list \<Rightarrow> int \<Rightarrow> 'a \<Rightarrow> 'a list" where
  "SlicePad xs sz val = (if sz \<le> int (length xs) then xs else pad_loop 0 xs sz val)"

section \<open>Random choices\<close>

text \<open>\<open>perm\<close> is the permutation \<open>rand.Perm\<close> gives for a length.\<close>

definition SliceRandList :: "(nat \<Rightarrow> nat list) \<Rightarrow> int \<Rightarrow> int \<Rightarrow> int list" where
  "SliceRandList perm a b =
     (let lo = min a b; hi = max a b in map (\<lambda>k. int k + lo) (perm (nat (hi - lo + 1))))"

definition SliceRand :: "nat \<Rightarrow> 'a list \<Rightarrow> 'a outcome" where
  "SliceRand r a = (if a = [] then Panic (PanicMsg ''invalid argument to Intn'') else Ret (a ! (r mod length a)))"

definition swap_at :: "nat \<Rightarrow> nat \<Rightarrow> 'a list \<Rightarrow> 'a list" where
  "swap_at a b xs = xs[a := xs ! b, b := xs ! a]"

fun shuffle_loop :: "(nat \<times> nat) list \<Rightarrow> nat \<Rightarrow> 'a list \<Rightarrow> 'a list" where
  "shuffle_loop ((a, b) # rs) (Suc k) xs = shuffle_loop rs k (swap_at (a mod length xs) (b mod length xs) xs)"
| "shuffle_loop _ _ xs = xs"

definition SliceShuffle :: "(nat \<times> nat) list \<Rightarrow> 'a list \<Rightarrow> 'a list" where
  "SliceShuffle rs xs = shuffle_loop rs (length xs) xs"

section \<open>The locked map\<close>

type_synonym ('k, 'v) SafeMap = "'k \<rightharpoonup> 'v"

definition SafeMap_Get :: "'k \<Rightarrow> ('k, 'v) SafeMap \<Rightarrow> 'v option" where
  "SafeMap_Get k m = m k"

definition SafeMap_Set :: "'k \<Rightarrow> 'v \<Rightarrow> ('k, 'v) SafeMap \<Rightarrow> ('k, 'v) SafeMap \<times> bool" where
  "SafeMap_Set k v m =
     (case m k of
        None \<Rightarrow> (m(k \<mapsto> v), True)
      | Some w \<Rightarrow> if w \<noteq> v then (m(k \<mapsto> v), True) else (m, False))"

definition SafeMap_Check :: "'k \<Rightarrow> ('k, 'v) SafeMap \<Rightarrow> bool" where
  "SafeMap_Check k m = (if m k = None then False else True)"

definition SafeMap_Delete :: "'k \<Rightarrow> ('k, 'v) SafeMap \<Rightarrow> ('k, 'v) SafeMap" where
  "SafeMap_Delete k m = m(k := None)"

text \<open>\<open>Clone\<close> sets the items one by one, in the order \<open>items\<close> of the loop over the map.\<close>

definition SafeMap_Clone :: "('k \<times> 'v) list \<Rightarrow> ('k, 'v) SafeMap" where
  "SafeMap_Clone items = fold (\<lambda>(k, v) m. fst (SafeMap_Set k v m)) items Map.empty"

section \<open>What the operations compute\<close>

lemma InSlice_set [simp]: "InSlice v xs \<longleftrightarrow> v \<in> set xs"
  by (induction v xs rule: InSlice.induct) auto

lemma filter_loop_eq: "filter_loop f xs acc = acc @ filter f xs"
  by (induction f xs acc rule: filter_loop.induct) simp_all

lemma purge_loop_eq: "purge_loop v xs acc = acc @ filter (\<lambda>w. w \<noteq> v) xs"
  by (induction v xs acc rule: purge_loop.induct) simp_all

lemma SliceReduce_eq: "SliceReduce f xs acc = acc @ map f xs"
  by (induction f xs acc rule: SliceReduce.induct) simp_all

lemma PurgeSlice_eq: "PurgeSlice v xs = filter (\<lambda>w. w \<noteq> v) xs"
  by (simp add: PurgeSlice_def purge_loop_eq)

lemma SliceDiff_eq: "SliceDiff a b = filter (\<lambda>v. v \<notin> set b) a"
  by (simp add: SliceDiff_def filter_loop_eq)

lemma SliceSum_eq: "SliceSum xs acc = (if xs = [] then acc else wrap64 (acc + sum_list xs))"
proof (induction xs acc rule: SliceSum.induct)
  case (2 v vs acc)
  have "wrap64 (wrap64 a + b) = wrap64 (a + b)" for a b
    unfolding wrap64_def by (simp add: mod_simps algebra_simps)
  with 2 show ?case by (cases vs) (simp_all add: add.assoc)
qed simp

text \<open>\<open>SliceIntersect\<close> computes the difference.\<close>

lemma SliceIntersect_is_Diff: "SliceIntersect a b = SliceDiff a b"
  by (simp add: SliceIntersect_def SliceDiff_def)

lemma intersect_disjoint: "set (SliceIntersect a b) \<inter> set b = {}"
  by (auto simp: SliceIntersect_is_Diff SliceDiff_eq)

lemma unique_loop_props:
  "distinct acc \<Longrightarrow> distinct (unique_loop xs acc) \<and> set (unique_loop xs acc) = set acc \<union> set xs"
  by (induction xs acc rule: unique_loop.induct) (auto simp: insert_absorb)

lemma SliceUnique_props: "distinct (SliceUnique xs)" "set (SliceUnique xs) = set xs"
  using unique_loop_props [of "[]" xs] by (simp_all add: SliceUnique_def)

lemma SafeMap_Set_map: "fst (SafeMap_Set k v m) = m(k \<mapsto> v)"
  by (auto simp: SafeMap_Set_def split: option.splits)

lemma Clone_step:
  "distinct (map fst items) \<Longrightarrow> fold (\<lambda>(k, v) m. fst (SafeMap_Set k v m)) items m = m ++ map_of items"
proof (induction items arbitrary: m)
  case (Cons kv items)
  then have "map_of items (fst kv) = None" by (simp add: map_of_eq_None_iff)
  with Cons show ?case by (cases kv) (auto simp: SafeMap_Set_map fun_eq_iff map_add_def split: option.splits)
qed simp

lemma Clone_eq: "distinct (map fst items) \<Longrightarrow> SafeMap_Clone items = map_of items"
  by (simp add: SafeMap_Clone_def Clone_step)

lemma set_then_get: "SafeMap_Get k (fst (SafeMap_Set k' v m)) = (if k = k' then Some v else SafeMap_Get k m)"
  by (auto simp: SafeMap_Get_def SafeMap_Set_def split: option.splits)

lemma swap_at_mset: "a < length xs \<Longrightarrow> b < length xs \<Longrightarrow> set (swap_at a b xs) = set xs \<and> length (swap_at a b xs) = length xs"
  by (simp add: swap_at_def set_swap)

section \<open>Chunks\<close>

definition full_chunks :: "nat \<Rightarrow> nat \<Rightarrow> 'a list \<Rightarrow> 'a list list" where
  "full_chunks k n xs = map (\<lambda>j. take n (drop (j * n) xs)) [k..<length xs div n]"

lemma chunk_loop_eq:
  assumes "0 < n" "k \<le> length xs div n"
  shows "chunk_loop xs (int n) (int (k * n)) (int (k * n) + int n) acc = Some (Ret (acc @ full_chunks k n xs))"
  using assms(2)
proof (induction "length xs div n - k" arbitrary: k acc)
  case 0
  then have "length xs < k * n + n" using dividend_less_times_div [OF assms(1), of "length xs"] by (simp add: mult.commute)
  then have "\<not> int (k * n) \<le> int (length xs) - int n" by linarith
  moreover have "full_chunks k n xs = []" using 0 by (simp add: full_chunks_def)
  ultimately show ?case by (subst chunk_loop.simps) simp
next
  case (Suc d)
  have "Suc k * n \<le> length xs div n * n" using Suc.hyps(2) by (intro mult_le_mono1) simp
  then have le: "Suc k * n \<le> length xs" using div_times_less_eq_dividend [of "length xs" n] by linarith
  have l: "int (k * n) + int n = int (Suc k * n)" by simp
  have le': "int (k * n) \<le> int (length xs) - int n" using le l by linarith
  have c: "subslice xs (int (k * n)) (int (k * n) + int n) = Ret (take n (drop (k * n) xs))"
    using le unfolding subslice_def l by (simp add: nat_diff_distrib del: of_nat_mult)
  have "full_chunks k n xs = take n (drop (k * n) xs) # full_chunks (Suc k) n xs"
    using Suc.hyps(2) by (simp add: full_chunks_def upt_conv_Cons)
  moreover have "chunk_loop xs (int n) (int (Suc k * n)) (int (Suc k * n) + int n) (acc @ [take n (drop (k * n) xs)])
      = Some (Ret ((acc @ [take n (drop (k * n) xs)]) @ full_chunks (Suc k) n xs))"
    using Suc.hyps by (intro Suc.hyps(1)) simp_all
  moreover have "chunk_loop xs (int n) (int (k * n)) (int (k * n) + int n) acc
      = chunk_loop xs (int n) (int (k * n) + int n) (int (k * n) + int n + int n) (acc @ [take n (drop (k * n) xs)])"
    by (subst chunk_loop.simps) (simp only: le' if_True c outcome.case)
  ultimately show ?case unfolding l by (simp del: mult_Suc of_nat_mult of_nat_Suc)
qed

lemma concat_chunks: "k \<le> m \<Longrightarrow> m * n \<le> length xs \<Longrightarrow>
    concat (map (\<lambda>j. take n (drop (j * n) xs)) [k..<m]) = take ((m - k) * n) (drop (k * n) xs)"
proof (induction "m - k" arbitrary: k)
  case (Suc d)
  then have k: "[k..<m] = k # [Suc k..<m]" "m - k = Suc (m - Suc k)" by (simp_all add: upt_conv_Cons)
  have "concat (map (\<lambda>j. take n (drop (j * n) xs)) [Suc k..<m]) = take ((m - Suc k) * n) (drop (Suc k * n) xs)"
    using Suc by (intro Suc.hyps(1)) simp_all
  then show ?case by (simp add: k take_add add.commute)
qed simp

text \<open>Chunks lose the remainder. \<open>SliceChunk\<close> with a positive size returns pieces of at most that size which, put together,
  are the whole slice when it has at most that size, and otherwise the slice without its last \<open>length xs mod n\<close> values.\<close>

lemma chunks_lose_remainder:
  assumes "0 < n"
  shows "\<exists>cs. SliceChunk xs (int n) = Some (Ret cs) \<and> (\<forall>c \<in> set cs. length c \<le> n)
    \<and> concat cs = (if length xs \<le> n then xs else take (length xs - length xs mod n) xs)"
proof (cases "length xs \<le> n")
  case True
  then show ?thesis by (simp add: SliceChunk_def)
next
  case False
  have "SliceChunk xs (int n) = Some (Ret (full_chunks 0 n xs))"
    using chunk_loop_eq [OF assms, of 0 xs "[]"] False by (simp add: SliceChunk_def)
  moreover have "concat (full_chunks 0 n xs) = take (length xs - length xs mod n) xs"
    using concat_chunks [of 0 "length xs div n" n xs] by (simp add: full_chunks_def minus_mod_eq_div_mult)
  ultimately show ?thesis using False by (auto simp: full_chunks_def)
qed

lemma chunks_lose_remainder_witness:
  "\<exists>cs. SliceChunk [1, 2, 3, 4, 5::nat] 2 = Some (Ret cs) \<and> concat cs = [1, 2, 3, 4]"
  using chunks_lose_remainder [of 2 "[1, 2, 3, 4, 5::nat]"] by auto

text \<open>With the size 0 it never returns, with a negative size it panics.\<close>

lemma chunk_loop_zero:
  assumes "chunk_loop xs sz i hi acc = Some y"
  shows "\<not> (sz = 0 \<and> i = 0 \<and> hi = 0)"
proof (rule chunk_loop.raw_induct [where P = "\<lambda>xs sz i hi acc y. \<not> (sz = 0 \<and> i = 0 \<and> hi = 0)", OF _ assms])
  fix loop and xs :: "'b list" and sz i hi acc and y :: "'b list list outcome"
  assume ih: "\<And>xs sz i hi acc y. loop xs sz i hi acc = Some y \<Longrightarrow> \<not> (sz = 0 \<and> i = 0 \<and> hi = 0)"
    and body: "(if i \<le> int (length xs) - sz then case subslice xs i hi of
        Panic p \<Rightarrow> Some (Panic p) | Ret c \<Rightarrow> loop xs sz (i + sz) (hi + sz) (acc @ [c]) else Some (Ret acc)) = Some y"
  have "\<not> loop xs 0 0 0 (acc @ [[]]) = Some y" using ih by blast
  then show "\<not> (sz = 0 \<and> i = 0 \<and> hi = 0)" using body by (auto simp: subslice_def)
qed

lemma chunk_size_zero: "xs \<noteq> [] \<Longrightarrow> SliceChunk xs 0 = None"
  using chunk_loop_zero [of xs 0 0 0 "[]"] by (cases "chunk_loop xs 0 0 0 []") (auto simp: SliceChunk_def)

lemma chunk_size_negative: "sz < 0 \<Longrightarrow> \<exists>p. SliceChunk xs sz = Some (Panic p)"
  by (simp add: SliceChunk_def chunk_loop.simps [of xs sz 0] subslice_def)

section \<open>Ranges\<close>

lemma range_loop_eq:
  assumes "0 < step" "- (2 ^ 63) \<le> i" "hi + step < 2 ^ 63"
  shows "range_loop i hi step acc = Some (acc @ map (\<lambda>j. i + int j * step) [0..<nat ((hi - i) div step + 1)])"
  using assms(2)
proof (induction "nat (hi - i + 1)" arbitrary: i acc rule: less_induct)
  case less
  show ?case
  proof (cases "i \<le> hi")
    case False
    then have "(hi - i) div step < 0" using assms(1) by (simp add: pos_imp_zdiv_neg_iff)
    then have z: "nat ((hi - i) div step + 1) = 0" by simp
    show ?thesis unfolding z by (subst range_loop.simps) (use False in simp)
  next
    case True
    let ?m = "(hi - (i + step)) div step"
    have m: "(hi - i) div step = ?m + 1" using assms(1) div_add_self2 [of step "hi - (i + step)"] by simp
    have "- 1 \<le> ?m" using assms(1) True m pos_imp_zdiv_nonneg_iff [of step "hi - i"] by linarith
    then have n: "nat ((hi - i) div step + 1) = Suc (nat (?m + 1))" unfolding m by simp
    have w: "wrap64 (i + step) = i + step" using assms(1,3) less.prems True by (intro wrap64_id) linarith+
    have "range_loop (i + step) hi step (acc @ [i])
        = Some ((acc @ [i]) @ map (\<lambda>j. (i + step) + int j * step) [0..<nat (?m + 1)])"
      using assms(1) less.prems True by (intro less.hyps) linarith+
    moreover have "map (\<lambda>j. i + int j * step) [0..<Suc (nat (?m + 1))]
        = i # map (\<lambda>j. (i + step) + int j * step) [0..<nat (?m + 1)]"
      by (simp only: upt_rec [of 0 "Suc k" for k] map_Suc_upt [symmetric]) (simp add: algebra_simps)
    ultimately show ?thesis unfolding n by (subst range_loop.simps) (simp add: True w del: upt_Suc)
  qed
qed

text \<open>A range up to the largest integer never ends, and neither does one with the step 0.\<close>

lemma range_loop_endless:
  assumes "range_loop i hi step acc = Some y"
  shows "\<not> (i \<le> hi \<and> hi = 2 ^ 63 - 1)"
proof (rule range_loop.raw_induct [where P = "\<lambda>i hi step acc y. \<not> (i \<le> hi \<and> hi = 2 ^ 63 - 1)", OF _ assms])
  fix loop i hi step acc y
  assume ih: "\<And>i hi step acc y. loop i hi step acc = Some y \<Longrightarrow> \<not> (i \<le> hi \<and> hi = (2 ^ 63 - 1 :: int))"
    and body: "(if i \<le> hi then loop (wrap64 (i + step)) hi step (acc @ [i]) else Some acc) = Some y"
  show "\<not> (i \<le> hi \<and> hi = 2 ^ 63 - 1)"
    using ih [of "wrap64 (i + step)" hi] body wrap64_range [of "i + step"] by auto
qed

lemma range_endless: "lo < 2 ^ 63 \<Longrightarrow> SliceRange lo (2 ^ 63 - 1) step = None"
  using range_loop_endless [of lo "2 ^ 63 - 1" step "[]"] by (cases "SliceRange lo (2 ^ 63 - 1) step") (auto simp: SliceRange_def)

section \<open>Padding\<close>

lemma pad_loop_eq: "pad_loop i xs sz val = xs @ replicate (nat ((sz - int (length xs) - int i + 1) div 2)) val"
proof (induction i xs sz val rule: pad_loop.induct)
  case (1 i xs sz val)
  let ?d = "sz - int (length xs) - int i"
  show ?case
  proof (cases "0 < ?d")
    case False
    then show ?thesis by (subst pad_loop.simps) simp
  next
    case True
    have "nat ((?d + 1) div 2) = Suc (nat ((?d - 1) div 2))" using True by linarith
    moreover have "sz - int (length (xs @ [val])) - int (Suc i) + 1 = ?d - 1" by simp
    ultimately show ?thesis using 1 True by (subst pad_loop.simps) simp
  qed
qed

text \<open>Padding stops half way: a slice of length \<open>l\<close> that should get the length \<open>sz\<close> gets \<open>(sz - l + 1) div 2\<close> more values.\<close>

lemma pad_half_way:
  "SlicePad xs sz val = xs @ replicate (nat ((sz - int (length xs) + 1) div 2)) val"
  by (auto simp: SlicePad_def pad_loop_eq)

end
