(* ===== verification/RestData.thy ===== *)
theory RestData
  imports Prelude
begin

text \<open>
  The checklists of \<open>rest/data.go\<close>: flags by name, packed into the bits of an integer for the database.

  A \<open>Checklist\<close> is the list of its entries in the order in which a loop meets them; its keys are different. An \<open>int\<close> is a
  64-bit word.
\<close>

unbundle bit_operations_syntax

type_synonym Checklist = "(string \<times> bool) list"

definition put_check :: "string \<Rightarrow> bool \<Rightarrow> Checklist \<Rightarrow> Checklist" where
  "put_check k b cl = (if k \<in> fst ` set cl then map (\<lambda>(k', b'). (k', if k' = k then b else b')) cl else cl @ [(k, b)])"

text \<open>\<open>1 << uint(offset)\<close>: a negative offset is a large one, and a shift by 64 or more gives zero.\<close>

definition flag_bit :: "int \<Rightarrow> 64 word" where
  "flag_bit offset = (if 0 \<le> offset \<and> offset < 64 then push_bit (nat offset) 1 else 0)"

definition pack_one :: "64 word \<Rightarrow> string \<times> bool \<Rightarrow> 64 word" where
  "pack_one sn e =
     (case atoi (fst e) of
        None \<Rightarrow> sn
      | Some offset \<Rightarrow> if snd e then sn OR flag_bit offset else sn AND NOT (flag_bit offset))"

definition Pack :: "Checklist \<Rightarrow> 64 word" where
  "Pack cl = foldl pack_one 0 cl"

text \<open>\<open>bits.Len\<close>: the number of bits without the leading zeros.\<close>

definition bits_Len :: "64 word \<Rightarrow> nat" where
  "bits_Len w = (case find (bit w) (rev [0..<64]) of Some i \<Rightarrow> i + 1 | None \<Rightarrow> 0)"

definition Unpack :: "Checklist \<Rightarrow> 64 word \<Rightarrow> Checklist" where
  "Unpack cl sn = foldl (\<lambda>cl offset. put_check (itoa (int offset)) (0 < sint (sn AND push_bit offset 1)) cl) cl [0..<bits_Len sn]"

definition Checklist_ToDb :: "Checklist \<Rightarrow> int" where
  "Checklist_ToDb cl = sint (Pack cl)"

text \<open>The column is read as text, if it is not null; an error of \<open>Atoi\<close> is dropped.\<close>

definition Checklist_FromDb :: "string option \<Rightarrow> Checklist" where
  "Checklist_FromDb holder = Unpack [] (word_of_int (case holder of Some sns \<Rightarrow> atoi_value sns | None \<Rightarrow> 0))"

definition translate_one :: "Checklist \<Rightarrow> Checklist \<Rightarrow> int \<times> string \<Rightarrow> Checklist" where
  "translate_one cl tcl e =
     (case e of (offset, name) \<Rightarrow>
        case map_of cl (itoa offset) of
          Some t \<Rightarrow> put_check (itoa offset) t (put_check name t tcl)
        | None \<Rightarrow>
            (case map_of cl name of
               Some t \<Rightarrow> put_check (itoa offset) t tcl
             | None \<Rightarrow> put_check name False (put_check (itoa offset) False tcl)))"

definition Translate :: "Checklist option \<Rightarrow> (int \<times> string) list \<Rightarrow> Checklist option" where
  "Translate cl seq = (case cl of None \<Rightarrow> None | Some c \<Rightarrow> Some (foldl (translate_one c) [] seq))"

section \<open>Packing\<close>

lemma bit_flag: "bit (flag_bit offset) n \<longleftrightarrow> offset = int n \<and> n < 64"
  by (auto simp: flag_bit_def bit_exp_iff)

lemma bit_pack_one:
  "n < 64 \<Longrightarrow> bit (pack_one sn (k, b)) n \<longleftrightarrow> (if atoi k = Some (int n) then b else bit sn n)"
  by (auto simp: pack_one_def bit_flag bit_or_iff bit_and_iff bit_not_iff split: option.splits)

lemma bit_Pack:
  assumes "inj_on (\<lambda>e. atoi (fst e)) (set cl)" "n < 64"
  shows "bit (Pack cl) n \<longleftrightarrow> (\<exists>k. (k, True) \<in> set cl \<and> atoi k = Some (int n))"
  using assms(1)
proof (induction cl rule: rev_induct)
  case Nil
  then show ?case by (simp add: Pack_def)
next
  case (snoc e cl)
  obtain k b where e: "e = (k, b)" by fastforce
  have inj: "inj_on (\<lambda>e. atoi (fst e)) (set cl)" using snoc.prems by (simp add: inj_on_def)
  have "bit (Pack (cl @ [e])) n \<longleftrightarrow> (if atoi k = Some (int n) then b else bit (Pack cl) n)"
    using assms(2) by (simp add: Pack_def e bit_pack_one)
  moreover have "b' = b" if "(k', b') \<in> set cl" "atoi k' = atoi k" for k' b'
    using inj_onD [OF snoc.prems, of "(k', b')" e] that e by simp
  ultimately show ?case using snoc.IH [OF inj] e by (auto split: if_splits)
qed

section \<open>Unpacking\<close>

lemma map_of_put_check: "map_of (put_check k b cl) = (map_of cl)(k \<mapsto> b)"
proof -
  have "map_of (map (\<lambda>(k', b'). (k', if k' = k then b else b')) cl) = (if k \<in> fst ` set cl then (map_of cl)(k \<mapsto> b) else map_of cl)"
    by (induction cl) (auto simp: fun_eq_iff)
  moreover have "map_of (cl @ [(k, b)]) = (map_of cl)(k \<mapsto> b)" if "k \<notin> fst ` set cl"
  proof -
    have "map_of cl k = None" using that by (simp add: map_of_eq_None_iff)
    then show ?thesis by (auto simp: fun_eq_iff map_add_def split: option.splits)
  qed
  ultimately show ?thesis by (simp add: put_check_def)
qed

lemma keys_put_check: "distinct (map fst cl) \<Longrightarrow> distinct (map fst (put_check k b cl))"
proof -
  have "map fst (map (\<lambda>(k', b'). (k', if k' = k then b else b')) cl) = map fst cl" by (simp add: comp_def case_prod_beta)
  moreover have "distinct (map fst cl) \<Longrightarrow> k \<notin> fst ` set cl \<Longrightarrow> distinct (map fst (cl @ [(k, b)]))" by simp
  ultimately show "distinct (map fst cl) \<Longrightarrow> ?thesis" by (simp only: put_check_def split: if_split) blast
qed

lemma find_rev_upt: "find P (rev [0..<n]) = Some i \<longleftrightarrow> i < n \<and> P i \<and> (\<forall>j. i < j \<and> j < n \<longrightarrow> \<not> P j)"
  by (induction n) (auto simp: less_Suc_eq)

lemma bits_Len_iff: "bit w i \<Longrightarrow> i < bits_Len w"
proof -
  assume b: "bit w i"
  then have i: "i < 64" using bit_imp_le_length [OF b] by simp
  show "i < bits_Len w"
  proof (cases "find (bit w) (rev [0..<64])")
    case None
    with b i show ?thesis by (auto simp: find_None_iff)
  next
    case (Some k)
    then have "\<not> k < i" using b i by (auto simp: find_rev_upt)
    with Some show ?thesis by (simp add: bits_Len_def)
  qed
qed

lemma bits_Len_le: "bits_Len w \<le> 64"
  by (auto simp: bits_Len_def find_rev_upt split: option.splits)

lemma sint_pos_iff: "0 < sint (w :: 64 word) \<longleftrightarrow> w \<noteq> 0 \<and> \<not> bit w 63"
proof -
  have "bit w 63 \<longleftrightarrow> sint w < 0" using bit_last_iff [of w] by simp
  moreover have "sint w = 0 \<longleftrightarrow> w = 0" by (metis signed_0 signed_word_eqI)
  ultimately show ?thesis by linarith
qed

lemma and_bit_pos:
  assumes "i < 64"
  shows "0 < sint (w AND push_bit i (1 :: 64 word)) \<longleftrightarrow> bit w i \<and> i \<noteq> 63"
proof -
  have "w AND push_bit i 1 = (if bit w i then push_bit i 1 else 0)"
    by (rule bit_word_eqI) (auto simp: bit_and_iff bit_exp_iff)
  then show ?thesis using assms by (auto simp: sint_pos_iff bit_exp_iff)
qed

lemma map_of_Unpack:
  "map_of (Unpack cl sn) k = (if k \<in> (\<lambda>i. nat_dec i) ` {..<bits_Len sn} then Some (\<exists>i<bits_Len sn. k = nat_dec i \<and> bit sn i \<and> i \<noteq> 63)
    else map_of cl k)"
proof -
  have "map_of (foldl (\<lambda>cl offset. put_check (itoa (int offset)) (0 < sint (sn AND push_bit offset 1)) cl) cl [0..<n]) k
      = (if k \<in> (\<lambda>i. nat_dec i) ` {..<n} then Some (\<exists>i<n. k = nat_dec i \<and> bit sn i \<and> i \<noteq> 63) else map_of cl k)"
    if "n \<le> 64" for n
    using that
  proof (induction n)
    case (Suc n)
    then show ?case
      by (auto simp: map_of_put_check itoa_def and_bit_pos less_Suc_eq simp del: push_bit_of_1)
  qed simp
  from this [OF bits_Len_le] show ?thesis by (simp add: Unpack_def)
qed

lemma distinct_Unpack: "distinct (map fst cl) \<Longrightarrow> distinct (map fst (Unpack cl sn))"
proof -
  have "distinct (map fst cl) \<Longrightarrow> distinct (map fst (foldl (\<lambda>cl offset. put_check (itoa (int offset)) (P offset) cl) cl xs))" for P xs
    by (induction xs arbitrary: cl) (simp_all add: keys_put_check)
  then show "distinct (map fst cl) \<Longrightarrow> ?thesis" by (simp only: Unpack_def)
qed

text \<open>Unpacking and packing again, whatever the order of the map. The flag of bit 63 is lost: it is tested with a signed comparison.\<close>

lemma Pack_Unpack:
  assumes "set l = set (Unpack [] sn)"
  shows "Pack l = (if bit sn 63 then sn AND NOT (push_bit 63 1) else sn)"
proof (rule bit_word_eqI)
  fix n :: nat
  assume "n < LENGTH(64)"
  then have n: "n < 64" by simp
  have mem: "(k, b) \<in> set l \<longleftrightarrow> map_of (Unpack [] sn) k = Some b" for k b
    using distinct_Unpack [of "[]" sn] by (simp add: assms)
  then have keys: "\<exists>i<bits_Len sn. k = nat_dec i \<and> b = (bit sn i \<and> i \<noteq> 63)" if "(k, b) \<in> set l" for k b
    using that by (auto simp: map_of_Unpack split: if_splits)
  have inj: "inj_on (\<lambda>e. atoi (fst e)) (set l)"
  proof (rule inj_onI)
    fix x y assume xy: "x \<in> set l" "y \<in> set l" "atoi (fst x) = atoi (fst y)"
    obtain i where i: "i < bits_Len sn" "x = (nat_dec i, bit sn i \<and> i \<noteq> 63)"
      using keys [of "fst x" "snd x"] xy(1) by (auto simp: prod_eq_iff)
    obtain j where j: "j < bits_Len sn" "y = (nat_dec j, bit sn j \<and> j \<noteq> 63)"
      using keys [of "fst y" "snd y"] xy(2) by (auto simp: prod_eq_iff)
    note ij = i j
    have "i < 2 ^ 63" "j < 2 ^ 63" using ij(1, 3) bits_Len_le [of sn] by simp_all
    then show "x = y" using xy(3) ij by (simp add: atoi_nat_dec)
  qed
  have "bit (Pack l) n \<longleftrightarrow> (\<exists>k. (k, True) \<in> set l \<and> atoi k = Some (int n))" by (rule bit_Pack [OF inj n])
  also have "\<dots> \<longleftrightarrow> bit sn n \<and> n \<noteq> 63"
  proof
    assume "\<exists>k. (k, True) \<in> set l \<and> atoi k = Some (int n)"
    then obtain k where k: "(k, True) \<in> set l" "atoi k = Some (int n)" by blast
    from keys [OF k(1)] obtain i where "i < bits_Len sn" "k = nat_dec i" "bit sn i" "i \<noteq> 63" by auto
    moreover have "i < 2 ^ 63" using \<open>i < bits_Len sn\<close> bits_Len_le [of sn] by simp
    ultimately show "bit sn n \<and> n \<noteq> 63" using k(2) by (simp add: atoi_nat_dec)
  next
    assume "bit sn n \<and> n \<noteq> 63"
    then have "(nat_dec n, True) \<in> set l" using bits_Len_iff [of sn n] by (auto simp: mem map_of_Unpack)
    then show "\<exists>k. (k, True) \<in> set l \<and> atoi k = Some (int n)"
      using n by (intro exI [of _ "nat_dec n"]) (simp add: atoi_nat_dec)
  qed
  finally show "bit (Pack l) n \<longleftrightarrow> bit (if bit sn 63 then sn AND NOT (push_bit 63 1) else sn) n"
  proof (cases "bit sn 63")
    case True
    have "bit (NOT (push_bit 63 (1 :: 64 word))) n \<longleftrightarrow> n \<noteq> 63"
      using n by (simp only: bit_not_iff bit_push_bit_one) simp
    with True show "bit (Pack l) n \<longleftrightarrow> bit (if bit sn 63 then sn AND NOT (push_bit 63 1) else sn) n"
      if "bit (Pack l) n \<longleftrightarrow> bit sn n \<and> n \<noteq> 63"
      using that by (simp only: if_True bit_and_iff)
  next
    case False
    then show "bit (Pack l) n \<longleftrightarrow> bit (if bit sn 63 then sn AND NOT (push_bit 63 1) else sn) n"
      if "bit (Pack l) n \<longleftrightarrow> bit sn n \<and> n \<noteq> 63"
      using that by auto
  qed
qed

section \<open>Through the database\<close>

text \<open>C31: A checklist comes back from the database. Its keys are numbers below 63; whatever the order of the map, a flag is set after the
  checklist was packed, written and read as text exactly when it was set before. (A flag that is not set may be absent.)\<close>

theorem checklist_stored:
  assumes keys: "\<forall>e \<in> set cl. \<exists>i<63. fst e = nat_dec i" and dist: "distinct (map fst cl)"
  shows "map_of (Checklist_FromDb (Some (itoa (Checklist_ToDb cl)))) k = Some True \<longleftrightarrow> (k, True) \<in> set cl"
proof -
  have key: "\<exists>i<63. k = nat_dec i \<and> atoi k = Some (int i)" if kb: "(k, b) \<in> set cl" for k b
  proof -
    obtain i where i: "i < 63" "k = nat_dec i" using keys kb by fastforce
    then show ?thesis by (intro exI [of _ i]) (simp add: atoi_nat_dec)
  qed
  have "inj_on (\<lambda>e. atoi (fst e)) (set cl)"
  proof (rule inj_onI)
    fix x y assume xy: "x \<in> set cl" "y \<in> set cl" "atoi (fst x) = atoi (fst y)"
    have "fst x = fst y" using key [of "fst x" "snd x"] key [of "fst y" "snd y"] xy by fastforce
    then show "x = y" using xy(1, 2) dist by (metis eq_key_imp_eq_value prod.collapse)
  qed
  then have bits: "bit (Pack cl) n \<longleftrightarrow> (\<exists>k. (k, True) \<in> set cl \<and> atoi k = Some (int n))" if "n < 64" for n
    by (rule bit_Pack [OF _ that])
  then have top: "\<not> bit (Pack cl) 63" using key by fastforce
  have "word_of_int (atoi_value (itoa (sint (Pack cl)))) = Pack cl"
    using sint_range_size [of "Pack cl"] by (simp add: atoi_value_itoa word_size)
  then have "Checklist_FromDb (Some (itoa (Checklist_ToDb cl))) = Unpack [] (Pack cl)" by (simp add: Checklist_FromDb_def Checklist_ToDb_def)
  moreover have "map_of (Unpack [] (Pack cl)) k = Some True \<longleftrightarrow> (\<exists>i<64. k = nat_dec i \<and> bit (Pack cl) i)"
  proof -
    have "bit (Pack cl) i \<Longrightarrow> i < bits_Len (Pack cl) \<and> i < 64" for i
      using bits_Len_iff [of "Pack cl" i] bits_Len_le [of "Pack cl"] by simp
    with top show ?thesis by (auto simp: map_of_Unpack)
  qed
  moreover have "(\<exists>i<64. k = nat_dec i \<and> bit (Pack cl) i) \<longleftrightarrow> (k, True) \<in> set cl"
  proof
    assume "\<exists>i<64. k = nat_dec i \<and> bit (Pack cl) i"
    then obtain i k' where i: "k = nat_dec i" "(k', True) \<in> set cl" "atoi k' = Some (int i)" using bits by blast
    from key [OF i(2)] i show "(k, True) \<in> set cl" by auto
  next
    assume k: "(k, True) \<in> set cl"
    from key [OF k] obtain i where "i < 63" "k = nat_dec i" "atoi k = Some (int i)" by blast
    with k bits show "\<exists>i<64. k = nat_dec i \<and> bit (Pack cl) i" by (intro exI [of _ i]) auto
  qed
  ultimately show ?thesis by simp
qed

theorem checklist_stored_witness:
  "map_of (Checklist_FromDb (Some (itoa (Checklist_ToDb [(''7'', True), (''3'', False)])))) ''7'' = Some True \<longleftrightarrow> (''7'', True) \<in> set [(''7'', True), (''3'', False)]"
proof (rule checklist_stored)
  have "''7'' = nat_dec 7" "''3'' = nat_dec 3" by code_simp+
  then show "\<forall>e \<in> set [(''7'', True), (''3'', False)]. \<exists>i<63. fst e = nat_dec i"
    by (auto intro: exI [of _ 7] exI [of _ 3])
qed simp

text \<open>Flag 63 is the sign.\<close>

lemma flag_63_lost: "map_of (Unpack [] (Pack [(''63'', True)])) ''63'' = Some False"
proof -
  have "bit (Pack [(''63'', True)]) 63" by code_simp
  moreover from this have "63 < bits_Len (Pack [(''63'', True)])" by (rule bits_Len_iff)
  moreover have "''63'' = nat_dec 63" by code_simp
  ultimately show ?thesis by (auto simp: map_of_Unpack)
qed

end
