(* ===== verification/WhttpBind.thy ===== *)
theory WhttpBind
  imports Prelude
begin

text \<open>
  Binding the data of a request to a struct (\<open>whttp/binder.go\<close>): the fields of a form or query by name, with numbers checked
  for the width of their field. The decoders of JSON and XML and the parser of floating-point numbers are parameters; a
  floating-point number is its text.
\<close>

section \<open>Types and values\<close>

text \<open>A width of 0 stands for \<open>int\<close> and \<open>uint\<close>. A field has its name, its tag \<open>form\<close>, whether it can be set, and its kind.\<close>

datatype bkind = BInt nat | BUint nat | BBool | BFloat nat | BString | BSlice bkind | BStruct "bfield list" | BOther
and bfield = BField string string bool bkind

datatype bval = VInt int | VUint int | VBool bool | VFloat string | VString string | VSlice "bval list" | VStruct "bval list" | VOther

definition width :: "nat \<Rightarrow> nat" where
  "width b = (if b = 0 then 64 else b)"

text \<open>\<open>strconv.ParseInt\<close>, \<open>ParseUint\<close> and \<open>ParseBool\<close>; \<open>None\<close> is an error.\<close>

definition bits_ParseInt :: "string \<Rightarrow> nat \<Rightarrow> int option" where
  "bits_ParseInt s b =
     (let neg = has_prefix s ''-'';
          body = (if neg \<or> has_prefix s ''+'' then tl s else s)
      in case parse_dec body of
           None \<Rightarrow> None
         | Some n \<Rightarrow>
             (let v = (if neg then - int n else int n)
              in if - (2 ^ (width b - 1)) \<le> v \<and> v < 2 ^ (width b - 1) then Some v else None))"

definition bits_ParseUint :: "string \<Rightarrow> nat \<Rightarrow> int option" where
  "bits_ParseUint s b = (case parse_dec s of None \<Rightarrow> None | Some n \<Rightarrow> if int n < 2 ^ width b then Some (int n) else None)"

definition text_ParseBool :: "string \<Rightarrow> bool option" where
  "text_ParseBool s =
     (if s \<in> {''1'', ''t'', ''T'', ''TRUE'', ''true'', ''True''} then Some True
      else if s \<in> {''0'', ''f'', ''F'', ''FALSE'', ''false'', ''False''} then Some False else None)"

type_synonym parse_float = "string \<Rightarrow> nat \<Rightarrow> string option"

section \<open>Setting a field\<close>

definition setIntField :: "string \<Rightarrow> nat \<Rightarrow> bval option" where
  "setIntField s b = map_option VInt (bits_ParseInt (if s = [] then ''0'' else s) b)"

definition setUintField :: "string \<Rightarrow> nat \<Rightarrow> bval option" where
  "setUintField s b = map_option VUint (bits_ParseUint (if s = [] then ''0'' else s) b)"

definition setBoolField :: "string \<Rightarrow> bval option" where
  "setBoolField s = map_option VBool (text_ParseBool (if s = [] then ''false'' else s))"

definition setFloatField :: "parse_float \<Rightarrow> string \<Rightarrow> nat \<Rightarrow> bval option" where
  "setFloatField pf s b = map_option VFloat (pf (if s = [] then ''0.0'' else s) b)"

definition parsed :: "'a option \<Rightarrow> string + 'a" where
  "parsed x = (case x of None \<Rightarrow> Inl ''strconv: parsing failed'' | Some v \<Rightarrow> Inr v)"

definition setWithProperType :: "parse_float \<Rightarrow> bkind \<Rightarrow> string \<Rightarrow> string + bval" where
  "setWithProperType pf k s =
     (case k of
        BInt b \<Rightarrow> parsed (setIntField s b)
      | BUint b \<Rightarrow> parsed (setUintField s b)
      | BBool \<Rightarrow> parsed (setBoolField s)
      | BFloat b \<Rightarrow> parsed (setFloatField pf s b)
      | BString \<Rightarrow> Inr (VString s)
      | _ \<Rightarrow> Inl ''unknown type'')"

fun set_elements :: "parse_float \<Rightarrow> bkind \<Rightarrow> string list \<Rightarrow> string + bval list" where
  "set_elements pf k [] = Inr []"
| "set_elements pf k (s # ss) =
     (case setWithProperType pf k s of
        Inl e \<Rightarrow> Inl e
      | Inr v \<Rightarrow> (case set_elements pf k ss of Inl e \<Rightarrow> Inl e | Inr vs \<Rightarrow> Inr (v # vs)))"

text \<open>What the values of a name do to a field. A name without values is indexed all the same.\<close>

definition set_values :: "parse_float \<Rightarrow> bkind \<Rightarrow> string list \<Rightarrow> (string + bval) outcome" where
  "set_values pf k inputs =
     (case k of
        BSlice e \<Rightarrow>
          if inputs \<noteq> [] then Ret (case set_elements pf e inputs of Inl err \<Rightarrow> Inl err | Inr vs \<Rightarrow> Inr (VSlice vs))
          else Panic IndexOutOfRange
      | _ \<Rightarrow> (case inputs of [] \<Rightarrow> Panic IndexOutOfRange | s # _ \<Rightarrow> Ret (setWithProperType pf k s)))"

section \<open>Binding a struct\<close>

text \<open>The fields one after the other, up to the first error; the fields set before it stay set.\<close>

type_synonym form = "string \<Rightarrow> string list option"

definition set_from :: "parse_float \<Rightarrow> form \<Rightarrow> string \<Rightarrow> bkind \<Rightarrow> bval \<Rightarrow> (bval \<times> string option) outcome" where
  "set_from pf data key k v =
     (case data key of
        None \<Rightarrow> Ret (v, None)
      | Some inputs \<Rightarrow>
          bind_outcome (set_values pf k inputs) (\<lambda>r. case r of Inl e \<Rightarrow> Ret (v, Some e) | Inr v' \<Rightarrow> Ret (v', None)))"

function bind_fields :: "parse_float \<Rightarrow> form \<Rightarrow> bfield list \<Rightarrow> bval list \<Rightarrow> (bval list \<times> string option) outcome" where
  "bind_fields pf data [] vs = Ret (vs, None)"
| "bind_fields pf data (f # fs) [] = Ret ([], None)"
| "bind_fields pf data (BField name frm can_set k # fs) (v # vs) =
     bind_outcome
       (if \<not> can_set then Ret (v, None)
        else if frm = [] then
          (case k of
             BStruct sub \<Rightarrow>
               (case v of
                  VStruct svs \<Rightarrow> bind_outcome (bind_fields pf data sub svs) (\<lambda>(svs', err). Ret (VStruct svs', err))
                | _ \<Rightarrow> Ret (v, None))
           | _ \<Rightarrow> set_from pf data name k v)
        else set_from pf data frm k v)
       (\<lambda>(v', err).
         case err of
           Some e \<Rightarrow> Ret (v' # vs, Some e)
         | None \<Rightarrow> bind_outcome (bind_fields pf data fs vs) (\<lambda>(vs', err'). Ret (v' # vs', err')))"
  by pat_completeness auto
termination
  by (relation "measure (\<lambda>(pf, data, fs, vs). size_list size fs)") auto

declare bind_fields.simps [simp del]

definition bindData :: "parse_float \<Rightarrow> bkind \<Rightarrow> bval \<Rightarrow> form \<Rightarrow> (bval \<times> string option) outcome" where
  "bindData pf k v data =
     (case k of
        BStruct fs \<Rightarrow>
          (case v of
             VStruct vs \<Rightarrow> bind_outcome (bind_fields pf data fs vs) (\<lambda>(vs', err). Ret (VStruct vs', err))
           | _ \<Rightarrow> Ret (v, None))
      | _ \<Rightarrow> Ret (v, Some ''binding element must be a struct''))"

datatype bind_error = BadRequest string | UnsupportedMediaType

record bind_request =
  br_method :: string
  br_ctype :: string
  br_body :: "string option"
  br_query :: form
  br_form :: form

text \<open>A decoder fills the value or fails, with the value as far as it got.\<close>

type_synonym decoder = "string \<Rightarrow> bval \<Rightarrow> bval \<times> string option"

definition Bind :: "parse_float \<Rightarrow> decoder \<Rightarrow> decoder \<Rightarrow> bkind \<Rightarrow> bval \<Rightarrow> bind_request \<Rightarrow> (bval \<times> bind_error option) outcome" where
  "Bind pf json xml k v req =
     (let data = (\<lambda>d. bind_outcome (bindData pf k v d) (\<lambda>(v', err). Ret (v', map_option BadRequest err)));
          decode = (\<lambda>dec body. case dec body v of (v', err) \<Rightarrow> Ret (v', map_option BadRequest err))
      in if br_method req = ''GET'' then data (br_query req)
         else case br_body req of
           None \<Rightarrow> Ret (v, Some (BadRequest (''request body can'' @ [CHR 0x27] @ ''t be empty'')))
         | Some body \<Rightarrow>
             if has_prefix (br_ctype req) ''application/json'' then decode json body
             else if has_prefix (br_ctype req) ''application/xml'' then decode xml body
             else if has_prefix (br_ctype req) ''application/x-www-form-urlencoded''
               \<or> has_prefix (br_ctype req) ''multipart/form-data'' then data (br_form req)
             else Ret (v, Some UnsupportedMediaType))"

section \<open>Widths\<close>

lemma ParseInt_itoa: "bits_ParseInt (itoa i) b = (if - (2 ^ (width b - 1)) \<le> i \<and> i < 2 ^ (width b - 1) then Some i else None)"
proof (cases "i < 0")
  case True
  then show ?thesis by (simp add: bits_ParseInt_def itoa_def has_prefix_Cons)
next
  case False
  then show ?thesis using nat_dec_no_sign [of "nat i"] by (simp add: bits_ParseInt_def itoa_def)
qed

lemma ParseUint_itoa: "bits_ParseUint (itoa (int n)) b = (if int n < 2 ^ width b then Some (int n) else None)"
  by (simp add: bits_ParseUint_def itoa_def)

text \<open>C33: The text of a number binds to a field of a width exactly when the number fits into it, and then to the number.\<close>

theorem int_field_exact:
  "setIntField (itoa i) b = (if - (2 ^ (width b - 1)) \<le> i \<and> i < 2 ^ (width b - 1) then Some (VInt i) else None)
   \<and> setUintField (itoa (int n)) b = (if int n < 2 ^ width b then Some (VUint (int n)) else None)"
  by (simp add: setIntField_def setUintField_def itoa_not_Nil ParseInt_itoa ParseUint_itoa)

section \<open>A struct comes back from its form\<close>

text \<open>The text of a value, and the values of a field that can be sent: numbers within the width of their field, floating-point numbers that their
  parser reads back, booleans, strings, and slices of these that are not empty.\<close>

fun scalar_text :: "bval \<Rightarrow> string" where
  "scalar_text (VInt i) = itoa i"
| "scalar_text (VUint i) = itoa i"
| "scalar_text (VBool x) = (if x then ''true'' else ''false'')"
| "scalar_text (VFloat x) = x"
| "scalar_text (VString s) = s"
| "scalar_text v = []"

fun texts :: "bval \<Rightarrow> string list" where
  "texts (VSlice vs) = map scalar_text vs"
| "texts v = [scalar_text v]"

fun scalar_sent :: "parse_float \<Rightarrow> bkind \<Rightarrow> bval \<Rightarrow> bool" where
  "scalar_sent pf (BInt b) (VInt i) \<longleftrightarrow> - (2 ^ (width b - 1)) \<le> i \<and> i < 2 ^ (width b - 1)"
| "scalar_sent pf (BUint b) (VUint i) \<longleftrightarrow> 0 \<le> i \<and> i < 2 ^ width b"
| "scalar_sent pf BBool (VBool x) \<longleftrightarrow> True"
| "scalar_sent pf (BFloat b) (VFloat x) \<longleftrightarrow> x \<noteq> [] \<and> pf x b = Some x"
| "scalar_sent pf BString (VString s) \<longleftrightarrow> True"
| "scalar_sent pf k v \<longleftrightarrow> False"

fun value_sent :: "parse_float \<Rightarrow> bkind \<Rightarrow> bval \<Rightarrow> bool" where
  "value_sent pf (BSlice e) (VSlice vs) \<longleftrightarrow> vs \<noteq> [] \<and> list_all (scalar_sent pf e) vs"
| "value_sent pf k v \<longleftrightarrow> scalar_sent pf k v"

lemma set_scalar: "scalar_sent pf k v \<Longrightarrow> setWithProperType pf k (scalar_text v) = Inr v"
proof (induction pf k v rule: scalar_sent.induct)
  case (2 pf b i)
  then have "bits_ParseUint (itoa i) b = Some i" using ParseUint_itoa [of "nat i" b] by simp
  then show ?case by (simp add: setWithProperType_def parsed_def setUintField_def itoa_not_Nil)
qed (simp_all add: setWithProperType_def parsed_def setIntField_def setBoolField_def setFloatField_def itoa_not_Nil ParseInt_itoa
    text_ParseBool_def)

lemma set_elements_sent: "list_all (scalar_sent pf e) vs \<Longrightarrow> set_elements pf e (map scalar_text vs) = Inr vs"
  by (induction vs) (simp_all add: set_scalar)

lemma scalar_texts: "scalar_sent pf k v \<Longrightarrow> texts v = [scalar_text v] \<and> (\<forall>e. k \<noteq> BSlice e)"
  by (induction pf k v rule: scalar_sent.induct) simp_all

lemma set_values_sent:
  assumes "value_sent pf k v"
  shows "set_values pf k (texts v) = Ret (Inr v)"
proof (cases "\<exists>e vs. k = BSlice e \<and> v = VSlice vs")
  case True
  with assms show ?thesis by (auto simp: set_values_def set_elements_sent)
next
  case False
  then have "scalar_sent pf k v" using assms by (cases k; cases v) simp_all
  with scalar_texts [OF this] set_scalar [OF this] show ?thesis by (cases k) (simp_all add: set_values_def)
qed

text \<open>The fields of a struct in a form, with those of the structs in it that have no name in the form; fields that cannot be set are left
  out. \<open>sent\<close> says that the values can be sent, \<open>shaped\<close> that a value has the structs of its type.\<close>

function entries :: "bfield list \<Rightarrow> bval list \<Rightarrow> (string \<times> string list) list" where
  "entries [] vs = []"
| "entries (f # fs) [] = []"
| "entries (BField name frm can_set k # fs) (v # vs) =
     (if \<not> can_set then []
      else if frm = [] then
        (case k of BStruct sub \<Rightarrow> (case v of VStruct svs \<Rightarrow> entries sub svs | _ \<Rightarrow> []) | _ \<Rightarrow> [(name, texts v)])
      else [(frm, texts v)]) @ entries fs vs"
  by pat_completeness auto
termination
  by (relation "measure (\<lambda>(fs, vs). size_list size fs)") auto

function sent :: "parse_float \<Rightarrow> bfield list \<Rightarrow> bval list \<Rightarrow> bool" where
  "sent pf [] vs \<longleftrightarrow> vs = []"
| "sent pf (f # fs) [] \<longleftrightarrow> False"
| "sent pf (BField name frm can_set k # fs) (v # vs) \<longleftrightarrow>
     (if \<not> can_set then True
      else if frm = [] then
        (case k of BStruct sub \<Rightarrow> (case v of VStruct svs \<Rightarrow> sent pf sub svs | _ \<Rightarrow> False) | _ \<Rightarrow> value_sent pf k v)
      else value_sent pf k v) \<and> sent pf fs vs"
  by pat_completeness auto
termination
  by (relation "measure (\<lambda>(pf, fs, vs). size_list size fs)") auto

function shaped :: "bfield list \<Rightarrow> bval list \<Rightarrow> bool" where
  "shaped [] vs \<longleftrightarrow> vs = []"
| "shaped (f # fs) [] \<longleftrightarrow> False"
| "shaped (BField name frm can_set k # fs) (v # vs) \<longleftrightarrow>
     (case k of BStruct sub \<Rightarrow> (case v of VStruct svs \<Rightarrow> shaped sub svs | _ \<Rightarrow> False) | _ \<Rightarrow> True) \<and> shaped fs vs"
  by pat_completeness auto
termination
  by (relation "measure (\<lambda>(fs, vs). size_list size fs)") auto

text \<open>What arrives: the values that were sent, in the struct that was there.\<close>

function received :: "bfield list \<Rightarrow> bval list \<Rightarrow> bval list \<Rightarrow> bval list" where
  "received [] vs ws = []"
| "received (f # fs) [] ws = ws"
| "received (f # fs) (v # vs) [] = []"
| "received (BField name frm can_set k # fs) (v # vs) (w # ws) =
     (if \<not> can_set then w
      else if frm = [] then
        (case k of
           BStruct sub \<Rightarrow> (case v of VStruct svs \<Rightarrow> (case w of VStruct sws \<Rightarrow> VStruct (received sub svs sws) | _ \<Rightarrow> w) | _ \<Rightarrow> w)
         | _ \<Rightarrow> v)
      else v) # received fs vs ws"
  by pat_completeness auto
termination
  by (relation "measure (\<lambda>(fs, vs, ws). size_list size fs)") auto

declare entries.simps [simp del] sent.simps [simp del] shaped.simps [simp del] received.simps [simp del]

lemmas form_simps = entries.simps sent.simps shaped.simps received.simps bind_fields.simps

lemma set_from_sent: "value_sent pf k v \<Longrightarrow> data key = Some (texts v) \<Longrightarrow> set_from pf data key k w = Ret (v, None)"
  by (simp add: set_from_def set_values_sent)

lemma bind_fields_received:
  "sent pf fs vs \<Longrightarrow> shaped fs ws \<Longrightarrow> \<forall>(key, inputs) \<in> set (entries fs vs). data key = Some inputs \<Longrightarrow>
    bind_fields pf data fs ws = Ret (received fs vs ws, None)"
proof (induction fs vs arbitrary: ws rule: entries.induct)
  case (3 name frm can_set k fs v vs)
  from "3.prems"(2) obtain w ws' where ws: "ws = w # ws'" by (cases ws) (auto simp: form_simps)
  have rest: "sent pf fs vs" "shaped fs ws'" "\<forall>(key, inputs) \<in> set (entries fs vs). data key = Some inputs"
    using "3.prems" by (auto simp: form_simps ws)
  note rest = "3.IH"(2) [OF rest]
  consider "\<not> can_set" | (nested) sub where "can_set" "frm = []" "k = BStruct sub"
    | (leaf) "can_set" "frm \<noteq> [] \<or> (\<forall>sub. k \<noteq> BStruct sub)" by blast
  then show ?case
  proof cases
    case 1
    with rest show ?thesis by (simp add: form_simps ws)
  next
    case nested
    obtain svs sws where s: "v = VStruct svs" "w = VStruct sws" "sent pf sub svs" "shaped sub sws"
      using "3.prems"(1,2) nested by (auto simp: form_simps ws split: bval.splits)
    have "\<forall>(key, inputs) \<in> set (entries sub svs). data key = Some inputs"
      using "3.prems"(3) nested s(1) by (auto simp: form_simps)
    from "3.IH"(1) [OF _ _ nested(3) s(1) s(3,4) this] nested have "bind_fields pf data sub sws = Ret (received sub svs sws, None)" by simp
    with rest nested s show ?thesis by (simp add: form_simps ws)
  next
    case leaf
    let ?key = "if frm = [] then name else frm"
    have "value_sent pf k v \<and> data ?key = Some (texts v)"
    proof (cases "frm = []")
      case True
      with leaf "3.prems"(1,3) show ?thesis by (cases k) (auto simp: form_simps)
    next
      case False
      with leaf "3.prems"(1,3) show ?thesis by (auto simp: form_simps)
    qed
    then have "set_from pf data ?key k w = Ret (v, None)" by (simp add: set_from_sent)
    with rest leaf show ?thesis by (cases "frm = []"; cases k) (simp_all add: form_simps ws)
  qed
qed (auto simp: form_simps)

text \<open>C18: A struct comes back from its form. Send the values of the fields that can be set, those of nested structs without a name in the form
  included, as texts, in the query of a GET or as the form of another request with a body, with any further names: numbers within the widths of their
  fields, booleans, strings, floating-point numbers that the parser reads back, and slices of these that are not empty. Then binding
  succeeds, whatever struct of the type it starts from, and leaves exactly these values in its fields; the fields that cannot be set stay as
  they were.\<close>

theorem form_roundtrip:
  assumes "sent pf fs vs" "shaped fs ws" "\<forall>(key, inputs) \<in> set (entries fs vs). data key = Some inputs"
    and "if br_method req = ''GET'' then br_query req = data
         else br_form req = data \<and> br_body req = Some body
           \<and> (has_prefix (br_ctype req) ''application/x-www-form-urlencoded'' \<or> has_prefix (br_ctype req) ''multipart/form-data'')"
  shows "Bind pf json xml (BStruct fs) (VStruct ws) req = Ret (VStruct (received fs vs ws), None)"
proof -
  have "bindData pf (BStruct fs) (VStruct ws) data = Ret (VStruct (received fs vs ws), None)"
    using bind_fields_received [OF assms(1-3)] by (simp add: bindData_def)
  moreover have "\<not> has_prefix c ''application/json'' \<and> \<not> has_prefix c ''application/xml''"
    if "has_prefix c ''application/x-www-form-urlencoded'' \<or> has_prefix c ''multipart/form-data''" for c
    using that by (auto simp: has_prefix_iff)
  ultimately show ?thesis using assms(4) by (auto simp: Bind_def Let_def split: if_splits)
qed

section \<open>Examples\<close>

text \<open>A form with an age that does not fit into eight bits: the name, which comes first, is set all the same.\<close>

definition person_kind :: bkind where
  "person_kind = BStruct [BField ''Name'' ''name'' True BString, BField ''Age'' [] True (BInt 8)]"

definition person_form :: form where
  "person_form k = map_of [(''name'', [''Bo'']), (''Age'', [''300''])] k"

lemma bind_person:
  "bindData (\<lambda>_ _. None) person_kind (VStruct [VString [], VInt 0]) person_form
    = Ret (VStruct [VString ''Bo'', VInt 0], Some ''strconv: parsing failed'')"
  by code_simp

text \<open>A user with an address, and an identifier that cannot be set.\<close>

definition user_fields :: "bfield list" where
  "user_fields = [BField ''id'' [] False (BInt 0), BField ''Name'' ''name'' True BString,
     BField ''Address'' [] True (BStruct [BField ''Zip'' ''zip'' True (BUint 16)]), BField ''Tags'' [] True (BSlice (BInt 8))]"

definition user_form :: form where
  "user_form k = map_of [(''name'', [''Bo'']), (''zip'', [''8'']), (''Tags'', [''-1'', ''7''])] k"

theorem form_roundtrip_witness:
  "Bind (\<lambda>_ _. None) (\<lambda>b v. (v, None)) (\<lambda>b v. (v, None)) (BStruct user_fields)
     (VStruct [VInt 9, VString ''x'', VStruct [VUint 0], VSlice []])
     \<lparr>br_method = ''GET'', br_ctype = [], br_body = None, br_query = user_form, br_form = \<lambda>k. None\<rparr>
   = Ret (VStruct [VInt 9, VString ''Bo'', VStruct [VUint 8], VSlice [VInt (- 1), VInt 7]], None)"
proof -
  let ?vs = "[VInt 1, VString ''Bo'', VStruct [VUint 8], VSlice [VInt (- 1), VInt 7]]"
  have "entries user_fields ?vs = [(''name'', [''Bo'']), (''zip'', [''8'']), (''Tags'', [''-1'', ''7''])]" by code_simp
  then have "\<forall>(key, inputs) \<in> set (entries user_fields ?vs). user_form key = Some inputs" by (simp add: user_form_def)
  moreover have "sent (\<lambda>_ _. None) user_fields ?vs" by code_simp
  moreover have "shaped user_fields [VInt 9, VString ''x'', VStruct [VUint 0], VSlice []]" by code_simp
  moreover have "received user_fields ?vs [VInt 9, VString ''x'', VStruct [VUint 0], VSlice []]
      = [VInt 9, VString ''Bo'', VStruct [VUint 8], VSlice [VInt (- 1), VInt 7]]" by code_simp
  ultimately show ?thesis using form_roundtrip [where pf = "\<lambda>_ _. None" and fs = user_fields and vs = ?vs and data = user_form
      and ws = "[VInt 9, VString ''x'', VStruct [VUint 0], VSlice []]"] by simp
qed

lemma no_values_panic:
  "bindData (\<lambda>_ _. None) person_kind (VStruct [VString [], VInt 0]) (\<lambda>k. if k = ''name'' then Some [] else None) = Panic IndexOutOfRange"
  by code_simp

end
