(* ===== verification/WLog.thy ===== *)
theory WLog
  imports GoTime UtilText
begin

text \<open>
  The loggers of \<open>wlog/\<close>: levels and filters (\<open>logger.go\<close>), the format of a line (\<open>pattlog.go\<close>) and the file writer with its
  rotation (\<open>file.go\<close>).

  A \<open>uint\<close> of levels is a 64-bit word. \<open>fmt.Sprintf\<close> and the formats of a time are parameters. The file system is a map from paths
  to contents with the second of their last change; the operations that can fail take their error as an argument. A rotation starts a goroutine
  that deletes old files: the writer counts those that run, and they visit one path at a time, between the records, in a run of the log; a
  visit looks at a file and removes it in one step.
\<close>

unbundle bit_operations_syntax

section \<open>Levels\<close>

definition levelMapping :: "(string \<times> nat) list" where
  "levelMapping = [(''DEBUG'', 1), (''TRACE'', 2), (''INFO'', 3), (''WARNING'', 4), (''ERROR'', 5), (''CRITICAL'', 6), (''FATAL'', 7),
     (''ACCESS'', 8)]"

record Level =
  lv_offset :: nat
  lv_lvl :: "64 word"
  lv_desc :: string

definition BuildLevel :: "string \<Rightarrow> Level" where
  "BuildLevel lvl =
     \<lparr>lv_offset = 0,
      lv_lvl = foldl (\<lambda>num l. case map_of levelMapping (to_upper l) of Some offset \<Rightarrow> num OR push_bit offset 1 | None \<Rightarrow> num) 0
        (split_on (CHR ''|'') lvl),
      lv_desc = lvl\<rparr>"

definition level_of :: "nat \<Rightarrow> string \<Rightarrow> Level" where
  "level_of offset desc = \<lparr>lv_offset = offset, lv_lvl = push_bit offset 1, lv_desc = desc\<rparr>"

text \<open>The levels of the eight calls, by the call's name.\<close>

definition level_calls :: "(string \<times> Level) list" where
  "level_calls =
     [(''Debug'', level_of 1 ''DEBUG''), (''Trace'', level_of 2 ''TRACE''), (''Info'', level_of 3 ''INFO''), (''Warn'', level_of 4 ''WARN''),
      (''Error'', level_of 5 ''ERROR''), (''Critical'', level_of 6 ''CRITICAL''), (''Fatal'', level_of 7 ''FATAL''),
      (''Access'', level_of 8 ''ACCESS'')]"

text \<open>A filter without its writer, by the name it has in the logger; the loops over the mapping add or remove known levels.\<close>

record LogFilter =
  fi_tag :: string
  fi_type :: string
  fi_level :: Level
  fi_location :: "string option"

type_synonym Logger = "(string \<times> LogFilter) list"

definition change_level :: "(64 word \<Rightarrow> nat \<Rightarrow> 64 word) \<Rightarrow> (nat \<Rightarrow> bool) \<Rightarrow> LogFilter \<Rightarrow> LogFilter" where
  "change_level f sel fi =
     fi\<lparr>fi_level := (fi_level fi)\<lparr>lv_lvl := foldl (\<lambda>w e. if sel (snd e) then f w (snd e) else w) (lv_lvl (fi_level fi)) levelMapping\<rparr>\<rparr>"

definition set_level :: "64 word \<Rightarrow> nat \<Rightarrow> 64 word" where
  "set_level w n = w OR push_bit n 1"

definition clear_level :: "64 word \<Rightarrow> nat \<Rightarrow> 64 word" where
  "clear_level w n = w AND NOT (push_bit n 1)"

definition Logger_Add :: "int list \<Rightarrow> Logger \<Rightarrow> Logger" where
  "Logger_Add ls lg = map (\<lambda>(n, fi). (n, foldl (\<lambda>fi l. change_level set_level (\<lambda>k. int k = l) fi) fi ls)) lg"

definition Logger_Remove :: "int list \<Rightarrow> Logger \<Rightarrow> Logger" where
  "Logger_Remove ls lg = map (\<lambda>(n, fi). (n, foldl (\<lambda>fi l. change_level clear_level (\<lambda>k. int k = l) fi) fi ls)) lg"

text \<open>\<open>uint(l)\<close> of a negative limit is larger than every level.\<close>

definition Logger_Limit :: "int \<Rightarrow> Logger \<Rightarrow> Logger" where
  "Logger_Limit l lg = map (\<lambda>(n, fi). (n, change_level clear_level (\<lambda>k. int k < l mod 2 ^ 64) fi)) lg"

definition DeleteFilter :: "string \<Rightarrow> Logger \<Rightarrow> Logger" where
  "DeleteFilter ty lg = filter (\<lambda>(n, fi). to_lower (fi_type fi) \<noteq> ty) lg"

record LogConfig =
  lc_type :: string
  lc_tag :: string
  lc_level :: string
  lc_location :: "string option"

definition Start :: "LogConfig \<Rightarrow> Logger \<Rightarrow> Logger" where
  "Start cfg lg =
     (if to_lower (lc_type cfg) \<in> {''console'', ''file'', ''syslog''} then
        (let fi = \<lparr>fi_tag = lc_tag cfg, fi_type = to_lower (lc_type cfg), fi_level = BuildLevel (lc_level cfg), fi_location = lc_location cfg\<rparr>
         in if lc_tag cfg \<in> fst ` set lg then map (\<lambda>(n, f). (n, if n = lc_tag cfg then fi else f)) lg else lg @ [(lc_tag cfg, fi)])
      else lg)"

text \<open>The first argument of a call: a text, or a value that \<open>fmt\<close> prints; \<open>sprintf\<close> takes the number of the further arguments.\<close>

datatype log_arg = LText string | LValue string

record LogRecord =
  rec_tag :: string
  rec_level :: Level
  rec_created :: Time
  rec_message :: string

definition log_message :: "(string \<Rightarrow> 'a list \<Rightarrow> string) \<Rightarrow> log_arg \<Rightarrow> 'a list \<Rightarrow> string" where
  "log_message sprintf arg0 args =
     (if args \<noteq> [] then
        (case arg0 of
           LText s \<Rightarrow> sprintf s args
         | LValue s \<Rightarrow> sprintf (s @ concat (replicate (length args) '' %v'')) args)
      else (case arg0 of LText m \<Rightarrow> m | LValue s \<Rightarrow> []))"

definition intLogf :: "(string \<Rightarrow> 'a list \<Rightarrow> string) \<Rightarrow> (string \<Rightarrow> Time \<Rightarrow> Time) \<Rightarrow> Time \<Rightarrow> Logger \<Rightarrow> Level \<Rightarrow> log_arg \<Rightarrow> 'a list \<Rightarrow> (string \<times> LogRecord) list" where
  "intLogf sprintf in_location now lg lvl arg0 args =
     map (\<lambda>(n, fi). (n, \<lparr>rec_tag = fi_tag fi, rec_level = lvl,
          rec_created = (case fi_location fi of None \<Rightarrow> now | Some loc \<Rightarrow> in_location loc now),
          rec_message = log_message sprintf arg0 args\<rparr>))
       (filter (\<lambda>(n, fi). lv_lvl (fi_level fi) AND lv_lvl lvl \<noteq> 0) lg)"

section \<open>The format of a line\<close>

definition level_color :: "nat \<Rightarrow> nat" where
  "level_color offset =
     (if offset = 1 then 47 else if offset = 2 then 45 else if offset = 3 then 44 else if offset = 4 then 42 else if offset = 5 then 43
      else if offset = 6 \<or> offset = 7 then 41 else 0)"

text \<open>\<open>desc[0:4]\<close> panics for a shorter description.\<close>

definition level_text :: "Level \<Rightarrow> string outcome" where
  "level_text lv = slice_sub (lv_desc lv) 0 4"

definition format_code :: "(Time \<Rightarrow> string) \<Rightarrow> (Time \<Rightarrow> string) \<Rightarrow> nat \<Rightarrow> LogRecord \<Rightarrow> char \<Rightarrow> string outcome" where
  "format_code fmt_time unix pid r c =
     (if c = CHR ''T'' then Ret (fmt_time (rec_created r))
      else if c = CHR ''L'' then level_text (rec_level r)
      else if c = CHR ''C'' then
        bind_outcome (level_text (rec_level r)) (\<lambda>d.
          Ret ([CHR 0x1B] @ ''[30;'' @ nat_dec (level_color (lv_offset (rec_level r))) @ ''m'' @ d @ [CHR 0x1B] @ ''[0m''))
      else if c = CHR ''M'' then Ret (rec_message r)
      else if c = CHR ''S'' then Ret (unix (rec_created r))
      else if c = CHR ''E'' then Ret (''['' @ nat_dec pid @ '']'' @ rec_tag r)
      else Ret [])"

fun format_pieces :: "(char \<Rightarrow> string outcome) \<Rightarrow> bool \<Rightarrow> string list \<Rightarrow> string outcome" where
  "format_pieces code first [] = Ret []"
| "format_pieces code first (p # ps) =
     bind_outcome (if p = [] then Ret [] else if first then Ret p else bind_outcome (code (hd p)) (\<lambda>s. Ret (s @ tl p)))
       (\<lambda>s. bind_outcome (format_pieces code False ps) (\<lambda>t. Ret (s @ t)))"

definition FormatLogRecord :: "(Time \<Rightarrow> string) \<Rightarrow> (Time \<Rightarrow> string) \<Rightarrow> nat \<Rightarrow> string list \<Rightarrow> LogRecord option \<Rightarrow> string outcome" where
  "FormatLogRecord fmt_time unix pid fbs r =
     (case r of
        None \<Rightarrow> Ret ''<nil>''
      | Some lr \<Rightarrow> bind_outcome (format_pieces (format_code fmt_time unix pid lr) True fbs) (\<lambda>s. Ret (s @ [CHR 0x0A])))"

section \<open>The file writer\<close>

type_synonym files = "string \<Rightarrow> (string \<times> int) option"

record FileLog =
  fl_daily :: bool
  fl_maxsize :: int
  fl_maxdays :: int
  fl_curSize :: int
  fl_openDay :: int
  fl_mkdir :: bool
  fl_open :: bool
  fl_name :: string
  fl_alive :: bool
  fl_deletes :: nat

text \<open>The errors of the operating system in one step of the writer.\<close>

record io_errors =
  io_no_dir :: bool
  io_mkdir :: "string option"
  io_open :: "string option"
  io_size :: "string option"
  io_stat :: "string option"
  io_rename :: "string option"
  io_write :: "string option"

text \<open>\<open>createLogFile\<close>: an open file is kept, an existing one is appended to. \<open>io_no_dir\<close> says that the directory of the log does not
  exist.\<close>

definition createLogFile :: "io_errors \<Rightarrow> Time \<Rightarrow> FileLog \<Rightarrow> files \<Rightarrow> (FileLog \<times> files) \<times> string option" where
  "createLogFile io now w fs =
     (if fl_open w then ((w, fs), None)
      else case (if fl_mkdir w \<and> io_no_dir io then io_mkdir io else None) of
        Some e \<Rightarrow> ((w, fs), Some e)
      | None \<Rightarrow>
          (case io_open io of
             Some e \<Rightarrow> ((w, fs), Some e)
           | None \<Rightarrow>
               (let fs' = (if fs (fl_name w) = None then fs(fl_name w \<mapsto> ([], tsec now)) else fs);
                    w' = w\<lparr>fl_open := True, fl_openDay := tDay now\<rparr>
                in case io_size io of
                     Some e \<Rightarrow> ((w', fs'), Some (''get stat err: '' @ e))
                   | None \<Rightarrow> ((w'\<lparr>fl_curSize := int (length (fst (the (fs' (fl_name w)))))\<rparr>, fs'), None))))"

text \<open>A new writer opens its file at once, or panics; then its goroutine runs.\<close>

definition NewFileLogWriter :: "io_errors \<Rightarrow> Time \<Rightarrow> string \<Rightarrow> bool \<Rightarrow> bool \<Rightarrow> int \<Rightarrow> int \<Rightarrow> files \<Rightarrow> (FileLog \<times> files) outcome" where
  "NewFileLogWriter io now fname mkdir daily maxsize maxdays fs =
     (case createLogFile io now
        \<lparr>fl_daily = daily, fl_maxsize = maxsize, fl_maxdays = maxdays, fl_curSize = 0, fl_openDay = 0, fl_mkdir = mkdir, fl_open = False,
         fl_name = fname, fl_alive = True, fl_deletes = 0\<rparr> fs of
        (_, Some e) \<Rightarrow> Panic (PanicMsg e)
      | (s, None) \<Rightarrow> Ret s)"

definition date_text :: "Time \<Rightarrow> string" where
  "date_text t = pad0 4 (itoa (tYear t)) @ ''-'' @ pad0 2 (itoa (tMonth t)) @ ''-'' @ pad0 2 (itoa (tDay t))"

definition numbered_name :: "Time \<Rightarrow> string \<Rightarrow> nat \<Rightarrow> string" where
  "numbered_name now name num = name @ ''.'' @ date_text now @ ''.'' @ pad0 3 (nat_dec num)"

text \<open>The first number whose name is free, or the last one. A rotation ends by starting another deletion of old files.\<close>

fun free_name :: "files \<Rightarrow> (nat \<Rightarrow> string) \<Rightarrow> string \<Rightarrow> nat list \<Rightarrow> string" where
  "free_name fs name_of fname [] = fname"
| "free_name fs name_of fname (num # nums) =
     (if fs (name_of num) = None then name_of num else free_name fs name_of (name_of num) nums)"

definition rotate_log :: "io_errors \<Rightarrow> Time \<Rightarrow> FileLog \<Rightarrow> files \<Rightarrow> (FileLog \<times> files) \<times> string option" where
  "rotate_log io now w fs =
     (case io_stat io of
        Some e \<Rightarrow> ((w, fs), None)
      | None \<Rightarrow>
          (let fname = free_name fs (numbered_name now (fl_name w)) [] [1..<1000];
               w' = w\<lparr>fl_open := False\<rparr>
           in case io_rename io of
                Some e \<Rightarrow> ((w', fs), Some (''Rotate failed: '' @ e))
              | None \<Rightarrow>
                  (let fs' = (fs(fname := fs (fl_name w)))(fl_name w := None)
                   in case createLogFile io now w' fs' of
                        (s, Some e) \<Rightarrow> (s, Some (''Rotate failed: '' @ e))
                      | ((w2, fs2), None) \<Rightarrow> ((w2\<lparr>fl_deletes := fl_deletes w2 + 1\<rparr>, fs2), None))))"

text \<open>The file is rotated for its size or for a new day. The message of a record that rotates it is not counted.\<close>

definition needs_rotation :: "Time \<Rightarrow> FileLog \<Rightarrow> LogRecord \<Rightarrow> bool" where
  "needs_rotation now w r \<longleftrightarrow>
     fl_maxsize w > 0 \<and> fl_curSize w + int (length (rec_message r)) > fl_maxsize w \<or> fl_daily w \<and> fl_openDay w \<noteq> tDay now"

definition check_size :: "io_errors \<Rightarrow> Time \<Rightarrow> FileLog \<Rightarrow> files \<Rightarrow> LogRecord \<Rightarrow> (FileLog \<times> files) \<times> string option" where
  "check_size io now w fs r =
     (if needs_rotation now w r then rotate_log io now w fs
      else ((w\<lparr>fl_curSize := fl_curSize w + int (length (rec_message r))\<rparr>, fs), None))"

text \<open>One record in the loop of the writer's goroutine, which ends at the first error.\<close>

definition write_file :: "Time \<Rightarrow> string \<Rightarrow> string \<Rightarrow> files \<Rightarrow> files" where
  "write_file now name line fs =
     fs(name := (case fs name of None \<Rightarrow> None | Some (c, m) \<Rightarrow> Some (c @ line, tsec now)))"

definition run_record :: "(LogRecord \<Rightarrow> string) \<Rightarrow> io_errors \<Rightarrow> Time \<Rightarrow> LogRecord \<Rightarrow> FileLog \<times> files \<Rightarrow> FileLog \<times> files" where
  "run_record format io now r s =
     (case s of (w, fs) \<Rightarrow>
        if \<not> fl_alive w then s
        else case check_size io now w fs r of
          ((w', fs'), Some e) \<Rightarrow> (w'\<lparr>fl_alive := False\<rparr>, fs')
        | ((w', fs'), None) \<Rightarrow>
            (case io_write io of
               Some e \<Rightarrow> (w'\<lparr>fl_alive := False\<rparr>, fs')
             | None \<Rightarrow> (w', write_file now (fl_name w') (format r) fs')))"

text \<open>A visit of \<open>deleteOldFiles\<close>, a goroutine of its own that walks through the directory of the log: a file whose base name begins with the one of the
  log and that was not changed for \<open>MaxDays\<close> is removed.\<close>

definition base_name :: "string \<Rightarrow> string" where
  "base_name path = rev (takeWhile (\<lambda>c. c \<noteq> CHR ''/'') (rev path))"

definition dir_name :: "string \<Rightarrow> string" where
  "dir_name path = rev (dropWhile (\<lambda>c. c \<noteq> CHR ''/'') (rev path))"

definition deleteOldFiles :: "Time \<Rightarrow> FileLog \<Rightarrow> string \<Rightarrow> files \<Rightarrow> files" where
  "deleteOldFiles now w path fs =
     (case fs path of
        None \<Rightarrow> fs
      | Some (c, m) \<Rightarrow>
          if has_prefix path (dir_name (fl_name w)) \<and> has_prefix (base_name path) (base_name (fl_name w))
            \<and> m < tsec now - 60 * 60 * 24 * fl_maxdays w
          then fs(path := None) else fs)"

text \<open>What happens to a log: a record arrives, with the errors of the operating system while it is written; one of the running
  deletions visits a path; or one of them ends.\<close>

datatype log_event = EvRecord io_errors Time LogRecord | EvVisit Time string | EvEnd

definition log_step :: "(LogRecord \<Rightarrow> string) \<Rightarrow> log_event \<Rightarrow> FileLog \<times> files \<Rightarrow> FileLog \<times> files" where
  "log_step format ev s =
     (case ev of
        EvRecord io now r \<Rightarrow> run_record format io now r s
      | EvVisit now path \<Rightarrow> if fl_deletes (fst s) = 0 then s else (fst s, deleteOldFiles now (fst s) path (snd s))
      | EvEnd \<Rightarrow> ((fst s)\<lparr>fl_deletes := fl_deletes (fst s) - 1\<rparr>, snd s))"

definition run_log :: "(LogRecord \<Rightarrow> string) \<Rightarrow> log_event list \<Rightarrow> FileLog \<times> files \<Rightarrow> FileLog \<times> files" where
  "run_log format evs s = fold (log_step format) evs s"

section \<open>Levels are filters\<close>

lemma push_bit_word_bit: "n < 64 \<Longrightarrow> bit (push_bit n (1 :: 64 word)) k \<longleftrightarrow> k = n"
  using bit_push_bit_one [of n k] by auto

lemma and_level: "n < 64 \<Longrightarrow> (w :: 64 word) AND push_bit n 1 \<noteq> 0 \<longleftrightarrow> bit w n"
  using push_bit_1_and_zero [of n w] by (simp add: and.commute)

lemma bit_clear: "n < 64 \<Longrightarrow> k < 64 \<Longrightarrow> bit (clear_level w n) k \<longleftrightarrow> bit w k \<and> k \<noteq> n"
  using push_bit_word_bit [of n k] by (simp only: clear_level_def bit_and_iff bit_not_iff) simp

lemma bit_clear_levels:
  assumes "\<forall>e \<in> set es. snd e < 64" "k < 64"
  shows "bit (foldl (\<lambda>w e. if sel (snd e) then clear_level w (snd e) else w) w es) k
    \<longleftrightarrow> bit w k \<and> \<not> (\<exists>e \<in> set es. snd e = k \<and> sel k)"
  using assms by (induction es arbitrary: w) (auto simp: bit_clear)

lemma levels_small: "\<forall>e \<in> set levelMapping. snd e < 64"
  by (simp add: levelMapping_def)

lemma level_numbers: "(\<exists>e \<in> set levelMapping. snd e = k) \<longleftrightarrow> 1 \<le> k \<and> k \<le> 8"
  by (auto simp: levelMapping_def)

text \<open>A limit silences the levels below it and no others: a call of one of the eight levels writes to no filter when its level is
  below the limit, and to the same filters as before otherwise.\<close>

lemma limit_silences:
  assumes "1 \<le> n" "n \<le> 8" "0 \<le> l" "l < 2 ^ 63"
  shows "intLogf sprintf in_location now (Logger_Limit l lg) (level_of n d) arg0 args
    = (if int n < l then [] else intLogf sprintf in_location now lg (level_of n d) arg0 args)"
proof -
  define silence where "silence = change_level clear_level (\<lambda>k. int k < l mod 2 ^ 64)"
  have level: "lv_lvl (level_of n d) = push_bit n 1" by (simp only: level_of_def Level.simps)
  have enabled: "lv_lvl (fi_level (silence fi)) AND lv_lvl (level_of n d) \<noteq> 0
      \<longleftrightarrow> lv_lvl (fi_level fi) AND lv_lvl (level_of n d) \<noteq> 0 \<and> \<not> int n < l" for fi
  proof -
    have n: "n < 64" and l: "l mod 2 ^ 64 = l" using assms by simp_all
    have "(\<exists>e \<in> set levelMapping. snd e = n \<and> int n < l) \<longleftrightarrow> int n < l"
      using level_numbers [of n] assms(1, 2) by auto
    then show ?thesis
      using bit_clear_levels [OF levels_small n, of "\<lambda>k. int k < l" "lv_lvl (fi_level fi)"]
      unfolding silence_def l level and_level [OF n] by (simp add: change_level_def)
  qed
  then have off: "lv_lvl (fi_level (silence fi)) AND lv_lvl (level_of n d) = 0
      \<longleftrightarrow> lv_lvl (fi_level fi) AND lv_lvl (level_of n d) = 0 \<or> int n < l" for fi by blast
  have tag: "fi_tag (silence fi) = fi_tag fi" "fi_location (silence fi) = fi_location fi" for fi by (simp_all add: silence_def change_level_def)
  have "Logger_Limit l lg = map (\<lambda>(n, fi). (n, silence fi)) lg" by (simp only: Logger_Limit_def silence_def)
  moreover have "intLogf sprintf in_location now (map (\<lambda>(n, fi). (n, silence fi)) lg) (level_of n d) arg0 args
      = (if int n < l then [] else intLogf sprintf in_location now lg (level_of n d) arg0 args)"
    by (induction lg) (auto simp: intLogf_def off tag)
  ultimately show ?thesis by simp
qed

section \<open>What is written stays\<close>

lemma free_name_free:
  "\<exists>num \<in> set nums. fs (name_of num) = None \<Longrightarrow> \<exists>num \<in> set nums. free_name fs name_of fname nums = name_of num \<and> fs (name_of num) = None"
  by (induction nums arbitrary: fname) auto

lemma free_name_last: "\<forall>num \<in> set nums. fs (name_of num) \<noteq> None \<Longrightarrow> nums \<noteq> [] \<Longrightarrow> free_name fs name_of fname nums = name_of (last nums)"
  by (induction nums arbitrary: fname) auto

definition no_errors :: io_errors where
  "no_errors =
     \<lparr>io_no_dir = False, io_mkdir = None, io_open = None, io_size = None, io_stat = None, io_rename = None, io_write = None\<rparr>"

lemma numbered_name_differs: "numbered_name now name num \<noteq> name"
  by (simp add: numbered_name_def)

lemma rotate_ok:
  assumes "free_name fs (numbered_name now (fl_name w)) [] [1..<1000] = fname" "fname \<noteq> fl_name w"
  shows "rotate_log no_errors now w fs
    = ((w\<lparr>fl_open := True, fl_openDay := tDay now, fl_curSize := 0, fl_deletes := fl_deletes w + 1\<rparr>,
        (fs(fname := fs (fl_name w)))(fl_name w \<mapsto> ([], tsec now))), None)"
  using assms(2) unfolding rotate_log_def assms(1) Let_def createLogFile_def no_errors_def by (simp add: fun_eq_iff)

text \<open>When a record arrives, a number of the day is free if the log is rotated for it.\<close>

definition room_for :: "Time \<Rightarrow> LogRecord \<Rightarrow> FileLog \<times> files \<Rightarrow> bool" where
  "room_for now r s \<longleftrightarrow> needs_rotation now (fst s) r \<longrightarrow> (\<exists>num \<in> set [1..<1000]. snd s (numbered_name now (fl_name (fst s)) num) = None)"

fun roomy :: "(LogRecord \<Rightarrow> string) \<Rightarrow> log_event list \<Rightarrow> FileLog \<times> files \<Rightarrow> bool" where
  "roomy format [] s = True"
| "roomy format (ev # evs) s =
     ((case ev of EvRecord io now r \<Rightarrow> room_for now r s | _ \<Rightarrow> True) \<and> roomy format evs (log_step format ev s))"

text \<open>The lines of the records after which the writer goes on, and those of all records.\<close>

fun written_lines :: "(LogRecord \<Rightarrow> string) \<Rightarrow> log_event list \<Rightarrow> FileLog \<times> files \<Rightarrow> string list" where
  "written_lines format [] s = []"
| "written_lines format (ev # evs) s =
     (case ev of EvRecord io now r \<Rightarrow> if fl_alive (fst (log_step format ev s)) then [format r] else [] | _ \<Rightarrow> [])
       @ written_lines format evs (log_step format ev s)"

fun record_lines :: "(LogRecord \<Rightarrow> string) \<Rightarrow> log_event list \<Rightarrow> string list" where
  "record_lines format [] = []"
| "record_lines format (ev # evs) = (case ev of EvRecord io now r \<Rightarrow> [format r] | _ \<Rightarrow> []) @ record_lines format evs"

fun errorless :: "log_event \<Rightarrow> bool" where
  "errorless (EvRecord io now r) \<longleftrightarrow> io = no_errors"
| "errorless ev \<longleftrightarrow> True"

text \<open>The events within the seconds from \<open>t0\<close> to \<open>t1\<close>.\<close>

fun within :: "int \<Rightarrow> int \<Rightarrow> log_event \<Rightarrow> bool" where
  "within t0 t1 (EvRecord io now r) \<longleftrightarrow> t0 \<le> tsec now \<and> tsec now \<le> t1"
| "within t0 t1 (EvVisit now path) \<longleftrightarrow> t0 \<le> tsec now \<and> tsec now \<le> t1"
| "within t0 t1 EvEnd \<longleftrightarrow> True"

text \<open>A text at the beginning of a file that was changed since \<open>t0\<close>, and an open log that no deletion touches.\<close>

definition recent :: "int \<Rightarrow> files \<Rightarrow> string \<Rightarrow> bool" where
  "recent t0 fs c \<longleftrightarrow> (\<exists>q d m. fs q = Some (c @ d, m) \<and> t0 \<le> m)"

definition log_there :: "int \<Rightarrow> FileLog \<times> files \<Rightarrow> bool" where
  "log_there t0 s \<longleftrightarrow> (fl_alive (fst s) \<longrightarrow> (\<exists>c m. snd s (fl_name (fst s)) = Some (c, m) \<and> (0 < fl_deletes (fst s) \<longrightarrow> t0 \<le> m)))"

lemma recent_append: "recent t0 fs c \<Longrightarrow> t0 \<le> tsec now \<Longrightarrow> recent t0 (write_file now name line fs) c"
  unfolding recent_def by (elim exE conjE, rename_tac q d m, rule_tac x = q in exI) (auto simp: write_file_def)

lemma createLogFile_cases:
  assumes "createLogFile io now (w\<lparr>fl_open := False\<rparr>) fs = ((w', fs'), e)" "fs (fl_name w) = None"
  shows "fl_name w' = fl_name w \<and> fl_maxdays w' = fl_maxdays w \<and> fl_alive w' = fl_alive w \<and> fl_deletes w' = fl_deletes w
    \<and> (fs' = fs \<or> fs' = fs(fl_name w \<mapsto> ([], tsec now))) \<and> (e = None \<longrightarrow> fs' = fs(fl_name w \<mapsto> ([], tsec now)))"
  using assms by (auto simp: createLogFile_def Let_def split: option.splits if_splits)

lemma recent_rename: "recent t0 fs c \<Longrightarrow> fs fname = None \<Longrightarrow> recent t0 ((fs(fname := fs name))(name := None)) c"
  unfolding recent_def
  by (elim exE conjE, rename_tac q d m, case_tac "q = name", rule_tac x = fname in exI, fastforce, rule_tac x = q in exI, auto)

lemma recent_other: "recent t0 fs c \<Longrightarrow> fs name = None \<Longrightarrow> recent t0 (fs(name := x)) c"
  unfolding recent_def by (elim exE conjE, rename_tac q d m, rule_tac x = q in exI) auto

text \<open>What checking the size does to the files: nothing, or a rotation, with or without the new file.\<close>

lemma check_size_cases:
  assumes "check_size io now w fs r = ((w', fs'), e)" "room_for now r (w, fs)"
  shows "fl_name w' = fl_name w \<and> fl_maxdays w' = fl_maxdays w \<and> fl_alive w' = fl_alive w
    \<and> (fs' = fs \<and> fl_deletes w' = fl_deletes w
       \<or> (\<exists>fname. fs fname = None \<and> fname \<noteq> fl_name w
          \<and> (let g = (fs(fname := fs (fl_name w)))(fl_name w := None)
             in (e \<noteq> None \<and> fs' = g) \<or> fs' = g(fl_name w \<mapsto> ([], tsec now)))))"
proof (cases "needs_rotation now w r")
  case False
  with assms(1) show ?thesis by (auto simp: check_size_def)
next
  case True
  define fname where "fname = free_name fs (numbered_name now (fl_name w)) [] [1..<1000]"
  from True assms(2) have "\<exists>num \<in> set [1..<1000]. fs (numbered_name now (fl_name w) num) = None" by (simp add: room_for_def)
  from free_name_free [OF this] have f: "fs fname = None" "fname \<noteq> fl_name w"
    using numbered_name_differs by (auto simp: fname_def) (metis)+
  define g where "g = (fs(fname := fs (fl_name w)))(fl_name w := None)"
  obtain w2 fs2 e2 where c: "createLogFile io now (w\<lparr>fl_open := False\<rparr>) g = ((w2, fs2), e2)" by (metis surj_pair)
  have "g (fl_name w) = None" by (simp add: g_def)
  note cc = createLogFile_cases [OF c this]
  from assms(1) True have ro: "rotate_log io now w fs = ((w', fs'), e)" by (simp add: check_size_def)
  show ?thesis
  proof (cases "io_stat io")
    case (Some x)
    with ro show ?thesis by (simp add: rotate_log_def)
  next
    case stat: None
    show ?thesis
    proof (cases "io_rename io")
      case (Some x)
      with ro stat show ?thesis by (auto simp: rotate_log_def Let_def)
    next
      case None
      with ro c stat have e: "(case e2 of Some x \<Rightarrow> w' = w2 \<and> fs' = fs2 \<and> e \<noteq> None
          | None \<Rightarrow> w' = w2\<lparr>fl_deletes := fl_deletes w2 + 1\<rparr> \<and> fs' = fs2 \<and> e = None)"
        unfolding rotate_log_def fname_def [symmetric] g_def Let_def by (cases e2) auto
      have "fl_name w' = fl_name w \<and> fl_maxdays w' = fl_maxdays w \<and> fl_alive w' = fl_alive w" using e cc by (cases e2) simp_all
      moreover have "(e \<noteq> None \<and> fs' = g) \<or> fs' = g(fl_name w \<mapsto> ([], tsec now))"
        using e cc by (cases e2) (simp, metis option.simps(5))
      ultimately show ?thesis using f unfolding Let_def g_def by blast
    qed
  qed
qed

lemma record_keeps:
  assumes "log_there t0 (w, fs)" "room_for now r (w, fs)" "t0 \<le> tsec now" "run_record format io now r (w, fs) = (w', fs')"
  shows "log_there t0 (w', fs') \<and> fl_maxdays w' = fl_maxdays w \<and> (recent t0 fs c \<longrightarrow> recent t0 fs' c)
    \<and> (fl_alive w' \<longrightarrow> (\<exists>d. recent t0 fs' (d @ format r)))"
proof (cases "fl_alive w")
  case False
  with assms(4) show ?thesis by (auto simp: run_record_def log_there_def)
next
  case True
  obtain w1 fs1 e where c: "check_size io now w fs r = ((w1, fs1), e)" by (metis surj_pair)
  note cc = check_size_cases [OF c assms(2)]
  have old: "recent t0 fs1 c" if "recent t0 fs c"
  proof -
    consider "fs1 = fs" | fname where "fs fname = None" "fs1 = (fs(fname := fs (fl_name w)))(fl_name w := None)"
      | fname where "fs fname = None" "fs1 = ((fs(fname := fs (fl_name w)))(fl_name w := None))(fl_name w \<mapsto> ([], tsec now))"
      using cc by (auto simp: Let_def)
    then show ?thesis using recent_rename [OF that] recent_other [OF recent_rename [OF that]] that
      by (cases; metis fun_upd_same)
  qed
  show ?thesis
  proof (cases "e = None \<and> io_write io = None")
    case False
    with assms(4) True c have "w' = w1\<lparr>fl_alive := False\<rparr>" "fs' = fs1" by (auto simp: run_record_def split: option.splits)
    with cc old show ?thesis by (simp add: log_there_def)
  next
    case alive: True
    with assms(4) True c have s: "w' = w1" "fs' = write_file now (fl_name w) (format r) fs1"
      using cc by (auto simp: run_record_def)
    have "\<exists>d m. fs1 (fl_name w) = Some (d, m)" using cc alive assms(1) True by (auto simp: log_there_def Let_def)
    then obtain d m where d: "fs1 (fl_name w) = Some (d, m)" by blast
    then have f: "fs' (fl_name w) = Some (d @ format r, tsec now)" by (simp add: s write_file_def)
    then have "recent t0 fs' (d @ format r)" using assms(3) unfolding recent_def by (metis append_Nil2)
    with f old cc s assms(3) recent_append show ?thesis by (auto simp: log_there_def)
  qed
qed

lemma visit_keeps:
  assumes "\<And>c m. fs path = Some (c, m) \<Longrightarrow> t0 \<le> m \<Longrightarrow> \<not> m < tsec now - 60 * 60 * 24 * fl_maxdays w"
  shows "recent t0 fs c \<Longrightarrow> recent t0 (deleteOldFiles now w path fs) c"
    "fs q = Some (x, m) \<Longrightarrow> t0 \<le> m \<Longrightarrow> deleteOldFiles now w path fs q = Some (x, m)"
proof -
  show k: "fs q = Some (x, m) \<Longrightarrow> t0 \<le> m \<Longrightarrow> deleteOldFiles now w path fs q = Some (x, m)" for q x m
    using assms by (fastforce simp: deleteOldFiles_def split: option.splits)
  show "recent t0 fs c \<Longrightarrow> recent t0 (deleteOldFiles now w path fs) c" using k unfolding recent_def by metis
qed

lemma step_keeps:
  assumes "log_there t0 s" "within t0 (t0 + 60 * 60 * 24 * fl_maxdays (fst s)) ev"
    and "case ev of EvRecord io now r \<Rightarrow> room_for now r s | _ \<Rightarrow> True"
  shows "log_there t0 (log_step format ev s) \<and> fl_maxdays (fst (log_step format ev s)) = fl_maxdays (fst s)
    \<and> (recent t0 (snd s) c \<longrightarrow> recent t0 (snd (log_step format ev s)) c)"
proof (cases ev)
  case (EvRecord io now r)
  with record_keeps [of t0 "fst s" "snd s" now r format io] assms show ?thesis
    by (cases "run_record format io now r s") (auto simp: log_step_def)
next
  case (EvVisit now path)
  have "\<not> m < tsec now - 60 * 60 * 24 * fl_maxdays (fst s)" if "t0 \<le> m" for m using assms(2) that EvVisit by simp
  from visit_keeps [OF this] assms(1) EvVisit show ?thesis by (auto simp: log_step_def log_there_def split: if_splits)
next
  case EvEnd
  with assms(1) show ?thesis by (auto simp: log_step_def log_there_def)
qed

lemma run_keeps:
  assumes "log_there t0 s" "list_all (within t0 (t0 + 60 * 60 * 24 * fl_maxdays (fst s))) evs" "roomy format evs s"
  shows "(recent t0 (snd s) c \<longrightarrow> recent t0 (snd (run_log format evs s)) c)
    \<and> (\<forall>line \<in> set (written_lines format evs s). \<exists>d. recent t0 (snd (run_log format evs s)) (d @ line))"
  using assms
proof (induction evs arbitrary: s c)
  case (Cons ev evs)
  let ?s = "log_step format ev s"
  have k: "log_there t0 ?s" "fl_maxdays (fst ?s) = fl_maxdays (fst s)" "recent t0 (snd s) c \<longrightarrow> recent t0 (snd ?s) c" for c
    using step_keeps [of t0 s ev format] Cons.prems by auto
  have i: "(recent t0 (snd ?s) c \<longrightarrow> recent t0 (snd (run_log format evs ?s)) c)
    \<and> (\<forall>line \<in> set (written_lines format evs ?s). \<exists>d. recent t0 (snd (run_log format evs ?s)) (d @ line))" for c
    using Cons.IH [OF k(1)] Cons.prems k(2) by simp
  have "\<exists>d. recent t0 (snd ?s) (d @ format r)" if "ev = EvRecord io now r" "fl_alive (fst ?s)" for io now r
    using record_keeps [of t0 "fst s" "snd s" now r format io "fst ?s" "snd ?s"] that Cons.prems by (simp add: log_step_def)
  with k(3) i show ?case by (cases ev) (auto simp: run_log_def)
qed (simp add: run_log_def)

lemma errorless_alive:
  assumes "fl_alive (fst s)" "log_there t0 s" "errorless ev" "case ev of EvRecord io now r \<Rightarrow> room_for now r s | _ \<Rightarrow> True"
  shows "fl_alive (fst (log_step format ev s))"
proof (cases ev)
  case (EvRecord io now r)
  obtain w fs where s: "s = (w, fs)" by fastforce
  have io: "io = no_errors" using assms(3) EvRecord by simp
  have "snd (check_size io now w fs r) = None \<and> fl_alive (fst (fst (check_size io now w fs r)))"
  proof (cases "needs_rotation now w r")
    case True
    define fname where "fname = free_name fs (numbered_name now (fl_name w)) [] [1..<1000]"
    have "\<exists>num \<in> set [1..<1000]. fs (numbered_name now (fl_name w) num) = None"
      using assms(4) EvRecord True s by (simp add: room_for_def)
    from free_name_free [OF this] have "fname \<noteq> fl_name w" using numbered_name_differs by (auto simp: fname_def) metis
    from rotate_ok [OF fname_def [symmetric] this] True assms(1) s show ?thesis by (simp add: check_size_def io)
  qed (use assms(1) s in \<open>simp add: check_size_def\<close>)
  then show ?thesis using EvRecord s assms(1)
    by (auto simp: log_step_def run_record_def io split: prod.splits option.splits) (simp add: no_errors_def)
qed (use assms(1) in \<open>auto simp: log_step_def\<close>)

lemma errorless_written:
  assumes "fl_alive (fst s)" "log_there t0 s" "list_all errorless evs" "roomy format evs s"
    and "list_all (within t0 (t0 + 60 * 60 * 24 * fl_maxdays (fst s))) evs"
  shows "written_lines format evs s = record_lines format evs"
  using assms
proof (induction evs arbitrary: s)
  case (Cons ev evs)
  let ?s = "log_step format ev s"
  have a: "fl_alive (fst ?s)" using errorless_alive [of s t0 ev format] Cons.prems by simp
  have k: "log_there t0 ?s" "fl_maxdays (fst ?s) = fl_maxdays (fst s)" using step_keeps [of t0 s ev format] Cons.prems by auto
  show ?case using Cons.IH [OF a k(1)] k(2) Cons.prems a by (cases ev) auto
qed simp

text \<open>C30: No line is lost within \<open>MaxDays\<close>. Start with a live writer whose log is there and without a deletion that runs, as a new writer is, and let
  records arrive, with whatever errors of the operating system, rotations start their deletions, and these visit any paths in any order, all between the seconds
  \<open>t0\<close> and \<open>t0 + MaxDays\<close> days. While a number of the day is free at each rotation, the line of every record after which the writer went on
  is then in a file; so is a text at the beginning of a file that was changed since \<open>t0\<close>; and without errors the lines of all records were
  written. (A visit looks at a file and removes it in one step.)\<close>

theorem lines_kept:
  assumes "fl_alive w" "fs (fl_name w) = Some (c0, m0)" "fl_deletes w = 0"
    and "list_all (within t0 (t0 + 60 * 60 * 24 * fl_maxdays w)) evs" "roomy format evs (w, fs)"
    and run: "run_log format evs (w, fs) = (w', fs')"
  shows "(\<forall>line \<in> set (written_lines format evs (w, fs)). \<exists>q c d m. fs' q = Some (c @ line @ d, m))
    \<and> (fs p = Some (c, m) \<and> t0 \<le> m \<longrightarrow> (\<exists>q d m'. fs' q = Some (c @ d, m')))
    \<and> (list_all errorless evs \<longrightarrow> written_lines format evs (w, fs) = record_lines format evs)"
proof -
  have l: "log_there t0 (w, fs)" using assms(2,3) by (simp add: log_there_def)
  have k: "(recent t0 fs c \<longrightarrow> recent t0 fs' c) \<and> (\<forall>line \<in> set (written_lines format evs (w, fs)). \<exists>d. recent t0 fs' (d @ line))" for c
    using run_keeps [OF l _ assms(5), of c] assms(4) run by simp
  have "\<exists>q c d m. fs' q = Some (c @ line @ d, m)" if "line \<in> set (written_lines format evs (w, fs))" for line
    using k that unfolding recent_def by (metis append.assoc)
  moreover have "fs p = Some (c, m) \<and> t0 \<le> m \<longrightarrow> (\<exists>q d m'. fs' q = Some (c @ d, m'))"
    using k [of c] unfolding recent_def by (metis append_Nil2)
  ultimately show ?thesis using errorless_written [OF _ l, of evs format] assms(1,4,5) by simp
qed

text \<open>The last of the names is overwritten when all are taken.\<close>

lemma last_file_overwritten:
  assumes "\<forall>num \<in> set [1..<1000]. fs (numbered_name now (fl_name w) num) \<noteq> None" "needs_rotation now w r" "fl_alive w"
  shows "snd (run_record format no_errors now r (w, fs)) (numbered_name now (fl_name w) 999) = fs (fl_name w)"
proof -
  have "free_name fs (numbered_name now (fl_name w)) [] [1..<1000] = numbered_name now (fl_name w) (last [1..<1000])"
    by (rule free_name_last [OF assms(1)]) simp
  moreover have "last [1..<1000] = (999 :: nat)" by (subst last_upt) simp_all
  ultimately have "free_name fs (numbered_name now (fl_name w)) [] [1..<1000] = numbered_name now (fl_name w) 999" by simp
  from rotate_ok [OF this numbered_name_differs] show ?thesis
    using assms(2, 3) numbered_name_differs [of now "fl_name w" 999]
    by (simp add: run_record_def check_size_def) (simp add: no_errors_def write_file_def)
qed

section \<open>Examples\<close>

lemma limit_silences_witness:
  "intLogf (\<lambda>s (args :: nat list). s) (\<lambda>loc t. t) zeroTime (Logger_Limit 4 [(''app'', \<lparr>fi_tag = ''app'', fi_type = ''file'', fi_level = BuildLevel ''INFO|ERROR'', fi_location = None\<rparr>)])
     (level_of 3 ''INFO'') (LText ''started'') []
   = (if int 3 < 4 then [] else intLogf (\<lambda>s (args :: nat list). s) (\<lambda>loc t. t) zeroTime
       [(''app'', \<lparr>fi_tag = ''app'', fi_type = ''file'', fi_level = BuildLevel ''INFO|ERROR'', fi_location = None\<rparr>)] (level_of 3 ''INFO'') (LText ''started'') [])"
  by (rule limit_silences) simp_all

definition small_log :: FileLog where
  "small_log = \<lparr>fl_daily = False, fl_maxsize = 5, fl_maxdays = 7, fl_curSize = 3, fl_openDay = 1, fl_mkdir = False, fl_open = True, fl_name = ''a.log'', fl_alive = True, fl_deletes = 0\<rparr>"

definition hello :: LogRecord where
  "hello = \<lparr>rec_tag = ''t'', rec_level = level_of 3 ''INFO'', rec_created = zeroTime, rec_message = ''hello''\<rparr>"

text \<open>A rotation, after which its deletion visits the log.\<close>

definition small_run :: "log_event list" where
  "small_run = [EvRecord no_errors zeroTime hello, EvVisit zeroTime ''a.log'', EvEnd]"

theorem lines_kept_witness:
  "\<exists>w' fs' q c d m. run_log rec_message small_run (small_log, [''a.log'' \<mapsto> (''abc'', 0)]) = (w', fs') \<and> fs' q = Some (c @ ''hello'' @ d, m)"
proof -
  let ?s = "(small_log, [''a.log'' \<mapsto> (''abc'', 0)])"
  obtain w' fs' where r: "run_log rec_message small_run ?s = (w', fs')" by fastforce
  have "numbered_name zeroTime ''a.log'' 1 \<noteq> ''a.log''" by (rule numbered_name_differs)
  then have "\<exists>num \<in> set [1..<1000]. ([''a.log'' \<mapsto> (''abc'', 0 :: int)]) (numbered_name zeroTime (fl_name small_log) num) = None"
    by (intro bexI [of _ 1]) (simp_all add: small_log_def)
  then have "roomy rec_message small_run ?s" by (simp add: small_run_def room_for_def)
  moreover have "list_all (within (tsec zeroTime) (tsec zeroTime + 60 * 60 * 24 * fl_maxdays small_log)) small_run"
    by (simp add: small_run_def small_log_def)
  ultimately have "(\<forall>line \<in> set (written_lines rec_message small_run ?s). \<exists>q c d m. fs' q = Some (c @ line @ d, m))
      \<and> (list_all errorless small_run \<longrightarrow> written_lines rec_message small_run ?s = record_lines rec_message small_run)"
    using lines_kept [of small_log "[''a.log'' \<mapsto> (''abc'', 0)]" "''abc''" 0 "tsec zeroTime" small_run rec_message w' fs'] r
    by (simp add: small_log_def)
  moreover have "list_all errorless small_run" "''hello'' \<in> set (record_lines rec_message small_run)"
    by (simp_all add: small_run_def hello_def)
  ultimately have "\<exists>q c d m. fs' q = Some (c @ ''hello'' @ d, m)" by metis
  with r show ?thesis by blast
qed

text \<open>Calls with a value and nothing else write an empty message.\<close>

lemma value_not_logged: "log_message sprintf (LValue s) [] = []"
  by (simp add: log_message_def)

text \<open>A rotation does not count the line that caused it, and the size counts messages, not lines.\<close>

lemma rotation_not_counted:
  assumes "needs_rotation now w r" "fl_alive w"
    and "free_name fs (numbered_name now (fl_name w)) [] [1..<1000] = fname" "fname \<noteq> fl_name w"
  shows "fl_curSize (fst (run_record format no_errors now r (w, fs))) = 0"
  using assms(1, 2) rotate_ok [OF assms(3, 4)] by (simp add: run_record_def check_size_def) (simp add: no_errors_def)

text \<open>Without \<open>MaxDays\<close> the rotated files are deleted as soon as they are a second old.\<close>

lemma no_days_deletes:
  assumes "fs path = Some (c, m)" "has_prefix path (dir_name (fl_name w))" "has_prefix (base_name path) (base_name (fl_name w))"
    "fl_maxdays w = 0" "m < tsec now"
  shows "deleteOldFiles now w path fs path = None"
  using assms by (simp add: deleteOldFiles_def)

text \<open>A visit does not spare the log that is open: when it was not written for \<open>MaxDays\<close>, it is removed, and what is written to it
  afterwards is in no file.\<close>

lemma dir_base: "dir_name path @ base_name path = path"
  unfolding dir_name_def base_name_def by (metis rev_append rev_rev_ident takeWhile_dropWhile_id)

lemma open_log_deleted:
  assumes "fs (fl_name w) = Some (c, m)" "m < tsec now - 60 * 60 * 24 * fl_maxdays w" "fl_alive w"
    and "\<not> needs_rotation now' w r"
  shows "snd (run_record format no_errors now' r (w, deleteOldFiles now w (fl_name w) fs)) = fs(fl_name w := None)"
proof -
  have "has_prefix (fl_name w) (dir_name (fl_name w))" "has_prefix (base_name (fl_name w)) (base_name (fl_name w))"
    using dir_base [of "fl_name w"] by (metis has_prefix_iff, metis has_prefix_iff append_Nil2)
  then have "deleteOldFiles now w (fl_name w) fs = fs(fl_name w := None)" using assms(1,2) by (simp add: deleteOldFiles_def)
  with assms(3,4) show ?thesis by (simp add: run_record_def check_size_def write_file_def no_errors_def fun_eq_iff)
qed

text \<open>A log that is written to again on the same day of another month is not rotated.\<close>

lemma same_day_not_rotated: "fl_maxsize w = 0 \<Longrightarrow> fl_openDay w = tDay now \<Longrightarrow> \<not> needs_rotation now w r"
  by (simp add: needs_rotation_def)

text \<open>After an error the writer's goroutine is gone, and nothing is written.\<close>

lemma dead_writer: "\<not> fl_alive w \<Longrightarrow> run_record format io now r (w, fs) = (w, fs)"
  by (simp add: run_record_def)

lemma error_kills_writer:
  assumes "fl_alive w" "io_write io = Some e" "io_rename io = None" "io_open io = None" "\<not> needs_rotation now w r"
  shows "\<not> fl_alive (fst (run_record format io now r (w, fs)))"
  using assms by (simp add: run_record_def check_size_def)


section \<open>Lines of the eight calls\<close>

lemma level_text_call: "lv \<in> snd ` set level_calls \<Longrightarrow> \<exists>s. level_text lv = Ret s"
  by (auto simp: level_calls_def level_of_def level_text_def slice_sub_def)

lemma format_code_ret:
  "rec_level r \<in> snd ` set level_calls \<Longrightarrow> \<exists>s. format_code fmt_time unix pid r c = Ret s"
  using level_text_call [of "rec_level r"] by (auto simp: format_code_def)

lemma format_pieces_ret: "(\<And>c. \<exists>s. code c = Ret s) \<Longrightarrow> \<exists>s. format_pieces code first ps = Ret s"
proof (induction ps arbitrary: first)
  case (Cons p ps)
  from Cons.prems [of "hd p"] Cons.IH [OF Cons.prems, of False] show ?case by auto
qed simp

text \<open>A level of a call is at least four letters long, so that no line panics.\<close>

lemma line_formatted:
  "rec_level r \<in> snd ` set level_calls \<Longrightarrow> \<exists>s. FormatLogRecord fmt_time unix pid fbs (Some r) = Ret s"
  using format_pieces_ret [of "format_code fmt_time unix pid r", OF format_code_ret, of True fbs]
  by (auto simp: FormatLogRecord_def)

end
