(* ===== verification/WhttpProxy.thy ===== *)
theory WhttpProxy
  imports Prelude
begin

text \<open>
  The reverse proxy of \<open>whttp/proxy.go\<close>: the choice of a target from the configuration, the cache of responses, the headers that go to
  the target and come back, and the copying of the body.

  A header is a map from canonical names to the list of its values. The transport, the random choice of an address, the parser of
  addresses and the test for a token in the values of a header (\<open>httpguts\<close>) are parameters. The headers of the client's request and of
  the outgoing one are one map until the code copies it.
\<close>

section \<open>Headers\<close>

type_synonym header = "string \<Rightarrow> string list option"

definition h_values :: "header \<Rightarrow> string \<Rightarrow> string list" where
  "h_values h k = (case h k of None \<Rightarrow> [] | Some vs \<Rightarrow> vs)"

definition h_Get :: "header \<Rightarrow> string \<Rightarrow> string" where
  "h_Get h k = (case h_values h k of [] \<Rightarrow> [] | v # _ \<Rightarrow> v)"

definition h_Set :: "string \<Rightarrow> string \<Rightarrow> header \<Rightarrow> header" where
  "h_Set k v h = h(k \<mapsto> [v])"

definition h_Add :: "string \<Rightarrow> string \<Rightarrow> header \<Rightarrow> header" where
  "h_Add k v h = h(k \<mapsto> h_values h k @ [v])"

definition h_Del :: "string \<Rightarrow> header \<Rightarrow> header" where
  "h_Del k h = h(k := None)"

text \<open>The canonical form of a name; a name with a character that is not allowed is left as it is.\<close>

definition token_char :: "char \<Rightarrow> bool" where
  "token_char c \<longleftrightarrow> is_digit c \<or> 65 \<le> (of_char c :: nat) \<and> (of_char c :: nat) \<le> 90 \<or> 97 \<le> (of_char c :: nat) \<and> (of_char c :: nat) \<le> 122
     \<or> c \<in> set ''!#$%&*+-.^_|~'' \<or> c \<in> {CHR 0x27, CHR 0x60}"

fun canon_chars :: "bool \<Rightarrow> string \<Rightarrow> string" where
  "canon_chars up [] = []"
| "canon_chars up (c # s) = (if up then upper_char c else lower_char c) # canon_chars (c = CHR ''-'') s"

definition canonical :: "string \<Rightarrow> string" where
  "canonical k = (if list_all token_char k then canon_chars True k else k)"

text \<open>\<open>copyHeader\<close> adds every value; \<open>copyFastHeader\<close> keeps the last value of a header, except for two of them.\<close>

definition copyHeader :: "header \<Rightarrow> header \<Rightarrow> header" where
  "copyHeader dst src k = (if h_values src k = [] then dst k else Some (h_values dst k @ h_values src k))"

definition copyFastHeader :: "header \<Rightarrow> header \<Rightarrow> header" where
  "copyFastHeader dst src k =
     (if h_values src k = [] then dst k
      else if k = ''Set-Cookie'' \<or> k = ''Cache-Control'' then Some (h_values dst k @ h_values src k)
      else Some [last (h_values src k)])"

definition upgradeType :: "(string list \<Rightarrow> string \<Rightarrow> bool) \<Rightarrow> header \<Rightarrow> string" where
  "upgradeType has_token h = (if has_token (h_values h ''Connection'') ''Upgrade'' then to_lower (h_Get h ''Upgrade'') else [])"

definition skipHeaders :: "string list" where
  "skipHeaders = [''Date'', ''Server'', ''Content-Length'']"

definition hopHeaders :: "string list" where
  "hopHeaders = [''Connection'', ''Proxy-Connection'', ''Keep-Alive'', ''Proxy-Authenticate'', ''Proxy-Authorization'', ''Te'', ''Trailer'',
     ''Transfer-Encoding'', ''Upgrade'']"

section \<open>The outgoing request\<close>

record url =
  u_scheme :: string
  u_host :: string
  u_path :: string
  u_query :: string

definition singleJoiningSlash :: "string \<Rightarrow> string \<Rightarrow> string" where
  "singleJoiningSlash a b =
     (let aslash = has_suffix a ''/''; bslash = has_prefix b ''/''
      in if aslash \<and> bslash then a @ tl b
         else if \<not> aslash \<and> \<not> bslash then a @ ''/'' @ b
         else a @ b)"

definition director_url :: "url \<Rightarrow> url \<Rightarrow> url" where
  "director_url target u =
     \<lparr>u_scheme = u_scheme target, u_host = u_host target, u_path = singleJoiningSlash (u_path target) (u_path u),
      u_query = (if u_query target = [] \<or> u_query u = [] then u_query target @ u_query u else u_query target @ ''&'' @ u_query u)\<rparr>"

text \<open>The headers of the client's request, and those of the outgoing one once they are a copy.\<close>

record headers =
  hs_req :: header
  hs_out :: "header option"

definition out_header :: "headers \<Rightarrow> header" where
  "out_header s = (case hs_out s of None \<Rightarrow> hs_req s | Some h \<Rightarrow> h)"

definition on_out :: "(header \<Rightarrow> header) \<Rightarrow> headers \<Rightarrow> headers" where
  "on_out f s = (case hs_out s of None \<Rightarrow> s\<lparr>hs_req := f (hs_req s)\<rparr> | Some h \<Rightarrow> s\<lparr>hs_out := Some (f h)\<rparr>)"

definition copied :: "headers \<Rightarrow> headers" where
  "copied s = (case hs_out s of None \<Rightarrow> s\<lparr>hs_out := Some (copyHeader Map.empty (hs_req s))\<rparr> | Some h \<Rightarrow> s)"

text \<open>The names in the header \<open>Connection\<close>.\<close>

definition connection_names :: "header \<Rightarrow> string list" where
  "connection_names h =
     (let conn = h_Get h ''Connection''
      in if conn = [] then [] else filter (\<lambda>f. f \<noteq> []) (map trim_space (split_on (CHR '','') conn)))"

definition director_headers :: "headers \<Rightarrow> headers" where
  "director_headers s = (if out_header s ''User-Agent'' = None then on_out (h_Set ''User-Agent'' []) s else s)"

definition drop_listed :: "headers \<Rightarrow> headers" where
  "drop_listed s = foldl (\<lambda>s f. on_out (h_Del (canonical f)) (copied s)) s (connection_names (out_header s))"

definition drop_hop :: "headers \<Rightarrow> string \<Rightarrow> headers" where
  "drop_hop s h =
     (let hv = h_Get (out_header s) h
      in if hv = [] then s else if h = ''Te'' \<and> hv = ''trailers'' then s else on_out (h_Del h) (copied s))"

record proxy_request =
  pr_method :: string
  pr_host :: string
  pr_url :: url
  pr_header :: header
  pr_scheme :: string
  pr_clientIP :: string
  pr_requestID :: string
  pr_depth :: nat
  pr_engine :: string
  pr_encoding :: string
  pr_mode :: string
  pr_query :: "string \<Rightarrow> string"

definition forwarded_for :: "string \<Rightarrow> header \<Rightarrow> header" where
  "forwarded_for ip h =
     h_Set ''X-Forwarded-For'' (case h ''X-Forwarded-For'' of None \<Rightarrow> ip | Some prior \<Rightarrow> join '', '' prior @ '', '' @ ip) h"

definition outgoing :: "(string list \<Rightarrow> string \<Rightarrow> bool) \<Rightarrow> (string \<times> string) list \<Rightarrow> proxy_request \<Rightarrow> headers" where
  "outgoing has_token extra r =
     (let s0 = director_headers \<lparr>hs_req = pr_header r, hs_out = None\<rparr>;
          up = upgradeType has_token (out_header s0);
          s1 = foldl drop_hop (drop_listed s0) hopHeaders;
          s2 = foldl (\<lambda>s (h, v). on_out (h_Set (canonical h) v) s) s1 extra;
          s3 = (if pr_requestID r \<noteq> []
                then on_out (h_Set ''X-Wgo-Depth'' (nat_dec (pr_depth r))) (on_out (h_Set ''X-Request-Id'' (pr_requestID r)) s2) else s2);
          s4 = (if up \<noteq> [] then on_out (h_Set ''Upgrade'' up) (on_out (h_Set ''Connection'' ''Upgrade'') s3) else s3);
          s5 = (if pr_clientIP r \<noteq> [] then on_out (forwarded_for (pr_clientIP r)) s4 else s4)
      in on_out (h_Set ''X-Forwarded-Proto'' (pr_scheme r)) s5)"

section \<open>The response\<close>

record proxy_response =
  ps_status :: nat
  ps_header :: header
  ps_trailer :: header
  ps_body :: string

text \<open>The headers of the target's response, as they are copied to the client: those of CORS, and without the ones of the connection and
  the ones that the server sets itself.\<close>

definition cors_header :: "header \<Rightarrow> header \<Rightarrow> header" where
  "cors_header out res =
     (let res1 = h_Del ''Content-Length'' res
      in if h_Get out ''Origin'' \<noteq> []
         then h_Set ''Access-Control-Allow-Credentials'' ''true'' (h_Set ''Access-Control-Allow-Origin'' (h_Get out ''Origin'') res1)
         else res1)"

definition preflight_header :: "header \<Rightarrow> header \<Rightarrow> header" where
  "preflight_header out res =
     (let res1 = h_Set ''Access-Control-Allow-Methods'' ''GET, POST, PUT, PATCH, DELETE, OPTIONS''
                   (h_Set ''Access-Control-Max-Age'' ''86400'' (cors_header out res));
          ch = h_Get out ''Access-Control-Request-Headers''
      in if ch \<noteq> [] then h_Set ''Access-Control-Allow-Headers'' ch res1 else res1)"

definition strip_response :: "header \<Rightarrow> header" where
  "strip_response res =
     foldl (\<lambda>h k. h_Del k h) (foldl (\<lambda>h f. h_Del (canonical f) h) res (connection_names res)) (hopHeaders @ skipHeaders)"

definition trailer_names :: "header \<Rightarrow> string list \<Rightarrow> header \<Rightarrow> header" where
  "trailer_names trailer names h = (if names \<noteq> [] then h_Add ''Trailer'' (join '', '' names) h else h)"

text \<open>\<open>doProxy\<close> without the switch of protocols: the status and the headers of the client's response, and whether the body is copied.
  \<open>names\<close> are the names of the trailer, in the order of the map.\<close>

datatype proxied = ProxyError string | Answered nat header bool | Switched header

definition doProxy ::
  "(string list \<Rightarrow> string \<Rightarrow> bool) \<Rightarrow> (url \<Rightarrow> header \<Rightarrow> string + proxy_response) \<Rightarrow> (header \<Rightarrow> string list) \<Rightarrow> url \<Rightarrow> (string \<times> string) list
    \<Rightarrow> proxy_request \<Rightarrow> header \<Rightarrow> proxied \<times> header" where
  "doProxy has_token round_trip names target extra r dst =
     (let s = outgoing has_token extra r; out = out_header s
      in (case round_trip (director_url target (pr_url r)) out of
            Inl e \<Rightarrow> ProxyError e
          | Inr res \<Rightarrow>
              if pr_method r = ''OPTIONS'' then Answered 200 (copyFastHeader dst (preflight_header out (ps_header res))) False
              else if ps_status res = 101 then Switched (cors_header out (ps_header res))
              else Answered (ps_status res)
                (copyFastHeader (trailer_names (ps_trailer res) (names (ps_trailer res))
                   (copyFastHeader dst (strip_response (cors_header out (ps_header res))))) (ps_trailer res)) True,
          hs_req s))"

text \<open>The interval of the flushes: at once for a stream of events.\<close>

definition flushInterval :: "int \<Rightarrow> header \<Rightarrow> int" where
  "flushInterval interval res = (if h_Get res ''Content-Type'' = ''text/event-stream'' then - 1 else interval)"

text \<open>The switch of protocols: the client's and the target's protocol are the same, and the body of the response and the connection of
  the client can be written. \<open>rw\<close> are the headers of the client's response so far; the result are the headers that are written.\<close>

record upgrade_io =
  ui_writable :: bool
  ui_hijack :: "string option"
  ui_write :: "string option"
  ui_flush :: "string option"

definition in_quotes :: "string \<Rightarrow> string" where
  "in_quotes s = [CHR 0x22] @ s @ [CHR 0x22]"

definition handleUpgradeResponse :: "(string list \<Rightarrow> string \<Rightarrow> bool) \<Rightarrow> upgrade_io \<Rightarrow> header \<Rightarrow> header \<Rightarrow> header \<Rightarrow> string + header" where
  "handleUpgradeResponse has_token io rw req res =
     (let reqUp = upgradeType has_token req; resUp = upgradeType has_token res
      in if reqUp \<noteq> resUp
         then Inl (''backend tried to switch protocol '' @ in_quotes resUp @ '' when '' @ in_quotes reqUp @ '' was requested'')
         else if \<not> ui_writable io then Inl ''internal error: 101 switching protocols response with non-writable body''
         else case ui_hijack io of
           Some e \<Rightarrow> Inl (''Hijack failed on protocol switch: '' @ e)
         | None \<Rightarrow>
             (case ui_write io of
                Some e \<Rightarrow> Inl (''response write: '' @ e)
              | None \<Rightarrow> (case ui_flush io of Some e \<Rightarrow> Inl (''response flush: '' @ e) | None \<Rightarrow> Inr (copyHeader res rw))))"

section \<open>A request of fasthttp\<close>

text \<open>The headers of a request that does not come from \<open>net/http\<close>, one by one: of several values the last one stays. Its body is read
  from the bytes that are left.\<close>

definition fast_header :: "(string \<times> string) list \<Rightarrow> header" where
  "fast_header hs = foldl (\<lambda>h (k, v). if k = ''Transfer-Encoding'' then h else h_Set (canonical k) v h) Map.empty hs"

definition body_Read :: "nat \<Rightarrow> string \<Rightarrow> (string \<times> bool) \<times> string" where
  "body_Read n b = (if b = [] then (([], True), b) else ((take n b, False), drop n b))"

definition body_Close :: "string \<Rightarrow> string" where
  "body_Close b = []"

section \<open>Configuration and cache\<close>

record proxy_options =
  po_addrs :: "string list"
  po_cache :: bool
  po_ttl :: int
  po_params :: "string list"
  po_headers :: "string list"
  po_extra :: "(string \<times> string) list"

datatype proxy_config = Addrs "string list" | WithOptions proxy_options | BadConfig

text \<open>By host and first part of the path, with \<open>*\<close> for any.\<close>

definition endpoint_of :: "string \<Rightarrow> string" where
  "endpoint_of path = (case split_on (CHR ''/'') path of _ # p # _ \<Rightarrow> CHR ''/'' # p | _ \<Rightarrow> ''/'')"

definition wildcard :: "(string \<Rightarrow> 'a option) \<Rightarrow> string \<Rightarrow> 'a option" where
  "wildcard m k = (case m k of Some v \<Rightarrow> Some v | None \<Rightarrow> m ''*'')"

type_synonym proxy_table = "string \<Rightarrow> (string \<Rightarrow> proxy_config option) option"

definition find_config :: "proxy_table \<Rightarrow> string \<Rightarrow> string \<Rightarrow> proxy_config option" where
  "find_config config host path =
     (case wildcard config host of None \<Rightarrow> None | Some endpoints \<Rightarrow> wildcard endpoints (endpoint_of path))"

text \<open>A host of the file may be a list with commas.\<close>

definition proxy_hosts :: "(string \<times> (string \<Rightarrow> proxy_config option)) list \<Rightarrow> proxy_table" where
  "proxy_hosts cfg h = map_of (rev (concat (map (\<lambda>(hs, c). map (\<lambda>host. (trim_space host, c)) (split_on (CHR '','') hs)) cfg))) h"

definition cache_params :: "(string \<Rightarrow> string) \<Rightarrow> string list \<Rightarrow> string" where
  "cache_params qp names = concat (map (\<lambda>n. qp n @ '','') names)"

definition cache_headers :: "header \<Rightarrow> string list \<Rightarrow> string" where
  "cache_headers h names = concat (map (\<lambda>n. h_Get h (canonical n)) names)"

definition cache_key :: "proxy_options \<Rightarrow> proxy_request \<Rightarrow> string" where
  "cache_key po r =
     pr_method r @ '':'' @ u_path (pr_url r) @ '':'' @ pr_engine r @ '':'' @ pr_encoding r @ '':'' @ cache_params (pr_query r) (po_params po)
       @ '':'' @ cache_headers (pr_header r) (po_headers po)"

text \<open>The middleware: the request goes to the next handler, is answered from the cache, or by the target. \<open>parse\<close> reads the address
  that was chosen; an answer without an error is cached.\<close>

datatype proxy_answer = NextHandler | FromCache "nat \<times> header \<times> string" | FromTarget proxied

definition proxy_target :: "(string list \<Rightarrow> string) \<Rightarrow> (string \<Rightarrow> url option) \<Rightarrow> proxy_config option \<Rightarrow> (url \<times> proxy_options option) option" where
  "proxy_target pick parse cfg =
     (case cfg of
        Some (Addrs xs) \<Rightarrow> if xs \<noteq> [] then map_option (\<lambda>u. (u, None)) (parse (pick xs)) else None
      | Some (WithOptions po) \<Rightarrow>
          if po_addrs po \<noteq> [] then map_option (\<lambda>u. (u, Some po)) (parse (pick (po_addrs po))) else None
      | _ \<Rightarrow> None)"

type_synonym proxy_cache = "string \<Rightarrow> (nat \<times> header \<times> string) option"

definition Proxy ::
  "(string list \<Rightarrow> string) \<Rightarrow> (string \<Rightarrow> url option) \<Rightarrow> (url \<Rightarrow> (string \<times> string) list \<Rightarrow> proxy_request \<Rightarrow> proxied \<times> string)
    \<Rightarrow> proxy_table option \<Rightarrow> proxy_request \<Rightarrow> proxy_cache \<Rightarrow> proxy_answer \<times> proxy_cache" where
  "Proxy pick parse run config r cache =
     (case config of
        None \<Rightarrow> (NextHandler, cache)
      | Some table \<Rightarrow>
          if pr_mode r \<in> {''wrpc'', ''rpc'', ''grpc''} then (NextHandler, cache)
          else case proxy_target pick parse (find_config table (pr_host r) (u_path (pr_url r))) of
            None \<Rightarrow> (NextHandler, cache)
          | Some (target, opts) \<Rightarrow>
              (let enabled = (case opts of None \<Rightarrow> False | Some po \<Rightarrow> po_cache po);
                   key = (case opts of None \<Rightarrow> [] | Some po \<Rightarrow> cache_key po r);
                   extra = (case opts of None \<Rightarrow> [] | Some po \<Rightarrow> po_extra po)
               in case (if enabled then cache key else None) of
                    Some res \<Rightarrow> (FromCache res, cache)
                  | None \<Rightarrow>
                      (case run target extra r of
                         (ProxyError e, body) \<Rightarrow> (FromTarget (ProxyError e), cache)
                       | (Answered st h copy, body) \<Rightarrow>
                           (FromTarget (Answered st h copy), if enabled then cache(key \<mapsto> (st, h, body)) else cache)
                       | (Switched h, body) \<Rightarrow> (FromTarget (Switched h), if enabled then cache(key \<mapsto> (101, h, body)) else cache))))"

section \<open>Copying the body\<close>

text \<open>What a call of \<open>Read\<close> gives: some bytes and an error. A writer takes bytes and answers how many it has written, and an error.\<close>

datatype read_error = EOF | ReadError string

datatype copy_error = ReadFailed string | WriteFailed string | ShortWrite

fun copyBuffer ::
  "('w \<Rightarrow> string \<Rightarrow> (nat \<times> string option) \<times> 'w) \<Rightarrow> (string \<times> read_error option) list \<Rightarrow> nat \<Rightarrow> 'w \<Rightarrow> ((nat \<times> copy_error option) \<times> 'w) option" where
  "copyBuffer write [] written w = None"
| "copyBuffer write ((buf, rerr) # rs) written w =
     (case (if buf \<noteq> [] then
              (case write w buf of
                 ((nw, werr), w') \<Rightarrow>
                   (written + nw, (case werr of Some e \<Rightarrow> Some (WriteFailed e) | None \<Rightarrow> if nw \<noteq> length buf then Some ShortWrite else None), w'))
            else (written, None, w)) of
        (n, Some e, w') \<Rightarrow> Some ((n, Some e), w')
      | (n, None, w') \<Rightarrow>
          (case rerr of
             None \<Rightarrow> copyBuffer write rs n w'
           | Some EOF \<Rightarrow> Some ((n, None), w')
           | Some (ReadError e) \<Rightarrow> Some ((n, Some (ReadFailed e)), w')))"

text \<open>The writer that flushes after a latency, at once when it is negative. The state has what was written and not yet flushed, and
  what was flushed.\<close>

record maxLatencyWriter =
  ml_latency :: int
  ml_timer :: bool
  ml_pending :: bool
  ml_held :: string
  ml_sent :: string

definition flushed :: "maxLatencyWriter \<Rightarrow> maxLatencyWriter" where
  "flushed m = m\<lparr>ml_sent := ml_sent m @ ml_held m, ml_held := []\<rparr>"

definition latency_Write :: "maxLatencyWriter \<Rightarrow> string \<Rightarrow> (nat \<times> string option) \<times> maxLatencyWriter" where
  "latency_Write m p =
     (let m1 = m\<lparr>ml_held := ml_held m @ p\<rparr>
      in ((length p, None),
          if ml_latency m < 0 then flushed m1
          else if ml_pending m then m1
          else m1\<lparr>ml_timer := True, ml_pending := True\<rparr>))"

definition delayedFlush :: "maxLatencyWriter \<Rightarrow> maxLatencyWriter" where
  "delayedFlush m = (flushed m)\<lparr>ml_pending := False\<rparr>"

definition latency_stop :: "maxLatencyWriter \<Rightarrow> maxLatencyWriter" where
  "latency_stop m = (if ml_timer m then m\<lparr>ml_timer := False\<rparr> else m)"

section \<open>Headers of the connection\<close>

lemma h_Get_simps [simp]:
  "h_Get (h_Del k h) k' = (if k' = k then [] else h_Get h k')"
  "h_Get (h_Set k v h) k' = (if k' = k then v else h_Get h k')"
  by (simp_all add: h_Get_def h_values_def h_Del_def h_Set_def)

lemma out_on_out [simp]: "out_header (on_out f s) = f (out_header s)"
  by (auto simp: out_header_def on_out_def split: option.splits)

lemma values_simps [simp]:
  "h_values (h_Del k h) k' = (if k' = k then [] else h_values h k')"
  "h_values (h_Set k v h) k' = (if k' = k then [v] else h_values h k')"
  by (simp_all add: h_values_def h_Del_def h_Set_def)

lemma values_copied [simp]: "h_values (out_header (copied s)) k = h_values (out_header s) k"
  by (auto simp: out_header_def copied_def copyHeader_def h_values_def split: option.splits list.splits)

text \<open>The values of a hop-by-hop header that \<open>drop_hop\<close> leaves: the first one is empty, or says of \<open>Te\<close> that trailers are accepted.\<close>

definition hop_passes :: "string \<Rightarrow> string list \<Rightarrow> bool" where
  "hop_passes k vs \<longleftrightarrow> (case vs of [] \<Rightarrow> True | v # _ \<Rightarrow> v = [] \<or> k = ''Te'' \<and> v = ''trailers'')"

lemma values_drop_hop:
  "h_values (out_header (drop_hop s k')) k = (if k = k' \<and> \<not> hop_passes k (h_values (out_header s) k) then [] else h_values (out_header s) k)"
  by (auto simp: drop_hop_def Let_def hop_passes_def h_Get_def split: list.splits)

lemma values_drop_hops:
  "h_values (out_header (foldl drop_hop s ks)) k
    = (if k \<in> set ks \<and> \<not> hop_passes k (h_values (out_header s) k) then [] else h_values (out_header s) k)"
proof (induction ks arbitrary: s)
  case (Cons k' ks)
  have "hop_passes k []" by (simp add: hop_passes_def)
  with Cons.IH [of "drop_hop s k'"] values_drop_hop [of s k' k] show ?case by (auto split: if_splits)
qed simp

lemma values_drop_listed:
  "h_values (out_header (drop_listed s)) k
    = (if k \<in> canonical ` set (connection_names (out_header s)) then [] else h_values (out_header s) k)"
proof -
  have "h_values (out_header (foldl (\<lambda>s f. on_out (h_Del (canonical f)) (copied s)) s fs)) k
    = (if k \<in> canonical ` set fs then [] else h_values (out_header s) k)" for fs
    by (induction fs arbitrary: s) auto
  then show ?thesis by (simp add: drop_listed_def)
qed

definition own_headers :: "string list" where
  "own_headers = [''X-Wgo-Depth'', ''X-Request-Id'', ''Upgrade'', ''Connection'', ''X-Forwarded-For'', ''X-Forwarded-Proto'']"

lemma extra_kept:
  "k \<notin> canonical ` fst ` set extra \<Longrightarrow>
    h_values (out_header (foldl (\<lambda>s (h, v). on_out (h_Set (canonical h) v) s) s extra)) k = h_values (out_header s) k"
  by (induction extra arbitrary: s) auto

lemma director_values:
  "k \<noteq> ''User-Agent'' \<Longrightarrow> h_values (out_header (director_headers \<lparr>hs_req = h, hs_out = None\<rparr>)) k = h_values h k"
  by (simp add: director_headers_def out_header_def on_out_def)

lemma values_forwarded: "k \<noteq> ''X-Forwarded-For'' \<Longrightarrow> h_values (forwarded_for ip h) k = h_values h k"
  by (simp add: forwarded_for_def)

lemma director_connection:
  "connection_names (out_header (director_headers \<lparr>hs_req = h, hs_out = None\<rparr>)) = connection_names h"
  "upgradeType has_token (out_header (director_headers \<lparr>hs_req = h, hs_out = None\<rparr>)) = upgradeType has_token h"
  by (simp_all add: connection_names_def upgradeType_def h_Get_def director_values)

text \<open>C17: The headers of the client's connection. Take a hop-by-hop header, or one that the first \<open>Connection\<close> header of the request names, that neither the
  configuration nor the proxy itself sets (\<open>Connection\<close> and \<open>Upgrade\<close> are set for a switch of protocols). In the outgoing request it has no value, with one
  exception: a hop-by-hop header that is not named in \<open>Connection\<close>, and whose first value is empty, or is \<open>trailers\<close> for \<open>Te\<close>, goes to the target with
  all of its values.\<close>

theorem hop_headers_dropped:
  assumes "k \<in> set hopHeaders \<or> k \<in> canonical ` set (connection_names (pr_header r))" "k \<notin> canonical ` fst ` set extra"
    and "k \<notin> set own_headers \<or> k \<in> {''Connection'', ''Upgrade''} \<and> upgradeType has_token (pr_header r) = []"
  shows "h_values (out_header (outgoing has_token extra r)) k
    = (if k \<notin> canonical ` set (connection_names (pr_header r)) \<and> hop_passes k (h_values (pr_header r) k)
       then h_values (pr_header r) k else [])"
proof -
  let ?s0 = "director_headers \<lparr>hs_req = pr_header r, hs_out = None\<rparr>" and ?listed = "canonical ` set (connection_names (pr_header r))"
  define s1 where "s1 = foldl drop_hop (drop_listed ?s0) hopHeaders"
  define s2 where "s2 = foldl (\<lambda>s (h, v). on_out (h_Set (canonical h) v) s) s1 extra"
  have hop: "k \<in> set hopHeaders" "k \<noteq> ''User-Agent''" if "k \<notin> ?listed"
    using that assms(1) by (auto simp: hopHeaders_def)
  have "h_values (out_header s1) k = (if k \<notin> ?listed \<and> hop_passes k (h_values (pr_header r) k) then h_values (pr_header r) k else [])"
    using hop director_values [of k "pr_header r"]
    unfolding s1_def values_drop_hops values_drop_listed director_connection by (auto simp: hop_passes_def)
  then have v: "h_values (out_header s2) k
      = (if k \<notin> ?listed \<and> hop_passes k (h_values (pr_header r) k) then h_values (pr_header r) k else [])"
    unfolding s2_def extra_kept [OF assms(2)] .
  have x: "k \<noteq> ''X-Wgo-Depth''" "k \<noteq> ''X-Request-Id''" "k \<noteq> ''X-Forwarded-For''" "k \<noteq> ''X-Forwarded-Proto''"
    "upgradeType has_token (pr_header r) = [] \<or> k \<noteq> ''Connection'' \<and> k \<noteq> ''Upgrade''"
    using assms(3) by (auto simp: own_headers_def)
  have "h_values (out_header (outgoing has_token extra r)) k = h_values (out_header s2) k"
    unfolding outgoing_def Let_def director_connection(2) s1_def [symmetric] s2_def [symmetric]
    using x by (cases "upgradeType has_token (pr_header r) = []") (simp_all add: values_forwarded)
  then show ?thesis unfolding v .
qed

text \<open>A header with an empty first line passes, as do the names in a second \<open>Connection\<close> header.\<close>

lemma empty_first_line_passes:
  assumes "pr_header r ''Keep-Alive'' = Some [[], v]" "pr_header r ''Connection'' = None" "''Keep-Alive'' \<notin> canonical ` fst ` set extra"
    and no_upgrade: "upgradeType has_token (pr_header r) = []"
  shows "h_values (out_header (outgoing has_token extra r)) ''Keep-Alive'' = [[], v]"
proof -
  have "connection_names (pr_header r) = []" using assms(2) by (simp add: connection_names_def h_Get_def h_values_def)
  moreover have "h_values (pr_header r) ''Keep-Alive'' = [[], v]" using assms(1) by (simp add: h_values_def)
  moreover define s1 where "s1 = foldl drop_hop (drop_listed (director_headers \<lparr>hs_req = pr_header r, hs_out = None\<rparr>)) hopHeaders"
  ultimately have "h_values (out_header s1) ''Keep-Alive'' = [[], v]"
    using director_values [of "''Keep-Alive''" "pr_header r"]
    unfolding s1_def values_drop_hops values_drop_listed director_connection by (auto simp: hop_passes_def)
  note v = this extra_kept [OF assms(3), of s1]
  show ?thesis
    unfolding outgoing_def Let_def s1_def [symmetric] director_connection(2)
    using no_upgrade v by (simp add: values_forwarded)
qed

text \<open>The client's address is the last of those that are forwarded.\<close>

lemma forwarded_last: "\<exists>before. h_Get (forwarded_for ip h) ''X-Forwarded-For'' = before @ ip"
  by (auto simp: forwarded_for_def split: option.splits)

text \<open>Without a header of the connection the client's request gets the proxy's headers.\<close>

lemma request_changed:
  assumes "hs_out s = None"
  shows "hs_req (on_out (h_Set ''X-Forwarded-Proto'' v) s) ''X-Forwarded-Proto'' = Some [v]"
  using assms by (simp add: on_out_def h_Set_def)

lemma values_lost:
  assumes "k \<noteq> ''Set-Cookie''" "k \<noteq> ''Cache-Control''" "src k = Some [a, b]"
  shows "copyFastHeader dst src k = Some [b]"
  using assms by (simp add: copyFastHeader_def h_values_def)

section \<open>The cache\<close>


text \<open>The values of headers are put together without separators, so different requests have one key.\<close>

lemma cache_headers_collide:
  "cache_headers (h_Set ''A'' ''ab'' (h_Set ''B'' ''c'' Map.empty)) [''A'', ''B'']
    = cache_headers (h_Set ''A'' ''a'' (h_Set ''B'' ''bc'' Map.empty)) [''A'', ''B'']"
  by code_simp

section \<open>The body arrives\<close>

text \<open>A body that the target sends to its end, with no failing write, arrives whole: copying it through the writer that flushes
  after a latency reports its length, and what was flushed and what is held are the bytes in their order.\<close>

lemma body_arrives:
  assumes "rs = map (\<lambda>b. (b, None)) bs @ [(b, Some EOF)]"
  shows "\<exists>m'. copyBuffer latency_Write rs 0 m = Some ((length (concat bs @ b), None), m')
    \<and> ml_sent m' @ ml_held m' = ml_sent m @ ml_held m @ concat bs @ b"
proof -
  have step: "\<exists>m1. latency_Write m p = ((length p, None), m1) \<and> ml_sent m1 @ ml_held m1 = ml_sent m @ ml_held m @ p" for m p
    by (auto simp: latency_Write_def flushed_def Let_def)
  have "\<exists>m'. copyBuffer latency_Write (map (\<lambda>b. (b, None)) bs @ [(b, Some EOF)]) n m = Some ((n + length (concat bs @ b), None), m')
    \<and> ml_sent m' @ ml_held m' = ml_sent m @ ml_held m @ concat bs @ b" for n
  proof (induction bs arbitrary: n m)
    case Nil
    obtain m1 where "latency_Write m b = ((length b, None), m1)" "ml_sent m1 @ ml_held m1 = ml_sent m @ ml_held m @ b"
      using step by blast
    then show ?case by auto
  next
    case (Cons c bs)
    obtain m1 where w: "latency_Write m c = ((length c, None), m1)" "ml_sent m1 @ ml_held m1 = ml_sent m @ ml_held m @ c"
      using step by blast
    show ?case
    proof (cases "c = []")
      case True
      with Cons.IH [of n m] show ?thesis by simp
    next
      case False
      with w Cons.IH [of "n + length c" m1] show ?thesis by (auto simp: add.assoc)
    qed
  qed
  from this [of 0] show ?thesis using assms by simp
qed

lemma negative_latency_flushes: "ml_latency m < 0 \<Longrightarrow> ml_held (snd (latency_Write m p)) = []"
  by (simp add: latency_Write_def flushed_def Let_def)

text \<open>What is held waits for a timer.\<close>

definition latency_ok :: "maxLatencyWriter \<Rightarrow> bool" where
  "latency_ok m \<longleftrightarrow> (ml_held m \<noteq> [] \<longrightarrow> ml_pending m) \<and> (ml_pending m \<longrightarrow> ml_timer m)"

lemma latency_invariant:
  "latency_ok m \<Longrightarrow> latency_ok (snd (latency_Write m p))"
  "latency_ok m \<Longrightarrow> latency_ok (delayedFlush m)"
  by (auto simp: latency_ok_def latency_Write_def delayedFlush_def flushed_def Let_def)

text \<open>At the end of the response the timer is stopped: what the writer held is not flushed by it any more.\<close>

lemma stopped_without_flush: "ml_held (latency_stop m) = ml_held m \<and> \<not> ml_timer (latency_stop m)"
  by (simp add: latency_stop_def)

section \<open>Requests of fasthttp and switches of protocols\<close>

text \<open>Reading with a buffer that is not empty gives the whole body, piece by piece.\<close>

fun read_pieces :: "nat \<Rightarrow> nat \<Rightarrow> string \<Rightarrow> string" where
  "read_pieces 0 n b = []"
| "read_pieces (Suc fuel) n b = (case body_Read n b of ((p, True), b') \<Rightarrow> p | ((p, False), b') \<Rightarrow> p @ read_pieces fuel n b')"

lemma body_read_whole: "0 < n \<Longrightarrow> length b < fuel \<Longrightarrow> read_pieces fuel n b = b"
proof (induction fuel arbitrary: b)
  case (Suc fuel)
  show ?case
  proof (cases "b = []")
    case False
    then have "length (drop n b) < fuel" using Suc.prems by (cases b) auto
    with False Suc.IH [of "drop n b"] Suc.prems(1) show ?thesis by (simp add: body_Read_def)
  qed (simp add: body_Read_def)
qed simp

text \<open>Of a header that the client sends twice, the target gets the last value only.\<close>

lemma repeated_header_lost:
  assumes "list_all token_char k" "k \<noteq> ''Transfer-Encoding''"
  shows "fast_header [(k, v), (k, w)] (canonical k) = Some [w]"
  using assms by (simp add: fast_header_def h_Set_def)

lemma upgrade_agrees:
  "handleUpgradeResponse has_token io rw req res = Inr h \<Longrightarrow> upgradeType has_token req = upgradeType has_token res"
  by (auto simp: handleUpgradeResponse_def Let_def split: if_splits)

section \<open>Examples\<close>

definition sample_request :: proxy_request where
  "sample_request = \<lparr>pr_method = ''GET'', pr_host = ''a.example'', pr_url = \<lparr>u_scheme = ''http'', u_host = [], u_path = ''/users/7'', u_query = []\<rparr>,
     pr_header = [''Connection'' \<mapsto> [''keep-alive, X-Secret''], ''Keep-Alive'' \<mapsto> [''300''], ''X-Secret'' \<mapsto> [''s'']],
     pr_scheme = ''https'', pr_clientIP = ''10.0.0.7'', pr_requestID = [], pr_depth = 1, pr_engine = ''standard'', pr_encoding = [],
     pr_mode = ''http'', pr_query = \<lambda>_. []\<rparr>"

lemma sample_outgoing:
  "map (\<lambda>k. out_header (outgoing (\<lambda>vs t. t \<in> set vs) [] sample_request) k)
     [''Connection'', ''Keep-Alive'', ''X-Secret'', ''X-Forwarded-For'', ''X-Forwarded-Proto'']
   = [None, None, None, Some [''10.0.0.7''], Some [''https'']]"
  by code_simp

theorem hop_headers_dropped_witness:
  "h_values (out_header (outgoing (\<lambda>vs t. t \<in> set vs) [] sample_request)) ''X-Secret'' = []"
proof -
  have c: "''X-Secret'' \<in> canonical ` set (connection_names (pr_header sample_request))" by code_simp
  have o: "''X-Secret'' \<notin> set own_headers" by (simp add: own_headers_def)
  show ?thesis using hop_headers_dropped [of "''X-Secret''" sample_request "[]" "\<lambda>vs t. t \<in> set vs"] c o by simp
qed





lemma body_arrives_witness:
  "\<exists>m'. copyBuffer latency_Write [(''ab'', None), (''c'', Some EOF)] 0 \<lparr>ml_latency = 5, ml_timer = False, ml_pending = False, ml_held = [], ml_sent = []\<rparr>
      = Some ((length (concat [''ab''] @ ''c''), None), m')
    \<and> ml_sent m' @ ml_held m' = [] @ [] @ concat [''ab''] @ ''c''"
  using body_arrives [of "[(''ab'', None), (''c'', Some EOF)]" "[''ab'']" "''c''"
      "\<lparr>ml_latency = 5, ml_timer = False, ml_pending = False, ml_held = [], ml_sent = []\<rparr>"] by simp

end
