(* ===== verification/RestSession.thy ===== *)
theory RestSession
  imports StoreLock
begin

text \<open>
  Sessions of the REST layer (\<open>rest/session.go\<close>), the clients of inner services (\<open>rest/client.go\<close>) and the look-up of their
  addresses (\<open>rest/config.go\<close>).

  The value of a session is a text. The store is the one of \<open>StoreLock\<close>, over nodes that are a parameter, or absent: keys expire there, a \<open>Put\<close> that
  fails is tried again and then dropped, and a deletion runs later, as a goroutine of its own. An inner service is a function from a path to
  an error of the transport or to the code and the body of its answer.
\<close>

section \<open>Inner services\<close>

definition GetService :: "(string \<Rightarrow> string) \<Rightarrow> (string \<times> string) list \<Rightarrow> string \<Rightarrow> string" where
  "GetService getenv services key =
     (let esa = getenv (''services.'' @ key)
      in if esa \<noteq> [] then esa
         else if key \<noteq> [] then (case map_of services key of Some addr \<Rightarrow> addr | None \<Rightarrow> [])
         else [])"

definition is_address :: "string \<Rightarrow> bool" where
  "is_address service \<longleftrightarrow> 5 < length service \<and> to_lower (take 4 service) = ''http''"

definition NewClient :: "(string \<Rightarrow> string) \<Rightarrow> (string \<times> string) list \<Rightarrow> string \<Rightarrow> string" where
  "NewClient getenv services service = (if is_address service then service else GetService getenv services service)"

text \<open>The base address of a client, or the error for an unknown service.\<close>

definition NewInnerClient :: "(string \<Rightarrow> string) \<Rightarrow> (string \<times> string) list \<Rightarrow> string \<Rightarrow> string + string" where
  "NewInnerClient getenv services service =
     (if is_address service then Inr (NewClient getenv services service)
      else (let baseUrl = GetService getenv services service
            in if baseUrl \<noteq> [] then Inr (NewClient getenv services baseUrl) else Inl (''Unknown service: '' @ service)))"

text \<open>\<open>Parse\<close>: the code and the message of an answer; \<open>json\<close> gives the fields \<open>code\<close> and \<open>message\<close> of a body, if it is JSON.\<close>

definition Parse_response :: "(string \<Rightarrow> (int \<times> string) option) \<Rightarrow> int \<Rightarrow> string \<Rightarrow> string \<Rightarrow> int \<times> string" where
  "Parse_response json rc status body =
     (let message = (if rc \<ge> 400 then status else [])
      in if body = [] then (0, message)
         else case json body of
           None \<Rightarrow> if rc \<ge> 400 then (rc, body) else (0, message)
         | Some (code, msg) \<Rightarrow> if code > 0 then (code, msg) else (0, message))"

text \<open>A client with the request that it prepares. \<open>transport\<close> stands for the HTTP client: it gets the call, the address and
  the request, and gives an error or the status, its text and the body.\<close>

record inner_client =
  ic_base :: string
  ic_path :: string
  ic_app :: string
  ic_header :: "(string \<times> string) list"
  ic_body :: "string option"
  ic_form :: "(string \<times> string) list"
  ic_params :: "(string \<times> string) list"

definition renewed_call :: "inner_client \<Rightarrow> inner_client" where
  "renewed_call c = c\<lparr>ic_header := [], ic_body := None, ic_form := [], ic_params := []\<rparr>"

definition client_at :: "string \<Rightarrow> string \<Rightarrow> inner_client" where
  "client_at base app = \<lparr>ic_base = base, ic_path = [], ic_app = app, ic_header = [], ic_body = None, ic_form = [], ic_params = []\<rparr>"

definition SetJson :: "string \<Rightarrow> inner_client \<Rightarrow> inner_client" where
  "SetJson jb c = c\<lparr>ic_body := Some jb\<rparr>"

definition SetForm :: "(string \<times> string) list \<Rightarrow> inner_client \<Rightarrow> inner_client" where
  "SetForm fd c = c\<lparr>ic_form := ic_form c @ fd\<rparr>"

definition SetParams :: "(string \<times> string) list \<Rightarrow> inner_client \<Rightarrow> inner_client" where
  "SetParams fd c = c\<lparr>ic_params := ic_params c @ fd\<rparr>"

type_synonym transport = "string \<Rightarrow> string \<Rightarrow> inner_client \<Rightarrow> string + int \<times> string \<times> string"

definition call_name :: "string \<Rightarrow> string" where
  "call_name cat = (if to_upper cat \<in> {''GET'', ''PATCH'', ''HEAD'', ''PUT'', ''OPTIONS''} then to_upper cat else ''POST'')"

text \<open>The answer with its code and message, or the error of the transport, after which the request is not renewed.\<close>

definition sendAndRecv ::
  "transport \<Rightarrow> (string \<Rightarrow> (int \<times> string) option) \<Rightarrow> string \<Rightarrow> string option \<Rightarrow> inner_client \<Rightarrow> (string + (int \<times> string) \<times> string) \<times> inner_client" where
  "sendAndRecv transport json cat path c =
     (let c1 = (if ic_app c \<noteq> [] then c\<lparr>ic_header := (''X-Wgo-Appid'', ic_app c) # filter (\<lambda>h. fst h \<noteq> ''X-Wgo-Appid'') (ic_header c)\<rparr> else c);
          c2 = (case path of Some p \<Rightarrow> c1\<lparr>ic_path := p\<rparr> | None \<Rightarrow> c1)
      in case transport (call_name cat) (ic_base c2 @ ic_path c2) c2 of
           Inl e \<Rightarrow> (Inl e, c2)
         | Inr (rc, status, body) \<Rightarrow> (Inr (Parse_response json rc status body, body), renewed_call c2))"

datatype query_error = UnknownService string | TransportError string | ServerError int string

definition RESTQuery ::
  "(string \<Rightarrow> string) \<Rightarrow> (string \<times> string) list \<Rightarrow> transport \<Rightarrow> (string \<Rightarrow> (int \<times> string) option) \<Rightarrow> string \<Rightarrow> string \<Rightarrow> string \<Rightarrow> string option
    \<Rightarrow> query_error + string" where
  "RESTQuery getenv services transport json service path verb obj =
     (case NewInnerClient getenv services service of
        Inl e \<Rightarrow> Inl (UnknownService e)
      | Inr base \<Rightarrow>
          (let c = client_at base ''gxfstpp'';
               c1 = (case obj of Some jb \<Rightarrow> SetJson jb c | None \<Rightarrow> c);
               v = to_upper (if verb = [] then ''GET'' else verb);
               call = (if v = ''GET'' \<or> v = ''PATCH'' then v else ''POST'')
           in case fst (sendAndRecv transport json call (Some path) c1) of
                Inl e \<Rightarrow> Inl (TransportError e)
              | Inr ((code, msg), body) \<Rightarrow> if code \<noteq> 0 then Inl (ServerError code msg) else Inr body))"

section \<open>Configuration\<close>

record SessionConfig =
  ss_prefix :: string
  ss_key :: string
  ss_life :: int
  ss_path :: string
  ss_domain :: string
  ss_domains :: "string list"
  ss_security :: bool
  ss_httponly :: bool

text \<open>\<open>strings.Split(",", sds)\<close> splits a comma at the domains.\<close>

definition split_comma_at :: "string \<Rightarrow> string list" where
  "split_comma_at sds = (if sds = '','' then [[], []] else ['',''])"

definition Auth_config :: "(string \<Rightarrow> string) \<Rightarrow> SessionConfig \<Rightarrow> SessionConfig" where
  "Auth_config getenv cfg =
     (let c1 = (if ss_prefix cfg = [] then cfg\<lparr>ss_prefix := ''auth''\<rparr> else cfg);
          sk = getenv ''session.key'';
          c2 = (if sk \<noteq> [] then c1\<lparr>ss_key := sk\<rparr> else if ss_key c1 = [] then c1\<lparr>ss_key := ''asgard''\<rparr> else c1);
          c3 = (if ss_life c2 = 0 then c2\<lparr>ss_life := 1800\<rparr> else c2);
          c4 = (if ss_path c3 = [] then c3\<lparr>ss_path := ''/''\<rparr> else c3);
          sd = getenv ''session.domain'';
          c5 = (if sd \<noteq> [] then c4\<lparr>ss_domain := sd, ss_domains := [sd]\<rparr>
                else if ss_domain c4 = [] then c4\<lparr>ss_domain := ''.gladsheim.cn''\<rparr> else c4);
          sds = getenv ''session.domains''
      in if sds \<noteq> [] then c5\<lparr>ss_domains := split_comma_at sds\<rparr>
         else if ss_domains c5 = [] then c5\<lparr>ss_domains := [''.adchina.io'']\<rparr> else c5)"

fun checkDomain :: "string \<Rightarrow> string list \<Rightarrow> string \<Rightarrow> string" where
  "checkDomain host [] def = def"
| "checkDomain host (d # ds) def = (if contains_sub host d then d else checkDomain host ds def)"

section \<open>Sessions\<close>

record cookie =
  ck_name :: string
  ck_value :: string
  ck_domain :: string
  ck_expires :: "int option"

record 'n session_world =
  sw_env :: "store_answer option"
  sw_store :: "'n Storage option"
  sw_set :: "cookie list"

definition cacheKey :: "SessionConfig \<Rightarrow> string \<Rightarrow> string" where
  "cacheKey cfg key = ss_prefix cfg @ '':'' @ key"

text \<open>\<open>time.Duration(n) * time.Second\<close>, with 64 bits.\<close>

definition seconds_long :: "int \<Rightarrow> int" where
  "seconds_long n = sint (word_of_int (n * 1000000000) :: 64 word)"

definition RedisGet :: "'n StoreNode \<Rightarrow> (real \<Rightarrow> real) \<Rightarrow> string \<Rightarrow> 'n session_world \<Rightarrow> ('n session_world \<times> store_answer) outcome" where
  "RedisGet N rnd key w =
     (case sw_store w of
        None \<Rightarrow> Ret (w, RNull)
      | Some s \<Rightarrow> bind_outcome (Storage_Get N rnd key s) (\<lambda>(s1, v). Ret (w\<lparr>sw_store := Some s1\<rparr>, v)))"

text \<open>The callers of \<open>RedisSet\<close> and \<open>RedisDel\<close> drop their results.\<close>

definition RedisSet :: "'n StoreNode \<Rightarrow> (real \<Rightarrow> real) \<Rightarrow> string \<Rightarrow> string \<Rightarrow> int \<Rightarrow> 'n session_world \<Rightarrow> ('n session_world \<times> string option) outcome" where
  "RedisSet N rnd key v expireSeconds w =
     (case sw_store w of
        None \<Rightarrow> Ret (w, Some ''not found storage'')
      | Some s \<Rightarrow> bind_outcome (Storage_Put N rnd key v (seconds_long expireSeconds) False s) (\<lambda>(s1, err). Ret (w\<lparr>sw_store := Some s1\<rparr>, err)))"

definition RedisDel :: "(real \<Rightarrow> real) \<Rightarrow> string \<Rightarrow> 'n session_world \<Rightarrow> ('n session_world \<times> bool) outcome" where
  "RedisDel rnd key w =
     (case sw_store w of
        None \<Rightarrow> Ret (w, False)
      | Some s \<Rightarrow> bind_outcome (Storage_Delete rnd key s) (\<lambda>(s1, err). Ret (w\<lparr>sw_store := Some s1\<rparr>, True)))"

text \<open>The key comes from the cookie, or from the argument when there is no cookie. The value, nil for \<open>RNull\<close>, is looked for in the request, in the store and at
  the service \<open>ac\<close>; when the service cannot be reached, the code reads the status of a nil answer.\<close>

type_synonym service = "string \<Rightarrow> string + int \<times> string"

definition Session ::
  "'n StoreNode \<Rightarrow> (real \<Rightarrow> real) \<Rightarrow> SessionConfig \<Rightarrow> service option \<Rightarrow> (string \<Rightarrow> string option) \<Rightarrow> string \<Rightarrow> 'n session_world
    \<Rightarrow> ((string \<times> store_answer) \<times> 'n session_world) outcome" where
  "Session N rnd cfg ac cookies arg w =
     (let key = (case cookies (ss_key cfg) of Some v \<Rightarrow> v | None \<Rightarrow> arg)
      in if cookies (ss_key cfg) = None \<and> arg = [] then Ret (([], RNull), w)
         else case sw_env w of
           Some v \<Rightarrow> Ret ((key, v), w)
         | None \<Rightarrow>
             bind_outcome (RedisGet N rnd (cacheKey cfg key) w) (\<lambda>(w1, v).
               if v \<noteq> RNull then Ret ((key, v), w1\<lparr>sw_env := Some v\<rparr>)
               else case ac of
                 None \<Rightarrow> Ret ((key, RNull), w1)
               | Some client \<Rightarrow>
                   (case client (''/auth/'' @ key) of
                      Inl e \<Rightarrow> Panic NilDereference
                    | Inr (code, body) \<Rightarrow>
                        if code = 0 \<and> body \<noteq> []
                        then bind_outcome (RedisSet N rnd (cacheKey cfg key) body 86400 w1) (\<lambda>(w2, e). Ret ((key, RBulk body), w2))
                        else Ret ((key, RNull), w1))))"

definition SetSession :: "'n StoreNode \<Rightarrow> (real \<Rightarrow> real) \<Rightarrow> SessionConfig \<Rightarrow> string \<Rightarrow> int \<Rightarrow> string \<Rightarrow> string \<Rightarrow> bool \<Rightarrow> 'n session_world
    \<Rightarrow> 'n session_world outcome" where
  "SetSession N rnd cfg host now key v remember w =
     (let domain = checkDomain host (ss_domains cfg) (ss_domain cfg)
      in if domain = [] then Ret w
         else bind_outcome (RedisSet N rnd (cacheKey cfg key) v (ss_life cfg) w) (\<lambda>(w1, e).
           Ret (w1\<lparr>sw_set := sw_set w1 @
             [\<lparr>ck_name = ss_key cfg, ck_value = key, ck_domain = domain,
               ck_expires = (if remember then Some (now + ss_life cfg) else None)\<rparr>]\<rparr>)))"

definition DelSession :: "(real \<Rightarrow> real) \<Rightarrow> SessionConfig \<Rightarrow> (string \<Rightarrow> string option) \<Rightarrow> int \<Rightarrow> string \<Rightarrow> 'n session_world
    \<Rightarrow> (string \<times> 'n session_world) outcome" where
  "DelSession rnd cfg cookies now arg w =
     (let key = (case cookies (ss_key cfg) of Some v \<Rightarrow> v | None \<Rightarrow> arg)
      in if cookies (ss_key cfg) = None \<and> arg = [] then Ret ([], w)
         else bind_outcome (RedisDel rnd (cacheKey cfg key) w) (\<lambda>(w1, ok).
           Ret (key, w1\<lparr>sw_set := sw_set w1 @
             [\<lparr>ck_name = ss_key cfg, ck_value = [], ck_domain = ss_domain cfg, ck_expires = Some (now + ss_life cfg)\<rparr>]\<rparr>)))"

text \<open>The middleware authorizes a request with a key and a value, and goes on in any case.\<close>

definition Auth :: "'n StoreNode \<Rightarrow> (real \<Rightarrow> real) \<Rightarrow> SessionConfig \<Rightarrow> service option \<Rightarrow> (string \<Rightarrow> string option) \<Rightarrow> 'n session_world
    \<Rightarrow> (bool \<times> 'n session_world) outcome" where
  "Auth N rnd cfg ac cookies w =
     bind_outcome (Session N rnd cfg ac cookies [] w) (\<lambda>((k, v), w'). Ret (k \<noteq> [] \<and> v \<noteq> RNull, w'))"

text \<open>A goroutine of a deletion runs.\<close>

definition background :: "'n StoreNode \<Rightarrow> nat \<times> string \<Rightarrow> 'n session_world \<Rightarrow> 'n session_world outcome" where
  "background N d w =
     (case sw_store w of
        None \<Rightarrow> Ret w
      | Some s \<Rightarrow> bind_outcome (run_delete N d s) (\<lambda>s1. Ret (w\<lparr>sw_store := Some s1\<rparr>)))"

section \<open>What sessions promise\<close>

text \<open>The documented behaviour of a node: it has entries that end at a second of its clock; reading changes nothing; a \<open>Put\<close> or a deletion that is accepted is carried
  out, one that fails may be; and time passes.\<close>

definition timed_node :: "'n StoreNode \<Rightarrow> ('n \<Rightarrow> int) \<Rightarrow> ('n \<Rightarrow> string \<Rightarrow> (string \<times> int) option) \<Rightarrow> (int \<Rightarrow> 'n \<Rightarrow> 'n) \<Rightarrow> bool" where
  "timed_node N clock entry wait \<longleftrightarrow> (\<forall>n k v t d.
     snd (n_Get N k n) = (case entry n k of Some (x, e) \<Rightarrow> if clock n < e then RBulk x else RNull | None \<Rightarrow> RNull)
   \<and> entry (fst (n_Get N k n)) = entry n \<and> clock (fst (n_Get N k n)) = clock n
   \<and> (case n_Put N k v t False n of (n1, err) \<Rightarrow> clock n1 = clock n
        \<and> (entry n1 = (entry n)(k \<mapsto> (v, clock n + whole_secs t)) \<or> err \<noteq> None \<and> entry n1 = entry n))
   \<and> (case n_Delete N k n of (n1, err) \<Rightarrow> clock n1 = clock n \<and> (entry n1 = (entry n)(k := None) \<or> err \<noteq> None \<and> entry n1 = entry n))
   \<and> entry (wait d n) = entry n \<and> clock (wait d n) = clock n + d)"

text \<open>One of \<open>k\<close> tries to put a value is accepted.\<close>

fun accepts :: "'n StoreNode \<Rightarrow> nat \<Rightarrow> string \<Rightarrow> string \<Rightarrow> int \<Rightarrow> 'n \<Rightarrow> bool" where
  "accepts N 0 key v t n = False"
| "accepts N (Suc k) key v t n = (case n_Put N key v t False n of (n1, err) \<Rightarrow> err = None \<or> accepts N k key v t n1)"

lemma put_tries_accepts:
  assumes "timed_node N clock entry wait" "i < length (st_nodes s)" "accepts N k key v t (st_nodes s ! i)"
  shows "\<exists>n. put_tries N k i key v t False s = Ret (s\<lparr>st_nodes := (st_nodes s)[i := n]\<rparr>)
    \<and> entry n = (entry (st_nodes s ! i))(key \<mapsto> (v, clock (st_nodes s ! i) + whole_secs t)) \<and> clock n = clock (st_nodes s ! i)"
  using assms(2,3)
proof (induction k arbitrary: s)
  case (Suc k)
  let ?n = "st_nodes s ! i"
  obtain n1 err where p: "n_Put N key v t False ?n = (n1, err)" by fastforce
  have l: "clock n1 = clock ?n"
    "entry n1 = (entry ?n)(key \<mapsto> (v, clock ?n + whole_secs t)) \<or> err \<noteq> None \<and> entry n1 = entry ?n"
    using assms(1) [unfolded timed_node_def, rule_format, of key ?n v t 0] p by auto
  have o: "on_node i (n_Put N key v t False) s = Ret (s\<lparr>st_nodes := (st_nodes s)[i := n1]\<rparr>, err)"
    using Suc.prems(1) p by (simp add: on_node_def)
  show ?case
  proof (cases err)
    case None
    with o l show ?thesis by auto
  next
    case (Some e)
    let ?s = "s\<lparr>st_nodes := (st_nodes s)[i := n1]\<rparr>"
    have s: "i < length (st_nodes ?s)" "st_nodes ?s ! i = n1" "accepts N k key v t n1"
      using Suc.prems p Some by simp_all
    obtain n where "put_tries N k i key v t False ?s = Ret (?s\<lparr>st_nodes := (st_nodes ?s)[i := n]\<rparr>)"
      "entry n = (entry n1)(key \<mapsto> (v, clock n1 + whole_secs t))" "clock n = clock n1"
      using Suc.IH [of ?s, unfolded s(2), OF s(1,3)] by blast
    with o Some l show ?thesis by (intro exI [of _ n]) auto
  qed
qed simp

text \<open>The entry of a key in the store, at its node, and the time that passes for all nodes and for the next request.\<close>

definition later :: "(int \<Rightarrow> 'n \<Rightarrow> 'n) \<Rightarrow> int \<Rightarrow> 'n session_world \<Rightarrow> 'n session_world" where
  "later wait d w = w\<lparr>sw_env := None, sw_store := map_option (\<lambda>s. s\<lparr>st_nodes := map (wait d) (st_nodes s)\<rparr>) (sw_store w)\<rparr>"

definition stored_at :: "('n \<Rightarrow> int) \<Rightarrow> ('n \<Rightarrow> string \<Rightarrow> (string \<times> int) option) \<Rightarrow> (real \<Rightarrow> real) \<Rightarrow> string \<Rightarrow> (string \<times> int) option
    \<Rightarrow> 'n session_world \<Rightarrow> bool" where
  "stored_at clock entry rnd ck x w \<longleftrightarrow> (\<exists>s i. sw_store w = Some s \<and> Hash rnd (length (st_nodes s)) ck = Ret i \<and> i < length (st_nodes s)
     \<and> map_option (\<lambda>(v, e). (v, e - clock (st_nodes s ! i))) (entry (st_nodes s ! i) ck) = x)"

definition authorized :: "'n StoreNode \<Rightarrow> (real \<Rightarrow> real) \<Rightarrow> SessionConfig \<Rightarrow> service option \<Rightarrow> (string \<Rightarrow> string option) \<Rightarrow> 'n session_world
    \<Rightarrow> bool outcome" where
  "authorized N rnd cfg ac cookies w = bind_outcome (Auth N rnd cfg ac cookies w) (\<lambda>(a, w'). Ret a)"

definition by_service :: "service option \<Rightarrow> string \<Rightarrow> bool outcome" where
  "by_service ac key =
     (case ac of
        None \<Rightarrow> Ret False
      | Some client \<Rightarrow>
          (case client (''/auth/'' @ key) of Inl e \<Rightarrow> Panic NilDereference | Inr (code, body) \<Rightarrow> Ret (code = 0 \<and> body \<noteq> [])))"

lemma later_stored:
  assumes "timed_node N clock entry wait" "stored_at clock entry rnd ck x w"
  shows "stored_at clock entry rnd ck (map_option (\<lambda>(v, e). (v, e - d)) x) (later wait d w)"
proof -
  have "entry (wait d n) = entry n \<and> clock (wait d n) = clock n + d" for n
    using assms(1) [unfolded timed_node_def, rule_format, of _ n _ 0 d] by simp
  with assms(2) show ?thesis
    by (auto simp: stored_at_def later_def option.map_comp comp_def split_def intro!: option.map_cong)
qed

lemma RedisSet_Ret:
  assumes "ieee rnd" "sw_store w = Some s" "st_nodes s \<noteq> []" "ck \<noteq> []"
  shows "\<exists>w1 e. RedisSet N rnd ck v secs w = Ret (w1, e)"
proof -
  obtain i where i: "i < length (st_nodes s)" "Hash rnd (length (st_nodes s)) ck = Ret i"
    using Hash_bound [OF assms(1) _ assms(4)] assms(3) by auto
  obtain s' where "put_tries N 5 i ck v (seconds_long secs) False s = Ret s'" using put_tries_Ret [OF i(1)] by blast
  with i assms(2) show ?thesis by (simp add: RedisSet_def Storage_Put_def)
qed

text \<open>A request with the cookie is authorized by a live entry, and otherwise by the service.\<close>

lemma authorized_stored:
  assumes "timed_node N clock entry wait" "ieee rnd" "cookies (ss_key cfg) = Some key" "key \<noteq> []" "sw_env w = None"
    and "stored_at clock entry rnd (cacheKey cfg key) x w"
  shows "authorized N rnd cfg ac cookies w = (case x of Some (v, e) \<Rightarrow> if 0 < e then Ret True else by_service ac key | None \<Rightarrow> by_service ac key)"
proof -
  let ?ck = "cacheKey cfg key"
  have ck: "?ck \<noteq> []" by (simp add: cacheKey_def)
  obtain s i where s: "sw_store w = Some s" "Hash rnd (length (st_nodes s)) ?ck = Ret i" "i < length (st_nodes s)"
    "x = map_option (\<lambda>(v, e). (v, e - clock (st_nodes s ! i))) (entry (st_nodes s ! i) ?ck)"
    using assms(6) by (auto simp: stored_at_def)
  let ?n = "st_nodes s ! i"
  obtain n1 a where g: "n_Get N ?ck ?n = (n1, a)" by fastforce
  have a: "a = (case entry ?n ?ck of Some (x, e) \<Rightarrow> if clock ?n < e then RBulk x else RNull | None \<Rightarrow> RNull)"
    using assms(1) [unfolded timed_node_def, rule_format, of ?ck ?n _ 0 0] g by simp
  let ?w = "w\<lparr>sw_store := Some (s\<lparr>st_nodes := (st_nodes s)[i := n1]\<rparr>)\<rparr>"
  have r: "RedisGet N rnd ?ck w = Ret (?w, a)"
    using s(1-3) g ck by (simp add: RedisGet_def Storage_Get_def on_node_def)
  have ne: "st_nodes s \<noteq> []" using s(3) by auto
  have "\<exists>p. RedisSet N rnd ?ck body 86400 ?w = Ret p" for body
    using RedisSet_Ret [OF assms(2), of ?w "s\<lparr>st_nodes := (st_nodes s)[i := n1]\<rparr>" ?ck N body 86400] s(3) ck ne by auto
  then obtain f where f: "RedisSet N rnd ?ck body 86400 ?w = Ret (f body)" for body by metis
  have "authorized N rnd cfg ac cookies w = (if a \<noteq> RNull then Ret True else by_service ac key)"
    using assms(3-5) r f
    by (auto simp: authorized_def Auth_def Session_def by_service_def Let_def split_beta split: option.split sum.split)
  then show ?thesis using a s(4) by (auto split: option.split)
qed

lemma SetSession_stored:
  assumes "timed_node N clock entry wait" "ieee rnd" "sw_store w = Some s" "st_nodes s \<noteq> []"
    and "checkDomain host (ss_domains cfg) (ss_domain cfg) \<noteq> []"
    and "\<forall>n \<in> set (st_nodes s). accepts N 5 (cacheKey cfg key) v (seconds_long (ss_life cfg)) n"
  shows "\<exists>w1. SetSession N rnd cfg host t key v remember w = Ret w1
    \<and> stored_at clock entry rnd (cacheKey cfg key) (Some (v, whole_secs (seconds_long (ss_life cfg)))) w1
    \<and> map ck_value (filter (\<lambda>c. ck_name c = ss_key cfg) (sw_set w1))
        = map ck_value (filter (\<lambda>c. ck_name c = ss_key cfg) (sw_set w)) @ [key]"
proof -
  let ?ck = "cacheKey cfg key" and ?t = "seconds_long (ss_life cfg)"
  have ck: "?ck \<noteq> []" by (simp add: cacheKey_def)
  obtain i where i: "i < length (st_nodes s)" "Hash rnd (length (st_nodes s)) ?ck = Ret i"
    using Hash_bound [OF assms(2) _ ck] assms(4) by auto
  have "accepts N 5 ?ck v ?t (st_nodes s ! i)" using assms(6) i(1) by simp
  from put_tries_accepts [OF assms(1) i(1) this] obtain n where
    "put_tries N 5 i ?ck v ?t False s = Ret (s\<lparr>st_nodes := (st_nodes s)[i := n]\<rparr>)"
    "entry n ?ck = Some (v, clock n + whole_secs ?t)" by auto
  with i assms(3,5) show ?thesis
    by (simp add: SetSession_def RedisSet_def Storage_Put_def stored_at_def Let_def)
qed

lemma seconds_exact: "0 \<le> n \<Longrightarrow> n \<le> 9223372036 \<Longrightarrow> whole_secs (seconds_long n) = n"
proof -
  assume n: "0 \<le> n" "n \<le> 9223372036"
  then have "sint (word_of_int (n * 1000000000) :: 64 word) = n * 1000000000"
    unfolding sint_sbintrunc' by (simp add: signed_take_bit_int_eq_self)
  with n show ?thesis by (simp add: seconds_long_def whole_secs_def)
qed

lemma session_value:
  assumes "timed_node N clock entry wait" "cookies (ss_key cfg) = Some key" "sw_env w = None"
    and "stored_at clock entry rnd (cacheKey cfg key) (Some (v, e)) w" "0 < e"
  shows "\<exists>w'. Session N rnd cfg ac cookies [] w = Ret ((key, RBulk v), w')"
proof -
  let ?ck = "cacheKey cfg key"
  obtain s i c where s: "sw_store w = Some s" "Hash rnd (length (st_nodes s)) ?ck = Ret i" "i < length (st_nodes s)"
    "entry (st_nodes s ! i) ?ck = Some (v, c)" "clock (st_nodes s ! i) < c"
    using assms(4,5) by (auto simp: stored_at_def)
  let ?n = "st_nodes s ! i"
  obtain n1 a where g: "n_Get N ?ck ?n = (n1, a)" by fastforce
  have "a = RBulk v"
    using assms(1) [unfolded timed_node_def, rule_format, of ?ck ?n _ 0 0] g s(4,5) by simp
  then have "RedisGet N rnd ?ck w = Ret (w\<lparr>sw_store := Some (s\<lparr>st_nodes := (st_nodes s)[i := n1]\<rparr>)\<rparr>, RBulk v)"
    using s(1-3) g by (simp add: RedisGet_def Storage_Get_def on_node_def cacheKey_def)
  with assms(2,3) show ?thesis by (simp add: Session_def)
qed

lemma DelSession_stored:
  assumes "cookies (ss_key cfg) = Some key" "stored_at clock entry rnd (cacheKey cfg key) x w"
  shows "\<exists>i w1 s1. DelSession rnd cfg cookies t [] w = Ret (key, w1) \<and> stored_at clock entry rnd (cacheKey cfg key) x w1
    \<and> sw_store w1 = Some s1 \<and> Hash rnd (length (st_nodes s1)) (cacheKey cfg key) = Ret i \<and> (i, cacheKey cfg key) \<in> set (st_deletes s1)"
  using assms by (auto simp: stored_at_def DelSession_def RedisDel_def Storage_Delete_def Let_def)

lemma background_deletes:
  assumes "timed_node N clock entry wait" "stored_at clock entry rnd ck x w" "snd (n_Delete N ck n) = None" "\<forall>n. snd (n_Delete N ck n) = None"
    and "sw_store w = Some s" "Hash rnd (length (st_nodes s)) ck = Ret i"
  shows "\<exists>w1. background N (i, ck) w = Ret w1 \<and> stored_at clock entry rnd ck None w1"
proof -
  have i: "i < length (st_nodes s)" using assms(2,5,6) by (auto simp: stored_at_def)
  let ?n = "st_nodes s ! i"
  obtain n1 where d: "n_Delete N ck ?n = (n1, None)" using assms(4) by (metis prod.collapse)
  have "entry n1 ck = None" using assms(1) [unfolded timed_node_def, rule_format, of ck ?n _ 0 0] d by auto
  with i d assms(5,6) show ?thesis by (simp add: background_def run_delete_def on_node_def stored_at_def)
qed

text \<open>The client that keeps the cookies of an answer: the last one of a name.\<close>

definition sent_cookie :: "'n session_world \<Rightarrow> string \<Rightarrow> string option" where
  "sent_cookie w name = map_option ck_value (find (\<lambda>c. ck_name c = name) (rev (sw_set w)))"

lemma find_rev: "find P (rev xs) = (if filter P xs = [] then None else Some (last (filter P xs)))"
  by (induction xs rule: rev_induct) auto

text \<open>C19: The life of a session. Let the nodes of the store behave as documented, one of the five tries to store the session be accepted, deletions not fail, the
  life be positive and not overflow, and the host have a domain. \<open>SetSession\<close> sends the cookie. A later request with it is authorized and finds the value in the store as long as the life is
  not over, without asking the service; when it is over, the service decides. \<open>DelSession\<close> does not end the session: a request that comes before the goroutine of the
  deletion has run is authorized as before, within the life. Once it has run, a request with this cookie (which the browser keeps when its
  domain is another one) is authorized only if the service knows the key.\<close>

theorem session_lifecycle:
  assumes node: "timed_node N clock entry wait" "ieee rnd" "sw_store w = Some s" "st_nodes s \<noteq> []"
    and cfg: "checkDomain host (ss_domains cfg) (ss_domain cfg) \<noteq> []" "0 < ss_life cfg" "ss_life cfg \<le> 9223372036"
    and key: "key \<noteq> []" "cookies (ss_key cfg) = Some key"
    and put: "\<forall>n \<in> set (st_nodes s). accepts N 5 (cacheKey cfg key) v (seconds_long (ss_life cfg)) n"
    and del: "\<forall>n. snd (n_Delete N (cacheKey cfg key) n) = None"
  shows "\<exists>w1 w2 w3 s2 i. SetSession N rnd cfg host t key v remember w = Ret w1 \<and> sent_cookie w1 (ss_key cfg) = Some key
    \<and> authorized N rnd cfg ac cookies (later wait d1 w1) = (if d1 < ss_life cfg then Ret True else by_service ac key)
    \<and> (d1 < ss_life cfg \<longrightarrow> (\<exists>w'. Session N rnd cfg ac cookies [] (later wait d1 w1) = Ret ((key, RBulk v), w')))
    \<and> DelSession rnd cfg cookies t' [] (later wait d1 w1) = Ret (key, w2)
    \<and> authorized N rnd cfg ac cookies (later wait d2 w2) = (if d1 + d2 < ss_life cfg then Ret True else by_service ac key)
    \<and> sw_store w2 = Some s2 \<and> (i, cacheKey cfg key) \<in> set (st_deletes s2) \<and> background N (i, cacheKey cfg key) w2 = Ret w3
    \<and> authorized N rnd cfg ac cookies (later wait d3 w3) = by_service ac key"
proof -
  let ?ck = "cacheKey cfg key"
  note stored = authorized_stored [where cookies = cookies and cfg = cfg and key = key and rnd = rnd and ac = ac, OF node(1,2) key(2,1)]
  have env: "sw_env (later wait d x) = None" for d x by (simp add: later_def)
  have life: "whole_secs (seconds_long (ss_life cfg)) = ss_life cfg" using cfg(2,3) by (simp add: seconds_exact)
  obtain w1 where w1: "SetSession N rnd cfg host t key v remember w = Ret w1"
    "stored_at clock entry rnd ?ck (Some (v, ss_life cfg)) w1"
    "map ck_value (filter (\<lambda>c. ck_name c = ss_key cfg) (sw_set w1))
        = map ck_value (filter (\<lambda>c. ck_name c = ss_key cfg) (sw_set w)) @ [key]"
    using SetSession_stored [OF node cfg(1) put, of t remember] unfolding life by blast
  have cookie: "sent_cookie w1 (ss_key cfg) = Some key"
    using w1(3) by (auto simp: sent_cookie_def find_rev) (metis last_map last_snoc map_is_Nil_conv snoc_eq_iff_butlast)
  have l1: "stored_at clock entry rnd ?ck (Some (v, ss_life cfg - d1)) (later wait d1 w1)"
    using later_stored [OF node(1) w1(2), of d1] by simp
  obtain i w2 s2 where w2: "DelSession rnd cfg cookies t' [] (later wait d1 w1) = Ret (key, w2)"
    "stored_at clock entry rnd ?ck (Some (v, ss_life cfg - d1)) w2" "sw_store w2 = Some s2"
    "Hash rnd (length (st_nodes s2)) ?ck = Ret i" "(i, ?ck) \<in> set (st_deletes s2)"
    using DelSession_stored [where cookies = cookies and cfg = cfg and key = key, OF key(2) l1] by blast
  have l2: "stored_at clock entry rnd ?ck (Some (v, ss_life cfg - d1 - d2)) (later wait d2 w2)"
    using later_stored [OF node(1) w2(2), of d2] by simp
  obtain w3 where w3: "background N (i, ?ck) w2 = Ret w3" "stored_at clock entry rnd ?ck None w3"
    using background_deletes [OF node(1) w2(2) _ del w2(3,4)] del by blast
  have l3: "stored_at clock entry rnd ?ck None (later wait d3 w3)" using later_stored [OF node(1) w3(2), of d3] by simp
  have "authorized N rnd cfg ac cookies (later wait d1 w1) = (if d1 < ss_life cfg then Ret True else by_service ac key)"
    "authorized N rnd cfg ac cookies (later wait d2 w2) = (if d1 + d2 < ss_life cfg then Ret True else by_service ac key)"
    "authorized N rnd cfg ac cookies (later wait d3 w3) = by_service ac key"
    using stored [OF env l1] stored [OF env l2] stored [OF env l3] by (simp_all add: algebra_simps)
  moreover have "d1 < ss_life cfg \<longrightarrow> (\<exists>w'. Session N rnd cfg ac cookies [] (later wait d1 w1) = Ret ((key, RBulk v), w'))"
    using session_value [where cookies = cookies and cfg = cfg and key = key, OF node(1) key(2) env l1] by simp
  ultimately show ?thesis using w1(1) cookie w2(1,3,5) w3(1) by blast
qed

text \<open>A deletion that is still pending when the client signs in again removes the new session.\<close>

lemma late_deletion:
  assumes "timed_node N clock entry wait" "stored_at clock entry rnd (cacheKey cfg key) x w" "\<forall>n. snd (n_Delete N (cacheKey cfg key) n) = None"
    and "sw_store w = Some s" "Hash rnd (length (st_nodes s)) (cacheKey cfg key) = Ret i" "ieee rnd" "cookies (ss_key cfg) = Some key" "key \<noteq> []"
  shows "\<exists>w1. background N (i, cacheKey cfg key) w = Ret w1 \<and> authorized N rnd cfg None cookies (later wait d w1) = Ret False"
proof -
  obtain w1 where w1: "background N (i, cacheKey cfg key) w = Ret w1" "stored_at clock entry rnd (cacheKey cfg key) None w1"
    using background_deletes [OF assms(1,2) _ assms(3-5)] assms(3) by blast
  have "stored_at clock entry rnd (cacheKey cfg key) None (later wait d w1)" using later_stored [OF assms(1) w1(2), of d] by simp
  from authorized_stored [where cookies = cookies and cfg = cfg and key = key and rnd = rnd, OF assms(1,6,7,8) _ this] have "authorized N rnd cfg None cookies (later wait d w1) = Ret False"
    by (simp add: later_def by_service_def)
  with w1(1) show ?thesis by blast
qed

text \<open>The domains of the environment are not read. Whatever \<open>session.domains\<close> says, if it is more than a comma, a host without a comma
  gets the cookie of the default domain.\<close>

lemma environment_domains_ignored:
  assumes "getenv ''session.domains'' \<notin> {[], '',''}" "CHR '','' \<notin> set host"
  shows "checkDomain host (ss_domains (Auth_config getenv cfg)) (ss_domain (Auth_config getenv cfg)) = ss_domain (Auth_config getenv cfg)"
proof -
  have "\<not> contains_sub host '',''" using assms(2) by (induction host) (auto simp: has_prefix_def)
  moreover have "ss_domains (Auth_config getenv cfg) = ['','']"
    using assms(1) by (simp add: Auth_config_def Let_def split_comma_at_def)
  ultimately show ?thesis by simp
qed

text \<open>A host that contains a domain anywhere counts as its host.\<close>

lemma foreign_host: "checkDomain ''x.adchina.io.evil.example'' [''.adchina.io''] d = ''.adchina.io''"
  by code_simp

lemma unreachable_service_panics:
  assumes "cookies (ss_key cfg) = Some key" "sw_env w = None" "RedisGet N rnd (cacheKey cfg key) w = Ret (w1, RNull)"
    and "client (''/auth/'' @ key) = Inl e"
  shows "Auth N rnd cfg (Some client) cookies w = Panic NilDereference"
  using assms by (simp add: Auth_def Session_def Let_def)

text \<open>The address of a service that does not begin with \<open>http\<close> is looked up once more, as the name of a service.\<close>

lemma address_looked_up_twice:
  "NewInnerClient (\<lambda>_. []) [(''ac'', ''ac.local:80'')] ''ac'' = Inr []"
  by code_simp

lemma cookie_not_expired:
  "cookies (ss_key cfg) = Some key \<Longrightarrow> DelSession rnd cfg cookies now arg w = Ret (k, w1) \<Longrightarrow> last (sw_set w1)
     = \<lparr>ck_name = ss_key cfg, ck_value = [], ck_domain = ss_domain cfg, ck_expires = Some (now + ss_life cfg)\<rparr>"
  by (auto simp: DelSession_def Let_def bind_outcome_Ret_iff)

section \<open>Calls of services\<close>

text \<open>What was prepared for a call that was answered is not sent again; after an error of the transport it is.\<close>

lemma request_renewed:
  "fst (sendAndRecv transport json cat path c) = Inr r \<Longrightarrow> ic_body (snd (sendAndRecv transport json cat path c)) = None"
  "fst (sendAndRecv transport json cat path c) = Inl e \<Longrightarrow> ic_body (snd (sendAndRecv transport json cat path c)) = ic_body c"
  by (auto simp: sendAndRecv_def renewed_call_def Let_def split: sum.splits option.splits)

text \<open>An answer with an error status counts as a success when its body is JSON without a code of its own.\<close>

lemma error_status_accepted: "body \<noteq> [] \<Longrightarrow> json body = Some (0, msg) \<Longrightarrow> fst (Parse_response json rc status body) = 0"
  by (simp add: Parse_response_def Let_def)

text \<open>So does \<open>Session\<close>: such an answer of the service signs its client in.\<close>

lemma error_answer_signs_in:
  assumes "cookies (ss_key cfg) = Some key" "key \<noteq> []" "sw_env w = None" "RedisGet N rnd (cacheKey cfg key) w = Ret (w1, RNull)"
    "sw_store w1 = Some s" "st_nodes s \<noteq> []" "ieee rnd"
    "body \<noteq> []" "json body = Some (0, msg)" "client (''/auth/'' @ key) = Inr (fst (Parse_response json rc status body), body)"
  shows "\<exists>w'. Auth N rnd cfg (Some client) cookies w = Ret (True, w')"
proof -
  have "\<exists>w2 e. RedisSet N rnd (cacheKey cfg key) body 86400 w1 = Ret (w2, e)"
    by (rule RedisSet_Ret [OF assms(7,5,6)]) (simp add: cacheKey_def)
  with assms show ?thesis by (auto simp: Auth_def Session_def Let_def error_status_accepted)
qed

text \<open>Every verb but three is sent as \<open>POST\<close>.\<close>

lemma delete_is_posted: "call_name ''delete'' = ''POST''"
  by code_simp

section \<open>Examples\<close>

definition shop :: SessionConfig where
  "shop = \<lparr>ss_prefix = ''auth'', ss_key = ''sid'', ss_life = 1800, ss_path = ''/'', ss_domain = ''.shop.example'', ss_domains = [''.shop.example''],
     ss_security = True, ss_httponly = True\<rparr>"

text \<open>A node in memory, with a clock, and a store of two of them.\<close>

type_synonym memory = "(string \<Rightarrow> (string \<times> int) option) \<times> int"

definition memory_node :: "memory StoreNode" where
  "memory_node =
     \<lparr>n_Get = (\<lambda>k (m, c). ((m, c), case m k of Some (v, e) \<Rightarrow> if c < e then RBulk v else RNull | None \<Rightarrow> RNull)),
      n_GetSet = (\<lambda>k v (m, c). ((m, c), Inl ''not used'')),
      n_Put = (\<lambda>k v t nx (m, c). ((m(k \<mapsto> (v, c + whole_secs t)), c), None)),
      n_Delete = (\<lambda>k (m, c). ((m(k := None), c), None))\<rparr>"

lemma memory_node_timed: "timed_node memory_node snd fst (\<lambda>d (m, c). (m, c + d))"
  by (auto simp: timed_node_def memory_node_def split: option.split)

lemma memory_node_accepts: "accepts memory_node 5 key v t n" "snd (n_Delete memory_node key n) = None"
proof -
  have "(5 :: nat) = Suc 4" by simp
  then show "accepts memory_node 5 key v t n" by (cases n) (simp only: accepts.simps, simp add: memory_node_def)
qed (cases n, simp add: memory_node_def)

definition no_sessions :: "memory session_world" where
  "no_sessions = \<lparr>sw_env = None, sw_store = Some \<lparr>st_nodes = [(Map.empty, 0), (Map.empty, 0)], st_deletes = []\<rparr>, sw_set = []\<rparr>"

text \<open>Ten seconds after the sign-in, and after a deletion that has not run yet.\<close>

theorem session_lifecycle_witness:
  "\<exists>w1 w2 w3 i. SetSession memory_node id shop ''www.shop.example'' 0 ''k7'' ''user 7'' False no_sessions = Ret w1
    \<and> authorized memory_node id shop None [''sid'' \<mapsto> ''k7''] (later (\<lambda>d (m, c). (m, c + d)) 10 w1) = Ret True
    \<and> DelSession id shop [''sid'' \<mapsto> ''k7''] 10 [] (later (\<lambda>d (m, c). (m, c + d)) 10 w1) = Ret (''k7'', w2)
    \<and> authorized memory_node id shop None [''sid'' \<mapsto> ''k7''] (later (\<lambda>d (m, c). (m, c + d)) 0 w2) = Ret True
    \<and> background memory_node (i, cacheKey shop ''k7'') w2 = Ret w3
    \<and> authorized memory_node id shop None [''sid'' \<mapsto> ''k7''] (later (\<lambda>d (m, c). (m, c + d)) 1 w3) = Ret False"
proof -
  let ?s = "\<lparr>st_nodes = [(Map.empty, 0), (Map.empty, 0)], st_deletes = []\<rparr> :: memory Storage"
  have d: "checkDomain ''www.shop.example'' (ss_domains shop) (ss_domain shop) \<noteq> []" by code_simp
  have h: "ieee id" "sw_store no_sessions = Some ?s" "st_nodes ?s \<noteq> []"
    "0 < ss_life shop" "ss_life shop \<le> 9223372036"
    "''k7'' \<noteq> []" "[''sid'' \<mapsto> ''k7''] (ss_key shop) = Some ''k7''"
    "\<forall>n \<in> set (st_nodes ?s). accepts memory_node 5 (cacheKey shop ''k7'') ''user 7'' (seconds_long (ss_life shop)) n"
    "\<forall>n. snd (n_Delete memory_node (cacheKey shop ''k7'') n) = None"
    by (simp_all add: ieee_def no_sessions_def shop_def memory_node_accepts)
  have l: "ss_life shop = 1800" "by_service None ''k7'' = Ret False" by (simp_all add: shop_def by_service_def)
  have n: "(10 :: int) < 1800" "(10 :: int) + 0 < 1800" by simp_all
  let ?wait = "\<lambda>d (m, c). (m, c + d)" and ?c = "[''sid'' \<mapsto> ''k7'']"
  obtain w1 w2 w3 s2 i where w: "SetSession memory_node id shop ''www.shop.example'' 0 ''k7'' ''user 7'' False no_sessions = Ret w1
    \<and> sent_cookie w1 (ss_key shop) = Some ''k7''
    \<and> authorized memory_node id shop None ?c (later ?wait 10 w1) = (if 10 < ss_life shop then Ret True else by_service None ''k7'')
    \<and> (10 < ss_life shop \<longrightarrow> (\<exists>w'. Session memory_node id shop None ?c [] (later ?wait 10 w1) = Ret ((''k7'', RBulk ''user 7''), w')))
    \<and> DelSession id shop ?c 10 [] (later ?wait 10 w1) = Ret (''k7'', w2)
    \<and> authorized memory_node id shop None ?c (later ?wait 0 w2) = (if 10 + 0 < ss_life shop then Ret True else by_service None ''k7'')
    \<and> sw_store w2 = Some s2 \<and> (i, cacheKey shop ''k7'') \<in> set (st_deletes s2) \<and> background memory_node (i, cacheKey shop ''k7'') w2 = Ret w3
    \<and> authorized memory_node id shop None ?c (later ?wait 1 w3) = by_service None ''k7''"
    using session_lifecycle [where key = "''k7''" and cookies = ?c and cfg = shop and t = 0 and remember = False and ac = None
        and ?d1.0 = 10 and ?d2.0 = 0 and ?d3.0 = 1 and t' = 10, OF memory_node_timed h(1-3) d h(4-)] by (elim exE)
  show ?thesis
    by (intro exI [of _ w1] exI [of _ w2] exI [of _ w3] exI [of _ i]) (use w in \<open>simp only: l n if_True simp_thms\<close>)
qed

lemma environment_domains_ignored_witness:
  "checkDomain ''www.shop.example'' (ss_domains (Auth_config (\<lambda>k. if k = ''session.domains'' then ''.shop.example'' else []) (shop\<lparr>ss_domain := ''.x''\<rparr>)))
      (ss_domain (Auth_config (\<lambda>k. if k = ''session.domains'' then ''.shop.example'' else []) (shop\<lparr>ss_domain := ''.x''\<rparr>)))
    = ss_domain (Auth_config (\<lambda>k. if k = ''session.domains'' then ''.shop.example'' else []) (shop\<lparr>ss_domain := ''.x''\<rparr>))"
  by (rule environment_domains_ignored) simp_all

end
