(* ===== verification/HttpResponse.thy ===== *)
theory HttpResponse
  imports WhttpProxy
begin

text \<open>
  The responses of the two engines (\<open>whttp/standard/response.go\<close>, \<open>whttp/fasthttp/response.go\<close>), what a context writes to
  them (\<open>context_http.go\<close>) and the middleware that caches them (\<open>cache.go\<close>).

  The buffer of a standard response is a \<open>bytes.Buffer\<close>: an array of a store, with a length and an offset, so that a copy of the
  buffer shares its array, as in Go. Writing to the buffer does not fail; \<open>net/http\<close> refuses the body of a status that has none.
  Compression, and the size that a new array gets, are parameters.
\<close>

section \<open>Buffers\<close>

type_synonym byte_arrays = "string list"

record Buffer =
  b_arr :: nat
  b_len :: nat
  b_off :: nat

definition buf_bytes :: "byte_arrays \<Rightarrow> Buffer \<Rightarrow> string" where
  "buf_bytes st b = drop (b_off b) (take (b_len b) (st ! b_arr b))"

definition buf_Reset :: "Buffer \<Rightarrow> Buffer" where
  "buf_Reset b = b\<lparr>b_len := 0, b_off := 0\<rparr>"

definition put_at :: "nat \<Rightarrow> string \<Rightarrow> string \<Rightarrow> string" where
  "put_at i p xs = take i xs @ p @ drop (i + length p) xs"

text \<open>\<open>Write\<close>: behind the last byte if the array has room; else an empty buffer begins again, bytes that were read make room, or there is a
  new array of \<open>grow\<close> bytes.\<close>

definition buf_put :: "string \<Rightarrow> Buffer \<times> byte_arrays \<Rightarrow> Buffer \<times> byte_arrays" where
  "buf_put p s = (case s of (b, st) \<Rightarrow>
     (b\<lparr>b_len := b_len b + length p\<rparr>, st[b_arr b := put_at (b_len b) p (st ! b_arr b)]))"

definition buf_Write :: "(nat \<Rightarrow> nat \<Rightarrow> nat) \<Rightarrow> string \<Rightarrow> Buffer \<times> byte_arrays \<Rightarrow> Buffer \<times> byte_arrays" where
  "buf_Write grow p s =
     (case s of (b, st) \<Rightarrow>
        let cap = length (st ! b_arr b); n = length p; m = b_len b - b_off b
        in if b_len b + n \<le> cap then buf_put p (b, st)
           else if m = 0 \<and> n \<le> cap then buf_put p (buf_Reset b, st)
           else if m + n \<le> cap div 2
           then buf_put p (b\<lparr>b_len := m, b_off := 0\<rparr>, st[b_arr b := put_at 0 (buf_bytes st b) (st ! b_arr b)])
           else (b\<lparr>b_arr := length st, b_len := m + n, b_off := 0\<rparr>,
                 st @ [buf_bytes st b @ p @ replicate (grow cap n - (m + n)) (CHR 0x00)]))"

text \<open>A new buffer over an empty array.\<close>

definition new_Buffer :: "byte_arrays \<Rightarrow> Buffer \<times> byte_arrays" where
  "new_Buffer st = (\<lparr>b_arr = length st, b_len = 0, b_off = 0\<rparr>, st @ [[]])"

section \<open>The interface of responses\<close>

record 'r response_ops =
  ro_Set :: "string \<Rightarrow> string \<Rightarrow> 'r \<Rightarrow> 'r"
  ro_Del :: "string \<Rightarrow> 'r \<Rightarrow> 'r"
  ro_WriteHeader :: "int \<Rightarrow> 'r \<Rightarrow> 'r"
  ro_Write :: "string \<Rightarrow> 'r \<Rightarrow> 'r"
  ro_WriteGzip :: "string \<Rightarrow> 'r \<Rightarrow> 'r"

section \<open>The response of net/http\<close>

text \<open>What \<open>net/http\<close> has taken: the status with the headers, once, and the bytes.\<close>

record wire =
  wi_head :: "(int \<times> header) option"
  wi_body :: string

record std_response =
  sr_status :: int
  sr_size :: nat
  sr_committed :: bool
  sr_hijacked :: bool
  sr_header :: header
  sr_buffer :: Buffer
  sr_wire :: wire

type_synonym std = "std_response \<times> byte_arrays"

definition no_wire :: wire where
  "no_wire = \<lparr>wi_head = None, wi_body = []\<rparr>"

definition std_NewResponse :: "byte_arrays \<Rightarrow> std" where
  "std_NewResponse st =
     (case new_Buffer st of (b, st') \<Rightarrow>
        (\<lparr>sr_status = 0, sr_size = 0, sr_committed = False, sr_hijacked = False, sr_header = Map.empty, sr_buffer = b, sr_wire = no_wire\<rparr>, st'))"

definition std_reset :: "header \<Rightarrow> std_response \<Rightarrow> std_response" where
  "std_reset h r =
     r\<lparr>sr_status := 200, sr_size := 0, sr_committed := False, sr_hijacked := False, sr_header := h, sr_buffer := buf_Reset (sr_buffer r),
       sr_wire := no_wire\<rparr>"

definition std_WriteHeader :: "int \<Rightarrow> std \<Rightarrow> std" where
  "std_WriteHeader code s = (case s of (r, st) \<Rightarrow> (r\<lparr>sr_status := code\<rparr>, st))"

definition std_Write :: "(nat \<Rightarrow> nat \<Rightarrow> nat) \<Rightarrow> string \<Rightarrow> std \<Rightarrow> std" where
  "std_Write grow p s =
     (case s of (r, st) \<Rightarrow> case buf_Write grow p (sr_buffer r, st) of (b, st') \<Rightarrow> (r\<lparr>sr_buffer := b\<rparr>, st'))"

definition std_WriteGzip :: "(nat \<Rightarrow> nat \<Rightarrow> nat) \<Rightarrow> (string \<Rightarrow> string) \<Rightarrow> string \<Rightarrow> std \<Rightarrow> std" where
  "std_WriteGzip grow gz p s = std_Write grow (gz p) s"

text \<open>\<open>WriteTo\<close>: the bytes of the buffer go to \<open>net/http\<close>, and the buffer is empty. Bytes under a status without a body are refused and
  stay in the buffer; the error is dropped.\<close>

definition body_allowed :: "int \<Rightarrow> bool" where
  "body_allowed code \<longleftrightarrow> \<not> (100 \<le> code \<and> code < 200) \<and> code \<noteq> 204 \<and> code \<noteq> 304"

definition refused :: "std \<Rightarrow> bool" where
  "refused s = (case s of (r, st) \<Rightarrow> buf_bytes st (sr_buffer r) \<noteq> [] \<and> \<not> body_allowed (case wi_head (sr_wire r) of Some (c, h) \<Rightarrow> c | None \<Rightarrow> 200))"

definition drain :: "std \<Rightarrow> std" where
  "drain s =
     (case s of (r, st) \<Rightarrow>
        if refused s then s else
        (r\<lparr>sr_wire := (sr_wire r)\<lparr>wi_body := wi_body (sr_wire r) @ buf_bytes st (sr_buffer r)\<rparr>,
           sr_size := sr_size r + length (buf_bytes st (sr_buffer r)), sr_buffer := buf_Reset (sr_buffer r)\<rparr>, st))"

definition send_head :: "std_response \<Rightarrow> std_response" where
  "send_head r =
     r\<lparr>sr_wire := (sr_wire r)\<lparr>wi_head := (case wi_head (sr_wire r) of None \<Rightarrow> Some (sr_status r, sr_header r) | Some h \<Rightarrow> Some h)\<rparr>\<rparr>"

definition std_Commit :: "std \<Rightarrow> std" where
  "std_Commit s =
     (case s of (r, st) \<Rightarrow>
        if sr_committed r \<or> sr_hijacked r then s
        else (case drain (send_head r, st) of (r', st') \<Rightarrow> (r'\<lparr>sr_committed := True\<rparr>, st')))"

definition std_Flush :: "std \<Rightarrow> std" where
  "std_Flush s =
     (case s of (r, st) \<Rightarrow> drain (if sr_committed r then r else (send_head r)\<lparr>sr_committed := True\<rparr>, st))"

text \<open>\<open>CopyTo\<close> adds the headers and shares the array of the buffer. The status is not copied.\<close>

definition std_CopyTo :: "std_response \<Rightarrow> std_response \<Rightarrow> std_response" where
  "std_CopyTo src dst = dst\<lparr>sr_header := copyHeader (sr_header dst) (sr_header src), sr_buffer := sr_buffer src\<rparr>"

definition std_ops :: "(nat \<Rightarrow> nat \<Rightarrow> nat) \<Rightarrow> (string \<Rightarrow> string) \<Rightarrow> std response_ops" where
  "std_ops grow gz =
     \<lparr>ro_Set = (\<lambda>k v (r, st). (r\<lparr>sr_header := h_Set (canonical k) v (sr_header r)\<rparr>, st)),
      ro_Del = (\<lambda>k (r, st). (r\<lparr>sr_header := h_Del (canonical k) (sr_header r)\<rparr>, st)),
      ro_WriteHeader = std_WriteHeader, ro_Write = std_Write grow, ro_WriteGzip = std_WriteGzip grow gz\<rparr>"

section \<open>The response of fasthttp\<close>

text \<open>Its headers, status and body are those of the library's response, which is sent after the request.\<close>

record fast_response =
  fr_status :: int
  fr_code :: int
  fr_header :: header
  fr_body :: string
  fr_size :: nat
  fr_committed :: bool

definition fast_NewResponse :: fast_response where
  "fast_NewResponse = \<lparr>fr_status = 0, fr_code = 200, fr_header = Map.empty, fr_body = [], fr_size = 0, fr_committed = False\<rparr>"

definition fast_reset :: "header \<Rightarrow> fast_response \<Rightarrow> fast_response" where
  "fast_reset h r = r\<lparr>fr_code := 200, fr_header := h, fr_body := [], fr_status := 200, fr_size := 0, fr_committed := False\<rparr>"

definition fast_Commit :: "fast_response \<Rightarrow> fast_response" where
  "fast_Commit r = r\<lparr>fr_size := length (fr_body r), fr_committed := True\<rparr>"

definition fast_WriteHeader :: "int \<Rightarrow> fast_response \<Rightarrow> fast_response" where
  "fast_WriteHeader code r = (if fr_committed r then r else fast_Commit (r\<lparr>fr_status := code, fr_code := code\<rparr>))"

definition fast_Write :: "string \<Rightarrow> fast_response \<Rightarrow> fast_response" where
  "fast_Write p r =
     (let r' = (if fr_committed r then r else fast_WriteHeader 200 r)
      in r'\<lparr>fr_body := fr_body r' @ p, fr_size := fr_size r' + length p\<rparr>)"

text \<open>The size counts the bytes before the compression.\<close>

definition fast_WriteGzip :: "(string \<Rightarrow> string) \<Rightarrow> string \<Rightarrow> fast_response \<Rightarrow> fast_response" where
  "fast_WriteGzip gz p r =
     (let r' = (if fr_committed r then r else fast_WriteHeader 200 r)
      in r'\<lparr>fr_body := fr_body r' @ gz p, fr_size := fr_size r' + length p\<rparr>)"

definition fast_Flush :: "fast_response \<Rightarrow> fast_response" where
  "fast_Flush r = r\<lparr>fr_size := length (fr_body r)\<rparr>"

text \<open>The library copies status, headers and body.\<close>

definition fast_CopyTo :: "fast_response \<Rightarrow> fast_response \<Rightarrow> fast_response" where
  "fast_CopyTo src dst = dst\<lparr>fr_code := fr_code src, fr_header := fr_header src, fr_body := fr_body src\<rparr>"

definition fast_ops :: "(string \<Rightarrow> string) \<Rightarrow> fast_response response_ops" where
  "fast_ops gz =
     \<lparr>ro_Set = (\<lambda>k v r. r\<lparr>fr_header := h_Set (canonical k) v (fr_header r)\<rparr>), ro_Del = (\<lambda>k r. r\<lparr>fr_header := h_Del (canonical k) (fr_header r)\<rparr>),
      ro_WriteHeader = fast_WriteHeader, ro_Write = fast_Write, ro_WriteGzip = fast_WriteGzip gz\<rparr>"


section \<open>What a context writes\<close>

text \<open>The answers of a context; \<open>enc\<close> is its encoding. A text is the error, if there is one.\<close>

definition Blob :: "'r response_ops \<Rightarrow> string \<Rightarrow> int \<Rightarrow> string \<Rightarrow> string \<Rightarrow> 'r \<Rightarrow> 'r" where
  "Blob ops enc code ct b r =
     (let r1 = ro_WriteHeader ops code (ro_Set ops ''Content-Type'' ct r)
      in if enc = ''gzip'' \<and> length b > 200
         then ro_Set ops ''Content-Encoding'' ''gzip'' (ro_WriteGzip ops b (ro_Set ops ''Vary'' ''Accept-Encoding'' r1))
         else ro_Write ops b r1)"

definition HTML :: "'r response_ops \<Rightarrow> string \<Rightarrow> int \<Rightarrow> string \<Rightarrow> 'r \<Rightarrow> 'r" where
  "HTML ops enc code s = Blob ops enc code ''text/html; charset=utf-8'' s"

definition String_answer :: "'r response_ops \<Rightarrow> string \<Rightarrow> int \<Rightarrow> string \<Rightarrow> 'r \<Rightarrow> 'r" where
  "String_answer ops enc code s = Blob ops enc code ''text/plain; charset=utf-8'' s"

definition JSONBlob :: "'r response_ops \<Rightarrow> string \<Rightarrow> int \<Rightarrow> string \<Rightarrow> 'r \<Rightarrow> 'r" where
  "JSONBlob ops enc code b = Blob ops enc code ''application/json; charset=utf-8'' b"

text \<open>An encoder gives an error or the text, with or without indentation.\<close>

definition JSON_answer :: "'r response_ops \<Rightarrow> (bool \<Rightarrow> 'v \<Rightarrow> string + string) \<Rightarrow> string \<Rightarrow> bool \<Rightarrow> int \<Rightarrow> 'v \<Rightarrow> 'r \<Rightarrow> 'r \<times> string option" where
  "JSON_answer ops encode enc pretty code v r =
     (case encode pretty v of Inl e \<Rightarrow> (r, Some e) | Inr b \<Rightarrow> (JSONBlob ops enc code b r, None))"

definition JSONPBlob :: "'r response_ops \<Rightarrow> int \<Rightarrow> string \<Rightarrow> string \<Rightarrow> 'r \<Rightarrow> 'r" where
  "JSONPBlob ops code callback b r =
     (let r1 = ro_WriteHeader ops code (ro_Set ops ''Content-Type'' ''application/javascript; charset=utf-8'' r)
      in ro_Write ops '');'' (ro_Write ops b (ro_Write ops (callback @ ''('') r1)))"

definition JSONP :: "'r response_ops \<Rightarrow> (bool \<Rightarrow> 'v \<Rightarrow> string + string) \<Rightarrow> int \<Rightarrow> string \<Rightarrow> 'v \<Rightarrow> 'r \<Rightarrow> 'r \<times> string option" where
  "JSONP ops encode code callback v r =
     (case encode False v of Inl e \<Rightarrow> (r, Some e) | Inr b \<Rightarrow> (JSONPBlob ops code callback b r, None))"

definition xml_Header :: string where
  "xml_Header = ''<?xml version='' @ in_quotes ''1.0'' @ '' encoding='' @ in_quotes ''UTF-8'' @ ''?>'' @ [CHR 0x0A]"

definition XMLBlob :: "'r response_ops \<Rightarrow> int \<Rightarrow> string \<Rightarrow> 'r \<Rightarrow> 'r" where
  "XMLBlob ops code b r =
     (let r1 = ro_WriteHeader ops code (ro_Set ops ''Content-Type'' ''application/xml; charset=utf-8'' r)
      in ro_Write ops b (ro_Write ops xml_Header r1))"

definition XML_answer :: "'r response_ops \<Rightarrow> (bool \<Rightarrow> 'v \<Rightarrow> string + string) \<Rightarrow> bool \<Rightarrow> int \<Rightarrow> 'v \<Rightarrow> 'r \<Rightarrow> 'r \<times> string option" where
  "XML_answer ops encode debug code v r =
     (case encode debug v of Inl e \<Rightarrow> (r, Some e) | Inr b \<Rightarrow> (XMLBlob ops code b r, None))"

text \<open>A reader gives its pieces and then its end or an error.\<close>

type_synonym reading = "string list \<times> string option"

definition Copy :: "'r response_ops \<Rightarrow> reading \<Rightarrow> 'r \<Rightarrow> 'r \<times> string option" where
  "Copy ops rd r = (foldl (\<lambda>r p. ro_Write ops p r) r (fst rd), snd rd)"

definition Stream :: "'r response_ops \<Rightarrow> int \<Rightarrow> string \<Rightarrow> reading \<Rightarrow> 'r \<Rightarrow> 'r \<times> string option" where
  "Stream ops code ct rd r = Copy ops rd (ro_WriteHeader ops code (ro_Set ops ''Content-Type'' ct r))"

definition ContentTypeByExtension :: "(string \<Rightarrow> string) \<Rightarrow> string \<Rightarrow> string" where
  "ContentTypeByExtension mime name = (if mime name = [] then ''application/octet-stream'' else mime name)"

definition Attachment :: "'r response_ops \<Rightarrow> (string \<Rightarrow> string) \<Rightarrow> reading \<Rightarrow> string \<Rightarrow> 'r \<Rightarrow> 'r \<times> string option" where
  "Attachment ops mime rd name r =
     Copy ops rd (ro_WriteHeader ops 200 (ro_Set ops ''Content-Disposition'' (''attachment; filename='' @ name)
       (ro_Set ops ''Content-Type'' (ContentTypeByExtension mime name) r)))"

definition NoContent :: "'r response_ops \<Rightarrow> int \<Rightarrow> 'r \<Rightarrow> 'r" where
  "NoContent ops code r = ro_WriteHeader ops code r"

definition Redirect :: "'r response_ops \<Rightarrow> int \<Rightarrow> string \<Rightarrow> 'r \<Rightarrow> 'r \<times> string option" where
  "Redirect ops code loc r =
     (if code < 300 \<or> code > 307 then (r, Some ''invalid redirect status code'')
      else (ro_WriteHeader ops code (ro_Set ops ''Location'' loc r), None))"

text \<open>A file has a name, the second of its last change and a reader of its content. \<open>since\<close> is the second of \<open>If-Modified-Since\<close>, if that is a time, and
  \<open>http_time\<close> prints a second.\<close>

record file_content =
  co_name :: string
  co_modtime :: int
  co_reader :: reading

definition ServeContent :: "'r response_ops \<Rightarrow> (string \<Rightarrow> string) \<Rightarrow> (int \<Rightarrow> string) \<Rightarrow> int option \<Rightarrow> file_content \<Rightarrow> 'r \<Rightarrow> 'r \<times> string option" where
  "ServeContent ops mime http_time since f r =
     (case since of
        Some t \<Rightarrow>
          if co_modtime f < t + 1 then (NoContent ops 304 (ro_Del ops ''Content-Length'' (ro_Del ops ''Content-Type'' r)), None)
          else Copy ops (co_reader f) (ro_WriteHeader ops 200 (ro_Set ops ''Last-Modified'' (http_time (co_modtime f))
            (ro_Set ops ''Content-Type'' (ContentTypeByExtension mime (co_name f)) r)))
      | None \<Rightarrow>
          Copy ops (co_reader f) (ro_WriteHeader ops 200 (ro_Set ops ''Last-Modified'' (http_time (co_modtime f))
            (ro_Set ops ''Content-Type'' (ContentTypeByExtension mime (co_name f)) r))))"

text \<open>The paths that can be opened; a directory has the second of its last change, and reading it is an error.\<close>

datatype file_entry = FileEntry file_content | DirEntry int

definition File :: "'r response_ops \<Rightarrow> (string \<Rightarrow> string) \<Rightarrow> (int \<Rightarrow> string) \<Rightarrow> int option \<Rightarrow> (string \<Rightarrow> file_entry option) \<Rightarrow> string \<Rightarrow> 'r \<Rightarrow> 'r \<times> string option" where
  "File ops mime http_time since fs file r =
     (case fs file of
        None \<Rightarrow> (r, Some ''Not Found'')
      | Some (FileEntry f) \<Rightarrow> ServeContent ops mime http_time since f r
      | Some (DirEntry _) \<Rightarrow>
          (case fs (file @ ''/index.html'') of
             Some (FileEntry f) \<Rightarrow> ServeContent ops mime http_time since f r
           | Some (DirEntry t) \<Rightarrow>
               ServeContent ops mime http_time since \<lparr>co_name = ''index.html'', co_modtime = t, co_reader = ([], Some ''is a directory'')\<rparr> r
           | None \<Rightarrow> (r, Some ''Not Found'')))"

section \<open>Buffers keep what is written\<close>

definition buf_ok :: "byte_arrays \<Rightarrow> Buffer \<Rightarrow> bool" where
  "buf_ok st b \<longleftrightarrow> b_arr b < length st \<and> b_off b \<le> b_len b \<and> b_len b \<le> length (st ! b_arr b)"

lemma buf_put_ok:
  assumes "buf_ok st b" "b_len b + length p \<le> length (st ! b_arr b)" "buf_put p (b, st) = (b', st')"
  shows "buf_ok st' b' \<and> buf_bytes st' b' = buf_bytes st b @ p"
proof -
  have "buf_bytes st' b' = drop (b_off b) (take (b_len b + length p) (take (b_len b) (st ! b_arr b) @ p @ drop (b_len b + length p) (st ! b_arr b)))"
    using assms by (auto simp: buf_put_def buf_bytes_def put_at_def buf_ok_def)
  then show ?thesis using assms by (auto simp: buf_put_def buf_bytes_def put_at_def buf_ok_def)
qed

lemma buf_Reset_ok: "buf_ok st b \<Longrightarrow> buf_ok st (buf_Reset b)" "buf_bytes st (buf_Reset b) = []"
  by (simp_all add: buf_ok_def buf_Reset_def buf_bytes_def)

lemma buf_bytes_at: "buf_bytes st (b\<lparr>b_arr := a, b_len := l, b_off := 0\<rparr>) = take l (st ! a)"
  by (simp add: buf_bytes_def)

lemma buf_Write_ok:
  assumes "buf_ok st b" "buf_Write grow p (b, st) = (b', st')"
  shows "buf_ok st' b' \<and> buf_bytes st' b' = buf_bytes st b @ p"
proof -
  define m where "m = b_len b - b_off b"
  define cap where "cap = length (st ! b_arr b)"
  have len: "length (buf_bytes st b) = m" using assms(1) by (auto simp: buf_ok_def buf_bytes_def m_def)
  have w: "(if b_len b + length p \<le> cap then buf_put p (b, st)
      else if m = 0 \<and> length p \<le> cap then buf_put p (buf_Reset b, st)
      else if m + length p \<le> cap div 2
      then buf_put p (b\<lparr>b_len := m, b_off := 0\<rparr>, st[b_arr b := put_at 0 (buf_bytes st b) (st ! b_arr b)])
      else (b\<lparr>b_arr := length st, b_len := m + length p, b_off := 0\<rparr>,
            st @ [buf_bytes st b @ p @ replicate (grow cap (length p) - (m + length p)) (CHR 0x00)])) = (b', st')"
    using assms(2) unfolding buf_Write_def Let_def prod.case m_def cap_def .
  consider "b_len b + length p \<le> cap" | "\<not> b_len b + length p \<le> cap" "m = 0" "length p \<le> cap"
    | "\<not> b_len b + length p \<le> cap" "\<not> (m = 0 \<and> length p \<le> cap)" "m + length p \<le> cap div 2"
    | "\<not> b_len b + length p \<le> cap" "\<not> (m = 0 \<and> length p \<le> cap)" "\<not> m + length p \<le> cap div 2" by blast
  then show ?thesis
  proof cases
    case 1
    with w assms(1) show ?thesis by (intro buf_put_ok) (simp_all add: cap_def)
  next
    case 2
    then have "buf_bytes st b = []" using len by simp
    with 2 w assms(1) buf_put_ok [OF buf_Reset_ok(1) [OF assms(1)], of p b' st'] show ?thesis
      by (simp add: cap_def buf_Reset_ok(2)) (simp add: buf_Reset_def)
  next
    case 3
    define st1 where "st1 = st[b_arr b := put_at 0 (buf_bytes st b) (st ! b_arr b)]"
    define b1 where "b1 = b\<lparr>b_len := m, b_off := 0\<rparr>"
    have arr: "b_arr b < length st" using assms(1) by (simp add: buf_ok_def)
    have m: "m \<le> cap" using assms(1) by (auto simp: buf_ok_def m_def cap_def)
    have l: "length (st1 ! b_arr b) = cap" using arr len m by (auto simp: st1_def put_at_def cap_def)
    have "buf_ok st1 b1" using l m arr by (auto simp: buf_ok_def b1_def st1_def)
    moreover have "buf_bytes st1 b1 = buf_bytes st b" using arr len by (auto simp: b1_def st1_def put_at_def buf_bytes_def [of st1 b1] buf_bytes_def [of _ "b\<lparr>b_len := m, b_off := 0\<rparr>"])
    moreover have "buf_put p (b1, st1) = (b', st')" using w unfolding b1_def st1_def by (simp only: 3 if_False if_True)
    moreover have "b_len b1 + length p \<le> length (st1 ! b_arr b1)" using 3(3) l by (simp add: b1_def)
    ultimately show ?thesis using buf_put_ok [of st1 b1 p b' st'] by simp
  next
    case 4
    with w have "b' = b\<lparr>b_arr := length st, b_len := m + length p, b_off := 0\<rparr>"
      "st' = st @ [buf_bytes st b @ p @ replicate (grow cap (length p) - (m + length p)) (CHR 0x00)]" by auto
    then show ?thesis using len by (simp add: buf_ok_def buf_bytes_at nth_append)
  qed
qed


section \<open>The contract of a response\<close>

text \<open>What a context relies on: on a fresh response a status is set, then bytes are added to the body; headers may be set before and after.
  \<open>seen\<close> is what the client gets in the end.\<close>

locale http_response =
  fixes ops :: "'r response_ops" and gz :: "string \<Rightarrow> string" and seen :: "'r \<Rightarrow> int \<times> header \<times> string" and fresh answered :: "'r \<Rightarrow> bool"
  assumes Set_seen: "fresh r \<or> answered r \<Longrightarrow> seen (ro_Set ops k v r) = (case seen r of (c, h, b) \<Rightarrow> (c, h_Set (canonical k) v h, b))"
    and Set_phase: "fresh r \<Longrightarrow> fresh (ro_Set ops k v r)" "answered r \<Longrightarrow> answered (ro_Set ops k v r)"
    and WriteHeader_seen: "fresh r \<Longrightarrow> seen (ro_WriteHeader ops code r) = (case seen r of (c, h, b) \<Rightarrow> (code, h, b))"
    and WriteHeader_phase: "fresh r \<Longrightarrow> answered (ro_WriteHeader ops code r)"
    and Write_seen: "answered r \<Longrightarrow> seen (ro_Write ops p r) = (case seen r of (c, h, b) \<Rightarrow> (c, h, b @ p))"
    and Write_phase: "answered r \<Longrightarrow> answered (ro_Write ops p r)"
    and WriteGzip_seen: "answered r \<Longrightarrow> seen (ro_WriteGzip ops p r) = (case seen r of (c, h, b) \<Rightarrow> (c, h, b @ gz p))"
    and WriteGzip_phase: "answered r \<Longrightarrow> answered (ro_WriteGzip ops p r)"
begin

lemmas seen_simps = Set_seen WriteHeader_seen Write_seen WriteGzip_seen
lemmas phases = Set_phase WriteHeader_phase Write_phase WriteGzip_phase

lemma Copy_seen:
  "answered r \<Longrightarrow> seen (fst (Copy ops (ps, e) r)) = (case seen r of (c, h, b) \<Rightarrow> (c, h, b @ concat ps))"
  by (induction ps arbitrary: r) (auto simp: Copy_def seen_simps phases split: prod.splits)

lemma Blob_seen:
  assumes "fresh r" "seen r = (c, h, [])"
  shows "seen (Blob ops enc code ct b r) =
    (code, (if enc = ''gzip'' \<and> length b > 200
            then h_Set ''Content-Encoding'' ''gzip'' (h_Set ''Vary'' ''Accept-Encoding'' (h_Set ''Content-Type'' ct h))
            else h_Set ''Content-Type'' ct h),
     if enc = ''gzip'' \<and> length b > 200 then gz b else b)"
proof -
  have "canonical ''Content-Type'' = ''Content-Type''" "canonical ''Vary'' = ''Vary''"
    "canonical ''Content-Encoding'' = ''Content-Encoding''" by code_simp+
  then show ?thesis using assms by (simp add: Blob_def Let_def seen_simps phases)
qed

lemma Stream_seen:
  assumes "fresh r" "seen r = (c, h, [])"
  shows "seen (fst (Stream ops code ct (ps, e) r)) = (code, h_Set ''Content-Type'' ct h, concat ps)"
proof -
  have "canonical ''Content-Type'' = ''Content-Type''" by code_simp
  then show ?thesis using assms Copy_seen by (simp add: Stream_def seen_simps phases)
qed

end

section \<open>The two responses keep the contract\<close>

definition std_seen :: "std \<Rightarrow> int \<times> header \<times> string" where
  "std_seen s = (case s of (r, st) \<Rightarrow> (sr_status r, sr_header r, buf_bytes st (sr_buffer r)))"

definition std_ok :: "std \<Rightarrow> bool" where
  "std_ok s = (case s of (r, st) \<Rightarrow> buf_ok st (sr_buffer r))"

lemma std_Write_seen:
  assumes "std_ok s"
  shows "std_ok (std_Write grow p s) \<and> std_seen (std_Write grow p s) = (case std_seen s of (c, h, b) \<Rightarrow> (c, h, b @ p))"
proof -
  obtain r st where s: "s = (r, st)" by fastforce
  obtain b' st' where w: "buf_Write grow p (sr_buffer r, st) = (b', st')" by fastforce
  from buf_Write_ok [OF _ w] assms show ?thesis by (simp add: s w std_Write_def std_ok_def std_seen_def)
qed

lemma std_Set_seen:
  "std_seen (ro_Set (std_ops grow gz) k v s) = (case std_seen s of (c, h, b) \<Rightarrow> (c, h_Set (canonical k) v h, b))"
  "std_ok (ro_Set (std_ops grow gz) k v s) = std_ok s"
  by (cases s; simp add: std_ops_def std_seen_def std_ok_def)+

lemma std_WriteHeader_seen:
  "std_seen (std_WriteHeader code s) = (case std_seen s of (c, h, b) \<Rightarrow> (code, h, b))"
  "std_ok (std_WriteHeader code s) = std_ok s"
  by (cases s; simp add: std_WriteHeader_def std_seen_def std_ok_def)+

lemma std_ops_simps:
  "ro_WriteHeader (std_ops grow gz) = std_WriteHeader" "ro_Write (std_ops grow gz) = std_Write grow"
  "ro_WriteGzip (std_ops grow gz) p = std_Write grow (gz p)"
  by (simp_all add: std_ops_def std_WriteGzip_def fun_eq_iff)

interpretation std: http_response "std_ops grow gz" gz std_seen std_ok std_ok for grow gz
  by unfold_locales (simp_all add: std_ops_simps std_Set_seen std_WriteHeader_seen std_Write_seen)

definition fast_seen :: "fast_response \<Rightarrow> int \<times> header \<times> string" where
  "fast_seen r = (fr_code r, fr_header r, fr_body r)"

interpretation fast: http_response "fast_ops gz" gz fast_seen "\<lambda>r. \<not> fr_committed r" fr_committed for gz
  by unfold_locales
    (simp_all add: fast_ops_def fast_seen_def fast_WriteHeader_def fast_Write_def fast_WriteGzip_def fast_Commit_def)


section \<open>Requests on a pooled response\<close>

text \<open>The engines take a response from their pool, reset it with the headers of the connection, let the multiplexer run the handler, which
  commits at its end, and put it back.\<close>

definition std_ServeHTTP :: "(std \<Rightarrow> std) \<Rightarrow> header \<Rightarrow> std \<Rightarrow> std" where
  "std_ServeHTTP handler h s = (case s of (r, st) \<Rightarrow> std_Commit (handler (std_reset h r, st)))"

definition fast_ServeHTTP :: "(fast_response \<Rightarrow> fast_response) \<Rightarrow> header \<Rightarrow> fast_response \<Rightarrow> fast_response" where
  "fast_ServeHTTP handler h r = fast_Commit (handler (fast_reset h r))"

record blob_answer =
  ba_header :: header
  ba_enc :: string
  ba_code :: int
  ba_type :: string
  ba_body :: string

fun std_run :: "(nat \<Rightarrow> nat \<Rightarrow> nat) \<Rightarrow> (string \<Rightarrow> string) \<Rightarrow> blob_answer list \<Rightarrow> std \<Rightarrow> wire list" where
  "std_run grow gz [] s = []"
| "std_run grow gz (q # qs) s =
     (let s' = std_ServeHTTP (Blob (std_ops grow gz) (ba_enc q) (ba_code q) (ba_type q) (ba_body q)) (ba_header q) s
      in sr_wire (fst s') # std_run grow gz qs s')"

fun fast_run :: "(string \<Rightarrow> string) \<Rightarrow> blob_answer list \<Rightarrow> fast_response \<Rightarrow> wire list" where
  "fast_run gz [] r = []"
| "fast_run gz (q # qs) r =
     (let r' = fast_ServeHTTP (Blob (fast_ops gz) (ba_enc q) (ba_code q) (ba_type q) (ba_body q)) (ba_header q) r
      in \<lparr>wi_head = Some (fr_code r', fr_header r'), wi_body = (if body_allowed (fr_code r') then fr_body r' else [])\<rparr> # fast_run gz qs r')"

text \<open>What the client of a request is to get. A status without a body has none; a compressed body says so in its headers.\<close>

definition wanted :: "(string \<Rightarrow> string) \<Rightarrow> blob_answer \<Rightarrow> wire" where
  "wanted gz q =
     (let h = h_Set ''Content-Type'' (ba_type q) (ba_header q); zip = ba_enc q = ''gzip'' \<and> length (ba_body q) > 200
      in \<lparr>wi_head = Some (ba_code q, if zip then h_Set ''Content-Encoding'' ''gzip'' (h_Set ''Vary'' ''Accept-Encoding'' h) else h),
          wi_body = (if \<not> body_allowed (ba_code q) then [] else if zip then gz (ba_body q) else ba_body q)\<rparr>)"

text \<open>A status that ends a request; \<open>net/http\<close> has its own ways with the others.\<close>

definition final_status :: "int \<Rightarrow> bool" where
  "final_status code \<longleftrightarrow> 200 \<le> code \<and> code \<le> 999"

lemma std_reset_seen: "std_ok (r, st) \<Longrightarrow> std_ok (std_reset h r, st)" "std_seen (std_reset h r, st) = (200, h, [])"
  by (simp_all add: std_ok_def std_seen_def std_reset_def buf_Reset_ok)

lemma std_Commit_wire:
  assumes "std_seen s = (c, h, b)" "std_ok s" "sr_wire (fst s) = no_wire" "\<not> sr_committed (fst s)" "\<not> sr_hijacked (fst s)"
  shows "sr_wire (fst (std_Commit s)) = \<lparr>wi_head = Some (c, h), wi_body = (if body_allowed c then b else [])\<rparr> \<and> std_ok (std_Commit s)"
  using assms by (cases s) (auto simp: std_Commit_def drain_def refused_def send_head_def std_seen_def std_ok_def no_wire_def buf_Reset_ok)

text \<open>Writing an answer leaves what was sent, and the state of the response.\<close>

definition std_rest :: "std \<Rightarrow> wire \<times> bool \<times> bool" where
  "std_rest s = (sr_wire (fst s), sr_committed (fst s), sr_hijacked (fst s))"

lemma std_rest_ops [simp]:
  "std_rest (ro_Set (std_ops grow gz) k v s) = std_rest s" "std_rest (std_WriteHeader code s) = std_rest s"
  "std_rest (std_Write grow p s) = std_rest s"
  by (cases s; simp add: std_rest_def std_ops_def std_WriteHeader_def std_Write_def split: prod.split)+

lemma std_rest_Blob [simp]: "std_rest (Blob (std_ops grow gz) enc code ct b s) = std_rest s"
  by (simp add: Blob_def Let_def std_ops_simps)

lemma std_ok_Blob [simp]: "std_ok s \<Longrightarrow> std_ok (Blob (std_ops grow gz) enc code ct b s)"
  by (simp add: Blob_def Let_def std_ops_simps std_Set_seen std_WriteHeader_seen std_Write_seen)

lemma std_serve_wanted:
  assumes "std_ok s"
  shows "sr_wire (fst (std_ServeHTTP (Blob (std_ops grow gz) (ba_enc q) (ba_code q) (ba_type q) (ba_body q)) (ba_header q) s)) = wanted gz q
    \<and> std_ok (std_ServeHTTP (Blob (std_ops grow gz) (ba_enc q) (ba_code q) (ba_type q) (ba_body q)) (ba_header q) s)"
proof -
  obtain r st where s: "s = (r, st)" by fastforce
  let ?s0 = "(std_reset (ba_header q) r, st)"
  let ?s1 = "Blob (std_ops grow gz) (ba_enc q) (ba_code q) (ba_type q) (ba_body q) ?s0"
  have ok: "std_ok ?s0" using assms s std_reset_seen(1) by simp
  have "std_rest ?s1 = std_rest ?s0" by (rule std_rest_Blob)
  also have "\<dots> = (no_wire, False, False)" by (simp add: std_rest_def std_reset_def)
  finally have "std_rest ?s1 = (no_wire, False, False)" .
  then have "sr_wire (fst ?s1) = no_wire" "\<not> sr_committed (fst ?s1)" "\<not> sr_hijacked (fst ?s1)" by (simp_all add: std_rest_def)
  from std_Commit_wire [OF std.Blob_seen [OF ok std_reset_seen(2)] std_ok_Blob [OF ok] this] show ?thesis
    by (simp add: s std_ServeHTTP_def wanted_def Let_def)
qed

lemma fast_serve_wanted:
  "\<lparr>wi_head = Some (fr_code r', fr_header r'), wi_body = (if body_allowed (fr_code r') then fr_body r' else [])\<rparr> = wanted gz q"
  if "r' = fast_ServeHTTP (Blob (fast_ops gz) (ba_enc q) (ba_code q) (ba_type q) (ba_body q)) (ba_header q) r"
proof -
  from fast.Blob_seen [of "fast_reset (ba_header q) r" 200 "ba_header q" gz "ba_enc q" "ba_code q" "ba_type q" "ba_body q"]
  show ?thesis unfolding that
    by (auto simp: fast_ServeHTTP_def fast_Commit_def fast_seen_def fast_reset_def wanted_def Let_def)
qed

lemma std_run_wanted: "std_ok s \<Longrightarrow> std_run grow gz qs s = map (wanted gz) qs"
  by (induction qs arbitrary: s) (simp_all add: Let_def std_serve_wanted)

lemma fast_run_wanted: "fast_run gz qs r = map (wanted gz) qs"
  by (induction qs arbitrary: r) (simp_all add: Let_def fast_serve_wanted [OF refl])

lemma new_std_ok: "std_ok (std_NewResponse st)"
  by (simp add: std_NewResponse_def new_Buffer_def std_ok_def buf_ok_def)

text \<open>C13: Every request gets its own answer. Whatever requests one pooled response serves one after the other, each with one answer by \<open>Blob\<close> under
  a status from 200 to 999: on either engine, what the library takes for a request is the status, the headers and the whole body of the answer
  that its own handler wrote, compressed exactly when that is accepted and the body is longer than 200 bytes, and without a body for 204 and
  304; nothing is left of the answers before.\<close>

theorem answers_arrive:
  assumes "list_all (\<lambda>q. final_status (ba_code q)) qs"
  shows "std_run grow gz qs (std_NewResponse st) = map (wanted gz) qs \<and> fast_run gz qs fast_NewResponse = map (wanted gz) qs"
  by (simp add: std_run_wanted fast_run_wanted new_std_ok)

theorem answers_arrive_witness:
  "std_run (+) rev [\<lparr>ba_header = Map.empty, ba_enc = [], ba_code = 304, ba_type = ''t'', ba_body = ''abcd''\<rparr>,
       \<lparr>ba_header = Map.empty, ba_enc = [], ba_code = 404, ba_type = ''t'', ba_body = ''xy''\<rparr>] (std_NewResponse [])
   = [\<lparr>wi_head = Some (304, [''Content-Type'' \<mapsto> [''t'']]), wi_body = []\<rparr>, \<lparr>wi_head = Some (404, [''Content-Type'' \<mapsto> [''t'']]), wi_body = ''xy''\<rparr>]"
proof -
  let ?qs = "[\<lparr>ba_header = Map.empty, ba_enc = [], ba_code = 304, ba_type = ''t'', ba_body = ''abcd''\<rparr>,
       \<lparr>ba_header = Map.empty, ba_enc = [], ba_code = 404, ba_type = ''t'', ba_body = ''xy''\<rparr>]"
  have "list_all (\<lambda>q. final_status (ba_code q)) ?qs" by (simp add: final_status_def)
  from answers_arrive [OF this, of "(+)" rev "[]"] have "std_run (+) rev ?qs (std_NewResponse []) = map (wanted rev) ?qs" by blast
  then show ?thesis by (simp add: wanted_def Let_def body_allowed_def h_Set_def)
qed


section \<open>The cache of responses\<close>

text \<open>The middleware of \<open>cache.go\<close>. The options of a route are the names of parameters and headers of its key; \<open>put\<close> copies the response
  of a request into a new one, \<open>load\<close> copies a cached one back. A handler says whether it failed and whether its answer may be cached.
  The cache is a map: its entries expire as those of theory \<open>WCache\<close>.\<close>

definition route_key :: "string list \<times> string list \<Rightarrow> proxy_request \<Rightarrow> string" where
  "route_key os r =
     pr_method r @ '':'' @ u_path (pr_url r) @ '':'' @ pr_engine r @ '':'' @ pr_encoding r @ '':'' @ cache_params (pr_query r) (fst os)
       @ '':'' @ cache_headers (pr_header r) (snd os)"

record 'r handled =
  hd_response :: 'r
  hd_error :: "string option"
  hd_noCache :: bool

definition cache_middleware ::
  "('v \<Rightarrow> 'r \<Rightarrow> 'r) \<Rightarrow> ('r \<Rightarrow> 'v \<times> 'r) \<Rightarrow> (string list \<times> string list) option \<Rightarrow> proxy_request \<Rightarrow> ('r \<Rightarrow> 'r handled) \<Rightarrow> 'r \<times> (string \<Rightarrow> 'v option)
    \<Rightarrow> ('r \<times> (string \<Rightarrow> 'v option)) \<times> string option" where
  "cache_middleware load put opts q next_h s =
     (case s of (r, cache) \<Rightarrow>
        case (if pr_mode q \<in> {''rpc'', ''wrpc'', ''grpc''} then None else opts) of
          None \<Rightarrow> (let d = next_h r in ((hd_response d, cache), hd_error d))
        | Some os \<Rightarrow>
            (case cache (route_key os q) of
               Some v \<Rightarrow> ((load v r, cache), None)
             | None \<Rightarrow>
                 (let d = next_h r
                  in if hd_error d = None \<and> \<not> hd_noCache d
                     then (case put (hd_response d) of (v, r') \<Rightarrow> ((r', cache(route_key os q \<mapsto> v)), None))
                     else ((hd_response d, cache), hd_error d))))"

definition std_load :: "std_response \<Rightarrow> std \<Rightarrow> std" where
  "std_load v s = (case s of (r, st) \<Rightarrow> (std_CopyTo v r, st))"

definition std_put :: "std \<Rightarrow> std_response \<times> std" where
  "std_put s = (case s of (r, st) \<Rightarrow> case std_NewResponse st of (nr, st') \<Rightarrow> (std_CopyTo r nr, (r, st')))"

definition fast_load :: "fast_response \<Rightarrow> fast_response \<Rightarrow> fast_response" where
  "fast_load v r = fast_CopyTo v r"

definition fast_put :: "fast_response \<Rightarrow> fast_response \<times> fast_response" where
  "fast_put r = (fast_CopyTo r fast_NewResponse, r)"

text \<open>A request through the middleware, on a response of the pool.\<close>

definition std_cached_serve ::
  "(string list \<times> string list) option \<Rightarrow> proxy_request \<Rightarrow> (std \<Rightarrow> std handled) \<Rightarrow> header \<Rightarrow> std \<times> (string \<Rightarrow> std_response option)
    \<Rightarrow> std \<times> (string \<Rightarrow> std_response option)" where
  "std_cached_serve opts q handler h s =
     (case s of ((r, st), cache) \<Rightarrow>
        case cache_middleware std_load std_put opts q handler ((std_reset h r, st), cache) of ((s', cache'), err) \<Rightarrow> (std_Commit s', cache'))"

definition fast_cached_serve ::
  "(string list \<times> string list) option \<Rightarrow> proxy_request \<Rightarrow> (fast_response \<Rightarrow> fast_response handled) \<Rightarrow> header
    \<Rightarrow> fast_response \<times> (string \<Rightarrow> fast_response option) \<Rightarrow> fast_response \<times> (string \<Rightarrow> fast_response option)" where
  "fast_cached_serve opts q handler h s =
     (case s of (r, cache) \<Rightarrow>
        case cache_middleware fast_load fast_put opts q handler (fast_reset h r, cache) of ((r', cache'), err) \<Rightarrow> (fast_Commit r', cache'))"

text \<open>A handler that answers a blob without compression.\<close>

definition answers :: "'r response_ops \<Rightarrow> int \<Rightarrow> string \<Rightarrow> string \<Rightarrow> 'r \<Rightarrow> 'r handled" where
  "answers ops code ct b r = \<lparr>hd_response = Blob ops [] code ct b r, hd_error = None, hd_noCache = False\<rparr>"

section \<open>A cached body is overwritten\<close>

lemma first_write:
  assumes "buf_ok st b" "b_len b = 0" "b_off b = 0" "buf_Write grow p (b, st) = (b', st')"
  shows "b_off b' = 0 \<and> b_len b' = length p \<and> buf_ok st' b' \<and> take (length p) (st' ! b_arr b') = p \<and> length st \<le> length st'"
proof -
  have b: "buf_ok st' b'" "buf_bytes st' b' = p"
    using buf_Write_ok [OF assms(1, 4)] assms(2, 3) by (simp_all add: buf_bytes_def)
  moreover have "b_off b' = 0 \<and> b_len b' = length p \<and> length st \<le> length st'"
    using assms(2-4) by (auto simp: buf_Write_def buf_put_def buf_Reset_def Let_def split: if_splits)
  ultimately show ?thesis by (auto simp: buf_bytes_def)
qed

lemma write_in_place:
  assumes "b_len b = 0" "length p \<le> length (st ! b_arr b)"
  shows "buf_Write grow p (b, st) = (b\<lparr>b_len := length p\<rparr>, st[b_arr b := p @ drop (length p) (st ! b_arr b)])"
  using assms by (simp add: buf_Write_def buf_put_def put_at_def Let_def)

lemma Blob_std:
  "Blob (std_ops grow gz) [] code ct b (r, st) =
     (case buf_Write grow b (sr_buffer r, st) of (bf, st') \<Rightarrow>
        (r\<lparr>sr_status := code, sr_header := h_Set ''Content-Type'' ct (sr_header r), sr_buffer := bf\<rparr>, st'))"
proof -
  have "canonical ''Content-Type'' = ''Content-Type''" by code_simp
  then show ?thesis
    by (simp add: Blob_def Let_def std_ops_def std_WriteHeader_def std_Write_def split: prod.split)
qed

lemma std_Commit_array: "\<exists>r'. std_Commit (r, st) = (r', st) \<and> b_arr (sr_buffer r') = b_arr (sr_buffer r)"
  by (simp add: std_Commit_def drain_def send_head_def buf_Reset_def)

text \<open>A cached body does not stay what it was. On the standard engine the cached response shares the array of the buffer with the pooled
  response. When that response next serves a request with a body that is not longer, the beginning of the cached body is overwritten with it,
  and the next request for the cached route gets the mixture, with status 200 whatever the status was.\<close>

lemma cached_body_overwritten:
  assumes "std_ok s" "cache (route_key os q) = None" "pr_mode q = ''http''"
    and first: "s1 = std_cached_serve (Some os) q (answers (std_ops grow gz) code ct b1) h1 (s, cache)"
    and other: "length b2 \<le> length b1" "s2 = std_cached_serve None q2 (answers (std_ops grow gz) code2 ct2 b2) h2 s1"
  shows "wi_body (sr_wire (fst (fst (std_cached_serve (Some os) q handler h3 s2)))) = b2 @ drop (length b2) b1
    \<and> map_option fst (wi_head (sr_wire (fst (fst (std_cached_serve (Some os) q handler h3 s2))))) = Some 200"
proof -
  obtain r st where s: "s = (r, st)" by fastforce
  let ?k = "route_key os q"
  define r0 where "r0 = std_reset h1 r"
  obtain bf st1 where w: "buf_Write grow b1 (sr_buffer r0, st) = (bf, st1)" by fastforce
  have ok: "buf_ok st (sr_buffer r0)" using assms(1) std_reset_seen(1) by (simp add: s r0_def std_ok_def)
  have zero: "b_len (sr_buffer r0) = 0" "b_off (sr_buffer r0) = 0" by (simp_all add: r0_def std_reset_def buf_Reset_def)
  from first_write [OF ok zero w] have bf: "b_off bf = 0" "b_len bf = length b1" "buf_ok st1 bf" "take (length b1) (st1 ! b_arr bf) = b1"
    by simp_all
  define r1 where "r1 = r0\<lparr>sr_status := code, sr_header := h_Set ''Content-Type'' ct (sr_header r0), sr_buffer := bf\<rparr>"
  define v where "v = std_CopyTo r1 (fst (std_NewResponse st1))"
  define st2 where "st2 = st1 @ [[]]"
  have "std_put (r1, st1) = (v, (r1, st2))"
    by (simp add: std_put_def v_def st2_def std_NewResponse_def new_Buffer_def)
  then have "s1 = (std_Commit (r1, st2), cache(?k \<mapsto> v))"
    using assms(2, 3) by (simp add: first s std_cached_serve_def cache_middleware_def Let_def answers_def Blob_std w r0_def [symmetric] r1_def)
  moreover obtain r2 where r2: "std_Commit (r1, st2) = (r2, st2)" "b_arr (sr_buffer r2) = b_arr bf"
    using std_Commit_array [of r1 st2] by (auto simp: r1_def)
  ultimately have s1: "s1 = ((r2, st2), cache(?k \<mapsto> v))" by simp
  define r3 where "r3 = std_reset h2 r2"
  have arr: "b_arr bf < length st1" "length b1 \<le> length (st1 ! b_arr bf)" using bf by (simp_all add: buf_ok_def)
  have r3: "b_len (sr_buffer r3) = 0" "b_arr (sr_buffer r3) = b_arr bf" by (simp_all add: r3_def std_reset_def buf_Reset_def r2)
  define st3 where "st3 = st2[b_arr bf := b2 @ drop (length b2) (st2 ! b_arr bf)]"
  have a2: "st2 ! b_arr bf = st1 ! b_arr bf" using arr by (simp add: st2_def nth_append)
  have w2: "buf_Write grow b2 (sr_buffer r3, st2) = ((sr_buffer r3)\<lparr>b_len := length b2\<rparr>, st3)"
    using write_in_place [of "sr_buffer r3" b2 st2 grow] r3 arr a2 other(1) by (simp add: st3_def)
  obtain r4 where s2: "s2 = ((r4, st3), cache(?k \<mapsto> v))"
    using std_Commit_array [of "r3\<lparr>sr_status := code2, sr_header := h_Set ''Content-Type'' ct2 (sr_header r3),
      sr_buffer := (sr_buffer r3)\<lparr>b_len := length b2\<rparr>\<rparr>" st3]
    by (auto simp: other(2) s1 std_cached_serve_def cache_middleware_def Let_def answers_def Blob_std r3_def [symmetric] w2)
  have vb: "sr_buffer v = bf" by (simp add: v_def std_CopyTo_def r1_def)
  have bytes: "buf_bytes st3 bf = b2 @ drop (length b2) b1"
  proof -
    have "st3 ! b_arr bf = b2 @ drop (length b2) (st1 ! b_arr bf)" using arr by (simp add: st3_def st2_def nth_append)
    moreover have "drop (length b2) b1 = take (length b1 - length b2) (drop (length b2) (st1 ! b_arr bf))"
      using bf(4) by (metis drop_take)
    ultimately show ?thesis using bf(1, 2) other(1) by (simp add: buf_bytes_def)
  qed
  show ?thesis
    using assms(3) by (simp add: s2 std_cached_serve_def cache_middleware_def std_load_def std_CopyTo_def vb std_reset_def std_Commit_def drain_def refused_def body_allowed_def
        send_head_def no_wire_def bytes)
qed


lemma cached_body_overwritten_witness:
  "wi_body (sr_wire (fst (fst (std_cached_serve (Some ([], [])) sample_request (answers (std_ops (+) id) 200 ''t'' ''e'') Map.empty
       (std_cached_serve None sample_request (answers (std_ops (+) id) 200 ''t'' ''xy'') Map.empty
         (std_cached_serve (Some ([], [])) sample_request (answers (std_ops (+) id) 201 ''t'' ''abcd'') Map.empty
           (std_NewResponse [], Map.empty))))))) = ''xycd''"
proof -
  have "std_ok (std_NewResponse [])" by (rule new_std_ok)
  moreover have "pr_mode sample_request = ''http''" by (simp add: sample_request_def)
  ultimately show ?thesis
    using cached_body_overwritten [OF _ _ _ refl _ refl, of "std_NewResponse []" Map.empty "([], [])" sample_request "''xy''" "''abcd''"]
    by simp
qed

text \<open>On the engine of fasthttp the cached response is a copy: the client gets what was answered, with its status.\<close>

lemma fast_cached_body_kept:
  assumes "cache (route_key os q) = None" "pr_mode q = ''http''"
    and "s1 = fast_cached_serve (Some os) q (answers (fast_ops gz) code ct b1) h1 (r, cache)"
    and "s2 = fast_cached_serve None q2 (answers (fast_ops gz) code2 ct2 b2) h2 s1"
  shows "fr_body (fst (fast_cached_serve (Some os) q handler h3 s2)) = b1 \<and> fr_code (fst (fast_cached_serve (Some os) q handler h3 s2)) = code"
  using assms
  by (simp add: fast_cached_serve_def cache_middleware_def Let_def answers_def fast_put_def fast_load_def fast_CopyTo_def fast_Commit_def
      Blob_def fast_ops_def fast_WriteHeader_def fast_Write_def fast_reset_def)

text \<open>A second answer to the same request is added to the first one: on the standard engine with the last status, on the other with the first.\<close>

lemma two_answers:
  assumes "std_ok s" "\<not> fr_committed r"
  shows "std_seen (Blob (std_ops grow gz) [] c2 t2 b2 (Blob (std_ops grow gz) [] c1 t1 b1 s)) =
      (c2, h_Set ''Content-Type'' t2 (h_Set ''Content-Type'' t1 (fst (snd (std_seen s)))), snd (snd (std_seen s)) @ b1 @ b2)
    \<and> fst (fast_seen (Blob (fast_ops gz) [] c2 t2 b2 (Blob (fast_ops gz) [] c1 t1 b1 r))) = c1
    \<and> snd (snd (fast_seen (Blob (fast_ops gz) [] c2 t2 b2 (Blob (fast_ops gz) [] c1 t1 b1 r)))) = fr_body r @ b1 @ b2"
proof -
  have c: "canonical ''Content-Type'' = ''Content-Type''" by code_simp
  show ?thesis using assms
    by (simp add: Blob_def Let_def std_ops_simps std_Set_seen std_WriteHeader_seen std_Write_seen c split: prod.split)
      (simp add: fast_seen_def fast_ops_def fast_WriteHeader_def fast_Write_def fast_Commit_def)
qed

end
