(* ===== verification/Spec2Isabelle.thy ===== *)
theory Spec2Isabelle
  imports CronParser CronSpec CronRunner RouteMux WorkPool WCache GorpExec RestAction RestPool RestDb RestConv
    StoreLock GorpSelect RestReport UtilText UtilParams UtilSlice UtilStruct RestData WhttpBind WLog WhttpProxy RestSession HttpResponse
begin

text \<open>
  A verification library for wgo, a framework in Go for HTTP and RPC services with scheduled
  jobs, a cache and an object-relational mapper. File names are relative to \<open>src/\<close>.

  \<^bold>\<open>The program and its parts.\<close> A service registers its routes with a
  multiplexer per server (\<open>whttp/mux.go\<close>), which builds a radix tree of them
  (\<open>whttp/router.go\<close>); an engine hands every request to \<open>Serve\<close>, which looks the handler
  up in the tree and runs it inside its middlewares. Handlers reach the database through
  the mapper (\<open>gorp/\<close>), keep values in the cache (\<open>cache/\<close>), hand work to a pool of goroutines
  (\<open>work.go\<close>) and start jobs by a crontab line (\<open>cron/\<close>). The REST layer (\<open>rest/\<close>) gives every model a set
  of routes and turns the query string of a request into a statement of the mapper's query builder.
  Beyond the pointers modelled below, these parts do not share state: they meet in the framework's root package.

  \<^bold>\<open>The theories\<close>, each with the files it models.

  \<^item> \<open>Prelude\<close>: what the models share. A run-time panic is a value of \<open>'a outcome\<close>;
    the functions of Go's packages \<open>strings\<close> and \<open>strconv\<close> that the sources
    call, with their lemmas (splitting and joining, decimal numbers); bit tests on 64-bit words.
  \<^item> \<open>CronParser\<close> (\<open>cron/parser.go\<close>, the bounds of \<open>cron/spec.go\<close>, \<open>Every\<close> of
    \<open>cron/constantdelay.go\<close>): from a line to a schedule. Data and bit sets; \<open>getBits\<close>,
    \<open>getRange\<close>, \<open>getField\<close>, \<open>expandFields\<close>, \<open>Parse\<close>, \<open>parseDescriptor\<close>. Its lemmas show that the
    parser ends and never panics, which sets of values a field denotes, that a printed range
    is read back, and that the descriptors and the five-field form are abbreviations.
  \<^item> \<open>GoTime\<close>: the part of Go's package \<open>time\<close> that schedules need: dates of the Gregorian
    calendar from a count of seconds and back, truncation and addition of units.
  \<^item> \<open>CronSpec\<close> (\<open>Next\<close> and \<open>dayMatches\<close> of \<open>cron/spec.go\<close>, \<open>cron/constantdelay.go\<close>): the next
    activation time. The locale \<open>calendar_unit\<close> is what the search needs of a unit
    (month, day, hour, minute, second) and is interpreted for each; from it follow the loops'
    results and, over one pass and the jumps to its label, that \<open>Next\<close> ends with the
    earliest matching time within its five years.
  \<^item> \<open>CronRunner\<close> (\<open>cron/cron.go\<close>): the goroutine of \<open>run\<close> as a machine over the cases of its
    select statement, and the methods that talk to it. The locales \<open>schedule_iface\<close> (a
    schedule's \<open>Next\<close> is later or zero), \<open>entry_sorter\<close> (what \<open>sort.Sort\<close>
    promises) and \<open>cron_runner\<close>, which extends both, carry the invariants; the
    interpretations are the package's schedules and insertion sort.
  \<^item> \<open>RouteTree\<close> (the nodes, \<open>insert\<close> and \<open>Add\<close> of \<open>whttp/router.go\<close>): the radix tree, its
    well-formedness, and the map from stored paths and verbs to handlers that it stands for;
    \<open>Add\<close> is a sequence of updates of that map.
  \<^item> \<open>RouteFind\<close> (\<open>Find\<close>): the lookup as a machine whose program counter names the
    labels of the code, with a bound on the steps.
  \<^item> \<open>RouteMux\<close> (the rest of \<open>whttp/router.go\<close>, \<open>whttp/mux.go\<close>): routes, options, middleware chains,
    \<open>BuildRoutes\<close> and \<open>Serve\<close>.
  \<^item> \<open>WCache\<close> (\<open>cache/cache.go\<close>, \<open>cache/bucket.go\<close>): 256 buckets of 256 entries with 32-bit expiry times.
    The locale \<open>lossy_store\<close> is a store that may forget; the cache interprets it.
  \<^item> \<open>GorpDialect\<close> (\<open>gorp/dialect.go\<close>): the interface \<open>Dialect\<close> as a record of methods and
    the five dialects as its values. The locale \<open>dialect\<close> states what the mapper relies
    on (quoting, place holders) and is interpreted for all five.
  \<^item> \<open>GorpBuilder\<close> (\<open>gorp/builder.go\<close>, \<open>gorp/builder_private.go\<close>, \<open>gorp/search.go\<close>): the query builder. The locale
    \<open>condition_printer\<close> is shared by the printing of positive and of negated conditions.
  \<^item> \<open>GorpTable\<close> (\<open>gorp/gorp.go\<close>, \<open>gorp/main.go\<close>, the field reader of \<open>utils/struct.go\<close>): columns of a
    struct, tables, and the plans of insert, update, delete and get with their binding.
  \<^item> \<open>GorpExec\<close> (\<open>gorp/gorp.go\<close>): running the plans on lists of elements, lock errors,
    transactions, named queries.
  \<^item> \<open>GorpSelect\<close> (\<open>gorp/gorp.go\<close>): reading the rows of a query into values, structs and slices, with the hooks;
    what a select into a slice does, row by row, and when \<open>SelectOne\<close> succeeds.
  \<^item> \<open>WorkJob\<close> (\<open>work.go\<close>, \<open>server/error.go\<close>, \<open>error.go\<close>): jobs and their answers, chains of handlers, middlewares
    and the routes of methods. Contexts and jobs are cells of a world, shared through pointers.
  \<^item> \<open>WorkPool\<close> (\<open>work.go\<close>): the workers, the dispatcher and the goroutines that push jobs and wait for
    answers, as a machine over the sends and receives of their channels; one run of a handler is
    one step. The locales \<open>job_server\<close> and \<open>private_job_server\<close> are the contract of a pool and are interpreted
    on the machine; from them follow that no job is lost or run twice and that a
    request gets its own answer.
  \<^item> \<open>RestCond\<close> (the conditions of \<open>rest/model.go\<close>, \<open>utils/tag.go\<close>): what a condition adds to a statement;
    the values of a list go into it as they are.
  \<^item> \<open>RestQuery\<close> (\<open>rest/query.go\<close>, \<open>Init\<close> of \<open>rest/middlewares.go\<close>, \<open>SetConditions\<close> of \<open>rest/model.go\<close>, the reading
    actions of \<open>rest/action.go\<close>): from the parameters of a request to the conditions, the page, the order
    and the range of times, and from these to the conditions of a model. The conditions are cells of a
    heap; the lemmas show when a request panics and that its pointers stay valid.
  \<^item> \<open>RestRead\<close> (\<open>ReadPrepare\<close> and \<open>Rows\<close> of \<open>rest/model.go\<close>): the statement that reads the rows, composed
    from all the above, down to its text and its variables.
  \<^item> \<open>RestModel\<close> (the keys, \<open>Filter\<close> and \<open>Protect\<close> of \<open>rest/model.go\<close>, the setting of fields of \<open>utils/struct.go\<close>): the
    fields of a model as its columns see them.
  \<^item> \<open>RestRecord\<close> (the rows and records of \<open>rest/model.go\<close>, \<open>rest/cache.go\<close>): the cache of theory \<open>WCache\<close> in front
    of a database that is a parameter. The invariant \<open>coherent\<close> says that what is cached under a primary key is the row;
    reads, updates, flushes and inserts by primary key keep it, deletions do not.
  \<^item> \<open>RestValid\<close> (the keepers and \<open>Valid\<close> of \<open>rest/model.go\<close>): what a client may write. The locale \<open>field_keepers\<close> is
    what validation needs of the keepers, and is interpreted on those the program comes with.
  \<^item> \<open>RestAction\<close> (\<open>rest/router.go\<close>, \<open>rest/action.go\<close>, the answers of \<open>rest/rest.go\<close>): the handlers over the interface
    \<open>Action\<close>, whose default methods compose the theories before.
  \<^item> \<open>RestPool\<close> (\<open>rest/rest.go\<close>, the making of models of \<open>rest/model.go\<close>): the values of type \<open>*REST\<close>, their pools and the
    registry, on a heap. The invariant \<open>pools_inv\<close> over the runs of registrations and requests says that the pools of the routes are
    empty, so a request never sees what another one left.
  \<^item> \<open>RestDb\<close> (the transactions of \<open>rest/db.go\<close>, \<open>Transaction\<close> of \<open>rest/model.go\<close>): nested transactions by savepoints. They refine a
    stack of contents, step by step, on every server that keeps savepoints as SQL servers document it.
  \<^item> \<open>RestConv\<close> (\<open>BaseConverter\<close> of \<open>rest/db.go\<close>): what is written to a column and what a column sets.
  \<^item> \<open>StoreLock\<close> (\<open>storage/storage.go\<close>, \<open>storage/lock.go\<close>, \<open>storage/redis/redis.go\<close>): the nodes of a store, the node of a key and the
    lock. Its lemmas show that every key has a node, whatever the rounding of the division, and that the lock excludes nobody.
  \<^item> \<open>UtilText\<close> (\<open>utils/uuid.go\<close>, \<open>utils/words.go\<close>): short identifiers both ways, and plurals.
  \<^item> \<open>UtilParams\<close> (\<open>utils/params.go\<close>, \<open>utils/type.go\<close>): variadic parameters and the conversions of their values.
  \<^item> \<open>RestReport\<close> (\<open>rest/report.go\<close>, \<open>rest/es.go\<close>): reports over the search index, from their setters to the tree of aggregations they
    ask for and the rows read from the response; results are found inside their wraps, running sums are not read, and what intervals do to
    a time range.
  \<^item> \<open>UtilStruct\<close> (the readers of struct types of \<open>utils/struct.go\<close>): fields with their tags, prefixes and indices, and columns. An index is a
    Go slice over an array in a store, so that \<open>append\<close> shares arrays as it does in Go; up to three levels the readers refine a
    specification by paths, from the fourth on they do not.
  \<^item> \<open>UtilSlice\<close> (\<open>utils/slice.go\<close>, \<open>utils/safemap.go\<close>): the functions on slices, which the lemmas compare with the list functions they
    should be, and the locked map.
  \<^item> \<open>RestData\<close> (\<open>rest/data.go\<close>): checklists, packed into the bits of a column; they come back with the flags they had.
  \<^item> \<open>WhttpBind\<close> (\<open>whttp/binder.go\<close>): the fields of a struct from a form or a query; numbers fit their fields, and a struct
    comes back from its form.
  \<^item> \<open>WhttpProxy\<close> (\<open>whttp/proxy.go\<close>): the reverse proxy as a middleware: configuration, cache keys, the headers of the outgoing request and of
    the answer, and the copying of the body. What the connection of the client is about does not reach the target,
    but for a header whose first value is empty; the cache mixes hosts.
  \<^item> \<open>HttpResponse\<close> (\<open>response.go\<close> of \<open>whttp/standard/\<close> and \<open>whttp/fasthttp/\<close>, \<open>context_http.go\<close>, \<open>cache.go\<close>): the responses of the two engines,
    the answers that a context writes and the middleware that caches them. The locale \<open>http_response\<close> is what a context relies on, and both
    responses interpret it; a pooled response hands over the answer of each request, and a cached body of the standard engine shares the array of a pooled one.
  \<^item> \<open>RestSession\<close> (\<open>rest/session.go\<close>, \<open>rest/client.go\<close>): sessions, their store and cookies, the middleware that authorizes, and the
    client of inner services, with the life of a session from \<open>SetSession\<close> to \<open>DelSession\<close> and until the deletion, which runs later in a goroutine, has reached the store.
  \<^item> \<open>WLog\<close> (\<open>wlog/logger.go\<close>, \<open>wlog/pattlog.go\<close>, \<open>wlog/file.go\<close>): levels, filters, the format of a line, and the file writer, its rotation and
    the deletions of old files that it starts; over their runs every line is kept within \<open>MaxDays\<close> while a name is free.

  \<^bold>\<open>Loops and bounds.\<close> A loop that need not end for every argument (\<open>getBits\<close>, the two
  of \<open>Next\<close>, those of \<open>SliceChunk\<close> and \<open>SliceRange\<close>) is a \<^theory_text>\<open>partial_function\<close> into option, \<open>None\<close> meaning that it does not return; for the
  arguments the program passes it is proved to return. The other loops are structural or
  have a measure. \<open>Find\<close> does have endless runs, so it takes a bound on its steps; on the routers
  the results are about, the length of the path plus one is enough, and this is proved. The
  probing loops of the cache follow the array, so 256 steps are enough. \<open>Next\<close> searches five years, so
  the number of jumps to its label is bounded by the days left.

  \<^bold>\<open>Integers.\<close> Bit sets and the cache's times, hashes and indices are words of the
  width of the code, with their wrap-around; the offset of a page wraps explicitly. Elsewhere Go's \<open>int\<close> is unbounded, where the
  values (lengths, field values, ports) stay far from 64 bits.

  \<^bold>\<open>Parameters.\<close> Code that is not of this repository is an argument of the
  definitions: the hash function of the cache, \<open>time.ParseDuration\<close>, the sorting function, the
  clock (every time comes with its event), the executor of \<open>database/sql\<close>, the hooks
  and the converter of the mapper's user, the ranges that the databases document for
  their column types, the JSON encoder of an access line, what \<open>fmt\<close> prints for other values than strings
  and integers, what a model's fields hold, the servers behind transactions and stores, the JSON codec and the conversions of
  floating-point numbers.

  \<^bold>\<open>Not modelled.\<close> Of the engines (\<open>whttp/fasthttp\<close>, \<open>whttp/standard\<close>), all but their responses: requests, headers, urls and cookies are
  adapters. The RPC engine (\<open>wrpc\<close>), the servers (\<open>server\<close>), the listener, the
  daemon, the other log writers and the command line are calls of the network and the operating system. Of
  the REST layer, saving to the search index (\<open>rest/es.go\<close>) and the object store call theirs; \<open>resty/\<close> is a copy of an HTTP client. The configuration (\<open>environ/\<close>)
  reads files into structures of a library. Daylight saving
  transitions, the scheduling of goroutines, the memory model, and text outside ASCII are not modelled.
\<close>

end
